(* ===== verification/Hub_Prelude.thy ===== *)
theory Hub_Prelude
  imports Main "HOL-Library.Word"
begin

text \<open>
  Shared vocabulary of the development.  Machine integers are words of the width the C++ code
  declares; pointers are natural numbers used as addresses of an explicit heap; an operation that
  may run into undefined behaviour returns a sum whose left side names the fault.  C strings are
  \<open>string\<close> values without the terminating NUL.  The second half holds the theory of intrusive
  doubly linked chains (objects that carry their own previous and next pointers), which both the
  user table and the ban table use.
\<close>

unbundle bit_operations_syntax

named_theorems ub_simps \<open>equations of the fault monad\<close>

section \<open>Machine types and bytes\<close>

type_synonym byte = "8 word"
type_synonym u16 = "16 word"
type_synonym u32 = "32 word"
type_synonym u64 = "64 word"
type_synonym addr = nat

definition byte_of :: "char \<Rightarrow> byte" where
  "byte_of c = word_of_nat (of_char c)"

definition char_of_byte :: "byte \<Rightarrow> char" where
  "char_of_byte b = char_of (unat b)"

lemma of_char_less_256 [simp]: "of_char c < (256 :: nat)"
proof -
  have "(of_char c :: nat) = of_char (char_of (of_char c :: nat))" by simp
  also have "\<dots> = of_char c mod 256" by (simp only: of_char_of)
  finally show ?thesis by (metis mod_less_divisor zero_less_numeral)
qed

lemma unat_byte_of [simp]: "unat (byte_of c) = of_char c"
  by (simp add: byte_of_def unat_of_nat)

lemma char_of_byte_of [simp]: "char_of_byte (byte_of c) = c"
  by (simp add: char_of_byte_def)

lemma byte_of_char_of_byte [simp]: "byte_of (char_of_byte b) = b"
proof -
  have "unat b < 256" using unsigned_less [of b] by simp
  then show ?thesis by (simp add: byte_of_def char_of_byte_def)
qed

lemma char_of_byte_eq_iff [simp]: "char_of_byte a = char_of_byte b \<longleftrightarrow> a = b"
  by (metis byte_of_char_of_byte)

lemma byte_of_eq_iff [simp]: "byte_of a = byte_of b \<longleftrightarrow> a = b"
  by (metis char_of_byte_of)

text \<open>Reading a C string at an index: the byte after the last one is the NUL.\<close>

definition cget :: "string \<Rightarrow> nat \<Rightarrow> char" where
  "cget s i = (if i < length s then s ! i else CHR 0x00)"

text \<open>The C string a byte string holds: everything before its first NUL.\<close>

definition c_str :: "string \<Rightarrow> string" where
  "c_str s = takeWhile (\<lambda>c. c \<noteq> CHR 0x00) s"

lemma c_str_id: "CHR 0x00 \<notin> set s \<Longrightarrow> c_str s = s"
  by (auto simp: c_str_def takeWhile_eq_all_conv)

text \<open>Decimal rendering of an unsigned value, as \<open>std::to_string\<close> gives it.\<close>

fun to_dec :: "nat \<Rightarrow> string" where
  "to_dec n = (if n < 10 then [char_of (48 + n)] else to_dec (n div 10) @ [char_of (48 + n mod 10)])"

declare to_dec.simps [simp del]

lemma to_dec_nonempty [simp]: "to_dec n \<noteq> []"
  by (subst to_dec.simps) simp

section \<open>Undefined behaviour as a value\<close>

datatype ub =
    DoubleFree addr
  | UseAfterFree addr
  | NullDeref
  | BufferOverflow
  | LoopFuel
  | ProcessExit

type_synonym 'a res = "ub + 'a"

fun rbind :: "'a res \<Rightarrow> ('a \<Rightarrow> 'b res) \<Rightarrow> 'b res" where
  "rbind (Inl e) f = Inl e"
| "rbind (Inr x) f = f x"

declare rbind.simps [ub_simps]

lemma rbind_Inr_iff [ub_simps]: "rbind m f = Inr y \<longleftrightarrow> (\<exists>x. m = Inr x \<and> f x = Inr y)"
  by (cases m) simp_all

lemma rbind_Inl_iff: "rbind m f = Inl e \<longleftrightarrow> m = Inl e \<or> (\<exists>x. m = Inr x \<and> f x = Inl e)"
  by (cases m) auto

lemma rbind_assoc: "rbind (rbind m f) g = rbind m (\<lambda>x. rbind (f x) g)"
  by (cases m) auto

text \<open>
  What may come out of an operation: \<open>safe E m Q\<close> says that a fault of \<open>m\<close> is one of \<open>E\<close> and a
  result satisfies \<open>Q\<close>.
\<close>

definition safe :: "(ub \<Rightarrow> bool) \<Rightarrow> 'a res \<Rightarrow> ('a \<Rightarrow> bool) \<Rightarrow> bool" where
  "safe E m Q = (case m of Inl e \<Rightarrow> E e | Inr x \<Rightarrow> Q x)"

lemma safe_Inr [simp]: "safe E (Inr x) Q = Q x"
  by (simp add: safe_def)

lemma safe_Inl [simp]: "safe E (Inl e) Q = E e"
  by (simp add: safe_def)

lemma safe_rbind [simp]: "safe E (rbind m f) Q = safe E m (\<lambda>x. safe E (f x) Q)"
  by (cases m) simp_all

lemma safe_conseq: "safe E m Q \<Longrightarrow> (\<And>x. Q x \<Longrightarrow> Q' x) \<Longrightarrow> safe E m Q'"
  by (cases m) simp_all

lemma safe_InrD: "safe E m Q \<Longrightarrow> m = Inr x \<Longrightarrow> Q x"
  by simp

lemma safe_InlD: "safe E m Q \<Longrightarrow> m = Inl e \<Longrightarrow> E e"
  by simp

section \<open>Heap cells\<close>

text \<open>Dereferencing a pointer: the cell, or the fault.\<close>

definition deref :: "(addr \<Rightarrow> 'n option) \<Rightarrow> addr \<Rightarrow> 'n res" where
  "deref h a = (case h a of None \<Rightarrow> Inl (UseAfterFree a) | Some n \<Rightarrow> Inr n)"

text \<open>Writing through a live pointer.\<close>

definition hmod :: "addr \<Rightarrow> ('n \<Rightarrow> 'n) \<Rightarrow> (addr \<Rightarrow> 'n option) \<Rightarrow> (addr \<Rightarrow> 'n option)" where
  "hmod a f h = h(a := map_option f (h a))"

lemma hmod_same [simp]: "hmod a f h a = map_option f (h a)"
  by (simp add: hmod_def)

lemma hmod_other [simp]: "b \<noteq> a \<Longrightarrow> hmod a f h b = h b"
  by (simp add: hmod_def)

lemma dom_hmod [simp]: "dom (hmod a f h) = dom h"
  by (auto simp: hmod_def dom_def split: if_splits)

lemma deref_Some [ub_simps]: "h a = Some n \<Longrightarrow> deref h a = Inr n"
  by (simp add: deref_def)

lemma deref_Inr_iff [ub_simps]: "deref h a = Inr n \<longleftrightarrow> h a = Some n"
  by (simp add: deref_def split: option.splits)

definition hwrite :: "addr \<Rightarrow> ('n \<Rightarrow> 'n) \<Rightarrow> (addr \<Rightarrow> 'n option) \<Rightarrow> (addr \<Rightarrow> 'n option) res" where
  "hwrite a f h = (case h a of None \<Rightarrow> Inl (UseAfterFree a) | Some n \<Rightarrow> Inr (hmod a f h))"

lemma hwrite_live [ub_simps]: "h a = Some n \<Longrightarrow> hwrite a f h = Inr (hmod a f h)"
  by (simp add: hwrite_def)

lemma hwrite_Inr_iff [ub_simps]: "hwrite a f h = Inr h' \<longleftrightarrow> (\<exists>n. h a = Some n) \<and> h' = hmod a f h"
  by (auto simp: hwrite_def split: option.splits)

section \<open>Intrusive doubly linked chains\<close>

text \<open>
  \<open>dseg prv nxt h p x as q y\<close>: walking from the pointer \<open>x\<close>, whose predecessor is \<open>p\<close>, the
  chain visits exactly \<open>as\<close> and arrives at the pointer \<open>y\<close>, \<open>q\<close> being the last object passed.
\<close>

primrec dseg :: "('n \<Rightarrow> addr option) \<Rightarrow> ('n \<Rightarrow> addr option) \<Rightarrow> (addr \<Rightarrow> 'n option)
    \<Rightarrow> addr option \<Rightarrow> addr option \<Rightarrow> addr list \<Rightarrow> addr option \<Rightarrow> addr option \<Rightarrow> bool" where
  "dseg prv nxt h p x [] q y = (p = q \<and> x = y)"
| "dseg prv nxt h p x (a # as) q y =
     (x = Some a \<and> (\<exists>n. h a = Some n \<and> prv n = p \<and> dseg prv nxt h (Some a) (nxt n) as q y))"

definition dchain :: "('n \<Rightarrow> addr option) \<Rightarrow> ('n \<Rightarrow> addr option) \<Rightarrow> (addr \<Rightarrow> 'n option)
    \<Rightarrow> addr option \<Rightarrow> addr list \<Rightarrow> bool" where
  "dchain prv nxt h x as = (\<exists>q. dseg prv nxt h None x as q None)"

lemma dseg_append:
  "dseg prv nxt h p x (as @ bs) q y \<longleftrightarrow>
     (\<exists>r z. dseg prv nxt h p x as r z \<and> dseg prv nxt h r z bs q y)"
  by (induction as arbitrary: p x) auto

lemma dseg_cong:
  "(\<And>a. a \<in> set as \<Longrightarrow> h' a = h a) \<Longrightarrow> dseg prv nxt h' p x as q y = dseg prv nxt h p x as q y"
  by (induction as arbitrary: p x) auto

lemma dseg_hmod_other [simp]:
  "c \<notin> set as \<Longrightarrow> dseg prv nxt (hmod c f h) p x as q y = dseg prv nxt h p x as q y"
  by (rule dseg_cong) (auto simp: hmod_def)

lemma dseg_live: "dseg prv nxt h p x as q y \<Longrightarrow> a \<in> set as \<Longrightarrow> \<exists>n. h a = Some n"
  by (induction as arbitrary: p x) auto

lemma dseg_last: "dseg prv nxt h p x as q y \<Longrightarrow> q = (if as = [] then p else Some (last as))"
  by (induction as arbitrary: p x) (auto split: if_splits)

lemma dseg_first: "dseg prv nxt h p x as q y \<Longrightarrow> x = (if as = [] then y else Some (hd as))"
  by (cases as) auto

lemma dchain_Nil [simp]: "dchain prv nxt h x [] \<longleftrightarrow> x = None"
  by (auto simp: dchain_def)

lemma dchain_cong:
  "(\<And>a. a \<in> set as \<Longrightarrow> h' a = h a) \<Longrightarrow> dchain prv nxt h' x as = dchain prv nxt h x as"
proof -
  assume "\<And>a. a \<in> set as \<Longrightarrow> h' a = h a"
  then have "dseg prv nxt h' None x as q None = dseg prv nxt h None x as q None" for q
    by (rule dseg_cong)
  then show ?thesis by (simp only: dchain_def)
qed

lemma dchain_hmod_other [simp]:
  "c \<notin> set as \<Longrightarrow> dchain prv nxt (hmod c f h) x as = dchain prv nxt h x as"
  by (simp add: dchain_def)

lemma dchain_upd_other [simp]:
  "c \<notin> set as \<Longrightarrow> dchain prv nxt (h(c := v)) x as = dchain prv nxt h x as"
  by (rule dchain_cong) auto

lemma dchain_live: "dchain prv nxt h x as \<Longrightarrow> a \<in> set as \<Longrightarrow> \<exists>n. h a = Some n"
  by (auto simp: dchain_def dest: dseg_live)

text \<open>Writing the other fields of a node keeps every chain.\<close>

lemma dseg_keeps_links:
  assumes "\<And>a n. h a = Some n \<Longrightarrow> \<exists>n'. h' a = Some n' \<and> prv n' = prv n \<and> nxt n' = nxt n"
  shows "dseg prv nxt h p x as q y \<Longrightarrow> dseg prv nxt h' p x as q y"
proof (induction as arbitrary: p x)
  case (Cons a as)
  then obtain n where n: "x = Some a" "h a = Some n" "prv n = p" "dseg prv nxt h' (Some a) (nxt n) as q y" by auto
  from assms [OF n(2)] obtain n' where "h' a = Some n'" "prv n' = prv n" "nxt n' = nxt n" by blast
  with n show ?case by auto
qed simp

lemma dchain_keeps_links:
  assumes "\<And>a n. h a = Some n \<Longrightarrow> \<exists>n'. h' a = Some n' \<and> prv n' = prv n \<and> nxt n' = nxt n"
    and "dchain prv nxt h x as"
  shows "dchain prv nxt h' x as"
  using assms(2) dseg_keeps_links [of h h' prv nxt, OF assms(1)] unfolding dchain_def by blast

lemma dchain_head: "dchain prv nxt h x as \<Longrightarrow> x = (if as = [] then None else Some (hd as))"
  by (auto simp: dchain_def dest: dseg_first)

lemma dchain_split:
  assumes "dchain prv nxt h x (xs @ a # ys)"
  shows "\<exists>n. h a = Some n
      \<and> prv n = (if xs = [] then None else Some (last xs))
      \<and> nxt n = (if ys = [] then None else Some (hd ys))
      \<and> dseg prv nxt h None x xs (prv n) (Some a)
      \<and> (\<exists>q. dseg prv nxt h (Some a) (nxt n) ys q None)"
proof -
  from assms obtain r z q where xs: "dseg prv nxt h None x xs r z"
    and ays: "dseg prv nxt h r z (a # ys) q None"
    by (auto simp: dchain_def dseg_append)
  then obtain n where n: "h a = Some n" "prv n = r" "z = Some a"
    and ys: "dseg prv nxt h (Some a) (nxt n) ys q None" by auto
  from dseg_last [OF xs] have r: "r = (if xs = [] then None else Some (last xs))" .
  from dseg_first [OF ys] have nx: "nxt n = (if ys = [] then None else Some (hd ys))" .
  show ?thesis
  proof (intro exI [of _ n] conjI)
    show "h a = Some n" by (fact n(1))
    show "prv n = (if xs = [] then None else Some (last xs))" using n(2) r by (simp only:)
    show "nxt n = (if ys = [] then None else Some (hd ys))" by (fact nx)
    show "dseg prv nxt h None x xs (prv n) (Some a)" using xs n(2,3) by (simp only:)
    show "\<exists>q. dseg prv nxt h (Some a) (nxt n) ys q None" using ys by (rule exI)
  qed
qed

text \<open>
  The interface of a chain node: its two links, and the laws of writing them.  The user object and
  the ban object provide it.
\<close>

locale chain_node =
  fixes prv :: "'n \<Rightarrow> addr option" and nxt :: "'n \<Rightarrow> addr option"
    and set_prv :: "addr option \<Rightarrow> 'n \<Rightarrow> 'n" and set_nxt :: "addr option \<Rightarrow> 'n \<Rightarrow> 'n"
  assumes prv_set_prv: "prv (set_prv p n) = p"
    and nxt_set_prv: "nxt (set_prv p n) = nxt n"
    and prv_set_nxt: "prv (set_nxt p n) = prv n"
    and nxt_set_nxt: "nxt (set_nxt p n) = p"
begin

lemmas link_laws = prv_set_prv nxt_set_prv prv_set_nxt nxt_set_nxt

lemma dseg_hmod_last:
  "dseg prv nxt h p x (as @ [c]) q y \<Longrightarrow> c \<notin> set as \<Longrightarrow>
     dseg prv nxt (hmod c (set_nxt z) h) p x (as @ [c]) q z"
  by (auto simp: dseg_append link_laws)

lemma dseg_hmod_first:
  "dseg prv nxt h p x (c # as) q y \<Longrightarrow> c \<notin> set as \<Longrightarrow>
     dseg prv nxt (hmod c (set_prv r) h) r x (c # as) q y"
  by (auto simp: link_laws)

lemma chain_push:
  assumes "dchain prv nxt h (Some f) (f # as)" and "distinct (a # f # as)"
    and "h a = Some n" and "prv n = None"
  shows "dchain prv nxt (hmod a (set_nxt (Some f)) (hmod f (set_prv (Some a)) h)) (Some a) (a # f # as)"
proof -
  from assms(1) obtain q where q: "dseg prv nxt h None (Some f) (f # as) q None"
    by (auto simp: dchain_def)
  let ?h1 = "hmod f (set_prv (Some a)) h"
  let ?h2 = "hmod a (set_nxt (Some f)) ?h1"
  have "dseg prv nxt ?h1 (Some a) (Some f) (f # as) q None"
    using dseg_hmod_first [OF q] assms(2) by simp
  then have "dseg prv nxt ?h2 (Some a) (Some f) (f # as) q None"
    using assms(2) by (simp del: dseg.simps(2))
  moreover have "?h2 a = Some (set_nxt (Some f) n)"
    using assms(2,3) by simp
  ultimately have "dseg prv nxt ?h2 None (Some a) (a # f # as) q None"
    using assms(4) by (subst dseg.simps(2)) (simp add: link_laws del: dseg.simps(2) hmod_same)
  then show ?thesis unfolding dchain_def by blast
qed

text \<open>Unlinking the head, the last and an inner object of a chain.\<close>

lemma chain_unlink_head:
  assumes "dchain prv nxt h x (a # s # ys)" and "distinct (a # s # ys)"
  shows "dchain prv nxt (hmod s (set_prv None) h) (Some s) (s # ys)"
proof -
  from assms(1) obtain n q where "dseg prv nxt h (Some a) (nxt n) (s # ys) q None"
    by (auto simp: dchain_def simp del: dseg.simps(2) simp: dseg.simps(2) [of _ _ _ _ _ a])
  then have "dseg prv nxt h (Some a) (Some s) (s # ys) q None"
    by (auto)
  from dseg_hmod_first [OF this, of None] assms(2) show ?thesis
    unfolding dchain_def by (auto simp del: dseg.simps(2))
qed

lemma chain_unlink_last:
  assumes "dchain prv nxt h x (xs @ [c, a])" and "distinct (xs @ [c, a])"
  shows "dchain prv nxt (hmod c (set_nxt None) h) x (xs @ [c])"
proof -
  from assms(1) obtain q y where "dseg prv nxt h None x (xs @ [c]) q y"
    using dseg_append [of prv nxt h None x "xs @ [c]" "[a]"] by (auto simp: dchain_def)
  from dseg_hmod_last [OF this, of None] assms(2) show ?thesis
    unfolding dchain_def by auto
qed

lemma chain_unlink_mid:
  assumes "dchain prv nxt h x (xs @ c # a # s # ys)" and d: "distinct (xs @ c # a # s # ys)"
  shows "dchain prv nxt (hmod s (set_prv (Some c)) (hmod c (set_nxt (Some s)) h)) x (xs @ c # s # ys)"
proof -
  let ?h1 = "hmod c (set_nxt (Some s)) h"
  let ?h2 = "hmod s (set_prv (Some c)) ?h1"
  from assms(1) obtain q y r z u where 1: "dseg prv nxt h None x (xs @ [c]) q y"
    and 2: "dseg prv nxt h r z (s # ys) u None"
    using dseg_append [of prv nxt h None x "xs @ [c]" "a # s # ys"]
    by (auto simp: dchain_def simp del: dseg.simps(2) simp: dseg.simps(2) [of _ _ _ _ _ a])
  have "dseg prv nxt ?h1 None x (xs @ [c]) q (Some s)"
    using dseg_hmod_last [OF 1] d by simp
  moreover have "q = Some c" using dseg_last [OF 1] by simp
  ultimately have A: "dseg prv nxt ?h2 None x (xs @ [c]) (Some c) (Some s)"
    using d by (subst dseg_hmod_other) auto
  have "dseg prv nxt ?h1 r z (s # ys) u None" using 2 d by (subst dseg_hmod_other) auto
  moreover from this have "z = Some s" by simp
  ultimately have "dseg prv nxt ?h2 (Some c) (Some s) (s # ys) u None"
    using dseg_hmod_first d by simp
  with A have "dseg prv nxt ?h2 None x ((xs @ [c]) @ s # ys) u None"
    unfolding dseg_append by blast
  then show ?thesis unfolding dchain_def by auto
qed

lemma chain_unlink_cases [consumes 4, case_names single head last mid]:
  assumes ch: "dchain prv nxt h x as" and d: "distinct as" and a: "a \<in> set as" and n: "h a = Some n"
  obtains (single) "prv n = None" and "nxt n = None" and "as = [a]" and "x = Some a"
  | (head) s where "prv n = None" and "nxt n = Some s" and "s \<in> set as" and "s \<noteq> a" and "x = Some a"
      and "remove1 a as \<noteq> []" and "dchain prv nxt (hmod s (set_prv None) h) (Some s) (remove1 a as)"
  | (last) c where "prv n = Some c" and "nxt n = None" and "c \<in> set as" and "c \<noteq> a" and "x \<noteq> Some a"
      and "remove1 a as \<noteq> []" and "dchain prv nxt (hmod c (set_nxt None) h) x (remove1 a as)"
  | (mid) c s where "prv n = Some c" and "nxt n = Some s" and "c \<in> set as" and "s \<in> set as"
      and "c \<noteq> a" and "s \<noteq> a" and "c \<noteq> s" and "x \<noteq> Some a" and "remove1 a as \<noteq> []"
      and "dchain prv nxt (hmod s (set_prv (Some c)) (hmod c (set_nxt (Some s)) h)) x (remove1 a as)"
proof -
  from a obtain xs ys where as: "as = xs @ a # ys" and nin: "a \<notin> set xs"
    by (metis split_list_first)
  from ch [unfolded as] have
    prv: "prv n = (if xs = [] then None else Some (last xs))" and
    nxt: "nxt n = (if ys = [] then None else Some (hd ys))"
    using dchain_split n by fastforce+
  have rem: "remove1 a as = xs @ ys" using nin by (simp add: as remove1_append)
  have x: "x = Some (hd as)" using dchain_head [OF ch] as by auto
  show thesis
  proof (cases xs rule: rev_cases)
    case Nil
    show thesis
    proof (cases ys)
      case Nil
      with \<open>xs = []\<close> prv nxt as x show thesis by (intro single) auto
    next
      case (Cons s ys')
      with \<open>xs = []\<close> prv nxt as x rem d ch chain_unlink_head [of h x a s ys'] show thesis
        by (intro head [of s]) auto
    qed
  next
    case (snoc xs' c)
    then have x': "x \<noteq> Some a" using x as d by (cases xs') auto
    show thesis
    proof (cases ys)
      case Nil
      with snoc prv nxt as x' rem d ch chain_unlink_last [of h x xs' c a] show thesis
        by (intro last [of c]) auto
    next
      case (Cons s ys')
      with snoc prv nxt as x' rem d ch chain_unlink_mid [of h x xs' c a s ys'] show thesis
        by (intro mid [of c s]) auto
    qed
  qed
qed

end

end
