(* ===== verification/Utility.thy ===== *)
theory Utility
  imports Hub_Prelude
begin

text \<open>
  The free functions of \<open>core/utility.cpp\<close> and \<open>core/utility.h\<close>: the lock/key handshake, nick and
  address hashing, case-insensitive comparison and search, number parsing, bounded printing into a
  buffer, the global message buffer and the time formatter.  The resolver calls \<open>inet_pton\<close> and
  \<open>inet_addr\<close> are parameters; \<open>LanguageManager\<close>'s texts are a function from text ids to strings.
\<close>

section \<open>Lock and key\<close>

text \<open>The six byte values the protocol cannot carry raw, and their escapes.\<close>

definition dcn_form :: "byte \<Rightarrow> string option" where
  "dcn_form v =
     (if v = 0 then Some ''/%DCN000%/''
      else if v = 5 then Some ''/%DCN005%/''
      else if v = 36 then Some ''/%DCN036%/''
      else if v = 96 then Some ''/%DCN096%/''
      else if v = 124 then Some ''/%DCN124%/''
      else if v = 126 then Some ''/%DCN126%/''
      else None)"

definition swap_nibbles :: "byte \<Rightarrow> byte" where
  "swap_nibbles v = (push_bit 4 v AND 0xF0) OR (drop_bit 4 v AND 0x0F)"

text \<open>\<open>lock_byte l i\<close>: the byte of the key that comes from position \<open>i\<close> of the lock, where \<open>l\<close> is
  the lock past its first six characters.\<close>

definition lock_byte :: "string \<Rightarrow> nat \<Rightarrow> byte" where
  "lock_byte l i = swap_nibbles
     (if i = 0 then byte_of (cget l 0) XOR byte_of (cget l 45) XOR byte_of (cget l 44) XOR 5
      else byte_of (cget l i) XOR byte_of (cget l (i - 1)))"

definition dcn_encode :: "byte \<Rightarrow> string" where
  "dcn_encode v = (case dcn_form v of Some e \<Rightarrow> e | None \<Rightarrow> [char_of_byte v])"

fun lock2key_loop :: "string \<Rightarrow> nat list \<Rightarrow> string \<Rightarrow> string" where
  "lock2key_loop l [] result = result"
| "lock2key_loop l (i # is) result =
     (if length result \<ge> 460 then result
      else lock2key_loop l is (result @ dcn_encode (lock_byte l i)))"

definition Lock2Key :: "string \<Rightarrow> string" where
  "Lock2Key sLock = lock2key_loop (drop 6 sLock) [0..<46] []"

text \<open>Comparing an escape byte by byte; \<open>None\<close> is the early \<open>return false\<close>.\<close>

fun match_from :: "string \<Rightarrow> nat \<Rightarrow> string \<Rightarrow> nat option" where
  "match_from key pos [] = Some pos"
| "match_from key pos (c # cs) =
     (if cget key pos \<noteq> c then None else match_from key (Suc pos) cs)"

fun verify_loop :: "string \<Rightarrow> string \<Rightarrow> nat list \<Rightarrow> nat \<Rightarrow> bool" where
  "verify_loop l key [] pos = (cget key pos = CHR 0x00)"
| "verify_loop l key (i # is) pos =
     (let v = lock_byte l i in
      case dcn_form v of
        None \<Rightarrow> if cget key pos \<noteq> char_of_byte v then False else verify_loop l key is (Suc pos)
      | Some e \<Rightarrow> (case match_from key pos e of
                    None \<Rightarrow> False
                  | Some pos' \<Rightarrow> verify_loop l key is pos'))"

text \<open>\<open>None\<close> for the received key is the null pointer.\<close>

definition VerifyLockKey :: "string \<Rightarrow> string option \<Rightarrow> bool" where
  "VerifyLockKey sLock sReceivedKey =
     (case sReceivedKey of None \<Rightarrow> False | Some key \<Rightarrow> verify_loop (drop 6 sLock) key [0..<46] 0)"

lemma dcn_encode_length: "length (dcn_encode v) \<le> 10"
  by (auto simp: dcn_encode_def dcn_form_def split: option.splits if_splits)

lemma dcn_encode_no_nul: "CHR 0x00 \<notin> set (dcn_encode v)"
proof (cases "dcn_form v")
  case None
  then have "v \<noteq> 0" by (auto simp: dcn_form_def)
  moreover have "char_of_byte 0 = CHR 0x00" by (simp add: char_of_byte_def char_of_def)
  ultimately have "char_of_byte v \<noteq> CHR 0x00" by (metis char_of_byte_eq_iff)
  with None show ?thesis by (simp add: dcn_encode_def)
next
  case (Some e)
  then show ?thesis by (auto simp: dcn_encode_def dcn_form_def split: if_splits)
qed

lemma lock2key_loop_concat:
  "length r + 10 * length is \<le> 460 \<Longrightarrow>
     lock2key_loop l is r = r @ concat (map (\<lambda>i. dcn_encode (lock_byte l i)) is)"
proof (induction "is" arbitrary: r)
  case Nil
  then show ?case by simp
next
  case (Cons i "is")
  have "length (r @ dcn_encode (lock_byte l i)) + 10 * length is \<le> 460"
    using Cons.prems dcn_encode_length [of "lock_byte l i"] by simp
  from Cons.IH [OF this] Cons.prems show ?case by simp
qed

lemma Lock2Key_concat:
  "Lock2Key sLock = concat (map (\<lambda>i. dcn_encode (lock_byte (drop 6 sLock) i)) [0..<46])"
  unfolding Lock2Key_def by (subst lock2key_loop_concat) simp_all

lemma match_from_iff:
  "CHR 0x00 \<notin> set e \<Longrightarrow> pos \<le> length key \<Longrightarrow>
     match_from key pos e = Some p \<longleftrightarrow> (\<exists>r. drop pos key = e @ r) \<and> p = pos + length e"
proof (induction e arbitrary: pos)
  case Nil
  then show ?case by auto
next
  case (Cons c cs)
  show ?case
  proof (cases "pos < length key")
    case True
    then have "drop pos key = key ! pos # drop (Suc pos) key" by (simp add: Cons_nth_drop_Suc)
    with Cons True show ?thesis by (auto simp: cget_def)
  next
    case False
    with Cons.prems show ?thesis by (auto simp: cget_def)
  qed
qed

lemma verify_step:
  assumes "pos \<le> length key"
  shows "verify_loop l key (i # is) pos \<longleftrightarrow>
    (\<exists>r. drop pos key = dcn_encode (lock_byte l i) @ r)
      \<and> verify_loop l key is (pos + length (dcn_encode (lock_byte l i)))"
proof -
  let ?e = "dcn_encode (lock_byte l i)"
  have "verify_loop l key (i # is) pos \<longleftrightarrow>
      (case match_from key pos ?e of None \<Rightarrow> False | Some p \<Rightarrow> verify_loop l key is p)"
    by (auto simp: dcn_encode_def Let_def split: option.splits)
  also have "\<dots> \<longleftrightarrow> (\<exists>p. match_from key pos ?e = Some p \<and> verify_loop l key is p)"
    by (auto split: option.splits)
  also have "\<dots> \<longleftrightarrow> (\<exists>r. drop pos key = ?e @ r) \<and> verify_loop l key is (pos + length ?e)"
    by (auto simp: match_from_iff [OF dcn_encode_no_nul assms])
  finally show ?thesis .
qed

lemma verify_loop_iff:
  "CHR 0x00 \<notin> set key \<Longrightarrow> pos \<le> length key \<Longrightarrow>
     verify_loop l key is pos \<longleftrightarrow> drop pos key = concat (map (\<lambda>i. dcn_encode (lock_byte l i)) is)"
proof (induction "is" arbitrary: pos)
  case Nil
  then show ?case by (auto simp: cget_def) (metis nth_mem)
next
  case (Cons i "is")
  let ?e = "dcn_encode (lock_byte l i)"
  show ?case
  proof (cases "\<exists>r. drop pos key = ?e @ r")
    case True
    then obtain r where r: "drop pos key = ?e @ r" ..
    then have len: "pos + length ?e \<le> length key"
      using Cons.prems(2) by (metis add_le_cancel_left append_take_drop_id le_add1 length_append
          length_take min.absorb2)
    have "drop (pos + length ?e) key = r"
      using r by (metis add.commute append_eq_conv_conj drop_drop)
    with r len True Cons show ?thesis by (simp only: verify_step) simp
  next
    case False
    then show ?thesis by (auto simp: verify_step [OF Cons.prems(2)] simp del: verify_loop.simps)
  qed
qed

lemma Lock2Key_no_nul: "CHR 0x00 \<notin> set (Lock2Key sLock)"
  using dcn_encode_no_nul by (auto simp: Lock2Key_concat)

text \<open>
  C4.  The handshake check accepts exactly one key for a lock: the one \<open>Lock2Key\<close> computes.  The
  received key is a C string, hence free of NUL characters.
\<close>

theorem verify_accepts_exactly_lock2key:
  assumes "CHR 0x00 \<notin> set key"
  shows "VerifyLockKey sLock (Some key) \<longleftrightarrow> key = Lock2Key sLock"
  using verify_loop_iff [OF assms, of 0] by (simp add: VerifyLockKey_def Lock2Key_concat)

theorem verify_accepts_exactly_lock2key_witness:
  "VerifyLockKey ''$Lock EXTENDEDPROTOCOL33MTL6@h5AIad^P2UoPv?fZU]ivM6 Pk=PtokaX|''
     (Some (Lock2Key ''$Lock EXTENDEDPROTOCOL33MTL6@h5AIad^P2UoPv?fZU]ivM6 Pk=PtokaX|''))"
  using verify_accepts_exactly_lock2key [OF Lock2Key_no_nul] by blast

section \<open>Case-insensitive comparison and the nick hash\<close>

definition lower_byte :: "byte \<Rightarrow> byte" where
  "lower_byte c = (if 65 \<le> c \<and> c \<le> 90 then c + 32 else c)"

fun iequals_loop :: "string \<Rightarrow> string \<Rightarrow> bool" where
  "iequals_loop (a # as) (b # bs) =
     (let ca = byte_of a; cb = byte_of b in
      if ca \<noteq> cb \<and> lower_byte ca \<noteq> lower_byte cb then False else iequals_loop as bs)"
| "iequals_loop _ _ = True"

definition iequals :: "string \<Rightarrow> string \<Rightarrow> bool" where
  "iequals a b = (if length a \<noteq> length b then False else iequals_loop a b)"

text \<open>The folded form of a string: what the comparison really compares.\<close>

definition folded :: "string \<Rightarrow> byte list" where
  "folded s = map (\<lambda>c. lower_byte (byte_of c)) s"

lemma iequals_loop_folded: "length a = length b \<Longrightarrow> iequals_loop a b \<longleftrightarrow> folded a = folded b"
  by (induction a b rule: iequals_loop.induct) (auto simp: folded_def Let_def)

lemma iequals_folded: "iequals a b \<longleftrightarrow> folded a = folded b"
  by (auto simp: iequals_def iequals_loop_folded) (metis folded_def length_map)+

lemma iequals_refl [simp]: "iequals a a"
  by (simp add: iequals_folded)

lemma iequals_sym: "iequals a b \<Longrightarrow> iequals b a"
  by (simp add: iequals_folded)

lemma iequals_trans: "iequals a b \<Longrightarrow> iequals b c \<Longrightarrow> iequals a c"
  by (simp add: iequals_folded)

definition contains_any :: "string \<Rightarrow> string \<Rightarrow> bool" where
  "contains_any sv chars = list_ex (\<lambda>c. list_ex (\<lambda>t. c = t) chars) sv"

fun HashNick_loop :: "u32 \<Rightarrow> string \<Rightarrow> u32" where
  "HashNick_loop h [] = h"
| "HashNick_loop h (ch # s) =
     (let lc = lower_byte (byte_of ch); h' = h + push_bit 5 h
      in HashNick_loop (h' XOR ucast lc) s)"

definition HashNick :: "string \<Rightarrow> u32" where
  "HashNick sNick = HashNick_loop 5381 sNick + 1"

lemma HashNick_loop_folded: "folded a = folded b \<Longrightarrow> HashNick_loop h a = HashNick_loop h b"
proof (induction a arbitrary: b h)
  case Nil
  then show ?case by (simp add: folded_def)
next
  case (Cons x xs)
  then obtain y ys where b: "b = y # ys" and y: "lower_byte (byte_of x) = lower_byte (byte_of y)"
    and ys: "folded xs = folded ys" by (cases b) (simp_all add: folded_def)
  show ?case by (simp only: b HashNick_loop.simps Let_def y Cons.IH [OF ys])
qed

lemma HashNick_iequals: "iequals a b \<Longrightarrow> HashNick a = HashNick b"
  unfolding HashNick_def iequals_folded using HashNick_loop_folded by metis

text \<open>
  C24.  Nick equality ignoring case is an equivalence, and nicks equal under it have the same nick
  hash: a lookup that compares hashes first misses no nick that \<open>iequals\<close> would accept.
\<close>

theorem iequals_equivalence_and_hash:
  "equivp iequals \<and> (\<forall>a b. iequals a b \<longrightarrow> HashNick a = HashNick b)"
proof (intro conjI allI impI equivpI reflpI sympI transpI)
  show "iequals x x" for x by simp
  show "iequals x y \<Longrightarrow> iequals y x" for x y by (rule iequals_sym)
  show "iequals x y \<Longrightarrow> iequals y z \<Longrightarrow> iequals x z" for x y z by (rule iequals_trans)
  show "iequals a b \<Longrightarrow> HashNick a = HashNick b" for a b by (rule HashNick_iequals)
qed

theorem iequals_equivalence_and_hash_witness:
  "iequals ''OpChat'' ''OPCHAT'' \<and> HashNick ''OpChat'' = HashNick ''OPCHAT''"
proof -
  have "iequals ''OpChat'' ''OPCHAT''"
    by (simp add: iequals_def lower_byte_def byte_of_def)
  with iequals_equivalence_and_hash show ?thesis by blast
qed

section \<open>Address hashes\<close>

text \<open>
  The resolver as the code uses it: \<open>inet_pton6\<close> gives the sixteen bytes of an IPv6 text, or fails;
  \<open>inet_addr4\<close> gives the four bytes, in memory order, of what \<open>inet_addr\<close> returns, so that
  \<open>INADDR_NONE\<close> is four bytes of 255.
\<close>

record resolver =
  use_ipv6 :: bool
  inet_pton6 :: "string \<Rightarrow> byte list option"
  inet_addr4 :: "string \<Rightarrow> byte \<times> byte \<times> byte \<times> byte"

definition INADDR_NONE :: "byte \<times> byte \<times> byte \<times> byte" where
  "INADDR_NONE = (255, 255, 255, 255)"

definition isIP :: "resolver \<Rightarrow> string \<Rightarrow> bool" where
  "isIP r sIP =
     (if use_ipv6 r \<and> CHR ''.'' \<notin> set sIP then
        (if length sIP > 39 then False
         else inet_pton6 r sIP \<noteq> None)
      else
        (if length sIP > 15 then False
         else inet_addr4 r sIP \<noteq> INADDR_NONE))"

definition HashIP :: "resolver \<Rightarrow> string \<Rightarrow> byte list option" where
  "HashIP r sIP =
     (if use_ipv6 r \<and> CHR ''.'' \<notin> set sIP then
        (if length sIP > 39 then None
         else inet_pton6 r sIP)
      else
        (if length sIP > 15 then None
         else if inet_addr4 r sIP = INADDR_NONE then None
         else (case inet_addr4 r sIP of (a, b, c, d) \<Rightarrow>
                 Some (((replicate 16 0)[10 := 255, 11 := 255])[12 := a, 13 := b, 14 := c, 15 := d]))))"

definition IsV4Mapped :: "byte list \<Rightarrow> bool" where
  "IsV4Mapped h \<longleftrightarrow>
     h ! 0 = 0 \<and> h ! 1 = 0 \<and> h ! 2 = 0 \<and> h ! 3 = 0 \<and> h ! 4 = 0 \<and> h ! 5 = 0 \<and>
     h ! 6 = 0 \<and> h ! 7 = 0 \<and> h ! 8 = 0 \<and> h ! 9 = 0 \<and> h ! 10 = 0xFF \<and> h ! 11 = 0xFF"

fun ip_hash_loop :: "u32 \<Rightarrow> byte list \<Rightarrow> u32" where
  "ip_hash_loop h [] = h"
| "ip_hash_loop h (c # cs) = ip_hash_loop ((h + push_bit 5 h) XOR ucast c) cs"

definition GetIpTableIdx :: "byte list \<Rightarrow> u16" where
  "GetIpTableIdx h = ucast (ip_hash_loop 5381 (take 16 h) + 1)"

definition CalcHash :: "u32 \<Rightarrow> u16" where
  "CalcHash h = ucast (h AND 0xFFFF)"

text \<open>
  C25.  \<open>isIP\<close> accepts exactly the texts \<open>HashIP\<close> can hash, and a dotted text hashes to sixteen bytes
  that are the IPv4-mapped form of the address: the mapped prefix, then the four address bytes.
\<close>

theorem HashIP_correct:
  "(isIP r sIP \<longleftrightarrow> HashIP r sIP \<noteq> None)
   \<and> (\<not> use_ipv6 r \<or> CHR ''.'' \<in> set sIP \<longrightarrow> HashIP r sIP = Some h \<longrightarrow>
        length h = 16 \<and> IsV4Mapped h \<and> inet_addr4 r sIP = (h ! 12, h ! 13, h ! 14, h ! 15)
        \<and> length sIP \<le> 15)"
  by (auto simp: isIP_def HashIP_def IsV4Mapped_def nth_list_update split: if_splits prod.splits)

definition example_resolver :: resolver where
  "example_resolver = \<lparr>use_ipv6 = True,
     inet_pton6 = (\<lambda>s. if s = ''::1'' then Some (replicate 15 0 @ [1]) else None),
     inet_addr4 = (\<lambda>s. if s = ''10.0.0.7'' then (10, 0, 0, 7)
                       else if s = ''172.17.0.1'' then (172, 17, 0, 1) else INADDR_NONE)\<rparr>"

theorem HashIP_correct_witness:
  "\<exists>h. HashIP example_resolver ''10.0.0.7'' = Some h \<and> length h = 16 \<and> IsV4Mapped h
     \<and> (h ! 12, h ! 13, h ! 14, h ! 15) = (10, 0, 0, 7)"
proof -
  obtain h where h: "HashIP example_resolver ''10.0.0.7'' = Some h"
    by (simp add: HashIP_def example_resolver_def INADDR_NONE_def)
  moreover have "inet_addr4 example_resolver ''10.0.0.7'' = (10, 0, 0, 7)"
    by (simp add: example_resolver_def)
  ultimately show ?thesis
    using HashIP_correct [of example_resolver "''10.0.0.7''" h] by auto
qed

end
