(* ===== verification/MsgBuffer.thy ===== *)
theory MsgBuffer
  imports Utility
begin

text \<open>
  Bounded printing and the global message buffer (\<open>core/utility.h\<close>, \<open>core/utility.cpp\<close>).  A buffer is
  the list of its bytes, its length the allocated size; \<open>vsnprintf\<close> is modelled by its documented
  effect, given the text the format would produce: at most \<open>n - 1\<close> characters and a NUL are written
  and the full length of the text is returned.
\<close>

section \<open>vsnprintf and the append helper\<close>

text \<open>Writing a run of characters at an offset; the caller's bound keeps it inside.\<close>

definition blit :: "string \<Rightarrow> nat \<Rightarrow> string \<Rightarrow> string" where
  "blit buf off txt = take off buf @ txt @ drop (off + length txt) buf"

lemma length_blit [simp]: "off + length txt \<le> length buf \<Longrightarrow> length (blit buf off txt) = length buf"
  by (simp add: blit_def)

lemma take_blit [simp]: "n \<le> off \<Longrightarrow> off \<le> length buf \<Longrightarrow> take n (blit buf off txt) = take n buf"
  by (simp add: blit_def min_def)

definition vsnprintf :: "string \<Rightarrow> nat \<Rightarrow> nat \<Rightarrow> string \<Rightarrow> string \<times> nat" where
  "vsnprintf buf off n txt =
     (if n = 0 then (buf, length txt)
      else (blit buf off (take (n - 1) txt @ [CHR 0x00]), length txt))"

text \<open>The result is the success flag, the new offset and the new buffer.\<close>

definition SnprintfAppend :: "string \<Rightarrow> int \<Rightarrow> nat \<Rightarrow> string \<Rightarrow> bool \<times> int \<times> string" where
  "SnprintfAppend buf offset sz txt =
     (if offset < 0 \<or> nat offset \<ge> sz then (False, offset, buf)
      else
        (let uiAvail = sz - nat offset;
             (buf', iRet) = vsnprintf buf (nat offset) uiAvail txt
         in if iRet = 0 \<or> iRet \<ge> uiAvail then (False, offset, buf')
            else (True, offset + int iRet, buf')))"

text \<open>
  Appending to a buffer never writes outside it and never changes the bytes before the offset.
  It succeeds exactly when the text is not empty and fits with its NUL; then the text stands at the
  old offset, followed by a NUL at the new one.  When it fails the offset is unchanged.
\<close>

theorem SnprintfAppend_bounds:
  assumes "length buf = sz" and "SnprintfAppend buf offset sz txt = (ok, offset', buf')"
  shows "length buf' = sz
    \<and> take (nat offset) buf' = take (nat offset) buf
    \<and> (ok \<longleftrightarrow> 0 \<le> offset \<and> txt \<noteq> [] \<and> nat offset + length txt < sz)
    \<and> (ok \<longrightarrow> offset' = offset + int (length txt)
          \<and> take (nat offset') buf' = take (nat offset) buf @ txt
          \<and> buf' ! nat offset' = CHR 0x00)
    \<and> (\<not> ok \<longrightarrow> offset' = offset)"
proof (cases "offset < 0 \<or> nat offset \<ge> sz")
  case True
  with assms show ?thesis by (auto simp: SnprintfAppend_def)
next
  case False
  define o1 where "o1 = nat offset"
  define t1 where "t1 = take (sz - o1 - 1) txt @ [CHR 0x00]"
  from False have o1: "offset = int o1" "o1 < sz" by (auto simp: o1_def)
  have lt: "length t1 = min (length txt) (sz - o1 - 1) + 1" by (simp add: t1_def)
  have fit: "o1 + length t1 \<le> length buf" using lt o1 assms(1) by auto
  from assms(2) False have b': "buf' = blit buf o1 t1"
    and ok: "ok \<longleftrightarrow> txt \<noteq> [] \<and> length txt < sz - o1"
    and off: "offset' = (if ok then offset + int (length txt) else offset)"
    by (auto simp: SnprintfAppend_def vsnprintf_def Let_def t1_def o1_def split: if_splits)
  have len: "length buf' = sz" using b' fit assms(1) by simp
  have pre: "take o1 buf' = take o1 buf" using b' o1 assms(1) by simp
  show ?thesis
  proof (cases ok)
    case True
    with ok have "length txt \<le> sz - o1 - 1" by auto
    then have full: "t1 = txt @ [CHR 0x00]" by (simp add: t1_def)
    have off': "nat offset' = o1 + length txt" using True off o1 by simp
    have "take (o1 + length txt) buf' = take o1 buf @ txt"
      using b' full o1 assms(1) by (simp add: blit_def min_def)
    moreover have "buf' ! (o1 + length txt) = CHR 0x00"
      using b' full o1 assms(1) by (simp add: blit_def nth_append min_def)
    moreover have "o1 + length txt < sz" using True ok o1(2) by linarith
    ultimately show ?thesis using True len pre ok off off' o1 by simp
  next
    case False
    then show ?thesis using len pre ok off o1 by auto
  qed
qed

theorem SnprintfAppend_bounds_witness:
  "SnprintfAppend ''ab......'' 2 8 ''cd'' = (True, 4, ''abcd'' @ [CHR 0x00] @ ''...'')
   \<and> take 4 (''abcd'' @ [CHR 0x00] @ ''...'') = take 2 ''ab......'' @ ''cd''"
proof -
  have h: "SnprintfAppend ''ab......'' 2 8 ''cd'' = (True, 4, ''abcd'' @ [CHR 0x00] @ ''...'')"
    by (simp add: SnprintfAppend_def vsnprintf_def blit_def)
  have l: "length ''ab......'' = 8" by simp
  from SnprintfAppend_bounds [OF l h]
  have "take (nat 4) (''abcd'' @ [CHR 0x00] @ ''...'') = take (nat 2) ''ab......'' @ ''cd''" by blast
  moreover have "nat 4 = 4" "nat 2 = 2" by simp_all
  ultimately have "take 4 (''abcd'' @ [CHR 0x00] @ ''...'') = take 2 ''ab......'' @ ''cd''" by metis
  with h show ?thesis ..
qed

text \<open>Copying a C string into an array of \<open>n\<close> characters: the C string the array then holds.\<close>

definition SafeStrCopy :: "nat \<Rightarrow> string \<Rightarrow> string" where
  "SafeStrCopy n src = (let len = length src; len' = (if len \<ge> n then n - 1 else len) in take len' src)"

lemma SafeStrCopy_length: "0 < n \<Longrightarrow> length (SafeStrCopy n src) < n"
  by (auto simp: SafeStrCopy_def Let_def)

lemma SafeStrCopy_short: "length src < n \<Longrightarrow> SafeStrCopy n src = src"
  by (simp add: SafeStrCopy_def)

definition CheckSprintf :: "int \<Rightarrow> nat \<Rightarrow> bool" where
  "CheckSprintf iRetVal szMax =
     (if iRetVal > 0 then (if szMax \<noteq> 0 \<and> iRetVal \<ge> int szMax then False else True) else False)"

definition CheckSprintf1 :: "int \<Rightarrow> nat \<Rightarrow> nat \<Rightarrow> bool" where
  "CheckSprintf1 iRetVal szLenVal szMax =
     (if iRetVal > 0 then (if szMax \<noteq> 0 \<and> szLenVal \<ge> szMax then False else True) else False)"

section \<open>The global message buffer\<close>

definition PTOKAX_GLOBAL_BUFF_SIZE :: nat where
  "PTOKAX_GLOBAL_BUFF_SIZE = 131072 * 2"

definition Allign :: "nat \<Rightarrow> nat" where
  "Allign n = n + n div 2 + 1"

record global_buffer =
  gb_size :: nat
  gb_data :: string

text \<open>\<open>CreateGlobalBuffer\<close> exits the process when the allocation fails: \<open>None\<close>.  The other two
  take the outcome of their allocation as the first argument.\<close>

definition CreateGlobalBuffer :: "bool \<Rightarrow> global_buffer option" where
  "CreateGlobalBuffer alloc =
     (if alloc then Some \<lparr>gb_size = PTOKAX_GLOBAL_BUFF_SIZE,
                          gb_data = replicate PTOKAX_GLOBAL_BUFF_SIZE (CHR 0x00)\<rparr>
      else None)"

definition CheckAndResizeGlobalBuffer :: "bool \<Rightarrow> nat \<Rightarrow> global_buffer \<Rightarrow> bool \<times> global_buffer" where
  "CheckAndResizeGlobalBuffer alloc szWantedSize g =
     (if gb_size g \<ge> szWantedSize then (True, g)
      else
        (let szOldSize = gb_size g; g1 = g\<lparr>gb_size := Allign szWantedSize\<rparr>
         in if \<not> alloc then (False, g1\<lparr>gb_size := szOldSize\<rparr>)
            else (True, g1\<lparr>gb_data := blit (replicate (gb_size g1) (CHR 0x00)) 0 (take szOldSize (gb_data g))\<rparr>)))"

definition ReduceGlobalBuffer :: "bool \<Rightarrow> global_buffer \<Rightarrow> global_buffer" where
  "ReduceGlobalBuffer alloc g =
     (if gb_size g = PTOKAX_GLOBAL_BUFF_SIZE then g
      else
        (let szOldSize = gb_size g; g1 = g\<lparr>gb_size := PTOKAX_GLOBAL_BUFF_SIZE\<rparr>
         in if \<not> alloc then g1\<lparr>gb_size := szOldSize\<rparr>
            else g1\<lparr>gb_data := blit (replicate (gb_size g1) (CHR 0x00)) 0 (take (gb_size g1) (gb_data g))\<rparr>))"

definition gb_inv :: "global_buffer \<Rightarrow> bool" where
  "gb_inv g \<longleftrightarrow> length (gb_data g) = gb_size g \<and> PTOKAX_GLOBAL_BUFF_SIZE \<le> gb_size g"

lemma Allign_ge: "n < Allign n" "3 * n < 2 * Allign n"
  by (simp_all add: Allign_def)

lemma gb_inv_create: "CreateGlobalBuffer alloc = Some g \<Longrightarrow> gb_inv g"
  by (auto simp: CreateGlobalBuffer_def gb_inv_def split: if_splits)

text \<open>
  Growing and shrinking keep the invariant of the global buffer: the recorded size is the
  allocated one and at least the initial size, so that the copy of a shrink never reads past the old
  allocation.  Growing keeps all old bytes, and after it succeeds the wanted size is available; a
  failed allocation leaves the buffer as it was.
\<close>

theorem global_buffer_resize:
  assumes "gb_inv g"
  shows "(case CheckAndResizeGlobalBuffer alloc n g of (ok, g') \<Rightarrow>
        gb_inv g' \<and> take (gb_size g) (gb_data g') = gb_data g
        \<and> (ok \<longrightarrow> n \<le> gb_size g') \<and> (\<not> ok \<longrightarrow> g' = g))
    \<and> gb_inv (ReduceGlobalBuffer alloc g)
    \<and> take PTOKAX_GLOBAL_BUFF_SIZE (gb_data (ReduceGlobalBuffer alloc g))
        = take PTOKAX_GLOBAL_BUFF_SIZE (gb_data g)"
proof (intro conjI)
  show "case CheckAndResizeGlobalBuffer alloc n g of (ok, g') \<Rightarrow>
        gb_inv g' \<and> take (gb_size g) (gb_data g') = gb_data g
        \<and> (ok \<longrightarrow> n \<le> gb_size g') \<and> (\<not> ok \<longrightarrow> g' = g)"
  proof (cases "gb_size g \<ge> n \<or> \<not> alloc")
    case True
    then show ?thesis using assms
      by (auto simp: CheckAndResizeGlobalBuffer_def gb_inv_def Let_def)
  next
    case False
    then have "gb_size g < Allign n" using Allign_ge(1) [of n] by simp
    then show ?thesis using assms False Allign_ge(1) [of n]
      by (auto simp: CheckAndResizeGlobalBuffer_def gb_inv_def Let_def blit_def)
  qed
qed (use assms in \<open>auto simp: ReduceGlobalBuffer_def gb_inv_def Let_def blit_def\<close>)

theorem global_buffer_resize_witness:
  "\<exists>g. CreateGlobalBuffer True = Some g \<and> gb_inv (ReduceGlobalBuffer True g)
     \<and> fst (CheckAndResizeGlobalBuffer True 300000 g)
     \<and> 300000 \<le> gb_size (snd (CheckAndResizeGlobalBuffer True 300000 g))"
proof -
  obtain g where g: "CreateGlobalBuffer True = Some g" by (simp add: CreateGlobalBuffer_def)
  have ok: "fst (CheckAndResizeGlobalBuffer True 300000 g)"
    by (simp add: CheckAndResizeGlobalBuffer_def Let_def)
  show ?thesis
    using g ok global_buffer_resize [OF gb_inv_create [OF g], where alloc = True and n = 300000]
    by (auto split: prod.splits)
qed

end
