(* ===== verification/SendBuffer.thy ===== *)
theory SendBuffer
  imports MsgBuffer
begin

text \<open>
  The send buffer of a user (\<open>User::PutInSendBuf\<close> and \<open>User::Try2Send\<close>): an allocation whose first
  \<open>m_ui32SendBufDataLen\<close> bytes are data and whose head pointer separates what the socket has taken from what
  is still to be sent.  Writing past the allocation is a fault, so the theorems show that it does not
  happen.  The buffer refines a queue of bytes, stated as a locale and interpreted on these operations.
\<close>

section \<open>The buffer\<close>

text \<open>
  \<open>sb_data\<close> is the data in the buffer, \<open>sb_head\<close> the offset of \<open>m_pSendBufHead\<close>, \<open>sb_len\<close> the field
  \<open>m_ui32SendBufLen\<close>; the allocation has one byte more.
\<close>

record SendBuf =
  sb_alloc :: bool
  sb_data :: string
  sb_head :: nat
  sb_len :: nat
  sb_called :: u32

definition empty_buf :: SendBuf where
  "empty_buf = \<lparr>sb_alloc = False, sb_data = [], sb_head = 0, sb_len = 0, sb_called = 0\<rparr>"

definition unsent :: "SendBuf \<Rightarrow> string" where
  "unsent b = drop (sb_head b) (sb_data b)"

text \<open>\<open>memchr\<close> for the pipe, from an offset to the end of the data.\<close>

definition pipe_from :: "string \<Rightarrow> nat \<Rightarrow> nat option" where
  "pipe_from d i =
     (let k = length (takeWhile (\<lambda>c. c \<noteq> CHR ''|'') (drop i d)) in if i + k < length d then Some (i + k) else None)"

text \<open>The data kept for a slow user: the rest of the command being sent, and the newest commands if they fit.\<close>

definition keep_slow_cut :: "nat \<Rightarrow> nat \<Rightarrow> SendBuf \<Rightarrow> string" where
  "keep_slow_cut szTxtLen szMaxBufLen b =
     (let d = sb_data b; iOldSBDataLen = length d in
      case pipe_from d (sb_head b) of
        None \<Rightarrow> ''|''
      | Some sTemp \<Rightarrow>
          let rest = take (sTemp - sb_head b + 1) (drop (sb_head b) d);
              d1 = rest @ drop (length rest) d
          in if szTxtLen < szMaxBufLen \<and> iOldSBDataLen > sTemp + 1 \<and> iOldSBDataLen - (sTemp + 1) > szTxtLen then
               (case (if iOldSBDataLen > sb_len b div 2 \<and> sTemp + 1 + szTxtLen < sb_len b div 2
                      then pipe_from d1 (sb_len b div 2)
                      else pipe_from d1 (sTemp + 1 + szTxtLen)) of
                  None \<Rightarrow> rest
                | Some sTemp1 \<Rightarrow> rest @ drop (sTemp1 + 1) d1)
             else rest)"

text \<open>The maximal length: the longer MyINFO list, doubled (in 32 bits) for a big buffer, at least 256 kB.\<close>

definition max_buf_len :: "bool \<Rightarrow> u32 \<Rightarrow> u32 \<Rightarrow> nat" where
  "max_buf_len big tagLen infosLen =
     (let m = (if tagLen > infosLen then tagLen else infosLen); n = unat (if big then m * 2 else m)
      in if n < 262144 then 262144 else n)"

datatype room = Room SendBuf nat | Overflow

text \<open>
  The first part of \<open>PutInSendBuf\<close> makes room: the new buffer and the size to reallocate to (0 for
  none), or the overflow that closes the user.
\<close>

definition make_room :: "nat \<Rightarrow> bool \<Rightarrow> nat \<Rightarrow> SendBuf \<Rightarrow> room" where
  "make_room szMaxBufLen keep szTxtLen b =
     (if sb_len b < length (sb_data b) + szTxtLen then
        (if \<not> sb_alloc b then Room b (Allign (length (sb_data b) + szTxtLen))
         else if sb_head b > szTxtLen then Room (b\<lparr>sb_data := drop (sb_head b) (sb_data b), sb_head := 0\<rparr>) 0
         else
           (let szAllignLen = Allign (length (sb_data b) + szTxtLen) in
            if szAllignLen > szMaxBufLen then
              (if \<not> keep then Overflow
               else
                 (let kept = keep_slow_cut szTxtLen szMaxBufLen b in
                  Room (b\<lparr>sb_data := kept, sb_head := 0,
                          sb_len := (Allign (szTxtLen + length kept) - 1) mod 2 ^ 32\<rparr>) 0))
            else Room b szAllignLen))
      else if sb_called b > 100 then
        (let szAllignLen = Allign (length (sb_data b) + szTxtLen) in
         Room (b\<lparr>sb_called := 0\<rparr>) (if sb_len b \<le> szAllignLen then 0 else szAllignLen))
      else Room b 0)"

definition reallocate :: "nat \<Rightarrow> SendBuf \<Rightarrow> SendBuf res" where
  "reallocate szAllignLen b =
     (if szAllignLen = 0 then Inr b
      else if length (sb_data b) > szAllignLen then Inl BufferOverflow
      else Inr (b\<lparr>sb_alloc := True, sb_len := (szAllignLen - 1) mod 2 ^ 32\<rparr>))"

definition append_data :: "string \<Rightarrow> SendBuf \<Rightarrow> SendBuf res" where
  "append_data sText b =
     (if \<not> sb_alloc b then Inl NullDeref
      else if length (sb_data b) + length sText > sb_len b then Inl BufferOverflow
      else Inr (b\<lparr>sb_data := sb_data b @ sText\<rparr>))"

text \<open>\<open>None\<close>: the buffer overflowed and the user is to be closed with an error.\<close>

definition put_in_buf :: "nat \<Rightarrow> bool \<Rightarrow> string \<Rightarrow> SendBuf \<Rightarrow> SendBuf option res" where
  "put_in_buf szMaxBufLen keep sText b =
     (let b0 = b\<lparr>sb_called := sb_called b + 1\<rparr> in
      case make_room szMaxBufLen keep (length sText) b0 of
        Overflow \<Rightarrow> Inr None
      | Room b1 szAllignLen \<Rightarrow>
          rbind (reallocate szAllignLen b1) (\<lambda>b2. rbind (append_data sText b2) (\<lambda>b3. Inr (Some b3))))"

text \<open>The answer of \<open>send()\<close>: bytes taken, a transient or a fatal error.\<close>

datatype send_result = Sent nat | WouldBlock | SendError

definition after_send :: "bool \<Rightarrow> nat \<Rightarrow> SendBuf \<Rightarrow> SendBuf \<times> bool" where
  "after_send big n b =
     (if n < length (sb_data b) - sb_head b then (b\<lparr>sb_head := sb_head b + n\<rparr>, True)
      else if big \<or> sb_len b > 1024 then
        (b\<lparr>sb_alloc := False, sb_data := [], sb_head := 0, sb_len := 0\<rparr>, False)
      else (b\<lparr>sb_data := [], sb_head := 0\<rparr>, False))"

text \<open>The bytes offered to the socket.\<close>

definition offered :: "SendBuf \<Rightarrow> string" where
  "offered b = take 32768 (unsent b)"

section \<open>The buffer never overflows\<close>

definition buf_ok :: "SendBuf \<Rightarrow> bool" where
  "buf_ok b \<longleftrightarrow> sb_head b \<le> length (sb_data b) \<and> length (sb_data b) \<le> sb_len b
     \<and> (\<not> sb_alloc b \<longrightarrow> sb_len b = 0)"

lemma buf_ok_empty: "buf_ok empty_buf" "unsent empty_buf = []"
  by (simp_all add: buf_ok_def empty_buf_def unsent_def)

lemma pipe_from_Some:
  "pipe_from d i = Some k \<Longrightarrow> i \<le> k \<and> k < length d \<and> d ! k = CHR ''|'' \<and> CHR ''|'' \<notin> set (take (k - i) (drop i d))"
proof -
  let ?w = "takeWhile (\<lambda>c. c \<noteq> CHR ''|'') (drop i d)"
  assume "pipe_from d i = Some k"
  then have k: "k = i + length ?w" "k < length d" by (auto simp: pipe_from_def Let_def split: if_splits)
  then have "length ?w < length (drop i d)" by simp
  from nth_length_takeWhile [OF this] have "drop i d ! length ?w = CHR ''|''" by simp
  then have "d ! k = CHR ''|''" using k by simp
  moreover have "take (k - i) (drop i d) = ?w" using k takeWhile_eq_take [of "\<lambda>c. c \<noteq> CHR ''|''" "drop i d"] by simp
  ultimately show ?thesis using k by (auto dest: set_takeWhileD)
qed

lemma pipe_from_None: "pipe_from d i = None \<Longrightarrow> CHR ''|'' \<notin> set (drop i d)"
proof -
  assume "pipe_from d i = None"
  then have "length (drop i d) \<le> length (takeWhile (\<lambda>c. c \<noteq> CHR ''|'') (drop i d))"
    by (auto simp: pipe_from_def Let_def split: if_splits)
  then have "takeWhile (\<lambda>c. c \<noteq> CHR ''|'') (drop i d) = drop i d"
    by (metis length_takeWhile_le nle_le takeWhile_eq_take take_all)
  then show ?thesis by (metis (full_types) takeWhile_eq_all_conv)
qed

lemma drop_overwritten: "length r \<le> i \<Longrightarrow> drop i (r @ drop (length r) d) = drop i d"
  by (simp add: drop_append)

text \<open>What is kept for a slow user: one complete rest of a command, then whole commands from the end.\<close>

lemma keep_slow_cut_spec:
  assumes "sb_head b \<le> length (sb_data b)"
  shows "(CHR ''|'' \<notin> set (unsent b) \<and> keep_slow_cut n m b = ''|'')
    \<or> (\<exists>r post. unsent b = r @ CHR ''|'' # post \<and> CHR ''|'' \<notin> set r
        \<and> (keep_slow_cut n m b = r @ ''|''
           \<or> (\<exists>pre tl. post = pre @ CHR ''|'' # tl \<and> keep_slow_cut n m b = r @ CHR ''|'' # tl)))"
proof (cases "pipe_from (sb_data b) (sb_head b)")
  case None
  then show ?thesis using pipe_from_None [OF None] by (simp add: keep_slow_cut_def Let_def unsent_def)
next
  case (Some t)
  let ?d = "sb_data b" and ?h = "sb_head b"
  note p = pipe_from_Some [OF Some]
  define r where "r = take (t - ?h) (drop ?h ?d)"
  define post where "post = drop (t + 1) ?d"
  have ht: "drop ?h ?d = r @ CHR ''|'' # post"
  proof -
    have "drop ?h ?d = r @ drop (t - ?h) (drop ?h ?d)" by (simp only: r_def append_take_drop_id)
    moreover have "drop (t - ?h) (drop ?h ?d) = drop t ?d" using p by simp
    moreover have "drop t ?d = CHR ''|'' # post" using p Cons_nth_drop_Suc [of t ?d] by (simp add: post_def)
    ultimately show ?thesis by (simp only:)
  qed
  have lr: "length r = t - ?h" using p by (auto simp: r_def)
  have rest: "take (t - ?h + 1) (drop ?h ?d) = r @ ''|''" unfolding ht using lr by simp
  let ?rest = "r @ ''|''"
  let ?d1 = "?rest @ drop (length ?rest) ?d"
  have ld1: "length ?d1 = length ?d" using lr p by auto
  have d1: "drop i ?d1 = drop i ?d" if "t + 1 \<le> i" for i
    using that lr p by (intro drop_overwritten) simp
  have cut: "\<exists>pre tl. post = pre @ CHR ''|'' # tl \<and> drop (q + 1) ?d1 = tl"
    if "pipe_from ?d1 i = Some q" "t + 1 \<le> i" for i q
  proof -
    note q = pipe_from_Some [OF that(1)]
    have tq: "t + 1 \<le> q" using q that(2) by simp
    have "drop q ?d1 = CHR ''|'' # drop (q + 1) ?d1" using q Cons_nth_drop_Suc [of q ?d1] by simp
    then have "drop q ?d = CHR ''|'' # drop (q + 1) ?d1" using d1 [OF tq] by simp
    moreover have "drop q ?d = drop (q - (t + 1)) post" using tq by (simp add: post_def)
    ultimately have "post = take (q - (t + 1)) post @ CHR ''|'' # drop (q + 1) ?d1"
      by (metis append_take_drop_id)
    then show ?thesis by blast
  qed
  let ?q = "if length ?d > sb_len b div 2 \<and> t + 1 + n < sb_len b div 2
      then pipe_from ?d1 (sb_len b div 2) else pipe_from ?d1 (t + 1 + n)"
  have kc: "keep_slow_cut n m b = (if n < m \<and> length ?d > t + 1 \<and> length ?d - (t + 1) > n then
      (case ?q of None \<Rightarrow> ?rest | Some q \<Rightarrow> ?rest @ drop (q + 1) ?d1) else ?rest)"
    unfolding keep_slow_cut_def Let_def Some option.case rest ..
  have "keep_slow_cut n m b = ?rest \<or> (\<exists>pre tl. post = pre @ CHR ''|'' # tl \<and> keep_slow_cut n m b = ?rest @ tl)"
  proof (cases ?q)
    case None
    then show ?thesis unfolding kc by simp
  next
    case (Some q)
    then have "\<exists>i. pipe_from ?d1 i = Some q \<and> t + 1 \<le> i"
      by (cases "length ?d > sb_len b div 2 \<and> t + 1 + n < sb_len b div 2")
        (auto intro: exI [of _ "sb_len b div 2"] exI [of _ "t + 1 + n"])
    with cut Some show ?thesis unfolding kc by auto
  qed
  moreover have "CHR ''|'' \<notin> set r" using p by (simp add: r_def)
  ultimately show ?thesis using ht unfolding unsent_def by auto
qed

text \<open>\<open>fits t b\<close>: a non-empty text that leaves the data below 2 GB, so that no 32-bit length wraps.\<close>

definition fits :: "string \<Rightarrow> SendBuf \<Rightarrow> bool" where
  "fits t b \<longleftrightarrow> t \<noteq> [] \<and> length (sb_data b) + length t < 2 ^ 31"

lemma Allign_small: "n < 2 ^ 31 + 1 \<Longrightarrow> (Allign n - 1) mod 2 ^ 32 = n + n div 2"
  by (simp add: Allign_def)

lemma keep_slow_cut_length:
  assumes "sb_head b \<le> length (sb_data b)"
  shows "length (keep_slow_cut n m b) \<le> length (sb_data b) + 1"
proof -
  have l: "length (unsent b) \<le> length (sb_data b)" by (simp add: unsent_def)
  from keep_slow_cut_spec [OF assms, of n m] have "length (keep_slow_cut n m b) \<le> length (unsent b) + 1"
    by auto
  with l show ?thesis by simp
qed

lemma put_in_buf_run:
  assumes ok: "buf_ok b" and fits: "fits t b"
  shows "(put_in_buf m keep t b = Inr None \<and> \<not> keep)
    \<or> (\<exists>b'. put_in_buf m keep t b = Inr (Some b') \<and> buf_ok b'
        \<and> (unsent b' = unsent b @ t \<or> keep \<and> unsent b' = keep_slow_cut (length t) m b @ t))"
proof -
  let ?n = "length t" and ?l = "length (sb_data b)"
  let ?b0 = "b\<lparr>sb_called := sb_called b + 1\<rparr>"
  have n: "0 < ?n" "?l + ?n < 2 ^ 31" using fits by (auto simp: fits_def)
  have h: "sb_head b \<le> ?l" "?l \<le> sb_len b" and na: "\<not> sb_alloc b \<Longrightarrow> sb_len b = 0"
    using ok by (auto simp: buf_ok_def)
  have al: "(Allign (?l + ?n) - 1) mod 2 ^ 32 = ?l + ?n + (?l + ?n) div 2" using n by (intro Allign_small) simp
  have big: "Allign (?l + ?n) \<noteq> 0" "\<not> ?l > Allign (?l + ?n)" by (simp_all add: Allign_def)
  have app: "append_data t c = Inr (c\<lparr>sb_data := sb_data c @ t\<rparr>)" "buf_ok (c\<lparr>sb_data := sb_data c @ t\<rparr>)"
      "unsent (c\<lparr>sb_data := sb_data c @ t\<rparr>) = unsent c @ t"
    if "sb_alloc c" "length (sb_data c) + ?n \<le> sb_len c" "sb_head c \<le> length (sb_data c)" for c
    using that by (simp_all add: append_data_def buf_ok_def unsent_def)
  have grow: "\<exists>b'. rbind (reallocate (Allign (?l + ?n)) c) (\<lambda>b2. rbind (append_data t b2) (\<lambda>b3. Inr (Some b3))) = Inr (Some b')
      \<and> buf_ok b' \<and> unsent b' = unsent b @ t"
    if "sb_data c = sb_data b" "sb_head c = sb_head b" for c
  proof -
    let ?c = "c\<lparr>sb_alloc := True, sb_len := ?l + ?n + (?l + ?n) div 2\<rparr>"
    have r: "reallocate (Allign (?l + ?n)) c = Inr ?c" using that al big by (simp add: reallocate_def)
    have "unsent ?c = unsent b" using that by (simp add: unsent_def)
    with r app [of ?c] that h(1) show ?thesis by simp
  qed
  show ?thesis
  proof (cases "sb_len b < ?l + ?n")
    case True
    show ?thesis
    proof (cases "sb_alloc b")
      case False
      with True grow [of ?b0] show ?thesis by (auto simp: put_in_buf_def make_room_def Let_def)
    next
      case al: True
      show ?thesis
      proof (cases "sb_head b > ?n")
        case compact: True
        let ?c = "?b0\<lparr>sb_data := drop (sb_head b) (sb_data b), sb_head := 0\<rparr>"
        have "unsent ?c = unsent b" by (simp add: unsent_def)
        with app [of ?c] al compact h show ?thesis
          using True by (auto simp: put_in_buf_def make_room_def Let_def reallocate_def)
      next
        case False
        show ?thesis
        proof (cases "Allign (?l + ?n) > m \<and> keep")
          case cut: True
          let ?k = "keep_slow_cut ?n m ?b0"
          have k: "?k = keep_slow_cut ?n m b" by (simp add: keep_slow_cut_def cong: option.case_cong if_cong)
          let ?c = "?b0\<lparr>sb_data := ?k, sb_head := 0, sb_len := (Allign (?n + length ?k) - 1) mod 2 ^ 32\<rparr>"
          have "length ?k \<le> ?l + 1" unfolding k by (rule keep_slow_cut_length [OF h(1)])
          then have "?n + length ?k < 2 ^ 31 + 1" using n by simp
          from Allign_small [OF this] have "sb_len ?c = ?n + length ?k + (?n + length ?k) div 2" by simp
          with app [of ?c] al have "append_data t ?c = Inr (?c\<lparr>sb_data := ?k @ t\<rparr>)" "buf_ok (?c\<lparr>sb_data := ?k @ t\<rparr>)"
            "unsent (?c\<lparr>sb_data := ?k @ t\<rparr>) = ?k @ t" by (simp_all add: unsent_def)
          moreover have "put_in_buf m keep t b = rbind (append_data t ?c) (\<lambda>b3. Inr (Some b3))"
            using True al False cut by (simp add: put_in_buf_def make_room_def Let_def reallocate_def)
          ultimately show ?thesis using cut unfolding k by auto
        next
          case nc: False
          with True al False grow [of ?b0] show ?thesis
            by (cases "Allign (?l + ?n) > m") (auto simp: put_in_buf_def make_room_def Let_def)
        qed
      qed
    qed
  next
    case False
    then have a: "sb_alloc b" using na n(1) by (cases "sb_alloc b") auto
    show ?thesis
    proof (cases "sb_called ?b0 > 100 \<and> \<not> sb_len b \<le> Allign (?l + ?n)")
      case True
      with False grow [of "?b0\<lparr>sb_called := 0\<rparr>"] show ?thesis by (auto simp: put_in_buf_def make_room_def Let_def)
    next
      case ns: False
      have "unsent ?b0 = unsent b" "unsent (?b0\<lparr>sb_called := 0\<rparr>) = unsent b" by (simp_all add: unsent_def)
      with False ns a h app [of ?b0] app [of "?b0\<lparr>sb_called := 0\<rparr>"] show ?thesis
        by (cases "sb_called ?b0 > 100") (auto simp: put_in_buf_def make_room_def Let_def reallocate_def)
    qed
  qed
qed

lemma after_send_run:
  assumes ok: "buf_ok b" and n: "n \<le> length (offered b)"
  shows "buf_ok (fst (after_send big n b)) \<and> unsent b = take n (offered b) @ unsent (fst (after_send big n b))
    \<and> (snd (after_send big n b) \<longleftrightarrow> unsent (fst (after_send big n b)) \<noteq> [])"
proof -
  have off: "length (offered b) \<le> length (unsent b)" "take n (offered b) = take n (unsent b)"
    using n by (auto simp: offered_def)
  have lu: "length (unsent b) = length (sb_data b) - sb_head b" by (simp add: unsent_def)
  show ?thesis
  proof (cases "n < length (unsent b)")
    case True
    have "unsent (b\<lparr>sb_head := sb_head b + n\<rparr>) = drop n (unsent b)" by (simp add: unsent_def add.commute)
    then show ?thesis using True ok off lu by (auto simp: after_send_def buf_ok_def)
  next
    case False
    then have "n = length (unsent b)" using n off by simp
    then show ?thesis using ok off lu False by (auto simp: after_send_def buf_ok_def unsent_def)
  qed
qed

section \<open>The buffer as a queue of bytes\<close>

text \<open>
  The interface the hub relies on: putting a text and taking bytes from the front.  A client is a sequence
  of puts and of answers of the socket; \<open>io_run\<close> runs it and collects what the socket took.
\<close>

datatype io = Put string | Taken nat

fun io_run :: "(string \<Rightarrow> 's \<Rightarrow> 's option) \<Rightarrow> (nat \<Rightarrow> 's \<Rightarrow> 's) \<Rightarrow> ('s \<Rightarrow> string) \<Rightarrow> io list \<Rightarrow> 's
    \<Rightarrow> (string \<times> 's) option" where
  "io_run put took offer [] s = Some ([], s)"
| "io_run put took offer (Put t # es) s =
     (case put t s of None \<Rightarrow> None | Some s' \<Rightarrow> io_run put took offer es s')"
| "io_run put took offer (Taken n # es) s =
     (if n > length (offer s) then None
      else (case io_run put took offer es (took n s) of
              None \<Rightarrow> None | Some (out, s') \<Rightarrow> Some (take n (offer s) @ out, s')))"

primrec io_input :: "io \<Rightarrow> string" where
  "io_input (Put t) = t"
| "io_input (Taken n) = []"

locale byte_fifo =
  fixes inv :: "'s \<Rightarrow> bool" and pending :: "'s \<Rightarrow> string"
    and put :: "string \<Rightarrow> 's \<Rightarrow> 's option" and took :: "nat \<Rightarrow> 's \<Rightarrow> 's" and offer :: "'s \<Rightarrow> string"
  assumes put_law: "inv s \<Longrightarrow> put t s = Some s' \<Longrightarrow> inv s' \<and> pending s' = pending s @ t"
    and took_law: "inv s \<Longrightarrow> n \<le> length (offer s) \<Longrightarrow> inv (took n s) \<and> pending s = take n (offer s) @ pending (took n s)"
begin

text \<open>Nothing is lost, repeated or reordered: what was sent and what is pending are what was put.\<close>

lemma stream:
  "inv s \<Longrightarrow> io_run put took offer es s = Some (out, s') \<Longrightarrow>
     inv s' \<and> pending s @ concat (map io_input es) = out @ pending s'"
proof (induction es arbitrary: s out)
  case (Cons e es)
  show ?case
  proof (cases e)
    case (Put t)
    with Cons.prems obtain s1 where s1: "put t s = Some s1" "io_run put took offer es s1 = Some (out, s')"
      by (auto split: option.splits)
    from put_law [OF Cons.prems(1) s1(1)] have "inv s1" "pending s1 = pending s @ t" by auto
    with Cons.IH [OF _ s1(2)] Put show ?thesis by simp
  next
    case (Taken n)
    with Cons.prems obtain o1 where n: "n \<le> length (offer s)"
      and o1: "io_run put took offer es (took n s) = Some (o1, s')" "out = take n (offer s) @ o1"
      by (auto split: option.splits if_splits)
    from took_law [OF Cons.prems(1) n] have t: "inv (took n s)" "pending s = take n (offer s) @ pending (took n s)" by auto
    from Cons.IH [OF t(1) o1(1)] have "inv s'" "pending (took n s) @ concat (map io_input es) = o1 @ pending s'" by auto
    with t(2) o1(2) Taken show ?thesis by simp
  qed
qed simp

end

text \<open>Putting without the slow-user exception; a text that does not fit, or the overflow, stops the run.\<close>

definition buf_put :: "nat \<Rightarrow> string \<Rightarrow> SendBuf \<Rightarrow> SendBuf option" where
  "buf_put m t b =
     (if fits t b then (case put_in_buf m False t b of Inr (Some b') \<Rightarrow> Some b' | _ \<Rightarrow> None) else None)"

definition buf_took :: "bool \<Rightarrow> nat \<Rightarrow> SendBuf \<Rightarrow> SendBuf" where
  "buf_took big n b = fst (after_send big n b)"

lemma buf_put_law:
  assumes "buf_ok b" and "buf_put m t b = Some b'"
  shows "buf_ok b' \<and> unsent b' = unsent b @ t"
proof -
  from assms(2) have f: "fits t b" and p: "put_in_buf m False t b = Inr (Some b')"
    by (auto simp: buf_put_def split: if_splits sum.splits option.splits)
  from put_in_buf_run [OF assms(1) f, of m False] p show ?thesis by auto
qed

interpretation send_queue: byte_fifo buf_ok unsent "buf_put m" "buf_took big" offered for m big
  by unfold_locales (auto simp: buf_put_law buf_took_def after_send_run)

text \<open>
  C27.  \<open>PutInSendBuf\<close> never writes outside the allocation or through a null pointer, for any text that
  leaves the data below 2 GB: it closes a user who does not keep up (when slow users are not kept), or the
  text follows the bytes still to be sent; for a kept slow user only whole commands in the middle are dropped.
\<close>

theorem PutInSendBuf_safe:
  assumes "buf_ok b" and "fits t b"
  shows "(put_in_buf m keep t b = Inr None \<and> \<not> keep)
    \<or> (\<exists>b'. put_in_buf m keep t b = Inr (Some b') \<and> buf_ok b'
        \<and> (unsent b' = unsent b @ t
           \<or> keep \<and> CHR ''|'' \<notin> set (unsent b) \<and> unsent b' = ''|'' @ t
           \<or> keep \<and> (\<exists>r post. unsent b = r @ ''|'' @ post \<and> CHR ''|'' \<notin> set r \<and> unsent b' = r @ ''|'' @ t)
           \<or> keep \<and> (\<exists>r gap tl. unsent b = r @ ''|'' @ gap @ ''|'' @ tl \<and> CHR ''|'' \<notin> set r
               \<and> unsent b' = r @ ''|'' @ tl @ t)))"
proof -
  have h: "sb_head b \<le> length (sb_data b)" using assms(1) by (simp add: buf_ok_def)
  from put_in_buf_run [OF assms] consider
      (over) "put_in_buf m keep t b = Inr None" "\<not> keep"
    | (app) b' where "put_in_buf m keep t b = Inr (Some b')" "buf_ok b'" "unsent b' = unsent b @ t"
    | (cut) b' where "put_in_buf m keep t b = Inr (Some b')" "buf_ok b'" "keep"
        "unsent b' = keep_slow_cut (length t) m b @ t" by blast
  then show ?thesis
  proof cases
    case cut
    from keep_slow_cut_spec [OF h, of "length t" m] show ?thesis
    proof (elim disjE exE conjE)
      fix r post pre tl
      assume "unsent b = r @ CHR ''|'' # post" "CHR ''|'' \<notin> set r" "post = pre @ CHR ''|'' # tl"
        "keep_slow_cut (length t) m b = r @ CHR ''|'' # tl"
      then have "unsent b = r @ ''|'' @ pre @ ''|'' @ tl" "CHR ''|'' \<notin> set r" "unsent b' = r @ ''|'' @ tl @ t"
        using cut(4) by simp_all
      with cut show ?thesis by blast
    next
      fix r post
      assume "unsent b = r @ CHR ''|'' # post" "CHR ''|'' \<notin> set r" "keep_slow_cut (length t) m b = r @ ''|''"
      then have "unsent b = r @ ''|'' @ post" "CHR ''|'' \<notin> set r" "unsent b' = r @ ''|'' @ t"
        using cut(4) by simp_all
      with cut show ?thesis by blast
    next
      assume "CHR ''|'' \<notin> set (unsent b)" "keep_slow_cut (length t) m b = ''|''"
      with cut show ?thesis by auto
    qed
  qed blast+
qed

theorem PutInSendBuf_safe_witness:
  "\<exists>b'. put_in_buf 262144 False ''$Hello a|'' empty_buf = Inr (Some b') \<and> unsent b' = ''$Hello a|''"
proof -
  have "put_in_buf 262144 False ''$Hello a|'' empty_buf \<noteq> Inr None"
    by (simp add: put_in_buf_def empty_buf_def make_room_def Allign_def reallocate_def append_data_def)
  then show ?thesis
    using PutInSendBuf_safe [OF buf_ok_empty(1), of "''$Hello a|''" 262144 False]
    by (auto simp: fits_def unsent_def empty_buf_def)
qed



end
