(* ===== verification/UserState.thy ===== *)
theory UserState
  imports Utility SendBuffer
begin

text \<open>
  The user object (\<open>core/User.h\<close>): the fields the modelled components use, the connection states in
  the order of the enumeration, and the flag words with their named bits.
\<close>

section \<open>Connection states\<close>

datatype UserStates =
    STATE_SOCKET_ACCEPTED | STATE_KEY_OR_SUP | STATE_VALIDATE | STATE_VERSION_OR_MYPASS
  | STATE_GETNICKLIST_OR_MYINFO | STATE_IPV4_CHECK | STATE_ADDME | STATE_ADDME_1LOOP
  | STATE_ADDME_2LOOP | STATE_ADDED | STATE_CLOSING | STATE_REMME

primrec to_underlying :: "UserStates \<Rightarrow> nat" where
  "to_underlying STATE_SOCKET_ACCEPTED = 0"
| "to_underlying STATE_KEY_OR_SUP = 1"
| "to_underlying STATE_VALIDATE = 2"
| "to_underlying STATE_VERSION_OR_MYPASS = 3"
| "to_underlying STATE_GETNICKLIST_OR_MYINFO = 4"
| "to_underlying STATE_IPV4_CHECK = 5"
| "to_underlying STATE_ADDME = 6"
| "to_underlying STATE_ADDME_1LOOP = 7"
| "to_underlying STATE_ADDME_2LOOP = 8"
| "to_underlying STATE_ADDED = 9"
| "to_underlying STATE_CLOSING = 10"
| "to_underlying STATE_REMME = 11"

lemma to_underlying_inj: "to_underlying s = to_underlying t \<Longrightarrow> s = t"
  by (cases s; cases t) simp_all

text \<open>The states are ordered as the code compares them.\<close>

instantiation UserStates :: linorder
begin

definition less_eq_UserStates :: "UserStates \<Rightarrow> UserStates \<Rightarrow> bool" where
  "less_eq_UserStates s t \<longleftrightarrow> to_underlying s \<le> to_underlying t"

definition less_UserStates :: "UserStates \<Rightarrow> UserStates \<Rightarrow> bool" where
  "less_UserStates s t \<longleftrightarrow> to_underlying s < to_underlying t"

instance
  by standard (auto simp: less_eq_UserStates_def less_UserStates_def dest: to_underlying_inj)

end

definition isPastLogin :: "UserStates \<Rightarrow> bool" where
  "isPastLogin s \<longleftrightarrow> STATE_CLOSING \<le> s"

lemma isPastLogin_iff: "isPastLogin s \<longleftrightarrow> s = STATE_CLOSING \<or> s = STATE_REMME"
  by (cases s) (simp_all add: isPastLogin_def less_eq_UserStates_def)

section \<open>Flag words\<close>

definition has_bits :: "'a::len word \<Rightarrow> 'a word \<Rightarrow> bool" where
  "has_bits w m \<longleftrightarrow> w AND m = m"

text \<open>For a one-bit mask the test reads that bit, and setting and clearing another mask does not
  disturb it.\<close>

lemma has_bits_or [simp]: "has_bits (w OR m) m"
  by (simp add: has_bits_def bit_eq_iff bit_and_iff bit_or_iff)

lemma has_bits_or_other: "has_bits m k \<Longrightarrow> has_bits (w OR m) k"
  by (auto simp: has_bits_def bit_eq_iff bit_and_iff bit_or_iff)

lemma has_bits_or_disjoint: "m AND k = 0 \<Longrightarrow> has_bits (w OR m) k \<longleftrightarrow> has_bits w k"
  by (auto simp: has_bits_def bit_eq_iff bit_and_iff bit_or_iff)

lemma has_bits_clear: "m \<noteq> 0 \<Longrightarrow> \<not> has_bits (w AND NOT m) m"
  by (auto simp: has_bits_def bit_eq_iff bit_and_iff bit_not_iff dest: bit_imp_le_length)

lemma has_bits_clear_disjoint: "m AND k = 0 \<Longrightarrow> has_bits (w AND NOT m) k \<longleftrightarrow> has_bits w k"
  by (auto simp: has_bits_def bit_eq_iff bit_and_iff bit_not_iff dest: bit_imp_le_length)

definition BIT_HASHED :: u32 where "BIT_HASHED = 0x1"
definition BIT_ERROR :: u32 where "BIT_ERROR = 0x2"
definition BIT_OPERATOR :: u32 where "BIT_OPERATOR = 0x4"
definition BIT_BIG_SEND_BUFFER :: u32 where "BIT_BIG_SEND_BUFFER = 0x200"
definition BIT_HAVE_SHARECOUNTED :: u32 where "BIT_HAVE_SHARECOUNTED = 0x8000"
definition BIT_RECV_FLOODER :: u32 where "BIT_RECV_FLOODER = 0x20000"
definition BIT_IPV6 :: u32 where "BIT_IPV6 = 0x800000"
definition BIT_GETNICKLIST :: u32 where "BIT_GETNICKLIST = 0x10"
definition BIT_IPV4_ACTIVE :: u32 where "BIT_IPV4_ACTIVE = 0x20"
definition BIT_OLDHUBSTAG :: u32 where "BIT_OLDHUBSTAG = 0x40"
definition BIT_PINGER :: u32 where "BIT_PINGER = 0x100"
definition BIT_HAVE_SUPPORTS :: u32 where "BIT_HAVE_SUPPORTS = 0x400"
definition BIT_HAVE_BADTAG :: u32 where "BIT_HAVE_BADTAG = 0x800"
definition BIT_HAVE_GETNICKLIST :: u32 where "BIT_HAVE_GETNICKLIST = 0x1000"
definition BIT_HAVE_BOTINFO :: u32 where "BIT_HAVE_BOTINFO = 0x2000"
definition BIT_HAVE_KEY :: u32 where "BIT_HAVE_KEY = 0x4000"
definition BIT_PRCSD_MYINFO :: u32 where "BIT_PRCSD_MYINFO = 0x10000"
definition BIT_QUACK_SUPPORTS :: u32 where "BIT_QUACK_SUPPORTS = 0x400000"
definition BIT_IPV4 :: u32 where "BIT_IPV4 = 0x1000000"
definition BIT_WAITING_FOR_PASS :: u32 where "BIT_WAITING_FOR_PASS = 0x2000000"
definition BIT_WARNED_WRONG_IP :: u32 where "BIT_WARNED_WRONG_IP = 0x4000000"
definition BIT_IPV6_ACTIVE :: u32 where "BIT_IPV6_ACTIVE = 0x8000000"
definition INFOBIT_DESCRIPTION_CHANGED :: u32 where "INFOBIT_DESCRIPTION_CHANGED = 0x1"
definition INFOBIT_TAG_CHANGED :: u32 where "INFOBIT_TAG_CHANGED = 0x2"
definition INFOBIT_CONNECTION_CHANGED :: u32 where "INFOBIT_CONNECTION_CHANGED = 0x4"
definition INFOBIT_EMAIL_CHANGED :: u32 where "INFOBIT_EMAIL_CHANGED = 0x8"
definition INFOBIT_SHARE_CHANGED :: u32 where "INFOBIT_SHARE_CHANGED = 0x10"
definition INFOBIT_SHARE_SHORT_PERM :: u32 where "INFOBIT_SHARE_SHORT_PERM = 0x2000"
definition INFOBIT_SHARE_LONG_PERM :: u32 where "INFOBIT_SHARE_LONG_PERM = 0x4000"
definition SUPPORTBIT_NOGETINFO :: u32 where "SUPPORTBIT_NOGETINFO = 0x1"
definition SUPPORTBIT_USERCOMMAND :: u32 where "SUPPORTBIT_USERCOMMAND = 0x2"
definition SUPPORTBIT_QUICKLIST :: u32 where "SUPPORTBIT_QUICKLIST = 0x8"
definition SUPPORTBIT_USERIP2 :: u32 where "SUPPORTBIT_USERIP2 = 0x10"
definition SUPPORTBIT_IP64 :: u32 where "SUPPORTBIT_IP64 = 0x40"
definition SUPPORTBIT_TLS2 :: u32 where "SUPPORTBIT_TLS2 = 0x100"
definition SUPPORTBIT_ZPIPE0 :: u32 where "SUPPORTBIT_ZPIPE0 = 0x200"
definition SUPPORTBIT_HUBURL :: u32 where "SUPPORTBIT_HUBURL = 0x800"
definition INFOBIT_HIDE_KEY :: u32 where "INFOBIT_HIDE_KEY = 0x20000"
definition INFOBIT_HIDDEN :: u32 where "INFOBIT_HIDDEN = 0x8000"
definition INFOBIT_NO_QUIT :: u32 where "INFOBIT_NO_QUIT = 0x10000"
definition SUPPORTBIT_NOHELLO :: u32 where "SUPPORTBIT_NOHELLO = 0x4"
definition SUPPORTBIT_ZPIPE :: u32 where "SUPPORTBIT_ZPIPE = 0x20"
definition SUPPORTBIT_IPV4 :: u32 where "SUPPORTBIT_IPV4 = 0x80"

lemmas user_bits = BIT_HASHED_def BIT_ERROR_def BIT_OPERATOR_def BIT_BIG_SEND_BUFFER_def
  BIT_HAVE_SHARECOUNTED_def BIT_RECV_FLOODER_def BIT_IPV6_def INFOBIT_HIDDEN_def
  INFOBIT_NO_QUIT_def INFOBIT_HIDE_KEY_def SUPPORTBIT_NOHELLO_def SUPPORTBIT_ZPIPE_def SUPPORTBIT_IPV4_def
  BIT_GETNICKLIST_def BIT_IPV4_ACTIVE_def BIT_OLDHUBSTAG_def BIT_PINGER_def BIT_HAVE_SUPPORTS_def BIT_HAVE_BADTAG_def
  BIT_HAVE_GETNICKLIST_def BIT_HAVE_BOTINFO_def BIT_HAVE_KEY_def BIT_PRCSD_MYINFO_def BIT_QUACK_SUPPORTS_def
  BIT_IPV4_def BIT_WAITING_FOR_PASS_def BIT_WARNED_WRONG_IP_def BIT_IPV6_ACTIVE_def
  INFOBIT_DESCRIPTION_CHANGED_def INFOBIT_TAG_CHANGED_def INFOBIT_CONNECTION_CHANGED_def INFOBIT_EMAIL_CHANGED_def
  INFOBIT_SHARE_CHANGED_def INFOBIT_SHARE_SHORT_PERM_def INFOBIT_SHARE_LONG_PERM_def SUPPORTBIT_NOGETINFO_def
  SUPPORTBIT_USERCOMMAND_def SUPPORTBIT_QUICKLIST_def SUPPORTBIT_USERIP2_def SUPPORTBIT_IP64_def SUPPORTBIT_TLS2_def
  SUPPORTBIT_ZPIPE0_def SUPPORTBIT_HUBURL_def

section \<open>The user object\<close>

text \<open>Commands kept until the end of a received chunk: answers to run, and texts for another user.\<close>

record PrcsdUsrCmd =
  cmd_sCommand :: string
  cmd_ui32Len :: u32
  cmd_ui8Type :: byte
  cmd_pPtr :: "addr option"

record PrcsdToUsrCmd =
  to_sCommand :: string
  to_ui32PmCount :: u32
  to_ui32Loops :: u32
  to_pToUser :: addr
  to_nick :: string

text \<open>A ban found when the connection was accepted, kept until the nick is known.\<close>

record UserBan =
  ub_sMessage :: string
  ub_ui32NickHash :: u32

text \<open>
  The fields of the user object that \<open>$MyINFO\<close> fills: the text as received, without its final NUL
  (\<open>None\<close> for the empty vector), and what \<open>UserParseMyInfo\<close> reads out of it; with a flag
  and a counter of the commands between users.
\<close>

record UserInfo =
  m_sMyInfoOriginal :: "string option"
  m_ui16MyInfoOriginalLen :: u16
  m_sDescription :: string
  m_sTag :: string
  m_sConnection :: string
  m_sEmail :: string
  m_sClient :: string
  m_sTagVersion :: string
  m_sModes :: string
  m_ui32Hubs :: u32
  m_ui32Slots :: u32
  m_ui32OLimit :: u32
  m_ui32LLimit :: u32
  m_ui32DLimit :: u32
  m_ui32NormalHubs :: u32
  m_ui32RegHubs :: u32
  m_ui32OpHubs :: u32
  m_ui8MagicByte :: byte
  m_is_bad_len_number_myinfo :: bool
  m_ui64ChangedSharedSizeShort :: u64
  m_ui64ChangedSharedSizeLong :: u64
  m_is_bad_len_port :: bool
  m_ui32SR :: u32

definition blank_info :: UserInfo where
  "blank_info = \<lparr>m_sMyInfoOriginal = None, m_ui16MyInfoOriginalLen = 0, m_sDescription = [], m_sTag = [], m_sConnection = [],
     m_sEmail = [], m_sClient = [], m_sTagVersion = [], m_sModes = [], m_ui32Hubs = 0, m_ui32Slots = 0, m_ui32OLimit = 0,
     m_ui32LLimit = 0, m_ui32DLimit = 0, m_ui32NormalHubs = 0, m_ui32RegHubs = 0, m_ui32OpHubs = 0, m_ui8MagicByte = 0,
     m_is_bad_len_number_myinfo = False, m_ui64ChangedSharedSizeShort = 0, m_ui64ChangedSharedSizeLong = 0,
     m_is_bad_len_port = False, m_ui32SR = 0\<rparr>"

text \<open>The flood counters: \<open>m_ui16X\<close> with its tick \<open>m_ui64XTick\<close>, by the name \<open>X\<close>.\<close>

datatype FloodCounter =
    GetNickLists | MyINFOs | MyINFOs2 | Searchs | Searchs2 | SameSearchs | SearchsInt | ChatMsgs | ChatMsgs2
  | SameChatMsgs | SameMultiChats | ChatIntMsgs | PMs | PMs2 | SamePMs | SameMultiPms | PMsInt | CTMs | CTMs2
  | RCTMs | RCTMs2 | SRs | SRs2

text \<open>The fields are those the modelled components use; \<open>m_LogBuffer\<close> is \<open>m_LogInOut.m_Buffer\<close>.\<close>

record User =
  m_sNick :: string
  m_ui32NickHash :: u32
  m_ui128IpHash :: "byte list"
  m_sIP :: string
  m_pHashIpTablePrev :: "addr option"
  m_pHashIpTableNext :: "addr option"
  m_ui8State :: UserStates
  m_ui32BoolBits :: u32
  m_ui32InfoBits :: u32
  m_ui32SupportBits :: u32
  m_ui32DefloodWarnings :: u32
  m_ui64SharedSize :: u64
  m_i32Profile :: int
  m_SendBuf :: SendBuf
  m_sMyInfoLong :: string
  m_sMyInfoShort :: string
  m_CmdList :: "PrcsdUsrCmd list"
  m_CmdToUserList :: "PrcsdToUsrCmd list"
  m_ui32ToCloseLoops :: u32
  m_ui64IPv4CheckTick :: u64
  m_LogBuffer :: string
  m_pBan :: "UserBan option"
  m_ui64LogonTick :: u64
  m_sIPv4 :: string
  m_ui8Country :: byte
  m_LastSearch :: string
  m_sLastChat :: string
  m_sLastPM :: string
  m_Info :: UserInfo
  m_Counters :: "FloodCounter \<Rightarrow> u16 \<times> u64"

text \<open>A user object before its constructor runs.\<close>

definition blank_user :: User where
  "blank_user = \<lparr>m_sNick = [], m_ui32NickHash = 0, m_ui128IpHash = replicate 16 0, m_sIP = [],
     m_pHashIpTablePrev = None, m_pHashIpTableNext = None, m_ui8State = STATE_SOCKET_ACCEPTED,
     m_ui32BoolBits = 0, m_ui32InfoBits = 0, m_ui32SupportBits = 0, m_ui32DefloodWarnings = 0,
     m_ui64SharedSize = 0, m_i32Profile = -1, m_SendBuf = empty_buf, m_sMyInfoLong = [], m_sMyInfoShort = [],
     m_CmdList = [], m_CmdToUserList = [], m_ui32ToCloseLoops = 0, m_ui64IPv4CheckTick = 0, m_LogBuffer = [],
     m_pBan = None, m_ui64LogonTick = 0, m_sIPv4 = [], m_ui8Country = 0, m_LastSearch = [],
     m_sLastChat = [], m_sLastPM = [], m_Info = blank_info, m_Counters = (\<lambda>_. (0, 0))\<rparr>"

abbreviation set_user_prev :: "addr option \<Rightarrow> User \<Rightarrow> User" where
  "set_user_prev p u \<equiv> u\<lparr>m_pHashIpTablePrev := p\<rparr>"

abbreviation set_user_next :: "addr option \<Rightarrow> User \<Rightarrow> User" where
  "set_user_next p u \<equiv> u\<lparr>m_pHashIpTableNext := p\<rparr>"

abbreviation clear_user_links :: "User \<Rightarrow> User" where
  "clear_user_links u \<equiv> u\<lparr>m_pHashIpTablePrev := None, m_pHashIpTableNext := None\<rparr>"

text \<open>The user object is a chain node through its two table links.\<close>

interpretation user_node: chain_node m_pHashIpTablePrev m_pHashIpTableNext
    "\<lambda>p u. set_user_prev p u" "\<lambda>p u. set_user_next p u"
  by unfold_locales simp_all

abbreviation user_chain :: "(addr \<Rightarrow> User option) \<Rightarrow> addr option \<Rightarrow> addr list \<Rightarrow> bool" where
  "user_chain \<equiv> dchain m_pHashIpTablePrev m_pHashIpTableNext"

end
