(* ===== verification/BanManager.thy ===== *)
theory BanManager
  imports UserState MsgBuffer
begin

text \<open>
  \<open>core/hashBanManager\<close>, the state and the tables: ban objects in a heap, the table by nick hash, the
  table by address whose entries are the heads of chains through the ban objects, and the lists that
  own the objects.  A list node holds a \<open>std::unique_ptr\<close>, so erasing it deletes the object;
  \<open>guarded_drop\<close> is the pattern of every call site, \<open>Rem(ban); std::unique_ptr<BanItem> guard(ban);\<close>.
\<close>

section \<open>Ban objects\<close>

record BanItemBase =
  m_tTempBanExpire :: int
  m_sReason :: string
  m_sBy :: string
  m_ui8Bits :: byte

record BanItem = BanItemBase +
  b_sNick :: string
  b_pHashIpTablePrev :: "addr option"
  b_pHashIpTableNext :: "addr option"
  b_ui32NickHash :: u32
  b_ui128IpHash :: "byte list"
  b_sIp :: string

record RangeBanItem = BanItemBase +
  m_ui128FromIpHash :: "byte list"
  m_ui128ToIpHash :: "byte list"
  m_sIpFrom :: string
  m_sIpTo :: string

definition PERM :: byte where "PERM = 0x1"
definition TEMP :: byte where "TEMP = 0x2"
definition FULL :: byte where "FULL = 0x4"
definition IP :: byte where "IP = 0x8"
definition NICK :: byte where "NICK = 0x10"

lemmas ban_bits = PERM_def TEMP_def FULL_def IP_def NICK_def

abbreviation is_set :: "'a BanItemBase_scheme \<Rightarrow> byte \<Rightarrow> bool" where
  "is_set b m \<equiv> has_bits (m_ui8Bits b) m"

abbreviation set_bit_of :: "byte \<Rightarrow> BanItem \<Rightarrow> BanItem" where
  "set_bit_of m b \<equiv> b\<lparr>m_ui8Bits := m_ui8Bits b OR m\<rparr>"

abbreviation clear_bit_of :: "byte \<Rightarrow> BanItem \<Rightarrow> BanItem" where
  "clear_bit_of m b \<equiv> b\<lparr>m_ui8Bits := m_ui8Bits b AND NOT m\<rparr>"

definition new_BanItem :: BanItem where
  "new_BanItem = \<lparr>m_tTempBanExpire = 0, m_sReason = [], m_sBy = [], m_ui8Bits = 0, b_sNick = [],
     b_pHashIpTablePrev = None, b_pHashIpTableNext = None, b_ui32NickHash = 0,
     b_ui128IpHash = replicate 16 0, b_sIp = []\<rparr>"

definition initIP_user :: "User \<Rightarrow> BanItem \<Rightarrow> BanItem" where
  "initIP_user u b = b\<lparr>b_sIp := SafeStrCopy 40 (m_sIP u), b_ui128IpHash := m_ui128IpHash u\<rparr>"

definition initIP_text :: "string \<Rightarrow> BanItem \<Rightarrow> BanItem" where
  "initIP_text pIP b = b\<lparr>b_sIp := SafeStrCopy 40 pIP\<rparr>"

text \<open>The ban object is a chain node through its two table links.\<close>

abbreviation set_ban_prev :: "addr option \<Rightarrow> BanItem \<Rightarrow> BanItem" where
  "set_ban_prev p b \<equiv> b\<lparr>b_pHashIpTablePrev := p\<rparr>"

abbreviation set_ban_next :: "addr option \<Rightarrow> BanItem \<Rightarrow> BanItem" where
  "set_ban_next p b \<equiv> b\<lparr>b_pHashIpTableNext := p\<rparr>"

abbreviation clear_ban_links :: "BanItem \<Rightarrow> BanItem" where
  "clear_ban_links b \<equiv> b\<lparr>b_pHashIpTablePrev := None, b_pHashIpTableNext := None\<rparr>"

interpretation ban_node: chain_node b_pHashIpTablePrev b_pHashIpTableNext
    "\<lambda>p b. set_ban_prev p b" "\<lambda>p b. set_ban_next p b"
  by unfold_locales simp_all

abbreviation ban_chain :: "(addr \<Rightarrow> BanItem option) \<Rightarrow> addr option \<Rightarrow> addr list \<Rightarrow> bool" where
  "ban_chain \<equiv> dchain b_pHashIpTablePrev b_pHashIpTableNext"

section \<open>The manager's tables\<close>

text \<open>
  \<open>m_NickBanTable\<close> is the multimap as its \<open>equal_range\<close> yields it per hash; a new entry goes in front of
  its equals.  \<open>bm_next\<close> bounds the addresses in use.
\<close>

record BanManager =
  bm_heap :: "addr \<Rightarrow> BanItem option"
  m_NickBanTable :: "u32 \<Rightarrow> addr list"
  m_IpBanTable :: "byte list \<Rightarrow> addr option"
  m_TempBanList :: "addr list"
  m_PermBanList :: "addr list"
  m_RangeBanList :: "(addr \<times> RangeBanItem) list"
  m_ui32SaveCalled :: u32
  bm_next :: addr

definition new_BanManager :: BanManager where
  "new_BanManager = \<lparr>bm_heap = \<lambda>_. None, m_NickBanTable = \<lambda>_. [], m_IpBanTable = \<lambda>_. None,
     m_TempBanList = [], m_PermBanList = [], m_RangeBanList = [], m_ui32SaveCalled = 0, bm_next = 0\<rparr>"

definition Add2NickTable :: "addr \<Rightarrow> BanManager \<Rightarrow> BanManager res" where
  "Add2NickTable Ban s =
     rbind (deref (bm_heap s) Ban) (\<lambda>b.
       Inr (s\<lparr>m_NickBanTable := (m_NickBanTable s)(b_ui32NickHash b := Ban # m_NickBanTable s (b_ui32NickHash b))\<rparr>))"

definition Add2IpTable :: "addr \<Rightarrow> BanManager \<Rightarrow> (BanManager \<times> bool) res" where
  "Add2IpTable Ban s =
     rbind (deref (bm_heap s) Ban) (\<lambda>b.
       case m_IpBanTable s (b_ui128IpHash b) of
         None \<Rightarrow> Inr (s\<lparr>m_IpBanTable := (m_IpBanTable s)(b_ui128IpHash b \<mapsto> Ban)\<rparr>, True)
       | Some pFirstBan \<Rightarrow>
           rbind (hwrite pFirstBan (set_ban_prev (Some Ban)) (bm_heap s)) (\<lambda>h1.
           rbind (hwrite Ban (set_ban_next (Some pFirstBan)) h1) (\<lambda>h2.
             Inr (s\<lparr>bm_heap := h2, m_IpBanTable := (m_IpBanTable s)(b_ui128IpHash b \<mapsto> Ban)\<rparr>, True))))"

definition Add2Table :: "addr \<Rightarrow> BanManager \<Rightarrow> (BanManager \<times> bool) res" where
  "Add2Table pBan s =
     rbind (deref (bm_heap s) pBan) (\<lambda>b.
     rbind (if is_set b IP then Add2IpTable pBan s else Inr (s, True)) (\<lambda>(s1, ok).
       if \<not> ok then Inr (s1, False)
       else rbind (if is_set b NICK then Add2NickTable pBan s1 else Inr s1) (\<lambda>s2. Inr (s2, True))))"

definition BanManager_Add :: "addr \<Rightarrow> BanManager \<Rightarrow> (BanManager \<times> bool) res" where
  "BanManager_Add pBan s =
     rbind (Add2Table pBan s) (\<lambda>(s1, ok).
       if \<not> ok then Inr (s1, False)
       else rbind (deref (bm_heap s1) pBan) (\<lambda>b.
         if is_set b PERM then Inr (s1\<lparr>m_PermBanList := m_PermBanList s1 @ [pBan]\<rparr>, True)
         else Inr (s1\<lparr>m_TempBanList := m_TempBanList s1 @ [pBan]\<rparr>, True)))"

text \<open>\<open>Add(pBan.release())\<close>: the object built by the caller gets its address.\<close>

definition add_released :: "BanItem \<Rightarrow> BanManager \<Rightarrow> (BanManager \<times> bool) res" where
  "add_released pBan s =
     BanManager_Add (bm_next s) (s\<lparr>bm_heap := (bm_heap s)(bm_next s \<mapsto> pBan), bm_next := Suc (bm_next s)\<rparr>)"

definition RemFromNickTable :: "addr \<Rightarrow> BanManager \<Rightarrow> BanManager res" where
  "RemFromNickTable Ban s =
     rbind (deref (bm_heap s) Ban) (\<lambda>b.
       Inr (s\<lparr>m_NickBanTable :=
         (m_NickBanTable s)(b_ui32NickHash b := remove1 Ban (m_NickBanTable s (b_ui32NickHash b)))\<rparr>))"

definition RemFromIpTable :: "addr \<Rightarrow> BanManager \<Rightarrow> BanManager res" where
  "RemFromIpTable Ban s =
     rbind (deref (bm_heap s) Ban) (\<lambda>b.
     rbind (case b_pHashIpTablePrev b of
              None \<Rightarrow>
                (case m_IpBanTable s (b_ui128IpHash b) of
                   None \<Rightarrow> Inr s
                 | Some _ \<Rightarrow>
                     (case b_pHashIpTableNext b of
                        None \<Rightarrow> Inr (s\<lparr>m_IpBanTable := (m_IpBanTable s)(b_ui128IpHash b := None)\<rparr>)
                      | Some n \<Rightarrow>
                          rbind (hwrite n (set_ban_prev None) (bm_heap s)) (\<lambda>h1.
                            Inr (s\<lparr>bm_heap := h1, m_IpBanTable := (m_IpBanTable s)(b_ui128IpHash b \<mapsto> n)\<rparr>))))
            | Some p \<Rightarrow>
                (case b_pHashIpTableNext b of
                   None \<Rightarrow>
                     rbind (hwrite p (set_ban_next None) (bm_heap s)) (\<lambda>h1. Inr (s\<lparr>bm_heap := h1\<rparr>))
                 | Some n \<Rightarrow>
                     rbind (hwrite p (set_ban_next (Some n)) (bm_heap s)) (\<lambda>h1.
                     rbind (hwrite n (set_ban_prev (Some p)) h1) (\<lambda>h2. Inr (s\<lparr>bm_heap := h2\<rparr>)))))
       (\<lambda>s1. rbind (hwrite Ban clear_ban_links (bm_heap s1)) (\<lambda>h. Inr (s1\<lparr>bm_heap := h\<rparr>))))"

definition RemFromTable :: "addr \<Rightarrow> BanManager \<Rightarrow> BanManager res" where
  "RemFromTable Ban s =
     rbind (deref (bm_heap s) Ban) (\<lambda>b.
     rbind (if is_set b IP then RemFromIpTable Ban s else Inr s) (\<lambda>s1.
       if is_set b NICK then RemFromNickTable Ban s1 else Inr s1))"

text \<open>Deleting the object behind a pointer.\<close>

definition delete_ban :: "addr \<Rightarrow> BanManager \<Rightarrow> BanManager res" where
  "delete_ban a s =
     (case bm_heap s a of None \<Rightarrow> Inl (DoubleFree a) | Some _ \<Rightarrow> Inr (s\<lparr>bm_heap := (bm_heap s)(a := None)\<rparr>))"

definition BanManager_Rem :: "addr \<Rightarrow> BanManager \<Rightarrow> BanManager res" where
  "BanManager_Rem Ban s =
     rbind (RemFromTable Ban s) (\<lambda>s1.
     rbind (deref (bm_heap s1) Ban) (\<lambda>b.
       if is_set b PERM then
         (if Ban \<in> set (m_PermBanList s1)
          then delete_ban Ban (s1\<lparr>m_PermBanList := remove1 Ban (m_PermBanList s1)\<rparr>) else Inr s1)
       else
         (if Ban \<in> set (m_TempBanList s1)
          then delete_ban Ban (s1\<lparr>m_TempBanList := remove1 Ban (m_TempBanList s1)\<rparr>) else Inr s1)))"

text \<open>The call sites' \<open>Rem(ban); std::unique_ptr<BanItem> guard(ban);\<close>.\<close>

definition guarded_drop :: "addr \<Rightarrow> BanManager \<Rightarrow> BanManager res" where
  "guarded_drop ban s = rbind (BanManager_Rem ban s) (delete_ban ban)"

text \<open>The call sites' \<open>RemFromNickTable(ban); ban->m_ui8Bits &= ~NICK;\<close>.\<close>

definition make_ip_only :: "addr \<Rightarrow> BanManager \<Rightarrow> BanManager res" where
  "make_ip_only ban s =
     rbind (RemFromNickTable ban s) (\<lambda>s1.
     rbind (hwrite ban (clear_bit_of NICK) (bm_heap s1)) (\<lambda>h. Inr (s1\<lparr>bm_heap := h\<rparr>)))"

definition BanManager_Save :: "bool \<Rightarrow> BanManager \<Rightarrow> BanManager \<times> bool" where
  "BanManager_Save bForce s =
     (if \<not> bForce \<and> m_ui32SaveCalled s < 100 then (s\<lparr>m_ui32SaveCalled := m_ui32SaveCalled s + 1\<rparr>, False)
      else (s\<lparr>m_ui32SaveCalled := 0\<rparr>, True))"

section \<open>Lookups\<close>

definition expired :: "int \<Rightarrow> 'a BanItemBase_scheme \<Rightarrow> bool" where
  "expired acc_time b \<longleftrightarrow> is_set b TEMP \<and> acc_time \<ge> m_tTempBanExpire b"

definition matches :: "byte \<Rightarrow> 'a BanItemBase_scheme \<Rightarrow> bool" where
  "matches bits b \<longleftrightarrow> bits = 0 \<or> is_set b bits"

fun find_ip_loop :: "nat \<Rightarrow> int \<Rightarrow> byte \<Rightarrow> addr option \<Rightarrow> addr option \<Rightarrow> BanManager
    \<Rightarrow> (BanManager \<times> addr option) res" where
  "find_ip_loop 0 acc_time bits ban fnd s = Inl LoopFuel"
| "find_ip_loop (Suc n) acc_time bits ban fnd s =
     (case ban of
        None \<Rightarrow> Inr (s, fnd)
      | Some a \<Rightarrow>
          rbind (deref (bm_heap s) a) (\<lambda>b.
            if expired acc_time b then
              rbind (guarded_drop a s) (\<lambda>s'. find_ip_loop n acc_time bits (b_pHashIpTableNext b) fnd s')
            else if matches bits b then Inr (s, Some a)
            else find_ip_loop n acc_time bits (b_pHashIpTableNext b)
                   (case fnd of None \<Rightarrow> Some a | Some f \<Rightarrow> Some f) s))"

definition FindIpBanGeneric :: "byte list \<Rightarrow> int \<Rightarrow> byte \<Rightarrow> BanManager \<Rightarrow> (BanManager \<times> addr option) res" where
  "FindIpBanGeneric ui128IpHash acc_time ui8MatchBits s =
     (case m_IpBanTable s ui128IpHash of
        None \<Rightarrow> Inr (s, None)
      | Some f \<Rightarrow> find_ip_loop (Suc (bm_next s)) acc_time ui8MatchBits (Some f) None s)"

fun find_nick_loop :: "addr list \<Rightarrow> int \<Rightarrow> string \<Rightarrow> byte \<Rightarrow> BanManager \<Rightarrow> (BanManager \<times> addr option) res" where
  "find_nick_loop [] acc_time sNick bits s = Inr (s, None)"
| "find_nick_loop (a # rest) acc_time sNick bits s =
     rbind (deref (bm_heap s) a) (\<lambda>cur.
       if \<not> iequals (b_sNick cur) sNick then find_nick_loop rest acc_time sNick bits s
       else if expired acc_time cur then
         rbind (guarded_drop a s) (\<lambda>s'. find_nick_loop rest acc_time sNick bits s')
       else if matches bits cur then Inr (s, Some a)
       else find_nick_loop rest acc_time sNick bits s)"

definition FindNickBanGeneric :: "u32 \<Rightarrow> int \<Rightarrow> string \<Rightarrow> byte \<Rightarrow> BanManager \<Rightarrow> (BanManager \<times> addr option) res" where
  "FindNickBanGeneric ui32Hash acc_time sNick bits s =
     find_nick_loop (m_NickBanTable s ui32Hash) acc_time sNick bits s"

definition FindNick_user :: "User \<Rightarrow> int \<Rightarrow> BanManager \<Rightarrow> (BanManager \<times> addr option) res" where
  "FindNick_user pUser now s = FindNickBanGeneric (m_ui32NickHash pUser) now (m_sNick pUser) 0 s"

definition FindIP_user :: "User \<Rightarrow> int \<Rightarrow> BanManager \<Rightarrow> (BanManager \<times> addr option) res" where
  "FindIP_user pUser now s = FindIpBanGeneric (m_ui128IpHash pUser) now 0 s"

definition FindFull :: "byte list \<Rightarrow> int \<Rightarrow> BanManager \<Rightarrow> (BanManager \<times> addr option) res" where
  "FindFull h acc_time s = FindIpBanGeneric h acc_time FULL s"

definition FindIP :: "byte list \<Rightarrow> int \<Rightarrow> BanManager \<Rightarrow> (BanManager \<times> addr option) res" where
  "FindIP h acc_time s = FindIpBanGeneric h acc_time 0 s"

definition FindTempIP :: "byte list \<Rightarrow> int \<Rightarrow> BanManager \<Rightarrow> (BanManager \<times> addr option) res" where
  "FindTempIP h acc_time s = FindIpBanGeneric h acc_time TEMP s"

definition FindPermIP :: "byte list \<Rightarrow> BanManager \<Rightarrow> (BanManager \<times> addr option) res" where
  "FindPermIP h s = FindIpBanGeneric h 0 PERM s"

definition FindNick_hash :: "u32 \<Rightarrow> int \<Rightarrow> string \<Rightarrow> BanManager \<Rightarrow> (BanManager \<times> addr option) res" where
  "FindNick_hash h acc_time sNick s = FindNickBanGeneric h acc_time sNick 0 s"

definition FindTempNick_hash :: "u32 \<Rightarrow> int \<Rightarrow> string \<Rightarrow> BanManager \<Rightarrow> (BanManager \<times> addr option) res" where
  "FindTempNick_hash h acc_time sNick s = FindNickBanGeneric h acc_time sNick TEMP s"

definition FindPermNick_hash :: "u32 \<Rightarrow> string \<Rightarrow> BanManager \<Rightarrow> (BanManager \<times> addr option) res" where
  "FindPermNick_hash h sNick s = FindNickBanGeneric h 0 sNick PERM s"

definition FindNick :: "string \<Rightarrow> int \<Rightarrow> BanManager \<Rightarrow> (BanManager \<times> addr option) res" where
  "FindNick sNick now s = FindNick_hash (HashNick sNick) now sNick s"

definition FindTempNick :: "string \<Rightarrow> int \<Rightarrow> BanManager \<Rightarrow> (BanManager \<times> addr option) res" where
  "FindTempNick sNick now s = FindTempNick_hash (HashNick sNick) now sNick s"

definition FindPermNick :: "string \<Rightarrow> BanManager \<Rightarrow> (BanManager \<times> addr option) res" where
  "FindPermNick sNick s = FindPermNick_hash (HashNick sNick) sNick s"

text \<open>Lookup and removal by pointer, for the graphical interface.\<close>

fun gui_find_loop :: "addr list \<Rightarrow> int \<Rightarrow> addr \<Rightarrow> BanManager \<Rightarrow> (BanManager \<times> bool) res" where
  "gui_find_loop [] acc_time Ban s = Inr (s, False)"
| "gui_find_loop (cur # rest) acc_time Ban s =
     rbind (deref (bm_heap s) cur) (\<lambda>b.
       if acc_time > m_tTempBanExpire b then rbind (guarded_drop cur s) (\<lambda>s'. gui_find_loop rest acc_time Ban s')
       else if cur = Ban then Inr (s, True)
       else gui_find_loop rest acc_time Ban s)"

definition BanManager_Find :: "addr \<Rightarrow> int \<Rightarrow> BanManager \<Rightarrow> (BanManager \<times> addr option) res" where
  "BanManager_Find Ban now s =
     rbind (gui_find_loop (m_TempBanList s) now Ban s) (\<lambda>(s1, found).
       if found then Inr (s1, Some Ban)
       else if Ban \<in> set (m_PermBanList s1) then Inr (s1, Some Ban)
       else Inr (s1, None))"

definition BanManager_Remove :: "addr \<Rightarrow> int \<Rightarrow> BanManager \<Rightarrow> BanManager res" where
  "BanManager_Remove Ban now s =
     rbind (gui_find_loop (m_TempBanList s) now Ban s) (\<lambda>(s1, found).
       if found then guarded_drop Ban s1
       else if Ban \<in> set (m_PermBanList s1) then guarded_drop Ban s1
       else Inr s1)"

section \<open>Walking a chain while removing\<close>

text \<open>
  The loops \<open>while (nxtBan) { curBan = nxtBan; nxtBan = curBan->m_pHashIpTableNext; ... }\<close> differ in
  what the body decides for \<open>curBan\<close>: go on, remove it and go on, or return.
\<close>

datatype walk_action = Continue | Remove | Return

fun walk_ip :: "nat \<Rightarrow> (BanItem \<Rightarrow> walk_action) \<Rightarrow> addr option \<Rightarrow> BanManager \<Rightarrow> (BanManager \<times> addr option) res" where
  "walk_ip 0 body nxtBan s = Inl LoopFuel"
| "walk_ip (Suc n) body nxtBan s =
     (case nxtBan of
        None \<Rightarrow> Inr (s, None)
      | Some curBan \<Rightarrow>
          rbind (deref (bm_heap s) curBan) (\<lambda>b.
            case body b of
              Continue \<Rightarrow> walk_ip n body (b_pHashIpTableNext b) s
            | Remove \<Rightarrow> rbind (guarded_drop curBan s) (\<lambda>s'. walk_ip n body (b_pHashIpTableNext b) s')
            | Return \<Rightarrow> Inr (s, Some curBan)))"

definition remove_walk :: "(BanItem \<Rightarrow> bool) \<Rightarrow> byte list \<Rightarrow> BanManager \<Rightarrow> BanManager res" where
  "remove_walk P h s =
     (case m_IpBanTable s h of
        None \<Rightarrow> Inr s
      | Some f \<Rightarrow>
          rbind (walk_ip (Suc (bm_next s)) (\<lambda>b. if P b then Remove else Continue) (Some f) s) (\<lambda>(s', _). Inr s'))"

definition RemoveAllIP :: "byte list \<Rightarrow> BanManager \<Rightarrow> BanManager res" where
  "RemoveAllIP = remove_walk (\<lambda>_. True)"

definition RemovePermAllIP :: "byte list \<Rightarrow> BanManager \<Rightarrow> BanManager res" where
  "RemovePermAllIP = remove_walk (\<lambda>b. is_set b PERM)"

definition RemoveTempAllIP :: "byte list \<Rightarrow> BanManager \<Rightarrow> BanManager res" where
  "RemoveTempAllIP = remove_walk (\<lambda>b. is_set b TEMP)"

fun clear_loop :: "nat \<Rightarrow> (BanManager \<Rightarrow> addr list) \<Rightarrow> BanManager \<Rightarrow> BanManager res" where
  "clear_loop 0 lst s = Inl LoopFuel"
| "clear_loop (Suc n) lst s =
     (case lst s of [] \<Rightarrow> Inr s | curBan # _ \<Rightarrow> rbind (guarded_drop curBan s) (clear_loop n lst))"

definition ClearTemp :: "BanManager \<Rightarrow> BanManager res" where
  "ClearTemp s = rbind (clear_loop (Suc (length (m_TempBanList s))) m_TempBanList s)
                   (\<lambda>s1. Inr (fst (BanManager_Save False s1)))"

definition ClearPerm :: "BanManager \<Rightarrow> BanManager res" where
  "ClearPerm s = rbind (clear_loop (Suc (length (m_PermBanList s))) m_PermBanList s)
                   (\<lambda>s1. Inr (fst (BanManager_Save False s1)))"

end
