(* ===== verification/BanTables.thy ===== *)
theory BanTables
  imports BanManager
begin

text \<open>
  The invariant of the ban manager and what the table operations do to it.  \<open>ban_rel s ch\<close> says that the
  heap, the two tables and the two owning lists agree, \<open>ch\<close> being the chain of bans of every address.
\<close>

section \<open>The invariant\<close>

definition ip_chains :: "(addr \<Rightarrow> BanItem option) \<Rightarrow> (byte list \<Rightarrow> addr option) \<Rightarrow> (byte list \<Rightarrow> addr list) \<Rightarrow> bool" where
  "ip_chains h t ch \<longleftrightarrow>
     (\<forall>k. distinct (ch k) \<and> ban_chain h (t k) (ch k))
     \<and> (\<forall>k a. a \<in> set (ch k) \<longleftrightarrow> (\<exists>b. h a = Some b \<and> is_set b IP \<and> b_ui128IpHash b = k))"

definition nick_lists :: "(addr \<Rightarrow> BanItem option) \<Rightarrow> (u32 \<Rightarrow> addr list) \<Rightarrow> bool" where
  "nick_lists h nt \<longleftrightarrow>
     (\<forall>k. distinct (nt k))
     \<and> (\<forall>k a. a \<in> set (nt k) \<longleftrightarrow> (\<exists>b. h a = Some b \<and> is_set b NICK \<and> b_ui32NickHash b = k))
     \<and> (\<forall>a b. h a = Some b \<longrightarrow> is_set b NICK \<longrightarrow> b_ui32NickHash b = HashNick (b_sNick b))"

definition own_lists :: "(addr \<Rightarrow> BanItem option) \<Rightarrow> addr list \<Rightarrow> addr list \<Rightarrow> bool" where
  "own_lists h tb pb \<longleftrightarrow>
     distinct tb \<and> distinct pb
     \<and> (\<forall>a. a \<in> set tb \<longleftrightarrow> (\<exists>b. h a = Some b \<and> is_set b TEMP))
     \<and> (\<forall>a. a \<in> set pb \<longleftrightarrow> (\<exists>b. h a = Some b \<and> is_set b PERM))
     \<and> (\<forall>a b. h a = Some b \<longrightarrow> (is_set b PERM \<longleftrightarrow> \<not> is_set b TEMP))"

definition ban_rel :: "BanManager \<Rightarrow> (byte list \<Rightarrow> addr list) \<Rightarrow> bool" where
  "ban_rel s ch \<longleftrightarrow>
     ip_chains (bm_heap s) (m_IpBanTable s) ch
     \<and> nick_lists (bm_heap s) (m_NickBanTable s)
     \<and> own_lists (bm_heap s) (m_TempBanList s) (m_PermBanList s)
     \<and> (\<forall>a. bm_heap s a \<noteq> None \<longrightarrow> a < bm_next s)"

definition ban_inv :: "BanManager \<Rightarrow> bool" where
  "ban_inv s \<longleftrightarrow> (\<exists>ch. ban_rel s ch)"

lemma ban_invI: "ban_rel s ch \<Longrightarrow> ban_inv s"
  by (auto simp: ban_inv_def)

lemma ip_chainsD:
  assumes "ip_chains h t ch"
  shows "distinct (ch k)" and "ban_chain h (t k) (ch k)"
    and "a \<in> set (ch k) \<longleftrightarrow> (\<exists>b. h a = Some b \<and> is_set b IP \<and> b_ui128IpHash b = k)"
  using assms unfolding ip_chains_def by blast+

lemma ip_chains_head: "ip_chains h t ch \<Longrightarrow> t k = (if ch k = [] then None else Some (hd (ch k)))"
  by (rule dchain_head [OF ip_chainsD(2)])

text \<open>Two heaps that differ in the link fields only.\<close>

definition links_only :: "(addr \<Rightarrow> BanItem option) \<Rightarrow> (addr \<Rightarrow> BanItem option) \<Rightarrow> bool" where
  "links_only h h' \<longleftrightarrow> (\<forall>a. map_option clear_ban_links (h a) = map_option clear_ban_links (h' a))"

lemma links_only_refl [simp]: "links_only h h"
  by (simp add: links_only_def)

lemma links_only_sym: "links_only h h' \<Longrightarrow> links_only h' h"
  by (simp add: links_only_def)

lemma links_only_hmod:
  "links_only h h' \<Longrightarrow> (\<And>b. clear_ban_links (f b) = clear_ban_links b) \<Longrightarrow> links_only (hmod a f h) h'"
  by (auto simp: links_only_def hmod_def option.map_comp comp_def)

lemma clear_ban_links_eqD:
  assumes "clear_ban_links b = clear_ban_links c"
  shows "m_ui8Bits b = m_ui8Bits c" and "b_sNick b = b_sNick c" and "b_ui32NickHash b = b_ui32NickHash c"
    and "b_ui128IpHash b = b_ui128IpHash c" and "m_tTempBanExpire b = m_tTempBanExpire c"
    and "m_sReason b = m_sReason c" and "m_sBy b = m_sBy c" and "b_sIp b = b_sIp c"
  using arg_cong [OF assms, of m_ui8Bits] arg_cong [OF assms, of b_sNick]
    arg_cong [OF assms, of b_ui32NickHash] arg_cong [OF assms, of b_ui128IpHash]
    arg_cong [OF assms, of m_tTempBanExpire] arg_cong [OF assms, of m_sReason]
    arg_cong [OF assms, of m_sBy] arg_cong [OF assms, of b_sIp]
  by simp_all

lemma links_only_live:
  assumes "links_only h h'" and "h a = Some b"
  obtains b' where "h' a = Some b'" and "clear_ban_links b' = clear_ban_links b"
proof -
  from assms have "map_option clear_ban_links (h' a) = Some (clear_ban_links b)"
    unfolding links_only_def by (metis option.simps(9))
  then show thesis using that by (cases "h' a") simp_all
qed

lemma links_only_ex:
  assumes "links_only h h'" and "\<And>b c. clear_ban_links b = clear_ban_links c \<Longrightarrow> P b = P c"
  shows "(\<exists>b. h a = Some b \<and> P b) \<longleftrightarrow> (\<exists>b. h' a = Some b \<and> P b)"
proof (cases "h a")
  case None
  with assms(1) have "map_option clear_ban_links (h' a) = None" unfolding links_only_def by (metis option.simps(8))
  then have "h' a = None" by simp
  with None show ?thesis by simp
next
  case (Some b)
  from links_only_live [OF assms(1) Some] obtain c where c: "h' a = Some c" "clear_ban_links c = clear_ban_links b" .
  from assms(2) [OF c(2)] have "P c = P b" .
  with Some c(1) show ?thesis by simp
qed

lemma nick_lists_links:
  assumes lo: "links_only h' h" and "nick_lists h nt"
  shows "nick_lists h' nt"
proof -
  have "(\<exists>b. h' a = Some b \<and> is_set b NICK \<and> b_ui32NickHash b = k) \<longleftrightarrow>
      (\<exists>b. h a = Some b \<and> is_set b NICK \<and> b_ui32NickHash b = k)" for a k
    by (rule links_only_ex [OF lo], frule clear_ban_links_eqD(1), drule clear_ban_links_eqD(3), simp only:)
  moreover have "b_ui32NickHash b = HashNick (b_sNick b)" if "h' a = Some b" "is_set b NICK" for a b
  proof -
    from links_only_live [OF lo that(1)] obtain c where c: "h a = Some c" "clear_ban_links c = clear_ban_links b" .
    from c(1) that(2) assms(2) show ?thesis
      unfolding nick_lists_def clear_ban_links_eqD [OF c(2), symmetric] by blast
  qed
  ultimately show ?thesis using assms(2) unfolding nick_lists_def by simp
qed

lemma own_lists_links:
  assumes lo: "links_only h' h" and "own_lists h tb pb"
  shows "own_lists h' tb pb"
proof -
  have "(\<exists>b. h' a = Some b \<and> is_set b m) \<longleftrightarrow> (\<exists>b. h a = Some b \<and> is_set b m)" for a m
    by (rule links_only_ex [OF lo], drule clear_ban_links_eqD(1), simp only:)
  moreover have "is_set b PERM \<longleftrightarrow> \<not> is_set b TEMP" if "h' a = Some b" for a b
  proof -
    from links_only_live [OF lo that(1)] obtain c where c: "h a = Some c" "clear_ban_links c = clear_ban_links b" .
    from c(1) assms(2) show ?thesis
      unfolding own_lists_def clear_ban_links_eqD [OF c(2), symmetric] by blast
  qed
  ultimately show ?thesis using assms(2) unfolding own_lists_def by simp
qed

text \<open>Replacing one chain.\<close>

lemma ip_chains_upd:
  assumes ok: "ip_chains h t ch"
    and new: "distinct cs" "ban_chain h' x cs"
    and out: "\<And>c. c \<notin> insert anew (set (ch k)) \<Longrightarrow> h' c = h c"
    and fresh: "\<And>k'. k' \<noteq> k \<Longrightarrow> anew \<notin> set (ch k')"
    and mem: "\<And>c k'. c \<in> set ((ch(k := cs)) k') \<longleftrightarrow> (\<exists>b. h' c = Some b \<and> is_set b IP \<and> b_ui128IpHash b = k')"
  shows "ip_chains h' (t(k := x)) (ch(k := cs))"
proof -
  have "ban_chain h' (t k') (ch k')" if "k' \<noteq> k" for k'
  proof -
    have "ban_chain h' (t k') (ch k') = ban_chain h (t k') (ch k')"
    proof (rule dchain_cong)
      fix c assume c: "c \<in> set (ch k')"
      then have "c \<notin> set (ch k)" using ip_chainsD(3) [OF ok] that by (metis option.inject)
      moreover have "c \<noteq> anew" using fresh [OF that] c by auto
      ultimately show "h' c = h c" by (intro out) simp
    qed
    then show ?thesis using ip_chainsD(2) [OF ok] by simp
  qed
  moreover have "distinct (ch k')" for k' by (rule ip_chainsD(1) [OF ok])
  ultimately have "\<forall>k'. distinct ((ch(k := cs)) k') \<and> ban_chain h' ((t(k := x)) k') ((ch(k := cs)) k')"
    using new by (auto simp: fun_upd_def)
  with mem show ?thesis unfolding ip_chains_def by blast
qed

section \<open>The table operations\<close>

lemma links_only_ip:
  assumes "links_only h' h"
  shows "(\<exists>b. h' a = Some b \<and> is_set b IP \<and> b_ui128IpHash b = k) \<longleftrightarrow>
    (\<exists>b. h a = Some b \<and> is_set b IP \<and> b_ui128IpHash b = k)"
  by (rule links_only_ex [OF assms], frule clear_ban_links_eqD(1), drule clear_ban_links_eqD(4), simp only:)

lemma Add2IpTable_run:
  assumes ok: "ip_chains h t ch" and fresh: "h a = None"
    and b: "b_pHashIpTablePrev b = None" "b_pHashIpTableNext b = None" "is_set b IP" "b_ui128IpHash b = k"
    and s: "bm_heap s = h(a \<mapsto> b)" "m_IpBanTable s = t"
  shows "\<exists>h'. Add2IpTable a s = Inr (s\<lparr>bm_heap := h', m_IpBanTable := t(k \<mapsto> a)\<rparr>, True)
    \<and> links_only h' (h(a \<mapsto> b)) \<and> ip_chains h' (t(k \<mapsto> a)) (ch(k := a # ch k))"
proof -
  let ?h = "h(a \<mapsto> b)"
  have nin: "a \<notin> set (ch k')" for k' using ip_chainsD(3) [OF ok, of a k'] fresh by simp
  have mem: "c \<in> set ((ch(k := a # ch k)) k') \<longleftrightarrow> (\<exists>b. h' c = Some b \<and> is_set b IP \<and> b_ui128IpHash b = k')"
    if "links_only h' ?h" for h' c k'
    unfolding links_only_ip [OF that] using ip_chainsD(3) [OF ok, of c k'] nin [of k'] b by auto
  have d: "distinct (a # ch k)" using ip_chainsD(1) [OF ok, of k] nin [of k] by simp
  show ?thesis
  proof (cases "ch k")
    case Nil
    then have t: "t k = None" using ip_chains_head [OF ok, of k] by simp
    have "Add2IpTable a s = Inr (s\<lparr>bm_heap := ?h, m_IpBanTable := t(k \<mapsto> a)\<rparr>, True)"
      using t b s by (simp add: Add2IpTable_def ub_simps)
    moreover have "ip_chains ?h (t(k \<mapsto> a)) (ch(k := a # ch k))"
    proof (rule ip_chains_upd [OF ok d, where anew = a])
      show "ban_chain ?h (Some a) (a # ch k)" using b Nil by (simp add: dchain_def)
    qed (use nin mem [of ?h] in auto)
    ultimately show ?thesis by (intro exI [of _ ?h]) simp
  next
    case (Cons f as)
    then have t: "t k = Some f" using ip_chains_head [OF ok, of k] by simp
    let ?h' = "hmod a (set_ban_next (Some f)) (hmod f (set_ban_prev (Some a)) ?h)"
    have ch: "ban_chain h (Some f) (f # as)" using ip_chainsD(2) [OF ok, of k] t Cons by simp
    then obtain bf where bf: "h f = Some bf" using dchain_live by fastforce
    have af: "f \<noteq> a" using nin [of k] Cons by auto
    have run: "Add2IpTable a s = Inr (s\<lparr>bm_heap := ?h', m_IpBanTable := t(k \<mapsto> a)\<rparr>, True)"
      using t b s bf af by (simp add: Add2IpTable_def ub_simps)
    have lo: "links_only ?h' ?h" by (intro links_only_hmod) simp_all
    have "a \<notin> set (f # as)" using nin [of k] Cons by simp
    with ch have "ban_chain ?h (Some f) (f # as)" by (simp only: dchain_upd_other not_False_eq_True)
    then have "ban_chain ?h' (Some a) (a # f # as)"
      using d Cons b by (intro ban_node.chain_push [where n = b]) auto
    then have "ip_chains ?h' (t(k \<mapsto> a)) (ch(k := a # ch k))"
      using Cons d nin af by (intro ip_chains_upd [OF ok d, where anew = a] mem [OF lo]) auto
    with run lo show ?thesis by blast
  qed
qed

text \<open>Unlinking a ban from its chain; the statement is about the heap once the object is gone.\<close>

lemma RemFromIpTable_run:
  assumes ok: "ip_chains (bm_heap s) (m_IpBanTable s) ch"
    and b: "bm_heap s a = Some b" "is_set b IP" "b_ui128IpHash b = k"
  shows "\<exists>h t. RemFromIpTable a s = Inr (s\<lparr>bm_heap := h, m_IpBanTable := t\<rparr>)
    \<and> links_only h (bm_heap s) \<and> h a = Some (clear_ban_links b)
    \<and> ip_chains (h(a := None)) t (ch(k := remove1 a (ch k)))"
proof -
  let ?h = "bm_heap s" and ?t = "m_IpBanTable s" and ?as = "remove1 a (ch k)"
  let ?clr = "hmod a clear_ban_links"
  have a: "a \<in> set (ch k)" using ip_chainsD(3) [OF ok, of a k] b by blast
  note d = ip_chainsD(1) [OF ok, of k] and bc = ip_chainsD(2) [OF ok, of k]
  have na: "a \<notin> set ?as" using d by simp
  have ex: "\<exists>f. ?t k = Some f" using ip_chains_head [OF ok, of k] a by auto
  have live: "\<exists>w. ?h c = Some w" if "c \<in> set (ch k)" for c using dchain_live [OF bc that] .
  have upd: "ip_chains ((?clr h)(a := None)) (?t(k := x)) (ch(k := ?as))"
    if "links_only h ?h" "ban_chain h x ?as" "\<And>c. c \<notin> set (ch k) \<Longrightarrow> h c = ?h c" for h x
  proof (rule ip_chains_upd [OF ok, where anew = a])
    show "distinct ?as" using d by simp
    have "ban_chain (?clr h) x ?as" using that(2) na by simp
    then show "ban_chain ((?clr h)(a := None)) x ?as" using na by simp
    show "((?clr h)(a := None)) c = ?h c" if "c \<notin> insert a (set (ch k))" for c
      using that \<open>\<And>c. c \<notin> set (ch k) \<Longrightarrow> h c = ?h c\<close> by simp
    show "a \<notin> set (ch k')" if "k' \<noteq> k" for k'
      using that ip_chainsD(3) [OF ok, of a k'] b by auto
    have m: "c \<in> set ((ch(k := ?as)) k') \<longleftrightarrow> c \<noteq> a \<and> c \<in> set (ch k')" for c k'
      using d b ip_chainsD(3) [OF ok, of a k'] by (cases "k' = k") (auto simp: set_remove1_eq)
    show "c \<in> set ((ch(k := ?as)) k') \<longleftrightarrow>
        (\<exists>b. ((?clr h)(a := None)) c = Some b \<and> is_set b IP \<and> b_ui128IpHash b = k')" for c k'
      unfolding m using ip_chainsD(3) [OF ok, of c k'] links_only_ip [OF that(1), of c k'] by (cases "c = a") simp_all
  qed
  have lo: "links_only (?clr h) ?h" if "links_only h ?h" for h using that by (intro links_only_hmod) simp_all
  note run = RemFromIpTable_def ub_simps
  from bc d a b(1) show ?thesis
  proof (cases rule: ban_node.chain_unlink_cases)
    case single
    have "RemFromIpTable a s = Inr (s\<lparr>bm_heap := ?clr ?h, m_IpBanTable := ?t(k := None)\<rparr>)"
      using single b ex by (auto simp: run)
    moreover have "ip_chains ((?clr ?h)(a := None)) (?t(k := None)) (ch(k := ?as))"
      using single by (intro upd) simp_all
    moreover have "?clr ?h a = Some (clear_ban_links b)" using b by simp
    ultimately show ?thesis using lo [OF links_only_refl] by blast
  next
    case (head n)
    let ?h1 = "hmod n (set_ban_prev None) ?h"
    have l1: "links_only ?h1 ?h" by (intro links_only_hmod) simp_all
    have "RemFromIpTable a s = Inr (s\<lparr>bm_heap := ?clr ?h1, m_IpBanTable := ?t(k := Some n)\<rparr>)"
      using head b ex live [of n] by (auto simp: run)
    moreover have "ip_chains ((?clr ?h1)(a := None)) (?t(k := Some n)) (ch(k := ?as))"
      using head by (intro upd l1) (auto simp: hmod_def)
    moreover have "?clr ?h1 a = Some (clear_ban_links b)" using head b by simp
    ultimately show ?thesis using lo [OF l1] by blast
  next
    case (last p)
    let ?h1 = "hmod p (set_ban_next None) ?h"
    have l1: "links_only ?h1 ?h" by (intro links_only_hmod) simp_all
    have "RemFromIpTable a s = Inr (s\<lparr>bm_heap := ?clr ?h1, m_IpBanTable := ?t(k := ?t k)\<rparr>)"
      using last b live [of p] by (auto simp: run)
    moreover have "ip_chains ((?clr ?h1)(a := None)) (?t(k := ?t k)) (ch(k := ?as))"
      using last by (intro upd l1) (auto simp: hmod_def)
    moreover have "?clr ?h1 a = Some (clear_ban_links b)" using last b by simp
    ultimately show ?thesis using lo [OF l1] by blast
  next
    case (mid p n)
    let ?h1 = "hmod n (set_ban_prev (Some p)) (hmod p (set_ban_next (Some n)) ?h)"
    have l1: "links_only ?h1 ?h" by (intro links_only_hmod) simp_all
    have "RemFromIpTable a s = Inr (s\<lparr>bm_heap := ?clr ?h1, m_IpBanTable := ?t(k := ?t k)\<rparr>)"
      using mid b live [of p] live [of n] by (auto simp: run)
    moreover have "ip_chains ((?clr ?h1)(a := None)) (?t(k := ?t k)) (ch(k := ?as))"
      using mid by (intro upd l1) (auto simp: hmod_def)
    moreover have "?clr ?h1 a = Some (clear_ban_links b)" using mid b by simp
    ultimately show ?thesis using lo [OF l1] by blast
  qed
qed

section \<open>Removing a ban\<close>

lemma ip_chains_delete:
  assumes ok: "ip_chains h t ch" and a: "\<And>k. a \<notin> set (ch k)"
  shows "ip_chains (h(a := None)) t ch"
  unfolding ip_chains_def
proof (intro conjI allI)
  fix k c
  show "distinct (ch k)" by (rule ip_chainsD(1) [OF ok])
  show "ban_chain (h(a := None)) (t k) (ch k)" using ip_chainsD(2) [OF ok, of k] a [of k] by simp
  show "c \<in> set (ch k) \<longleftrightarrow> (\<exists>b. (h(a := None)) c = Some b \<and> is_set b IP \<and> b_ui128IpHash b = k)"
    using ip_chainsD(3) [OF ok, of c k] a [of k] by (cases "c = a") auto
qed

lemma nick_lists_delete:
  assumes "nick_lists h nt"
  shows "nick_lists (h(a := None)) (\<lambda>k. remove1 a (nt k))"
proof -
  have "distinct (nt k)" for k using assms unfolding nick_lists_def by blast
  then have "set (remove1 a (nt k)) = set (nt k) - {a}" "distinct (remove1 a (nt k))" for k
    by (simp_all add: set_remove1_eq)
  with assms show ?thesis unfolding nick_lists_def by auto
qed

lemma nick_bucket:
  assumes "nick_lists h nt" and "h a = Some b" and "is_set b NICK"
  shows "nt(b_ui32NickHash b := remove1 a (nt (b_ui32NickHash b))) = (\<lambda>k. remove1 a (nt k))"
proof
  fix k
  have "k = b_ui32NickHash b \<or> a \<notin> set (nt k)" using assms unfolding nick_lists_def by auto
  then show "(nt(b_ui32NickHash b := remove1 a (nt (b_ui32NickHash b)))) k = remove1 a (nt k)"
    by (auto simp: remove1_idem)
qed

lemma nick_absent:
  assumes "nick_lists h nt" and "h a = Some b" and "\<not> is_set b NICK"
  shows "(\<lambda>k. remove1 a (nt k)) = nt"
proof
  fix k
  have "a \<notin> set (nt k)" using assms unfolding nick_lists_def by auto
  then show "remove1 a (nt k) = nt k" by (simp add: remove1_idem)
qed

lemma own_lists_delete:
  assumes "own_lists h tb pb"
  shows "own_lists (h(a := None)) (remove1 a tb) (remove1 a pb)"
  using assms unfolding own_lists_def by (auto simp: set_remove1_eq)

lemma ch_remove:
  assumes "ip_chains h t ch" and "h a = Some b"
  shows "(\<lambda>k. remove1 a (ch k)) = (if is_set b IP then ch(b_ui128IpHash b := remove1 a (ch (b_ui128IpHash b))) else ch)"
proof
  fix k
  have "a \<in> set (ch k) \<longleftrightarrow> is_set b IP \<and> b_ui128IpHash b = k" using ip_chainsD(3) [OF assms(1), of a k] assms(2) by simp
  then show "remove1 a (ch k) = (if is_set b IP then ch(b_ui128IpHash b := remove1 a (ch (b_ui128IpHash b))) else ch) k"
    by (auto simp: remove1_idem)
qed

lemma RemFromTable_run:
  assumes rel: "ban_rel s ch" and b: "bm_heap s a = Some b"
  shows "\<exists>h t b'. RemFromTable a s = Inr (s\<lparr>bm_heap := h, m_IpBanTable := t,
        m_NickBanTable := (\<lambda>k. remove1 a (m_NickBanTable s k))\<rparr>)
    \<and> links_only h (bm_heap s) \<and> h a = Some b' \<and> clear_ban_links b' = clear_ban_links b
    \<and> ip_chains (h(a := None)) t (\<lambda>k. remove1 a (ch k))"
proof -
  have ip: "ip_chains (bm_heap s) (m_IpBanTable s) ch" and nl: "nick_lists (bm_heap s) (m_NickBanTable s)"
    using rel by (simp_all add: ban_rel_def)
  obtain h :: "addr \<Rightarrow> BanItem option" and t b' where 1: "(if is_set b IP then RemFromIpTable a s else Inr s) = Inr (s\<lparr>bm_heap := h, m_IpBanTable := t\<rparr>)"
    and lo: "links_only h (bm_heap s)" and h: "h a = Some b'" "clear_ban_links b' = clear_ban_links b"
    and ip': "ip_chains (h(a := None)) t (\<lambda>k. remove1 a (ch k))"
  proof (cases "is_set b IP")
    case True
    from RemFromIpTable_run [OF ip b True refl] obtain h t where
      r: "RemFromIpTable a s = Inr (s\<lparr>bm_heap := h, m_IpBanTable := t\<rparr>)"
      "links_only h (bm_heap s)" "h a = Some (clear_ban_links b)"
      "ip_chains (h(a := None)) t (ch(b_ui128IpHash b := remove1 a (ch (b_ui128IpHash b))))" by blast
    show thesis
    proof (rule that)
      show "(if is_set b IP then RemFromIpTable a s else Inr s) = Inr (s\<lparr>bm_heap := h, m_IpBanTable := t\<rparr>)"
        using r(1) True by simp
      show "h a = Some (clear_ban_links b)" by (rule r(3))
    qed (use r True ch_remove [OF ip b] in simp_all)
  next
    case False
    have "a \<notin> set (ch k)" for k using ip_chainsD(3) [OF ip, of a k] b False by simp
    note d = ip_chains_delete [OF ip this]
    show thesis
    proof (rule that)
      show "(if is_set b IP then RemFromIpTable a s else Inr s) =
          Inr (s\<lparr>bm_heap := bm_heap s, m_IpBanTable := m_IpBanTable s\<rparr>)" using False by simp
      show "bm_heap s a = Some b" by (rule b)
    qed (use d b False ch_remove [OF ip b] in simp_all)
  qed
  have hash: "b_ui32NickHash b' = b_ui32NickHash b" by (rule clear_ban_links_eqD(3) [OF h(2)])
  show ?thesis
  proof (cases "is_set b NICK")
    case True
    have "RemFromTable a s = Inr (s\<lparr>bm_heap := h, m_IpBanTable := t,
        m_NickBanTable := (\<lambda>k. remove1 a (m_NickBanTable s k))\<rparr>)"
      using nick_bucket [OF nl b True] 1 b h(1) hash True
      by (simp add: RemFromTable_def RemFromNickTable_def deref_def)
    with lo h ip' show ?thesis by blast
  next
    case False
    have "RemFromTable a s = Inr (s\<lparr>bm_heap := h, m_IpBanTable := t,
        m_NickBanTable := (\<lambda>k. remove1 a (m_NickBanTable s k))\<rparr>)"
      using nick_absent [OF nl b False] 1 b False by (simp add: RemFromTable_def deref_def)
    with lo h ip' show ?thesis by blast
  qed
qed

lemma own_lists_cases:
  assumes "own_lists h tb pb" and "h a = Some b"
  shows "is_set b PERM \<Longrightarrow> a \<in> set pb \<and> a \<notin> set tb" and "\<not> is_set b PERM \<Longrightarrow> a \<in> set tb \<and> a \<notin> set pb"
  using assms unfolding own_lists_def by auto

lemma links_only_delete: "links_only h h' \<Longrightarrow> links_only (h(a := None)) (h'(a := None))"
  by (simp add: links_only_def)

lemma links_only_dom: "links_only h h' \<Longrightarrow> h a = None \<longleftrightarrow> h' a = None"
  unfolding links_only_def by (metis map_option_is_None)

lemma BanManager_Rem_run:
  assumes rel: "ban_rel s ch" and b: "bm_heap s a = Some b"
  shows "\<exists>s'. BanManager_Rem a s = Inr s' \<and> ban_rel s' (\<lambda>k. remove1 a (ch k))
    \<and> links_only (bm_heap s') ((bm_heap s)(a := None))
    \<and> m_TempBanList s' = remove1 a (m_TempBanList s) \<and> m_PermBanList s' = remove1 a (m_PermBanList s)
    \<and> m_RangeBanList s' = m_RangeBanList s"
proof -
  from RemFromTable_run [OF rel b] obtain h t b' where
    run: "RemFromTable a s = Inr (s\<lparr>bm_heap := h, m_IpBanTable := t,
        m_NickBanTable := (\<lambda>k. remove1 a (m_NickBanTable s k))\<rparr>)"
    and lo: "links_only h (bm_heap s)" and h: "h a = Some b'" "clear_ban_links b' = clear_ban_links b"
    and ip: "ip_chains (h(a := None)) t (\<lambda>k. remove1 a (ch k))" by blast
  have bits: "m_ui8Bits b' = m_ui8Bits b" by (rule clear_ban_links_eqD(1) [OF h(2)])
  have own: "own_lists (bm_heap s) (m_TempBanList s) (m_PermBanList s)"
    and nl: "nick_lists (bm_heap s) (m_NickBanTable s)" using rel by (simp_all add: ban_rel_def)
  let ?s' = "s\<lparr>bm_heap := h(a := None), m_IpBanTable := t,
     m_NickBanTable := (\<lambda>k. remove1 a (m_NickBanTable s k)),
     m_TempBanList := remove1 a (m_TempBanList s), m_PermBanList := remove1 a (m_PermBanList s)\<rparr>"
  have "BanManager_Rem a s = Inr ?s'"
    using run own_lists_cases [OF own b] h bits
    by (cases "is_set b PERM") (simp_all add: BanManager_Rem_def delete_ban_def deref_def remove1_idem)
  moreover have lt: "c < bm_next s" if "h c \<noteq> None" for c
    using that rel links_only_dom [OF lo, of c] by (simp add: ban_rel_def)
  have "ban_rel ?s' (\<lambda>k. remove1 a (ch k))"
    unfolding ban_rel_def
    using ip nick_lists_delete [OF nick_lists_links [OF lo nl]]
      own_lists_delete [OF own_lists_links [OF lo own]] lt
    by simp
  ultimately show ?thesis using links_only_delete [OF lo] by (intro exI [of _ ?s']) simp
qed

lemma guarded_drop_faults:
  assumes "ban_rel s ch" and "bm_heap s a = Some b"
  shows "guarded_drop a s = Inl (DoubleFree a)"
proof -
  from BanManager_Rem_run [OF assms] obtain s' where "BanManager_Rem a s = Inr s'"
    "links_only (bm_heap s') ((bm_heap s)(a := None))" by blast
  moreover from this(2) have "bm_heap s' a = None" using links_only_dom by fastforce
  ultimately show ?thesis by (simp add: guarded_drop_def delete_ban_def)
qed

section \<open>Adding a ban\<close>

lemma nick_lists_add:
  assumes "nick_lists h nt" and "h a = None" and "is_set b NICK \<Longrightarrow> b_ui32NickHash b = HashNick (b_sNick b)"
  shows "nick_lists (h(a \<mapsto> b)) (if is_set b NICK then nt(b_ui32NickHash b := a # nt (b_ui32NickHash b)) else nt)"
proof -
  have nin: "a \<notin> set (nt k)" for k using assms(1,2) unfolding nick_lists_def by auto
  from assms nin show ?thesis unfolding nick_lists_def by auto
qed

lemma own_lists_add:
  assumes "own_lists h tb pb" and "h a = None" and "is_set b PERM \<longleftrightarrow> \<not> is_set b TEMP"
  shows "own_lists (h(a \<mapsto> b)) (if is_set b PERM then tb else tb @ [a]) (if is_set b PERM then pb @ [a] else pb)"
proof -
  have nin: "a \<notin> set tb" "a \<notin> set pb" using assms(1,2) unfolding own_lists_def by auto
  from assms nin show ?thesis unfolding own_lists_def by auto
qed

lemma ip_chains_add:
  assumes ok: "ip_chains h t ch" and fresh: "h a = None" and nip: "\<not> is_set b IP"
  shows "ip_chains (h(a \<mapsto> b)) t ch"
proof -
  have nin: "a \<notin> set (ch k)" for k using ip_chainsD(3) [OF ok, of a k] fresh by simp
  show ?thesis
    unfolding ip_chains_def
  proof (intro conjI allI)
    fix k c
    show "distinct (ch k)" by (rule ip_chainsD(1) [OF ok])
    show "ban_chain (h(a \<mapsto> b)) (t k) (ch k)" using ip_chainsD(2) [OF ok, of k] nin [of k] by simp
    show "c \<in> set (ch k) \<longleftrightarrow> (\<exists>b'. (h(a \<mapsto> b)) c = Some b' \<and> is_set b' IP \<and> b_ui128IpHash b' = k)"
      using ip_chainsD(3) [OF ok, of c k] nin [of k] nip by (cases "c = a") auto
  qed
qed

text \<open>A ban object as a caller hands it to \<open>Add\<close>.\<close>

definition ready :: "BanItem \<Rightarrow> bool" where
  "ready b \<longleftrightarrow> b_pHashIpTablePrev b = None \<and> b_pHashIpTableNext b = None
     \<and> (is_set b PERM \<longleftrightarrow> \<not> is_set b TEMP) \<and> (is_set b NICK \<longrightarrow> b_ui32NickHash b = HashNick (b_sNick b))"

text \<open>The abstract effect of adding the object \<open>b\<close> at \<open>a\<close> on the chains and on the nick buckets.\<close>

definition chains_with :: "BanItem \<Rightarrow> addr \<Rightarrow> (byte list \<Rightarrow> addr list) \<Rightarrow> (byte list \<Rightarrow> addr list)" where
  "chains_with b a ch = (if is_set b IP then ch(b_ui128IpHash b := a # ch (b_ui128IpHash b)) else ch)"

definition nicks_with :: "BanItem \<Rightarrow> addr \<Rightarrow> (u32 \<Rightarrow> addr list) \<Rightarrow> (u32 \<Rightarrow> addr list)" where
  "nicks_with b a nt = (if is_set b NICK then nt(b_ui32NickHash b := a # nt (b_ui32NickHash b)) else nt)"

lemma add_released_run:
  assumes rel: "ban_rel s ch" and rdy: "ready b"
  shows "\<exists>s'. add_released b s = Inr (s', True) \<and> ban_rel s' (chains_with b (bm_next s) ch)
    \<and> links_only (bm_heap s') ((bm_heap s)(bm_next s \<mapsto> b))
    \<and> m_NickBanTable s' = nicks_with b (bm_next s) (m_NickBanTable s)
    \<and> m_RangeBanList s' = m_RangeBanList s
    \<and> m_TempBanList s' = m_TempBanList s @ (if is_set b PERM then [] else [bm_next s])
    \<and> m_PermBanList s' = m_PermBanList s @ (if is_set b PERM then [bm_next s] else [])"
proof -
  let ?a = "bm_next s"
  let ?h = "(bm_heap s)(?a \<mapsto> b)"
  let ?s0 = "s\<lparr>bm_heap := ?h, bm_next := Suc ?a\<rparr>"
  have ip: "ip_chains (bm_heap s) (m_IpBanTable s) ch" and nl: "nick_lists (bm_heap s) (m_NickBanTable s)"
    and own: "own_lists (bm_heap s) (m_TempBanList s) (m_PermBanList s)" using rel by (simp_all add: ban_rel_def)
  have fresh: "bm_heap s ?a = None" using rel unfolding ban_rel_def by blast
  obtain h :: "addr \<Rightarrow> BanItem option" and t where
    1: "(if is_set b IP then Add2IpTable ?a ?s0 else Inr (?s0, True)) = Inr (?s0\<lparr>bm_heap := h, m_IpBanTable := t\<rparr>, True)"
    and lo: "links_only h ?h" and ip': "ip_chains h t (chains_with b ?a ch)"
  proof (cases "is_set b IP")
    case True
    have "\<exists>h'. Add2IpTable ?a ?s0 = Inr (?s0\<lparr>bm_heap := h', m_IpBanTable := (m_IpBanTable s)(b_ui128IpHash b \<mapsto> ?a)\<rparr>, True)
      \<and> links_only h' ?h \<and> ip_chains h' ((m_IpBanTable s)(b_ui128IpHash b \<mapsto> ?a)) (ch(b_ui128IpHash b := ?a # ch (b_ui128IpHash b)))"
      using rdy by (intro Add2IpTable_run [OF ip fresh _ _ True refl]) (simp_all add: ready_def)
    with True that show thesis by (auto simp: chains_with_def)
  next
    case False
    show thesis
    proof (rule that)
      show "(if is_set b IP then Add2IpTable ?a ?s0 else Inr (?s0, True)) =
          Inr (?s0\<lparr>bm_heap := ?h, m_IpBanTable := m_IpBanTable s\<rparr>, True)" using False by simp
    qed (use ip_chains_add [OF ip fresh False] False in \<open>simp_all add: chains_with_def\<close>)
  qed
  from links_only_live [OF links_only_sym [OF lo], of ?a b] obtain b' where
    b': "h ?a = Some b'" "clear_ban_links b' = clear_ban_links b" by auto
  note same = clear_ban_links_eqD [OF b'(2)]
  have tbl: "Add2Table ?a ?s0 = Inr (?s0\<lparr>bm_heap := h, m_IpBanTable := t,
      m_NickBanTable := nicks_with b ?a (m_NickBanTable s)\<rparr>, True)"
    using 1 b'(1) same(1,3)
    by (cases "is_set b NICK") (simp_all add: Add2Table_def Add2NickTable_def deref_def nicks_with_def)
  let ?s' = "?s0\<lparr>bm_heap := h, m_IpBanTable := t, m_NickBanTable := nicks_with b ?a (m_NickBanTable s),
     m_TempBanList := (if is_set b PERM then m_TempBanList s else m_TempBanList s @ [?a]),
     m_PermBanList := (if is_set b PERM then m_PermBanList s @ [?a] else m_PermBanList s)\<rparr>"
  have "add_released b s = Inr (?s', True)"
    using tbl b'(1) same(1)
    by (cases "is_set b PERM") (simp_all add: add_released_def BanManager_Add_def deref_def)
  moreover have "nick_lists h (nicks_with b ?a (m_NickBanTable s))"
    using nick_lists_links [OF lo nick_lists_add [OF nl fresh]] rdy by (simp add: ready_def nicks_with_def)
  moreover have "own_lists h (m_TempBanList ?s') (m_PermBanList ?s')"
    using own_lists_links [OF lo own_lists_add [OF own fresh]] rdy by (simp add: ready_def)
  moreover have "c < Suc ?a" if "h c \<noteq> None" for c
    using that links_only_dom [OF lo, of c] rel by (cases "c = ?a") (auto simp: ban_rel_def less_SucI)
  ultimately show ?thesis using ip' lo by (intro exI [of _ ?s']) (simp add: ban_rel_def)
qed

section \<open>Turning a ban into an address ban\<close>

lemma bit_disjoint [simp]:
  "has_bits (w AND NOT NICK) IP = has_bits w IP" "has_bits (w AND NOT NICK) PERM = has_bits w PERM"
  "has_bits (w AND NOT NICK) TEMP = has_bits w TEMP" "has_bits (w AND NOT NICK) FULL = has_bits w FULL"
  by (rule has_bits_clear_disjoint; simp add: ban_bits)+

lemma nick_bit_cleared [simp]: "\<not> has_bits (w AND NOT NICK) NICK"
  by (rule has_bits_clear) (simp add: ban_bits)

lemma bit_or_disjoint [simp]:
  "has_bits (w OR NICK) IP = has_bits w IP" "has_bits (w OR NICK) PERM = has_bits w PERM"
  "has_bits (w OR NICK) TEMP = has_bits w TEMP" "has_bits (w OR NICK) FULL = has_bits w FULL"
  "has_bits (w OR FULL) IP = has_bits w IP" "has_bits (w OR FULL) PERM = has_bits w PERM"
  "has_bits (w OR FULL) TEMP = has_bits w TEMP" "has_bits (w OR FULL) NICK = has_bits w NICK"
  "has_bits (w OR IP) NICK = has_bits w NICK" "has_bits (w OR IP) PERM = has_bits w PERM"
  "has_bits (w OR IP) TEMP = has_bits w TEMP" "has_bits (w OR IP) FULL = has_bits w FULL"
  "has_bits (w OR PERM) NICK = has_bits w NICK" "has_bits (w OR PERM) IP = has_bits w IP"
  "has_bits (w OR PERM) TEMP = has_bits w TEMP" "has_bits (w OR PERM) FULL = has_bits w FULL"
  "has_bits (w OR TEMP) NICK = has_bits w NICK" "has_bits (w OR TEMP) IP = has_bits w IP"
  "has_bits (w OR TEMP) PERM = has_bits w PERM" "has_bits (w OR TEMP) FULL = has_bits w FULL"
  by (simp_all add: ban_bits has_bits_or_disjoint)

lemma no_bits [simp]:
  "\<not> has_bits (0 :: byte) IP" "\<not> has_bits (0 :: byte) PERM" "\<not> has_bits (0 :: byte) TEMP"
  "\<not> has_bits (0 :: byte) FULL" "\<not> has_bits (0 :: byte) NICK"
  by (simp_all add: ban_bits has_bits_def)

lemma make_ip_only_run:
  assumes rel: "ban_rel s ch" and b: "bm_heap s a = Some b"
  shows "\<exists>s'. make_ip_only a s = Inr s' \<and> ban_rel s' ch
    \<and> bm_heap s' = hmod a (clear_bit_of NICK) (bm_heap s)
    \<and> m_NickBanTable s' = (\<lambda>k. remove1 a (m_NickBanTable s k)) \<and> bm_next s' = bm_next s"
proof -
  let ?h = "hmod a (clear_bit_of NICK) (bm_heap s)"
  let ?s' = "s\<lparr>bm_heap := ?h, m_NickBanTable := (\<lambda>k. remove1 a (m_NickBanTable s k))\<rparr>"
  have ip: "ip_chains (bm_heap s) (m_IpBanTable s) ch" and nl: "nick_lists (bm_heap s) (m_NickBanTable s)"
    and own: "own_lists (bm_heap s) (m_TempBanList s) (m_PermBanList s)" using rel by (simp_all add: ban_rel_def)
  have bucket: "(m_NickBanTable s)(b_ui32NickHash b := remove1 a (m_NickBanTable s (b_ui32NickHash b)))
      = (\<lambda>k. remove1 a (m_NickBanTable s k))"
  proof (cases "is_set b NICK")
    case True
    from nick_bucket [OF nl b True] show ?thesis .
  next
    case False
    from nick_absent [OF nl b False] show ?thesis by (metis fun_upd_triv)
  qed
  have run: "make_ip_only a s = Inr ?s'"
    using b bucket by (simp add: make_ip_only_def RemFromNickTable_def ub_simps)
  have ex: "(\<exists>b. ?h c = Some b \<and> P b) \<longleftrightarrow> (\<exists>b. bm_heap s c = Some b \<and> P b)"
    if "\<And>b. P (clear_bit_of NICK b) = P b" for c P
    using that by (cases "c = a") (auto simp: b)
  have "ip_chains ?h (m_IpBanTable s) ch"
    unfolding ip_chains_def
  proof (intro conjI allI)
    fix k c
    show "distinct (ch k)" by (rule ip_chainsD(1) [OF ip])
    show "ban_chain ?h (m_IpBanTable s k) (ch k)"
      by (rule dchain_keeps_links [OF _ ip_chainsD(2) [OF ip]]) (auto simp: hmod_def)
    show "c \<in> set (ch k) \<longleftrightarrow> (\<exists>b. ?h c = Some b \<and> is_set b IP \<and> b_ui128IpHash b = k)"
      unfolding ip_chainsD(3) [OF ip] by (subst ex) simp_all
  qed
  moreover have "own_lists ?h (m_TempBanList s) (m_PermBanList s)"
  proof -
    have "(\<exists>b. ?h c = Some b \<and> is_set b TEMP) = (\<exists>b. bm_heap s c = Some b \<and> is_set b TEMP)"
      "(\<exists>b. ?h c = Some b \<and> is_set b PERM) = (\<exists>b. bm_heap s c = Some b \<and> is_set b PERM)" for c
      by (subst ex; simp)+
    moreover have "is_set w PERM \<longleftrightarrow> \<not> is_set w TEMP" if "?h c = Some w" for c w
      using that own b unfolding own_lists_def by (cases "c = a") auto
    ultimately show ?thesis using own unfolding own_lists_def by simp
  qed
  moreover have "nick_lists ?h (\<lambda>k. remove1 a (m_NickBanTable s k))"
  proof -
    have "distinct (m_NickBanTable s k)" for k using nl unfolding nick_lists_def by blast
    then have "set (remove1 a (m_NickBanTable s k)) = set (m_NickBanTable s k) - {a}"
      "distinct (remove1 a (m_NickBanTable s k))" for k by (simp_all add: set_remove1_eq)
    with nl b show ?thesis unfolding nick_lists_def by (auto simp: hmod_def)
  qed
  moreover have "c < bm_next s" if "?h c \<noteq> None" for c
    using that rel by (auto simp: ban_rel_def hmod_def split: if_splits)
  ultimately show ?thesis using run by (intro exI [of _ ?s']) (simp add: ban_rel_def)
qed

section \<open>Example states\<close>

lemma ban_inv_new: "ban_inv new_BanManager"
proof -
  have "ban_rel new_BanManager (\<lambda>_. [])"
    by (simp add: ban_rel_def new_BanManager_def ip_chains_def nick_lists_def own_lists_def)
  then show ?thesis by (rule ban_invI)
qed

text \<open>A manager with one full ban of the nick \<open>bob\<close> and of one address, and the user it is about.\<close>

definition demo_hash :: "byte list" where
  "demo_hash = replicate 15 0 @ [7]"

definition demo_ban :: BanItem where
  "demo_ban = \<lparr>m_tTempBanExpire = 0, m_sReason = [], m_sBy = [], m_ui8Bits = 0x1D, b_sNick = ''bob'',
     b_pHashIpTablePrev = None, b_pHashIpTableNext = None, b_ui32NickHash = HashNick ''bob'',
     b_ui128IpHash = demo_hash, b_sIp = ''::7''\<rparr>"

definition demo_bans :: BanManager where
  "demo_bans = \<lparr>bm_heap = [0 \<mapsto> demo_ban], m_NickBanTable = (\<lambda>_. [])(HashNick ''bob'' := [0]),
     m_IpBanTable = [demo_hash \<mapsto> 0], m_TempBanList = [], m_PermBanList = [0], m_RangeBanList = [],
     m_ui32SaveCalled = 0, bm_next = 1\<rparr>"

definition demo_bob :: User where
  "demo_bob = blank_user\<lparr>m_sNick := ''bob'', m_ui32NickHash := HashNick ''bob'', m_ui128IpHash := demo_hash,
     m_sIP := ''::7'', m_ui8State := STATE_ADDED\<rparr>"

lemma demo_bits [simp]:
  "is_set demo_ban IP" "is_set demo_ban NICK" "is_set demo_ban PERM" "is_set demo_ban FULL" "\<not> is_set demo_ban TEMP"
  by (simp_all add: demo_ban_def ban_bits has_bits_def)

lemma demo_fields [simp]:
  "bm_heap demo_bans 0 = Some demo_ban" "b_sNick demo_ban = ''bob''" "b_ui32NickHash demo_ban = HashNick ''bob''"
  "b_ui128IpHash demo_ban = demo_hash" "m_sNick demo_bob = ''bob''" "m_ui32NickHash demo_bob = HashNick ''bob''"
  "m_ui128IpHash demo_bob = demo_hash"
  by (simp_all add: demo_bans_def demo_ban_def demo_bob_def)

lemma ban_inv_demo: "ban_inv demo_bans"
proof -
  have h: "bm_heap demo_bans = [0 \<mapsto> demo_ban]" by (simp add: demo_bans_def)
  have l: "b_pHashIpTablePrev demo_ban = None" "b_pHashIpTableNext demo_ban = None" by (simp_all add: demo_ban_def)
  have "ip_chains (bm_heap demo_bans) (m_IpBanTable demo_bans) ((\<lambda>_. [])(demo_hash := [0]))"
    unfolding ip_chains_def h by (auto simp: demo_bans_def dchain_def l)
  moreover have "nick_lists (bm_heap demo_bans) (m_NickBanTable demo_bans)"
    unfolding nick_lists_def h by (auto simp: demo_bans_def)
  moreover have "own_lists (bm_heap demo_bans) (m_TempBanList demo_bans) (m_PermBanList demo_bans)"
    unfolding own_lists_def h by (auto simp: demo_bans_def)
  ultimately have "ban_rel demo_bans ((\<lambda>_. [])(demo_hash := [0]))"
    unfolding ban_rel_def by (simp add: demo_bans_def)
  then show ?thesis by (rule ban_invI)
qed

end
