(* ===== verification/BanLookup.thy ===== *)
theory BanLookup
  imports BanTables
begin

text \<open>
  What the lookups and the walks of the ban manager return: under the invariant each of them is the
  first ban of the chain or bucket that satisfies a predicate.  An expired ban met on the way is removed
  by \<open>Rem\<close> and then deleted once more by the guard, so it is the fault \<open>DoubleFree\<close>.
\<close>

definition ban_at :: "BanManager \<Rightarrow> addr \<Rightarrow> BanItem" where
  "ban_at s a = the (bm_heap s a)"

lemma ban_at_eq [simp]: "bm_heap s a = Some b \<Longrightarrow> ban_at s a = b"
  by (simp add: ban_at_def)

section \<open>Lookup by address\<close>

lemma find_ip_loop_run:
  assumes rel: "ban_rel s ch"
  shows "dseg b_pHashIpTablePrev b_pHashIpTableNext (bm_heap s) p x as q None \<Longrightarrow> length as < n \<Longrightarrow>
    find_ip_loop n now bits x fnd s =
      (case find (\<lambda>a. expired now (ban_at s a) \<or> matches bits (ban_at s a)) as of
         Some a \<Rightarrow> if expired now (ban_at s a) then Inl (DoubleFree a) else Inr (s, Some a)
       | None \<Rightarrow> Inr (s, case fnd of Some f \<Rightarrow> Some f | None \<Rightarrow> (if as = [] then None else Some (hd as))))"
proof (induction as arbitrary: p x fnd n)
  case Nil
  then show ?case by (cases n) (simp_all split: option.splits)
next
  case (Cons a as)
  then obtain m where n: "n = Suc m" "length as < m" by (cases n) auto
  from Cons.prems obtain b where x: "x = Some a" and b: "bm_heap s a = Some b"
    and seg: "dseg b_pHashIpTablePrev b_pHashIpTableNext (bm_heap s) (Some a) (b_pHashIpTableNext b) as q None" by auto
  note ih = Cons.IH [OF seg n(2)]
  show ?case
  proof (cases "expired now b")
    case True
    then show ?thesis using n x b guarded_drop_faults [OF rel b] by (simp add: deref_def)
  next
    case False
    then show ?thesis using n x b ih by (simp add: deref_def split: option.splits)
  qed
qed

lemma chain_length:
  assumes "ban_rel s ch"
  shows "length (ch k) \<le> bm_next s"
proof -
  have "distinct (ch k)" "\<And>a. a \<in> set (ch k) \<Longrightarrow> a < bm_next s"
    using assms unfolding ban_rel_def ip_chains_def by blast+
  then have "length (ch k) = card (set (ch k))" and sub: "set (ch k) \<subseteq> {..<bm_next s}"
    by (auto simp: distinct_card)
  with card_mono [OF _ sub] show ?thesis by simp
qed

definition first_ban :: "(BanItem \<Rightarrow> bool) \<Rightarrow> BanManager \<Rightarrow> addr list \<Rightarrow> addr option" where
  "first_ban P s as = find (\<lambda>a. P (ban_at s a)) as"

lemma first_ban_SomeD: "first_ban P s as = Some a \<Longrightarrow> a \<in> set as \<and> P (ban_at s a)"
  by (auto simp: first_ban_def find_Some_iff in_set_conv_nth)

lemma first_ban_NoneD: "first_ban P s as = None \<Longrightarrow> a \<in> set as \<Longrightarrow> \<not> P (ban_at s a)"
  by (auto simp: first_ban_def find_None_iff)

text \<open>The result of the lookup on the chain, as a specification.\<close>

definition find_ip_spec :: "int \<Rightarrow> byte \<Rightarrow> BanManager \<Rightarrow> addr list \<Rightarrow> (BanManager \<times> addr option) res" where
  "find_ip_spec now bits s as =
     (case first_ban (\<lambda>b. expired now b \<or> matches bits b) s as of
        Some a \<Rightarrow> if expired now (ban_at s a) then Inl (DoubleFree a) else Inr (s, Some a)
      | None \<Rightarrow> Inr (s, if as = [] then None else Some (hd as)))"

lemma FindIpBanGeneric_run:
  assumes rel: "ban_rel s ch"
  shows "FindIpBanGeneric k now bits s = find_ip_spec now bits s (ch k)"
proof -
  have ip: "ip_chains (bm_heap s) (m_IpBanTable s) ch" using rel by (simp add: ban_rel_def)
  note hd = ip_chains_head [OF ip, of k]
  obtain q where seg: "dseg b_pHashIpTablePrev b_pHashIpTableNext (bm_heap s) None (m_IpBanTable s k) (ch k) q None"
    using ip_chainsD(2) [OF ip, of k] unfolding dchain_def by blast
  show ?thesis
  proof (cases "m_IpBanTable s k")
    case None
    then have "ch k = []" using hd by (simp split: if_splits)
    then show ?thesis using None by (simp add: FindIpBanGeneric_def find_ip_spec_def first_ban_def)
  next
    case (Some f)
    have "find_ip_loop (Suc (bm_next s)) now bits (Some f) None s = find_ip_spec now bits s (ch k)"
      using find_ip_loop_run [OF rel seg [unfolded Some], of "Suc (bm_next s)" now bits None] chain_length [OF rel, of k]
      by (simp add: find_ip_spec_def first_ban_def del: find_ip_loop.simps cong: option.case_cong)
    then show ?thesis using Some by (simp add: FindIpBanGeneric_def)
  qed
qed

section \<open>Lookup by nick\<close>

lemma find_nick_loop_run:
  assumes rel: "ban_rel s ch" and live: "\<And>a. a \<in> set as \<Longrightarrow> \<exists>b. bm_heap s a = Some b"
  shows "find_nick_loop as now sNick bits s =
      (case first_ban (\<lambda>b. iequals (b_sNick b) sNick \<and> (expired now b \<or> matches bits b)) s as of
         Some a \<Rightarrow> if expired now (ban_at s a) then Inl (DoubleFree a) else Inr (s, Some a)
       | None \<Rightarrow> Inr (s, None))"
  using live
proof (induction as)
  case (Cons a as)
  from Cons.prems obtain b where b: "bm_heap s a = Some b" by auto
  then show ?case
    using Cons guarded_drop_faults [OF rel b] by (auto simp: first_ban_def deref_def)
qed (simp add: first_ban_def)

lemma FindNickBanGeneric_run:
  assumes rel: "ban_rel s ch"
  shows "FindNickBanGeneric h now sNick bits s =
      (case first_ban (\<lambda>b. iequals (b_sNick b) sNick \<and> (expired now b \<or> matches bits b)) s (m_NickBanTable s h) of
         Some a \<Rightarrow> if expired now (ban_at s a) then Inl (DoubleFree a) else Inr (s, Some a)
       | None \<Rightarrow> Inr (s, None))"
  unfolding FindNickBanGeneric_def
proof (rule find_nick_loop_run [OF rel])
  fix a assume "a \<in> set (m_NickBanTable s h)"
  then show "\<exists>b. bm_heap s a = Some b" using rel unfolding ban_rel_def nick_lists_def by blast
qed

section \<open>Walks\<close>

lemma walk_ip_seg:
  assumes rel: "ban_rel s ch"
  shows "dseg b_pHashIpTablePrev b_pHashIpTableNext (bm_heap s) p x as q None \<Longrightarrow> length as < n \<Longrightarrow>
    walk_ip n body x s =
      (case first_ban (\<lambda>b. body b \<noteq> Continue) s as of
         Some a \<Rightarrow> if body (ban_at s a) = Remove then Inl (DoubleFree a) else Inr (s, Some a)
       | None \<Rightarrow> Inr (s, None))"
proof (induction as arbitrary: p x n)
  case Nil
  then show ?case by (cases n) (simp_all add: first_ban_def)
next
  case (Cons a as)
  then obtain m where n: "n = Suc m" "length as < m" by (cases n) auto
  from Cons.prems obtain b where x: "x = Some a" and b: "bm_heap s a = Some b"
    and seg: "dseg b_pHashIpTablePrev b_pHashIpTableNext (bm_heap s) (Some a) (b_pHashIpTableNext b) as q None" by auto
  note ih = Cons.IH [OF seg n(2)]
  show ?case
    using n x b ih guarded_drop_faults [OF rel b]
    by (cases "body b") (simp_all add: deref_def first_ban_def)
qed

lemma walk_ip_run:
  assumes rel: "ban_rel s ch" and n: "bm_next s < n" and x: "x = m_IpBanTable s k"
  shows "walk_ip n body x s =
      (case first_ban (\<lambda>b. body b \<noteq> Continue) s (ch k) of
         Some a \<Rightarrow> if body (ban_at s a) = Remove then Inl (DoubleFree a) else Inr (s, Some a)
       | None \<Rightarrow> Inr (s, None))"
proof -
  have ip: "ip_chains (bm_heap s) (m_IpBanTable s) ch" using rel by (simp add: ban_rel_def)
  obtain q where "dseg b_pHashIpTablePrev b_pHashIpTableNext (bm_heap s) None (m_IpBanTable s k) (ch k) q None"
    using ip_chainsD(2) [OF ip, of k] unfolding dchain_def by blast
  from walk_ip_seg [OF rel this [folded x]] n chain_length [OF rel, of k] show ?thesis by simp
qed

text \<open>The head of a chain that a lookup for any ban returned is the head in the table.\<close>

lemma FindIP_head:
  assumes rel: "ban_rel s ch" and f: "FindIP k now s = Inr (s', r)"
  shows "s' = s" and "r = m_IpBanTable s k"
proof -
  have ip: "ip_chains (bm_heap s) (m_IpBanTable s) ch" using rel by (simp add: ban_rel_def)
  from f have "find_ip_spec now 0 s (ch k) = Inr (s', r)"
    unfolding FindIP_def FindIpBanGeneric_run [OF rel] .
  then show "s' = s" and "r = m_IpBanTable s k"
    using ip_chains_head [OF ip, of k]
    by (cases "ch k"; auto simp: find_ip_spec_def first_ban_def matches_def split: if_splits)+
qed

text \<open>A lookup that returns leaves the state as it was.\<close>

lemma lookup_state:
  assumes "ban_rel s ch"
  shows "FindIpBanGeneric k now bits s = Inr (s', r) \<Longrightarrow> s' = s"
    and "FindNickBanGeneric h now nick bits s = Inr (s', r') \<Longrightarrow> s' = s"
  by (auto simp: FindIpBanGeneric_run [OF assms] FindNickBanGeneric_run [OF assms] find_ip_spec_def
      split: option.splits if_splits)

text \<open>A lookup by nick that returns a ban returns a live nick ban of that nick.\<close>

lemma FindNick_hit:
  assumes rel: "ban_rel s ch" and f: "FindNickBanGeneric h now nick bits s = Inr (s', Some a)"
  shows "s' = s \<and> (\<exists>b. bm_heap s a = Some b \<and> is_set b NICK \<and> iequals (b_sNick b) nick
    \<and> \<not> expired now b \<and> matches bits b \<and> a \<in> set (m_NickBanTable s h))"
proof -
  let ?f = "first_ban (\<lambda>b. iequals (b_sNick b) nick \<and> (expired now b \<or> matches bits b)) s (m_NickBanTable s h)"
  have 1: "?f = Some a" and 2: "\<not> expired now (ban_at s a)" and s': "s' = s"
    using f unfolding FindNickBanGeneric_run [OF rel] by (cases ?f; simp split: if_splits)+
  from first_ban_SomeD [OF 1] have 3: "a \<in> set (m_NickBanTable s h)"
    "iequals (b_sNick (ban_at s a)) nick" "expired now (ban_at s a) \<or> matches bits (ban_at s a)" by auto
  from 3(1) rel obtain b where "bm_heap s a = Some b" "is_set b NICK"
    unfolding ban_rel_def nick_lists_def by blast
  with 2 3 s' show ?thesis by auto
qed

lemma safe_ip_lookup:
  assumes "ban_rel s ch"
  shows "safe (\<lambda>e. \<exists>a. e = DoubleFree a) (FindIpBanGeneric k now bits s) (\<lambda>(s', r). s' = s)"
  unfolding FindIpBanGeneric_run [OF assms] find_ip_spec_def by (simp split: option.split)

lemma safe_nick_lookup:
  assumes "ban_rel s ch"
  shows "safe (\<lambda>e. \<exists>a. e = DoubleFree a) (FindNickBanGeneric h now nick bits s) (\<lambda>(s', r). s' = s)"
  unfolding FindNickBanGeneric_run [OF assms] by (simp split: option.split)

end
