(* ===== verification/BanOps.thy ===== *)
theory BanOps
  imports BanLookup
begin

text \<open>
  The commands of the ban manager: banning a user, an address or a nick, for good or for a time, and
  lifting a ban.  The object under construction is a value until \<open>Add(pBan.release())\<close> publishes it.  The
  clock, the default ban time of the settings and the resolver are arguments.
\<close>

section \<open>Common parts\<close>

definition CreateReason :: "string option \<Rightarrow> 'a BanItemBase_scheme \<Rightarrow> 'a BanItemBase_scheme" where
  "CreateReason sReason pBan =
     (case sReason of
        None \<Rightarrow> pBan
      | Some r \<Rightarrow> if length r > 511 then pBan\<lparr>m_sReason := take 508 r @ ''...''\<rparr> else pBan\<lparr>m_sReason := r\<rparr>)"

definition AddBanInternal :: "string option \<Rightarrow> 'a BanItemBase_scheme \<Rightarrow> 'a BanItemBase_scheme \<times> bool" where
  "AddBanInternal sBy pBan =
     (case sBy of None \<Rightarrow> (pBan, True) | Some b \<Rightarrow> (pBan\<lparr>m_sBy := take (min (length b) 63) b\<rparr>, True))"

text \<open>The end of every banning command: reason, author, \<open>Add\<close> and \<open>Save\<close>.\<close>

definition publish :: "string option \<Rightarrow> string option \<Rightarrow> BanItem \<Rightarrow> BanManager \<Rightarrow> (BanManager \<times> bool) res" where
  "publish sReason sBy pBan s =
     (let (b, ok) = AddBanInternal sBy (CreateReason sReason pBan) in
      if \<not> ok then Inr (s, False)
      else rbind (add_released b s) (\<lambda>(s1, added).
        if \<not> added then Inr (s1, False) else Inr (fst (BanManager_Save False s1), True)))"

definition expire_time :: "int \<Rightarrow> 16 word \<Rightarrow> u32 \<Rightarrow> int \<Rightarrow> int" where
  "expire_time acc_time default_ban minutes expiretime =
     (if expiretime > 0 then expiretime
      else if minutes > 0 then acc_time + uint (minutes * 60)
      else acc_time + sint default_ban * 60)"

definition bad_nick :: "string \<Rightarrow> bool" where
  "bad_nick n \<longleftrightarrow> cget n 0 = CHR ''<''"

definition same_ip :: "BanItem \<Rightarrow> BanItem \<Rightarrow> bool" where
  "same_ip a b \<longleftrightarrow> b_ui128IpHash a = b_ui128IpHash b"

section \<open>Permanent bans\<close>

definition Ban_same_nick :: "BanItem \<Rightarrow> addr option \<Rightarrow> BanManager \<Rightarrow> (BanManager \<times> BanItem option) res" where
  "Ban_same_nick pBan r s =
     (case r of
        None \<Rightarrow> Inr (s, Some pBan)
      | Some nxtBan \<Rightarrow>
          rbind (deref (bm_heap s) nxtBan) (\<lambda>b.
            if is_set b PERM then
              (if is_set b IP then
                 (if same_ip pBan b then
                    (if \<not> is_set pBan FULL then Inr (s, None)
                     else if is_set b FULL then Inr (s, None)
                     else rbind (guarded_drop nxtBan s) (\<lambda>s1. Inr (s1, Some pBan)))
                  else Inr (s, Some (clear_bit_of NICK pBan)))
               else rbind (guarded_drop nxtBan s) (\<lambda>s1. Inr (s1, Some pBan)))
            else
              (if is_set b IP then
                 (if same_ip pBan b then
                    (if \<not> is_set b FULL then rbind (guarded_drop nxtBan s) (\<lambda>s1. Inr (s1, Some pBan))
                     else if is_set pBan FULL then rbind (guarded_drop nxtBan s) (\<lambda>s1. Inr (s1, Some pBan))
                     else rbind (make_ip_only nxtBan s) (\<lambda>s1. Inr (s1, Some pBan)))
                  else rbind (make_ip_only nxtBan s) (\<lambda>s1. Inr (s1, Some pBan)))
               else rbind (guarded_drop nxtBan s) (\<lambda>s1. Inr (s1, Some pBan)))))"

definition Ban_clear_action :: "BanItem \<Rightarrow> BanItem \<Rightarrow> walk_action" where
  "Ban_clear_action pBan curBan =
     (if is_set curBan NICK then Continue
      else if is_set curBan FULL \<and> \<not> is_set pBan FULL then Continue
      else Remove)"

definition with_user_nick :: "User \<Rightarrow> BanItem \<Rightarrow> BanItem" where
  "with_user_nick u b = set_bit_of NICK (b\<lparr>b_sNick := m_sNick u, b_ui32NickHash := m_ui32NickHash u\<rparr>)"

definition start_ban :: "byte \<Rightarrow> User \<Rightarrow> bool \<Rightarrow> BanItem" where
  "start_ban kind pUser bFull =
     (let b = set_bit_of IP (initIP_user pUser (set_bit_of kind new_BanItem)) in
      if bFull then set_bit_of FULL b else b)"

definition Ban :: "User \<Rightarrow> string option \<Rightarrow> string option \<Rightarrow> bool \<Rightarrow> int \<Rightarrow> BanManager \<Rightarrow> BanManager res" where
  "Ban pUser sReason sBy bFull acc_time s =
     rbind (if bad_nick (m_sNick pUser) then Inr (s, Some (start_ban PERM pUser bFull))
            else let pBan = with_user_nick pUser (start_ban PERM pUser bFull) in
              rbind (FindNick_hash (b_ui32NickHash pBan) acc_time (b_sNick pBan) s)
                (\<lambda>(s1, nxtBan). Ban_same_nick pBan nxtBan s1))
       (\<lambda>(s1, new). case new of
          None \<Rightarrow> Inr s1
        | Some pBan \<Rightarrow>
            rbind (FindIP (b_ui128IpHash pBan) acc_time s1) (\<lambda>(s2, nxtBan).
            rbind (walk_ip (Suc (bm_next s2)) (Ban_clear_action pBan) nxtBan s2) (\<lambda>(s3, _).
            rbind (publish sReason sBy pBan s3) (\<lambda>(s4, _). Inr s4))))"

text \<open>The address of a ban without a nick: the user's, or the text the resolver can hash.\<close>

definition ban_address :: "resolver \<Rightarrow> User option \<Rightarrow> string option \<Rightarrow> BanItem \<Rightarrow> BanItem option" where
  "ban_address r pUser sIp b =
     (case pUser of
        Some u \<Rightarrow> Some (initIP_user u b)
      | None \<Rightarrow>
          (case sIp of
             None \<Rightarrow> None
           | Some t \<Rightarrow>
               (case HashIP r t of
                  None \<Rightarrow> None
                | Some h \<Rightarrow> Some (initIP_text t (b\<lparr>b_ui128IpHash := h\<rparr>)))))"

definition BanIp_action :: "BanItem \<Rightarrow> BanItem \<Rightarrow> walk_action" where
  "BanIp_action pBan curBan =
     (if is_set curBan TEMP then
        (if \<not> is_set curBan FULL \<or> is_set pBan FULL
         then (if \<not> is_set curBan NICK then Remove else Continue)
         else Continue)
      else if \<not> is_set curBan FULL \<and> is_set pBan FULL
      then (if \<not> is_set curBan NICK then Remove else Continue)
      else Return)"

definition BanIp :: "resolver \<Rightarrow> User option \<Rightarrow> string option \<Rightarrow> string option \<Rightarrow> string option \<Rightarrow> bool \<Rightarrow> int
    \<Rightarrow> BanManager \<Rightarrow> (BanManager \<times> nat) res" where
  "BanIp r pUser sIp sReason sBy bFull acc_time s =
     (case ban_address r pUser sIp (set_bit_of PERM new_BanItem) of
        None \<Rightarrow> Inr (s, 1)
      | Some b \<Rightarrow>
          let b1 = set_bit_of IP b; pBan = (if bFull then set_bit_of FULL b1 else b1) in
          rbind (FindIP (b_ui128IpHash pBan) acc_time s) (\<lambda>(s1, nxtBan).
          rbind (walk_ip (Suc (bm_next s1)) (BanIp_action pBan) nxtBan s1) (\<lambda>(s2, stopped).
            case stopped of
              Some _ \<Rightarrow> Inr (s2, 2)
            | None \<Rightarrow> rbind (publish sReason sBy pBan s2) (\<lambda>(s3, ok). Inr (s3, if ok then 0 else 1)))))"

text \<open>The object of a nick ban: from the user, or from a nick text; a nick that starts with \<open><\<close> is refused.\<close>

definition nick_ban_item :: "byte \<Rightarrow> User option \<Rightarrow> string option \<Rightarrow> BanItem option" where
  "nick_ban_item kind pUser sNick =
     (case pUser of
        None \<Rightarrow>
          (case sNick of
             None \<Rightarrow> None
           | Some n \<Rightarrow>
               if bad_nick n then None
               else Some (set_bit_of NICK
                      ((set_bit_of kind new_BanItem)\<lparr>b_sNick := n, b_ui32NickHash := HashNick n\<rparr>)))
      | Some u \<Rightarrow>
          if bad_nick (m_sNick u) then None
          else Some (set_bit_of NICK (initIP_user u
                 ((set_bit_of kind new_BanItem)\<lparr>b_sNick := m_sNick u, b_ui32NickHash := m_ui32NickHash u\<rparr>))))"

definition NickBan_same_nick :: "addr option \<Rightarrow> BanManager \<Rightarrow> (BanManager \<times> bool) res" where
  "NickBan_same_nick r s =
     (case r of
        None \<Rightarrow> Inr (s, True)
      | Some nxtBan \<Rightarrow>
          rbind (deref (bm_heap s) nxtBan) (\<lambda>b.
            if is_set b PERM then Inr (s, False)
            else if is_set b IP then rbind (make_ip_only nxtBan s) (\<lambda>s1. Inr (s1, True))
            else rbind (guarded_drop nxtBan s) (\<lambda>s1. Inr (s1, True))))"

definition NickBan :: "User option \<Rightarrow> string option \<Rightarrow> string option \<Rightarrow> string option \<Rightarrow> int \<Rightarrow> BanManager
    \<Rightarrow> (BanManager \<times> bool) res" where
  "NickBan pUser sNick sReason sBy acc_time s =
     (case nick_ban_item PERM pUser sNick of
        None \<Rightarrow> Inr (s, False)
      | Some pBan \<Rightarrow>
          rbind (FindNick_hash (b_ui32NickHash pBan) acc_time (b_sNick pBan) s) (\<lambda>(s1, nxtBan).
          rbind (NickBan_same_nick nxtBan s1) (\<lambda>(s2, go).
            if \<not> go then Inr (s2, False) else publish sReason sBy pBan s2)))"

section \<open>Temporary bans\<close>

definition TempBan_same_nick :: "BanItem \<Rightarrow> addr option \<Rightarrow> BanManager \<Rightarrow> (BanManager \<times> BanItem option) res" where
  "TempBan_same_nick pBan r s =
     (case r of
        None \<Rightarrow> Inr (s, Some pBan)
      | Some nxtBan \<Rightarrow>
          rbind (deref (bm_heap s) nxtBan) (\<lambda>b.
            if is_set b PERM then
              (if is_set b IP then
                 (if same_ip pBan b then
                    (if \<not> is_set pBan FULL then Inr (s, None)
                     else if is_set b FULL then Inr (s, None)
                     else Inr (s, Some (clear_bit_of NICK pBan)))
                  else Inr (s, Some pBan))
               else Inr (s, Some (clear_bit_of NICK pBan)))
            else if m_tTempBanExpire b < m_tTempBanExpire pBan then
              (if is_set b IP then
                 (if same_ip pBan b then
                    (if \<not> is_set b FULL then rbind (guarded_drop nxtBan s) (\<lambda>s1. Inr (s1, Some pBan))
                     else if \<not> is_set pBan FULL then rbind (make_ip_only nxtBan s) (\<lambda>s1. Inr (s1, Some pBan))
                     else rbind (guarded_drop nxtBan s) (\<lambda>s1. Inr (s1, Some pBan)))
                  else rbind (make_ip_only nxtBan s) (\<lambda>s1. Inr (s1, Some pBan)))
               else rbind (guarded_drop nxtBan s) (\<lambda>s1. Inr (s1, Some pBan)))
            else
              (if is_set b IP then
                 (if same_ip pBan b then
                    (if \<not> is_set pBan FULL then Inr (s, None)
                     else if \<not> is_set b FULL then Inr (s, Some (clear_bit_of NICK pBan))
                     else Inr (s, None))
                  else Inr (s, Some (clear_bit_of NICK pBan)))
               else Inr (s, Some (clear_bit_of NICK pBan)))))"

definition TempBan_clear_action :: "BanItem \<Rightarrow> BanItem \<Rightarrow> walk_action" where
  "TempBan_clear_action pBan curBan =
     (if is_set curBan PERM then Continue
      else if is_set curBan NICK then Continue
      else if is_set curBan FULL \<and> \<not> is_set pBan FULL then Continue
      else if m_tTempBanExpire curBan > m_tTempBanExpire pBan then Continue
      else Remove)"

definition TempBan :: "User \<Rightarrow> string option \<Rightarrow> string option \<Rightarrow> u32 \<Rightarrow> int \<Rightarrow> bool \<Rightarrow> 16 word \<Rightarrow> int
    \<Rightarrow> BanManager \<Rightarrow> BanManager res" where
  "TempBan pUser sReason sBy minutes expiretime bFull default_ban acc_time s =
     (let pBan0 = (start_ban TEMP pUser bFull)
            \<lparr>m_tTempBanExpire := expire_time acc_time default_ban minutes expiretime\<rparr> in
      rbind (if bad_nick (m_sNick pUser) then Inr (s, Some pBan0)
             else let pBan = with_user_nick pUser pBan0 in
               rbind (FindNick_hash (b_ui32NickHash pBan) acc_time (b_sNick pBan) s)
                 (\<lambda>(s1, nxtBan). TempBan_same_nick pBan nxtBan s1))
        (\<lambda>(s1, new). case new of
           None \<Rightarrow> Inr s1
         | Some pBan \<Rightarrow>
             rbind (FindIP (b_ui128IpHash pBan) acc_time s1) (\<lambda>(s2, nxtBan).
             rbind (walk_ip (Suc (bm_next s2)) (TempBan_clear_action pBan) nxtBan s2) (\<lambda>(s3, _).
             rbind (publish sReason sBy pBan s3) (\<lambda>(s4, _). Inr s4)))))"

definition TempBanIp_action :: "BanItem \<Rightarrow> BanItem \<Rightarrow> walk_action" where
  "TempBanIp_action pBan curBan =
     (if is_set curBan TEMP \<and> m_tTempBanExpire curBan < m_tTempBanExpire pBan then
        (if \<not> is_set curBan FULL \<or> is_set pBan FULL
         then (if \<not> is_set curBan NICK then Remove else Continue)
         else Continue)
      else if \<not> is_set curBan FULL \<and> is_set pBan FULL then Continue
      else Return)"

definition TempBanIp :: "resolver \<Rightarrow> User option \<Rightarrow> string option \<Rightarrow> string option \<Rightarrow> string option \<Rightarrow> u32 \<Rightarrow> int
    \<Rightarrow> bool \<Rightarrow> 16 word \<Rightarrow> int \<Rightarrow> BanManager \<Rightarrow> (BanManager \<times> nat) res" where
  "TempBanIp r pUser sIp sReason sBy minutes expiretime bFull default_ban acc_time s =
     (case ban_address r pUser sIp (set_bit_of TEMP new_BanItem) of
        None \<Rightarrow> Inr (s, 1)
      | Some b \<Rightarrow>
          let b1 = set_bit_of IP b; b2 = (if bFull then set_bit_of FULL b1 else b1);
              pBan = b2\<lparr>m_tTempBanExpire := expire_time acc_time default_ban minutes expiretime\<rparr> in
          rbind (FindIP (b_ui128IpHash pBan) acc_time s) (\<lambda>(s1, nxtBan).
          rbind (walk_ip (Suc (bm_next s1)) (TempBanIp_action pBan) nxtBan s1) (\<lambda>(s2, stopped).
            case stopped of
              Some _ \<Rightarrow> Inr (s2, 2)
            | None \<Rightarrow> rbind (publish sReason sBy pBan s2) (\<lambda>(s3, ok). Inr (s3, if ok then 0 else 1)))))"

definition NickTempBan_same_nick :: "BanItem \<Rightarrow> addr option \<Rightarrow> BanManager \<Rightarrow> (BanManager \<times> bool) res" where
  "NickTempBan_same_nick pBan r s =
     (case r of
        None \<Rightarrow> Inr (s, True)
      | Some nxtBan \<Rightarrow>
          rbind (deref (bm_heap s) nxtBan) (\<lambda>b.
            if is_set b PERM then Inr (s, False)
            else if m_tTempBanExpire b < m_tTempBanExpire pBan then
              (if is_set b IP then rbind (make_ip_only nxtBan s) (\<lambda>s1. Inr (s1, True))
               else rbind (guarded_drop nxtBan s) (\<lambda>s1. Inr (s1, True)))
            else Inr (s, False)))"

definition NickTempBan :: "User option \<Rightarrow> string option \<Rightarrow> string option \<Rightarrow> string option \<Rightarrow> u32 \<Rightarrow> int
    \<Rightarrow> 16 word \<Rightarrow> int \<Rightarrow> BanManager \<Rightarrow> (BanManager \<times> bool) res" where
  "NickTempBan pUser sNick sReason sBy minutes expiretime default_ban acc_time s =
     (case nick_ban_item TEMP pUser sNick of
        None \<Rightarrow> Inr (s, False)
      | Some b \<Rightarrow>
          let pBan = b\<lparr>m_tTempBanExpire := expire_time acc_time default_ban minutes expiretime\<rparr> in
          rbind (FindNick_hash (b_ui32NickHash pBan) acc_time (b_sNick pBan) s) (\<lambda>(s1, nxtBan).
          rbind (NickTempBan_same_nick pBan nxtBan s1) (\<lambda>(s2, go).
            if \<not> go then Inr (s2, False) else publish sReason sBy pBan s2)))"

section \<open>Lifting a ban\<close>

definition unban_with :: "(BanManager \<Rightarrow> (BanManager \<times> addr option) res)
    \<Rightarrow> (byte list \<Rightarrow> BanManager \<Rightarrow> (BanManager \<times> addr option) res)
    \<Rightarrow> resolver \<Rightarrow> string \<Rightarrow> BanManager \<Rightarrow> (BanManager \<times> bool) res" where
  "unban_with find_nick find_ip r sWhat s =
     rbind (find_nick s) (\<lambda>(s1, byNick).
       case byNick of
         Some a \<Rightarrow> rbind (guarded_drop a s1) (\<lambda>s2. Inr (fst (BanManager_Save False s2), True))
       | None \<Rightarrow>
           (case HashIP r sWhat of
              None \<Rightarrow> Inr (s1, False)
            | Some h \<Rightarrow>
                rbind (find_ip h s1) (\<lambda>(s2, byIp).
                  case byIp of
                    None \<Rightarrow> Inr (s2, False)
                  | Some a \<Rightarrow> rbind (guarded_drop a s2) (\<lambda>s3. Inr (fst (BanManager_Save False s3), True)))))"

definition Unban :: "resolver \<Rightarrow> string \<Rightarrow> int \<Rightarrow> BanManager \<Rightarrow> (BanManager \<times> bool) res" where
  "Unban r sWhat acc_time s =
     unban_with (FindNick_hash (HashNick sWhat) acc_time sWhat) (\<lambda>h. FindIP h acc_time) r sWhat s"

definition PermUnban :: "resolver \<Rightarrow> string \<Rightarrow> BanManager \<Rightarrow> (BanManager \<times> bool) res" where
  "PermUnban r sWhat s = unban_with (FindPermNick_hash (HashNick sWhat) sWhat) FindPermIP r sWhat s"

definition TempUnban :: "resolver \<Rightarrow> string \<Rightarrow> int \<Rightarrow> BanManager \<Rightarrow> (BanManager \<times> bool) res" where
  "TempUnban r sWhat acc_time s =
     unban_with (FindTempNick_hash (HashNick sWhat) acc_time sWhat) (\<lambda>h. FindTempIP h acc_time) r sWhat s"

end
