(* ===== verification/BanSpec.thy ===== *)
theory BanSpec
  imports BanOps
begin

text \<open>
  What the ban commands promise.  \<open>ip_banned s h full e\<close>: some ban covers the address hash \<open>h\<close> (a full
  ban if \<open>full\<close>), permanently or at least until \<open>e\<close>; \<open>nick_banned\<close> is its counterpart for nicks.  Every
  command that returns keeps the invariant and leaves its target covered; the only fault a command
  can run into is the double deletion of a ban it removes.
\<close>

definition lasts :: "int option \<Rightarrow> BanItem \<Rightarrow> bool" where
  "lasts e b \<longleftrightarrow> is_set b PERM \<or> (case e of None \<Rightarrow> False | Some t \<Rightarrow> t \<le> m_tTempBanExpire b)"

definition ip_ban :: "byte list \<Rightarrow> bool \<Rightarrow> int option \<Rightarrow> BanItem \<Rightarrow> bool" where
  "ip_ban h full e b \<longleftrightarrow> is_set b IP \<and> b_ui128IpHash b = h \<and> (full \<longrightarrow> is_set b FULL) \<and> lasts e b"

definition nick_ban :: "string \<Rightarrow> int option \<Rightarrow> BanItem \<Rightarrow> bool" where
  "nick_ban n e b \<longleftrightarrow> is_set b NICK \<and> iequals (b_sNick b) n \<and> lasts e b"

definition ban_exists :: "(BanItem \<Rightarrow> bool) \<Rightarrow> BanManager \<Rightarrow> bool" where
  "ban_exists P s \<longleftrightarrow> (\<exists>a b. bm_heap s a = Some b \<and> P b)"

definition ip_banned :: "BanManager \<Rightarrow> byte list \<Rightarrow> bool \<Rightarrow> int option \<Rightarrow> bool" where
  "ip_banned s h full e \<longleftrightarrow> ban_exists (ip_ban h full e) s"

definition nick_banned :: "BanManager \<Rightarrow> string \<Rightarrow> int option \<Rightarrow> bool" where
  "nick_banned s n e \<longleftrightarrow> ban_exists (nick_ban n e) s"

definition only_double_free :: "ub \<Rightarrow> bool" where
  "only_double_free e \<longleftrightarrow> (\<exists>a. e = DoubleFree a)"

lemma only_double_free_DF [simp]: "only_double_free (DoubleFree a)"
  by (simp add: only_double_free_def)

section \<open>Publishing a ban\<close>

text \<open>Two bans that agree in everything the lookups read.\<close>

definition same_ban :: "BanItem \<Rightarrow> BanItem \<Rightarrow> bool" where
  "same_ban b c \<longleftrightarrow> m_ui8Bits b = m_ui8Bits c \<and> b_sNick b = b_sNick c \<and> b_ui32NickHash b = b_ui32NickHash c
     \<and> b_ui128IpHash b = b_ui128IpHash c \<and> m_tTempBanExpire b = m_tTempBanExpire c"

lemma same_ban_links: "clear_ban_links b = clear_ban_links c \<Longrightarrow> same_ban b c"
  unfolding same_ban_def by (intro conjI; rule clear_ban_links_eqD)

lemma same_ban_cong:
  assumes "same_ban b c"
  shows "ip_ban h full e b = ip_ban h full e c" and "nick_ban n e b = nick_ban n e c"
  using assms by (cases e; simp add: same_ban_def ip_ban_def nick_ban_def lasts_def)+

text \<open>\<open>added s p s'\<close>: \<open>s'\<close> holds the bans of \<open>s\<close> and one like \<open>p\<close>.\<close>

definition added :: "BanManager \<Rightarrow> BanItem \<Rightarrow> BanManager \<Rightarrow> bool" where
  "added s p s' \<longleftrightarrow> ban_inv s' \<and>
     (\<exists>a p'. bm_heap s a = None \<and> same_ban p' p \<and> links_only (bm_heap s') ((bm_heap s)(a \<mapsto> p')))"

lemma added_exists:
  assumes ad: "added s p s'" and P: "P p \<or> ban_exists P s" and cong: "\<And>b c. same_ban b c \<Longrightarrow> P b = P c"
  shows "ban_exists P s'"
proof -
  from ad obtain a p' where a: "bm_heap s a = None" "same_ban p' p" "links_only (bm_heap s') ((bm_heap s)(a \<mapsto> p'))"
    unfolding added_def by blast
  have "\<exists>c b. ((bm_heap s)(a \<mapsto> p')) c = Some b \<and> P b"
  proof (cases "P p")
    case True
    then have "P p'" using cong [OF a(2)] by simp
    then show ?thesis by (intro exI [of _ a]) simp
  next
    case False
    with P obtain c b where "bm_heap s c = Some b" "P b" unfolding ban_exists_def by blast
    with a(1) show ?thesis by (intro exI [of _ c]) auto
  qed
  then obtain c b where b: "((bm_heap s)(a \<mapsto> p')) c = Some b" "P b" by blast
  from links_only_live [OF links_only_sym [OF a(3)] b(1)] obtain b' where
    b': "bm_heap s' c = Some b'" "clear_ban_links b' = clear_ban_links b" .
  from cong [OF same_ban_links [OF b'(2)]] b(2) b'(1) show ?thesis unfolding ban_exists_def by blast
qed

lemma added_ip: "added s p s' \<Longrightarrow> ip_ban h full e p \<or> ip_banned s h full e \<Longrightarrow> ip_banned s' h full e"
  unfolding ip_banned_def by (erule added_exists) (auto dest: same_ban_cong(1))

lemma added_nick: "added s p s' \<Longrightarrow> nick_ban n e p \<or> nick_banned s n e \<Longrightarrow> nick_banned s' n e"
  unfolding nick_banned_def by (erule added_exists) (auto dest: same_ban_cong(2))

lemma added_inv: "added s p s' \<Longrightarrow> ban_inv s'"
  by (simp add: added_def)

lemma ban_rel_Save [simp]: "ban_rel (fst (BanManager_Save f s)) ch = ban_rel s ch"
  by (simp add: BanManager_Save_def ban_rel_def)

lemma bm_heap_Save [simp]: "bm_heap (fst (BanManager_Save f s)) = bm_heap s"
  by (simp add: BanManager_Save_def)

definition finished :: "string option \<Rightarrow> string option \<Rightarrow> BanItem \<Rightarrow> BanItem" where
  "finished sReason sBy b = fst (AddBanInternal sBy (CreateReason sReason b))"

lemma CreateReason_fields:
  "same_ban (CreateReason r b) b \<and> b_pHashIpTablePrev (CreateReason r b) = b_pHashIpTablePrev b
   \<and> b_pHashIpTableNext (CreateReason r b) = b_pHashIpTableNext b"
  by (cases r) (simp_all add: CreateReason_def same_ban_def)

lemma AddBanInternal_fields:
  "same_ban (fst (AddBanInternal y b)) b \<and> b_pHashIpTablePrev (fst (AddBanInternal y b)) = b_pHashIpTablePrev b
   \<and> b_pHashIpTableNext (fst (AddBanInternal y b)) = b_pHashIpTableNext b \<and> snd (AddBanInternal y b)"
  by (cases y) (simp_all add: AddBanInternal_def same_ban_def)

lemma finished_same: "same_ban (finished r y b) b" "ready b \<Longrightarrow> ready (finished r y b)"
  using AddBanInternal_fields [of y "CreateReason r b"] CreateReason_fields [of r b]
  by (auto simp: finished_def same_ban_def ready_def)

lemma publish_run:
  assumes rel: "ban_rel s ch" and rdy: "ready b"
  shows "\<exists>s'. publish r y b s = Inr (s', True) \<and> added s b s'"
proof -
  let ?b = "finished r y b"
  from add_released_run [OF rel finished_same(2) [OF rdy]] obtain s1 where
    s1: "add_released ?b s = Inr (s1, True)" "ban_rel s1 (chains_with ?b (bm_next s) ch)"
      "links_only (bm_heap s1) ((bm_heap s)(bm_next s \<mapsto> ?b))" by blast
  have "AddBanInternal y (CreateReason r b) = (?b, True)"
    using AddBanInternal_fields [of y "CreateReason r b"] by (simp add: finished_def prod_eq_iff)
  then have "publish r y b s = Inr (fst (BanManager_Save False s1), True)"
    using s1(1) by (simp add: publish_def)
  moreover have "bm_heap s (bm_next s) = None" using rel unfolding ban_rel_def by blast
  ultimately show ?thesis
    using s1(2,3) finished_same(1) [of r y b] unfolding added_def ban_inv_def by auto
qed

section \<open>The end of \<open>Ban\<close> and \<open>TempBan\<close>\<close>

lemma clear_and_publish:
  assumes rel: "ban_rel s ch" and rdy: "ready p" and act: "\<And>b. act b \<noteq> Return"
  shows "safe only_double_free
    (rbind (FindIP (b_ui128IpHash p) now s) (\<lambda>(s2, nxtBan).
     rbind (walk_ip (Suc (bm_next s2)) act nxtBan s2) (\<lambda>(s3, _).
     rbind (publish r y p s3) (\<lambda>(s4, _). Inr s4)))) (added s p)"
proof (cases "FindIP (b_ui128IpHash p) now s")
  case (Inl e)
  with safe_ip_lookup [OF rel, of "b_ui128IpHash p" now 0] show ?thesis by (simp add: FindIP_def only_double_free_def)
next
  case (Inr sr)
  obtain s2 x where sr: "sr = (s2, x)" by (cases sr)
  note h = FindIP_head [OF rel Inr [unfolded sr]]
  obtain s' where pub: "publish r y p s = Inr (s', True)" "added s p s'" using publish_run [OF rel rdy] by blast
  show ?thesis
  proof (cases "first_ban (\<lambda>b. act b \<noteq> Continue) s (ch (b_ui128IpHash p))")
    case None
    then have "walk_ip (Suc (bm_next s)) act x s = Inr (s, None)"
      using walk_ip_run [OF rel, of "Suc (bm_next s)" x] h(2) by simp
    then show ?thesis using Inr sr h(1) pub by simp
  next
    case (Some a)
    then have "act (ban_at s a) = Remove"
      using first_ban_SomeD [OF Some] act [of "ban_at s a"] by (cases "act (ban_at s a)") simp_all
    then have "walk_ip (Suc (bm_next s)) act x s = Inl (DoubleFree a)"
      using walk_ip_run [OF rel, of "Suc (bm_next s)" x] h(2) Some by simp
    then show ?thesis using Inr sr h(1) by simp
  qed
qed

section \<open>Permanent bans\<close>

lemma Ban_same_nick_safe:
  assumes rel: "ban_rel s ch" and f: "FindNickBanGeneric h now nick 0 s = Inr (s', r)"
  shows "safe only_double_free (Ban_same_nick p r s) (\<lambda>(s1, new). ban_rel s1 ch \<and>
    (case new of
       None \<Rightarrow> s1 = s \<and> nick_banned s nick None \<and> ip_banned s (b_ui128IpHash p) (is_set p FULL) None
     | Some q \<Rightarrow> q = p \<or> q = clear_bit_of NICK p \<and> nick_banned s1 nick None))"
proof (cases r)
  case None
  then show ?thesis using rel by (simp add: Ban_same_nick_def)
next
  case (Some a)
  from FindNick_hit [OF rel f [unfolded Some]] obtain b where
    b: "bm_heap s a = Some b" "is_set b NICK" "iequals (b_sNick b) nick" by blast
  have nb: "nick_banned s nick None" if "is_set b PERM"
    using that b unfolding nick_banned_def ban_exists_def nick_ban_def lasts_def by blast
  have ib: "ip_banned s (b_ui128IpHash p) (is_set p FULL) None"
    if "is_set b PERM" "is_set b IP" "same_ip p b" "is_set p FULL \<longrightarrow> is_set b FULL"
    using that b(1) unfolding ip_banned_def ban_exists_def ip_ban_def lasts_def same_ip_def by metis
  from make_ip_only_run [OF rel b(1)] obtain s1 where m: "make_ip_only a s = Inr s1" "ban_rel s1 ch" by blast
  note d = guarded_drop_faults [OF rel b(1)]
  show ?thesis
    unfolding Some Ban_same_nick_def option.case deref_Some [where h = "bm_heap s", OF b(1)] rbind.simps d m(1)
    using nb ib rel m(2) by (cases "is_set p FULL"; cases "is_set b FULL"; simp split: if_split)
qed

lemma single_bits [simp]:
  "has_bits PERM PERM" "\<not> has_bits PERM TEMP" "\<not> has_bits PERM FULL" "\<not> has_bits PERM NICK"
  "has_bits TEMP TEMP" "\<not> has_bits TEMP PERM" "\<not> has_bits TEMP FULL" "\<not> has_bits TEMP NICK"
  by (simp_all add: ban_bits has_bits_def)

lemma start_ban_fields:
  "ready ((start_ban PERM u full))" "ready ((start_ban TEMP u full)\<lparr>m_tTempBanExpire := t\<rparr>)"
  "is_set (start_ban PERM u full) PERM" "\<not> is_set (start_ban TEMP u full) PERM"
  "is_set (start_ban k u full) IP" "b_ui128IpHash (start_ban k u full) = m_ui128IpHash u"
  "is_set (start_ban PERM u full) FULL = full" "is_set (start_ban TEMP u full) FULL = full"
  by (simp_all add: start_ban_def ready_def new_BanItem_def initIP_user_def Let_def)

lemma with_user_nick_fields [simp]:
  "is_set (with_user_nick u b) NICK" "is_set (with_user_nick u b) PERM = is_set b PERM"
  "is_set (with_user_nick u b) IP = is_set b IP" "is_set (with_user_nick u b) FULL = is_set b FULL"
  "b_sNick (with_user_nick u b) = m_sNick u" "b_ui32NickHash (with_user_nick u b) = m_ui32NickHash u"
  "b_ui128IpHash (with_user_nick u b) = b_ui128IpHash b" "m_tTempBanExpire (with_user_nick u b) = m_tTempBanExpire b"
  by (simp_all add: with_user_nick_def)

lemma ready_with_user_nick:
  "ready b \<Longrightarrow> m_ui32NickHash u = HashNick (m_sNick u) \<Longrightarrow> ready (with_user_nick u b)"
  by (simp add: ready_def with_user_nick_def)

lemma ready_clear_nick: "ready b \<Longrightarrow> ready (clear_bit_of NICK b)"
  by (simp add: ready_def)

lemma ip_ban_clear_nick [simp]: "ip_ban h full e (clear_bit_of NICK b) = ip_ban h full e b"
  by (cases e) (simp_all add: ip_ban_def lasts_def)

lemma safe_split:
  assumes "safe E m (\<lambda>(s1, new). R s1 new)" and "\<And>s1 new. R s1 new \<Longrightarrow> safe E (f s1 new) Q"
  shows "safe E (rbind m (\<lambda>(s1, new). f s1 new)) Q"
  using assms by (cases m) auto

lemma nick_lookup_then:
  assumes rel: "ban_rel s ch"
    and step: "\<And>r. FindNickBanGeneric h now nick 0 s = Inr (s, r) \<Longrightarrow> safe only_double_free (g s r) Q"
  shows "safe only_double_free (rbind (FindNick_hash h now nick s) (\<lambda>(s1, r). g s1 r)) Q"
proof (cases "FindNickBanGeneric h now nick 0 s")
  case (Inl e)
  with safe_nick_lookup [OF rel, of h now nick 0] show ?thesis
    by (simp add: FindNick_hash_def only_double_free_def)
next
  case (Inr sr)
  obtain s1 r where sr: "sr = (s1, r)" by (cases sr)
  with lookup_state(2) [OF rel, of h now nick 0 s1 r] Inr have "s1 = s" by simp
  with Inr sr step [of r] show ?thesis by (simp add: FindNick_hash_def)
qed

text \<open>What \<open>Ban\<close> and \<open>TempBan\<close> leave behind, and the state between their two halves.\<close>

definition covered :: "User \<Rightarrow> bool \<Rightarrow> int option \<Rightarrow> BanManager \<Rightarrow> bool" where
  "covered u full e s \<longleftrightarrow> ban_inv s \<and> ip_banned s (m_ui128IpHash u) full e
     \<and> (bad_nick (m_sNick u) \<or> nick_banned s (m_sNick u) e)"

definition half_way :: "(byte list \<Rightarrow> addr list) \<Rightarrow> User \<Rightarrow> bool \<Rightarrow> int option \<Rightarrow> BanManager \<Rightarrow> BanItem option \<Rightarrow> bool" where
  "half_way ch u full e s new \<longleftrightarrow> ban_rel s ch \<and> (case new of
      None \<Rightarrow> nick_banned s (m_sNick u) e \<and> ip_banned s (m_ui128IpHash u) full e
    | Some q \<Rightarrow> ready q \<and> ip_ban (m_ui128IpHash u) full e q
        \<and> (bad_nick (m_sNick u) \<or> nick_ban (m_sNick u) e q \<or> nick_banned s (m_sNick u) e))"

lemma second_half:
  assumes m: "safe only_double_free m (\<lambda>(s1, new). half_way ch u full e s1 new)"
    and act: "\<And>q b. act q b \<noteq> Return"
  shows "safe only_double_free (rbind m (\<lambda>(s1, new). case new of
      None \<Rightarrow> Inr s1
    | Some pBan \<Rightarrow>
        rbind (FindIP (b_ui128IpHash pBan) now s1) (\<lambda>(s2, nxtBan).
        rbind (walk_ip (Suc (bm_next s2)) (act pBan) nxtBan s2) (\<lambda>(s3, _).
        rbind (publish r y pBan s3) (\<lambda>(s4, _). Inr s4))))) (covered u full e)"
proof (rule safe_split [OF m], goal_cases)
  case (1 s1 new)
  show ?case
  proof (cases new)
    case None
    with 1 show ?thesis by (auto simp: half_way_def covered_def ban_inv_def)
  next
    case (Some q)
    with 1 have q: "ban_rel s1 ch" "ready q" "ip_ban (m_ui128IpHash u) full e q"
      "bad_nick (m_sNick u) \<or> nick_ban (m_sNick u) e q \<or> nick_banned s1 (m_sNick u) e"
      by (simp_all add: half_way_def)
    have "covered u full e s'" if "added s1 q s'" for s'
      unfolding covered_def using q(3,4) added_inv [OF that] added_ip [OF that] added_nick [OF that] by blast
    then show ?thesis
      unfolding Some option.case by (rule safe_conseq [OF clear_and_publish [OF q(1,2) act]])
  qed
qed

lemma first_half:
  assumes rel: "ban_rel s ch" and b: "ready b" "ip_ban (m_ui128IpHash u) full e b" "is_set b FULL = full"
      "lasts e (with_user_nick u b)" "b_ui128IpHash b = m_ui128IpHash u"
    and nh: "m_ui32NickHash u = HashNick (m_sNick u)"
    and same: "\<And>r. FindNickBanGeneric (m_ui32NickHash u) now (m_sNick u) 0 s = Inr (s, r) \<Longrightarrow>
      safe only_double_free (g (with_user_nick u b) r s) (\<lambda>(s1, new). ban_rel s1 ch \<and> (case new of
        None \<Rightarrow> s1 = s \<and> nick_banned s (m_sNick u) e \<and> ip_banned s (m_ui128IpHash u) full e
      | Some q \<Rightarrow> q = with_user_nick u b \<or> q = clear_bit_of NICK (with_user_nick u b) \<and> nick_banned s1 (m_sNick u) e))"
  shows "safe only_double_free (if bad_nick (m_sNick u) then Inr (s, Some b) else let pBan = with_user_nick u b in
      rbind (FindNick_hash (b_ui32NickHash pBan) now (b_sNick pBan) s) (\<lambda>(s1, nxtBan). g pBan nxtBan s1))
      (\<lambda>(s1, new). half_way ch u full e s1 new)"
proof (cases "bad_nick (m_sNick u)")
  case True
  then show ?thesis using rel b by (simp add: half_way_def)
next
  case False
  let ?p = "with_user_nick u b"
  have p: "ready ?p" "ip_ban (m_ui128IpHash u) full e ?p" "nick_ban (m_sNick u) e ?p"
    using ready_with_user_nick [OF b(1) nh] b by (simp_all add: ip_ban_def nick_ban_def)
  have "safe only_double_free (rbind (FindNick_hash (m_ui32NickHash u) now (m_sNick u) s)
      (\<lambda>(s1, nxtBan). g ?p nxtBan s1)) (\<lambda>(s1, new). half_way ch u full e s1 new)"
  proof (rule nick_lookup_then [OF rel], rule safe_conseq [OF same])
    fix x
    assume "case x of (s1, new) \<Rightarrow> ban_rel s1 ch \<and> (case new of
        None \<Rightarrow> s1 = s \<and> nick_banned s (m_sNick u) e \<and> ip_banned s (m_ui128IpHash u) full e
      | Some q \<Rightarrow> q = ?p \<or> q = clear_bit_of NICK ?p \<and> nick_banned s1 (m_sNick u) e)"
    then show "case x of (s1, new) \<Rightarrow> half_way ch u full e s1 new"
      using p ready_clear_nick [OF p(1)] by (cases x; cases "snd x") (auto simp: half_way_def)
  qed
  then show ?thesis using False by (simp add: Let_def)
qed

lemma Ban_safe:
  assumes "ban_inv s" and "m_ui32NickHash u = HashNick (m_sNick u)"
  shows "safe only_double_free (Ban u sReason sBy bFull now s) (covered u bFull None)"
proof -
  from assms(1) obtain ch where rel: "ban_rel s ch" by (auto simp: ban_inv_def)
  note same = Ban_same_nick_safe [OF rel, where p = "with_user_nick u (start_ban PERM u bFull)",
      unfolded with_user_nick_fields start_ban_fields]
  have "safe only_double_free (if bad_nick (m_sNick u) then Inr (s, Some (start_ban PERM u bFull))
      else let pBan = with_user_nick u (start_ban PERM u bFull) in
      rbind (FindNick_hash (b_ui32NickHash pBan) now (b_sNick pBan) s) (\<lambda>(s1, nxtBan). Ban_same_nick pBan nxtBan s1))
      (\<lambda>(s1, new). half_way ch u bFull None s1 new)"
    by (rule first_half [OF rel _ _ _ _ _ assms(2)])
      ((drule same, assumption) | simp add: start_ban_fields ip_ban_def lasts_def)+
  then show ?thesis unfolding Ban_def by (rule second_half) (simp add: Ban_clear_action_def)
qed

text \<open>
  C24.  \<open>Ban\<close> on a consistent manager can only run into the double deletion of a ban it replaces; when
  it returns, the manager is consistent, a permanent ban covers the user's address (a full one if asked
  for), and unless the nick is the placeholder of an unknown user a permanent ban covers the nick.
\<close>

theorem Ban_covers:
  assumes "ban_inv s" and "m_ui32NickHash u = HashNick (m_sNick u)"
  shows "safe only_double_free (Ban u sReason sBy bFull now s) (covered u bFull None)"
  by (rule Ban_safe [OF assms])

theorem Ban_covers_witness:
  "\<exists>s'. Ban demo_bob (Some ''spam'') None True 5 new_BanManager = Inr s' \<and> covered demo_bob True None s'"
proof -
  have "\<not> isl (Ban demo_bob (Some ''spam'') None True 5 new_BanManager)" by code_simp
  moreover have "m_ui32NickHash demo_bob = HashNick (m_sNick demo_bob)" by simp
  ultimately show ?thesis
    using Ban_covers [OF ban_inv_new, of demo_bob "Some ''spam''" None True 5]
    by (cases "Ban demo_bob (Some ''spam'') None True 5 new_BanManager") simp_all
qed

section \<open>Temporary bans\<close>

lemma TempBan_same_nick_safe:
  assumes rel: "ban_rel s ch" and f: "FindNickBanGeneric h now nick 0 s = Inr (s', r)"
  shows "safe only_double_free (TempBan_same_nick p r s) (\<lambda>(s1, new). ban_rel s1 ch \<and>
    (let e = Some (m_tTempBanExpire p) in case new of
       None \<Rightarrow> s1 = s \<and> nick_banned s nick e \<and> ip_banned s (b_ui128IpHash p) (is_set p FULL) e
     | Some q \<Rightarrow> q = p \<or> q = clear_bit_of NICK p \<and> nick_banned s1 nick e))"
proof (cases r)
  case None
  then show ?thesis using rel by (simp add: TempBan_same_nick_def)
next
  case (Some a)
  let ?e = "Some (m_tTempBanExpire p)"
  from FindNick_hit [OF rel f [unfolded Some]] obtain b where
    b: "bm_heap s a = Some b" "is_set b NICK" "iequals (b_sNick b) nick" by blast
  have nb: "nick_banned s nick ?e" if "is_set b PERM \<or> \<not> m_tTempBanExpire b < m_tTempBanExpire p"
    unfolding nick_banned_def ban_exists_def nick_ban_def lasts_def
    using that b by (intro exI [of _ a] exI [of _ b]) auto
  have ib: "ip_banned s (b_ui128IpHash p) (is_set p FULL) ?e"
    if "is_set b PERM \<or> \<not> m_tTempBanExpire b < m_tTempBanExpire p" "is_set b IP" "same_ip p b"
      "is_set p FULL \<longrightarrow> is_set b FULL"
    unfolding ip_banned_def ban_exists_def ip_ban_def lasts_def
    using that b(1) by (intro exI [of _ a] exI [of _ b]) (auto simp: same_ip_def)
  from make_ip_only_run [OF rel b(1)] obtain s1 where m: "make_ip_only a s = Inr s1" "ban_rel s1 ch" by blast
  note d = guarded_drop_faults [OF rel b(1)]
  show ?thesis
    unfolding Some TempBan_same_nick_def option.case deref_Some [where h = "bm_heap s", OF b(1)] rbind.simps d m(1)
    using nb ib rel m(2) by (cases "is_set p FULL"; cases "is_set b FULL"; simp add: Let_def split: if_split)
qed

lemma TempBan_safe:
  assumes "ban_inv s" and "m_ui32NickHash u = HashNick (m_sNick u)"
  shows "safe only_double_free (TempBan u sReason sBy minutes expiretime bFull default_ban now s)
    (covered u bFull (Some (expire_time now default_ban minutes expiretime)))"
proof -
  from assms(1) obtain ch where rel: "ban_rel s ch" by (auto simp: ban_inv_def)
  let ?t = "expire_time now default_ban minutes expiretime"
  let ?b = "(start_ban TEMP u bFull)\<lparr>m_tTempBanExpire := ?t\<rparr>"
  have fld: "b_ui128IpHash ?b = m_ui128IpHash u" "m_tTempBanExpire ?b = ?t" "is_set ?b FULL = bFull"
    by (simp_all add: start_ban_fields)
  note same = TempBan_same_nick_safe [OF rel, where p = "with_user_nick u ?b",
      unfolded with_user_nick_fields fld Let_def]
  have "safe only_double_free (if bad_nick (m_sNick u) then Inr (s, Some ?b)
      else let pBan = with_user_nick u ?b in
      rbind (FindNick_hash (b_ui32NickHash pBan) now (b_sNick pBan) s) (\<lambda>(s1, nxtBan). TempBan_same_nick pBan nxtBan s1))
      (\<lambda>(s1, new). half_way ch u bFull (Some ?t) s1 new)"
    by (rule first_half [OF rel _ _ _ _ _ assms(2)])
      ((drule same, assumption) | simp add: start_ban_fields ip_ban_def lasts_def)+
  then show ?thesis
    unfolding TempBan_def Let_def [of ?b] by (rule second_half) (simp add: TempBan_clear_action_def)
qed

text \<open>
  C12.  The same of \<open>TempBan\<close>, the cover lasting at least until the computed expiry.
\<close>

theorem TempBan_covers:
  assumes "ban_inv s" and "m_ui32NickHash u = HashNick (m_sNick u)"
  shows "safe only_double_free (TempBan u sReason sBy minutes expiretime bFull default_ban now s)
    (covered u bFull (Some (expire_time now default_ban minutes expiretime)))"
  by (rule TempBan_safe [OF assms])

theorem TempBan_covers_witness:
  "\<exists>s'. TempBan demo_bob (Some ''spam'') None 10 0 True 20 5 new_BanManager = Inr s'
     \<and> covered demo_bob True (Some (expire_time 5 20 10 0)) s'"
proof -
  have "\<not> isl (TempBan demo_bob (Some ''spam'') None 10 0 True 20 5 new_BanManager)" by code_simp
  moreover have "m_ui32NickHash demo_bob = HashNick (m_sNick demo_bob)" by simp
  ultimately show ?thesis
    using TempBan_covers [OF ban_inv_new, of demo_bob "Some ''spam''" None 10 0 True 20 5]
    by (cases "TempBan demo_bob (Some ''spam'') None 10 0 True 20 5 new_BanManager") simp_all
qed

section \<open>Address bans\<close>

text \<open>The address a command is about: the user's, or the one the text stands for.\<close>

definition target_hash :: "resolver \<Rightarrow> User option \<Rightarrow> string option \<Rightarrow> byte list option" where
  "target_hash r pUser sIp = (case pUser of Some u \<Rightarrow> Some (m_ui128IpHash u) | None \<Rightarrow> Option.bind sIp (HashIP r))"

lemma ban_address_None: "ban_address r pUser sIp b = None \<longleftrightarrow> target_hash r pUser sIp = None"
  by (simp add: ban_address_def target_hash_def split: option.splits)

lemma ban_address_fields:
  assumes "ban_address r pUser sIp b = Some c"
  shows "target_hash r pUser sIp = Some (b_ui128IpHash c)" and "m_ui8Bits c = m_ui8Bits b"
    and "b_pHashIpTablePrev c = b_pHashIpTablePrev b" and "b_pHashIpTableNext c = b_pHashIpTableNext b"
  using assms by (auto simp: ban_address_def target_hash_def initIP_user_def initIP_text_def split: option.splits)

text \<open>The walk that may stop at a ban, and the two ways to go on from it.\<close>

lemma stop_or_publish:
  assumes rel: "ban_rel s ch" and rdy: "ready p"
    and stop: "\<And>b. act b = Return \<Longrightarrow> is_set b IP \<Longrightarrow> b_ui128IpHash b = b_ui128IpHash p \<Longrightarrow>
      (is_set b PERM \<longleftrightarrow> \<not> is_set b TEMP) \<Longrightarrow> ip_ban (b_ui128IpHash p) full e b"
    and self: "ip_ban (b_ui128IpHash p) full e p"
  shows "safe only_double_free
    (rbind (FindIP (b_ui128IpHash p) now s) (\<lambda>(s1, nxtBan).
     rbind (walk_ip (Suc (bm_next s1)) act nxtBan s1) (\<lambda>(s2, stopped).
       case stopped of
         Some _ \<Rightarrow> Inr (s2, 2)
       | None \<Rightarrow> rbind (publish r y p s2) (\<lambda>(s3, ok). Inr (s3, if ok then 0 else 1)))))
    (\<lambda>(s', code :: nat). ban_inv s' \<and> (code = 0 \<or> code = 2) \<and> ip_banned s' (b_ui128IpHash p) full e)"
proof (cases "FindIP (b_ui128IpHash p) now s")
  case (Inl e)
  with safe_ip_lookup [OF rel, of "b_ui128IpHash p" now 0] show ?thesis by (simp add: FindIP_def only_double_free_def)
next
  case (Inr sr)
  obtain s2 x where sr: "sr = (s2, x)" by (cases sr)
  note h = FindIP_head [OF rel Inr [unfolded sr]]
  obtain s' where pub: "publish r y p s = Inr (s', True)" "added s p s'" using publish_run [OF rel rdy] by blast
  have fin: "ban_inv s'" "ip_banned s' (b_ui128IpHash p) full e"
    using added_inv [OF pub(2)] added_ip [OF pub(2)] self by blast+
  let ?f = "first_ban (\<lambda>b. act b \<noteq> Continue) s (ch (b_ui128IpHash p))"
  have w: "walk_ip (Suc (bm_next s)) act x s = (case ?f of
      Some a \<Rightarrow> if act (ban_at s a) = Remove then Inl (DoubleFree a) else Inr (s, Some a)
    | None \<Rightarrow> Inr (s, None))"
    by (rule walk_ip_run [OF rel _ h(2)]) simp
  show ?thesis
  proof (cases ?f)
    case None
    then show ?thesis using w Inr sr h(1) pub(1) fin by (simp del: walk_ip.simps)
  next
    case (Some a)
    from first_ban_SomeD [OF Some] have a: "a \<in> set (ch (b_ui128IpHash p))" "act (ban_at s a) \<noteq> Continue" by auto
    have ip: "ip_chains (bm_heap s) (m_IpBanTable s) ch" and own: "own_lists (bm_heap s) (m_TempBanList s) (m_PermBanList s)"
      using rel by (simp_all add: ban_rel_def)
    from a(1) ip_chainsD(3) [OF ip] obtain b where
      b: "bm_heap s a = Some b" "is_set b IP" "b_ui128IpHash b = b_ui128IpHash p" by blast
    show ?thesis
    proof (cases "act b = Remove")
      case True
      then show ?thesis using Some w b(1) Inr sr h(1) by (simp del: walk_ip.simps)
    next
      case False
      with a(2) b(1) have ret: "act b = Return" by (cases "act b") simp_all
      have "is_set b PERM \<longleftrightarrow> \<not> is_set b TEMP" using own b(1) unfolding own_lists_def by blast
      from stop [OF ret b(2,3) this] b(1) have "ip_banned s (b_ui128IpHash p) full e"
        unfolding ip_banned_def ban_exists_def by blast
      then show ?thesis using Some w b(1) ret Inr sr h(1) ban_invI [OF rel] by (simp del: walk_ip.simps)
    qed
  qed
qed

lemma BanIp_safe:
  assumes "ban_inv s"
  shows "case target_hash r pUser sIp of
      None \<Rightarrow> BanIp r pUser sIp sReason sBy bFull now s = Inr (s, 1)
    | Some h \<Rightarrow> safe only_double_free (BanIp r pUser sIp sReason sBy bFull now s)
        (\<lambda>(s', code). ban_inv s' \<and> (code = 0 \<or> code = 2) \<and> ip_banned s' h bFull None)"
proof (cases "ban_address r pUser sIp (set_bit_of PERM new_BanItem)")
  case None
  then have "target_hash r pUser sIp = None" using ban_address_None by blast
  with None show ?thesis by (simp add: BanIp_def)
next
  case (Some b)
  from assms obtain ch where rel: "ban_rel s ch" by (auto simp: ban_inv_def)
  note f = ban_address_fields [OF Some]
  let ?b1 = "set_bit_of IP b"
  define p where "p = (if bFull then set_bit_of FULL ?b1 else ?b1)"
  have p: "ready p" "b_ui128IpHash p = b_ui128IpHash b" "is_set p FULL = bFull" "is_set p IP" "is_set p PERM"
    by (cases bFull; simp add: p_def f ready_def new_BanItem_def)+
  have "safe only_double_free
    (rbind (FindIP (b_ui128IpHash p) now s) (\<lambda>(s1, nxtBan).
     rbind (walk_ip (Suc (bm_next s1)) (BanIp_action p) nxtBan s1) (\<lambda>(s2, stopped).
       case stopped of
         Some _ \<Rightarrow> Inr (s2, 2)
       | None \<Rightarrow> rbind (publish sReason sBy p s2) (\<lambda>(s3, ok). Inr (s3, if ok then 0 else 1)))))
    (\<lambda>(s', code :: nat). ban_inv s' \<and> (code = 0 \<or> code = 2) \<and> ip_banned s' (b_ui128IpHash p) bFull None)"
    by (rule stop_or_publish [OF rel p(1)])
      (use p in \<open>auto simp: BanIp_action_def ip_ban_def lasts_def split: if_splits\<close>)
  then show ?thesis
    unfolding BanIp_def Some option.case f(1) Let_def p_def [symmetric] p(2) .
qed

text \<open>
  \<open>BanIp\<close> answers 1 exactly when it has neither a user nor a text that stands for an address, and
  then changes nothing; otherwise it answers 0 or 2 and a permanent ban (a full one if asked for) covers the
  address, or a ban it replaces is deleted twice.
\<close>

theorem BanIp_covers:
  assumes "ban_inv s"
  shows "case target_hash r pUser sIp of
      None \<Rightarrow> BanIp r pUser sIp sReason sBy bFull now s = Inr (s, 1)
    | Some h \<Rightarrow> safe only_double_free (BanIp r pUser sIp sReason sBy bFull now s)
        (\<lambda>(s', code). ban_inv s' \<and> (code = 0 \<or> code = 2) \<and> ip_banned s' h bFull None)"
  by (rule BanIp_safe [OF assms])

theorem BanIp_covers_witness:
  "\<exists>s' c. BanIp example_resolver (Some demo_bob) None None None True 5 demo_bans = Inr (s', c)
     \<and> ip_banned s' demo_hash True None"
proof -
  have "\<not> isl (BanIp example_resolver (Some demo_bob) None None None True 5 demo_bans)" by code_simp
  moreover have "target_hash example_resolver (Some demo_bob) None = Some demo_hash" by (simp add: target_hash_def)
  ultimately show ?thesis
    using BanIp_covers [OF ban_inv_demo, of example_resolver "Some demo_bob" None None None True 5]
    by (cases "BanIp example_resolver (Some demo_bob) None None None True 5 demo_bans") auto
qed

lemma TempBanIp_safe:
  assumes "ban_inv s"
  shows "case target_hash r pUser sIp of
      None \<Rightarrow> TempBanIp r pUser sIp sReason sBy minutes expiretime bFull default_ban now s = Inr (s, 1)
    | Some h \<Rightarrow> safe only_double_free (TempBanIp r pUser sIp sReason sBy minutes expiretime bFull default_ban now s)
        (\<lambda>(s', code). ban_inv s' \<and> (code = 0 \<or> code = 2)
           \<and> ip_banned s' h bFull (Some (expire_time now default_ban minutes expiretime)))"
proof (cases "ban_address r pUser sIp (set_bit_of TEMP new_BanItem)")
  case None
  then have "target_hash r pUser sIp = None" using ban_address_None by blast
  with None show ?thesis by (simp add: TempBanIp_def)
next
  case (Some b)
  from assms obtain ch where rel: "ban_rel s ch" by (auto simp: ban_inv_def)
  note f = ban_address_fields [OF Some]
  let ?b1 = "set_bit_of IP b" and ?t = "expire_time now default_ban minutes expiretime"
  define p where "p = (if bFull then set_bit_of FULL ?b1 else ?b1)\<lparr>m_tTempBanExpire := ?t\<rparr>"
  have p: "ready p" "b_ui128IpHash p = b_ui128IpHash b" "is_set p FULL = bFull" "is_set p IP" "m_tTempBanExpire p = ?t"
    by (cases bFull; simp add: p_def f ready_def new_BanItem_def)+
  have "safe only_double_free
    (rbind (FindIP (b_ui128IpHash p) now s) (\<lambda>(s1, nxtBan).
     rbind (walk_ip (Suc (bm_next s1)) (TempBanIp_action p) nxtBan s1) (\<lambda>(s2, stopped).
       case stopped of
         Some _ \<Rightarrow> Inr (s2, 2)
       | None \<Rightarrow> rbind (publish sReason sBy p s2) (\<lambda>(s3, ok). Inr (s3, if ok then 0 else 1)))))
    (\<lambda>(s', code :: nat). ban_inv s' \<and> (code = 0 \<or> code = 2) \<and> ip_banned s' (b_ui128IpHash p) bFull (Some ?t))"
    by (rule stop_or_publish [OF rel p(1)])
      (use p in \<open>auto simp: TempBanIp_action_def ip_ban_def lasts_def split: if_splits\<close>)
  then show ?thesis
    unfolding TempBanIp_def Some option.case f(1) Let_def p_def [symmetric] p(2) .
qed

text \<open>
  The same of \<open>TempBanIp\<close>: after 0 or 2 the address is covered at least until the computed expiry.
\<close>

theorem TempBanIp_covers:
  assumes "ban_inv s"
  shows "case target_hash r pUser sIp of
      None \<Rightarrow> TempBanIp r pUser sIp sReason sBy minutes expiretime bFull default_ban now s = Inr (s, 1)
    | Some h \<Rightarrow> safe only_double_free (TempBanIp r pUser sIp sReason sBy minutes expiretime bFull default_ban now s)
        (\<lambda>(s', code). ban_inv s' \<and> (code = 0 \<or> code = 2)
           \<and> ip_banned s' h bFull (Some (expire_time now default_ban minutes expiretime)))"
  by (rule TempBanIp_safe [OF assms])

theorem TempBanIp_covers_witness:
  "\<exists>s' c. TempBanIp example_resolver (Some demo_bob) None None None 10 0 False 20 5 new_BanManager = Inr (s', c)
     \<and> ip_banned s' demo_hash False (Some (expire_time 5 20 10 0))"
proof -
  have "\<not> isl (TempBanIp example_resolver (Some demo_bob) None None None 10 0 False 20 5 new_BanManager)" by code_simp
  moreover have "target_hash example_resolver (Some demo_bob) None = Some demo_hash" by (simp add: target_hash_def)
  ultimately show ?thesis
    using TempBanIp_covers [OF ban_inv_new, of example_resolver "Some demo_bob" None None None 10 0 False 20 5]
    by (cases "TempBanIp example_resolver (Some demo_bob) None None None 10 0 False 20 5 new_BanManager") auto
qed

section \<open>Nick bans\<close>

text \<open>The nick a command is about; the placeholder of an unknown user is refused.\<close>

definition target_nick :: "User option \<Rightarrow> string option \<Rightarrow> string option" where
  "target_nick pUser sNick =
     Option.bind (case pUser of Some u \<Rightarrow> Some (m_sNick u) | None \<Rightarrow> sNick) (\<lambda>n. if bad_nick n then None else Some n)"

definition hash_ok :: "User option \<Rightarrow> bool" where
  "hash_ok pUser = (case pUser of None \<Rightarrow> True | Some u \<Rightarrow> m_ui32NickHash u = HashNick (m_sNick u))"

lemma nick_ban_item_None: "nick_ban_item k pUser sNick = None \<longleftrightarrow> target_nick pUser sNick = None"
  by (simp add: nick_ban_item_def target_nick_def split: option.splits)

lemma nick_ban_item_fields:
  assumes "nick_ban_item k pUser sNick = Some p" and "hash_ok pUser"
  shows "target_nick pUser sNick = Some (b_sNick p)" and "m_ui8Bits p = k OR NICK"
    and "b_ui32NickHash p = HashNick (b_sNick p)"
    and "b_pHashIpTablePrev p = None" and "b_pHashIpTableNext p = None"
  using assms by (auto simp: nick_ban_item_def target_nick_def hash_ok_def initIP_user_def new_BanItem_def
      split: option.splits if_splits)

lemma lookup_then_publish:
  assumes rel: "ban_rel s ch" and p: "ready p" "nick_ban (b_sNick p) e p"
    and same: "\<And>r. FindNickBanGeneric (b_ui32NickHash p) now (b_sNick p) 0 s = Inr (s, r) \<Longrightarrow>
      safe only_double_free (g r s) (\<lambda>(s1, go). ban_rel s1 ch
        \<and> (go \<or> s1 = s \<and> nick_banned s (b_sNick p) e))"
  shows "safe only_double_free
    (rbind (FindNick_hash (b_ui32NickHash p) now (b_sNick p) s) (\<lambda>(s1, nxtBan).
     rbind (g nxtBan s1) (\<lambda>(s2, go). if \<not> go then Inr (s2, False) else publish r y p s2)))
    (\<lambda>(s', ok). ban_inv s' \<and> nick_banned s' (b_sNick p) e \<and> (ok \<or> s' = s))"
proof (rule nick_lookup_then [OF rel], rule safe_split [OF same], assumption, goal_cases)
  case (1 x s1 go)
  then have s1: "ban_rel s1 ch" by simp
  show ?case
  proof (cases go)
    case True
    obtain s' where pub: "publish r y p s1 = Inr (s', True)" "added s1 p s'" using publish_run [OF s1 p(1)] by blast
    have "ban_inv s'" "nick_banned s' (b_sNick p) e"
      using added_inv [OF pub(2)] added_nick [OF pub(2)] p(2) by blast+
    with True show ?thesis by (simp add: pub(1))
  next
    case False
    with 1 s1 show ?thesis by (auto simp: ban_inv_def)
  qed
qed

lemma NickTempBan_same_nick_safe:
  assumes rel: "ban_rel s ch" and f: "FindNickBanGeneric h now nick 0 s = Inr (s', r)"
  shows "safe only_double_free (NickTempBan_same_nick p r s) (\<lambda>(s1, go). ban_rel s1 ch
      \<and> (go \<or> s1 = s \<and> nick_banned s nick (Some (m_tTempBanExpire p))))"
    and "safe only_double_free (NickBan_same_nick r s) (\<lambda>(s1, go). ban_rel s1 ch
      \<and> (go \<or> s1 = s \<and> nick_banned s nick None))"
proof -
  have "safe only_double_free (NickTempBan_same_nick p r s) (\<lambda>(s1, go). ban_rel s1 ch
      \<and> (go \<or> s1 = s \<and> nick_banned s nick (Some (m_tTempBanExpire p))))
    \<and> safe only_double_free (NickBan_same_nick r s) (\<lambda>(s1, go). ban_rel s1 ch
      \<and> (go \<or> s1 = s \<and> nick_banned s nick None))" (is "?A \<and> ?B")
  proof (cases r)
    case None
    then show ?thesis using rel by (simp_all add: NickTempBan_same_nick_def NickBan_same_nick_def)
  next
    case (Some a)
    from FindNick_hit [OF rel f [unfolded Some]] obtain b where
      b: "bm_heap s a = Some b" "is_set b NICK" "iequals (b_sNick b) nick" by blast
    have nb: "nick_banned s nick e" if "is_set b PERM" for e
      unfolding nick_banned_def ban_exists_def nick_ban_def lasts_def
      using that b by (intro exI [of _ a] exI [of _ b]) simp
    have nt: "nick_banned s nick (Some (m_tTempBanExpire p))" if "\<not> m_tTempBanExpire b < m_tTempBanExpire p"
      unfolding nick_banned_def ban_exists_def nick_ban_def lasts_def
      using that b by (intro exI [of _ a] exI [of _ b]) simp
    from make_ip_only_run [OF rel b(1)] obtain s1 where m: "make_ip_only a s = Inr s1" "ban_rel s1 ch" by blast
    note d = guarded_drop_faults [OF rel b(1)]
    have ?A
      unfolding Some NickTempBan_same_nick_def option.case deref_Some [where h = "bm_heap s", OF b(1)] rbind.simps d m(1)
      using nb nt rel m(2) by (simp split: if_split)
    moreover have ?B
      unfolding Some NickBan_same_nick_def option.case deref_Some [where h = "bm_heap s", OF b(1)] rbind.simps d m(1)
      using nb rel m(2) by (simp split: if_split)
    ultimately show ?thesis ..
  qed
  then show ?A and ?B by blast+
qed

lemma NickBan_safe:
  assumes "ban_inv s" and "hash_ok pUser"
  shows "case target_nick pUser sNick of
      None \<Rightarrow> NickBan pUser sNick sReason sBy now s = Inr (s, False)
    | Some n \<Rightarrow> safe only_double_free (NickBan pUser sNick sReason sBy now s)
        (\<lambda>(s', ok). ban_inv s' \<and> nick_banned s' n None \<and> (ok \<or> s' = s))"
proof (cases "nick_ban_item PERM pUser sNick")
  case None
  then have "target_nick pUser sNick = None" using nick_ban_item_None by blast
  with None show ?thesis by (simp add: NickBan_def)
next
  case (Some p)
  from assms obtain ch where rel: "ban_rel s ch" by (auto simp: ban_inv_def)
  note f = nick_ban_item_fields [OF Some assms(2)]
  have "safe only_double_free
    (rbind (FindNick_hash (b_ui32NickHash p) now (b_sNick p) s) (\<lambda>(s1, nxtBan).
     rbind (NickBan_same_nick nxtBan s1) (\<lambda>(s2, go). if \<not> go then Inr (s2, False) else publish sReason sBy p s2)))
    (\<lambda>(s', ok). ban_inv s' \<and> nick_banned s' (b_sNick p) None \<and> (ok \<or> s' = s))"
  proof (rule lookup_then_publish [OF rel])
    show "ready p" "nick_ban (b_sNick p) None p" using f by (simp_all add: ready_def nick_ban_def lasts_def)
  qed (erule NickTempBan_same_nick_safe(2) [OF rel])
  then show ?thesis unfolding NickBan_def Some option.case f(1) .
qed

text \<open>
  \<open>NickBan\<close> without a usable nick refuses and changes nothing; otherwise the nick is banned for good
  when it returns, and it answers false only without a change.
\<close>

theorem NickBan_covers:
  assumes "ban_inv s" and "hash_ok pUser"
  shows "case target_nick pUser sNick of
      None \<Rightarrow> NickBan pUser sNick sReason sBy now s = Inr (s, False)
    | Some n \<Rightarrow> safe only_double_free (NickBan pUser sNick sReason sBy now s)
        (\<lambda>(s', ok). ban_inv s' \<and> nick_banned s' n None \<and> (ok \<or> s' = s))"
  by (rule NickBan_safe [OF assms])

theorem NickBan_covers_witness:
  "\<exists>s' ok. NickBan None (Some ''eve'') None None 5 demo_bans = Inr (s', ok) \<and> nick_banned s' ''eve'' None"
proof -
  have "\<not> isl (NickBan None (Some ''eve'') None None 5 demo_bans)" by code_simp
  moreover have "target_nick None (Some ''eve'') = Some ''eve''" by (simp add: target_nick_def bad_nick_def cget_def)
  ultimately show ?thesis
    using NickBan_covers [OF ban_inv_demo, of None "Some ''eve''" None None 5]
    by (cases "NickBan None (Some ''eve'') None None 5 demo_bans") (auto simp: hash_ok_def)
qed

lemma NickTempBan_safe:
  assumes "ban_inv s" and "hash_ok pUser"
  shows "case target_nick pUser sNick of
      None \<Rightarrow> NickTempBan pUser sNick sReason sBy minutes expiretime default_ban now s = Inr (s, False)
    | Some n \<Rightarrow> safe only_double_free (NickTempBan pUser sNick sReason sBy minutes expiretime default_ban now s)
        (\<lambda>(s', ok). ban_inv s' \<and> nick_banned s' n (Some (expire_time now default_ban minutes expiretime))
           \<and> (ok \<or> s' = s))"
proof (cases "nick_ban_item TEMP pUser sNick")
  case None
  then have "target_nick pUser sNick = None" using nick_ban_item_None by blast
  with None show ?thesis by (simp add: NickTempBan_def)
next
  case (Some b)
  from assms obtain ch where rel: "ban_rel s ch" by (auto simp: ban_inv_def)
  note f = nick_ban_item_fields [OF Some assms(2)]
  let ?t = "expire_time now default_ban minutes expiretime"
  let ?p = "b\<lparr>m_tTempBanExpire := ?t\<rparr>"
  have n: "b_sNick ?p = b_sNick b" and t: "m_tTempBanExpire ?p = ?t" by simp_all
  have "safe only_double_free
    (rbind (FindNick_hash (b_ui32NickHash ?p) now (b_sNick ?p) s) (\<lambda>(s1, nxtBan).
     rbind (NickTempBan_same_nick ?p nxtBan s1) (\<lambda>(s2, go). if \<not> go then Inr (s2, False) else publish sReason sBy ?p s2)))
    (\<lambda>(s', ok). ban_inv s' \<and> nick_banned s' (b_sNick ?p) (Some ?t) \<and> (ok \<or> s' = s))"
  proof (rule lookup_then_publish [OF rel])
    show "ready ?p" "nick_ban (b_sNick ?p) (Some ?t) ?p" using f by (simp_all add: ready_def nick_ban_def lasts_def)
  qed (erule NickTempBan_same_nick_safe(1) [OF rel, where p = ?p, unfolded t])
  then show ?thesis unfolding NickTempBan_def Some option.case f(1) Let_def n .
qed

text \<open>
  The same of \<open>NickTempBan\<close>, until the computed expiry at least.
\<close>

theorem NickTempBan_covers:
  assumes "ban_inv s" and "hash_ok pUser"
  shows "case target_nick pUser sNick of
      None \<Rightarrow> NickTempBan pUser sNick sReason sBy minutes expiretime default_ban now s = Inr (s, False)
    | Some n \<Rightarrow> safe only_double_free (NickTempBan pUser sNick sReason sBy minutes expiretime default_ban now s)
        (\<lambda>(s', ok). ban_inv s' \<and> nick_banned s' n (Some (expire_time now default_ban minutes expiretime))
           \<and> (ok \<or> s' = s))"
  by (rule NickTempBan_safe [OF assms])

theorem NickTempBan_covers_witness:
  "\<exists>s' ok. NickTempBan (Some demo_bob) None None None 10 0 20 5 demo_bans = Inr (s', ok)
     \<and> nick_banned s' ''bob'' (Some (expire_time 5 20 10 0))"
proof -
  have "\<not> isl (NickTempBan (Some demo_bob) None None None 10 0 20 5 demo_bans)" by code_simp
  moreover have "target_nick (Some demo_bob) None = Some ''bob''" by (simp add: target_nick_def bad_nick_def cget_def)
  ultimately show ?thesis
    using NickTempBan_covers [OF ban_inv_demo, of "Some demo_bob" None None None 10 0 20 5]
    by (cases "NickTempBan (Some demo_bob) None None None 10 0 20 5 demo_bans") (auto simp: hash_ok_def)
qed

end
