(* ===== verification/BanRange.thy ===== *)
theory BanRange
  imports BanOps
begin

text \<open>
  Range bans of \<open>core/hashBanManager\<close>: a list owning the range objects, looked up by \<open>memcmp\<close> of the
  16-byte address hashes.  Erasing a list node deletes the object once, so these operations cannot
  fault.  The list holds each object with its address.
\<close>

section \<open>Byte order\<close>

fun memcmp :: "byte list \<Rightarrow> byte list \<Rightarrow> int" where
  "memcmp (x # xs) (y # ys) = (if x < y then -1 else if y < x then 1 else memcmp xs ys)"
| "memcmp _ _ = 0"

fun be_val :: "byte list \<Rightarrow> nat" where
  "be_val [] = 0"
| "be_val (b # bs) = unat b * 256 ^ length bs + be_val bs"

lemma unat_byte_less: "unat (b :: byte) < 256"
  using unsigned_less [of b] by simp

lemma be_val_less: "be_val bs < 256 ^ length bs"
proof (induction bs)
  case (Cons b bs)
  have "unat b * 256 ^ length bs + be_val bs < (unat b + 1) * 256 ^ length bs" using Cons by simp
  also have "\<dots> \<le> 256 * 256 ^ length bs" using unat_byte_less [of b] by (intro mult_right_mono) simp_all
  finally show ?case by simp
qed simp

lemma be_val_mono: "unat x < unat y \<Longrightarrow> length xs = length ys \<Longrightarrow> be_val (x # xs) < be_val (y # ys)"
proof -
  assume l: "unat x < unat y" "length xs = length ys"
  have "be_val (x # xs) < (unat x + 1) * 256 ^ length ys" using be_val_less [of xs] l(2) by simp
  also have "\<dots> \<le> unat y * 256 ^ length ys" using l(1) by (intro mult_right_mono) simp_all
  finally show ?thesis by simp
qed

text \<open>On hashes of one length \<open>memcmp\<close> compares the numbers they write in base 256.\<close>

lemma memcmp_be_val:
  "length a = length b \<Longrightarrow> (memcmp a b < 0 \<longleftrightarrow> be_val a < be_val b) \<and> (memcmp a b = 0 \<longleftrightarrow> a = b)
     \<and> (memcmp a b > 0 \<longleftrightarrow> be_val a > be_val b)"
proof (induction a b rule: list_induct2)
  case (Cons x xs y ys)
  consider "x < y" | "y < x" | "x = y" by fastforce
  then show ?case
  proof cases
    case 1
    with be_val_mono [of x y xs ys] Cons.hyps show ?thesis by (auto simp add: word_less_nat_alt)
  next
    case 2
    with be_val_mono [of y x ys xs] Cons.hyps show ?thesis by (auto simp add: word_less_nat_alt)
  next
    case 3
    with Cons show ?thesis by simp
  qed
qed simp

section \<open>Lookup\<close>

type_synonym ranges = "(addr \<times> RangeBanItem) list"

definition out_of_range :: "byte list \<Rightarrow> RangeBanItem \<Rightarrow> bool" where
  "out_of_range h cur \<longleftrightarrow> memcmp (m_ui128FromIpHash cur) h > 0 \<or> memcmp (m_ui128ToIpHash cur) h < 0"

fun find_range_loop :: "byte list \<Rightarrow> int \<Rightarrow> byte \<Rightarrow> addr option \<Rightarrow> ranges \<Rightarrow> ranges \<times> addr option" where
  "find_range_loop h now bits fnd [] = ([], fnd)"
| "find_range_loop h now bits fnd ((a, cur) # rest) =
     (if out_of_range h cur then
        (let (l, x) = find_range_loop h now bits fnd rest in ((a, cur) # l, x))
      else if expired now cur then find_range_loop h now bits fnd rest
      else if matches bits cur then ((a, cur) # rest, Some a)
      else
        (let (l, x) = find_range_loop h now bits (case fnd of None \<Rightarrow> Some a | Some f \<Rightarrow> Some f) rest
         in ((a, cur) # l, x)))"

definition FindRangeBanGeneric :: "byte list \<Rightarrow> int \<Rightarrow> byte \<Rightarrow> BanManager \<Rightarrow> BanManager \<times> addr option" where
  "FindRangeBanGeneric h acc_time bits s =
     (let (l, x) = find_range_loop h acc_time bits None (m_RangeBanList s) in (s\<lparr>m_RangeBanList := l\<rparr>, x))"

definition FindRange_user :: "User \<Rightarrow> int \<Rightarrow> BanManager \<Rightarrow> BanManager \<times> addr option" where
  "FindRange_user pUser now s = FindRangeBanGeneric (m_ui128IpHash pUser) now 0 s"

definition FindRange :: "byte list \<Rightarrow> int \<Rightarrow> BanManager \<Rightarrow> BanManager \<times> addr option" where
  "FindRange h acc_time s = FindRangeBanGeneric h acc_time 0 s"

definition FindFullRange :: "byte list \<Rightarrow> int \<Rightarrow> BanManager \<Rightarrow> BanManager \<times> addr option" where
  "FindFullRange h acc_time s = FindRangeBanGeneric h acc_time FULL s"

definition same_ends :: "byte list \<Rightarrow> byte list \<Rightarrow> RangeBanItem \<Rightarrow> bool" where
  "same_ends fr to cur \<longleftrightarrow> memcmp (m_ui128FromIpHash cur) fr = 0 \<and> memcmp (m_ui128ToIpHash cur) to = 0"

fun find_exact_loop :: "byte list \<Rightarrow> byte list \<Rightarrow> int \<Rightarrow> ranges \<Rightarrow> ranges \<times> addr option" where
  "find_exact_loop fr to now [] = ([], None)"
| "find_exact_loop fr to now ((a, cur) # rest) =
     (if same_ends fr to cur then
        (if is_set cur TEMP then
           (if now \<ge> m_tTempBanExpire cur then find_exact_loop fr to now rest
            else ((a, cur) # rest, Some a))
         else ((a, cur) # rest, Some a))
      else (let (l, x) = find_exact_loop fr to now rest in ((a, cur) # l, x)))"

definition FindRange_exact :: "byte list \<Rightarrow> byte list \<Rightarrow> int \<Rightarrow> BanManager \<Rightarrow> BanManager \<times> addr option" where
  "FindRange_exact fr to acc_time s =
     (let (l, x) = find_exact_loop fr to acc_time (m_RangeBanList s) in (s\<lparr>m_RangeBanList := l\<rparr>, x))"

fun gui_range_loop :: "addr \<Rightarrow> int \<Rightarrow> ranges \<Rightarrow> ranges \<times> bool" where
  "gui_range_loop p now [] = ([], False)"
| "gui_range_loop p now ((a, cur) # rest) =
     (if is_set cur TEMP \<and> now > m_tTempBanExpire cur then gui_range_loop p now rest
      else if a = p then ((a, cur) # rest, True)
      else (let (l, x) = gui_range_loop p now rest in ((a, cur) # l, x)))"

definition FindRange_gui :: "addr \<Rightarrow> int \<Rightarrow> BanManager \<Rightarrow> BanManager \<times> addr option" where
  "FindRange_gui p now s =
     (let (l, x) = gui_range_loop p now (m_RangeBanList s) in (s\<lparr>m_RangeBanList := l\<rparr>, if x then Some p else None))"

fun erase_addr :: "addr \<Rightarrow> ranges \<Rightarrow> ranges" where
  "erase_addr p [] = []"
| "erase_addr p ((a, cur) # rest) = (if a = p then rest else (a, cur) # erase_addr p rest)"

definition RemRange :: "addr \<Rightarrow> BanManager \<Rightarrow> BanManager" where
  "RemRange p s = s\<lparr>m_RangeBanList := erase_addr p (m_RangeBanList s)\<rparr>"

definition RemoveRange_gui :: "addr \<Rightarrow> int \<Rightarrow> BanManager \<Rightarrow> BanManager" where
  "RemoveRange_gui p now s =
     (let (l, x) = gui_range_loop p now (m_RangeBanList s) in
      s\<lparr>m_RangeBanList := (if x then erase_addr p l else l)\<rparr>)"

definition AddRange :: "RangeBanItem \<Rightarrow> BanManager \<Rightarrow> BanManager" where
  "AddRange b s = s\<lparr>m_RangeBanList := m_RangeBanList s @ [(bm_next s, b)], bm_next := Suc (bm_next s)\<rparr>"

section \<open>Banning and unbanning a range\<close>

definition new_range :: "byte \<Rightarrow> string \<Rightarrow> byte list \<Rightarrow> string \<Rightarrow> byte list \<Rightarrow> bool \<Rightarrow> int \<Rightarrow> RangeBanItem" where
  "new_range kind sFrom fr sTo to bFull expire =
     \<lparr>m_tTempBanExpire = expire, m_sReason = [], m_sBy = [],
      m_ui8Bits = (if bFull then kind OR FULL else kind),
      m_ui128FromIpHash = fr, m_ui128ToIpHash = to,
      m_sIpFrom = SafeStrCopy 40 sFrom, m_sIpTo = SafeStrCopy 40 sTo\<rparr>"

fun range_ban_loop :: "RangeBanItem \<Rightarrow> ranges \<Rightarrow> ranges \<times> bool" where
  "range_ban_loop p [] = ([], False)"
| "range_ban_loop p ((a, cur) # rest) =
     (if \<not> same_ends (m_ui128FromIpHash p) (m_ui128ToIpHash p) cur \<or> is_set cur TEMP then
        (let (l, stop) = range_ban_loop p rest in ((a, cur) # l, stop))
      else if \<not> is_set cur FULL \<and> is_set p FULL then range_ban_loop p rest
      else ((a, cur) # rest, True))"

definition publish_range :: "string option \<Rightarrow> string option \<Rightarrow> RangeBanItem \<Rightarrow> BanManager \<Rightarrow> BanManager \<times> bool" where
  "publish_range sReason sBy p s =
     (let (b, ok) = AddBanInternal sBy (CreateReason sReason p) in
      if \<not> ok then (s, False) else (fst (BanManager_Save False (AddRange b s)), True))"

definition RangeBan :: "string \<Rightarrow> byte list \<Rightarrow> string \<Rightarrow> byte list \<Rightarrow> string option \<Rightarrow> string option \<Rightarrow> bool
    \<Rightarrow> BanManager \<Rightarrow> BanManager \<times> bool" where
  "RangeBan sFrom fr sTo to sReason sBy bFull s =
     (let p = new_range PERM sFrom fr sTo to bFull 0;
          (l, stop) = range_ban_loop p (m_RangeBanList s);
          s1 = s\<lparr>m_RangeBanList := l\<rparr>
      in if stop then (s1, False) else publish_range sReason sBy p s1)"

fun range_temp_loop :: "RangeBanItem \<Rightarrow> ranges \<Rightarrow> ranges \<times> bool" where
  "range_temp_loop p [] = ([], False)"
| "range_temp_loop p ((a, cur) # rest) =
     (if \<not> same_ends (m_ui128FromIpHash p) (m_ui128ToIpHash p) cur then
        (let (l, stop) = range_temp_loop p rest in ((a, cur) # l, stop))
      else if is_set cur TEMP \<and> m_tTempBanExpire cur < m_tTempBanExpire p then
        (if \<not> is_set cur FULL \<or> is_set p FULL then range_temp_loop p rest
         else (let (l, stop) = range_temp_loop p rest in ((a, cur) # l, stop)))
      else if \<not> is_set cur FULL \<and> is_set p FULL then
        (let (l, stop) = range_temp_loop p rest in ((a, cur) # l, stop))
      else ((a, cur) # rest, True))"

definition RangeTempBan :: "string \<Rightarrow> byte list \<Rightarrow> string \<Rightarrow> byte list \<Rightarrow> string option \<Rightarrow> string option \<Rightarrow> u32 \<Rightarrow> int
    \<Rightarrow> bool \<Rightarrow> 16 word \<Rightarrow> int \<Rightarrow> BanManager \<Rightarrow> BanManager \<times> bool" where
  "RangeTempBan sFrom fr sTo to sReason sBy minutes expiretime bFull default_ban acc_time s =
     (let p = new_range TEMP sFrom fr sTo to bFull (expire_time acc_time default_ban minutes expiretime);
          (l, stop) = range_temp_loop p (m_RangeBanList s);
          s1 = s\<lparr>m_RangeBanList := l\<rparr>
      in if stop then (s1, False) else publish_range sReason sBy p s1)"

fun erase_first :: "(RangeBanItem \<Rightarrow> bool) \<Rightarrow> ranges \<Rightarrow> ranges \<times> bool" where
  "erase_first P [] = ([], False)"
| "erase_first P ((a, cur) # rest) =
     (if P cur then (rest, True) else (let (l, x) = erase_first P rest in ((a, cur) # l, x)))"

definition RangeUnban :: "byte list \<Rightarrow> byte list \<Rightarrow> BanManager \<Rightarrow> BanManager \<times> bool" where
  "RangeUnban fr to s =
     (let (l, x) = erase_first (same_ends fr to) (m_RangeBanList s) in
      (fst (BanManager_Save False (s\<lparr>m_RangeBanList := l\<rparr>)), x))"

definition RangeUnban_type :: "byte list \<Rightarrow> byte list \<Rightarrow> byte \<Rightarrow> BanManager \<Rightarrow> BanManager \<times> bool" where
  "RangeUnban_type fr to cType s =
     (let (l, x) = erase_first (\<lambda>cur. is_set cur cType \<and> same_ends fr to cur) (m_RangeBanList s) in
      (fst (BanManager_Save False (s\<lparr>m_RangeBanList := l\<rparr>)), x))"

fun erase_all :: "byte \<Rightarrow> ranges \<Rightarrow> ranges" where
  "erase_all bits [] = []"
| "erase_all bits ((a, cur) # rest) = (if is_set cur bits then erase_all bits rest else (a, cur) # erase_all bits rest)"

definition ClearRange :: "BanManager \<Rightarrow> BanManager" where
  "ClearRange s = fst (BanManager_Save False (s\<lparr>m_RangeBanList := []\<rparr>))"

definition ClearTempRange :: "BanManager \<Rightarrow> BanManager" where
  "ClearTempRange s = fst (BanManager_Save False (s\<lparr>m_RangeBanList := erase_all TEMP (m_RangeBanList s)\<rparr>))"

definition ClearPermRange :: "BanManager \<Rightarrow> BanManager" where
  "ClearPermRange s = fst (BanManager_Save False (s\<lparr>m_RangeBanList := erase_all PERM (m_RangeBanList s)\<rparr>))"

section \<open>What the range operations promise\<close>

text \<open>The ends of a range ban, as numbers, enclose an address.\<close>

definition hash16 :: "RangeBanItem \<Rightarrow> bool" where
  "hash16 c \<longleftrightarrow> length (m_ui128FromIpHash c) = 16 \<and> length (m_ui128ToIpHash c) = 16"

lemma out_of_range_iff:
  assumes "hash16 c" and "length h = 16"
  shows "out_of_range h c \<longleftrightarrow> \<not> (be_val (m_ui128FromIpHash c) \<le> be_val h \<and> be_val h \<le> be_val (m_ui128ToIpHash c))"
  using memcmp_be_val [of "m_ui128FromIpHash c" h] memcmp_be_val [of "m_ui128ToIpHash c" h] assms
  by (auto simp: out_of_range_def hash16_def)

text \<open>The bans a lookup at \<open>now\<close> can return, in the list's order.\<close>

definition live_ranges :: "byte list \<Rightarrow> int \<Rightarrow> ranges \<Rightarrow> ranges" where
  "live_ranges h now l = filter (\<lambda>(a, c). \<not> out_of_range h c \<and> \<not> expired now c) l"

lemma find_range_loop_result:
  "snd (find_range_loop h now bits fnd l) =
     (case find (\<lambda>(a, c). matches bits c) (live_ranges h now l) of
        Some (a, c) \<Rightarrow> Some a
      | None \<Rightarrow> (case fnd of Some f \<Rightarrow> Some f
                | None \<Rightarrow> (if live_ranges h now l = [] then None else Some (fst (hd (live_ranges h now l))))))"
proof (induction h now bits fnd l rule: find_range_loop.induct)
  case (2 h now bits fnd a cur rest)
  then show ?case
    by (cases "out_of_range h cur"; cases "expired now cur"; cases "matches bits cur")
      (auto simp: live_ranges_def split: option.splits prod.splits)
qed (simp add: live_ranges_def split: option.splits)

lemma find_range_loop_keeps:
  "filter (\<lambda>(a, c). \<not> expired now c) (fst (find_range_loop h now bits fnd l)) = filter (\<lambda>(a, c). \<not> expired now c) l
   \<and> set (fst (find_range_loop h now bits fnd l)) \<subseteq> set l"
  by (induction h now bits fnd l rule: find_range_loop.induct) (auto split: prod.splits)

text \<open>
  A range lookup returns the first unexpired ban whose interval, read as big-endian numbers, holds the
  address and whose bits match, else the first unexpired ban around the address; it drops only expired
  bans.
\<close>

theorem FindRange_lookup:
  assumes "length h = 16" and "\<forall>(a, c) \<in> set (m_RangeBanList s). hash16 c"
  shows "\<exists>s' x. FindRangeBanGeneric h now bits s = (s', x)
    \<and> (let hits = filter (\<lambda>(a, c). be_val (m_ui128FromIpHash c) \<le> be_val h \<and> be_val h \<le> be_val (m_ui128ToIpHash c)
                    \<and> \<not> expired now c) (m_RangeBanList s)
       in x = (case find (\<lambda>(a, c). matches bits c) hits of
                 Some (a, c) \<Rightarrow> Some a
               | None \<Rightarrow> if hits = [] then None else Some (fst (hd hits))))
    \<and> filter (\<lambda>(a, c). \<not> expired now c) (m_RangeBanList s') = filter (\<lambda>(a, c). \<not> expired now c) (m_RangeBanList s)"
proof -
  have "live_ranges h now (m_RangeBanList s) =
      filter (\<lambda>(a, c). be_val (m_ui128FromIpHash c) \<le> be_val h \<and> be_val h \<le> be_val (m_ui128ToIpHash c)
        \<and> \<not> expired now c) (m_RangeBanList s)"
    unfolding live_ranges_def
  proof (rule filter_cong [OF refl])
    fix r assume "r \<in> set (m_RangeBanList s)"
    then have "hash16 (snd r)" using assms(2) by (cases r) auto
    from out_of_range_iff [OF this assms(1)] show
      "(case r of (a, c) \<Rightarrow> \<not> out_of_range h c \<and> \<not> expired now c) =
       (case r of (a, c) \<Rightarrow> be_val (m_ui128FromIpHash c) \<le> be_val h \<and> be_val h \<le> be_val (m_ui128ToIpHash c)
          \<and> \<not> expired now c)" by (cases r) simp
  qed
  then show ?thesis
    using find_range_loop_result [of h now bits None "m_RangeBanList s"]
      find_range_loop_keeps [of now h bits None "m_RangeBanList s"]
    by (cases "find_range_loop h now bits None (m_RangeBanList s)") (simp add: FindRangeBanGeneric_def Let_def cong: option.case_cong)
qed

definition demo_range :: RangeBanItem where
  "demo_range = \<lparr>m_tTempBanExpire = 0, m_sReason = [], m_sBy = [], m_ui8Bits = PERM,
     m_ui128FromIpHash = replicate 16 0, m_ui128ToIpHash = replicate 15 0 @ [9], m_sIpFrom = [], m_sIpTo = []\<rparr>"

lemma be_val_zeros [simp]: "be_val (replicate n 0 @ bs) = be_val bs" "be_val (replicate n 0) = 0"
  by (induction n) simp_all

theorem FindRange_lookup_witness:
  "\<exists>s' x. FindRangeBanGeneric (replicate 16 0) 5 PERM (new_BanManager\<lparr>m_RangeBanList := [(3, demo_range)]\<rparr>) = (s', x)
    \<and> x = Some 3"
proof -
  let ?s = "new_BanManager\<lparr>m_RangeBanList := [(3, demo_range)]\<rparr>"
  have e: "\<not> expired 5 demo_range" "matches PERM demo_range" "hash16 demo_range"
    "be_val (m_ui128FromIpHash demo_range) = 0" "be_val (m_ui128ToIpHash demo_range) = 9"
    by (simp_all add: expired_def matches_def demo_range_def hash16_def ban_bits has_bits_def)
  have z: "be_val (replicate 16 0) = 0" by (simp)
  have l: "m_RangeBanList ?s = [(3, demo_range)]" by simp
  have "\<forall>(a, c) \<in> set (m_RangeBanList ?s). hash16 c" using l e(3) by simp
  from FindRange_lookup [where h = "replicate 16 0", OF length_replicate this, where now = 5 and bits = PERM, unfolded l z] e show ?thesis
    by (auto simp: Let_def)
qed

text \<open>\<open>range_banned s fr to full e\<close>: some ban of exactly that range lasts until \<open>e\<close>, or for good.\<close>

definition range_banned :: "ranges \<Rightarrow> byte list \<Rightarrow> byte list \<Rightarrow> bool \<Rightarrow> int option \<Rightarrow> bool" where
  "range_banned l fr to full e \<longleftrightarrow>
     list_ex (\<lambda>(a, c). same_ends fr to c \<and> (full \<longrightarrow> is_set c FULL)
        \<and> (\<not> is_set c TEMP \<or> (case e of None \<Rightarrow> False | Some t \<Rightarrow> t \<le> m_tTempBanExpire c))) l"

definition other_ends :: "byte list \<Rightarrow> byte list \<Rightarrow> ranges \<Rightarrow> ranges" where
  "other_ends fr to l = filter (\<lambda>(a, c). \<not> same_ends fr to c) l"

lemma other_ends_Nil [simp]: "other_ends fr to [] = []"
  by (simp add: other_ends_def)

lemma other_ends_Cons [simp]:
  "other_ends fr to ((a, c) # l) = (if same_ends fr to c then other_ends fr to l else (a, c) # other_ends fr to l)"
  by (simp add: other_ends_def)

lemma range_banned_Cons [simp]:
  "range_banned ((a, c) # l) fr to full e \<longleftrightarrow>
     same_ends fr to c \<and> (full \<longrightarrow> is_set c FULL)
       \<and> (\<not> is_set c TEMP \<or> (case e of None \<Rightarrow> False | Some t \<Rightarrow> t \<le> m_tTempBanExpire c))
     \<or> range_banned l fr to full e"
  by (simp add: range_banned_def)

lemma range_ban_loop_spec:
  "other_ends (m_ui128FromIpHash p) (m_ui128ToIpHash p) (fst (range_ban_loop p l))
     = other_ends (m_ui128FromIpHash p) (m_ui128ToIpHash p) l
   \<and> (snd (range_ban_loop p l) \<longrightarrow>
        range_banned (fst (range_ban_loop p l)) (m_ui128FromIpHash p) (m_ui128ToIpHash p) (is_set p FULL) None)"
proof (induction l)
  case (Cons r l)
  then show ?case by (cases r) (auto split: prod.splits)
qed simp

lemma range_temp_loop_spec:
  "other_ends (m_ui128FromIpHash p) (m_ui128ToIpHash p) (fst (range_temp_loop p l))
     = other_ends (m_ui128FromIpHash p) (m_ui128ToIpHash p) l
   \<and> (snd (range_temp_loop p l) \<longrightarrow>
        range_banned (fst (range_temp_loop p l)) (m_ui128FromIpHash p) (m_ui128ToIpHash p) (is_set p FULL)
          (Some (m_tTempBanExpire p)))"
proof (induction l)
  case (Cons r l)
  then show ?case by (cases r) (auto split: prod.splits)
qed simp

lemma AddBanInternal_range:
  "AddBanInternal sBy p = (q, ok) \<Longrightarrow> ok \<and> m_ui8Bits q = m_ui8Bits p \<and> m_tTempBanExpire q = m_tTempBanExpire p
     \<and> RangeBanItem.more q = RangeBanItem.more p
     \<and> m_ui128FromIpHash q = m_ui128FromIpHash (p :: RangeBanItem) \<and> m_ui128ToIpHash q = m_ui128ToIpHash p"
  by (auto simp: AddBanInternal_def split: option.splits)

lemma CreateReason_range:
  "m_ui8Bits (CreateReason r p) = m_ui8Bits p \<and> m_tTempBanExpire (CreateReason r p) = m_tTempBanExpire p
     \<and> m_ui128FromIpHash (CreateReason r p) = m_ui128FromIpHash (p :: RangeBanItem)
     \<and> m_ui128ToIpHash (CreateReason r p) = m_ui128ToIpHash p"
  by (auto simp: CreateReason_def split: option.splits)

lemma same_ends_eq: "same_ends (m_ui128FromIpHash p) (m_ui128ToIpHash p) p"
proof -
  have "memcmp a a = 0" for a by (induction a) simp_all
  then show ?thesis by (simp add: same_ends_def)
qed

lemma range_banned_append: "range_banned (l @ m) fr to full e \<longleftrightarrow> range_banned l fr to full e \<or> range_banned m fr to full e"
  by (simp add: range_banned_def)

lemma publish_range_spec:
  assumes "publish_range r y p s = (s', ok)" and "\<not> is_set p TEMP \<or> e = Some (m_tTempBanExpire p)"
  shows "ok \<and> range_banned (m_RangeBanList s') (m_ui128FromIpHash p) (m_ui128ToIpHash p) (is_set p FULL) e
     \<and> other_ends (m_ui128FromIpHash p) (m_ui128ToIpHash p) (m_RangeBanList s')
         = other_ends (m_ui128FromIpHash p) (m_ui128ToIpHash p) (m_RangeBanList s)"
proof -
  obtain q okq where q: "AddBanInternal y (CreateReason r p) = (q, okq)" by (cases "AddBanInternal y (CreateReason r p)")
  note f = AddBanInternal_range [OF q]
  have "m_RangeBanList s' = m_RangeBanList s @ [(bm_next s, q)]" and ok: "ok"
    using assms(1) q f by (auto simp: publish_range_def AddRange_def BanManager_Save_def)
  moreover have "same_ends (m_ui128FromIpHash p) (m_ui128ToIpHash p) q"
    using f CreateReason_range [of r p] same_ends_eq [of p] by (simp add: same_ends_def)
  ultimately show ?thesis
    using f CreateReason_range [of r p] assms(2)
    by (auto simp: range_banned_append other_ends_def range_banned_def)
qed

text \<open>
  C15.  After \<open>RangeBan\<close> a permanent ban of exactly that range is in force (a full one if asked for), whether
  the command added it or refused; bans of other ranges are as they were.
\<close>

theorem RangeBan_covers:
  "case RangeBan sFrom fr sTo to sReason sBy bFull s of (s', ok) \<Rightarrow>
     range_banned (m_RangeBanList s') fr to bFull None
     \<and> other_ends fr to (m_RangeBanList s') = other_ends fr to (m_RangeBanList s)"
proof -
  define p where "p = new_range PERM sFrom fr sTo to bFull 0"
  have p: "m_ui128FromIpHash p = fr" "m_ui128ToIpHash p = to" "is_set p FULL = bFull" "\<not> is_set p TEMP"
    by (auto simp: p_def new_range_def ban_bits has_bits_def)
  obtain l stop where l: "range_ban_loop p (m_RangeBanList s) = (l, stop)" by (cases "range_ban_loop p (m_RangeBanList s)")
  obtain s2 ok where s2: "publish_range sReason sBy p (s\<lparr>m_RangeBanList := l\<rparr>) = (s2, ok)"
    by (cases "publish_range sReason sBy p (s\<lparr>m_RangeBanList := l\<rparr>)")
  have run: "RangeBan sFrom fr sTo to sReason sBy bFull s = (if stop then (s\<lparr>m_RangeBanList := l\<rparr>, False) else (s2, ok))"
    using l s2 by (simp add: RangeBan_def Let_def p_def)
  show ?thesis
    using range_ban_loop_spec [of p "m_RangeBanList s"] publish_range_spec [OF s2, of None] l p
    unfolding run by (cases stop) simp_all
qed

text \<open>
  The same of \<open>RangeTempBan\<close>: a ban of exactly that range lasts at least until the computed expiry.
\<close>

theorem RangeTempBan_covers:
  "case RangeTempBan sFrom fr sTo to sReason sBy minutes expiretime bFull default_ban now s of (s', ok) \<Rightarrow>
     range_banned (m_RangeBanList s') fr to bFull (Some (expire_time now default_ban minutes expiretime))
     \<and> other_ends fr to (m_RangeBanList s') = other_ends fr to (m_RangeBanList s)"
proof -
  let ?t = "expire_time now default_ban minutes expiretime"
  define p where "p = new_range TEMP sFrom fr sTo to bFull ?t"
  have p: "m_ui128FromIpHash p = fr" "m_ui128ToIpHash p = to" "is_set p FULL = bFull" "m_tTempBanExpire p = ?t"
    by (auto simp: p_def new_range_def ban_bits has_bits_def)
  obtain l stop where l: "range_temp_loop p (m_RangeBanList s) = (l, stop)" by (cases "range_temp_loop p (m_RangeBanList s)")
  obtain s2 ok where s2: "publish_range sReason sBy p (s\<lparr>m_RangeBanList := l\<rparr>) = (s2, ok)"
    by (cases "publish_range sReason sBy p (s\<lparr>m_RangeBanList := l\<rparr>)")
  have run: "RangeTempBan sFrom fr sTo to sReason sBy minutes expiretime bFull default_ban now s =
      (if stop then (s\<lparr>m_RangeBanList := l\<rparr>, False) else (s2, ok))"
    using l s2 by (simp add: RangeTempBan_def Let_def p_def)
  show ?thesis
    using range_temp_loop_spec [of p "m_RangeBanList s"] publish_range_spec [OF s2, of "Some ?t"] l p
    unfolding run by (cases stop) simp_all
qed

section \<open>Removing ranges\<close>

lemma erase_first_spec:
  "erase_first P l = (l', x) \<Longrightarrow>
     (case find (\<lambda>(a, c). P c) l of None \<Rightarrow> \<not> x \<and> l' = l | Some r \<Rightarrow> x \<and> l' = remove1 r l)"
proof (induction l arbitrary: l' x)
  case (Cons r l)
  obtain a c where r: "r = (a, c)" by (cases r)
  obtain m y where m: "erase_first P l = (m, y)" by (cases "erase_first P l")
  note ih = Cons.IH [OF m]
  show ?case
  proof (cases "P c")
    case True
    then show ?thesis using Cons.prems r by simp
  next
    case False
    then have l': "l' = r # m" "x = y" using Cons.prems r m by simp_all
    show ?thesis
    proof (cases "find (\<lambda>(a, c). P c) l")
      case None
      then show ?thesis using False r l' ih by simp
    next
      case (Some q)
      then have "P (snd q)" by (cases q) (auto simp: find_Some_iff)
      then have "q \<noteq> r" using False r by auto
      then show ?thesis using Some False r l' ih by auto
    qed
  qed
qed simp

lemma erase_all_filter: "erase_all bits l = filter (\<lambda>(a, c). \<not> is_set c bits) l"
proof (induction l)
  case (Cons r l)
  then show ?case by (cases r) simp
qed simp

text \<open>
  C19.  \<open>RangeUnban\<close> removes the first ban of exactly that range and says so, or changes no ban; with a type
  it looks for the first such ban of the type.  The clear commands keep exactly the bans of the other
  kind.
\<close>

theorem range_removal:
  "(case RangeUnban fr to s of (s', x) \<Rightarrow>
      (case find (\<lambda>(a, c). same_ends fr to c) (m_RangeBanList s) of
         None \<Rightarrow> \<not> x \<and> m_RangeBanList s' = m_RangeBanList s
       | Some r \<Rightarrow> x \<and> m_RangeBanList s' = remove1 r (m_RangeBanList s)))
   \<and> (case RangeUnban_type fr to cType s of (s', x) \<Rightarrow>
      (case find (\<lambda>(a, c). is_set c cType \<and> same_ends fr to c) (m_RangeBanList s) of
         None \<Rightarrow> \<not> x \<and> m_RangeBanList s' = m_RangeBanList s
       | Some r \<Rightarrow> x \<and> m_RangeBanList s' = remove1 r (m_RangeBanList s)))
   \<and> m_RangeBanList (ClearTempRange s) = filter (\<lambda>(a, c). \<not> is_set c TEMP) (m_RangeBanList s)
   \<and> m_RangeBanList (ClearPermRange s) = filter (\<lambda>(a, c). \<not> is_set c PERM) (m_RangeBanList s)
   \<and> m_RangeBanList (ClearRange s) = []"
proof -
  have sv: "m_RangeBanList (fst (BanManager_Save f t)) = m_RangeBanList t" for f t by (simp add: BanManager_Save_def)
  obtain l x where l: "erase_first (same_ends fr to) (m_RangeBanList s) = (l, x)"
    by (cases "erase_first (same_ends fr to) (m_RangeBanList s)")
  obtain m y where m: "erase_first (\<lambda>c. is_set c cType \<and> same_ends fr to c) (m_RangeBanList s) = (m, y)"
    by (cases "erase_first (\<lambda>c. is_set c cType \<and> same_ends fr to c) (m_RangeBanList s)")
  show ?thesis
    using erase_first_spec [OF l] erase_first_spec [OF m]
    by (simp add: RangeUnban_def RangeUnban_type_def l m sv ClearTempRange_def ClearPermRange_def ClearRange_def
        erase_all_filter cong: option.case_cong)
qed

end
