(* ===== verification/BanReach.thy ===== *)
theory BanReach
  imports BanSpec BanRange
begin

text \<open>
  The ban manager as a whole: what a lookup finds after a ban, what lifting a ban does, and the invariant
  along every sequence of commands.
\<close>

section \<open>Lookups under the invariant\<close>

text \<open>
  On a consistent manager the address lookup goes through all bans of the address once: it returns
  the first that matches, or the first of all when none matches, unless it meets an expired ban on the
  way, which it deletes twice.
\<close>

theorem FindIp_lookup:
  assumes "ban_inv s"
  shows "\<exists>as. distinct as \<and> (\<forall>a. a \<in> set as \<longleftrightarrow> (\<exists>b. bm_heap s a = Some b \<and> is_set b IP \<and> b_ui128IpHash b = h))
    \<and> FindIpBanGeneric h now bits s =
        (case first_ban (\<lambda>b. expired now b \<or> matches bits b) s as of
           Some a \<Rightarrow> if expired now (ban_at s a) then Inl (DoubleFree a) else Inr (s, Some a)
         | None \<Rightarrow> Inr (s, if as = [] then None else Some (hd as)))"
proof -
  from assms obtain ch where rel: "ban_rel s ch" by (auto simp: ban_inv_def)
  then have ip: "ip_chains (bm_heap s) (m_IpBanTable s) ch" by (simp add: ban_rel_def)
  from ip_chainsD(1,3) [OF ip] FindIpBanGeneric_run [OF rel, unfolded find_ip_spec_def]
  show ?thesis by (intro exI [of _ "ch h"] conjI allI)
qed

theorem FindIp_lookup_witness:
  "\<exists>as. distinct as \<and> 0 \<in> set as \<and> FindIpBanGeneric demo_hash 5 FULL demo_bans =
        (case first_ban (\<lambda>b. expired 5 b \<or> matches FULL b) demo_bans as of
           Some a \<Rightarrow> if expired 5 (ban_at demo_bans a) then Inl (DoubleFree a) else Inr (demo_bans, Some a)
         | None \<Rightarrow> Inr (demo_bans, if as = [] then None else Some (hd as)))"
proof -
  have "\<exists>b. bm_heap demo_bans 0 = Some b \<and> is_set b IP \<and> b_ui128IpHash b = demo_hash" by simp
  with FindIp_lookup [OF ban_inv_demo, of demo_hash 5 FULL] show ?thesis by blast
qed

text \<open>
  The nick lookup goes through the bans filed under the hash, passes over other nicks, and returns the
  first match, or nothing; an expired ban of the nick met on the way is deleted twice.
\<close>

theorem FindNick_lookup:
  assumes "ban_inv s"
  shows "\<exists>as. distinct as \<and> (\<forall>a. a \<in> set as \<longleftrightarrow> (\<exists>b. bm_heap s a = Some b \<and> is_set b NICK \<and> b_ui32NickHash b = h))
    \<and> FindNickBanGeneric h now sNick bits s =
        (case first_ban (\<lambda>b. iequals (b_sNick b) sNick \<and> (expired now b \<or> matches bits b)) s as of
           Some a \<Rightarrow> if expired now (ban_at s a) then Inl (DoubleFree a) else Inr (s, Some a)
         | None \<Rightarrow> Inr (s, None))"
proof -
  from assms obtain ch where rel: "ban_rel s ch" by (auto simp: ban_inv_def)
  then have "distinct (m_NickBanTable s h)" and
    "\<forall>a. a \<in> set (m_NickBanTable s h) \<longleftrightarrow> (\<exists>b. bm_heap s a = Some b \<and> is_set b NICK \<and> b_ui32NickHash b = h)"
    unfolding ban_rel_def nick_lists_def by blast+
  with FindNickBanGeneric_run [OF rel] show ?thesis by (intro exI [of _ "m_NickBanTable s h"] conjI)
qed

theorem FindNick_lookup_witness:
  "\<exists>as. distinct as \<and> 0 \<in> set as \<and> FindNickBanGeneric (HashNick ''bob'') 5 ''BOB'' PERM demo_bans =
        (case first_ban (\<lambda>b. iequals (b_sNick b) ''BOB'' \<and> (expired 5 b \<or> matches PERM b)) demo_bans as of
           Some a \<Rightarrow> if expired 5 (ban_at demo_bans a) then Inl (DoubleFree a) else Inr (demo_bans, Some a)
         | None \<Rightarrow> Inr (demo_bans, None))"
proof -
  have "\<exists>b. bm_heap demo_bans 0 = Some b \<and> is_set b NICK \<and> b_ui32NickHash b = HashNick ''bob''" by simp
  with FindNick_lookup [OF ban_inv_demo, of "HashNick ''bob''" 5 "''BOB''" PERM] show ?thesis by blast
qed

lemma in_force_not_expired:
  assumes "ban_inv s" and "bm_heap s a = Some b" and "lasts e b" and "case e of None \<Rightarrow> True | Some t \<Rightarrow> now < t"
  shows "\<not> expired now b"
proof -
  from assms(1) have "own_lists (bm_heap s) (m_TempBanList s) (m_PermBanList s)"
    by (auto simp: ban_inv_def ban_rel_def)
  with assms(2) have "is_set b PERM \<longleftrightarrow> \<not> is_set b TEMP" unfolding own_lists_def by blast
  with assms(3,4) show ?thesis by (auto simp: lasts_def expired_def split: option.splits)
qed

text \<open>
  C26.  Someone banned is found: while a ban of the address is in force, the lookup a connecting user goes
  through returns an unexpired ban of the address of the kind asked for, or stops at the double deletion of
  an expired one.
\<close>

theorem banned_address_is_found:
  assumes inv: "ban_inv s" and e: "case e of None \<Rightarrow> True | Some t \<Rightarrow> now < t" and banned: "ip_banned s h full e"
  shows "safe only_double_free (FindIpBanGeneric h now (if full then FULL else 0) s)
        (\<lambda>(s', r). s' = s \<and> (\<exists>a b. r = Some a \<and> bm_heap s a = Some b \<and> is_set b IP \<and> b_ui128IpHash b = h
           \<and> (full \<longrightarrow> is_set b FULL) \<and> \<not> expired now b))"
proof -
  from inv obtain ch where rel: "ban_rel s ch" by (auto simp: ban_inv_def)
  then have ip: "ip_chains (bm_heap s) (m_IpBanTable s) ch" by (simp add: ban_rel_def)
  from banned obtain a b where b: "bm_heap s a = Some b" "is_set b IP" "b_ui128IpHash b = h"
    "full \<longrightarrow> is_set b FULL" "lasts e b" unfolding ip_banned_def ban_exists_def ip_ban_def by blast
  then have a: "a \<in> set (ch h)" using ip_chainsD(3) [OF ip] by blast
  let ?P = "\<lambda>b. expired now b \<or> matches (if full then FULL else 0) b"
  have "?P (ban_at s a)" using b by (auto simp: matches_def)
  then obtain c where c: "first_ban ?P s (ch h) = Some c"
    using first_ban_NoneD [of ?P s "ch h" a] a by (cases "first_ban ?P s (ch h)") auto
  from first_ban_SomeD [OF c] have c': "c \<in> set (ch h)" "?P (ban_at s c)" by auto
  then obtain d where d: "bm_heap s c = Some d" "is_set d IP" "b_ui128IpHash d = h" using ip_chainsD(3) [OF ip] by blast
  have "FULL \<noteq> 0" by (simp add: FULL_def)
  with c'(2) d(1) have "expired now d \<or> (full \<longrightarrow> is_set d FULL)" by (auto simp: matches_def)
  then show ?thesis
    unfolding FindIpBanGeneric_run [OF rel] find_ip_spec_def c using d by auto
qed

theorem banned_address_is_found_witness:
  "\<exists>s' a. FindIpBanGeneric demo_hash 5 FULL demo_bans = Inr (s', Some a)"
proof -
  have "ip_banned demo_bans demo_hash True None"
    unfolding ip_banned_def ban_exists_def by (intro exI [of _ 0] exI [of _ demo_ban]) (simp add: ip_ban_def lasts_def)
  moreover have "\<not> isl (FindIpBanGeneric demo_hash 5 FULL demo_bans)" by code_simp
  ultimately show ?thesis
    using banned_address_is_found [OF ban_inv_demo, where e = None and now = 5 and h = demo_hash and full = True]
    by (cases "FindIpBanGeneric demo_hash 5 FULL demo_bans") auto
qed

text \<open>
  The same for nicks: the lookup by name, whatever the case of its letters, returns an unexpired ban of
  the nick.
\<close>

theorem banned_nick_is_found:
  assumes inv: "ban_inv s" and e: "case e of None \<Rightarrow> True | Some t \<Rightarrow> now < t" and banned: "nick_banned s n e"
    and eq: "iequals n n'"
  shows "safe only_double_free (FindNick n' now s)
        (\<lambda>(s', r). s' = s \<and> (\<exists>a b. r = Some a \<and> bm_heap s a = Some b \<and> is_set b NICK \<and> iequals (b_sNick b) n'
           \<and> \<not> expired now b))"
proof -
  from inv obtain ch where rel: "ban_rel s ch" by (auto simp: ban_inv_def)
  then have nl: "nick_lists (bm_heap s) (m_NickBanTable s)" by (simp add: ban_rel_def)
  from banned obtain a b where b: "bm_heap s a = Some b" "is_set b NICK" "iequals (b_sNick b) n"
    unfolding nick_banned_def ban_exists_def nick_ban_def by blast
  have bn: "iequals (b_sNick b) n'" using iequals_trans [OF b(3) eq] .
  have "b_ui32NickHash b = HashNick n'" using nl b(1,2) HashNick_iequals [OF bn] unfolding nick_lists_def by metis
  with nl b(1,2) have a: "a \<in> set (m_NickBanTable s (HashNick n'))" unfolding nick_lists_def by blast
  let ?P = "\<lambda>b. iequals (b_sNick b) n' \<and> (expired now b \<or> matches 0 b)"
  have "?P (ban_at s a)" using b bn by (auto simp: matches_def)
  then obtain c where c: "first_ban ?P s (m_NickBanTable s (HashNick n')) = Some c"
    using first_ban_NoneD [of ?P s _ a] a by (cases "first_ban ?P s (m_NickBanTable s (HashNick n'))") auto
  from first_ban_SomeD [OF c] have c': "c \<in> set (m_NickBanTable s (HashNick n'))" "?P (ban_at s c)" by auto
  then obtain d where d: "bm_heap s c = Some d" "is_set d NICK" using nl unfolding nick_lists_def by blast
  then show ?thesis
    unfolding FindNick_def FindNick_hash_def FindNickBanGeneric_run [OF rel] c using c'(2) by simp
qed

theorem banned_nick_is_found_witness:
  "\<exists>s' a. FindNick ''BoB'' 5 demo_bans = Inr (s', Some a)"
proof -
  have "nick_banned demo_bans ''bob'' None"
    unfolding nick_banned_def ban_exists_def by (intro exI [of _ 0] exI [of _ demo_ban]) (simp add: nick_ban_def lasts_def)
  moreover have "iequals ''bob'' ''BoB''" by code_simp
  moreover have "\<not> isl (FindNick ''BoB'' 5 demo_bans)" by code_simp
  ultimately show ?thesis
    using banned_nick_is_found [OF ban_inv_demo, where e = None and now = 5 and n = "''bob''" and n' = "''BoB''"]
    by (cases "FindNick ''BoB'' 5 demo_bans") auto
qed

section \<open>Removing bans\<close>

text \<open>
  C16.  \<open>Rem\<close> takes a ban out of both tables and its list and deletes the object once, leaving a consistent
  manager with all other bans; the guard of every call site then deletes it a second time.
\<close>

theorem Rem_and_guard:
  assumes "ban_inv s" and "bm_heap s a = Some b"
  shows "(\<exists>s'. BanManager_Rem a s = Inr s' \<and> ban_inv s' \<and> dom (bm_heap s') = dom (bm_heap s) - {a}
      \<and> m_TempBanList s' = remove1 a (m_TempBanList s) \<and> m_PermBanList s' = remove1 a (m_PermBanList s))
    \<and> guarded_drop a s = Inl (DoubleFree a)"
proof -
  from assms(1) obtain ch where rel: "ban_rel s ch" by (auto simp: ban_inv_def)
  from BanManager_Rem_run [OF rel assms(2)] obtain s' where s': "BanManager_Rem a s = Inr s'"
    "ban_rel s' (\<lambda>k. remove1 a (ch k))" "links_only (bm_heap s') ((bm_heap s)(a := None))"
    "m_TempBanList s' = remove1 a (m_TempBanList s)" "m_PermBanList s' = remove1 a (m_PermBanList s)" by blast
  have "dom (bm_heap s') = dom (bm_heap s) - {a}"
    using links_only_dom [OF s'(3)] by (auto simp: dom_def split: if_splits)
  with s' guarded_drop_faults [OF rel assms(2)] ban_invI [OF s'(2)] show ?thesis by blast
qed

theorem Rem_and_guard_witness:
  "guarded_drop 0 demo_bans = Inl (DoubleFree 0) \<and> (\<exists>s'. BanManager_Rem 0 demo_bans = Inr s' \<and> m_PermBanList s' = [])"
  using Rem_and_guard [OF ban_inv_demo, of 0 demo_ban] by (auto simp: demo_bans_def)

lemma unban_with_safe:
  assumes rel: "ban_rel s ch"
    and nick: "\<And>s' r. fn s = Inr (s', r) \<Longrightarrow> s' = s \<and> (\<forall>a. r = Some a \<longrightarrow> (\<exists>b. bm_heap s a = Some b))"
      "\<And>e. fn s = Inl e \<Longrightarrow> only_double_free e"
    and ip: "\<And>h s' r. fi h s = Inr (s', r) \<Longrightarrow> s' = s \<and> (\<forall>a. r = Some a \<longrightarrow> (\<exists>b. bm_heap s a = Some b))"
      "\<And>h e. fi h s = Inl e \<Longrightarrow> only_double_free e"
  shows "safe only_double_free (unban_with fn fi r w s)
     (\<lambda>(s', ok). \<not> ok \<and> s' = s \<and> fn s = Inr (s, None) \<and> (\<forall>h. HashIP r w = Some h \<longrightarrow> fi h s = Inr (s, None)))"
proof (cases "fn s")
  case (Inl e)
  with nick(2) show ?thesis by (simp add: unban_with_def)
next
  case (Inr sr)
  obtain s1 x where sr: "sr = (s1, x)" by (cases sr)
  from nick(1) Inr sr have s1: "s1 = s" and live: "\<And>a. x = Some a \<Longrightarrow> \<exists>b. bm_heap s a = Some b" by blast+
  show ?thesis
  proof (cases x)
    case (Some a)
    with live guarded_drop_faults [OF rel] Inr sr s1 show ?thesis by (auto simp: unban_with_def)
  next
    case None
    show ?thesis
    proof (cases "HashIP r w")
      case None
      with \<open>x = None\<close> Inr sr s1 show ?thesis by (simp add: unban_with_def)
    next
      case (Some h)
      show ?thesis
      proof (cases "fi h s")
        case (Inl e)
        with ip(2) Some \<open>x = None\<close> Inr sr s1 show ?thesis by (simp add: unban_with_def)
      next
        case (Inr tr)
        obtain t y where tr: "tr = (t, y)" by (cases tr)
        from ip(1) Inr tr have t: "t = s" and live': "\<And>a. y = Some a \<Longrightarrow> \<exists>b. bm_heap s a = Some b" by blast+
        with Inr tr \<open>fn s = Inr sr\<close> sr s1 \<open>x = None\<close> Some guarded_drop_faults [OF rel] show ?thesis
          by (cases y) (auto simp: unban_with_def)
      qed
    qed
  qed
qed

lemma ip_lookup_ok:
  assumes rel: "ban_rel s ch"
  shows "FindIpBanGeneric h now bits s = Inr (s', r) \<Longrightarrow> s' = s \<and> (\<forall>a. r = Some a \<longrightarrow> (\<exists>b. bm_heap s a = Some b))"
    and "FindIpBanGeneric h now bits s = Inl e \<Longrightarrow> only_double_free e"
proof -
  let ?f = "first_ban (\<lambda>b. expired now b \<or> matches bits b) s (ch h)"
  have ip: "ip_chains (bm_heap s) (m_IpBanTable s) ch" using rel by (simp add: ban_rel_def)
  note run = FindIpBanGeneric_run [OF rel, of h now bits, unfolded find_ip_spec_def]
  have live: "\<exists>b. bm_heap s a = Some b" if "a \<in> set (ch h)" for a using ip_chainsD(3) [OF ip] that by blast
  show "FindIpBanGeneric h now bits s = Inr (s', r) \<Longrightarrow> s' = s \<and> (\<forall>a. r = Some a \<longrightarrow> (\<exists>b. bm_heap s a = Some b))"
  proof (cases ?f)
    case None
    assume "FindIpBanGeneric h now bits s = Inr (s', r)"
    with run None live show ?thesis by (cases "ch h") auto
  next
    case (Some c)
    assume "FindIpBanGeneric h now bits s = Inr (s', r)"
    with run Some live [of c] first_ban_SomeD [OF Some] show ?thesis by (simp split: if_splits)
  qed
  show "FindIpBanGeneric h now bits s = Inl e \<Longrightarrow> only_double_free e"
    unfolding run by (cases ?f) (auto split: if_splits)
qed

lemma nick_lookup_ok:
  assumes rel: "ban_rel s ch"
  shows "FindNickBanGeneric h now n bits s = Inr (s', r) \<Longrightarrow> s' = s \<and> (\<forall>a. r = Some a \<longrightarrow> (\<exists>b. bm_heap s a = Some b))"
    and "FindNickBanGeneric h now n bits s = Inl e \<Longrightarrow> only_double_free e"
proof -
  show "FindNickBanGeneric h now n bits s = Inr (s', r) \<Longrightarrow> s' = s \<and> (\<forall>a. r = Some a \<longrightarrow> (\<exists>b. bm_heap s a = Some b))"
    using lookup_state(2) [OF rel] FindNick_hit [OF rel] by blast
  show "FindNickBanGeneric h now n bits s = Inl e \<Longrightarrow> only_double_free e"
    using safe_nick_lookup [OF rel, of h now n bits] by (simp add: only_double_free_def)
qed

lemma unban_safe:
  assumes "ban_inv s"
  shows "safe only_double_free (Unban r w now s)
      (\<lambda>(s', ok). \<not> ok \<and> s' = s \<and> FindNick w now s = Inr (s, None))
    \<and> safe only_double_free (PermUnban r w s)
      (\<lambda>(s', ok). \<not> ok \<and> s' = s \<and> FindPermNick w s = Inr (s, None))
    \<and> safe only_double_free (TempUnban r w now s)
      (\<lambda>(s', ok). \<not> ok \<and> s' = s \<and> FindTempNick w now s = Inr (s, None))"
proof -
  from assms obtain ch where rel: "ban_rel s ch" by (auto simp: ban_inv_def)
  note ok = nick_lookup_ok [OF rel] ip_lookup_ok [OF rel]
  have "safe only_double_free (unban_with (FindNick_hash (HashNick w) now w) (\<lambda>h. FindIP h now) r w s)
      (\<lambda>(s', b). \<not> b \<and> s' = s \<and> FindNick_hash (HashNick w) now w s = Inr (s, None)
        \<and> (\<forall>h. HashIP r w = Some h \<longrightarrow> FindIP h now s = Inr (s, None)))"
    by (rule unban_with_safe [OF rel]; unfold FindNick_hash_def FindIP_def; rule ok; assumption)
  moreover have "safe only_double_free (unban_with (FindPermNick_hash (HashNick w) w) FindPermIP r w s)
      (\<lambda>(s', b). \<not> b \<and> s' = s \<and> FindPermNick_hash (HashNick w) w s = Inr (s, None)
        \<and> (\<forall>h. HashIP r w = Some h \<longrightarrow> FindPermIP h s = Inr (s, None)))"
    by (rule unban_with_safe [OF rel]; unfold FindPermNick_hash_def FindPermIP_def; rule ok; assumption)
  moreover have "safe only_double_free (unban_with (FindTempNick_hash (HashNick w) now w) (\<lambda>h. FindTempIP h now) r w s)
      (\<lambda>(s', b). \<not> b \<and> s' = s \<and> FindTempNick_hash (HashNick w) now w s = Inr (s, None)
        \<and> (\<forall>h. HashIP r w = Some h \<longrightarrow> FindTempIP h now s = Inr (s, None)))"
    by (rule unban_with_safe [OF rel]; unfold FindTempNick_hash_def FindTempIP_def; rule ok; assumption)
  ultimately show ?thesis
    unfolding Unban_def PermUnban_def TempUnban_def FindNick_def FindPermNick_def FindTempNick_def
    by (auto elim!: safe_conseq)
qed

text \<open>
  C25.  \<open>Unban\<close>, \<open>PermUnban\<close> and \<open>TempUnban\<close> never report success: they answer false, changing nothing, when no
  lookup finds a ban, and otherwise they delete the ban they found twice.
\<close>

theorem unban_never_succeeds:
  assumes "ban_inv s"
  shows "safe only_double_free (Unban r w now s)
      (\<lambda>(s', ok). \<not> ok \<and> s' = s \<and> FindNick w now s = Inr (s, None))
    \<and> safe only_double_free (PermUnban r w s)
      (\<lambda>(s', ok). \<not> ok \<and> s' = s \<and> FindPermNick w s = Inr (s, None))
    \<and> safe only_double_free (TempUnban r w now s)
      (\<lambda>(s', ok). \<not> ok \<and> s' = s \<and> FindTempNick w now s = Inr (s, None))"
  by (rule unban_safe [OF assms])

theorem unban_never_succeeds_witness:
  "Unban example_resolver ''bob'' 5 demo_bans = Inl (DoubleFree 0)
   \<and> Unban example_resolver ''eve'' 5 demo_bans = Inr (demo_bans, False)"
proof -
  have "(case Unban example_resolver ''bob'' 5 demo_bans of Inl e \<Rightarrow> e = DoubleFree 0 | Inr _ \<Rightarrow> False)" by code_simp
  moreover have "\<not> isl (Unban example_resolver ''eve'' 5 demo_bans)" by code_simp
  ultimately show ?thesis
    using unban_never_succeeds [OF ban_inv_demo, of example_resolver "''eve''" 5]
    by (cases "Unban example_resolver ''eve'' 5 demo_bans") (auto split: sum.splits)
qed

section \<open>Every sequence of commands\<close>

lemma ban_rel_ranges [simp]: "ban_rel (s\<lparr>m_RangeBanList := l\<rparr>) ch = ban_rel s ch"
  by (simp add: ban_rel_def)

lemma ban_inv_ranges [simp]: "ban_inv (s\<lparr>m_RangeBanList := l\<rparr>) = ban_inv s"
  by (simp add: ban_inv_def)

lemma ban_inv_Save [simp]: "ban_inv (fst (BanManager_Save f s)) = ban_inv s"
  by (simp add: ban_inv_def)

lemma ban_inv_AddRange: "ban_inv s \<Longrightarrow> ban_inv (AddRange b s)"
  by (auto simp: ban_inv_def ban_rel_def AddRange_def less_SucI)

lemma ban_inv_publish_range: "ban_inv s \<Longrightarrow> ban_inv (fst (publish_range r y p s))"
  by (auto simp: publish_range_def Let_def ban_inv_AddRange split: prod.splits)

lemma ban_inv_range_commands:
  assumes "ban_inv s"
  shows "ban_inv (fst (RangeBan sF fr sT to r y full s))"
    and "ban_inv (fst (RangeTempBan sF fr sT to r y minutes ex full db now s))"
    and "ban_inv (fst (RangeUnban fr to s))" and "ban_inv (fst (RangeUnban_type fr to ty s))"
    and "ban_inv (ClearRange s)" and "ban_inv (ClearTempRange s)" and "ban_inv (ClearPermRange s)"
    and "ban_inv (fst (FindRangeBanGeneric h now bits s))" and "ban_inv (fst (FindRange_exact fr to now s))"
    and "ban_inv (RemoveRange_gui p now s)" and "ban_inv (RemRange p s)"
  using assms
  by (auto simp: RangeBan_def RangeTempBan_def RangeUnban_def RangeUnban_type_def ClearRange_def ClearTempRange_def
      ClearPermRange_def FindRangeBanGeneric_def FindRange_exact_def RemoveRange_gui_def RemRange_def Let_def
      ban_inv_publish_range split: prod.splits)

lemma walk_no_return:
  assumes rel: "ban_rel s ch" and "remove_walk P h s = Inr s'"
  shows "s' = s"
proof -
  have ip: "ip_chains (bm_heap s) (m_IpBanTable s) ch" using rel by (simp add: ban_rel_def)
  show ?thesis
  proof (cases "m_IpBanTable s h")
    case None
    with assms(2) show ?thesis by (simp add: remove_walk_def)
  next
    case (Some f)
    have "walk_ip (Suc (bm_next s)) (\<lambda>b. if P b then Remove else Continue) (Some f) s =
      (case first_ban (\<lambda>b. (if P b then Remove else Continue) \<noteq> Continue) s (ch h) of
         Some a \<Rightarrow> if (if P (ban_at s a) then Remove else Continue) = Remove then Inl (DoubleFree a) else Inr (s, Some a)
       | None \<Rightarrow> Inr (s, None))"
      by (rule walk_ip_run [OF rel]) (use Some in auto)
    with assms(2) Some show ?thesis
      by (auto simp: remove_walk_def simp del: walk_ip.simps split: option.splits if_splits)
  qed
qed

lemma clear_loop_Inr:
  assumes rel: "ban_rel s ch" and l: "\<And>a. a \<in> set (lst s) \<Longrightarrow> \<exists>b. bm_heap s a = Some b"
    and r: "clear_loop (Suc n) lst s = Inr s'"
  shows "s' = s"
proof (cases "lst s")
  case (Cons a as)
  with l obtain b where "bm_heap s a = Some b" by auto
  with guarded_drop_faults [OF rel this] Cons r show ?thesis by simp
qed (use r in simp)

lemma gui_find_Inr:
  assumes rel: "ban_rel s ch"
  shows "(\<And>a. a \<in> set l \<Longrightarrow> \<exists>b. bm_heap s a = Some b) \<Longrightarrow> gui_find_loop l now p s = Inr (s', x) \<Longrightarrow>
    s' = s \<and> (x \<longrightarrow> p \<in> set l)"
proof (induction l)
  case (Cons a l)
  from Cons.prems(1) [of a] obtain b where b: "bm_heap s a = Some b" by auto
  show ?case using Cons guarded_drop_faults [OF rel b] b by (auto simp: deref_def split: if_splits)
qed simp

lemma own_live: "ban_rel s ch \<Longrightarrow> a \<in> set (m_TempBanList s) \<or> a \<in> set (m_PermBanList s) \<Longrightarrow> \<exists>b. bm_heap s a = Some b"
  unfolding ban_rel_def own_lists_def by blast

lemma removing_commands:
  assumes rel: "ban_rel s ch"
  shows "ClearTemp s = Inr s' \<Longrightarrow> ban_inv s'" and "ClearPerm s = Inr s' \<Longrightarrow> ban_inv s'"
    and "BanManager_Remove p now s = Inr s' \<Longrightarrow> s' = s" and "BanManager_Find p now s = Inr (s', r) \<Longrightarrow> s' = s"
proof -
  have inv: "ban_inv s" using rel by (rule ban_invI)
  show "ClearTemp s = Inr s' \<Longrightarrow> ban_inv s'"
    by (auto simp: ClearTemp_def rbind_Inr_iff inv simp del: clear_loop.simps
        dest!: clear_loop_Inr [OF rel, rotated] intro: own_live [OF rel])
  show "ClearPerm s = Inr s' \<Longrightarrow> ban_inv s'"
    by (auto simp: ClearPerm_def rbind_Inr_iff inv simp del: clear_loop.simps
        dest!: clear_loop_Inr [OF rel, rotated] intro: own_live [OF rel])
  have g: "gui_find_loop (m_TempBanList s) now p s = Inr (t, x) \<Longrightarrow> t = s \<and> (x \<longrightarrow> p \<in> set (m_TempBanList s))" for t x
    by (rule gui_find_Inr [OF rel]) (use own_live [OF rel] in blast)
  show "BanManager_Remove p now s = Inr s' \<Longrightarrow> s' = s"
    using g own_live [OF rel, of p] guarded_drop_faults [OF rel, of p]
    by (auto simp: BanManager_Remove_def rbind_Inr_iff split: if_splits prod.splits dest!: g)
  show "BanManager_Find p now s = Inr (s', r) \<Longrightarrow> s' = s"
    by (auto simp: BanManager_Find_def rbind_Inr_iff split: if_splits prod.splits dest!: g)
qed

text \<open>One command of the manager that returns.  Every command that touches bans is a rule.\<close>

inductive ban_step :: "BanManager \<Rightarrow> BanManager \<Rightarrow> bool" where
  ban: "m_ui32NickHash u = HashNick (m_sNick u) \<Longrightarrow> Ban u r y full now s = Inr s' \<Longrightarrow> ban_step s s'"
| temp_ban: "m_ui32NickHash u = HashNick (m_sNick u) \<Longrightarrow>
    TempBan u r y minutes ex full db now s = Inr s' \<Longrightarrow> ban_step s s'"
| ban_ip: "BanIp res pU sIp r y full now s = Inr (s', c) \<Longrightarrow> ban_step s s'"
| temp_ban_ip: "TempBanIp res pU sIp r y minutes ex full db now s = Inr (s', c) \<Longrightarrow> ban_step s s'"
| nick_ban: "hash_ok pU \<Longrightarrow> NickBan pU sNick r y now s = Inr (s', ok) \<Longrightarrow> ban_step s s'"
| nick_temp_ban: "hash_ok pU \<Longrightarrow> NickTempBan pU sNick r y minutes ex db now s = Inr (s', ok) \<Longrightarrow> ban_step s s'"
| unban: "Unban res w now s = Inr (s', ok) \<Longrightarrow> ban_step s s'"
| perm_unban: "PermUnban res w s = Inr (s', ok) \<Longrightarrow> ban_step s s'"
| temp_unban: "TempUnban res w now s = Inr (s', ok) \<Longrightarrow> ban_step s s'"
| remove_all: "RemoveAllIP h s = Inr s' \<Longrightarrow> ban_step s s'"
| remove_perm: "RemovePermAllIP h s = Inr s' \<Longrightarrow> ban_step s s'"
| remove_temp: "RemoveTempAllIP h s = Inr s' \<Longrightarrow> ban_step s s'"
| clear_temp: "ClearTemp s = Inr s' \<Longrightarrow> ban_step s s'"
| clear_perm: "ClearPerm s = Inr s' \<Longrightarrow> ban_step s s'"
| find_ip: "FindIpBanGeneric h now bits s = Inr (s', x) \<Longrightarrow> ban_step s s'"
| find_nick: "FindNickBanGeneric nh now n bits s = Inr (s', x) \<Longrightarrow> ban_step s s'"
| gui_remove: "BanManager_Remove p now s = Inr s' \<Longrightarrow> ban_step s s'"
| gui_find: "BanManager_Find p now s = Inr (s', x) \<Longrightarrow> ban_step s s'"
| range_ban: "RangeBan sF fr sT to r y full s = (s', ok) \<Longrightarrow> ban_step s s'"
| range_temp_ban: "RangeTempBan sF fr sT to r y minutes ex full db now s = (s', ok) \<Longrightarrow> ban_step s s'"
| range_unban: "RangeUnban fr to s = (s', ok) \<Longrightarrow> ban_step s s'"
| range_unban_type: "RangeUnban_type fr to ty s = (s', ok) \<Longrightarrow> ban_step s s'"
| clear_range: "ban_step s (ClearRange s)"
| clear_temp_range: "ban_step s (ClearTempRange s)"
| clear_perm_range: "ban_step s (ClearPermRange s)"
| find_range: "FindRangeBanGeneric h now bits s = (s', x) \<Longrightarrow> ban_step s s'"

inductive ban_reachable :: "BanManager \<Rightarrow> bool" where
  start: "ban_reachable new_BanManager"
| step: "ban_reachable s \<Longrightarrow> ban_step s s' \<Longrightarrow> ban_reachable s'"

lemma ban_step_inv:
  assumes "ban_step s s'" and inv: "ban_inv s"
  shows "ban_inv s'"
proof -
  from inv obtain ch where rel: "ban_rel s ch" by (auto simp: ban_inv_def)
  have ranges: "ban_inv t" if "f = (t, ok)" "ban_inv (fst f)" for f t and ok :: 'a using that by simp
  from assms(1) show ?thesis
  proof cases
    case (ban u r y full now)
    with Ban_safe [OF inv, of u r y full now] show ?thesis by (simp add: covered_def)
  next
    case (temp_ban u r y minutes ex full db now)
    with TempBan_safe [OF inv, of u r y minutes ex full db now] show ?thesis by (simp add: covered_def)
  next
    case (ban_ip res pU sIp r y full now c)
    with BanIp_safe [OF inv, of res pU sIp r y full now] inv show ?thesis
      by (cases "target_hash res pU sIp") simp_all
  next
    case (temp_ban_ip res pU sIp r y minutes ex full db now c)
    with TempBanIp_safe [OF inv, of res pU sIp r y minutes ex full db now] inv show ?thesis
      by (cases "target_hash res pU sIp") simp_all
  next
    case (nick_ban pU sNick r y now ok)
    with NickBan_safe [OF inv, of pU sNick r y now] inv show ?thesis by (cases "target_nick pU sNick") simp_all
  next
    case (nick_temp_ban pU sNick r y minutes ex db now ok)
    with NickTempBan_safe [OF inv, of pU sNick r y minutes ex db now] inv show ?thesis
      by (cases "target_nick pU sNick") simp_all
  next
    case (unban res w now ok)
    with unban_safe [OF inv, of res w now] inv show ?thesis by simp
  next
    case (perm_unban res w ok)
    with unban_safe [OF inv, of res w] inv show ?thesis by simp
  next
    case (temp_unban res w now ok)
    with unban_safe [OF inv, of res w now] inv show ?thesis by simp
  next
    case (remove_all h)
    with walk_no_return [OF rel] inv show ?thesis by (auto simp: RemoveAllIP_def)
  next
    case (remove_perm h)
    with walk_no_return [OF rel] inv show ?thesis by (auto simp: RemovePermAllIP_def)
  next
    case (remove_temp h)
    with walk_no_return [OF rel] inv show ?thesis by (auto simp: RemoveTempAllIP_def)
  next
    case (find_ip h now bits x)
    with lookup_state(1) [OF rel] inv show ?thesis by blast
  next
    case (find_nick nh now n bits x)
    with lookup_state(2) [OF rel] inv show ?thesis by blast
  next
    case (gui_find p now x)
    with removing_commands(4) [OF rel] inv show ?thesis by blast
  next
    case (gui_remove p now)
    with removing_commands(3) [OF rel] inv show ?thesis by blast
  qed (use removing_commands(1,2) [OF rel] ban_inv_range_commands [OF inv] ranges in \<open>blast | metis fst_conv\<close>)+
qed

lemma ban_reachable_inv: "ban_reachable s \<Longrightarrow> ban_inv s"
  by (induction rule: ban_reachable.induct) (auto intro: ban_inv_new ban_step_inv)

text \<open>
  C3.  Whatever sequence of commands the manager has executed since it was created, the tables, the chains
  and the owning lists agree: every live ban is in exactly one list, the one its bits name, and is filed
  under its address and its nick exactly if its bits say so.
\<close>

theorem ban_manager_invariant:
  assumes "ban_reachable s"
  shows "ban_inv s \<and> set (m_TempBanList s) \<inter> set (m_PermBanList s) = {}
    \<and> dom (bm_heap s) = set (m_TempBanList s) \<union> set (m_PermBanList s)"
proof -
  have inv: "ban_inv s" by (rule ban_reachable_inv [OF assms])
  then have own: "own_lists (bm_heap s) (m_TempBanList s) (m_PermBanList s)" by (auto simp: ban_inv_def ban_rel_def)
  have dom: "dom (bm_heap s) = set (m_TempBanList s) \<union> set (m_PermBanList s)"
    using own unfolding own_lists_def dom_def by blast
  have dis: "set (m_TempBanList s) \<inter> set (m_PermBanList s) = {}"
    using own unfolding own_lists_def by (metis disjoint_iff option.inject)
  from inv dis dom show ?thesis by blast
qed

theorem ban_manager_invariant_witness:
  "\<exists>s. ban_reachable s \<and> dom (bm_heap s) = set (m_TempBanList s) \<union> set (m_PermBanList s) \<and> length (m_PermBanList s) = 1"
proof -
  have e: "case Ban demo_bob None None True 5 new_BanManager of Inl _ \<Rightarrow> False | Inr s \<Rightarrow> length (m_PermBanList s) = 1"
    by code_simp
  then obtain s where s: "Ban demo_bob None None True 5 new_BanManager = Inr s" "length (m_PermBanList s) = 1"
    by (auto split: sum.splits)
  have "m_ui32NickHash demo_bob = HashNick (m_sNick demo_bob)" by simp
  from ban_reachable.step [OF ban_reachable.start ban_step.ban [OF this s(1)]]
  have "ban_reachable s" .
  with ban_manager_invariant [OF this] s(2) show ?thesis by blast
qed

end
