(* ===== verification/UserHash.thy ===== *)
theory UserHash
  imports UserState
begin

text \<open>
  \<open>core/hashUsrManager\<close>: the table of users on line, by nick and by address.  Users live in a heap;
  those with one address form a doubly linked chain through the user objects, with a 16-bit counter
  beside the head of the chain.
\<close>

section \<open>State and operations\<close>

record IpTableItem =
  m_pFirstUser :: addr
  m_ui16Count :: u16

record HashManager =
  hm_users :: "addr \<Rightarrow> User option"
  m_NickTable :: "string \<Rightarrow> addr option"
  m_IpTable :: "byte list \<Rightarrow> IpTableItem option"

definition HM_Add :: "addr \<Rightarrow> HashManager \<Rightarrow> HashManager res" where
  "HM_Add pUser s =
     rbind (deref (hm_users s) pUser) (\<lambda>u.
       let s1 = s\<lparr>m_NickTable := (m_NickTable s)(m_sNick u \<mapsto> pUser)\<rparr> in
       case m_IpTable s1 (m_ui128IpHash u) of
         Some rItem \<Rightarrow>
           rbind (hwrite (m_pFirstUser rItem) (set_user_prev (Some pUser)) (hm_users s1)) (\<lambda>h1.
           rbind (hwrite pUser (set_user_next (Some (m_pFirstUser rItem))) h1) (\<lambda>h2.
             Inr (s1\<lparr>hm_users := h2,
               m_IpTable := (m_IpTable s1)(m_ui128IpHash u \<mapsto>
                 \<lparr>m_pFirstUser = pUser, m_ui16Count = m_ui16Count rItem + 1\<rparr>)\<rparr>)))
       | None \<Rightarrow>
           Inr (s1\<lparr>m_IpTable := (m_IpTable s1)(m_ui128IpHash u \<mapsto>
             \<lparr>m_pFirstUser = pUser, m_ui16Count = 1\<rparr>)\<rparr>))"

definition HM_Remove :: "addr \<Rightarrow> HashManager \<Rightarrow> HashManager res" where
  "HM_Remove pUser s =
     rbind (deref (hm_users s) pUser) (\<lambda>u.
       let s1 = (case m_NickTable s (m_sNick u) of
                   Some _ \<Rightarrow> s\<lparr>m_NickTable := (m_NickTable s)(m_sNick u := None)\<rparr>
                 | None \<Rightarrow> s) in
       case m_pHashIpTablePrev u of
         None \<Rightarrow>
           (case m_IpTable s1 (m_ui128IpHash u) of
              None \<Rightarrow> Inr s1
            | Some rItem \<Rightarrow>
                let rItem1 = rItem\<lparr>m_ui16Count := m_ui16Count rItem - 1\<rparr> in
                rbind (case m_pHashIpTableNext u of
                         None \<Rightarrow> Inr (s1\<lparr>m_IpTable := (m_IpTable s1)(m_ui128IpHash u := None)\<rparr>)
                       | Some n \<Rightarrow>
                           rbind (hwrite n (set_user_prev None) (hm_users s1)) (\<lambda>h1.
                             Inr (s1\<lparr>hm_users := h1,
                               m_IpTable := (m_IpTable s1)(m_ui128IpHash u \<mapsto> rItem1\<lparr>m_pFirstUser := n\<rparr>)\<rparr>)))
                  (\<lambda>s2. rbind (hwrite pUser clear_user_links (hm_users s2)) (\<lambda>h2.
                    Inr (s2\<lparr>hm_users := h2\<rparr>))))
       | Some p \<Rightarrow>
           rbind (case m_pHashIpTableNext u of
                    None \<Rightarrow> hwrite p (set_user_next None) (hm_users s1)
                  | Some n \<Rightarrow>
                      rbind (hwrite p (set_user_next (Some n)) (hm_users s1)) (\<lambda>h1.
                        hwrite n (set_user_prev (Some p)) h1))
             (\<lambda>h1. rbind (hwrite pUser clear_user_links h1) (\<lambda>h2.
               let s2 = s1\<lparr>hm_users := h2\<rparr> in
               case m_IpTable s2 (m_ui128IpHash u) of
                 Some rItem \<Rightarrow>
                   Inr (s2\<lparr>m_IpTable := (m_IpTable s2)(m_ui128IpHash u \<mapsto>
                     rItem\<lparr>m_ui16Count := m_ui16Count rItem - 1\<rparr>)\<rparr>)
               | None \<Rightarrow> Inr s2)))"

definition HM_FindUser_nick :: "HashManager \<Rightarrow> string \<Rightarrow> addr option" where
  "HM_FindUser_nick s sNick = m_NickTable s sNick"

definition HM_FindUser :: "HashManager \<Rightarrow> addr \<Rightarrow> addr option res" where
  "HM_FindUser s pUser = rbind (deref (hm_users s) pUser) (\<lambda>u. Inr (HM_FindUser_nick s (m_sNick u)))"

definition HM_FindUser_ip :: "HashManager \<Rightarrow> byte list \<Rightarrow> addr option" where
  "HM_FindUser_ip s ui128IpHash =
     (case m_IpTable s ui128IpHash of Some it \<Rightarrow> Some (m_pFirstUser it) | None \<Rightarrow> None)"

definition HM_GetUserIpCount :: "HashManager \<Rightarrow> addr \<Rightarrow> u32 res" where
  "HM_GetUserIpCount s pUser =
     rbind (deref (hm_users s) pUser) (\<lambda>u.
       case m_IpTable s (m_ui128IpHash u) of
         Some it \<Rightarrow> Inr (ucast (m_ui16Count it))
       | None \<Rightarrow> Inr 0)"

text \<open>The maximum is taken over the table's entries in whatever order the container yields them.\<close>

fun HM_GetMaxIpCount :: "IpTableItem list \<Rightarrow> u16 \<Rightarrow> u16" where
  "HM_GetMaxIpCount [] maxCount = maxCount"
| "HM_GetMaxIpCount (value # rest) maxCount =
     (if m_ui16Count value > maxCount then HM_GetMaxIpCount rest (m_ui16Count value)
      else HM_GetMaxIpCount rest maxCount)"

section \<open>The abstract table\<close>

text \<open>
  \<open>hm_rel s ch\<close>: the concrete tables represent the abstract table \<open>ch\<close>, which maps an address to the
  list of its users, the most recent first.
\<close>

definition chain_slot :: "(addr \<Rightarrow> User option) \<Rightarrow> IpTableItem option \<Rightarrow> addr list \<Rightarrow> bool" where
  "chain_slot h it as =
     (case it of
        None \<Rightarrow> as = []
      | Some i \<Rightarrow> as \<noteq> [] \<and> user_chain h (Some (m_pFirstUser i)) as
          \<and> m_ui16Count i = word_of_nat (length as))"

definition hm_chains :: "HashManager \<Rightarrow> (byte list \<Rightarrow> addr list) \<Rightarrow> bool" where
  "hm_chains s ch \<longleftrightarrow>
     (\<forall>k. distinct (ch k) \<and> chain_slot (hm_users s) (m_IpTable s k) (ch k))
     \<and> (\<forall>k a u. a \<in> set (ch k) \<longrightarrow> hm_users s a = Some u \<longrightarrow> m_ui128IpHash u = k)"

definition hashed :: "(byte list \<Rightarrow> addr list) \<Rightarrow> addr \<Rightarrow> bool" where
  "hashed ch a \<longleftrightarrow> (\<exists>k. a \<in> set (ch k))"

definition hm_rel :: "HashManager \<Rightarrow> (byte list \<Rightarrow> addr list) \<Rightarrow> bool" where
  "hm_rel s ch \<longleftrightarrow> hm_chains s ch
     \<and> (\<forall>n a. m_NickTable s n = Some a \<longleftrightarrow> hashed ch a \<and> (\<exists>u. hm_users s a = Some u \<and> m_sNick u = n))
     \<and> (\<forall>a u. hm_users s a = Some u \<longrightarrow> \<not> hashed ch a \<longrightarrow>
           m_pHashIpTablePrev u = None \<and> m_pHashIpTableNext u = None)"

lemma hm_chainsD:
  assumes "hm_chains s ch" and "a \<in> set (ch k)"
  obtains it u where "m_IpTable s k = Some it" and "user_chain (hm_users s) (Some (m_pFirstUser it)) (ch k)"
    and "m_ui16Count it = word_of_nat (length (ch k))" and "distinct (ch k)"
    and "hm_users s a = Some u" and "m_ui128IpHash u = k"
proof -
  from assms obtain it where it: "m_IpTable s k = Some it"
    "user_chain (hm_users s) (Some (m_pFirstUser it)) (ch k)"
    "m_ui16Count it = word_of_nat (length (ch k))" "distinct (ch k)"
    unfolding hm_chains_def chain_slot_def by (cases "m_IpTable s k") (fastforce dest!: spec [of _ k])+
  from dchain_live [OF it(2) assms(2)] obtain u where u: "hm_users s a = Some u" by blast
  with assms have "m_ui128IpHash u = k" unfolding hm_chains_def by blast
  with it u that show thesis by blast
qed

lemma hashed_unique: "hm_chains s ch \<Longrightarrow> a \<in> set (ch k) \<Longrightarrow> a \<in> set (ch k') \<Longrightarrow> k = k'"
  by (metis hm_chainsD option.inject)

text \<open>Changing one chain: the others are untouched when the heap changes inside it only.\<close>

lemma hm_chains_upd:
  assumes inv: "hm_chains s ch"
    and d: "distinct cs" and slot: "chain_slot h it cs"
    and outside: "\<And>a. a \<notin> insert anew (set (ch k)) \<Longrightarrow> h a = hm_users s a"
    and ips: "\<And>a u. h a = Some u \<Longrightarrow> \<exists>u'. hm_users s a = Some u' \<and> m_ui128IpHash u = m_ui128IpHash u'"
    and mem: "\<And>a u. a \<in> set cs \<Longrightarrow> hm_users s a = Some u \<Longrightarrow> m_ui128IpHash u = k"
    and fresh: "\<And>k'. k' \<noteq> k \<Longrightarrow> anew \<notin> set (ch k')"
    and s': "hm_users s' = h" "m_IpTable s' = (m_IpTable s)(k := it)"
  shows "hm_chains s' (ch(k := cs))"
proof -
  have "chain_slot h x (ch k') = chain_slot (hm_users s) x (ch k')" if "k' \<noteq> k" for x k'
  proof -
    have "user_chain h y (ch k') = user_chain (hm_users s) y (ch k')" for y
    proof (rule dchain_cong)
      fix a assume "a \<in> set (ch k')"
      with that fresh hashed_unique [OF inv, of a k' k] show "h a = hm_users s a"
        by (intro outside) auto
    qed
    then show ?thesis by (simp add: chain_slot_def split: option.splits)
  qed
  moreover have "m_ui128IpHash u = k'" if "a \<in> set ((ch(k := cs)) k')" "h a = Some u" for a u k'
  proof -
    from ips that(2) obtain u' where u': "hm_users s a = Some u'" "m_ui128IpHash u = m_ui128IpHash u'" by blast
    show ?thesis
    proof (cases "k' = k")
      case True
      with that u' mem show ?thesis by auto
    next
      case False
      with that u' inv show ?thesis unfolding hm_chains_def by auto
    qed
  qed
  ultimately show ?thesis
    using inv d slot unfolding hm_chains_def s' by auto
qed

text \<open>A heap that differs from another in link fields only.\<close>

definition same_but_links :: "(addr \<Rightarrow> User option) \<Rightarrow> (addr \<Rightarrow> User option) \<Rightarrow> bool" where
  "same_but_links h h' \<longleftrightarrow> (\<forall>a. map_option clear_user_links (h a) = map_option clear_user_links (h' a))"

lemma same_but_links_refl [simp]: "same_but_links h h"
  by (simp add: same_but_links_def)

lemma same_but_links_hmod:
  "same_but_links h h' \<Longrightarrow> (\<And>u. clear_user_links (f u) = clear_user_links u) \<Longrightarrow> same_but_links (hmod a f h) h'"
  by (auto simp: same_but_links_def hmod_def option.map_comp comp_def)

lemma same_but_links_live:
  assumes "same_but_links h h'" and "h a = Some u"
  obtains u' where "h' a = Some u'" and "m_sNick u' = m_sNick u" and "m_ui128IpHash u' = m_ui128IpHash u"
proof -
  from assms have "map_option clear_user_links (h' a) = Some (clear_user_links u)"
    unfolding same_but_links_def by (metis option.simps(9))
  then obtain u' where u': "h' a = Some u'" "clear_user_links u' = clear_user_links u" by auto
  moreover have "m_sNick u' = m_sNick u" "m_ui128IpHash u' = m_ui128IpHash u"
    using arg_cong [OF u'(2), of m_sNick] arg_cong [OF u'(2), of m_ui128IpHash] by simp_all
  ultimately show thesis using that by blast
qed

lemma nick_table_upd:
  assumes "\<forall>n a. T n = Some a \<longleftrightarrow> P a \<and> (\<exists>u. h a = Some u \<and> m_sNick u = n)"
    and "same_but_links h' h"
  shows "(\<forall>n a. T n = Some a \<longleftrightarrow> P a \<and> (\<exists>u. h' a = Some u \<and> m_sNick u = n))"
proof -
  have "same_but_links h h'" using assms(2) by (simp add: same_but_links_def)
  with assms show ?thesis by (metis same_but_links_live)
qed

lemma hashed_insert: "hashed (ch(k := a # ch k)) b \<longleftrightarrow> b = a \<or> hashed ch b"
  unfolding hashed_def by (cases "b \<in> set (ch k)") auto

lemma hashed_delete:
  assumes "hm_chains s ch" and "a \<in> set (ch k)"
  shows "hashed (ch(k := remove1 a (ch k))) b \<longleftrightarrow> b \<noteq> a \<and> hashed ch b"
proof -
  have "distinct (ch k)" using assms(1) unfolding hm_chains_def by blast
  moreover have "a \<in> set (ch k') \<Longrightarrow> k' = k" for k' using hashed_unique [OF assms(1)] assms(2) by blast
  ultimately have "set ((ch(k := remove1 a (ch k))) k') = set (ch k') - {a}" for k'
    by (cases "k' = k") (auto simp: set_remove1_eq)
  then show ?thesis by (auto simp: hashed_def)
qed

text \<open>What is left to show of the invariant once a chain has been changed.\<close>

lemma hm_rel_insert:
  assumes rel: "hm_rel s ch" and u: "hm_users s a = Some u" and new: "\<not> hashed ch a"
    and free: "m_NickTable s (m_sNick u) = None"
    and ch': "hm_chains s' (ch(m_ui128IpHash u := a # ch (m_ui128IpHash u)))"
    and nt: "m_NickTable s' = (m_NickTable s)(m_sNick u \<mapsto> a)"
    and sbl: "same_but_links (hm_users s') (hm_users s)"
    and frame: "\<And>b. b \<noteq> a \<Longrightarrow> \<not> hashed ch b \<Longrightarrow> hm_users s' b = hm_users s b"
  shows "hm_rel s' (ch(m_ui128IpHash u := a # ch (m_ui128IpHash u)))"
proof -
  have nt0: "m_NickTable s n = Some b \<longleftrightarrow> hashed ch b \<and> (\<exists>u. hm_users s b = Some u \<and> m_sNick u = n)" for n b
    using rel unfolding hm_rel_def by blast
  have "((m_NickTable s)(m_sNick u \<mapsto> a)) n = Some b \<longleftrightarrow>
      (b = a \<or> hashed ch b) \<and> (\<exists>u. hm_users s b = Some u \<and> m_sNick u = n)" for n b
    using nt0 [of n b] nt0 [of "m_sNick u" b] u new free by (cases "n = m_sNick u") auto
  then have "\<forall>n b. ((m_NickTable s)(m_sNick u \<mapsto> a)) n = Some b \<longleftrightarrow>
      (b = a \<or> hashed ch b) \<and> (\<exists>u. hm_users s b = Some u \<and> m_sNick u = n)" by blast
  from nick_table_upd [OF this sbl] ch' nt frame rel show ?thesis
    unfolding hm_rel_def hashed_insert by auto
qed

lemma hm_rel_delete:
  assumes rel: "hm_rel s ch" and u: "hm_users s a = Some u" and a: "a \<in> set (ch (m_ui128IpHash u))"
    and ch': "hm_chains s' (ch(m_ui128IpHash u := remove1 a (ch (m_ui128IpHash u))))"
    and nt: "m_NickTable s' = (m_NickTable s)(m_sNick u := None)"
    and sbl: "same_but_links (hm_users s') (hm_users s)"
    and frame: "\<And>b. \<not> hashed ch b \<Longrightarrow> hm_users s' b = hm_users s b"
    and cleared: "\<And>w. hm_users s' a = Some w \<Longrightarrow> m_pHashIpTablePrev w = None \<and> m_pHashIpTableNext w = None"
  shows "hm_rel s' (ch(m_ui128IpHash u := remove1 a (ch (m_ui128IpHash u))))"
proof -
  have hc: "hm_chains s ch" using rel by (simp add: hm_rel_def)
  have "hashed ch a" using a by (auto simp: hashed_def)
  then have "\<forall>n b. ((m_NickTable s)(m_sNick u := None)) n = Some b \<longleftrightarrow>
      (b \<noteq> a \<and> hashed ch b) \<and> (\<exists>u. hm_users s b = Some u \<and> m_sNick u = n)"
    using rel u unfolding hm_rel_def by (auto; metis option.inject)
  from nick_table_upd [OF this sbl] ch' nt frame cleared rel show ?thesis
    unfolding hm_rel_def hashed_delete [OF hc a] by auto
qed

lemma HM_Add_first:
  assumes rel: "hm_rel s ch" and u: "hm_users s a = Some u" and new: "\<not> hashed ch a"
    and free: "m_NickTable s (m_sNick u) = None" and none: "m_IpTable s (m_ui128IpHash u) = None"
  shows "\<exists>s'. HM_Add a s = Inr s' \<and> hm_rel s' (ch(m_ui128IpHash u := a # ch (m_ui128IpHash u)))
    \<and> same_but_links (hm_users s') (hm_users s)
    \<and> m_NickTable s' = (m_NickTable s)(m_sNick u \<mapsto> a)
    \<and> (\<exists>it. m_IpTable s' (m_ui128IpHash u) = Some it \<and> m_pFirstUser it = a)"
proof -
  let ?k = "m_ui128IpHash u"
  let ?it = "\<lparr>m_pFirstUser = a, m_ui16Count = 1\<rparr>"
  let ?s' = "s\<lparr>m_NickTable := (m_NickTable s)(m_sNick u \<mapsto> a), m_IpTable := (m_IpTable s)(?k \<mapsto> ?it)\<rparr>"
  have run: "HM_Add a s = Inr ?s'" using u none by (simp add: HM_Add_def Let_def ub_simps)
  have ch: "hm_chains s ch" and links: "m_pHashIpTablePrev u = None" "m_pHashIpTableNext u = None"
    using rel u new unfolding hm_rel_def by auto
  have "chain_slot (hm_users s) (m_IpTable s ?k) (ch ?k)" using ch unfolding hm_chains_def by blast
  with none have e: "ch ?k = []" by (simp add: chain_slot_def)
  have slot: "chain_slot (hm_users s) (Some ?it) [a]" using u links by (auto simp: chain_slot_def dchain_def)
  have "hm_chains ?s' (ch(?k := a # ch ?k))"
    using u e new by (intro hm_chains_upd [OF ch _ _, where anew = a and it = "Some ?it" and h = "hm_users s"])
      (auto simp: slot hashed_def)
  then have "hm_rel ?s' (ch(?k := a # ch ?k))"
    by (intro hm_rel_insert [OF rel u new free]) simp_all
  with run show ?thesis by simp
qed

lemma HM_Add_push:
  assumes rel: "hm_rel s ch" and u: "hm_users s a = Some u" and new: "\<not> hashed ch a"
    and free: "m_NickTable s (m_sNick u) = None" and some: "m_IpTable s (m_ui128IpHash u) = Some it"
  shows "\<exists>s'. HM_Add a s = Inr s' \<and> hm_rel s' (ch(m_ui128IpHash u := a # ch (m_ui128IpHash u)))
    \<and> same_but_links (hm_users s') (hm_users s)
    \<and> m_NickTable s' = (m_NickTable s)(m_sNick u \<mapsto> a)
    \<and> (\<exists>it. m_IpTable s' (m_ui128IpHash u) = Some it \<and> m_pFirstUser it = a)"
proof -
  let ?k = "m_ui128IpHash u" and ?f = "m_pFirstUser it"
  let ?it = "\<lparr>m_pFirstUser = a, m_ui16Count = m_ui16Count it + 1\<rparr>"
  let ?h2 = "hmod a (set_user_next (Some ?f)) (hmod ?f (set_user_prev (Some a)) (hm_users s))"
  let ?s' = "s\<lparr>m_NickTable := (m_NickTable s)(m_sNick u \<mapsto> a), hm_users := ?h2, m_IpTable := (m_IpTable s)(?k \<mapsto> ?it)\<rparr>"
  have ch: "hm_chains s ch" and links: "m_pHashIpTablePrev u = None" "m_pHashIpTableNext u = None"
    using rel u new unfolding hm_rel_def by auto
  have dist: "distinct (ch ?k)" and "chain_slot (hm_users s) (m_IpTable s ?k) (ch ?k)"
    using ch unfolding hm_chains_def by blast+
  with some have ne: "ch ?k \<noteq> []" and uc: "user_chain (hm_users s) (Some ?f) (ch ?k)"
    and cnt: "m_ui16Count it = word_of_nat (length (ch ?k))" by (auto simp: chain_slot_def)
  from dchain_head [OF uc] ne obtain as where as: "ch ?k = ?f # as" by (cases "ch ?k") auto
  then obtain uf where uf: "hm_users s ?f = Some uf" using dchain_live [OF uc] by auto
  have hf: "hashed ch ?f" using as by (auto simp: hashed_def intro!: exI [of _ ?k])
  then have af: "a \<noteq> ?f" using new by auto
  have run: "HM_Add a s = Inr ?s'" using u some uf af by (simp add: HM_Add_def Let_def ub_simps)
  have sbl: "same_but_links ?h2 (hm_users s)" by (intro same_but_links_hmod) simp_all
  have nin: "a \<notin> set (ch ?k)" using new by (simp add: hashed_def)
  have "user_chain ?h2 (Some a) (a # ?f # as)"
  proof (rule user_node.chain_push)
    show "user_chain (hm_users s) (Some ?f) (?f # as)" using uc as by simp
    show "distinct (a # ?f # as)" using dist nin as by simp
  qed (fact u links)+
  then have slot: "chain_slot ?h2 (Some ?it) (a # ch ?k)" using as cnt by (simp add: chain_slot_def)
  have "hm_chains ?s' (ch(?k := a # ch ?k))"
  proof (rule hm_chains_upd [OF ch _ slot, where anew = a])
    show "distinct (a # ch ?k)" using dist new by (auto simp: hashed_def)
    show "?h2 b = hm_users s b" if "b \<notin> insert a (set (ch ?k))" for b using that as by simp
    show "\<exists>u'. hm_users s b = Some u' \<and> m_ui128IpHash w = m_ui128IpHash u'" if "?h2 b = Some w" for b w
      using same_but_links_live [OF sbl that] by metis
    show "m_ui128IpHash w = ?k" if "b \<in> set (a # ch ?k)" "hm_users s b = Some w" for b w
      using that u ch unfolding hm_chains_def by auto
  qed (use new in \<open>auto simp: hashed_def\<close>)
  moreover have "?h2 b = hm_users s b" if "b \<noteq> a" "\<not> hashed ch b" for b
  proof -
    from that hf have "b \<noteq> ?f" by auto
    with that show ?thesis by simp
  qed
  ultimately have "hm_rel ?s' (ch(?k := a # ch ?k))"
    using sbl by (intro hm_rel_insert [OF rel u new free]) simp_all
  with run sbl show ?thesis by simp
qed

text \<open>The counter of a registered user is the length of its chain, modulo 2 to the 16.\<close>

lemma HM_count:
  assumes "hm_rel s ch" and "hm_users s a = Some u" and "hashed ch a"
  shows "HM_GetUserIpCount s a = Inr (ucast (word_of_nat (length (ch (m_ui128IpHash u))) :: u16))"
proof -
  from assms obtain k where k: "a \<in> set (ch k)" by (auto simp: hashed_def)
  have "hm_chains s ch" using assms(1) by (simp add: hm_rel_def)
  from hm_chainsD [OF this k] obtain it u' where "m_IpTable s k = Some it"
    "m_ui16Count it = word_of_nat (length (ch k))" "hm_users s a = Some u'" "m_ui128IpHash u' = k" .
  with assms(2) show ?thesis by (simp add: HM_GetUserIpCount_def ub_simps)
qed

text \<open>
  Registering a user that is not yet in the table, under a nick that is free, succeeds without
  touching freed memory: the user becomes the head of its address chain, every other chain is as
  before, the nick finds the user, and the address counter is the chain's length (modulo 2 to the 16).
\<close>

theorem HM_Add_refines:
  assumes "hm_rel s ch" and "hm_users s a = Some u" and "\<not> hashed ch a"
    and "m_NickTable s (m_sNick u) = None"
  shows "\<exists>s'. HM_Add a s = Inr s' \<and> hm_rel s' (ch(m_ui128IpHash u := a # ch (m_ui128IpHash u)))
    \<and> HM_FindUser_nick s' (m_sNick u) = Some a \<and> HM_FindUser_ip s' (m_ui128IpHash u) = Some a
    \<and> HM_GetUserIpCount s' a = Inr (ucast (word_of_nat (Suc (length (ch (m_ui128IpHash u)))) :: u16))"
proof -
  obtain s' where
    s': "HM_Add a s = Inr s'" "hm_rel s' (ch(m_ui128IpHash u := a # ch (m_ui128IpHash u)))"
    and sbl: "same_but_links (hm_users s') (hm_users s)"
    and t: "m_NickTable s' = (m_NickTable s)(m_sNick u \<mapsto> a)"
      "\<exists>it. m_IpTable s' (m_ui128IpHash u) = Some it \<and> m_pFirstUser it = a"
    using HM_Add_first [OF assms] HM_Add_push [OF assms]
    by (cases "m_IpTable s (m_ui128IpHash u)") metis+
  have "same_but_links (hm_users s) (hm_users s')" using sbl by (simp add: same_but_links_def)
  from same_but_links_live [OF this assms(2)] obtain u' where
    u': "hm_users s' a = Some u'" "m_ui128IpHash u' = m_ui128IpHash u" by metis
  from HM_count [OF s'(2) u'(1)] u'(2) s' t show ?thesis
    by (auto simp: HM_FindUser_nick_def HM_FindUser_ip_def hashed_insert)
qed

section \<open>Removing a user\<close>

lemma word_of_nat_pred: "0 < n \<Longrightarrow> word_of_nat n - 1 = (word_of_nat (n - 1) :: 'a::len word)"
  by (cases n) simp_all

lemma slot_remove:
  assumes "as \<noteq> []" and "user_chain h (Some (m_pFirstUser i)) as" and "m_ui16Count i = word_of_nat (length as)"
    and "a \<notin> set as"
  shows "chain_slot (hmod a clear_user_links h) (Some i) as"
  using assms by (simp add: chain_slot_def)

text \<open>The run of the removal, in the four shapes of the chain.\<close>

lemma HM_Remove_run:
  assumes rel: "hm_rel s ch" and u: "hm_users s a = Some u" and a: "a \<in> set (ch (m_ui128IpHash u))"
  shows "\<exists>h it. HM_Remove a s = Inr (s\<lparr>hm_users := h, m_NickTable := (m_NickTable s)(m_sNick u := None),
        m_IpTable := (m_IpTable s)(m_ui128IpHash u := it)\<rparr>)
    \<and> chain_slot h it (remove1 a (ch (m_ui128IpHash u)))
    \<and> same_but_links h (hm_users s) \<and> h a = Some (clear_user_links u)
    \<and> (\<forall>b. b \<notin> set (ch (m_ui128IpHash u)) \<longrightarrow> h b = hm_users s b)"
proof -
  let ?k = "m_ui128IpHash u"
  let ?as = "remove1 a (ch ?k)" and ?hp = "hm_users s"
  let ?clr = "hmod a clear_user_links"
  have hc: "hm_chains s ch" using rel by (simp add: hm_rel_def)
  from hm_chainsD [OF hc a] obtain it where it: "m_IpTable s ?k = Some it"
    and uc: "user_chain ?hp (Some (m_pFirstUser it)) (ch ?k)"
    and cnt: "m_ui16Count it = word_of_nat (length (ch ?k))" and d: "distinct (ch ?k)" by metis
  have "hashed ch a" using a by (auto simp: hashed_def)
  with rel u have nick: "m_NickTable s (m_sNick u) = Some a" unfolding hm_rel_def by blast
  have len: "0 < length (ch ?k)" using a by (cases "ch ?k") auto
  have pred: "m_ui16Count it - 1 = word_of_nat (length ?as)"
    using word_of_nat_pred [OF len] cnt a by (simp add: length_remove1)
  have na: "a \<notin> set ?as" using d by simp
  have live: "\<exists>w. ?hp b = Some w" if "b \<in> set (ch ?k)" for b using dchain_live [OF uc that] .
  have sbl: "same_but_links (?clr h) ?hp" if "same_but_links h ?hp" for h
    by (intro same_but_links_hmod that) simp
  note run = HM_Remove_def Let_def ub_simps
  from uc d a u show ?thesis
  proof (cases rule: user_node.chain_unlink_cases)
    case single
    then have r: "HM_Remove a s = Inr (s\<lparr>hm_users := ?clr ?hp, m_NickTable := (m_NickTable s)(m_sNick u := None),
        m_IpTable := (m_IpTable s)(?k := None)\<rparr>)" using u it nick by (simp add: run)
    show ?thesis
      by (intro exI [of _ "?clr ?hp"] exI [of _ None] conjI r sbl same_but_links_refl)
        (use single u a in \<open>auto simp: chain_slot_def\<close>)
  next
    case (head n)
    let ?h = "hmod n (set_user_prev None) ?hp"
    let ?it = "it\<lparr>m_ui16Count := m_ui16Count it - 1, m_pFirstUser := n\<rparr>"
    obtain w where w: "?hp n = Some w" using live head by blast
    have r: "HM_Remove a s = Inr (s\<lparr>hm_users := ?clr ?h, m_NickTable := (m_NickTable s)(m_sNick u := None),
        m_IpTable := (m_IpTable s)(?k := Some ?it)\<rparr>)" using u it nick head w by (simp add: run)
    have "chain_slot (?clr ?h) (Some ?it) ?as" using head pred na by (intro slot_remove) auto
    then show ?thesis
      by (intro exI [of _ "?clr ?h"] exI [of _ "Some ?it"] conjI r sbl same_but_links_hmod)
        (use head u a in \<open>auto simp: hmod_def\<close>)
  next
    case (last c)
    let ?h = "hmod c (set_user_next None) ?hp"
    let ?it = "it\<lparr>m_ui16Count := m_ui16Count it - 1\<rparr>"
    obtain w where w: "?hp c = Some w" using live last by blast
    have r: "HM_Remove a s = Inr (s\<lparr>hm_users := ?clr ?h, m_NickTable := (m_NickTable s)(m_sNick u := None),
        m_IpTable := (m_IpTable s)(?k := Some ?it)\<rparr>)" using u it nick last w by (simp add: run)
    have "chain_slot (?clr ?h) (Some ?it) ?as" using last pred na by (intro slot_remove) auto
    then show ?thesis
      by (intro exI [of _ "?clr ?h"] exI [of _ "Some ?it"] conjI r sbl same_but_links_hmod)
        (use last u a in \<open>auto simp: hmod_def\<close>)
  next
    case (mid c n)
    let ?h = "hmod n (set_user_prev (Some c)) (hmod c (set_user_next (Some n)) ?hp)"
    let ?it = "it\<lparr>m_ui16Count := m_ui16Count it - 1\<rparr>"
    obtain w w' where w: "?hp c = Some w" "?hp n = Some w'" using live mid by blast
    have r: "HM_Remove a s = Inr (s\<lparr>hm_users := ?clr ?h, m_NickTable := (m_NickTable s)(m_sNick u := None),
        m_IpTable := (m_IpTable s)(?k := Some ?it)\<rparr>)" using u it nick mid w by (simp add: run)
    have "chain_slot (?clr ?h) (Some ?it) ?as" using mid pred na by (intro slot_remove) auto
    then show ?thesis
      by (intro exI [of _ "?clr ?h"] exI [of _ "Some ?it"] conjI r sbl same_but_links_hmod)
        (use mid u a in \<open>auto simp: hmod_def\<close>)
  qed
qed

lemma HM_Remove_rel:
  assumes rel: "hm_rel s ch" and u: "hm_users s a = Some u" and a: "a \<in> set (ch (m_ui128IpHash u))"
  shows "\<exists>s'. HM_Remove a s = Inr s'
    \<and> hm_rel s' (ch(m_ui128IpHash u := remove1 a (ch (m_ui128IpHash u))))
    \<and> HM_FindUser_nick s' (m_sNick u) = None
    \<and> hm_users s' a = Some (clear_user_links u)
    \<and> same_but_links (hm_users s') (hm_users s)"
proof -
  let ?k = "m_ui128IpHash u"
  have hc: "hm_chains s ch" using rel by (simp add: hm_rel_def)
  from HM_Remove_run [OF assms] obtain h it where
    run: "HM_Remove a s = Inr (s\<lparr>hm_users := h, m_NickTable := (m_NickTable s)(m_sNick u := None),
        m_IpTable := (m_IpTable s)(?k := it)\<rparr>)" (is "_ = Inr ?s'")
    and slot: "chain_slot h it (remove1 a (ch ?k))" and sbl: "same_but_links h (hm_users s)"
    and clr: "h a = Some (clear_user_links u)" and frame: "\<And>b. b \<notin> set (ch ?k) \<Longrightarrow> h b = hm_users s b" by auto
  have ips: "\<exists>u'. hm_users s b = Some u' \<and> m_ui128IpHash w = m_ui128IpHash u'" if "h b = Some w" for b w
    using same_but_links_live [OF sbl that] by metis
  have d: "distinct (ch ?k)" using hc unfolding hm_chains_def by blast
  have mem: "m_ui128IpHash w = ?k" if "b \<in> set (remove1 a (ch ?k))" "hm_users s b = Some w" for b w
    using that hc set_remove1_subset [of a "ch ?k"] unfolding hm_chains_def by blast
  have "hm_chains ?s' (ch(?k := remove1 a (ch ?k)))"
  proof (rule hm_chains_upd [OF hc _ slot _ ips mem, where anew = a])
    show "distinct (remove1 a (ch ?k))" using d by (rule distinct_remove1)
    show "h b = hm_users s b" if "b \<notin> insert a (set (ch ?k))" for b using that by (intro frame) simp
    show "a \<notin> set (ch k')" if "k' \<noteq> ?k" for k' using that hashed_unique [OF hc a] by blast
  qed simp_all
  moreover have "h b = hm_users s b" if "\<not> hashed ch b" for b
    using that frame unfolding hashed_def by blast
  moreover have "m_pHashIpTablePrev w = None \<and> m_pHashIpTableNext w = None" if "h a = Some w" for w
    using that clr by auto
  ultimately have "hm_rel ?s' (ch(?k := remove1 a (ch ?k)))"
    using sbl by (intro hm_rel_delete [OF rel u a]) simp_all
  with run clr sbl show ?thesis by (simp add: HM_FindUser_nick_def)
qed

section \<open>Runs of the table\<close>

text \<open>The life of the table: users are created, registered once under a free nick, and removed.\<close>

inductive hm_step :: "HashManager \<Rightarrow> HashManager \<Rightarrow> bool" where
  connect: "hm_users s a = None \<Longrightarrow> m_pHashIpTablePrev u = None \<Longrightarrow> m_pHashIpTableNext u = None \<Longrightarrow>
     hm_step s (s\<lparr>hm_users := (hm_users s)(a \<mapsto> u)\<rparr>)"
| register: "hm_users s a = Some u \<Longrightarrow> (\<forall>n. m_NickTable s n \<noteq> Some a) \<Longrightarrow> m_NickTable s (m_sNick u) = None \<Longrightarrow>
     HM_Add a s = Inr s' \<Longrightarrow> hm_step s s'"
| unregister: "hm_users s a = Some u \<Longrightarrow> m_NickTable s (m_sNick u) = Some a \<Longrightarrow> HM_Remove a s = Inr s' \<Longrightarrow>
     hm_step s s'"

definition hm_init :: HashManager where
  "hm_init = \<lparr>hm_users = (\<lambda>_. None), m_NickTable = (\<lambda>_. None), m_IpTable = (\<lambda>_. None)\<rparr>"

inductive hm_reachable :: "HashManager \<Rightarrow> bool" where
  hm_start: "hm_reachable hm_init"
| hm_next: "hm_reachable s \<Longrightarrow> hm_step s s' \<Longrightarrow> hm_reachable s'"

lemma hm_rel_init: "hm_rel hm_init (\<lambda>_. [])"
  by (simp add: hm_rel_def hm_chains_def chain_slot_def hm_init_def hashed_def)

lemma hashed_live: "hm_rel s ch \<Longrightarrow> hashed ch a \<Longrightarrow> \<exists>u. hm_users s a = Some u"
  unfolding hm_rel_def hashed_def by (metis hm_chainsD)

lemma hm_rel_connect:
  assumes rel: "hm_rel s ch" and new: "hm_users s a = None"
    and links: "m_pHashIpTablePrev u = None" "m_pHashIpTableNext u = None"
  shows "hm_rel (s\<lparr>hm_users := (hm_users s)(a \<mapsto> u)\<rparr>) ch"
proof -
  have na: "\<not> hashed ch a" using hashed_live [OF rel] new by fastforce
  then have n: "a \<notin> set (ch k)" for k by (simp add: hashed_def)
  have "chain_slot ((hm_users s)(a \<mapsto> u)) it (ch k) = chain_slot (hm_users s) it (ch k)" for it k
    using n by (simp add: chain_slot_def split: option.splits)
  with rel n have "hm_chains (s\<lparr>hm_users := (hm_users s)(a \<mapsto> u)\<rparr>) ch"
    unfolding hm_rel_def hm_chains_def by auto
  with rel na links show ?thesis unfolding hm_rel_def by auto
qed

lemma hm_step_rel: "hm_step s s' \<Longrightarrow> hm_rel s ch \<Longrightarrow> \<exists>ch'. hm_rel s' ch'"
proof (induction rule: hm_step.induct)
  case (connect s a u)
  then show ?case using hm_rel_connect by blast
next
  case (register s a u s')
  then have "\<not> hashed ch a" unfolding hm_rel_def by blast
  with register show ?case using HM_Add_first [of s ch a u] HM_Add_push [of s ch a u]
    by (cases "m_IpTable s (m_ui128IpHash u)") auto
next
  case (unregister s a u s')
  then have hc: "hm_chains s ch" and "hashed ch a" unfolding hm_rel_def by blast+
  then have a: "a \<in> set (ch (m_ui128IpHash u))"
    using unregister(1) unfolding hashed_def by (metis hm_chainsD option.inject)
  obtain s'' where "HM_Remove a s = Inr s''" "\<exists>ch'. hm_rel s'' ch'"
    using HM_Remove_rel [OF unregister.prems unregister.hyps(1) a] by blast
  with unregister.hyps(3) show ?case by simp
qed

lemma hm_reachable_rel: "hm_reachable s \<Longrightarrow> \<exists>ch. hm_rel s ch"
proof (induction rule: hm_reachable.induct)
  case hm_start
  show ?case using hm_rel_init by blast
next
  case (hm_next s s')
  then show ?case using hm_step_rel by blast
qed


definition demo_user :: "string \<Rightarrow> byte \<Rightarrow> User" where
  "demo_user n b = blank_user\<lparr>m_sNick := n, m_ui32NickHash := HashNick n,
     m_ui128IpHash := replicate 10 0 @ [255, 255, 10, 0, 0, b], m_sIP := ''10.0.0.'' @ to_dec (unat b),
     m_ui8State := STATE_ADDED\<rparr>"

definition demo_table :: HashManager where
  "demo_table = hm_init\<lparr>hm_users := [1 \<mapsto> demo_user ''alice'' 7, 2 \<mapsto> demo_user ''bob'' 7]\<rparr>"

lemma demo_table_reachable: "hm_reachable demo_table"
proof -
  have 1: "hm_reachable (hm_init\<lparr>hm_users := [1 \<mapsto> demo_user ''alice'' 7]\<rparr>)" (is "hm_reachable ?s")
    by (rule hm_next [OF hm_start])
      (use connect [of hm_init 1 "demo_user ''alice'' 7"] in \<open>simp add: hm_init_def demo_user_def blank_user_def\<close>)
  have "hm_step ?s demo_table"
    using connect [of ?s 2 "demo_user ''bob'' 7"] by (simp add: demo_user_def blank_user_def demo_table_def)
  with 1 show ?thesis by (rule hm_next)
qed

lemma demo_table_rel: "hm_rel demo_table (\<lambda>_. [])"
  by (simp add: hm_rel_def hm_chains_def chain_slot_def hm_init_def hashed_def demo_table_def demo_user_def blank_user_def)

theorem HM_Add_refines_witness:
  "\<exists>s'. HM_Add 1 demo_table = Inr s' \<and> HM_FindUser_nick s' ''alice'' = Some 1
     \<and> HM_GetUserIpCount s' 1 = Inr 1"
proof -
  have u: "hm_users demo_table 1 = Some (demo_user ''alice'' 7)" by (simp add: demo_table_def)
  have n: "\<not> hashed (\<lambda>_. []) 1" by (simp add: hashed_def)
  have f: "m_NickTable demo_table (m_sNick (demo_user ''alice'' 7)) = None"
    by (simp add: demo_table_def hm_init_def)
  from HM_Add_refines [OF demo_table_rel u n f] show ?thesis by (auto simp: demo_user_def blank_user_def)
qed


lemma max_loop:
  "m \<le> HM_GetMaxIpCount its m \<and> (\<forall>it \<in> set its. m_ui16Count it \<le> HM_GetMaxIpCount its m)
     \<and> HM_GetMaxIpCount its m \<in> insert m (m_ui16Count ` set its)"
proof (induction its arbitrary: m)
  case (Cons it its)
  show ?case
  proof (cases "m_ui16Count it > m")
    case True
    with Cons [of "m_ui16Count it"] show ?thesis by auto
  next
    case False
    with Cons [of m] show ?thesis by auto
  qed
qed simp

end
