(* ===== verification/UserIO.thy ===== *)
theory UserIO
  imports UserHash
begin

text \<open>
  The life of one connection in \<open>core/User.cpp\<close>: queueing and sending text, closing, and the small state
  transitions.  The hub is the table of users with the counters these functions keep; calls into components
  that are not modelled are recorded in \<open>trace\<close> in the order they happen.  The socket's answer and the
  compressor are arguments.
\<close>

section \<open>The hub as these functions see it\<close>

datatype hub_call =
    DelFromNickList string bool
  | DelFromUserIP addr
  | QuitQueued string
  | Add2RecTimes addr
  | UserDisconnected addr
  | DelFromMyInfosTag addr
  | DelFromMyInfos addr
  | DelFromExtJSONInfos addr
  | DebugBroadcast string
  | StatusMessage string
  | Add2OpList addr
  | DelFromOpList string
  | OpListStore string
  | MyInfoQueued string string

record hub_config =
  keep_slow_users :: bool
  full_myinfo_option :: nat
  hub_ip :: string
  use_ipv4 :: bool
  tcp_port :: u16
  global_buffer_size :: nat

record hub =
  hub_users :: HashManager
  m_ui64TotalShare :: u64
  m_ui32Logged :: u32
  m_ui64BytesSent :: u64
  m_ui64BytesSentSaved :: u64
  m_ui32MyInfosTagLen :: u32
  m_ui32MyInfosLen :: u32
  trace :: "hub_call list"

definition call :: "hub_call \<Rightarrow> hub \<Rightarrow> hub" where
  "call c H = H\<lparr>trace := trace H @ [c]\<rparr>"

definition the_user :: "addr \<Rightarrow> hub \<Rightarrow> User res" where
  "the_user a H = deref (hm_users (hub_users H)) a"

definition set_user :: "addr \<Rightarrow> (User \<Rightarrow> User) \<Rightarrow> hub \<Rightarrow> hub res" where
  "set_user a f H =
     rbind (hwrite a f (hm_users (hub_users H))) (\<lambda>h. Inr (H\<lparr>hub_users := (hub_users H)\<lparr>hm_users := h\<rparr>\<rparr>))"

section \<open>Closing\<close>

text \<open>What closing a user who had reached the user list does.\<close>

definition leave_userlist :: "hub_config \<Rightarrow> addr \<Rightarrow> bool \<Rightarrow> hub \<Rightarrow> hub res" where
  "leave_userlist cfg a bNoQuit H =
     rbind (the_user a H) (\<lambda>u.
     let H1 = call (DelFromUserIP a) (call (DelFromNickList (m_sNick u) (has_bits (m_ui32BoolBits u) BIT_OPERATOR)) H);
         quit = ''$Quit '' @ m_sNick u @ ''|'';
         H2 = (if bNoQuit then H1
               else call (Add2RecTimes a)
                 (if \<not> has_bits (m_ui32InfoBits u) INFOBIT_HIDDEN \<and> \<not> has_bits (m_ui32InfoBits u) INFOBIT_NO_QUIT
                  then (if CheckSprintf (int (length quit)) (global_buffer_size cfg) then call (QuitQueued quit) H1 else H1)
                  else H1))
     in rbind (if has_bits (m_ui32BoolBits u) BIT_HAVE_SHARECOUNTED then
                 set_user a (\<lambda>u. u\<lparr>m_ui32BoolBits := m_ui32BoolBits u AND NOT BIT_HAVE_SHARECOUNTED\<rparr>)
                   (H2\<lparr>m_ui64TotalShare := m_ui64TotalShare H2 - m_ui64SharedSize u\<rparr>)
               else Inr H2)
          (\<lambda>H3. Inr (call (UserDisconnected a) H3)))"

definition User_Close :: "hub_config \<Rightarrow> addr \<Rightarrow> bool \<Rightarrow> hub \<Rightarrow> hub res" where
  "User_Close cfg a bNoQuit H =
     rbind (the_user a H) (\<lambda>u.
     if isPastLogin (m_ui8State u) then Inr H
     else
       let ui8OldState = m_ui8State u in
       rbind (set_user a (\<lambda>u. u\<lparr>m_ui8State := STATE_CLOSING\<rparr>) H) (\<lambda>H1.
       rbind (if has_bits (m_ui32BoolBits u) BIT_HASHED
              then rbind (HM_Remove a (hub_users H1)) (\<lambda>t. Inr (H1\<lparr>hub_users := t\<rparr>)) else Inr H1) (\<lambda>H2.
       rbind (if ui8OldState \<ge> STATE_ADDME_2LOOP then leave_userlist cfg a bNoQuit H2 else Inr H2) (\<lambda>H3.
       let H4 = (if \<not> has_bits (m_ui32InfoBits u) INFOBIT_HIDDEN \<and> ui8OldState > STATE_ADDME_2LOOP
                 then H3\<lparr>m_ui32Logged := m_ui32Logged H3 - 1\<rparr> else H3) in
       rbind (set_user a (\<lambda>u. u\<lparr>m_CmdList := [], m_CmdToUserList := []\<rparr>) H4) (\<lambda>H5.
       let H6 = (if m_sMyInfoLong u \<noteq> [] \<and> full_myinfo_option cfg \<noteq> 2 then call (DelFromMyInfosTag a) H5 else H5);
           H7 = (if m_sMyInfoShort u \<noteq> [] \<and> full_myinfo_option cfg \<noteq> 0 then call (DelFromMyInfos a) H6 else H6);
           H8 = call (DelFromExtJSONInfos a) H7
       in if sb_data (m_SendBuf u) = [] \<or> has_bits (m_ui32BoolBits u) BIT_ERROR
          then set_user a (\<lambda>u. u\<lparr>m_ui8State := STATE_REMME\<rparr>) H8
          else set_user a (\<lambda>u. u\<lparr>m_ui32ToCloseLoops := 100\<rparr>) H8)))))"

section \<open>Queueing and sending\<close>

definition g_ui32ZMinDataLen :: nat where "g_ui32ZMinDataLen = 128"

definition PutInSendBuf :: "hub_config \<Rightarrow> addr \<Rightarrow> string \<Rightarrow> hub \<Rightarrow> (hub \<times> bool) res" where
  "PutInSendBuf cfg a sText H =
     rbind (the_user a H) (\<lambda>u.
     let m = max_buf_len (has_bits (m_ui32BoolBits u) BIT_BIG_SEND_BUFFER) (m_ui32MyInfosTagLen H) (m_ui32MyInfosLen H);
         keep = (keep_slow_users cfg \<and> \<not> has_bits (m_ui32SupportBits u) SUPPORTBIT_ZPIPE)
     in rbind (put_in_buf m keep sText (m_SendBuf u)) (\<lambda>r.
          case r of
            Some b \<Rightarrow> rbind (set_user a (\<lambda>u. u\<lparr>m_SendBuf := b\<rparr>) H) (\<lambda>H1. Inr (H1, True))
          | None \<Rightarrow>
              rbind (set_user a (\<lambda>u. u\<lparr>m_ui32BoolBits := m_ui32BoolBits u OR BIT_ERROR,
                       m_SendBuf := (m_SendBuf u)\<lparr>sb_called := sb_called (m_SendBuf u) + 1\<rparr>\<rparr>) H) (\<lambda>H1.
              rbind (User_Close cfg a False (call (DebugBroadcast ''SendBuffer overflow'') H1)) (\<lambda>H2. Inr (H2, False)))))"

definition to_int32 :: "nat \<Rightarrow> int" where
  "to_int32 n = sint (word_of_nat n :: u32)"

definition close_with_error :: "hub_config \<Rightarrow> addr \<Rightarrow> hub \<Rightarrow> hub res" where
  "close_with_error cfg a H =
     rbind (set_user a (\<lambda>u. u\<lparr>m_ui32BoolBits := m_ui32BoolBits u OR BIT_ERROR\<rparr>) H) (User_Close cfg a False)"

definition Try2Send :: "hub_config \<Rightarrow> send_result \<Rightarrow> addr \<Rightarrow> hub \<Rightarrow> (hub \<times> bool) res" where
  "Try2Send cfg sock a H =
     rbind (the_user a H) (\<lambda>u.
     let b = m_SendBuf u in
     if has_bits (m_ui32BoolBits u) BIT_ERROR \<or> sb_data b = [] then Inr (H, False)
     else
       let off = to_int32 (sb_head b); len = to_int32 (length (sb_data b)) - off in
       if off < 0 \<or> len < 0 then rbind (close_with_error cfg a H) (\<lambda>H1. Inr (H1, False))
       else
         (case sock of
            SendError \<Rightarrow>
              rbind (close_with_error cfg a (call (DebugBroadcast ''send() error'') H)) (\<lambda>H1. Inr (H1, False))
          | WouldBlock \<Rightarrow> Inr (H, True)
          | Sent n \<Rightarrow>
              let H1 = H\<lparr>m_ui64BytesSent := m_ui64BytesSent H + word_of_nat n\<rparr>;
                  big = has_bits (m_ui32BoolBits u) BIT_BIG_SEND_BUFFER;
                  (b', more) = after_send big n b;
                  freed = (\<not> int n < len \<and> (big \<or> sb_len b > 1024))
              in rbind (set_user a (\<lambda>u. u\<lparr>m_SendBuf := b',
                          m_ui32BoolBits := (if freed then m_ui32BoolBits u AND NOT BIT_BIG_SEND_BUFFER
                                             else m_ui32BoolBits u)\<rparr>) H1)
                   (\<lambda>H2. Inr (H2, more))))"

text \<open>Queue a text, compressed when the user can read it and it gets smaller; send at once if asked to.\<close>

definition put_and_send :: "hub_config \<Rightarrow> send_result \<Rightarrow> bool \<Rightarrow> addr \<Rightarrow> string \<Rightarrow> hub \<Rightarrow> hub res" where
  "put_and_send cfg sock now a sText H =
     rbind (PutInSendBuf cfg a sText H) (\<lambda>(H1, ok).
       if ok \<and> now then rbind (Try2Send cfg sock a H1) (\<lambda>(H2, _). Inr H2) else Inr H1)"

definition queue_text :: "hub_config \<Rightarrow> (string \<Rightarrow> string option) \<Rightarrow> send_result \<Rightarrow> bool \<Rightarrow> addr \<Rightarrow> string \<Rightarrow> hub \<Rightarrow> hub res" where
  "queue_text cfg CreateZPipe sock now a sText H =
     rbind (the_user a H) (\<lambda>u.
       if \<not> has_bits (m_ui32SupportBits u) SUPPORTBIT_ZPIPE \<or> length sText < g_ui32ZMinDataLen
       then put_and_send cfg sock now a sText H
       else
         (case CreateZPipe sText of
            None \<Rightarrow> put_and_send cfg sock now a sText H
          | Some sData \<Rightarrow>
              rbind (put_and_send cfg sock now a sData H) (\<lambda>H1.
                Inr (H1\<lparr>m_ui64BytesSentSaved := m_ui64BytesSentSaved H1 + word_of_nat (length sText) - word_of_nat (length sData)\<rparr>))))"

definition SendChar :: "hub_config \<Rightarrow> (string \<Rightarrow> string option) \<Rightarrow> send_result \<Rightarrow> addr \<Rightarrow> string \<Rightarrow> hub \<Rightarrow> hub res" where
  "SendChar cfg CreateZPipe sock a sText H =
     rbind (the_user a H) (\<lambda>u.
       if isPastLogin (m_ui8State u) \<or> sText = [] then Inr H else queue_text cfg CreateZPipe sock True a sText H)"

definition SendCharDelayed :: "hub_config \<Rightarrow> (string \<Rightarrow> string option) \<Rightarrow> addr \<Rightarrow> string \<Rightarrow> hub \<Rightarrow> hub res" where
  "SendCharDelayed cfg CreateZPipe a sText H =
     rbind (the_user a H) (\<lambda>u.
       if isPastLogin (m_ui8State u) \<or> sText = [] then Inr H
       else queue_text cfg CreateZPipe WouldBlock False a sText H)"

text \<open>\<open>sText\<close> is what the format expands to.  An empty or truncated text is not sent.\<close>

definition SendFormat :: "hub_config \<Rightarrow> (string \<Rightarrow> string option) \<Rightarrow> send_result \<Rightarrow> bool \<Rightarrow> addr \<Rightarrow> string \<Rightarrow> hub \<Rightarrow> hub res" where
  "SendFormat cfg CreateZPipe sock bDelayed a sText H =
     rbind (the_user a H) (\<lambda>u.
       if isPastLogin (m_ui8State u) then Inr H
       else if length sText = 0 \<or> length sText \<ge> global_buffer_size cfg then Inr H
       else queue_text cfg CreateZPipe sock (\<not> bDelayed) a sText H)"

definition SendFormatCheckPM :: "hub_config \<Rightarrow> (string \<Rightarrow> string option) \<Rightarrow> send_result \<Rightarrow> string option \<Rightarrow> bool \<Rightarrow> addr
    \<Rightarrow> string \<Rightarrow> hub \<Rightarrow> hub res" where
  "SendFormatCheckPM cfg CreateZPipe sock sOtherNick bDelayed a sText H =
     rbind (the_user a H) (\<lambda>u.
       if isPastLogin (m_ui8State u) then Inr H
       else
         let prefix = (case sOtherNick of None \<Rightarrow> [] | Some n \<Rightarrow> ''$To: '' @ m_sNick u @ '' From: '' @ n @ '' $'') in
         if sOtherNick \<noteq> None \<and> length prefix \<ge> global_buffer_size cfg then Inr H
         else if length sText = 0 \<or> length sText \<ge> global_buffer_size cfg - length prefix then Inr H
         else queue_text cfg CreateZPipe sock (\<not> bDelayed) a (prefix @ sText) H)"

section \<open>Small transitions\<close>

definition AddMeOrIPv4Check :: "hub_config \<Rightarrow> (string \<Rightarrow> string option) \<Rightarrow> u64 \<Rightarrow> addr \<Rightarrow> hub \<Rightarrow> hub res" where
  "AddMeOrIPv4Check cfg CreateZPipe tick a H =
     rbind (the_user a H) (\<lambda>u.
       if has_bits (m_ui32BoolBits u) BIT_IPV6 \<and> has_bits (m_ui32SupportBits u) SUPPORTBIT_IPV4
          \<and> hub_ip cfg \<noteq> [] \<and> use_ipv4 cfg
       then
         rbind (set_user a (\<lambda>u. u\<lparr>m_ui8State := STATE_IPV4_CHECK, m_ui64IPv4CheckTick := tick\<rparr>) H) (\<lambda>H1.
           SendFormat cfg CreateZPipe WouldBlock True a
             (''$ConnectToMe '' @ m_sNick u @ '' '' @ hub_ip cfg @ '':'' @ to_dec (unat (tcp_port cfg)) @ ''|'') H1)
       else set_user a (\<lambda>u. u\<lparr>m_ui8State := STATE_ADDME\<rparr>) H)"

definition SetBuffer :: "string \<Rightarrow> User \<Rightarrow> User" where
  "SetBuffer sKickMsg u =
     (if length sKickMsg < 512 then u\<lparr>m_LogBuffer := sKickMsg @ [CHR 0x00]\<rparr>
      else u\<lparr>m_LogBuffer := take 508 sKickMsg @ ''...'' @ [CHR 0x00]\<rparr>)"

definition FreeBuffer :: "User \<Rightarrow> User" where
  "FreeBuffer u = u\<lparr>m_LogBuffer := []\<rparr>"

text \<open>Type 0 (\<open>CTM_MCTM_RCTM_SR_TO\<close>) collects texts per receiver; other types are queued one by one.\<close>

fun add_to_user :: "addr \<Rightarrow> string \<Rightarrow> string \<Rightarrow> bool \<Rightarrow> PrcsdToUsrCmd list \<Rightarrow> PrcsdToUsrCmd list" where
  "add_to_user pToUser nick sCommand bIsPm [] =
     [\<lparr>to_sCommand = sCommand, to_ui32PmCount = (if bIsPm then 1 else 0), to_ui32Loops = 0,
       to_pToUser = pToUser, to_nick = nick\<rparr>]"
| "add_to_user pToUser nick sCommand bIsPm (pItem # items) =
     (if to_pToUser pItem = pToUser
      then pItem\<lparr>to_sCommand := to_sCommand pItem @ sCommand,
                 to_ui32PmCount := to_ui32PmCount pItem + (if bIsPm then 1 else 0)\<rparr> # items
      else pItem # add_to_user pToUser nick sCommand bIsPm items)"

definition AddPrcsdCmd :: "addr \<Rightarrow> byte \<Rightarrow> string \<Rightarrow> addr option \<Rightarrow> bool \<Rightarrow> hub \<Rightarrow> hub res" where
  "AddPrcsdCmd a ui8Type sCommand pExtraData bIsPm H =
     (if ui8Type = 0 then
        (case pExtraData of
           None \<Rightarrow> Inl NullDeref
         | Some pToUser \<Rightarrow>
             rbind (the_user pToUser H) (\<lambda>r.
               set_user a (\<lambda>u. u\<lparr>m_CmdToUserList :=
                 add_to_user pToUser (m_sNick r) sCommand bIsPm (m_CmdToUserList u)\<rparr>) H))
      else
        set_user a (\<lambda>u. u\<lparr>m_CmdList := m_CmdList u @
          [\<lparr>cmd_sCommand = sCommand @ [CHR 0x00], cmd_ui32Len = word_of_nat (length sCommand),
            cmd_ui8Type = ui8Type, cmd_pPtr = pExtraData\<rparr>]\<rparr>) H)"

end
