(* ===== verification/UserClose.thy ===== *)
theory UserClose
  imports UserIO
begin

text \<open>
  Closing a connection: it happens once, takes the user out of the tables, and announces what it has to
  announce in the order other components expect.  Also the text functions: what they queue.
\<close>

section \<open>Updating one user\<close>

definition upd :: "addr \<Rightarrow> (User \<Rightarrow> User) \<Rightarrow> hub \<Rightarrow> hub" where
  "upd a f H = H\<lparr>hub_users := (hub_users H)\<lparr>hm_users := hmod a f (hm_users (hub_users H))\<rparr>\<rparr>"

lemma set_user_run: "the_user a H = Inr u \<Longrightarrow> set_user a f H = Inr (upd a f H)"
  by (simp add: set_user_def upd_def the_user_def ub_simps)

lemma the_user_upd [simp]: "the_user a H = Inr u \<Longrightarrow> the_user a (upd a f H) = Inr (f u)"
  by (simp add: the_user_def upd_def ub_simps)

lemma the_user_call [simp]: "the_user a (call c H) = the_user a H"
  by (simp add: the_user_def call_def)

lemma the_user_counters [simp]:
  "the_user a (H\<lparr>m_ui64TotalShare := x\<rparr>) = the_user a H" "the_user a (H\<lparr>m_ui32Logged := y\<rparr>) = the_user a H"
  "the_user a (H\<lparr>m_ui64BytesSent := x\<rparr>) = the_user a H" "the_user a (H\<lparr>m_ui64BytesSentSaved := x\<rparr>) = the_user a H"
  by (simp_all add: the_user_def)

lemma upd_fields [simp]:
  "m_ui64TotalShare (upd a f H) = m_ui64TotalShare H" "m_ui32Logged (upd a f H) = m_ui32Logged H"
  "trace (upd a f H) = trace H" "m_NickTable (hub_users (upd a f H)) = m_NickTable (hub_users H)"
  "m_IpTable (hub_users (upd a f H)) = m_IpTable (hub_users H)"
  "hm_users (hub_users (upd a f H)) = hmod a f (hm_users (hub_users H))"
  by (simp_all add: upd_def)

lemma call_fields [simp]:
  "m_ui64TotalShare (call c H) = m_ui64TotalShare H" "m_ui32Logged (call c H) = m_ui32Logged H"
  "trace (call c H) = trace H @ [c]" "hub_users (call c H) = hub_users H"
  by (simp_all add: call_def)

text \<open>Functions that leave alone what the tables depend on.\<close>

definition keeps :: "(User \<Rightarrow> User) \<Rightarrow> bool" where
  "keeps f \<longleftrightarrow> (\<forall>u. m_sNick (f u) = m_sNick u \<and> m_ui128IpHash (f u) = m_ui128IpHash u
     \<and> m_pHashIpTablePrev (f u) = m_pHashIpTablePrev u \<and> m_pHashIpTableNext (f u) = m_pHashIpTableNext u)"

lemma hm_rel_keeps:
  assumes rel: "hm_rel s ch" and k: "keeps f"
  shows "hm_rel (s\<lparr>hm_users := hmod a f (hm_users s)\<rparr>) ch"
proof -
  let ?h = "hmod a f (hm_users s)"
  have fwd: "\<exists>u'. ?h b = Some u' \<and> m_pHashIpTablePrev u' = m_pHashIpTablePrev u
      \<and> m_pHashIpTableNext u' = m_pHashIpTableNext u" if "hm_users s b = Some u" for b u
    using that k by (cases "b = a") (auto simp: keeps_def)
  have bwd: "\<exists>u'. hm_users s b = Some u' \<and> m_sNick u = m_sNick u' \<and> m_ui128IpHash u = m_ui128IpHash u'
      \<and> m_pHashIpTablePrev u = m_pHashIpTablePrev u' \<and> m_pHashIpTableNext u = m_pHashIpTableNext u'"
    if "?h b = Some u" for b u
    using that k by (cases "b = a") (auto simp: keeps_def)
  have nick: "(\<exists>u. ?h b = Some u \<and> m_sNick u = n) \<longleftrightarrow> (\<exists>u. hm_users s b = Some u \<and> m_sNick u = n)" for b n
    using k by (cases "b = a") (auto simp: keeps_def)
  have slot: "chain_slot ?h it (ch x)" if "chain_slot (hm_users s) it (ch x)" for it x
    using that dchain_keeps_links [OF fwd] by (auto simp: chain_slot_def split: option.splits)
  have "hm_chains (s\<lparr>hm_users := ?h\<rparr>) ch"
    using rel slot bwd unfolding hm_rel_def hm_chains_def by simp (metis bwd)
  moreover have "m_pHashIpTablePrev u = None \<and> m_pHashIpTableNext u = None" if "?h b = Some u" "\<not> hashed ch b" for b u
    using bwd [OF that(1)] that(2) rel unfolding hm_rel_def by metis
  ultimately show ?thesis using rel nick unfolding hm_rel_def by simp
qed

text \<open>
  The hub's invariant: the table is consistent, the buffers are well formed, and a user who is not being
  closed is in the table exactly if its flag says so; one who is closing is not.
\<close>

definition user_ok :: "(byte list \<Rightarrow> addr list) \<Rightarrow> addr \<Rightarrow> User \<Rightarrow> bool" where
  "user_ok ch a u \<longleftrightarrow> buf_ok (m_SendBuf u)
     \<and> (if isPastLogin (m_ui8State u) then \<not> hashed ch a else hashed ch a \<longleftrightarrow> has_bits (m_ui32BoolBits u) BIT_HASHED)"

definition hub_rel :: "hub \<Rightarrow> (byte list \<Rightarrow> addr list) \<Rightarrow> bool" where
  "hub_rel H ch \<longleftrightarrow> hm_rel (hub_users H) ch \<and> (\<forall>a u. hm_users (hub_users H) a = Some u \<longrightarrow> user_ok ch a u)"

definition hub_inv :: "hub \<Rightarrow> bool" where
  "hub_inv H \<longleftrightarrow> (\<exists>ch. hub_rel H ch)"

lemma hub_rel_upd:
  assumes "hub_rel H ch" and "keeps f" and "\<And>u. hm_users (hub_users H) a = Some u \<Longrightarrow> user_ok ch a (f u)"
  shows "hub_rel (upd a f H) ch"
  unfolding hub_rel_def
proof (intro conjI allI impI)
  show "hm_rel (hub_users (upd a f H)) ch"
    using hm_rel_keeps [OF _ assms(2)] assms(1) by (simp add: hub_rel_def upd_def)
  fix b u assume "hm_users (hub_users (upd a f H)) b = Some u"
  with assms show "user_ok ch b u" by (cases "b = a") (auto simp: hub_rel_def)
qed

lemma hub_rel_table: "hub_users H' = hub_users H \<Longrightarrow> hub_rel H' ch = hub_rel H ch"
  by (simp add: hub_rel_def)

section \<open>Closing\<close>

text \<open>The calls closing makes, in order.\<close>

definition userlist_calls :: "hub_config \<Rightarrow> addr \<Rightarrow> bool \<Rightarrow> User \<Rightarrow> hub_call list" where
  "userlist_calls cfg a bNoQuit u =
     [DelFromNickList (m_sNick u) (has_bits (m_ui32BoolBits u) BIT_OPERATOR), DelFromUserIP a]
     @ (if bNoQuit then []
        else (if \<not> has_bits (m_ui32InfoBits u) INFOBIT_HIDDEN \<and> \<not> has_bits (m_ui32InfoBits u) INFOBIT_NO_QUIT
                 \<and> CheckSprintf (int (length (''$Quit '' @ m_sNick u @ ''|''))) (global_buffer_size cfg)
              then [QuitQueued (''$Quit '' @ m_sNick u @ ''|'')] else []) @ [Add2RecTimes a])
     @ [UserDisconnected a]"

definition list_calls :: "hub_config \<Rightarrow> addr \<Rightarrow> User \<Rightarrow> hub_call list" where
  "list_calls cfg a u =
     (if m_sMyInfoLong u \<noteq> [] \<and> full_myinfo_option cfg \<noteq> 2 then [DelFromMyInfosTag a] else [])
     @ (if m_sMyInfoShort u \<noteq> [] \<and> full_myinfo_option cfg \<noteq> 0 then [DelFromMyInfos a] else [])
     @ [DelFromExtJSONInfos a]"

definition close_calls :: "hub_config \<Rightarrow> addr \<Rightarrow> bool \<Rightarrow> User \<Rightarrow> hub_call list" where
  "close_calls cfg a bNoQuit u =
     (if m_ui8State u \<ge> STATE_ADDME_2LOOP then userlist_calls cfg a bNoQuit u else []) @ list_calls cfg a u"

definition shares :: "User \<Rightarrow> bool" where
  "shares u \<longleftrightarrow> m_ui8State u \<ge> STATE_ADDME_2LOOP \<and> has_bits (m_ui32BoolBits u) BIT_HAVE_SHARECOUNTED"

text \<open>What closing makes of the user object; the links are cleared when it was in the table.\<close>

definition closed_user :: "User \<Rightarrow> User" where
  "closed_user u =
     (let v = u\<lparr>m_CmdList := [], m_CmdToUserList := [],
               m_ui32BoolBits := (if shares u then m_ui32BoolBits u AND NOT BIT_HAVE_SHARECOUNTED else m_ui32BoolBits u)\<rparr>
      in if sb_data (m_SendBuf u) = [] \<or> has_bits (m_ui32BoolBits u) BIT_ERROR
         then v\<lparr>m_ui8State := STATE_REMME\<rparr> else v\<lparr>m_ui8State := STATE_CLOSING, m_ui32ToCloseLoops := 100\<rparr>)"

lemma closed_user_fields [simp]:
  "m_SendBuf (closed_user u) = m_SendBuf u" "isPastLogin (m_ui8State (closed_user u))"
  "m_sNick (closed_user u) = m_sNick u" "m_ui128IpHash (closed_user u) = m_ui128IpHash u"
  by (simp_all add: closed_user_def Let_def isPastLogin_iff)

lemma leave_userlist_run:
  assumes "the_user a H = Inr u"
  shows "\<exists>H'. leave_userlist cfg a bNoQuit H = Inr H'
    \<and> hub_users H' = hub_users (if has_bits (m_ui32BoolBits u) BIT_HAVE_SHARECOUNTED then
          upd a (\<lambda>u. u\<lparr>m_ui32BoolBits := m_ui32BoolBits u AND NOT BIT_HAVE_SHARECOUNTED\<rparr>) H else H)
    \<and> m_ui64TotalShare H' = (if has_bits (m_ui32BoolBits u) BIT_HAVE_SHARECOUNTED
          then m_ui64TotalShare H - m_ui64SharedSize u else m_ui64TotalShare H)
    \<and> m_ui32Logged H' = m_ui32Logged H \<and> trace H' = trace H @ userlist_calls cfg a bNoQuit u"
proof -
  have live: "the_user a (G\<lparr>m_ui64TotalShare := x\<rparr>) = Inr u" if "the_user a G = Inr u" for G x using that by simp
  show ?thesis
    using assms
    by (cases "has_bits (m_ui32BoolBits u) BIT_HAVE_SHARECOUNTED"; cases bNoQuit)
      (auto simp: leave_userlist_def userlist_calls_def Let_def set_user_run [OF live] upd_def)
qed

lemma upd_id: "hm_users (hub_users H) a = Some u \<Longrightarrow> f u = u \<Longrightarrow> upd a f H = H"
  by (simp add: upd_def hmod_def fun_upd_idem)

lemma upd_upd: "upd a f (upd a g H) = upd a (f \<circ> g) H"
  by (simp add: upd_def hmod_def option.map_comp)

lemma hashed_in_chain:
  assumes "hm_rel s ch" and "hm_users s a = Some u" and "hashed ch a"
  shows "a \<in> set (ch (m_ui128IpHash u))"
  using assms unfolding hashed_def hm_rel_def by (metis hm_chainsD option.inject)

lemma clear_user_links_eqD:
  assumes "clear_user_links u = clear_user_links v"
  shows "m_SendBuf u = m_SendBuf v" and "m_ui8State u = m_ui8State v" and "m_ui32BoolBits u = m_ui32BoolBits v"
  using arg_cong [OF assms, of m_SendBuf] arg_cong [OF assms, of m_ui8State] arg_cong [OF assms, of m_ui32BoolBits]
  by simp_all

text \<open>Marking the state and leaving the table.\<close>

lemma close_table:
  assumes hub: "hub_rel H ch" and u: "hm_users (hub_users H) a = Some u" and np: "\<not> isPastLogin (m_ui8State u)"
  shows "\<exists>t ch'. (if has_bits (m_ui32BoolBits u) BIT_HASHED
        then rbind (HM_Remove a (hub_users (upd a (\<lambda>u. u\<lparr>m_ui8State := STATE_CLOSING\<rparr>) H)))
               (\<lambda>t. Inr ((upd a (\<lambda>u. u\<lparr>m_ui8State := STATE_CLOSING\<rparr>) H)\<lparr>hub_users := t\<rparr>))
        else Inr (upd a (\<lambda>u. u\<lparr>m_ui8State := STATE_CLOSING\<rparr>) H))
      = Inr ((upd a (\<lambda>u. u\<lparr>m_ui8State := STATE_CLOSING\<rparr>) H)\<lparr>hub_users := t\<rparr>)
    \<and> hm_rel t ch' \<and> \<not> hashed ch' a \<and> (\<forall>b. b \<noteq> a \<longrightarrow> hashed ch' b = hashed ch b)
    \<and> hm_users t a = Some (clear_user_links (u\<lparr>m_ui8State := STATE_CLOSING\<rparr>))
    \<and> same_but_links (hm_users t) (hm_users (hub_users (upd a (\<lambda>u. u\<lparr>m_ui8State := STATE_CLOSING\<rparr>) H)))"
proof -
  let ?H1 = "upd a (\<lambda>u. u\<lparr>m_ui8State := STATE_CLOSING\<rparr>) H" and ?u1 = "u\<lparr>m_ui8State := STATE_CLOSING\<rparr>"
  have rel0: "hm_rel (hub_users H) ch" and uok: "user_ok ch a u" using hub u by (auto simp: hub_rel_def)
  have rel: "hm_rel (hub_users ?H1) ch"
    using hm_rel_keeps [OF rel0, of "\<lambda>u. u\<lparr>m_ui8State := STATE_CLOSING\<rparr>" a] by (simp add: keeps_def upd_def)
  have u1: "hm_users (hub_users ?H1) a = Some ?u1" using u by simp
  have hs: "hashed ch a \<longleftrightarrow> has_bits (m_ui32BoolBits u) BIT_HASHED" using uok np by (simp add: user_ok_def)
  show ?thesis
  proof (cases "has_bits (m_ui32BoolBits u) BIT_HASHED")
    case True
    then have a: "a \<in> set (ch (m_ui128IpHash ?u1))" using hashed_in_chain [OF rel u1] hs by simp
    from HM_Remove_rel [OF rel u1 a] obtain t where
      t: "HM_Remove a (hub_users ?H1) = Inr t" "hm_rel t (ch(m_ui128IpHash ?u1 := remove1 a (ch (m_ui128IpHash ?u1))))"
        "hm_users t a = Some (clear_user_links ?u1)" "same_but_links (hm_users t) (hm_users (hub_users ?H1))" by blast
    have "hm_chains (hub_users ?H1) ch" using rel by (simp add: hm_rel_def)
    from hashed_delete [OF this a] have "hashed (ch(m_ui128IpHash ?u1 := remove1 a (ch (m_ui128IpHash ?u1)))) b
        \<longleftrightarrow> b \<noteq> a \<and> hashed ch b" for b .
    with t True show ?thesis
      by (intro exI [of _ t] exI [of _ "ch(m_ui128IpHash ?u1 := remove1 a (ch (m_ui128IpHash ?u1)))"]) simp
  next
    case False
    then have "m_pHashIpTablePrev ?u1 = None \<and> m_pHashIpTableNext ?u1 = None"
      using rel u1 hs unfolding hm_rel_def by blast
    then have "clear_user_links ?u1 = ?u1" by simp
    with False hs rel u1 show ?thesis by (intro exI [of _ "hub_users ?H1"] exI [of _ ch]) simp
  qed
qed

lemma User_Close_run:
  assumes hub: "hub_rel H ch" and u: "hm_users (hub_users H) a = Some u" and np: "\<not> isPastLogin (m_ui8State u)"
  shows "\<exists>H' ch'. User_Close cfg a bNoQuit H = Inr H' \<and> hub_rel H' ch' \<and> \<not> hashed ch' a
    \<and> hm_users (hub_users H') a = Some (closed_user (clear_user_links u))
    \<and> m_ui64TotalShare H' = (if shares u then m_ui64TotalShare H - m_ui64SharedSize u else m_ui64TotalShare H)
    \<and> m_ui32Logged H' = (if \<not> has_bits (m_ui32InfoBits u) INFOBIT_HIDDEN \<and> m_ui8State u > STATE_ADDME_2LOOP
        then m_ui32Logged H - 1 else m_ui32Logged H)
    \<and> trace H' = trace H @ close_calls cfg a bNoQuit u"
proof -
  let ?H1 = "upd a (\<lambda>u. u\<lparr>m_ui8State := STATE_CLOSING\<rparr>) H" and ?u1 = "u\<lparr>m_ui8State := STATE_CLOSING\<rparr>"
  from close_table [OF assms] obtain t ch' where
    st2: "(if has_bits (m_ui32BoolBits u) BIT_HASHED
        then rbind (HM_Remove a (hub_users ?H1)) (\<lambda>t. Inr (?H1\<lparr>hub_users := t\<rparr>)) else Inr ?H1)
      = Inr (?H1\<lparr>hub_users := t\<rparr>)"
    and rel: "hm_rel t ch'" and na: "\<not> hashed ch' a" and others: "\<And>b. b \<noteq> a \<Longrightarrow> hashed ch' b = hashed ch b"
    and ta: "hm_users t a = Some (clear_user_links ?u1)"
    and sbl: "same_but_links (hm_users t) (hm_users (hub_users ?H1))" by blast
  let ?H2 = "?H1\<lparr>hub_users := t\<rparr>" and ?u2 = "clear_user_links ?u1"
  have u2: "the_user a ?H2 = Inr ?u2" using ta by (simp add: the_user_def ub_simps)
  have u0: "the_user a H = Inr u" using u by (simp add: the_user_def ub_simps)
  have f2: "m_ui64TotalShare ?H2 = m_ui64TotalShare H" "m_ui32Logged ?H2 = m_ui32Logged H" "trace ?H2 = trace H" by simp_all
  let ?b3 = "if shares u then m_ui32BoolBits u AND NOT BIT_HAVE_SHARECOUNTED else m_ui32BoolBits u"
  have same: "?u2\<lparr>m_ui32BoolBits := ?b3\<rparr> = ?u2" if "\<not> shares u"
  proof -
    have b3: "?b3 = m_ui32BoolBits u" using that by simp
    have "?u2\<lparr>m_ui32BoolBits := m_ui32BoolBits u\<rparr> = ?u2" by (cases u) simp
    then show ?thesis unfolding b3 .
  qed
  have uc: "userlist_calls cfg a bNoQuit ?u2 = userlist_calls cfg a bNoQuit u" by (simp add: userlist_calls_def)
  obtain H3 where st3: "(if m_ui8State u \<ge> STATE_ADDME_2LOOP then leave_userlist cfg a bNoQuit ?H2 else Inr ?H2) = Inr H3"
    and h3: "hub_users H3 = hub_users (upd a (\<lambda>u. u\<lparr>m_ui32BoolBits := ?b3\<rparr>) ?H2)"
    and s3: "m_ui64TotalShare H3 = (if shares u then m_ui64TotalShare H - m_ui64SharedSize u else m_ui64TotalShare H)"
      "m_ui32Logged H3 = m_ui32Logged H"
      "trace H3 = trace H @ (if m_ui8State u \<ge> STATE_ADDME_2LOOP then userlist_calls cfg a bNoQuit u else [])"
  proof (cases "m_ui8State u \<ge> STATE_ADDME_2LOOP")
    case True
    from leave_userlist_run [OF u2, of cfg bNoQuit] obtain H3 where r: "leave_userlist cfg a bNoQuit ?H2 = Inr H3"
      "hub_users H3 = hub_users (if has_bits (m_ui32BoolBits ?u2) BIT_HAVE_SHARECOUNTED then
          upd a (\<lambda>u. u\<lparr>m_ui32BoolBits := m_ui32BoolBits u AND NOT BIT_HAVE_SHARECOUNTED\<rparr>) ?H2 else ?H2)"
      "m_ui64TotalShare H3 = (if has_bits (m_ui32BoolBits ?u2) BIT_HAVE_SHARECOUNTED
          then m_ui64TotalShare ?H2 - m_ui64SharedSize ?u2 else m_ui64TotalShare ?H2)"
      "m_ui32Logged H3 = m_ui32Logged ?H2" "trace H3 = trace ?H2 @ userlist_calls cfg a bNoQuit ?u2" by blast
    have "hub_users H3 = hub_users (upd a (\<lambda>u. u\<lparr>m_ui32BoolBits := ?b3\<rparr>) ?H2)"
    proof (cases "shares u")
      case False
      have "upd a (\<lambda>u. u\<lparr>m_ui32BoolBits := ?b3\<rparr>) ?H2 = ?H2" by (rule upd_id [where u = ?u2]) (use False ta same in auto)
      with r(2) True False show ?thesis by (simp add: shares_def)
    next
      case sh: True
      have "upd a (\<lambda>u. u\<lparr>m_ui32BoolBits := ?b3\<rparr>) ?H2 =
          upd a (\<lambda>u. u\<lparr>m_ui32BoolBits := m_ui32BoolBits u AND NOT BIT_HAVE_SHARECOUNTED\<rparr>) ?H2"
        using sh ta by (simp add: upd_def hmod_def)
      with r(2) True sh show ?thesis by (simp add: shares_def)
    qed
    with r True uc show thesis by (intro that [of H3]) (simp_all add: shares_def)
  next
    case False
    have "hub_users ?H2 = hub_users (upd a (\<lambda>u. u\<lparr>m_ui32BoolBits := ?b3\<rparr>) ?H2)"
      by (subst upd_id [of ?H2 a ?u2]) (use False ta same in \<open>auto simp: shares_def\<close>)
    with False show thesis by (intro that [of ?H2]) (simp_all add: shares_def)
  qed
  let ?H4 = "if \<not> has_bits (m_ui32InfoBits u) INFOBIT_HIDDEN \<and> m_ui8State u > STATE_ADDME_2LOOP
      then H3\<lparr>m_ui32Logged := m_ui32Logged H3 - 1\<rparr> else H3"
  have u4: "the_user a ?H4 = Inr (?u2\<lparr>m_ui32BoolBits := ?b3\<rparr>)"
    using h3 ta by (simp add: the_user_def ub_simps)
  let ?c = "\<lambda>u :: User. u\<lparr>m_CmdList := [], m_CmdToUserList := []\<rparr>"
  let ?fin = "if sb_data (m_SendBuf u) = [] \<or> has_bits (m_ui32BoolBits u) BIT_ERROR
      then (\<lambda>u :: User. u\<lparr>m_ui8State := STATE_REMME\<rparr>) else (\<lambda>u. u\<lparr>m_ui32ToCloseLoops := 100\<rparr>)"
  let ?H5 = "upd a ?c ?H4"
  define H8 where "H8 = call (DelFromExtJSONInfos a)
      (let H6 = (if m_sMyInfoLong u \<noteq> [] \<and> full_myinfo_option cfg \<noteq> 2 then call (DelFromMyInfosTag a) ?H5 else ?H5)
       in (if m_sMyInfoShort u \<noteq> [] \<and> full_myinfo_option cfg \<noteq> 0 then call (DelFromMyInfos a) H6 else H6))"
  have H8: "hub_users H8 = hub_users ?H5" "m_ui64TotalShare H8 = m_ui64TotalShare H3" "m_ui32Logged H8 = m_ui32Logged ?H4"
    "trace H8 = trace H3 @ list_calls cfg a u" by (simp_all add: H8_def list_calls_def Let_def)
  have u8: "the_user a H8 = Inr (?c (?u2\<lparr>m_ui32BoolBits := ?b3\<rparr>))"
    using the_user_upd [OF u4, of ?c] H8(1) unfolding the_user_def by simp
  let ?H9 = "upd a ?fin H8"
  have run: "User_Close cfg a bNoQuit H = Inr ?H9"
    unfolding User_Close_def u0 rbind.simps Let_def set_user_run [OF u0] st2 st3 set_user_run [OF u4]
    using np set_user_run [OF u8] by (simp add: H8_def Let_def)
  have u9: "hm_users (hub_users ?H9) a = Some (closed_user (clear_user_links u))"
    using u8 by (simp add: the_user_def ub_simps closed_user_def shares_def Let_def)
  have hu9: "hub_users ?H9 = t\<lparr>hm_users := hmod a (?fin \<circ> ?c \<circ> (\<lambda>u. u\<lparr>m_ui32BoolBits := ?b3\<rparr>)) (hm_users t)\<rparr>"
    using H8(1) h3 by (simp add: upd_def hmod_def option.map_comp comp_assoc)
  have k: "keeps (?fin \<circ> ?c \<circ> (\<lambda>u. u\<lparr>m_ui32BoolBits := ?b3\<rparr>))" by (simp add: keeps_def)
  have "hm_rel (hub_users ?H9) ch'" unfolding hu9 by (rule hm_rel_keeps [OF rel k])
  moreover have "user_ok ch' b v" if "hm_users (hub_users ?H9) b = Some v" for b v
  proof (cases "b = a")
    case True
    have "buf_ok (m_SendBuf u)" using hub u by (auto simp: hub_rel_def user_ok_def)
    with True that u9 na show ?thesis
      by (auto simp: user_ok_def)
  next
    case False
    with that have "hm_users t b = Some v" unfolding hu9 by simp
    from sbl this have "map_option clear_user_links (hm_users (hub_users ?H1) b) = Some (clear_user_links v)"
      unfolding same_but_links_def by (metis option.simps(9))
    with False obtain v' where v': "hm_users (hub_users H) b = Some v'" "clear_user_links v' = clear_user_links v" by auto
    from hub v'(1) have "user_ok ch b v'" by (simp add: hub_rel_def)
    with clear_user_links_eqD [OF v'(2)] others [OF False] show ?thesis by (simp add: user_ok_def)
  qed
  ultimately have "hub_rel ?H9 ch'" by (simp add: hub_rel_def)
  with run na u9 H8 s3 show ?thesis
    by (intro exI [of _ ?H9] exI [of _ ch']) (simp add: close_calls_def)
qed

text \<open>
  C2.  Closing a user who is not yet being closed succeeds, without touching freed memory, and leaves a
  consistent hub: the user is to be removed at once exactly if nothing is left to send or the connection
  failed, no nick leads to it any more, its share and its place among the logged users are given back once,
  the other components are told in the order of \<open>close_calls\<close>, and closing it again does nothing.
\<close>

theorem User_Close_effect:
  assumes "hub_inv H" and "hm_users (hub_users H) a = Some u" and "\<not> isPastLogin (m_ui8State u)"
  shows "\<exists>H' u'. User_Close cfg a bNoQuit H = Inr H' \<and> hub_inv H'
    \<and> hm_users (hub_users H') a = Some u' \<and> isPastLogin (m_ui8State u')
    \<and> (m_ui8State u' = STATE_REMME \<longleftrightarrow> sb_data (m_SendBuf u) = [] \<or> has_bits (m_ui32BoolBits u) BIT_ERROR)
    \<and> (\<forall>n. HM_FindUser_nick (hub_users H') n \<noteq> Some a)
    \<and> m_ui64TotalShare H' = (if shares u then m_ui64TotalShare H - m_ui64SharedSize u else m_ui64TotalShare H)
    \<and> m_ui32Logged H' = (if \<not> has_bits (m_ui32InfoBits u) INFOBIT_HIDDEN \<and> m_ui8State u > STATE_ADDME_2LOOP
        then m_ui32Logged H - 1 else m_ui32Logged H)
    \<and> trace H' = trace H @ close_calls cfg a bNoQuit u
    \<and> (\<forall>q. User_Close cfg a q H' = Inr H')"
proof -
  from assms(1) obtain ch where "hub_rel H ch" by (auto simp: hub_inv_def)
  from User_Close_run [OF this assms(2,3), of cfg bNoQuit] obtain H' ch' where r:
    "User_Close cfg a bNoQuit H = Inr H'" "hub_rel H' ch'" "\<not> hashed ch' a"
    "hm_users (hub_users H') a = Some (closed_user (clear_user_links u))"
    "m_ui64TotalShare H' = (if shares u then m_ui64TotalShare H - m_ui64SharedSize u else m_ui64TotalShare H)"
    "m_ui32Logged H' = (if \<not> has_bits (m_ui32InfoBits u) INFOBIT_HIDDEN \<and> m_ui8State u > STATE_ADDME_2LOOP
        then m_ui32Logged H - 1 else m_ui32Logged H)"
    "trace H' = trace H @ close_calls cfg a bNoQuit u" by blast
  have inv: "hub_inv H'" using r(2) by (auto simp: hub_inv_def)
  have nick: "HM_FindUser_nick (hub_users H') n \<noteq> Some a" for n
    using r(2,3) unfolding hub_rel_def hm_rel_def HM_FindUser_nick_def by blast
  have st: "m_ui8State (closed_user (clear_user_links u)) = STATE_REMME
      \<longleftrightarrow> sb_data (m_SendBuf u) = [] \<or> has_bits (m_ui32BoolBits u) BIT_ERROR" by (simp add: closed_user_def Let_def)
  have again: "User_Close cfg a q H' = Inr H'" for q
    using r(4) by (simp add: User_Close_def the_user_def ub_simps)
  show ?thesis
    by (intro exI [of _ H'] exI [of _ "closed_user (clear_user_links u)"] conjI allI r inv nick st again) simp
qed

text \<open>An example hub with one registered user.\<close>

definition demo_member :: User where
  "demo_member = blank_user\<lparr>m_sNick := ''alice'', m_ui8State := STATE_ADDED, m_ui32BoolBits := BIT_HASHED\<rparr>"

definition demo_hub :: hub where
  "demo_hub = \<lparr>hub_users = \<lparr>hm_users = [1 \<mapsto> demo_member], m_NickTable = [''alice'' \<mapsto> 1],
       m_IpTable = [replicate 16 0 \<mapsto> \<lparr>m_pFirstUser = 1, m_ui16Count = 1\<rparr>]\<rparr>,
     m_ui64TotalShare = 0, m_ui32Logged = 1, m_ui64BytesSent = 0, m_ui64BytesSentSaved = 0,
     m_ui32MyInfosTagLen = 0, m_ui32MyInfosLen = 0, trace = []\<rparr>"

definition demo_config :: hub_config where
  "demo_config = \<lparr>keep_slow_users = False, full_myinfo_option = 0, hub_ip = [], use_ipv4 = True, tcp_port = 411,
     global_buffer_size = 262144\<rparr>"

lemma demo_hub_user [simp]: "hm_users (hub_users demo_hub) 1 = Some demo_member"
  by (simp add: demo_hub_def)

lemma demo_member_fields [simp]:
  "m_ui8State demo_member = STATE_ADDED" "m_sNick demo_member = ''alice''" "m_SendBuf demo_member = empty_buf"
  "has_bits (m_ui32BoolBits demo_member) BIT_HASHED" "\<not> has_bits (m_ui32SupportBits demo_member) SUPPORTBIT_ZPIPE"
  by (simp_all add: demo_member_def blank_user_def has_bits_def user_bits)

lemma hub_inv_demo: "hub_inv demo_hub"
proof -
  let ?k = "replicate 16 0 :: byte list"
  let ?ch = "(\<lambda>_. [])(?k := [1])"
  have f: "m_ui128IpHash demo_member = ?k" "m_pHashIpTablePrev demo_member = None" "m_pHashIpTableNext demo_member = None"
    by (simp_all add: demo_member_def blank_user_def)
  have "hm_chains (hub_users demo_hub) ?ch"
    using f by (auto simp: hm_chains_def chain_slot_def demo_hub_def dchain_def split: if_splits)
  moreover have "hashed ?ch b \<longleftrightarrow> b = 1" for b by (auto simp: hashed_def)
  ultimately have "hm_rel (hub_users demo_hub) ?ch" using f by (auto simp: hm_rel_def demo_hub_def split: if_splits)
  moreover have "user_ok ?ch b v" if "hm_users (hub_users demo_hub) b = Some v" for b v
    using that buf_ok_empty(1) by (auto simp: demo_hub_def user_ok_def isPastLogin_iff hashed_def split: if_splits)
  ultimately show ?thesis unfolding hub_inv_def hub_rel_def by blast
qed

theorem User_Close_effect_witness:
  "\<exists>H'. User_Close demo_config 1 False demo_hub = Inr H' \<and> HM_FindUser_nick (hub_users H') ''alice'' \<noteq> Some 1
     \<and> trace H' = close_calls demo_config 1 False demo_member"
proof -
  have "\<not> isPastLogin (m_ui8State demo_member)" by (simp add: isPastLogin_iff)
  from User_Close_effect [OF hub_inv_demo demo_hub_user this, of demo_config False] show ?thesis
    by (auto simp: demo_hub_def)
qed

section \<open>Queueing text\<close>

lemma bit_error_hashed: "has_bits (w OR BIT_ERROR) BIT_HASHED = has_bits w BIT_HASHED"
  by (rule has_bits_or_disjoint) (simp add: user_bits)

lemma PutInSendBuf_run:
  assumes hub: "hub_rel H ch" and u: "hm_users (hub_users H) a = Some u" and np: "\<not> isPastLogin (m_ui8State u)"
    and f: "fits t (m_SendBuf u)" and ns: "\<not> keep_slow_users cfg"
  shows "\<exists>H' ok u' ch'. PutInSendBuf cfg a t H = Inr (H', ok) \<and> hub_rel H' ch' \<and> hm_users (hub_users H') a = Some u'
    \<and> (if ok then unsent (m_SendBuf u') = unsent (m_SendBuf u) @ t \<and> m_ui8State u' = m_ui8State u else isPastLogin (m_ui8State u'))"
proof -
  have u0: "the_user a H = Inr u" using u by (simp add: the_user_def ub_simps)
  have uok: "user_ok ch a u" and ok: "buf_ok (m_SendBuf u)" using hub u by (auto simp: hub_rel_def user_ok_def)
  let ?m = "max_buf_len (has_bits (m_ui32BoolBits u) BIT_BIG_SEND_BUFFER) (m_ui32MyInfosTagLen H) (m_ui32MyInfosLen H)"
  from put_in_buf_run [OF ok f, of ?m False] consider
      (over) "put_in_buf ?m False t (m_SendBuf u) = Inr None"
    | (app) b where "put_in_buf ?m False t (m_SendBuf u) = Inr (Some b)" "buf_ok b" "unsent b = unsent (m_SendBuf u) @ t"
    by blast
  then show ?thesis
  proof cases
    case app
    let ?f = "\<lambda>u :: User. u\<lparr>m_SendBuf := b\<rparr>"
    have "PutInSendBuf cfg a t H = Inr (upd a ?f H, True)"
      using u0 app(1) ns by (simp add: PutInSendBuf_def set_user_run [OF u0])
    moreover have "hub_rel (upd a ?f H) ch"
      by (rule hub_rel_upd [OF hub]) (use u uok app(2) in \<open>auto simp: keeps_def user_ok_def\<close>)
    moreover have "hm_users (hub_users (upd a ?f H)) a = Some (?f u)" using u by simp
    ultimately show ?thesis
      using app(3) by (intro exI [of _ "upd a ?f H"] exI [of _ True] exI [of _ "?f u"] exI [of _ ch]) simp
  next
    case over
    let ?f = "\<lambda>u :: User. u\<lparr>m_ui32BoolBits := m_ui32BoolBits u OR BIT_ERROR,
        m_SendBuf := (m_SendBuf u)\<lparr>sb_called := sb_called (m_SendBuf u) + 1\<rparr>\<rparr>"
    let ?H1 = "call (DebugBroadcast ''SendBuffer overflow'') (upd a ?f H)"
    have "hub_rel (upd a ?f H) ch"
      by (rule hub_rel_upd [OF hub]) (use u uok in \<open>auto simp: keeps_def user_ok_def buf_ok_def bit_error_hashed\<close>)
    then have r1: "hub_rel ?H1 ch" by (simp add: hub_rel_def)
    have u1: "hm_users (hub_users ?H1) a = Some (?f u)" using u by simp
    have np1: "\<not> isPastLogin (m_ui8State (?f u))" using np by simp
    from User_Close_run [OF r1 u1 np1, of cfg False] obtain H' ch' where
      c: "User_Close cfg a False ?H1 = Inr H'" "hub_rel H' ch'"
      "hm_users (hub_users H') a = Some (closed_user (clear_user_links (?f u)))" by blast
    have "PutInSendBuf cfg a t H = Inr (H', False)"
      using u0 over ns c(1) by (simp add: PutInSendBuf_def set_user_run [OF u0])
    with c(2,3) show ?thesis
      by (intro exI [of _ H'] exI [of _ False] exI [of _ "closed_user (clear_user_links (?f u))"] exI [of _ ch']) simp
  qed
qed

text \<open>The bytes a text becomes on the wire: compressed for a user who can read it, when long and worth it.\<close>

definition wire :: "(string \<Rightarrow> string option) \<Rightarrow> User \<Rightarrow> string \<Rightarrow> string" where
  "wire CreateZPipe u t =
     (if has_bits (m_ui32SupportBits u) SUPPORTBIT_ZPIPE \<and> 128 \<le> length t
      then (case CreateZPipe t of None \<Rightarrow> t | Some z \<Rightarrow> z) else t)"

lemma hub_rel_saved [simp]: "hub_rel (H\<lparr>m_ui64BytesSentSaved := x\<rparr>) ch = hub_rel H ch"
  by (simp add: hub_rel_def)

text \<open>
  Where slow users are not kept, a delayed text for a user who is not being closed is appended, as it goes
  on the wire, to the bytes waiting for that user, or the user is closed because its buffer overflowed;
  either way the hub stays consistent.
\<close>

theorem SendCharDelayed_appends:
  assumes "hub_inv H" and "hm_users (hub_users H) a = Some u" and "\<not> isPastLogin (m_ui8State u)"
    and "t \<noteq> []" and "fits (wire CreateZPipe u t) (m_SendBuf u)" and "\<not> keep_slow_users cfg"
  shows "\<exists>H' u'. SendCharDelayed cfg CreateZPipe a t H = Inr H' \<and> hub_inv H' \<and> hm_users (hub_users H') a = Some u'
    \<and> (isPastLogin (m_ui8State u') \<or> unsent (m_SendBuf u') = unsent (m_SendBuf u) @ wire CreateZPipe u t)"
proof -
  from assms(1) obtain ch where hub: "hub_rel H ch" by (auto simp: hub_inv_def)
  let ?w = "wire CreateZPipe u t"
  have u0: "the_user a H = Inr u" using assms(2) by (simp add: the_user_def ub_simps)
  from PutInSendBuf_run [OF hub assms(2,3,5,6)] obtain H1 ok u1 ch1 where
    p: "PutInSendBuf cfg a ?w H = Inr (H1, ok)" "hub_rel H1 ch1" "hm_users (hub_users H1) a = Some u1"
      "if ok then unsent (m_SendBuf u1) = unsent (m_SendBuf u) @ ?w \<and> m_ui8State u1 = m_ui8State u
       else isPastLogin (m_ui8State u1)" by blast
  have pas: "put_and_send cfg WouldBlock False a ?w H = Inr H1" using p(1) by (simp add: put_and_send_def)
  have end1: "isPastLogin (m_ui8State u1) \<or> unsent (m_SendBuf u1) = unsent (m_SendBuf u) @ ?w"
    using p(4) by (cases ok) simp_all
  have "\<exists>H'. SendCharDelayed cfg CreateZPipe a t H = Inr H' \<and> hub_rel H' ch1 \<and> hub_users H' = hub_users H1"
    using pas p(2) assms(3,4) u0
    by (auto simp: SendCharDelayed_def queue_text_def wire_def g_ui32ZMinDataLen_def split: option.splits if_splits)
  then obtain H' where H': "SendCharDelayed cfg CreateZPipe a t H = Inr H'" "hub_rel H' ch1" "hub_users H' = hub_users H1"
    by blast
  then have "hub_inv H'" "hm_users (hub_users H') a = Some u1" using p(3) by (auto simp: hub_inv_def)
  with H'(1) end1 show ?thesis by blast
qed

theorem SendCharDelayed_appends_witness:
  "\<exists>H' u'. SendCharDelayed demo_config (\<lambda>_. None) 1 ''$Lock x|'' demo_hub = Inr H' \<and> hub_inv H'
     \<and> hm_users (hub_users H') 1 = Some u' \<and> (isPastLogin (m_ui8State u') \<or> unsent (m_SendBuf u') = ''$Lock x|'')"
proof -
  have "\<not> isPastLogin (m_ui8State demo_member)" by (simp add: isPastLogin_iff)
  moreover have "fits (wire (\<lambda>_. None) demo_member ''$Lock x|'') (m_SendBuf demo_member)"
    by (simp add: wire_def fits_def empty_buf_def)
  moreover have "\<not> keep_slow_users demo_config" by (simp add: demo_config_def)
  ultimately show ?thesis
    using SendCharDelayed_appends [OF hub_inv_demo demo_hub_user, of "''$Lock x|''" "\<lambda>_. None" demo_config]
    by (simp add: wire_def buf_ok_empty(2))
qed

end
