(* ===== verification/UserSend.thy ===== *)
theory UserSend
  imports UserClose
begin

text \<open>
  Every sending function keeps the hub consistent and the user alive, whatever the socket answers, as long as
  the text leaves the buffer below 2 GB.
\<close>

text \<open>The outcome all these functions share: the hub is consistent and the user still exists.\<close>

definition alive :: "addr \<Rightarrow> hub \<Rightarrow> bool" where
  "alive a H \<longleftrightarrow> hub_inv H \<and> (\<exists>u. hm_users (hub_users H) a = Some u)"

definition closing :: "addr \<Rightarrow> hub \<Rightarrow> bool" where
  "closing a H \<longleftrightarrow> hub_inv H \<and> (\<exists>u. hm_users (hub_users H) a = Some u \<and> isPastLogin (m_ui8State u))"

lemma closing_alive: "closing a H \<Longrightarrow> alive a H"
  by (auto simp: closing_def alive_def)

lemma aliveE:
  assumes "alive a H"
  obtains u ch where "hub_rel H ch" and "hm_users (hub_users H) a = Some u" and "the_user a H = Inr u"
  using assms by (auto simp: alive_def hub_inv_def the_user_def ub_simps)

lemma alive_call [simp]: "alive a (call c H) = alive a H"
  by (simp add: alive_def hub_inv_def hub_rel_def)

lemma alive_counters [simp]:
  "alive a (H\<lparr>m_ui64BytesSentSaved := x\<rparr>) = alive a H" "alive a (H\<lparr>m_ui64BytesSent := x\<rparr>) = alive a H"
  by (simp_all add: alive_def hub_inv_def hub_rel_def)

lemma User_Close_alive:
  assumes "alive a H"
  shows "\<exists>H'. User_Close cfg a q H = Inr H' \<and> closing a H'"
proof -
  from aliveE [OF assms] obtain u ch where u: "hub_rel H ch" "hm_users (hub_users H) a = Some u" "the_user a H = Inr u" .
  show ?thesis
  proof (cases "isPastLogin (m_ui8State u)")
    case True
    with u assms show ?thesis by (auto simp: User_Close_def closing_def alive_def)
  next
    case False
    from User_Close_run [OF u(1,2) False, of cfg q] obtain H' ch' where
      "User_Close cfg a q H = Inr H'" "hub_rel H' ch'" "hm_users (hub_users H') a = Some (closed_user (clear_user_links u))" by blast
    then show ?thesis by (auto simp: closing_def hub_inv_def)
  qed
qed

text \<open>Changing fields the invariant does not read.\<close>

lemma set_user_alive:
  assumes al: "alive a H" and k: "keeps f"
    and ok: "\<And>u. buf_ok (m_SendBuf u) \<Longrightarrow> buf_ok (m_SendBuf (f u))"
      "\<And>u. isPastLogin (m_ui8State (f u)) = isPastLogin (m_ui8State u)"
      "\<And>u. has_bits (m_ui32BoolBits (f u)) BIT_HASHED = has_bits (m_ui32BoolBits u) BIT_HASHED"
  shows "set_user a f H = Inr (upd a f H) \<and> alive a (upd a f H)"
proof -
  from aliveE [OF al] obtain u ch where u: "hub_rel H ch" "hm_users (hub_users H) a = Some u" "the_user a H = Inr u" .
  have "hub_rel (upd a f H) ch"
    by (rule hub_rel_upd [OF u(1) k]) (use u ok in \<open>auto simp: hub_rel_def user_ok_def split: if_splits\<close>)
  with u show ?thesis by (auto simp: set_user_run alive_def hub_inv_def)
qed

lemma close_with_error_alive:
  assumes "alive a H"
  shows "\<exists>H'. close_with_error cfg a H = Inr H' \<and> closing a H'"
proof -
  have "set_user a (\<lambda>u. u\<lparr>m_ui32BoolBits := m_ui32BoolBits u OR BIT_ERROR\<rparr>) H =
      Inr (upd a (\<lambda>u. u\<lparr>m_ui32BoolBits := m_ui32BoolBits u OR BIT_ERROR\<rparr>) H)
    \<and> alive a (upd a (\<lambda>u. u\<lparr>m_ui32BoolBits := m_ui32BoolBits u OR BIT_ERROR\<rparr>) H)"
    by (rule set_user_alive [OF assms]) (simp_all add: keeps_def bit_error_hashed)
  with User_Close_alive [of a _ cfg False] show ?thesis by (auto simp: close_with_error_def)
qed

text \<open>The buffer of \<open>a\<close> has room for texts up to \<open>n\<close> bytes.\<close>

definition room_for :: "nat \<Rightarrow> addr \<Rightarrow> hub \<Rightarrow> bool" where
  "room_for n a H \<longleftrightarrow> (\<forall>u. hm_users (hub_users H) a = Some u \<longrightarrow> length (sb_data (m_SendBuf u)) + n < 2 ^ 31)"

lemma PutInSendBuf_alive:
  assumes al: "alive a H" and t: "t \<noteq> []" and r: "room_for (length t) a H"
  shows "\<exists>H' ok. PutInSendBuf cfg a t H = Inr (H', ok) \<and> alive a H'"
proof -
  from aliveE [OF al] obtain u ch where u: "hub_rel H ch" "hm_users (hub_users H) a = Some u" "the_user a H = Inr u" .
  then have ok: "buf_ok (m_SendBuf u)" by (auto simp: hub_rel_def user_ok_def)
  have f: "fits t (m_SendBuf u)" using r t u(2) by (auto simp: fits_def room_for_def)
  let ?m = "max_buf_len (has_bits (m_ui32BoolBits u) BIT_BIG_SEND_BUFFER) (m_ui32MyInfosTagLen H) (m_ui32MyInfosLen H)"
  let ?k = "keep_slow_users cfg \<and> \<not> has_bits (m_ui32SupportBits u) SUPPORTBIT_ZPIPE"
  from put_in_buf_run [OF ok f, of ?m ?k] consider
      (over) "put_in_buf ?m ?k t (m_SendBuf u) = Inr None"
    | (app) b where "put_in_buf ?m ?k t (m_SendBuf u) = Inr (Some b)" "buf_ok b" by blast
  then show ?thesis
  proof cases
    case app
    have "set_user a (\<lambda>u. u\<lparr>m_SendBuf := b\<rparr>) H = Inr (upd a (\<lambda>u. u\<lparr>m_SendBuf := b\<rparr>) H)
      \<and> alive a (upd a (\<lambda>u. u\<lparr>m_SendBuf := b\<rparr>) H)"
      by (rule set_user_alive [OF al]) (use app(2) in \<open>simp_all add: keeps_def\<close>)
    with u(3) app(1) show ?thesis by (auto simp: PutInSendBuf_def)
  next
    case over
    let ?f = "\<lambda>u :: User. u\<lparr>m_ui32BoolBits := m_ui32BoolBits u OR BIT_ERROR,
        m_SendBuf := (m_SendBuf u)\<lparr>sb_called := sb_called (m_SendBuf u) + 1\<rparr>\<rparr>"
    have 1: "set_user a ?f H = Inr (upd a ?f H) \<and> alive a (upd a ?f H)"
      by (rule set_user_alive [OF al]) (simp_all add: keeps_def bit_error_hashed buf_ok_def)
    then have "alive a (call (DebugBroadcast ''SendBuffer overflow'') (upd a ?f H))" by simp
    from User_Close_alive [OF this, of cfg False] obtain H' where
      "User_Close cfg a False (call (DebugBroadcast ''SendBuffer overflow'') (upd a ?f H)) = Inr H'" "closing a H'" by blast
    with u(3) over 1 show ?thesis by (auto simp: PutInSendBuf_def closing_alive)
  qed
qed

lemma after_send_ok: "buf_ok b \<Longrightarrow> buf_ok (fst (after_send big n b))"
  by (auto simp: after_send_def buf_ok_def)

lemma Try2Send_alive:
  assumes al: "alive a H"
  shows "\<exists>H' more. Try2Send cfg sock a H = Inr (H', more) \<and> alive a H'"
proof -
  from aliveE [OF al] obtain u ch where u: "hub_rel H ch" "hm_users (hub_users H) a = Some u" "the_user a H = Inr u" .
  then have ok: "buf_ok (m_SendBuf u)" by (auto simp: hub_rel_def user_ok_def)
  let ?off = "to_int32 (sb_head (m_SendBuf u))" and ?len = "to_int32 (length (sb_data (m_SendBuf u))) - to_int32 (sb_head (m_SendBuf u))"
  consider (idle) "has_bits (m_ui32BoolBits u) BIT_ERROR \<or> sb_data (m_SendBuf u) = []"
    | (neg) "\<not> (has_bits (m_ui32BoolBits u) BIT_ERROR \<or> sb_data (m_SendBuf u) = [])" "?off < 0 \<or> ?len < 0"
    | (go) "\<not> (has_bits (m_ui32BoolBits u) BIT_ERROR \<or> sb_data (m_SendBuf u) = [])" "\<not> (?off < 0 \<or> ?len < 0)" by blast
  then show ?thesis
  proof cases
    case idle
    then show ?thesis using u(3) al by (auto simp: Try2Send_def Let_def)
  next
    case neg
    from close_with_error_alive [OF al, of cfg] obtain H' where "close_with_error cfg a H = Inr H'" "closing a H'" by blast
    then show ?thesis using neg u(3) by (auto simp: Try2Send_def Let_def closing_alive)
  next
    case go
    show ?thesis
    proof (cases sock)
      case (Sent n)
      let ?b = "fst (after_send (has_bits (m_ui32BoolBits u) BIT_BIG_SEND_BUFFER) n (m_SendBuf u))"
      let ?big = "has_bits (m_ui32BoolBits u) BIT_BIG_SEND_BUFFER"
      let ?freed = "\<not> int n < ?len \<and> (?big \<or> sb_len (m_SendBuf u) > 1024)"
      let ?f = "\<lambda>v :: User. v\<lparr>m_SendBuf := ?b,
          m_ui32BoolBits := (if ?freed then m_ui32BoolBits v AND NOT BIT_BIG_SEND_BUFFER else m_ui32BoolBits v)\<rparr>"
      let ?H1 = "H\<lparr>m_ui64BytesSent := m_ui64BytesSent H + word_of_nat n\<rparr>"
      have b: "buf_ok ?b" by (rule after_send_ok [OF ok])
      have bh: "has_bits (w AND NOT BIT_BIG_SEND_BUFFER) BIT_HASHED = has_bits w BIT_HASHED" for w
        by (rule has_bits_clear_disjoint) (simp add: user_bits)
      have "set_user a ?f ?H1 = Inr (upd a ?f ?H1) \<and> alive a (upd a ?f ?H1)"
        by (rule set_user_alive) (use al b bh in \<open>simp_all add: keeps_def\<close>)
      moreover have "Try2Send cfg sock a H =
          rbind (set_user a ?f ?H1) (\<lambda>H2. Inr (H2, snd (after_send ?big n (m_SendBuf u))))"
        using go Sent u(3) unfolding Try2Send_def Let_def by (simp add: split_beta)
      ultimately show ?thesis by simp
    next
      case WouldBlock
      then show ?thesis using go u(3) al by (auto simp: Try2Send_def Let_def)
    next
      case SendError
      have "alive a (call (DebugBroadcast ''send() error'') H)" using al by simp
      from close_with_error_alive [OF this, of cfg] obtain H' where
        "close_with_error cfg a (call (DebugBroadcast ''send() error'') H) = Inr H'" "closing a H'" by blast
      then show ?thesis using go SendError u(3) by (auto simp: Try2Send_def Let_def closing_alive)
    qed
  qed
qed

text \<open>The compressor returns something, and nothing longer than its input.\<close>

definition zpipe_law :: "(string \<Rightarrow> string option) \<Rightarrow> bool" where
  "zpipe_law CreateZPipe \<longleftrightarrow> (\<forall>t z. CreateZPipe t = Some z \<longrightarrow> z \<noteq> [] \<and> length z \<le> length t)"

lemma room_for_mono: "room_for n a H \<Longrightarrow> m \<le> n \<Longrightarrow> room_for m a H"
  by (auto simp: room_for_def)

lemma put_and_send_alive:
  assumes "alive a H" and "t \<noteq> []" and "room_for (length t) a H"
  shows "\<exists>H'. put_and_send cfg sock now a t H = Inr H' \<and> alive a H'"
proof -
  from PutInSendBuf_alive [OF assms, of cfg] obtain H1 ok where p: "PutInSendBuf cfg a t H = Inr (H1, ok)" "alive a H1" by blast
  from Try2Send_alive [OF p(2), of cfg sock] obtain H2 more where "Try2Send cfg sock a H1 = Inr (H2, more)" "alive a H2" by blast
  with p show ?thesis by (auto simp: put_and_send_def)
qed

lemma queue_text_alive:
  assumes al: "alive a H" and t: "t \<noteq> []" and r: "room_for (length t) a H" and z: "zpipe_law zp"
  shows "\<exists>H'. queue_text cfg zp sock now a t H = Inr H' \<and> alive a H'"
proof -
  from aliveE [OF al] obtain u ch where u: "the_user a H = Inr u" .
  from put_and_send_alive [OF al t r, of cfg sock now] obtain H1 where
    p: "put_and_send cfg sock now a t H = Inr H1" "alive a H1" by blast
  show ?thesis
  proof (cases "zp t")
    case None
    with u p show ?thesis by (auto simp: queue_text_def)
  next
    case (Some d)
    with z have d: "d \<noteq> []" "length d \<le> length t" by (auto simp: zpipe_law_def)
    from put_and_send_alive [OF al d(1) room_for_mono [OF r d(2)], of cfg sock now] obtain H2 where
      "put_and_send cfg sock now a d H = Inr H2" "alive a H2" by blast
    with u p Some show ?thesis by (auto simp: queue_text_def)
  qed
qed

text \<open>The sending functions with a format send at most the global buffer.\<close>

lemma SendFormat_alive:
  assumes al: "alive a H" and r: "room_for (global_buffer_size cfg) a H" and z: "zpipe_law zp"
  shows "\<exists>H'. SendFormat cfg zp sock d a t H = Inr H' \<and> alive a H'"
    and "\<exists>H'. SendFormatCheckPM cfg zp sock other d a t H = Inr H' \<and> alive a H'"
proof -
  from aliveE [OF al] obtain u ch where u: "the_user a H = Inr u" .
  have q: "\<exists>H'. queue_text cfg zp sock now a x H = Inr H' \<and> alive a H'"
    if "x \<noteq> []" "length x < global_buffer_size cfg" for x now
    using that by (intro queue_text_alive [OF al _ room_for_mono [OF r] z]) simp_all
  show "\<exists>H'. SendFormat cfg zp sock d a t H = Inr H' \<and> alive a H'"
    using u al q [of t "\<not> d"] by (auto simp: SendFormat_def)
  show "\<exists>H'. SendFormatCheckPM cfg zp sock other d a t H = Inr H' \<and> alive a H'"
  proof -
    let ?p = "case other of None \<Rightarrow> [] | Some n \<Rightarrow> ''$To: '' @ m_sNick u @ '' From: '' @ n @ '' $''"
    show ?thesis using u al q [of "?p @ t" "\<not> d"] by (auto simp: SendFormatCheckPM_def Let_def)
  qed
qed

end
