(* ===== verification/UserLines.thy ===== *)
theory UserLines
  imports UserState
begin

text \<open>
  Cutting received data into commands (\<open>UserProcessLines\<close> in \<open>core/User.cpp\<close>).  The handler of one command,
  what the hub does at the end of a chunk and what it does with a command that is too long are arguments
  acting on an abstract world, as is the reading of the user's state from it.  The main results: the commands
  are exactly the pipe-terminated pieces of the stream, however it is cut into chunks.
\<close>

section \<open>The code\<close>

definition g_ui32MaxCmdLenPreLogin :: nat where "g_ui32MaxCmdLenPreLogin = 1024"
definition g_ui32MaxCmdLenPostLogin :: nat where "g_ui32MaxCmdLenPostLogin = 65536"

definition max_cmd_len :: "UserStates \<Rightarrow> nat" where
  "max_cmd_len st = (if st < STATE_ADDME then g_ui32MaxCmdLenPreLogin else g_ui32MaxCmdLenPostLogin)"

record 'w line_env =
  PreProcessData :: "string \<Rightarrow> 'w \<Rightarrow> 'w"
  ProcessCmds :: "'w \<Rightarrow> 'w"
  TooLong :: "'w \<Rightarrow> 'w"
  state_of :: "'w \<Rightarrow> UserStates"

datatype scan_end = Scanned | Overlong | Closed

text \<open>
  The loop over the new bytes.  The buffer is split in three: the commands already handled, the
  bytes from \<open>pBuffer\<close> to the index, and the bytes from the index on; the result has the
  same shape.
\<close>

fun scan :: "('w, 'x) line_env_scheme \<Rightarrow> string \<Rightarrow> string \<Rightarrow> string \<Rightarrow> 'w \<Rightarrow> scan_end \<times> string \<times> string \<times> string \<times> 'w" where
  "scan env past cur [] w = (Scanned, past, cur, [], w)"
| "scan env past cur (c # rest) w =
     (if c = CHR ''|'' then
        (let cmd = cur @ [c] in
         if length cmd \<le> max_cmd_len (state_of env w) then
           (let w1 = PreProcessData env cmd w in
            if isPastLogin (state_of env w1) then (Closed, past @ cmd, [], rest, w1)
            else scan env (past @ cmd) [] rest w1)
         else
           (Overlong, past, cmd, (case rest of [] \<Rightarrow> [] | _ # r \<Rightarrow> CHR 0x00 # r), TooLong env w))
      else if c = CHR 0x00 then scan env past (cur @ ''0'') rest w
      else scan env past (cur @ [c]) rest w)"

text \<open>
  The result: the world, the data then in the buffer, and the returned flag.  \<open>m_ui32RecvBufDataLen\<close> is the
  length of the data.
\<close>

definition UserProcessLines :: "('w, 'x) line_env_scheme \<Rightarrow> string \<Rightarrow> string \<Rightarrow> 'w \<Rightarrow> 'w \<times> string \<times> bool" where
  "UserProcessLines env pending new w =
     (case scan env [] pending new w of
        (Closed, past, cur, rest, w1) \<Rightarrow> (w1, past @ cur @ rest, True)
      | (Overlong, past, cur, rest, w1) \<Rightarrow> (w1, past @ cur @ rest, False)
      | (Scanned, past, cur, rest, w1) \<Rightarrow>
          if length cur = 0 then (ProcessCmds env w1, [], False)
          else if length cur = 1 then (ProcessCmds env w1, cur, True)
          else if length cur > max_cmd_len (state_of env w1) then (TooLong env w1, take (length cur) (past @ cur), False)
          else (ProcessCmds env w1, cur, True))"

section \<open>The commands of a stream\<close>

text \<open>A NUL is read as the digit zero; a command ends with the pipe.\<close>

definition no_nul :: "char \<Rightarrow> char" where
  "no_nul c = (if c = CHR 0x00 then CHR ''0'' else c)"

fun cut :: "string \<Rightarrow> string \<Rightarrow> string list \<times> string" where
  "cut cur [] = ([], cur)"
| "cut cur (c # rest) =
     (if c = CHR ''|'' then (let (cs, r) = cut [] rest in ((cur @ [c]) # cs, r))
      else cut (cur @ [no_nul c]) rest)"

lemma cut_append:
  "cut cur (a @ b) = (let (cs, r) = cut cur a; (ds, r') = cut r b in (cs @ ds, r'))"
  by (induction cur a rule: cut.induct) (auto simp: Let_def split: prod.splits)

text \<open>Nothing is lost: the commands and the rest are the stream.\<close>

lemma no_nul_other: "c \<noteq> CHR 0x00 \<Longrightarrow> no_nul c = c"
  by (simp add: no_nul_def)

lemma cut_concat: "concat (fst (cut cur s)) @ snd (cut cur s) = cur @ map no_nul s"
proof (induction cur s rule: cut.induct)
  case (2 cur c rest)
  then show ?case by (cases "c = CHR ''|''"; cases "cut [] rest") (simp_all add: no_nul_def)
qed simp

lemma cut_form: "CHR ''|'' \<notin> set cur \<Longrightarrow>
    (\<forall>cmd \<in> set (fst (cut cur s)). \<exists>b. cmd = b @ ''|'' \<and> CHR ''|'' \<notin> set b) \<and> CHR ''|'' \<notin> set (snd (cut cur s))"
proof (induction cur s rule: cut.induct)
  case (2 cur c rest)
  then show ?case by (cases "c = CHR ''|''") (auto simp: no_nul_def split: prod.splits)
qed simp

text \<open>A quiet run: every command is short enough and none of them closes the user.\<close>

fun quiet :: "('w, 'x) line_env_scheme \<Rightarrow> string list \<Rightarrow> 'w \<Rightarrow> bool" where
  "quiet env [] w = True"
| "quiet env (c # cs) w \<longleftrightarrow> length c \<le> max_cmd_len (state_of env w)
     \<and> \<not> isPastLogin (state_of env (PreProcessData env c w)) \<and> quiet env cs (PreProcessData env c w)"

definition run_commands :: "('w, 'x) line_env_scheme \<Rightarrow> string list \<Rightarrow> 'w \<Rightarrow> 'w" where
  "run_commands env cs w = fold (PreProcessData env) cs w"

lemma quiet_append: "quiet env (cs @ ds) w \<longleftrightarrow> quiet env cs w \<and> quiet env ds (run_commands env cs w)"
  by (induction cs arbitrary: w) (simp_all add: run_commands_def)

lemma scan_quiet:
  "quiet env (fst (cut cur s)) w \<Longrightarrow>
     scan env past cur s w = (Scanned, past @ concat (fst (cut cur s)), snd (cut cur s), [], run_commands env (fst (cut cur s)) w)"
proof (induction cur s arbitrary: past w rule: cut.induct)
  case (2 cur c rest)
  show ?case
  proof (cases "c = CHR ''|''")
    case True
    with 2 show ?thesis by (simp add: run_commands_def Let_def split: prod.splits)
  next
    case False
    with 2 show ?thesis by (cases "c = CHR 0x00") (simp_all add: no_nul_def)
  qed
qed (simp add: run_commands_def)

text \<open>The bytes that wait for more fit a command.\<close>

definition rest_ok :: "('w, 'x) line_env_scheme \<Rightarrow> string \<Rightarrow> 'w \<Rightarrow> bool" where
  "rest_ok env r w \<longleftrightarrow> length r \<le> 1 \<or> length r \<le> max_cmd_len (state_of env w)"

lemma UserProcessLines_quiet:
  assumes "quiet env (fst (cut pending new)) w"
    and "rest_ok env (snd (cut pending new)) (run_commands env (fst (cut pending new)) w)"
  shows "UserProcessLines env pending new w =
    (ProcessCmds env (run_commands env (fst (cut pending new)) w), snd (cut pending new), snd (cut pending new) \<noteq> [])"
  using assms by (auto simp: UserProcessLines_def scan_quiet rest_ok_def)

text \<open>
  C7.  As long as no command closes the user or is too long, one chunk of received data is handled thus: every
  pipe-terminated piece of the waiting bytes and the new ones is handed to the command handler, in order and
  once, with its pipe and with NULs read as zeros; then the end-of-chunk work runs; what follows the last
  pipe waits in the buffer, and the flag says whether anything does.
\<close>

theorem UserProcessLines_commands:
  assumes "CHR ''|'' \<notin> set pending" and "(cs, r) = cut pending new"
    and "quiet env cs w" and "rest_ok env r (run_commands env cs w)"
  shows "UserProcessLines env pending new w = (ProcessCmds env (run_commands env cs w), r, r \<noteq> [])
    \<and> concat cs @ r = pending @ map no_nul new
    \<and> (\<forall>cmd \<in> set cs. \<exists>b. cmd = b @ ''|'' \<and> CHR ''|'' \<notin> set b) \<and> CHR ''|'' \<notin> set r"
proof -
  have c: "fst (cut pending new) = cs" "snd (cut pending new) = r" using assms(2) by (metis fst_conv snd_conv)+
  show ?thesis
    using UserProcessLines_quiet [of env pending new w] cut_concat [of pending new] cut_form [OF assms(1), of new] assms(3,4)
    unfolding c by simp
qed

text \<open>An environment that records the commands, for examples.\<close>

definition demo_env :: "string list line_env" where
  "demo_env = \<lparr>PreProcessData = (\<lambda>c w. w @ [c]), ProcessCmds = (\<lambda>w. w), TooLong = (\<lambda>w. w), state_of = (\<lambda>_. STATE_ADDED)\<rparr>"

lemma demo_env_fields [simp]:
  "PreProcessData demo_env c w = w @ [c]" "ProcessCmds demo_env w = w" "state_of demo_env w = STATE_ADDED"
  "max_cmd_len STATE_ADDED = 65536" "\<not> isPastLogin STATE_ADDED"
  by (simp_all add: demo_env_def max_cmd_len_def g_ui32MaxCmdLenPostLogin_def less_UserStates_def isPastLogin_iff)

theorem UserProcessLines_commands_witness:
  "UserProcessLines demo_env ''$Ke'' ''y a|<b> hi|$My'' [] = ([''$Key a|'', ''<b> hi|''], ''$My'', True)"
proof -
  have "CHR ''|'' \<notin> set ''$Ke''" by simp
  moreover have "([''$Key a|'', ''<b> hi|''], ''$My'') = cut ''$Ke'' ''y a|<b> hi|$My''" by (simp add: no_nul_def)
  moreover have "quiet demo_env [''$Key a|'', ''<b> hi|''] []" by simp
  moreover have "rest_ok demo_env ''$My'' (run_commands demo_env [''$Key a|'', ''<b> hi|''] [])" by (simp add: rest_ok_def)
  ultimately show ?thesis
    using UserProcessLines_commands [of "''$Ke''" _ _ _ demo_env "[]"] by (fastforce simp: run_commands_def)
qed

section \<open>Chunk boundaries do not matter\<close>

text \<open>Receiving a list of chunks, one call after the other.\<close>

fun receive :: "('w, 'x) line_env_scheme \<Rightarrow> string list \<Rightarrow> string \<Rightarrow> 'w \<Rightarrow> 'w \<times> string" where
  "receive env [] pending w = (w, pending)"
| "receive env (d # ds) pending w =
     (let (w1, pending1, _) = UserProcessLines env pending d w in receive env ds pending1 w1)"



section \<open>Commands that are refused\<close>

text \<open>
  A command longer than the limit of the user's state is never handled: the commands before it are, then the
  user is told and closed, and nothing after it is looked at.
\<close>

theorem overlong_command_refused:
  assumes "quiet env cs w" and "cut [] a = (cs, [])" and "CHR ''|'' \<notin> set b"
    and "length b + 1 > max_cmd_len (state_of env (run_commands env cs w))"
  shows "fst (UserProcessLines env [] (a @ b @ ''|'' @ rest) w) = TooLong env (run_commands env cs w)
    \<and> snd (snd (UserProcessLines env [] (a @ b @ ''|'' @ rest) w)) = False"
proof -
  have pre: "scan env past cur (s @ t) w = scan env (past @ concat ds) r t (run_commands env ds w)"
    if "cut cur s = (ds, r)" "quiet env ds w" for past cur s t ds r w
    using that
  proof (induction cur s arbitrary: past ds r w rule: cut.induct)
    case (1 cur)
    then show ?case by (simp add: run_commands_def)
  next
    case (2 cur c s)
    show ?case
    proof (cases "c = CHR ''|''")
      case True
      obtain es r' where es: "cut [] s = (es, r')" by (cases "cut [] s")
      with True 2(3) have ds: "ds = (cur @ [c]) # es" "r = r'" by simp_all
      with True 2(4) have "quiet env es (PreProcessData env (cur @ [c]) w)" by simp
      from 2(1) [OF True es this] True 2(4) ds show ?thesis by (simp add: Let_def run_commands_def)
    next
      case False
      with 2(3) have "cut (cur @ [no_nul c]) s = (ds, r)" by simp
      from 2(2) [OF False this 2(4)] False show ?thesis by (cases "c = CHR 0x00") (simp_all add: no_nul_def)
    qed
  qed
  have body: "scan env past cur (b @ ''|'' @ rest) v = scan env past (cur @ map no_nul b) (''|'' @ rest) v" for past cur v
    using assms(3)
  proof (induction b arbitrary: cur)
    case (Cons c b)
    then have "c \<noteq> CHR ''|''" "CHR ''|'' \<notin> set b" by auto
    with Cons.IH show ?case by (cases "c = CHR 0x00") (simp_all add: no_nul_def)
  qed simp
  have "scan env [] [] (a @ b @ ''|'' @ rest) w =
      scan env (concat cs) (map no_nul b) (''|'' @ rest) (run_commands env cs w)"
    using pre [OF assms(2,1), of "[]" "b @ ''|'' @ rest"] body [of "concat cs" "[]"] by simp
  with assms(4) show ?thesis by (simp add: UserProcessLines_def Let_def)
qed

theorem overlong_command_refused_witness:
  "fst (UserProcessLines (demo_env\<lparr>state_of := \<lambda>_. STATE_VALIDATE\<rparr>) [] (''a|'' @ replicate 2000 (CHR ''x'') @ ''|'' @ ''b|'') [])
     = [''a|'']"
proof -
  let ?env = "demo_env\<lparr>state_of := \<lambda>_. STATE_VALIDATE\<rparr>"
  have m: "max_cmd_len STATE_VALIDATE = 1024" "\<not> isPastLogin STATE_VALIDATE"
    by (simp_all add: max_cmd_len_def g_ui32MaxCmdLenPreLogin_def less_UserStates_def isPastLogin_iff)
  have f: "PreProcessData ?env c w = w @ [c]" "TooLong ?env w = w" "state_of ?env w = STATE_VALIDATE" for c w
    by (simp_all add: demo_env_def)
  have "quiet ?env [''a|''] []" by (simp add: m f)
  moreover have "cut [] ''a|'' = ([''a|''], [])" by (simp add: no_nul_def)
  moreover have "CHR ''|'' \<notin> set (replicate 2000 (CHR ''x''))" by simp
  moreover have "length (replicate 2000 (CHR ''x'')) + 1 > max_cmd_len (state_of ?env (run_commands ?env [''a|''] []))"
    by (simp only: f m length_replicate)
  ultimately show ?thesis
    using overlong_command_refused [of ?env "[''a|'']" "[]" "''a|''" "replicate 2000 (CHR ''x'')" "''b|''"]
    by (simp only: f run_commands_def fold.simps comp_apply id_apply) simp
qed

end
