(* ===== verification/TextFormat.thy ===== *)
theory TextFormat
  imports Utility
begin

text \<open>
  Number parsing, time formatting, case-insensitive search and the private-address test of
  \<open>core/utility.cpp\<close> and \<open>core/utility.h\<close>.
\<close>

section \<open>Digits\<close>

definition is_digit :: "char \<Rightarrow> bool" where
  "is_digit c \<longleftrightarrow> 48 \<le> (of_char c :: nat) \<and> (of_char c :: nat) \<le> 57"

definition digit_val :: "char \<Rightarrow> nat" where
  "digit_val c = of_char c - 48"

definition dec_val :: "string \<Rightarrow> nat" where
  "dec_val ds = foldl (\<lambda>n c. 10 * n + digit_val c) 0 ds"

fun HaveOnlyNumbers_loop :: "string \<Rightarrow> nat list \<Rightarrow> bool" where
  "HaveOnlyNumbers_loop s [] = True"
| "HaveOnlyNumbers_loop s (i # is) =
     (if \<not> is_digit (cget s i) then False else HaveOnlyNumbers_loop s is)"

definition HaveOnlyNumbers :: "string \<Rightarrow> nat \<Rightarrow> bool" where
  "HaveOnlyNumbers sData len = HaveOnlyNumbers_loop sData [0..<len]"

text \<open>
  \<open>std::from_chars\<close> in base ten: the longest run of digits; no digits is an error, and so is a value
  the target type cannot hold.  A sign is read for signed targets only.
\<close>

definition safe_stoul :: "string \<Rightarrow> nat option" where
  "safe_stoul s =
     (let ds = takeWhile is_digit s
      in if ds = [] then None
         else if dec_val ds \<ge> 2 ^ 64 then None
         else Some (dec_val ds))"

definition safe_stoi :: "string \<Rightarrow> int option" where
  "safe_stoi s =
     (let neg = (s \<noteq> [] \<and> hd s = CHR ''-'');
          ds = takeWhile is_digit (if neg then tl s else s)
      in if ds = [] then None
         else if neg then (if dec_val ds > 2 ^ 31 then None else Some (- int (dec_val ds)))
         else if dec_val ds \<ge> 2 ^ 31 then None
         else Some (int (dec_val ds)))"

lemma dec_val_snoc [simp]: "dec_val (ds @ [c]) = 10 * dec_val ds + digit_val c"
  by (simp add: dec_val_def)

lemma dec_val_Nil [simp]: "dec_val [] = 0"
  by (simp add: dec_val_def)

lemma of_char_digit [simp]: "n < 10 \<Longrightarrow> of_char (char_of (48 + n :: nat)) = 48 + n"
  by (simp only: of_char_of) simp

lemma is_digit_char_of [simp]: "n < 10 \<Longrightarrow> is_digit (char_of (48 + n :: nat))"
  by (simp only: is_digit_def of_char_digit) simp

lemma digit_val_char_of [simp]: "n < 10 \<Longrightarrow> digit_val (char_of (48 + n :: nat)) = n"
  by (simp only: digit_val_def of_char_digit)

lemma to_dec_digits: "set (to_dec n) \<subseteq> {c. is_digit c} \<and> dec_val (to_dec n) = n"
proof (induction n rule: to_dec.induct)
  case (1 n)
  show ?case
  proof (cases "n < 10")
    case True
    then have "dec_val [char_of (48 + n)] = n"
      using dec_val_snoc [of "[]" "char_of (48 + n)"] by simp
    with True show ?thesis by (subst to_dec.simps, subst (2) to_dec.simps) simp
  next
    case False
    with 1 show ?thesis by (subst to_dec.simps, subst (2) to_dec.simps) simp
  qed
qed

lemma HaveOnlyNumbers_iff: "len \<le> length s \<Longrightarrow> HaveOnlyNumbers s len \<longleftrightarrow> list_all is_digit (take len s)"
proof -
  assume len: "len \<le> length s"
  have loop: "HaveOnlyNumbers_loop s is \<longleftrightarrow> (\<forall>i\<in>set is. is_digit (cget s i))" for "is"
    by (induction "is") auto
  show ?thesis using len
    by (auto simp: HaveOnlyNumbers_def loop list_all_length cget_def)
qed

text \<open>
  Parsing inverts printing: the decimal text of any value that fits 64 bits, followed by
  anything that does not start with a digit, parses back to the value; a value that does not fit is
  rejected.
\<close>

theorem stoul_roundtrip:
  assumes "rest = [] \<or> \<not> is_digit (hd rest)"
  shows "safe_stoul (to_dec n @ rest) = (if n < 2 ^ 64 then Some n else None)"
proof -
  have "takeWhile is_digit (to_dec n @ rest) = to_dec n"
    using assms to_dec_digits [of n] by (cases rest) (auto simp: takeWhile_append)
  then show ?thesis using to_dec_digits [of n] by (simp add: safe_stoul_def Let_def)
qed

theorem stoul_roundtrip_witness:
  "safe_stoul (to_dec 18446744073709551615 @ ''|'') = Some 18446744073709551615
   \<and> safe_stoul (to_dec 18446744073709551616 @ ''|'') = None"
  using stoul_roundtrip [of "''|''" 18446744073709551615]
    stoul_roundtrip [of "''|''" 18446744073709551616] by (simp add: is_digit_def)

section \<open>Time formatting\<close>

datatype lang_time = YEARS_LWR | YEAR_LWR | MONTHS_LWR | MONTH_LWR | DAYS_LWR | DAY_LWR
  | HOURS_LWR | HOUR_LWR | MIN_LWR | SEC_LWR

definition SECONDS_PER_MINUTE :: nat where "SECONDS_PER_MINUTE = 60"
definition SECONDS_PER_HOUR :: nat where "SECONDS_PER_HOUR = 3600"
definition SECONDS_PER_DAY :: nat where "SECONDS_PER_DAY = 86400"
definition SECONDS_PER_MONTH :: nat where "SECONDS_PER_MONTH = 2592000"
definition SECONDS_PER_YEAR :: nat where "SECONDS_PER_YEAR = 31536000"
definition MINUTES_PER_HOUR :: nat where "MINUTES_PER_HOUR = 60"
definition MINUTES_PER_DAY :: nat where "MINUTES_PER_DAY = 1440"
definition MINUTES_PER_MONTH :: nat where "MINUTES_PER_MONTH = 43200"
definition MINUTES_PER_YEAR :: nat where "MINUTES_PER_YEAR = 525600"

lemmas time_constants =
  SECONDS_PER_MINUTE_def SECONDS_PER_HOUR_def SECONDS_PER_DAY_def SECONDS_PER_MONTH_def
  SECONDS_PER_YEAR_def MINUTES_PER_HOUR_def MINUTES_PER_DAY_def MINUTES_PER_MONTH_def
  MINUTES_PER_YEAR_def

text \<open>
  The repeated block of the two formatters: with \<open>(i, rest, result)\<close> the number of units already
  printed, what is left and the text so far, take the unit's share of the rest and print it.
\<close>

fun time_block :: "(lang_time \<Rightarrow> string) \<Rightarrow> nat \<Rightarrow> lang_time \<Rightarrow> lang_time
    \<Rightarrow> nat \<times> nat \<times> string \<Rightarrow> nat \<times> nat \<times> string" where
  "time_block tx unit plural singular (i, rest, result) =
     (let n = rest div unit; rest' = rest - n * unit in
      if n \<noteq> 0 then
        (Suc i, rest', result @ (if i > 0 then '' '' else '''') @ to_dec n @ '' '' @
           (if n > 1 then tx plural else tx singular))
      else (i, rest', result))"

text \<open>The last block prints what is left, in the smallest unit.\<close>

fun time_tail :: "(lang_time \<Rightarrow> string) \<Rightarrow> lang_time \<Rightarrow> nat \<times> nat \<times> string \<Rightarrow> string" where
  "time_tail tx name (i, rest, result) =
     (if rest \<noteq> 0 then result @ (if i > 0 then '' '' else '''') @ to_dec rest @ '' '' @ tx name
      else result)"

definition formatTime :: "(lang_time \<Rightarrow> string) \<Rightarrow> nat \<Rightarrow> string" where
  "formatTime tx ui64Rest =
     time_tail tx MIN_LWR
       (time_block tx MINUTES_PER_HOUR HOURS_LWR HOUR_LWR
         (time_block tx MINUTES_PER_DAY DAYS_LWR DAY_LWR
           (time_block tx MINUTES_PER_MONTH MONTHS_LWR MONTH_LWR
             (time_block tx MINUTES_PER_YEAR YEARS_LWR YEAR_LWR (0, ui64Rest, '''')))))"

definition formatSecTime :: "(lang_time \<Rightarrow> string) \<Rightarrow> nat \<Rightarrow> string" where
  "formatSecTime tx ui64Rest =
     time_tail tx SEC_LWR
       (time_block tx SECONDS_PER_MINUTE MIN_LWR MIN_LWR
         (time_block tx SECONDS_PER_HOUR HOURS_LWR HOUR_LWR
           (time_block tx SECONDS_PER_DAY DAYS_LWR DAY_LWR
             (time_block tx SECONDS_PER_MONTH MONTHS_LWR MONTH_LWR
               (time_block tx SECONDS_PER_YEAR YEARS_LWR YEAR_LWR (0, ui64Rest, ''''))))))"

text \<open>The specification: a duration as the list of its nonzero parts.\<close>

fun parts :: "(nat \<times> lang_time \<times> lang_time) list \<Rightarrow> lang_time \<Rightarrow> nat \<Rightarrow> (nat \<times> nat \<times> lang_time) list" where
  "parts [] name rest = (if rest = 0 then [] else [(rest, 1, name)])"
| "parts ((u, pl, sg) # us) name rest =
     (if rest div u = 0 then [] else [(rest div u, u, if rest div u > 1 then pl else sg)])
       @ parts us name (rest mod u)"

fun show_parts :: "(lang_time \<Rightarrow> string) \<Rightarrow> bool \<Rightarrow> (nat \<times> nat \<times> lang_time) list \<Rightarrow> string" where
  "show_parts tx sep [] = ''''"
| "show_parts tx sep ((n, u, w) # ps) =
     (if sep then '' '' else '''') @ to_dec n @ '' '' @ tx w @ show_parts tx True ps"

definition minute_units :: "(nat \<times> lang_time \<times> lang_time) list" where
  "minute_units = [(525600, YEARS_LWR, YEAR_LWR), (43200, MONTHS_LWR, MONTH_LWR),
     (1440, DAYS_LWR, DAY_LWR), (60, HOURS_LWR, HOUR_LWR)]"

definition second_units :: "(nat \<times> lang_time \<times> lang_time) list" where
  "second_units = [(31536000, YEARS_LWR, YEAR_LWR), (2592000, MONTHS_LWR, MONTH_LWR),
     (86400, DAYS_LWR, DAY_LWR), (3600, HOURS_LWR, HOUR_LWR), (60, MIN_LWR, MIN_LWR)]"

lemma parts_sum: "sum_list (map (\<lambda>(n, u, w). n * u) (parts us name rest)) = rest"
proof (induction us name rest rule: parts.induct)
  case (1 name rest)
  then show ?case by simp
next
  case (2 u pl sg us name rest)
  have "rest div u * u + rest mod u = rest" by (rule div_mult_mod_eq)
  with 2 show ?case by (cases "rest div u = 0") simp_all
qed

lemma time_block_parts:
  "fold (\<lambda>(u, pl, sg). time_block tx u pl sg) us (i, rest, result) = (i', rest', result') \<Longrightarrow>
     time_tail tx name (i', rest', result') = result @ show_parts tx (i > 0) (parts us name rest)"
proof (induction us arbitrary: i rest result)
  case Nil
  then show ?case by auto
next
  case (Cons x us)
  obtain u pl sg where x: "x = (u, pl, sg)" by (cases x) auto
  have m: "rest - rest div u * u = rest mod u" by (simp add: minus_div_mult_eq_mod)
  show ?case
  proof (cases "rest div u = 0")
    case True
    then have "time_block tx u pl sg (i, rest, result) = (i, rest mod u, result)"
      by (simp add: m [symmetric])
    with Cons True x show ?thesis by simp
  next
    case False
    have b: "time_block tx u pl sg (i, rest, result) =
      (Suc i, rest mod u, result @ (if i > 0 then '' '' else '''') @ to_dec (rest div u) @ '' '' @
           (if rest div u > 1 then tx pl else tx sg))"
      using False m by (simp add: Let_def)
    show ?thesis
      using Cons.IH Cons.prems False unfolding x by (simp only: fold_simps b split) (simp add: if_distrib)
  qed
qed

text \<open>
  The formatted duration is the list of its nonzero parts, largest unit first, separated by one
  blank, with the plural word for counts above one; and the parts add up to the duration, so nothing
  is lost in the formatting.
\<close>

theorem formatSecTime_parts:
  "formatSecTime tx t = show_parts tx False (parts second_units SEC_LWR t)
   \<and> sum_list (map (\<lambda>(n, u, w). n * u) (parts second_units SEC_LWR t)) = t
   \<and> formatTime tx t = show_parts tx False (parts minute_units MIN_LWR t)
   \<and> sum_list (map (\<lambda>(n, u, w). n * u) (parts minute_units MIN_LWR t)) = t"
proof -
  have s: "fold (\<lambda>(u, pl, sg). time_block tx u pl sg) us (0, t, '''') = r \<Longrightarrow>
      time_tail tx name r = show_parts tx False (parts us name t)" for us name r
    using time_block_parts [of tx us 0 t "''''"] by (cases r) simp
  have "formatSecTime tx t = show_parts tx False (parts second_units SEC_LWR t)"
    unfolding formatSecTime_def by (rule s) (simp add: second_units_def time_constants)
  moreover have "formatTime tx t = show_parts tx False (parts minute_units MIN_LWR t)"
    unfolding formatTime_def by (rule s) (simp add: minute_units_def time_constants)
  ultimately show ?thesis by (simp add: parts_sum)
qed

section \<open>Case-insensitive search\<close>

definition upper_byte :: "byte \<Rightarrow> byte" where
  "upper_byte c = (if 97 \<le> c \<and> c \<le> 122 then c - 32 else c)"

text \<open>The character test of the inner loop: equal to the pattern's character, to its lower or to
  its upper case form.\<close>

definition ci_char :: "char \<Rightarrow> char \<Rightarrow> bool" where
  "ci_char a b \<longleftrightarrow> byte_of a = byte_of b \<or> byte_of a = lower_byte (byte_of b) \<or> byte_of a = upper_byte (byte_of b)"

fun stristr_at :: "string \<Rightarrow> string \<Rightarrow> bool" where
  "stristr_at s1 [] = True"
| "stristr_at [] (b # bs) = False"
| "stristr_at (a # as) (b # bs) = (if ci_char a b then stristr_at as bs else False)"

fun stristr_loop :: "string \<Rightarrow> string \<Rightarrow> string option" where
  "stristr_loop [] str2 = None"
| "stristr_loop (c # cs) str2 = (if stristr_at (c # cs) str2 then Some (c # cs) else stristr_loop cs str2)"

text \<open>The returned pointer into the text is the suffix it points to.\<close>

definition stristr :: "string \<Rightarrow> string \<Rightarrow> string option" where
  "stristr str1 str2 = (if str2 = [] then Some str1 else stristr_loop str1 str2)"

lemma ci_byte: "(a :: byte) = b \<or> a = lower_byte b \<or> a = upper_byte b \<longleftrightarrow> lower_byte a = lower_byte b"
proof -
  have "\<forall>a b :: byte. (a = b \<or> a = lower_byte b \<or> a = upper_byte b) = (lower_byte a = lower_byte b)"
  proof (intro allI)
    fix a b :: byte
    have r: "unat a < 256" "unat b < 256" using unsigned_less [of a] unsigned_less [of b] by simp_all
    have lw: "unat (lower_byte c) = (if 65 \<le> unat c \<and> unat c \<le> 90 then unat c + 32 else unat c)" for c
      by (simp add: lower_byte_def word_le_nat_alt unat_word_ariths)
    have up: "unat (upper_byte c) = (if 97 \<le> unat c \<and> unat c \<le> 122 then unat c - 32 else unat c)" for c
      by (simp add: upper_byte_def word_le_nat_alt unat_sub)
    show "(a = b \<or> a = lower_byte b \<or> a = upper_byte b) = (lower_byte a = lower_byte b)"
      unfolding word_unat_eq_iff lw up using r by auto
  qed
  then show ?thesis by blast
qed

lemma ci_char_iff: "ci_char a b \<longleftrightarrow> lower_byte (byte_of a) = lower_byte (byte_of b)"
  unfolding ci_char_def by (rule ci_byte)

lemma stristr_at_iff: "stristr_at s1 s2 \<longleftrightarrow> (\<exists>r t. s1 = r @ t \<and> iequals r s2)"
proof (induction s1 s2 rule: stristr_at.induct)
  case (1 s1)
  show ?case by (metis append_Nil iequals_refl stristr_at.simps(1))
next
  case (2 b bs)
  then show ?case by (auto simp: iequals_def)
next
  case (3 a as b bs)
  have "(\<exists>r t. a # as = r @ t \<and> iequals r (b # bs)) \<longleftrightarrow>
      ci_char a b \<and> (\<exists>r t. as = r @ t \<and> iequals r bs)"
    by (auto simp: iequals_folded folded_def ci_char_iff Cons_eq_append_conv Cons_eq_map_conv)
      (metis append_Cons list.simps(9))
  with 3 show ?case by auto
qed

definition occurs_ci :: "string \<Rightarrow> string \<Rightarrow> bool" where
  "occurs_ci pat s = (\<exists>r t. s = r @ t \<and> iequals r pat)"

lemma stristr_loop_spec:
  assumes "str2 \<noteq> []"
  shows "case stristr_loop str1 str2 of
      None \<Rightarrow> \<nexists>pre t. str1 = pre @ t \<and> occurs_ci str2 t
    | Some t \<Rightarrow> \<exists>pre. str1 = pre @ t \<and> occurs_ci str2 t
        \<and> (\<forall>pre' t'. str1 = pre' @ t' \<and> occurs_ci str2 t' \<longrightarrow> length pre \<le> length pre')"
proof (induction str1)
  case Nil
  then show ?case using assms by (auto simp: occurs_ci_def iequals_def)
next
  case (Cons c cs)
  show ?case
  proof (cases "stristr_at (c # cs) str2")
    case True
    then have "c # cs = [] @ (c # cs) \<and> occurs_ci str2 (c # cs)"
      unfolding occurs_ci_def stristr_at_iff by blast
    with True show ?thesis by (auto intro!: exI [of _ "[]"])
  next
    case False
    then have no: "\<not> occurs_ci str2 (c # cs)" by (simp only: occurs_ci_def stristr_at_iff not_False_eq_True)
    have split: "c # cs = pre @ t \<and> occurs_ci str2 t \<longleftrightarrow>
        (\<exists>pre'. pre = c # pre' \<and> cs = pre' @ t \<and> occurs_ci str2 t)" for pre t
      using no by (cases pre) auto
    show ?thesis
    proof (cases "stristr_loop cs str2")
      case None
      with Cons False show ?thesis by (simp add: split) blast
    next
      case (Some t)
      with Cons obtain pre where pre: "cs = pre @ t" "occurs_ci str2 t"
        and least: "\<And>pre' t'. cs = pre' @ t' \<and> occurs_ci str2 t' \<Longrightarrow> length pre \<le> length pre'" by auto
      have "length (c # pre) \<le> length pre'" if "c # cs = pre' @ t' \<and> occurs_ci str2 t'" for pre' t'
      proof -
        from that split obtain p where "pre' = c # p" and "cs = p @ t' \<and> occurs_ci str2 t'" by blast
        with least show ?thesis by fastforce
      qed
      moreover have "c # cs = (c # pre) @ t \<and> occurs_ci str2 t" using pre by simp
      ultimately have "\<exists>pre. c # cs = pre @ t \<and> occurs_ci str2 t
        \<and> (\<forall>pre' t'. c # cs = pre' @ t' \<and> occurs_ci str2 t' \<longrightarrow> length pre \<le> length pre')"
        by blast
      with Some False show ?thesis by simp
    qed
  qed
qed

text \<open>
  The search returns the first place where the pattern occurs ignoring case, and nothing
  exactly when it occurs nowhere.
\<close>

theorem stristr_first_occurrence:
  assumes "str2 \<noteq> []"
  shows "case stristr str1 str2 of
      None \<Rightarrow> \<nexists>pre t. str1 = pre @ t \<and> occurs_ci str2 t
    | Some t \<Rightarrow> \<exists>pre. str1 = pre @ t \<and> occurs_ci str2 t
        \<and> (\<forall>pre' t'. str1 = pre' @ t' \<and> occurs_ci str2 t' \<longrightarrow> length pre \<le> length pre')"
  using stristr_loop_spec [OF assms] assms by (simp add: stristr_def)

theorem stristr_first_occurrence_witness:
  "stristr ''x$MyInfo'' ''$MYINFO'' = Some ''$MyInfo'' \<and> (\<exists>pre. ''x$MyInfo'' = pre @ ''$MyInfo'')"
proof -
  have v: "stristr ''x$MyInfo'' ''$MYINFO'' = Some ''$MyInfo''"
    by (simp add: stristr_def ci_char_def byte_of_def lower_byte_def upper_byte_def)
  from stristr_first_occurrence [of "''$MYINFO''" "''x$MyInfo''"] v show ?thesis by auto
qed

section \<open>Private addresses and error names\<close>

definition IsPrivateIP :: "resolver \<Rightarrow> string \<Rightarrow> bool" where
  "IsPrivateIP r sIP =
     (if use_ipv6 r \<and> CHR ''.'' \<notin> set sIP then
        (case inet_pton6 r sIP of
           None \<Rightarrow> False
         | Some h \<Rightarrow>
             if h = replicate 15 0 @ [1]
                \<or> (h ! 0 = 0xFE \<and> h ! 1 AND 0xC0 = 0x80)
                \<or> (h ! 0 = 0xFE \<and> h ! 1 AND 0xC0 = 0xC0)
             then True else False)
      else
        (if inet_addr4 r sIP = INADDR_NONE then False
         else (case inet_addr4 r sIP of (a, b, c, d) \<Rightarrow>
           if a = 10 \<or> a = 127 \<or> (a = 169 \<and> b = 254) \<or> (a = 172 \<and> b = 16) \<or> (a = 192 \<and> b = 168)
           then True else False)))"

text \<open>The address blocks reserved for private, loopback and link-local use.\<close>

definition private_block :: "byte \<times> byte \<times> byte \<times> byte \<Rightarrow> bool" where
  "private_block ip = (case ip of (a, b, c, d) \<Rightarrow>
     a = 10 \<or> a = 127 \<or> (a = 169 \<and> b = 254) \<or> (a = 172 \<and> b AND 0xF0 = 0x10) \<or> (a = 192 \<and> b = 168))"

lemma private_16: "(b :: byte) AND 0xF0 = 0x10 \<longleftrightarrow> 16 \<le> b \<and> b \<le> 31"
proof -
  have "b AND 0xF0 = push_bit 4 (drop_bit 4 b)"
  proof -
    have "b AND push_bit 4 (mask 4) = push_bit 4 (drop_bit 4 b)"
      by (rule bit_eqI) (auto simp: bit_push_bit_iff bit_drop_bit_eq bit_and_iff bit_mask_iff)
    moreover have "push_bit 4 (mask 4) = (0xF0 :: byte)" by (simp add: mask_eq_exp_minus_1)
    ultimately show ?thesis by simp
  qed
  then have "b AND 0xF0 = 0x10 \<longleftrightarrow> push_bit 4 (drop_bit 4 b) = (0x10 :: byte)" by simp
  also have "\<dots> \<longleftrightarrow> drop_bit 4 b = 1"
  proof
    assume "push_bit 4 (drop_bit 4 b) = (0x10 :: byte)"
    then have "drop_bit 4 (push_bit 4 (drop_bit 4 b)) = drop_bit 4 (0x10 :: byte)" by simp
    moreover have "drop_bit 4 (push_bit 4 (drop_bit 4 b)) = drop_bit 4 b"
      by (rule bit_eqI) (auto simp: bit_simps dest: bit_imp_le_length)
    ultimately show "drop_bit 4 b = 1" by simp
  qed simp
  also have "\<dots> \<longleftrightarrow> unat b div 16 = 1"
    by (simp add: word_unat_eq_iff unat_drop_bit_eq unat_div drop_bit_eq_div)
  also have "\<dots> \<longleftrightarrow> 16 \<le> b \<and> b \<le> 31"
    by (auto simp: word_le_nat_alt)
  finally show ?thesis .
qed

text \<open>
  For a dotted address the test agrees with the reserved blocks except on the second to the
  last sixteenth of 172.16.0.0/12: addresses from 172.17 to 172.31 are not recognised.
\<close>

theorem IsPrivateIP_blocks:
  assumes "\<not> use_ipv6 r \<or> CHR ''.'' \<in> set sIP" and "inet_addr4 r sIP = (a, b, c, d)"
  shows "IsPrivateIP r sIP \<longleftrightarrow> private_block (a, b, c, d) \<and> \<not> (a = 172 \<and> 17 \<le> b \<and> b \<le> 31)"
proof -
  have e: "(16 \<le> b \<and> b \<le> 31) \<and> \<not> (17 \<le> b \<and> b \<le> 31) \<longleftrightarrow> b = 16"
    by (simp add: word_le_nat_alt word_unat_eq_iff) linarith
  show ?thesis
    using assms e by (auto simp: IsPrivateIP_def private_block_def private_16 INADDR_NONE_def)
qed

theorem IsPrivateIP_blocks_witness:
  "IsPrivateIP example_resolver ''10.0.0.7'' \<and> \<not> IsPrivateIP example_resolver ''172.17.0.1''
     \<and> private_block (172, 17, 0, 1)"
proof -
  have h: "inet_addr4 example_resolver ''10.0.0.7'' = (10, 0, 0, 7)"
    "inet_addr4 example_resolver ''172.17.0.1'' = (172, 17, 0, 1)" by (simp_all add: example_resolver_def)
  show ?thesis
    using IsPrivateIP_blocks [OF _ h(1)] IsPrivateIP_blocks [OF _ h(2)] by (simp add: private_block_def)
qed

definition ErrnoStr :: "u32 \<Rightarrow> string" where
  "ErrnoStr ui32Error =
     (if ui32Error = 98 then ''EADDRINUSE''
      else if ui32Error = 99 then ''EADDRNOTAVAIL''
      else if ui32Error = 104 then ''ECONNRESET''
      else if ui32Error = 110 then ''ETIMEDOUT''
      else if ui32Error = 111 then ''ECONNREFUSED''
      else if ui32Error = 113 then ''EHOSTUNREACH''
      else ''UNDEFINED'')"

end
