(* ===== verification/ReservedNicks.thy ===== *)
theory ReservedNicks
  imports TextFormat
begin

text \<open>
  \<open>core/ResNickManager\<close>: the list of reserved nicks.  The manager's list is a list of records in
  insertion order.  Loading and saving are modelled on the text of \<open>ReservedNicks.pxt\<close>; the XML
  import is not.
\<close>

section \<open>State and operations\<close>

record ReservedNick =
  rn_sNick :: string
  rn_ui32Hash :: u32
  rn_bFromScript :: bool

type_synonym ReservedNicksManager = "ReservedNick list"

definition CreateReservedNick :: "string \<Rightarrow> u32 \<Rightarrow> ReservedNick" where
  "CreateReservedNick sNewNick ui32NickHash =
     \<lparr>rn_sNick = sNewNick, rn_ui32Hash = ui32NickHash, rn_bFromScript = False\<rparr>"

fun CheckReserved :: "ReservedNicksManager \<Rightarrow> string \<Rightarrow> u32 \<Rightarrow> bool" where
  "CheckReserved [] sNick ui32Hash = False"
| "CheckReserved (p # ps) sNick ui32Hash =
     (if rn_ui32Hash p = ui32Hash \<and> iequals (rn_sNick p) sNick then True
      else CheckReserved ps sNick ui32Hash)"

definition AddReservedNick :: "string \<Rightarrow> bool \<Rightarrow> ReservedNicksManager \<Rightarrow> ReservedNicksManager" where
  "AddReservedNick sNick bFromScript m =
     (let ui32Hash = HashNick sNick in
      if \<not> CheckReserved m sNick ui32Hash then
        m @ [(CreateReservedNick sNick ui32Hash)\<lparr>rn_bFromScript := bFromScript\<rparr>]
      else m)"

fun DelReservedNick_loop :: "u32 \<Rightarrow> string \<Rightarrow> bool \<Rightarrow> ReservedNicksManager \<Rightarrow> ReservedNicksManager" where
  "DelReservedNick_loop ui32Hash sNick bFromScript [] = []"
| "DelReservedNick_loop ui32Hash sNick bFromScript (p # ps) =
     (if rn_ui32Hash p = ui32Hash \<and> rn_sNick p = sNick then
        (if bFromScript \<and> \<not> rn_bFromScript p then p # DelReservedNick_loop ui32Hash sNick bFromScript ps
         else ps)
      else p # DelReservedNick_loop ui32Hash sNick bFromScript ps)"

definition DelReservedNick :: "string \<Rightarrow> bool \<Rightarrow> ReservedNicksManager \<Rightarrow> ReservedNicksManager" where
  "DelReservedNick sNick bFromScript m = DelReservedNick_loop (HashNick sNick) sNick bFromScript m"

definition GetCount :: "ReservedNicksManager \<Rightarrow> nat" where
  "GetCount m = length m"

text \<open>The lines \<open>std::getline\<close> yields: split at newlines, without an empty line after a final one.\<close>

fun getlines :: "string \<Rightarrow> string \<Rightarrow> string list" where
  "getlines acc [] = (if acc = [] then [] else [acc])"
| "getlines acc (c # cs) = (if c = CHR 0x0A then acc # getlines [] cs else getlines (acc @ [c]) cs)"

fun Load_lines :: "string list \<Rightarrow> ReservedNicksManager \<Rightarrow> ReservedNicksManager" where
  "Load_lines [] m = m"
| "Load_lines (l # ls) m =
     (if l = [] \<or> hd l = CHR ''#'' \<or> hd l = CHR 0x0A then Load_lines ls m
      else Load_lines ls (AddReservedNick (c_str l) False m))"

definition Load :: "string \<Rightarrow> ReservedNicksManager \<Rightarrow> ReservedNicksManager" where
  "Load sData m = Load_lines (getlines [] sData) m"

text \<open>Byte-wise order of strings, as \<open>std::string\<close> compares them.\<close>

fun str_le :: "string \<Rightarrow> string \<Rightarrow> bool" where
  "str_le [] t = True"
| "str_le (a # s) [] = False"
| "str_le (a # s) (b # t) =
     (if (of_char a :: nat) < of_char b then True
      else if (of_char b :: nat) < of_char a then False else str_le s t)"

fun str_insert :: "string \<Rightarrow> string list \<Rightarrow> string list" where
  "str_insert x [] = [x]"
| "str_insert x (y # ys) = (if str_le x y then x # y # ys else y # str_insert x ys)"

definition str_sort :: "string list \<Rightarrow> string list" where
  "str_sort xs = foldr str_insert xs []"

definition pxt_header :: string where
  "pxt_header = ''#'' @ [CHR 0x0A] @ ''# PtokaX reserved nicks file'' @ [CHR 0x0A] @ ''#'' @ [CHR 0x0A, CHR 0x0A]"

definition Save :: "ReservedNicksManager \<Rightarrow> string" where
  "Save m = pxt_header @ concat (map (\<lambda>n. n @ [CHR 0x0A]) (str_sort (map rn_sNick m)))"

definition default_reserved :: "string list" where
  "default_reserved = [''Hub-Security'', ''Admin'', ''Client'', ''PtokaX'', ''OpChat'']"

definition default_manager :: ReservedNicksManager where
  "default_manager = foldl (\<lambda>m n. AddReservedNick n False m) [] default_reserved"

section \<open>The invariant and the lookup laws\<close>

definition rn_inv :: "ReservedNicksManager \<Rightarrow> bool" where
  "rn_inv m \<longleftrightarrow> (\<forall>p \<in> set m. rn_ui32Hash p = HashNick (rn_sNick p))
     \<and> distinct (map (folded \<circ> rn_sNick) m)"

definition reserved :: "ReservedNicksManager \<Rightarrow> string \<Rightarrow> bool" where
  "reserved m n = CheckReserved m n (HashNick n)"

lemma rn_inv_Nil [simp]: "rn_inv []"
  by (simp add: rn_inv_def)

lemma CheckReserved_iff:
  "rn_inv m \<Longrightarrow> CheckReserved m n (HashNick n) \<longleftrightarrow> folded n \<in> set (map (folded \<circ> rn_sNick) m)"
  by (induction m) (auto simp: rn_inv_def iequals_folded dest: HashNick_iequals [unfolded iequals_folded])

lemma rn_inv_Add: "rn_inv m \<Longrightarrow> rn_inv (AddReservedNick n b m)"
  by (auto simp: AddReservedNick_def Let_def CheckReserved_iff CreateReservedNick_def rn_inv_def)

lemma Del_subset: "set (DelReservedNick_loop h n b m) \<subseteq> set m"
  by (induction m) auto

lemma rn_inv_Del_loop: "rn_inv m \<Longrightarrow> rn_inv (DelReservedNick_loop h n b m)"
  by (induction m) (auto simp: rn_inv_def dest: subsetD [OF Del_subset] intro: rev_image_eqI)

lemma rn_inv_Del: "rn_inv m \<Longrightarrow> rn_inv (DelReservedNick n b m)"
  by (simp add: DelReservedNick_def rn_inv_Del_loop)

lemma reserved_Add: "rn_inv m \<Longrightarrow> reserved (AddReservedNick n b m) n' \<longleftrightarrow> reserved m n' \<or> iequals n n'"
  using rn_inv_Add [of m n b]
  by (auto simp: reserved_def CheckReserved_iff iequals_folded AddReservedNick_def Let_def
      CreateReservedNick_def)

lemma Del_loop_absent: "\<forall>p \<in> set m. rn_sNick p \<noteq> n \<Longrightarrow> DelReservedNick_loop h n b m = m"
  by (induction m) auto

lemma Del_loop_filter:
  "distinct (map (folded \<circ> rn_sNick) m) \<Longrightarrow> \<forall>p \<in> set m. rn_ui32Hash p = HashNick (rn_sNick p) \<Longrightarrow>
     DelReservedNick_loop (HashNick n) n b m = filter (\<lambda>p. \<not> (rn_sNick p = n \<and> (b \<longrightarrow> rn_bFromScript p))) m"
proof (induction m)
  case Nil
  then show ?case by simp
next
  case (Cons p ps)
  show ?case
  proof (cases "rn_sNick p = n")
    case True
    with Cons.prems have a: "\<forall>q \<in> set ps. rn_sNick q \<noteq> n" by (auto simp: image_iff)
    then have "filter (\<lambda>p. \<not> (rn_sNick p = n \<and> (b \<longrightarrow> rn_bFromScript p))) ps = ps"
      by (auto simp: filter_id_conv)
    with True Cons.prems show ?thesis by (auto simp: Del_loop_absent [OF a])
  next
    case False
    with Cons show ?thesis by auto
  qed
qed

text \<open>
  The reserved nicks behave as a set of nicks taken without regard to case: adding reserves
  the nick and nothing else, and never creates two entries that differ only in case; deleting removes
  exactly the entry with the same spelling, and a script may delete only what a script added.
\<close>

theorem reserved_nicks_set:
  assumes "rn_inv m"
  shows "rn_inv (AddReservedNick n b m) \<and> rn_inv (DelReservedNick n b m)
    \<and> (\<forall>n'. reserved (AddReservedNick n b m) n' \<longleftrightarrow> reserved m n' \<or> iequals n n')
    \<and> set (DelReservedNick n b m) = {p \<in> set m. \<not> (rn_sNick p = n \<and> (b \<longrightarrow> rn_bFromScript p))}"
  using assms rn_inv_Add rn_inv_Del reserved_Add
  by (simp add: DelReservedNick_def Del_loop_filter rn_inv_def)

lemma default_manager_inv: "rn_inv default_manager"
proof -
  have "rn_inv m \<Longrightarrow> rn_inv (foldl (\<lambda>m n. AddReservedNick n False m) m ns)" for m ns
    by (induction ns arbitrary: m) (auto simp: rn_inv_Add)
  then show ?thesis by (simp add: default_manager_def)
qed

theorem reserved_nicks_set_witness:
  "reserved (AddReservedNick ''Guest'' True default_manager) ''GUEST''
   \<and> rn_inv (DelReservedNick ''Admin'' True default_manager)"
proof -
  have "iequals ''Guest'' ''GUEST''" by (simp add: iequals_def byte_of_def lower_byte_def)
  with reserved_nicks_set [OF default_manager_inv] show ?thesis by blast
qed

section \<open>Saving and loading\<close>

text \<open>A nick the file format can hold: one line, not empty, not a comment.\<close>

definition storable :: "string \<Rightarrow> bool" where
  "storable n \<longleftrightarrow> n \<noteq> [] \<and> hd n \<noteq> CHR ''#'' \<and> CHR 0x0A \<notin> set n \<and> CHR 0x00 \<notin> set n"

lemma set_str_insert: "set (str_insert x xs) = insert x (set xs)"
  by (induction xs) auto

lemma set_str_sort [simp]: "set (str_sort xs) = set xs"
  by (induction xs) (auto simp: str_sort_def set_str_insert)

lemma str_le_total: "str_le s t \<or> str_le t s"
  by (induction s t rule: str_le.induct) auto

lemma str_le_trans: "str_le s t \<Longrightarrow> str_le t u \<Longrightarrow> str_le s u"
proof (induction s t arbitrary: u rule: str_le.induct)
  case (3 a s b t)
  then show ?case by (cases u) (auto split: if_splits)
qed auto

lemma str_sort_sorted: "sorted_wrt str_le (str_sort xs)"
proof -
  have "sorted_wrt str_le ys \<Longrightarrow> sorted_wrt str_le (str_insert x ys)" for x ys
  proof (induction ys)
    case (Cons y ys)
    then show ?case using str_le_total [of x y] by (auto simp: set_str_insert intro: str_le_trans)
  qed simp
  then show ?thesis by (induction xs) (auto simp: str_sort_def)
qed

lemma getlines_line:
  "CHR 0x0A \<notin> set l \<Longrightarrow> getlines acc (l @ CHR 0x0A # rest) = (acc @ l) # getlines [] rest"
  by (induction l arbitrary: acc) auto

lemma getlines_concat:
  "\<forall>n \<in> set ns. CHR 0x0A \<notin> set n \<Longrightarrow> getlines [] (concat (map (\<lambda>n. n @ [CHR 0x0A]) ns)) = ns"
  by (induction ns) (simp_all add: getlines_line [where acc = "[]", simplified])

lemma Load_lines_reserved:
  assumes "rn_inv m" and "\<forall>n \<in> set ns. storable n"
  shows "rn_inv (Load_lines ns m)
    \<and> (\<forall>n'. reserved (Load_lines ns m) n' \<longleftrightarrow> reserved m n' \<or> (\<exists>n \<in> set ns. iequals n n'))"
  using assms
proof (induction ns arbitrary: m)
  case (Cons l ls)
  then have st: "storable l" by simp
  then have "hd l \<noteq> CHR 0x0A" unfolding storable_def by (metis hd_in_set)
  with st have l: "l \<noteq> []" "hd l \<noteq> CHR ''#''" "hd l \<noteq> CHR 0x0A" "c_str l = l"
    by (auto simp: storable_def c_str_id)
  with Cons.IH [OF rn_inv_Add [OF Cons.prems(1), of l False]] Cons.prems reserved_Add
  show ?case by auto
qed simp

lemma getlines_Save:
  assumes "\<forall>p \<in> set m. storable (rn_sNick p)"
  shows "getlines [] (Save m) =
    [''#'', ''# PtokaX reserved nicks file'', ''#'', []] @ str_sort (map rn_sNick m)"
proof -
  have nl: "\<forall>n \<in> set (str_sort (map rn_sNick m)). CHR 0x0A \<notin> set n"
    using assms by (auto simp: storable_def)
  show ?thesis by (simp add: Save_def pxt_header_def getlines_concat [OF nl])
qed

text \<open>
  Saving and loading preserves the set of reserved nicks: reading the written file back gives a
  manager that reserves exactly the same nicks, and the file lists them in byte order.
\<close>

theorem reserved_save_load:
  assumes "rn_inv m" and "\<forall>p \<in> set m. storable (rn_sNick p)"
  shows "rn_inv (Load (Save m) []) \<and> (\<forall>n. reserved (Load (Save m) []) n \<longleftrightarrow> reserved m n)
    \<and> sorted_wrt str_le (drop 4 (getlines [] (Save m)))"
proof -
  let ?ns = "str_sort (map rn_sNick m)"
  have "Load (Save m) [] = Load_lines ?ns []"
    unfolding Load_def getlines_Save [OF assms(2)] by simp
  moreover have "\<forall>n \<in> set ?ns. storable n" using assms(2) by auto
  note Load_lines_reserved [OF rn_inv_Nil this]
  moreover have "reserved m n \<longleftrightarrow> (\<exists>n' \<in> set ?ns. iequals n' n)" for n
    using assms(1) by (auto simp: reserved_def CheckReserved_iff iequals_folded image_iff) metis
  moreover have "\<not> reserved [] n" for n by (simp add: reserved_def)
  ultimately show ?thesis
    using str_sort_sorted [of "map rn_sNick m"] by (simp add: getlines_Save [OF assms(2)])
qed

theorem reserved_save_load_witness:
  "rn_inv (Load (Save default_manager) [])
   \<and> (\<forall>n. reserved (Load (Save default_manager) []) n \<longleftrightarrow> reserved default_manager n)"
proof -
  have names: "set (map rn_sNick (AddReservedNick n b m)) \<subseteq> insert n (set (map rn_sNick m))" for n b m
    by (auto simp: AddReservedNick_def Let_def CreateReservedNick_def)
  have fold: "set (map rn_sNick (foldl (\<lambda>m n. AddReservedNick n False m) m ns)) \<subseteq> set (map rn_sNick m) \<union> set ns"
    for m ns
    by (induction ns arbitrary: m) (auto dest!: subsetD [OF names, simplified])
  have "\<forall>n \<in> set default_reserved. storable n" by (simp add: default_reserved_def storable_def)
  then have "\<forall>p \<in> set default_manager. storable (rn_sNick p)"
    using fold [of "[]" default_reserved] by (auto simp: default_manager_def)
  from reserved_save_load [OF default_manager_inv this] show ?thesis by blast
qed

end
