(* ===== verification/FloodTexts.thy ===== *)
theory FloodTexts
  imports Main
begin

text \<open>
  The texts of \<open>core/DeFlood.cpp\<close>: the kinds of flood in the order of the enumeration, the language entries
  the component names, and the table from one to the other.
\<close>

datatype LangIds =
    LAN_THIS_HUB_IS_RUNNING | LAN_YOU_BEING_KICKED_BCS | LAN_BECAUSE_LWR | LAN_WITH_IP
  | LAN_YOU_HAD_BEEN_TEMP_BANNED_TO | LAN_YOU_ARE_BEING_BANNED_BECAUSE
  | LAN_PLS_DONT_FLOOD_WITH_GetNickList | LAN_YOU_ARE_BEING_DISCONNECTED_BECAUSE
  | LAN_GetNickList_FLOODING | LAN_GetNickList_FLOODER | LAN_WAS_KICKED | LAN_WAS_TEMPORARY_BANNED
  | LAN_WAS_BANNED | LAN_PLS_DONT_FLOOD_WITH_SEARCHES | LAN_SEARCH_FLOODING | LAN_SEARCH_FLOODER
  | LAN_PLS_DONT_FLOOD_WITH_MyINFO | LAN_MyINFO_FLOODING | LAN_MyINFO_FLOODER
  | LAN_PLS_DONT_FLOOD_WITH_PM | LAN_PM_FLOODING | LAN_PM_FLOODER | LAN_PLS_DONT_FLOOD_CHAT
  | LAN_CHAT_FLOODING | LAN_CHAT_FLOODER | LAN_WAS_DISCONNECTED | LAN_PLS_DONT_FLOOD_WITH_SAME_SEARCHES
  | LAN_SAME_SEARCH_FLOODING | LAN_SAME_SEARCH_FLOODER | LAN_PLS_DONT_FLOOD_WITH_SAME_PM
  | LAN_SAME_PM_FLOODING | LAN_SAME_PM_FLOODER | LAN_PLS_DONT_FLOOD_SAME_CHAT | LAN_SAME_CHAT_FLOODING
  | LAN_SAME_CHAT_FLOODER | LAN_PLS_DONT_FLOOD_WITH_SAME_MULTI_PM | LAN_SAME_MULTI_PM_FLOODING
  | LAN_SAME_MULTI_PM_FLOODER | LAN_PLS_DONT_FLOOD_SAME_MULTI_CHAT | LAN_SAME_MULTI_CHAT_FLOODING
  | LAN_SAME_MULTI_CHAT_FLOODER | LAN_PLS_DONT_FLOOD_WITH_CTM | LAN_CTM_FLOODING | LAN_CTM_FLOODER
  | LAN_PLS_DONT_FLOOD_WITH_RCTM | LAN_RCTM_FLOODING | LAN_RCTM_FLOODER | LAN_PLS_DONT_FLOOD_WITH_SR
  | LAN_SR_FLOODING | LAN_SR_FLOODER | LAN_PLS_DONT_FLOOD_WITH_DATA | LAN_DATA_FLOODING
  | LAN_DATA_FLOODER | LAN_PLEASE_WAIT | LAN_SECONDS_BEFORE_NEXT_CHAT_MSG | LAN_SECONDS_BEFORE_NEXT_PM
  | LAN_SECONDS_BEFORE_NEXT_SEARCH

datatype DefloodTypes =
    GETNICKLIST | MYINFO | SEARCH | CHAT | PM | SAME_SEARCH | SAME_PM | SAME_CHAT
  | SAME_MULTI_PM | SAME_MULTI_CHAT | CTM | RCTM | SR | MAX_DOWN | INTERVAL_CHAT | INTERVAL_PM
  | INTERVAL_SEARCH

fun g_defloodMessages :: "DefloodTypes \<Rightarrow> LangIds \<times> LangIds \<times> LangIds" where
  "g_defloodMessages GETNICKLIST = (LAN_PLS_DONT_FLOOD_WITH_GetNickList, LAN_GetNickList_FLOODING, LAN_GetNickList_FLOODER)"
| "g_defloodMessages MYINFO = (LAN_PLS_DONT_FLOOD_WITH_MyINFO, LAN_MyINFO_FLOODING, LAN_MyINFO_FLOODER)"
| "g_defloodMessages SEARCH = (LAN_PLS_DONT_FLOOD_WITH_SEARCHES, LAN_SEARCH_FLOODING, LAN_SEARCH_FLOODER)"
| "g_defloodMessages CHAT = (LAN_PLS_DONT_FLOOD_CHAT, LAN_CHAT_FLOODING, LAN_CHAT_FLOODER)"
| "g_defloodMessages PM = (LAN_PLS_DONT_FLOOD_WITH_PM, LAN_PM_FLOODING, LAN_PM_FLOODER)"
| "g_defloodMessages SAME_SEARCH = (LAN_PLS_DONT_FLOOD_WITH_SAME_SEARCHES, LAN_SAME_SEARCH_FLOODING, LAN_SAME_SEARCH_FLOODER)"
| "g_defloodMessages SAME_PM = (LAN_PLS_DONT_FLOOD_WITH_SAME_PM, LAN_SAME_PM_FLOODING, LAN_SAME_PM_FLOODER)"
| "g_defloodMessages SAME_CHAT = (LAN_PLS_DONT_FLOOD_SAME_CHAT, LAN_SAME_CHAT_FLOODING, LAN_SAME_CHAT_FLOODER)"
| "g_defloodMessages SAME_MULTI_PM = (LAN_PLS_DONT_FLOOD_WITH_SAME_MULTI_PM, LAN_SAME_MULTI_PM_FLOODING, LAN_SAME_MULTI_PM_FLOODER)"
| "g_defloodMessages SAME_MULTI_CHAT = (LAN_PLS_DONT_FLOOD_SAME_MULTI_CHAT, LAN_SAME_MULTI_CHAT_FLOODING, LAN_SAME_MULTI_CHAT_FLOODER)"
| "g_defloodMessages CTM = (LAN_PLS_DONT_FLOOD_WITH_CTM, LAN_CTM_FLOODING, LAN_CTM_FLOODER)"
| "g_defloodMessages RCTM = (LAN_PLS_DONT_FLOOD_WITH_RCTM, LAN_RCTM_FLOODING, LAN_RCTM_FLOODER)"
| "g_defloodMessages SR = (LAN_PLS_DONT_FLOOD_WITH_SR, LAN_SR_FLOODING, LAN_SR_FLOODER)"
| "g_defloodMessages MAX_DOWN = (LAN_PLS_DONT_FLOOD_WITH_DATA, LAN_DATA_FLOODING, LAN_DATA_FLOODER)"
| "g_defloodMessages INTERVAL_CHAT = (LAN_SECONDS_BEFORE_NEXT_CHAT_MSG, LAN_THIS_HUB_IS_RUNNING, LAN_THIS_HUB_IS_RUNNING)"
| "g_defloodMessages INTERVAL_PM = (LAN_SECONDS_BEFORE_NEXT_PM, LAN_THIS_HUB_IS_RUNNING, LAN_THIS_HUB_IS_RUNNING)"
| "g_defloodMessages INTERVAL_SEARCH = (LAN_SECONDS_BEFORE_NEXT_SEARCH, LAN_THIS_HUB_IS_RUNNING, LAN_THIS_HUB_IS_RUNNING)"

primrec flood_number :: "DefloodTypes \<Rightarrow> nat" where
  "flood_number GETNICKLIST = 0"
| "flood_number MYINFO = 1"
| "flood_number SEARCH = 2"
| "flood_number CHAT = 3"
| "flood_number PM = 4"
| "flood_number SAME_SEARCH = 5"
| "flood_number SAME_PM = 6"
| "flood_number SAME_CHAT = 7"
| "flood_number SAME_MULTI_PM = 8"
| "flood_number SAME_MULTI_CHAT = 9"
| "flood_number CTM = 10"
| "flood_number RCTM = 11"
| "flood_number SR = 12"
| "flood_number MAX_DOWN = 13"
| "flood_number INTERVAL_CHAT = 14"
| "flood_number INTERVAL_PM = 15"
| "flood_number INTERVAL_SEARCH = 16"

definition DeFloodGetMessage :: "(LangIds \<Rightarrow> string) \<Rightarrow> DefloodTypes \<Rightarrow> nat \<Rightarrow> string" where
  "DeFloodGetMessage m_sTexts eDefloodType ui8MsgId =
     (case g_defloodMessages eDefloodType of (m_sWarning, m_sAction, m_sReport) \<Rightarrow>
        if ui8MsgId = 0 then m_sTexts m_sWarning
        else if ui8MsgId = 1 then m_sTexts m_sAction
        else if ui8MsgId = 2 then m_sTexts m_sReport
        else [])"

end
