(* ===== verification/DeFlood.thy ===== *)
theory DeFlood
  imports FloodTexts UserSend BanSpec TextFormat
begin

text \<open>
  Flood control (\<open>core/DeFlood.cpp\<close>): the checks each protocol command passes, and what happens to a user who
  floods.  The world is the hub and the ban manager; settings, texts, the clock and the socket's answer are
  the environment.  A counter and its tick, references into the user object in the code, are passed
  in and returned.
\<close>

section \<open>The environment\<close>

record flood_env =
  fe_hub :: hub_config
  fe_zpipe :: "string \<Rightarrow> string option"
  fe_sock :: send_result
  HubSec :: string
  m_sTexts :: "LangIds \<Rightarrow> string"
  time_texts :: "lang_time \<Rightarrow> string"
  DEFLOOD_WARNING_COUNT :: "16 word"
  DEFLOOD_WARNING_ACTION :: "16 word"
  DEFLOOD_TEMP_BAN_TIME :: "16 word"
  DEFAULT_TEMP_BAN_TIME :: "16 word"
  DEFLOOD_REPORT :: bool
  clock :: int

type_synonym world = "hub \<times> BanManager"

abbreviation flood_text :: "flood_env \<Rightarrow> DefloodTypes \<Rightarrow> nat \<Rightarrow> string" where
  "flood_text env \<equiv> DeFloodGetMessage (m_sTexts env)"

definition tell :: "flood_env \<Rightarrow> string option \<Rightarrow> bool \<Rightarrow> string \<Rightarrow> addr \<Rightarrow> world \<Rightarrow> world res" where
  "tell env sOtherNick bDelayed text a W =
     rbind (SendFormatCheckPM (fe_hub env) (fe_zpipe env) (fe_sock env) sOtherNick bDelayed a
              (''<'' @ HubSec env @ ''> '' @ text) (fst W)) (\<lambda>H. Inr (H, snd W))"

definition close_user :: "flood_env \<Rightarrow> addr \<Rightarrow> world \<Rightarrow> world res" where
  "close_user env a W = rbind (User_Close (fe_hub env) a False (fst W)) (\<lambda>H. Inr (H, snd W))"

definition temp_ban_user :: "flood_env \<Rightarrow> string \<Rightarrow> u32 \<Rightarrow> addr \<Rightarrow> world \<Rightarrow> world res" where
  "temp_ban_user env sReason minutes a W =
     rbind (the_user a (fst W)) (\<lambda>u.
     rbind (TempBan u (Some sReason) None minutes 0 False (DEFAULT_TEMP_BAN_TIME env) (clock env) (snd W))
       (\<lambda>s. Inr (fst W, s)))"

definition perm_ban_user :: "flood_env \<Rightarrow> string \<Rightarrow> addr \<Rightarrow> world \<Rightarrow> world res" where
  "perm_ban_user env sReason a W =
     rbind (the_user a (fst W)) (\<lambda>u.
     rbind (Ban u (Some sReason) None False (clock env) (snd W)) (\<lambda>s. Inr (fst W, s)))"

definition DeFloodReport :: "flood_env \<Rightarrow> DefloodTypes \<Rightarrow> string \<Rightarrow> addr \<Rightarrow> world \<Rightarrow> world res" where
  "DeFloodReport env eDefloodType sAction a W =
     rbind (the_user a (fst W)) (\<lambda>u.
     let H = (if DEFLOOD_REPORT env
              then call (StatusMessage (''<'' @ HubSec env @ ''> *** '' @ flood_text env eDefloodType 2 @ '' '' @ m_sNick u
                @ '' '' @ m_sTexts env LAN_WITH_IP @ '' '' @ m_sIP u @ '' '' @ sAction @ ''.|'')) (fst W)
              else fst W)
     in Inr (call (DebugBroadcast (''[SYS] Flood type '' @ to_dec (flood_number eDefloodType) @ '' from '' @ m_sNick u
          @ '' ('' @ m_sIP u @ '') - user closed.'')) H, snd W))"

section \<open>Punishing a flooder\<close>

text \<open>The three bans with their message and report, shared by the direct actions and the warning actions.\<close>

definition kick_flooder :: "flood_env \<Rightarrow> DefloodTypes \<Rightarrow> string option \<Rightarrow> addr \<Rightarrow> world \<Rightarrow> world res" where
  "kick_flooder env ty sOtherNick a W =
     rbind (temp_ban_user env (flood_text env ty 1) 0 a W) (\<lambda>W1.
     rbind (tell env sOtherNick False (m_sTexts env LAN_YOU_BEING_KICKED_BCS @ '': '' @ flood_text env ty 1 @ ''!|'') a W1)
       (DeFloodReport env ty (m_sTexts env LAN_WAS_KICKED) a))"

definition temp_ban_flooder :: "flood_env \<Rightarrow> DefloodTypes \<Rightarrow> string option \<Rightarrow> addr \<Rightarrow> world \<Rightarrow> world res" where
  "temp_ban_flooder env ty sOtherNick a W =
     rbind (temp_ban_user env (flood_text env ty 1) (scast (DEFLOOD_TEMP_BAN_TIME env)) a W) (\<lambda>W1.
     rbind (tell env sOtherNick False (m_sTexts env LAN_YOU_HAD_BEEN_TEMP_BANNED_TO @ '': ''
              @ formatTime (time_texts env) (unat (scast (DEFLOOD_TEMP_BAN_TIME env) :: u64)) @ '' ''
              @ m_sTexts env LAN_BECAUSE_LWR @ '': '' @ flood_text env ty 1 @ ''!|'') a W1)
       (DeFloodReport env ty (m_sTexts env LAN_WAS_TEMPORARY_BANNED) a))"

definition ban_flooder :: "flood_env \<Rightarrow> DefloodTypes \<Rightarrow> string option \<Rightarrow> addr \<Rightarrow> world \<Rightarrow> world res" where
  "ban_flooder env ty sOtherNick a W =
     rbind (perm_ban_user env (flood_text env ty 1) a W) (\<lambda>W1.
     rbind (tell env sOtherNick False (m_sTexts env LAN_YOU_ARE_BEING_BANNED_BECAUSE @ '': '' @ flood_text env ty 1 @ ''!|'') a W1)
       (DeFloodReport env ty (m_sTexts env LAN_WAS_BANNED) a))"

definition add_warning :: "addr \<Rightarrow> world \<Rightarrow> world res" where
  "add_warning a W =
     rbind (set_user a (\<lambda>u. u\<lparr>m_ui32DefloodWarnings := m_ui32DefloodWarnings u + 1\<rparr>) (fst W)) (\<lambda>H. Inr (H, snd W))"

definition warning_action :: "flood_env \<Rightarrow> DefloodTypes \<Rightarrow> string option \<Rightarrow> addr \<Rightarrow> world \<Rightarrow> world res" where
  "warning_action env ty sOtherNick a W =
     (let act = sint (DEFLOOD_WARNING_ACTION env) in
      if act = 0 then
        rbind (tell env sOtherNick False (m_sTexts env LAN_YOU_ARE_BEING_DISCONNECTED_BECAUSE @ '': ''
                 @ flood_text env ty 1 @ ''!|'') a W)
          (DeFloodReport env ty (m_sTexts env LAN_WAS_DISCONNECTED) a)
      else if act = 1 then kick_flooder env ty sOtherNick a W
      else if act = 2 then temp_ban_flooder env ty sOtherNick a W
      else if act = 3 then ban_flooder env ty sOtherNick a W
      else Inr W)"

text \<open>The flag says whether the warnings ran out, and the user was closed.\<close>

definition DeFloodCheckForWarn :: "flood_env \<Rightarrow> DefloodTypes \<Rightarrow> string option \<Rightarrow> addr \<Rightarrow> world \<Rightarrow> (world \<times> bool) res" where
  "DeFloodCheckForWarn env ty sOtherNick a W =
     rbind (the_user a (fst W)) (\<lambda>u.
       if m_ui32DefloodWarnings u < scast (DEFLOOD_WARNING_COUNT env)
       then rbind (SendFormat (fe_hub env) (fe_zpipe env) (fe_sock env) True a
                     (''<'' @ HubSec env @ ''> '' @ flood_text env ty 0 @ ''!|'') (fst W)) (\<lambda>H. Inr ((H, snd W), False))
       else rbind (warning_action env ty sOtherNick a W) (\<lambda>W1.
            rbind (close_user env a W1) (\<lambda>W2. Inr (W2, True))))"

definition DeFloodDoAction :: "flood_env \<Rightarrow> DefloodTypes \<Rightarrow> 16 word \<Rightarrow> u16 \<Rightarrow> string option \<Rightarrow> addr \<Rightarrow> world
    \<Rightarrow> (world \<times> u16) res" where
  "DeFloodDoAction env ty ui16Action ui16Count sOtherNick a W =
     (let act = sint ui16Action; more = (if ty \<noteq> MAX_DOWN then ui16Count + 1 else ui16Count) in
      if act = 1 then
        rbind (tell env sOtherNick True (flood_text env ty 0 @ ''!|'') a W) (\<lambda>W1. Inr (W1, more))
      else if act = 2 then
        rbind (add_warning a W) (\<lambda>W1.
        rbind (DeFloodCheckForWarn env ty sOtherNick a W1) (\<lambda>(W2, closed).
          Inr (W2, if closed then ui16Count else more)))
      else if act = 3 then
        rbind (tell env sOtherNick False (flood_text env ty 0 @ ''!|'') a W) (\<lambda>W1.
        rbind (DeFloodReport env ty (m_sTexts env LAN_WAS_DISCONNECTED) a W1) (\<lambda>W2.
        rbind (close_user env a W2) (\<lambda>W3. Inr (W3, ui16Count))))
      else if act = 4 then
        rbind (kick_flooder env ty sOtherNick a W) (\<lambda>W1.
        rbind (close_user env a W1) (\<lambda>W2. Inr (W2, ui16Count)))
      else if act = 5 then
        rbind (temp_ban_flooder env ty sOtherNick a W) (\<lambda>W1.
        rbind (close_user env a W1) (\<lambda>W2. Inr (W2, ui16Count)))
      else if act = 6 then
        rbind (ban_flooder env ty sOtherNick a W) (\<lambda>W1.
        rbind (close_user env a W1) (\<lambda>W2. Inr (W2, ui16Count)))
      else Inr (W, ui16Count))"

section \<open>The checks\<close>

text \<open>Counter and limit meet as \<open>int\<close>, after the usual promotions; ticks wrap at 64 bits.\<close>

definition DeFloodCheckForFlood :: "flood_env \<Rightarrow> DefloodTypes \<Rightarrow> 16 word \<Rightarrow> 16 word \<Rightarrow> u32 \<Rightarrow> string option \<Rightarrow> addr
    \<Rightarrow> u64 \<Rightarrow> u16 \<Rightarrow> u64 \<Rightarrow> world \<Rightarrow> (world \<times> u16 \<times> u64 \<times> bool) res" where
  "DeFloodCheckForFlood env ty ui16Action ui16DefloodCount ui32DefloodTime sOtherNick a tick ui16Count ui64LastOkTick W =
     (let n = int (unat ui16Count); lim = sint ui16DefloodCount;
          within = ui64LastOkTick + ucast ui32DefloodTime > tick in
      if ui16Count = 0 then Inr (W, ui16Count + 1, tick, False)
      else if n = lim then
        (if within then
           rbind (DeFloodDoAction env ty ui16Action ui16Count sOtherNick a W) (\<lambda>(W1, c).
             Inr (W1, c, ui64LastOkTick, True))
         else Inr (W, 1, tick, False))
      else if n > lim then
        (if within then
           (if sint ui16Action = 2 \<and> n = lim * 2 then
              rbind (add_warning a W) (\<lambda>W1.
              rbind (DeFloodCheckForWarn env ty sOtherNick a W1) (\<lambda>(W2, closed).
                if closed then Inr (W2, ui16Count, ui64LastOkTick, True)
                else Inr (W2, ui16Count - ui16DefloodCount + 1, ui64LastOkTick, True)))
            else Inr (W, ui16Count + 1, ui64LastOkTick, True))
         else Inr (W, 1, tick, False))
      else if \<not> within then Inr (W, 1, tick, False)
      else Inr (W, ui16Count + 1, ui64LastOkTick, False))"

text \<open>The result carries \<open>bNewData\<close>: the text differs from the old one, or the old one is too old.\<close>

definition DeFloodCheckForSameFlood :: "flood_env \<Rightarrow> DefloodTypes \<Rightarrow> 16 word \<Rightarrow> 16 word \<Rightarrow> u32 \<Rightarrow> string option \<Rightarrow> addr
    \<Rightarrow> u64 \<Rightarrow> u64 \<Rightarrow> string \<Rightarrow> string \<Rightarrow> bool \<Rightarrow> u16 \<Rightarrow> world \<Rightarrow> (world \<times> u16 \<times> bool \<times> bool) res" where
  "DeFloodCheckForSameFlood env ty ui16Action ui16DefloodCount ui32DefloodTime sOtherNick a tick ui64LastOkTick
       sNewData sOldData bNewData ui16Count W =
     (let n = int (unat ui16Count); lim = sint ui16DefloodCount in
      if sOldData = [] \<and> sNewData = [] then Inr (W, ui16Count, bNewData, False)
      else if length sOldData = length sNewData
        \<and> (tick \<ge> ui64LastOkTick \<and> ui64LastOkTick + ucast ui32DefloodTime > tick) \<and> sNewData = sOldData then
        (if n < lim then Inr (W, ui16Count + 1, bNewData, False)
         else if n = lim then
           rbind (DeFloodDoAction env ty ui16Action ui16Count sOtherNick a W) (\<lambda>(W1, c).
           rbind (the_user a (fst W1)) (\<lambda>u.
             Inr (W1, if m_ui8State u < STATE_CLOSING then c + 1 else c, bNewData, True)))
         else if sint ui16Action = 2 \<and> n = lim * 2 then
           rbind (add_warning a W) (\<lambda>W1.
           rbind (DeFloodCheckForWarn env ty sOtherNick a W1) (\<lambda>(W2, closed).
             if closed then Inr (W2, ui16Count, bNewData, True)
             else Inr (W2, ui16Count - ui16DefloodCount + 1, bNewData, True)))
         else Inr (W, ui16Count + 1, bNewData, True))
      else Inr (W, ui16Count, True, False))"

definition flag_flooder :: "bool \<Rightarrow> addr \<Rightarrow> world \<Rightarrow> world res" where
  "flag_flooder on a W =
     rbind (set_user a (\<lambda>u. u\<lparr>m_ui32BoolBits := (if on then m_ui32BoolBits u OR BIT_RECV_FLOODER
                                             else m_ui32BoolBits u AND NOT BIT_RECV_FLOODER)\<rparr>) (fst W))
       (\<lambda>H. Inr (H, snd W))"

definition DeFloodCheckForDataFlood :: "flood_env \<Rightarrow> DefloodTypes \<Rightarrow> 16 word \<Rightarrow> 16 word \<Rightarrow> u32 \<Rightarrow> addr
    \<Rightarrow> u64 \<Rightarrow> u32 \<Rightarrow> u64 \<Rightarrow> world \<Rightarrow> (world \<times> u32 \<times> u64 \<times> bool) res" where
  "DeFloodCheckForDataFlood env ty ui16Action ui16DefloodCount ui32DefloodTime a tick ui32Count ui64LastOkTick W =
     (let within = ui64LastOkTick + ucast ui32DefloodTime > tick in
      if int (unat (ucast (ui32Count div 1024) :: u16)) \<ge> sint ui16DefloodCount then
        (if within then
           rbind (the_user a (fst W)) (\<lambda>u.
             if has_bits (m_ui32BoolBits u) BIT_RECV_FLOODER then Inr (W, ui32Count, ui64LastOkTick, True)
             else rbind (flag_flooder True a W) (\<lambda>W1.
                  rbind (DeFloodDoAction env ty ui16Action (ucast ui32Count) None a W1) (\<lambda>(W2, _).
                    Inr (W2, ui32Count, ui64LastOkTick, True))))
         else rbind (flag_flooder False a W) (\<lambda>W1. Inr (W1, 0, tick, False)))
      else if \<not> within then rbind (flag_flooder False a W) (\<lambda>W1. Inr (W1, 0, tick, False))
      else Inr (W, ui32Count, ui64LastOkTick, False))"

definition DeFloodCheckInterval :: "flood_env \<Rightarrow> DefloodTypes \<Rightarrow> 16 word \<Rightarrow> u32 \<Rightarrow> string option \<Rightarrow> addr
    \<Rightarrow> u64 \<Rightarrow> u16 \<Rightarrow> u64 \<Rightarrow> world \<Rightarrow> (world \<times> u16 \<times> u64 \<times> bool) res" where
  "DeFloodCheckInterval env ty ui16DefloodCount ui32DefloodTime sOtherNick a tick ui16Count ui64LastOkTick W =
     (let n = int (unat ui16Count); lim = sint ui16DefloodCount;
          until = ui64LastOkTick + ucast ui32DefloodTime in
      if ui16Count = 0 then Inr (W, ui16Count + 1, tick, False)
      else if n \<ge> lim then
        (if until > tick then
           rbind (tell env sOtherNick True (m_sTexts env LAN_PLEASE_WAIT @ '' '' @ to_dec (unat (until - tick)) @ '' ''
                    @ flood_text env ty 0 @ ''.|'') a W) (\<lambda>W1. Inr (W1, ui16Count + 1, ui64LastOkTick, True))
         else Inr (W, 1, tick, False))
      else if \<not> until > tick then Inr (W, 1, tick, False)
      else Inr (W, ui16Count + 1, ui64LastOkTick, False))"

end
