(* ===== verification/FloodActions.thy ===== *)
theory FloodActions
  imports DeFlood
begin

text \<open>
  What the flood actions do: whatever the settings and the socket, the hub and the ban manager stay consistent,
  a user who is to be punished is being closed afterwards, and the bans that the action promises are in force.
  The only fault they can run into is the double deletion of a ban that is replaced.
\<close>

definition flood_ready :: "flood_env \<Rightarrow> addr \<Rightarrow> world \<Rightarrow> bool" where
  "flood_ready env a W \<longleftrightarrow> alive a (fst W) \<and> ban_inv (snd W) \<and> room_for (global_buffer_size (fe_hub env)) a (fst W)
     \<and> zpipe_law (fe_zpipe env)
     \<and> (\<forall>u. the_user a (fst W) = Inr u \<longrightarrow> m_ui32NickHash u = HashNick (m_sNick u))"

definition sound :: "addr \<Rightarrow> world \<Rightarrow> bool" where
  "sound a W \<longleftrightarrow> alive a (fst W) \<and> ban_inv (snd W)"

definition closed_off :: "addr \<Rightarrow> world \<Rightarrow> bool" where
  "closed_off a W \<longleftrightarrow> closing a (fst W) \<and> ban_inv (snd W)"

lemma closed_off_sound: "closed_off a W \<Longrightarrow> sound a W"
  by (simp add: closed_off_def sound_def closing_alive)

lemma alive_user: "alive a H \<Longrightarrow> \<exists>u. the_user a H = Inr u"
  by (erule aliveE) blast

lemma tell_safe:
  assumes "alive a (fst W)" and "room_for (global_buffer_size (fe_hub env)) a (fst W)" and "zpipe_law (fe_zpipe env)"
  shows "\<exists>H. tell env other d t a W = Inr (H, snd W) \<and> alive a H"
  using SendFormat_alive(2) [OF assms, of "fe_sock env" other d "''<'' @ HubSec env @ ''> '' @ t"]
  by (auto simp: tell_def)

lemma report_safe:
  assumes "alive a (fst W)"
  shows "\<exists>H. DeFloodReport env ty act a W = Inr (H, snd W) \<and> alive a H"
  using alive_user [OF assms] assms by (auto simp: DeFloodReport_def Let_def)

lemma close_safe:
  assumes "alive a (fst W)"
  shows "\<exists>H. close_user env a W = Inr (H, snd W) \<and> closing a H"
  using User_Close_alive [OF assms, of "fe_hub env" False] by (auto simp: close_user_def)

text \<open>Message and report, in this order, as every punishment has them.\<close>

lemma tell_report_safe:
  assumes "alive a (fst W)" and "room_for (global_buffer_size (fe_hub env)) a (fst W)" and "zpipe_law (fe_zpipe env)"
  shows "\<exists>H. rbind (tell env other False t a W) (DeFloodReport env ty act a) = Inr (H, snd W) \<and> alive a H"
proof -
  from tell_safe [OF assms, of other False t] obtain H1 where t: "tell env other False t a W = Inr (H1, snd W)" "alive a H1"
    by blast
  with report_safe [of a "(H1, snd W)" env ty act] show ?thesis by auto
qed

text \<open>The ban with its message: the hub's part always works, the ban manager's may fault.\<close>

lemma temp_ban_safe:
  assumes "flood_ready env a W" and "the_user a (fst W) = Inr u"
  shows "safe only_double_free (temp_ban_user env r minutes a W)
    (\<lambda>W'. fst W' = fst W \<and> covered u False (Some (expire_time (clock env) (DEFAULT_TEMP_BAN_TIME env) minutes 0)) (snd W'))"
proof -
  from assms have "ban_inv (snd W)" "m_ui32NickHash u = HashNick (m_sNick u)" by (auto simp: flood_ready_def)
  note b = TempBan_safe [OF this, of "Some r" None minutes 0 False "DEFAULT_TEMP_BAN_TIME env" "clock env"]
  show ?thesis using assms(2) safe_conseq [OF b] by (auto simp: temp_ban_user_def)
qed

lemma perm_ban_safe:
  assumes "flood_ready env a W" and "the_user a (fst W) = Inr u"
  shows "safe only_double_free (perm_ban_user env r a W) (\<lambda>W'. fst W' = fst W \<and> covered u False None (snd W'))"
proof -
  from assms have "ban_inv (snd W)" "m_ui32NickHash u = HashNick (m_sNick u)" by (auto simp: flood_ready_def)
  note b = Ban_safe [OF this, of "Some r" None False "clock env"]
  show ?thesis using assms(2) safe_conseq [OF b] by (auto simp: perm_ban_user_def)
qed

lemma ban_then_tell:
  assumes rd: "flood_ready env a W" and m: "safe only_double_free m (\<lambda>W'. fst W' = fst W \<and> C (snd W'))"
  shows "safe only_double_free (rbind m (\<lambda>W1. rbind (tell env other False t a W1) (DeFloodReport env ty act a)))
    (\<lambda>W'. alive a (fst W') \<and> C (snd W'))"
proof -
  have "safe only_double_free (rbind (tell env other False t a W1) (DeFloodReport env ty act a)) (\<lambda>W'. alive a (fst W') \<and> C (snd W'))"
    if "fst W1 = fst W \<and> C (snd W1)" for W1
  proof -
    have "\<exists>H. rbind (tell env other False t a W1) (DeFloodReport env ty act a) = Inr (H, snd W1) \<and> alive a H"
      by (rule tell_report_safe) (use that rd in \<open>simp_all add: flood_ready_def\<close>)
    then obtain H where "rbind (tell env other False t a W1) (DeFloodReport env ty act a) = Inr (H, snd W1)" "alive a H" by blast
    with that show ?thesis by (simp only: safe_Inr fst_conv snd_conv)
  qed
  with safe_conseq [OF m] show ?thesis by (simp only: safe_rbind)
qed

text \<open>What each punishment leaves behind.\<close>

definition punished :: "flood_env \<Rightarrow> nat \<Rightarrow> User \<Rightarrow> BanManager \<Rightarrow> bool" where
  "punished env k u s \<longleftrightarrow>
     (if k = 1 then covered u False (Some (expire_time (clock env) (DEFAULT_TEMP_BAN_TIME env) 0 0)) s
      else if k = 2 then
        covered u False (Some (expire_time (clock env) (DEFAULT_TEMP_BAN_TIME env) (scast (DEFLOOD_TEMP_BAN_TIME env)) 0)) s
      else if k = 3 then covered u False None s
      else ban_inv s)"

lemma punished_inv: "punished env k u s \<Longrightarrow> ban_inv s"
  by (auto simp: punished_def covered_def split: if_splits)

lemma flooders_safe:
  assumes rd: "flood_ready env a W" and u: "the_user a (fst W) = Inr u"
  shows "safe only_double_free (kick_flooder env ty other a W) (\<lambda>W'. alive a (fst W') \<and> punished env 1 u (snd W'))"
    and "safe only_double_free (temp_ban_flooder env ty other a W) (\<lambda>W'. alive a (fst W') \<and> punished env 2 u (snd W'))"
    and "safe only_double_free (ban_flooder env ty other a W) (\<lambda>W'. alive a (fst W') \<and> punished env 3 u (snd W'))"
  unfolding kick_flooder_def temp_ban_flooder_def ban_flooder_def punished_def
  using ban_then_tell [OF rd temp_ban_safe [OF rd u]] ban_then_tell [OF rd perm_ban_safe [OF rd u]] by simp_all

lemma then_close:
  assumes "safe only_double_free m (\<lambda>W'. alive a (fst W') \<and> C (snd W'))" and "\<And>s. C s \<Longrightarrow> ban_inv s"
  shows "safe only_double_free (rbind m (close_user env a)) (\<lambda>W'. closed_off a W' \<and> C (snd W'))"
proof -
  have "safe only_double_free (close_user env a W1) (\<lambda>W'. closed_off a W' \<and> C (snd W'))"
    if "alive a (fst W1) \<and> C (snd W1)" for W1
    using close_safe [of a W1 env] that assms(2) by (auto simp: closed_off_def)
  with safe_conseq [OF assms(1)] show ?thesis by (simp only: safe_rbind)
qed

section \<open>Warnings\<close>

lemma warning_action_safe:
  assumes rd: "flood_ready env a W" and u: "the_user a (fst W) = Inr u"
  shows "safe only_double_free (warning_action env ty other a W)
    (\<lambda>W'. alive a (fst W') \<and> punished env (nat (sint (DEFLOOD_WARNING_ACTION env))) u (snd W'))"
proof -
  let ?act = "sint (DEFLOOD_WARNING_ACTION env)"
  consider "?act = 0" | "?act = 1" | "?act = 2" | "?act = 3" | "?act \<noteq> 0" "?act \<noteq> 1" "?act \<noteq> 2" "?act \<noteq> 3" by blast
  then show ?thesis
  proof cases
    case 1
    have "\<exists>H. rbind (tell env other False (m_sTexts env LAN_YOU_ARE_BEING_DISCONNECTED_BECAUSE @ '': '' @ flood_text env ty 1 @ ''!|'') a W)
        (DeFloodReport env ty (m_sTexts env LAN_WAS_DISCONNECTED) a) = Inr (H, snd W) \<and> alive a H"
      by (rule tell_report_safe) (use rd in \<open>simp_all add: flood_ready_def\<close>)
    then obtain H where "warning_action env ty other a W = Inr (H, snd W)" "alive a H"
      using 1 by (auto simp: warning_action_def)
    with rd 1 show ?thesis by (simp add: punished_def flood_ready_def)
  next
    case 5
    then have "nat ?act \<noteq> 1" "nat ?act \<noteq> 2" "nat ?act \<noteq> 3" by auto
    with 5 rd show ?thesis by (simp add: warning_action_def punished_def flood_ready_def)
  qed (use flooders_safe [OF rd u] in \<open>simp_all add: warning_action_def\<close>)
qed

text \<open>A warning is given, or the warnings ran out: the user is closed and the warning action taken.\<close>

lemma DeFloodCheckForWarn_safe:
  assumes rd: "flood_ready env a W" and u: "the_user a (fst W) = Inr u"
  shows "safe only_double_free (DeFloodCheckForWarn env ty other a W) (\<lambda>(W', out). sound a W'
    \<and> (out \<longleftrightarrow> \<not> m_ui32DefloodWarnings u < scast (DEFLOOD_WARNING_COUNT env))
    \<and> (out \<longrightarrow> closed_off a W' \<and> punished env (nat (sint (DEFLOOD_WARNING_ACTION env))) u (snd W')))"
proof (cases "m_ui32DefloodWarnings u < scast (DEFLOOD_WARNING_COUNT env)")
  case True
  from rd have "alive a (fst W)" "room_for (global_buffer_size (fe_hub env)) a (fst W)" "zpipe_law (fe_zpipe env)"
    by (simp_all add: flood_ready_def)
  from SendFormat_alive(1) [OF this, of "fe_sock env" True "''<'' @ HubSec env @ ''> '' @ flood_text env ty 0 @ ''!|''"] obtain H where
    "SendFormat (fe_hub env) (fe_zpipe env) (fe_sock env) True a (''<'' @ HubSec env @ ''> '' @ flood_text env ty 0 @ ''!|'') (fst W) = Inr H"
    "alive a H" by blast
  with True u rd show ?thesis by (simp add: DeFloodCheckForWarn_def sound_def flood_ready_def)
next
  case False
  have "safe only_double_free (rbind (warning_action env ty other a W) (close_user env a))
      (\<lambda>W'. closed_off a W' \<and> punished env (nat (sint (DEFLOOD_WARNING_ACTION env))) u (snd W'))"
    by (rule then_close [OF warning_action_safe [OF rd u] punished_inv])
  then show ?thesis using False u
    by (auto simp: DeFloodCheckForWarn_def closed_off_sound elim!: safe_conseq)
qed

section \<open>Actions\<close>

lemma upd_users [simp]: "hm_users (hub_users (upd a f H)) a = map_option f (hm_users (hub_users H) a)"
  by (simp add: upd_def hmod_def)

text \<open>Changing warnings and flags leaves a user ready.\<close>

lemma set_user_ready:
  assumes rd: "flood_ready env a W" and k: "keeps f"
    and f: "\<And>u. m_SendBuf (f u) = m_SendBuf u" "\<And>u. m_ui8State (f u) = m_ui8State u"
      "\<And>u. has_bits (m_ui32BoolBits (f u)) BIT_HASHED = has_bits (m_ui32BoolBits u) BIT_HASHED"
      "\<And>u. m_ui32NickHash (f u) = m_ui32NickHash u" "\<And>u. m_sNick (f u) = m_sNick u"
  shows "set_user a f (fst W) = Inr (upd a f (fst W)) \<and> flood_ready env a (upd a f (fst W), snd W)"
proof -
  from rd have al: "alive a (fst W)" by (simp add: flood_ready_def)
  have s: "set_user a f (fst W) = Inr (upd a f (fst W)) \<and> alive a (upd a f (fst W))"
    by (rule set_user_alive [OF al k]) (simp_all add: f)
  from alive_user [OF al] obtain u where u: "the_user a (fst W) = Inr u" by blast
  have "room_for n a (upd a f (fst W)) = room_for n a (fst W)" for n by (auto simp: room_for_def f)
  with s rd u show ?thesis by (auto simp: flood_ready_def f)
qed

lemma add_warning_ready:
  assumes rd: "flood_ready env a W" and u: "the_user a (fst W) = Inr u"
  shows "\<exists>W'. add_warning a W = Inr W' \<and> flood_ready env a W'
    \<and> the_user a (fst W') = Inr (u\<lparr>m_ui32DefloodWarnings := m_ui32DefloodWarnings u + 1\<rparr>)"
  using set_user_ready [OF rd, of "\<lambda>u. u\<lparr>m_ui32DefloodWarnings := m_ui32DefloodWarnings u + 1\<rparr>"] u
  by (auto simp: add_warning_def keeps_def)

lemma punished_warning: "punished env k (u\<lparr>m_ui32DefloodWarnings := x\<rparr>) s = punished env k u s"
  by (simp add: punished_def covered_def)

text \<open>Which ban an action promises: none, the default or the flood time, or a permanent one.\<close>

definition promised :: "flood_env \<Rightarrow> int \<Rightarrow> bool \<Rightarrow> nat" where
  "promised env act out =
     (if act = 4 then 1 else if act = 5 then 2 else if act = 6 then 3
      else if act = 2 \<and> out then nat (sint (DEFLOOD_WARNING_ACTION env)) else 0)"

definition warned_out :: "flood_env \<Rightarrow> User \<Rightarrow> bool" where
  "warned_out env u \<longleftrightarrow> \<not> m_ui32DefloodWarnings u + 1 < scast (DEFLOOD_WARNING_COUNT env)"

definition must_close :: "flood_env \<Rightarrow> int \<Rightarrow> User \<Rightarrow> bool" where
  "must_close env act u \<longleftrightarrow> act \<in> {3, 4, 5, 6} \<or> act = 2 \<and> warned_out env u"

lemma add_and_check:
  assumes rd: "flood_ready env a W" and u: "the_user a (fst W) = Inr u"
  shows "safe only_double_free (rbind (add_warning a W) (DeFloodCheckForWarn env ty other a)) (\<lambda>(W', out). sound a W'
    \<and> (out \<longleftrightarrow> warned_out env u)
    \<and> (out \<longrightarrow> closed_off a W' \<and> punished env (nat (sint (DEFLOOD_WARNING_ACTION env))) u (snd W')))"
proof -
  from add_warning_ready [OF rd u] obtain W1 where w: "add_warning a W = Inr W1" "flood_ready env a W1"
    "the_user a (fst W1) = Inr (u\<lparr>m_ui32DefloodWarnings := m_ui32DefloodWarnings u + 1\<rparr>)" by blast
  from safe_conseq [OF DeFloodCheckForWarn_safe [OF w(2,3), of ty other]] w(1) show ?thesis
    by (auto simp: warned_out_def punished_warning)
qed

lemma then_close_punished:
  assumes "safe only_double_free m (\<lambda>W'. alive a (fst W') \<and> punished env k u (snd W'))"
  shows "safe only_double_free (rbind m (\<lambda>W1. rbind (close_user env a W1) (\<lambda>W2. Inr (W2, c))))
    (\<lambda>(W', c'). sound a W' \<and> closed_off a W' \<and> punished env k u (snd W') \<and> c' = c)"
proof -
  note then_close [where C = "punished env k u", OF assms punished_inv]
  then have "safe only_double_free (rbind (rbind m (close_user env a)) (\<lambda>W2. Inr (W2, c)))
      (\<lambda>(W', c'). sound a W' \<and> closed_off a W' \<and> punished env k u (snd W') \<and> c' = c)"
    unfolding safe_rbind [of _ "rbind m _"] by (rule safe_conseq) (auto simp: closed_off_sound)
  then show ?thesis by (simp only: rbind_assoc)
qed

lemma DeFloodDoAction_safe:
  assumes rd: "flood_ready env a W" and u: "the_user a (fst W) = Inr u"
  shows "safe only_double_free (DeFloodDoAction env ty act c other a W) (\<lambda>(W', c'). sound a W'
    \<and> (must_close env (sint act) u \<longrightarrow> closed_off a W')
    \<and> punished env (promised env (sint act) (warned_out env u)) u (snd W')
    \<and> (c' = c \<or> c' = c + 1) \<and> (must_close env (sint act) u \<longrightarrow> c' = c))"
proof -
  let ?act = "sint act"
  note f = flooders_safe [OF rd u, of ty other]
  note fc = then_close_punished [OF f(1), of c] then_close_punished [OF f(2), of c] then_close_punished [OF f(3), of c]
  from rd have tl: "alive a (fst W)" "room_for (global_buffer_size (fe_hub env)) a (fst W)" "zpipe_law (fe_zpipe env)"
    "ban_inv (snd W)" by (simp_all add: flood_ready_def)
  have p0: "ban_inv s \<Longrightarrow> punished env 0 u s" for s by (simp add: punished_def)
  consider "?act = 1" | "?act = 2" | "?act = 3" | "?act = 4" | "?act = 5" | "?act = 6" | "?act \<notin> {1, 2, 3, 4, 5, 6}" by blast
  then show ?thesis
  proof cases
    case 1
    from tell_safe [OF tl(1-3), of other True "flood_text env ty 0 @ ''!|''"] obtain H where
      "tell env other True (flood_text env ty 0 @ ''!|'') a W = Inr (H, snd W)" "alive a H" by blast
    with 1 tl(4) show ?thesis by (simp add: DeFloodDoAction_def sound_def must_close_def promised_def p0)
  next
    case 2
    have "safe only_double_free (rbind (rbind (add_warning a W) (DeFloodCheckForWarn env ty other a))
        (\<lambda>(W2, closed). Inr (W2, if closed then c else (if ty \<noteq> MAX_DOWN then c + 1 else c))))
      (\<lambda>(W', c'). sound a W' \<and> (must_close env ?act u \<longrightarrow> closed_off a W')
        \<and> punished env (promised env ?act (warned_out env u)) u (snd W')
        \<and> (c' = c \<or> c' = c + 1) \<and> (must_close env ?act u \<longrightarrow> c' = c))"
      unfolding safe_rbind [of _ "rbind _ _"]
      by (rule safe_conseq [OF add_and_check [OF rd u]])
        (use 2 in \<open>auto simp: must_close_def promised_def sound_def p0\<close>)
    then show ?thesis using 2 by (simp add: DeFloodDoAction_def rbind_assoc del: safe_rbind)
  next
    case 3
    have "\<exists>H. rbind (tell env other False (flood_text env ty 0 @ ''!|'') a W)
        (DeFloodReport env ty (m_sTexts env LAN_WAS_DISCONNECTED) a) = Inr (H, snd W) \<and> alive a H"
      by (rule tell_report_safe [OF tl(1-3)])
    then obtain H W1 where r: "tell env other False (flood_text env ty 0 @ ''!|'') a W = Inr W1"
      "DeFloodReport env ty (m_sTexts env LAN_WAS_DISCONNECTED) a W1 = Inr (H, snd W)" "alive a H"
      by (auto simp: rbind_Inr_iff)
    from close_safe [of a "(H, snd W)" env] r(3) obtain H' where "close_user env a (H, snd W) = Inr (H', snd W)" "closing a H'" by auto
    with r 3 tl(4) show ?thesis
      by (auto simp: DeFloodDoAction_def must_close_def promised_def p0 closed_off_def sound_def closing_alive)
  next
    case 4
    then have "DeFloodDoAction env ty act c other a W =
        rbind (kick_flooder env ty other a W) (\<lambda>W1. rbind (close_user env a W1) (\<lambda>W2. Inr (W2, c)))"
      by (simp add: DeFloodDoAction_def)
    then show ?thesis
      using 4 by (simp only:) (rule safe_conseq [OF fc(1)], auto simp: must_close_def promised_def)
  next
    case 5
    then have "DeFloodDoAction env ty act c other a W =
        rbind (temp_ban_flooder env ty other a W) (\<lambda>W1. rbind (close_user env a W1) (\<lambda>W2. Inr (W2, c)))"
      by (simp add: DeFloodDoAction_def)
    then show ?thesis
      using 5 by (simp only:) (rule safe_conseq [OF fc(2)], auto simp: must_close_def promised_def)
  next
    case 6
    then have "DeFloodDoAction env ty act c other a W =
        rbind (ban_flooder env ty other a W) (\<lambda>W1. rbind (close_user env a W1) (\<lambda>W2. Inr (W2, c)))"
      by (simp add: DeFloodDoAction_def)
    then show ?thesis
      using 6 by (simp only:) (rule safe_conseq [OF fc(3)], auto simp: must_close_def promised_def)
  next
    case 7
    then show ?thesis using tl by (simp add: DeFloodDoAction_def must_close_def promised_def sound_def p0)
  qed
qed

text \<open>
  C29.  The action against a flooder: whatever the socket answers, the hub and the ban manager stay
  consistent (or a ban that is replaced is deleted twice); with action 3 to 6, or when the warnings ran out, the
  user is being closed afterwards, and the bans promised by the action (4, 5, 6, or the warning action 1, 2, 3) are
  in force for the nick and the address: for the default time, the configured time, or for good.
\<close>

theorem DeFloodDoAction_effect:
  assumes "flood_ready env a W" and "the_user a (fst W) = Inr u"
  shows "safe only_double_free (DeFloodDoAction env ty act c other a W) (\<lambda>(W', c'). sound a W'
    \<and> (must_close env (sint act) u \<longrightarrow> closed_off a W')
    \<and> punished env (promised env (sint act) (warned_out env u)) u (snd W'))"
  by (rule safe_conseq [OF DeFloodDoAction_safe [OF assms]]) auto

definition demo_flood_env :: flood_env where
  "demo_flood_env = \<lparr>fe_hub = demo_config, fe_zpipe = \<lambda>_. None, fe_sock = WouldBlock, HubSec = ''Hub-Security'',
     m_sTexts = \<lambda>_. ''text'', time_texts = \<lambda>_. ''min'', DEFLOOD_WARNING_COUNT = 3, DEFLOOD_WARNING_ACTION = 0,
     DEFLOOD_TEMP_BAN_TIME = 20, DEFAULT_TEMP_BAN_TIME = 10, DEFLOOD_REPORT = False, clock = 100\<rparr>"

definition demo_named :: hub where
  "demo_named = upd 1 (\<lambda>u. u\<lparr>m_ui32NickHash := HashNick (m_sNick u)\<rparr>) demo_hub"

lemma demo_flood_ready: "flood_ready demo_flood_env 1 (demo_named, new_BanManager)"
proof -
  have "alive 1 demo_hub" using hub_inv_demo demo_hub_user unfolding alive_def by blast
  then have "alive 1 demo_named"
    using set_user_alive [of 1 demo_hub "\<lambda>u. u\<lparr>m_ui32NickHash := HashNick (m_sNick u)\<rparr>"]
    by (simp add: demo_named_def keeps_def)
  then show ?thesis
    by (auto simp: flood_ready_def ban_inv_new zpipe_law_def demo_flood_env_def room_for_def demo_config_def
        demo_named_def the_user_def ub_simps empty_buf_def demo_hub_user [simplified])
qed

theorem DeFloodDoAction_effect_witness:
  "\<exists>W' c'. DeFloodDoAction demo_flood_env CHAT 3 5 None 1 (demo_named, new_BanManager) = Inr (W', c') \<and> closed_off 1 W'"
proof -
  let ?W = "(demo_named, new_BanManager)"
  from demo_flood_ready have al1: "alive 1 (fst ?W)" unfolding flood_ready_def by blast
  from alive_user [OF al1] obtain u where u: "the_user 1 (fst ?W) = Inr u" ..
  have s: "sint (3 :: 16 word) = 3" by simp
  have "\<not> isl (DeFloodDoAction demo_flood_env CHAT 3 5 None 1 ?W)"
  proof -
    from demo_flood_ready have al: "alive 1 (fst ?W)" "room_for (global_buffer_size (fe_hub demo_flood_env)) 1 (fst ?W)"
      "zpipe_law (fe_zpipe demo_flood_env)" by (simp_all add: flood_ready_def)
    from tell_safe [OF al, of None False] obtain H1 where
      1: "tell demo_flood_env None False (flood_text demo_flood_env CHAT 0 @ ''!|'') 1 ?W = Inr (H1, new_BanManager)" "alive 1 H1" by force
    from report_safe [of 1 "(H1, new_BanManager)" demo_flood_env CHAT] 1(2) obtain H2 where
      2: "DeFloodReport demo_flood_env CHAT (m_sTexts demo_flood_env LAN_WAS_DISCONNECTED) 1 (H1, new_BanManager) = Inr (H2, new_BanManager)"
        "alive 1 H2" by force
    from close_safe [of 1 "(H2, new_BanManager)" demo_flood_env] 2(2) obtain H3 where
      "close_user demo_flood_env 1 (H2, new_BanManager) = Inr (H3, new_BanManager)" by force
    with 1 2 show ?thesis by (simp add: DeFloodDoAction_def)
  qed
  with DeFloodDoAction_effect [OF demo_flood_ready u, of CHAT 3 5 None] show ?thesis
    by (cases "DeFloodDoAction demo_flood_env CHAT 3 5 None 1 ?W") (auto simp: must_close_def)
qed

end
