(* ===== verification/FloodGate.thy ===== *)
theory FloodGate
  imports FloodActions
begin

text \<open>
  The flood checks as rate limiters.  The contract of a gate that counts what it lets through in a window
  is a locale; both counting checks of \<open>core/DeFlood.cpp\<close> are instances, as long as the 16-bit counter
  and the 64-bit ticks do not wrap.
\<close>

section \<open>A counting gate\<close>

text \<open>One step sees the tick and lets the command through or not.\<close>

inductive gate_run :: "('s \<Rightarrow> nat \<Rightarrow> bool \<Rightarrow> 's \<Rightarrow> bool) \<Rightarrow> 's \<Rightarrow> (nat \<times> bool) list \<Rightarrow> 's \<Rightarrow> bool" for step where
  gate_run_Nil: "gate_run step s [] s"
| gate_run_Cons: "step s now ok s1 \<Longrightarrow> gate_run step s1 es s2 \<Longrightarrow> gate_run step s ((now, ok) # es) s2"

inductive_cases gate_run_ConsE [elim!]: "gate_run step s (e # es) s2"

definition through :: "(nat \<Rightarrow> bool) \<Rightarrow> (nat \<times> bool) list \<Rightarrow> nat" where
  "through P es = length (filter (\<lambda>(t, ok). ok \<and> P t) es)"

lemma through_simps [simp]:
  "through P [] = 0" "through P ((t, ok) # es) = (if ok \<and> P t then 1 else 0) + through P es"
  "through P (es @ fs) = through P es + through P fs"
  by (simp_all add: through_def)

locale rate_gate =
  fixes step :: "'s \<Rightarrow> nat \<Rightarrow> bool \<Rightarrow> 's \<Rightarrow> bool" and cnt opened :: "'s \<Rightarrow> nat" and limit window :: nat
  assumes limit_pos: "0 < limit"
    and restart: "step s now ok s' \<Longrightarrow> cnt s = 0 \<or> opened s + window \<le> now \<Longrightarrow> cnt s' = 1 \<and> opened s' = now"
    and inside: "step s now ok s' \<Longrightarrow> cnt s \<noteq> 0 \<Longrightarrow> now < opened s + window \<Longrightarrow>
      opened s' = opened s \<and> (ok \<longrightarrow> cnt s < limit \<and> cnt s' = cnt s + 1) \<and> (\<not> ok \<longrightarrow> min (cnt s) limit \<le> cnt s')"
begin

lemma min_one [simp]: "min (Suc 0) limit = Suc 0"
  using limit_pos by simp

text \<open>What may still pass in the window from \<open>t\<close> on, in a state with a window opened already.\<close>

lemma at_most:
  "gate_run step s es s' \<Longrightarrow> sorted (map fst es) \<Longrightarrow> cnt s \<noteq> 0 \<Longrightarrow> \<forall>e \<in> set es. opened s \<le> fst e \<Longrightarrow>
    through (\<lambda>x. t \<le> x \<and> x < t + window) es + (if t \<le> opened s + window then min (cnt s) limit else 0)
      \<le> (if t \<le> opened s then limit else 2 * limit)"
proof (induction s es s' rule: gate_run.induct)
  case (gate_run_Cons s now ok s1 es s2)
  show ?case
  proof (cases "now < opened s + window")
    case True
    note c = inside [OF gate_run_Cons.hyps(1) gate_run_Cons.prems(2) True]
    have "cnt s1 \<noteq> 0" using c limit_pos gate_run_Cons.prems(2) by (cases ok) auto
    with gate_run_Cons c have "through (\<lambda>x. t \<le> x \<and> x < t + window) es
        + (if t \<le> opened s + window then min (cnt s1) limit else 0) \<le> (if t \<le> opened s then limit else 2 * limit)" by simp
    with c True show ?thesis by (cases ok) (auto split: if_splits)
  next
    case False
    then have f: "cnt s1 = 1" "opened s1 = now" using restart [OF gate_run_Cons.hyps(1)] by simp_all
    with gate_run_Cons have ih: "through (\<lambda>x. t \<le> x \<and> x < t + window) es + (if t \<le> now + window then 1 else 0)
        \<le> (if t \<le> now then limit else 2 * limit)"
      by (simp cong: if_cong)
    show ?thesis
    proof (cases "t \<le> opened s")
      case True
      then have "through (\<lambda>x. t \<le> x \<and> x < t + window) es = 0"
        using False gate_run_Cons.prems(1) by (auto simp: through_def filter_empty_conv)
      with True False show ?thesis by simp
    next
      case tn: False
      show ?thesis
      proof (cases "t \<le> now")
        case True
        with ih have "through (\<lambda>x. t \<le> x \<and> x < t + window) es + 1 \<le> limit" by simp
        moreover have "min (cnt s) limit \<le> limit" by simp
        ultimately show ?thesis using tn by (cases ok) auto
      next
        case after: False
        with ih have "through (\<lambda>x. t \<le> x \<and> x < t + window) es \<le> 2 * limit" by simp
        with tn after False show ?thesis by simp
      qed
    qed
  qed
qed (use limit_pos in \<open>auto simp: min_def\<close>)

theorem window_bound:
  assumes run: "gate_run step s es s'" and s: "sorted (map fst es)" and c: "cnt s = 0"
  shows "through (\<lambda>x. t \<le> x \<and> x < t + window) es \<le> 2 * limit"
proof (cases es)
  case (Cons e es')
  with run obtain s1 where st: "step s (fst e) (snd e) s1" "gate_run step s1 es' s'" by (cases e) auto
  from restart [OF st(1)] c have f: "cnt s1 = 1" "opened s1 = fst e" by simp_all
  have "through (\<lambda>x. t \<le> x \<and> x < t + window) es' + (if t \<le> fst e + window then 1 else 0)
      \<le> (if t \<le> fst e then limit else 2 * limit)"
    using at_most [OF st(2), of t] s f Cons by (simp cong: if_cong)
  with Cons f show ?thesis by (cases e) (auto split: if_splits)
qed simp

end

text \<open>A gate that refuses only what is over the limit.\<close>

locale counting_gate = rate_gate +
  assumes open_again: "step s now ok s' \<Longrightarrow> cnt s = 0 \<or> opened s + window \<le> now \<Longrightarrow> ok"
    and refused: "step s now ok s' \<Longrightarrow> cnt s \<noteq> 0 \<Longrightarrow> now < opened s + window \<Longrightarrow>
      (ok \<longleftrightarrow> cnt s < limit) \<and> (\<not> ok \<longrightarrow> limit \<le> cnt s')"
begin

lemma fresh: "step s now ok s' \<Longrightarrow> cnt s = 0 \<or> opened s + window \<le> now \<Longrightarrow> ok \<and> cnt s' = 1 \<and> opened s' = now"
  using open_again restart by blast

lemma counted:
  assumes "step s now ok s'" and "cnt s \<noteq> 0" and "now < opened s + window"
  shows "opened s' = opened s \<and> (ok \<longleftrightarrow> cnt s < limit) \<and> (ok \<longrightarrow> cnt s' = cnt s + 1) \<and> (\<not> ok \<longrightarrow> limit \<le> cnt s')"
  using inside [OF assms] refused [OF assms] by blast

text \<open>A refusal is always earned: \<open>limit\<close> commands passed less than a window ago.\<close>

lemma earned:
  "gate_run step s es s' \<Longrightarrow> cnt s = 0 \<or> min (cnt s) limit \<le> through (\<lambda>x. opened s \<le> x) pre \<Longrightarrow>
    sorted (map fst (pre @ es)) \<Longrightarrow>
    \<forall>i < length es. \<not> snd (es ! i) \<longrightarrow> limit \<le> through (\<lambda>x. fst (es ! i) < x + window) (pre @ take i es)"
proof (induction s es s' arbitrary: pre rule: gate_run.induct)
  case (gate_run_Cons s now ok s1 es s2)
  have head: "limit \<le> through (\<lambda>x. now < x + window) pre" if "\<not> ok"
  proof -
    from that fresh [OF gate_run_Cons.hyps(1)] have w: "cnt s \<noteq> 0" "now < opened s + window" by force+
    from counted [OF gate_run_Cons.hyps(1) w] that have "limit \<le> cnt s" by simp
    with gate_run_Cons.prems(1) w(1) have "limit \<le> through (\<lambda>x. opened s \<le> x) pre" by simp
    also have "\<dots> \<le> through (\<lambda>x. now < x + window) pre"
    proof (induction pre)
      case (Cons p pre)
      then show ?case using w(2) by (cases p) auto
    qed simp
    finally show ?thesis .
  qed
  have inv: "cnt s1 = 0 \<or> min (cnt s1) limit \<le> through (\<lambda>x. opened s1 \<le> x) (pre @ [(now, ok)])"
  proof (cases "cnt s = 0 \<or> opened s + window \<le> now")
    case True
    from fresh [OF gate_run_Cons.hyps(1) True] show ?thesis by simp
  next
    case False
    then have w: "cnt s \<noteq> 0" "now < opened s + window" by simp_all
    note c = counted [OF gate_run_Cons.hyps(1) w]
    show ?thesis
    proof (cases "ok \<and> \<not> opened s \<le> now")
      case True
      have "through (\<lambda>x. opened s \<le> x) pre = 0"
        using gate_run_Cons.prems(2) True by (fastforce simp: through_def filter_empty_conv sorted_append)
      with gate_run_Cons.prems(1) w(1) limit_pos show ?thesis by simp
    next
      case False
      with c gate_run_Cons.prems(1) w(1) show ?thesis by (cases ok) auto
    qed
  qed
  have rest: "\<forall>i < length es. \<not> snd (es ! i) \<longrightarrow>
      limit \<le> through (\<lambda>x. fst (es ! i) < x + window) ((pre @ [(now, ok)]) @ take i es)"
    by (rule gate_run_Cons.IH [OF inv]) (use gate_run_Cons.prems(2) in simp)
  show ?case
  proof (intro allI impI)
    fix i assume i: "i < length ((now, ok) # es)" "\<not> snd (((now, ok) # es) ! i)"
    show "limit \<le> through (\<lambda>x. fst (((now, ok) # es) ! i) < x + window) (pre @ take i ((now, ok) # es))"
    proof (cases i)
      case 0
      with i head show ?thesis by simp
    next
      case (Suc j)
      with i rest show ?thesis by simp
    qed
  qed
qed simp

theorem refusal_earned:
  assumes "gate_run step s es s'" and "sorted (map fst es)" and "cnt s = 0" and "i < length es" and "\<not> snd (es ! i)"
  shows "limit \<le> through (\<lambda>x. fst (es ! i) < x + window) (take i es)"
  using earned [OF assms(1), of "[]"] assms(2-5) by simp

end

section \<open>The checks of the code are such gates\<close>

text \<open>
  A step of a check on counter, tick and world, as long as neither the counter nor the end of the window
  wraps.
\<close>

type_synonym flood_check = "u64 \<Rightarrow> u16 \<Rightarrow> u64 \<Rightarrow> world \<Rightarrow> (world \<times> u16 \<times> u64 \<times> bool) res"

definition check_step :: "u32 \<Rightarrow> flood_check \<Rightarrow> u16 \<times> u64 \<times> world \<Rightarrow> nat \<Rightarrow> bool \<Rightarrow> u16 \<times> u64 \<times> world \<Rightarrow> bool" where
  "check_step T chk s now ok s' \<longleftrightarrow>
     (case (s, s') of ((c, l, W), (c', l', W')) \<Rightarrow>
        now < 2 ^ 64 \<and> unat c < 65535 \<and> unat l + unat T < 2 ^ 64 \<and> chk (word_of_nat now) c l W = Inr (W', c', l', \<not> ok))"

definition count_of :: "u16 \<times> u64 \<times> world \<Rightarrow> nat" where "count_of s = unat (fst s)"
definition window_of :: "u16 \<times> u64 \<times> world \<Rightarrow> nat" where "window_of s = unat (fst (snd s))"

lemma in_window:
  fixes l tick :: u64 and T :: u32
  assumes "unat l + unat T < 2 ^ 64"
  shows "l + ucast T > tick \<longleftrightarrow> unat tick < unat l + unat T"
proof -
  have "unat T < 2 ^ 32" using unsigned_less [of T] by simp
  then have "unat (ucast T :: u64) = unat T" by (simp add: unsigned_ucast_eq take_bit_nat_eq_self)
  then have "unat (l + ucast T) = unat l + unat T" using unat_add_lem [of l "ucast T"] assms by simp
  then show ?thesis by (simp add: word_less_nat_alt)
qed

lemma unat_u16_inc: "unat (c :: u16) < 65535 \<Longrightarrow> unat (c + 1) = unat c + 1"
  using unat_add_lem [of c 1] by simp

lemma sint_as_unat: "0 < sint (d :: 16 word) \<Longrightarrow> sint d = int (unat d) \<and> unat d < 32768"
proof -
  assume "0 < sint d"
  moreover have "sint d < 2 ^ 15" using sint_less [of d] by simp
  moreover have "uint d = take_bit 16 (sint d)" using uint_sint [of d] by simp
  ultimately have "uint d = sint d" by (simp add: take_bit_int_eq_self)
  moreover have "int (unat d) = uint d" by simp
  moreover have "sint d < 32768" using sint_less [of d] by simp
  ultimately show ?thesis by (intro conjI) linarith+
qed

lemma DoAction_count:
  "DeFloodDoAction env ty act c other a W = Inr (W', c') \<Longrightarrow> c' = c \<or> c' = c + 1"
  by (auto simp: DeFloodDoAction_def Let_def rbind_Inr_iff split: if_splits)

text \<open>What both checks have in common: the count restarts, goes up by one, or stays at the limit or above.\<close>

definition gate_laws :: "nat \<Rightarrow> u32 \<Rightarrow> flood_check \<Rightarrow> bool" where
  "gate_laws limit T chk \<longleftrightarrow> (\<forall>tick c l W W' c' l' flooded.
     chk tick c l W = Inr (W', c', l', flooded) \<longrightarrow> unat c < 65535 \<longrightarrow>
     (if c = 0 \<or> \<not> l + ucast T > tick then \<not> flooded \<and> c' = 1 \<and> l' = tick
      else l' = l \<and> (flooded \<longleftrightarrow> limit \<le> unat c)
        \<and> (if flooded then limit \<le> unat c' \<and> unat c' \<le> unat c + 1 else c' = c + 1)))"

lemma counting_gateI:
  assumes "0 < limit"
    and fresh: "\<And>s now ok s'. step s now ok s' \<Longrightarrow> cnt s = 0 \<or> opened s + window \<le> now \<Longrightarrow> ok \<and> cnt s' = 1 \<and> opened s' = now"
    and counted: "\<And>s now ok s'. step s now ok s' \<Longrightarrow> cnt s \<noteq> 0 \<Longrightarrow> now < opened s + window \<Longrightarrow>
      opened s' = opened s \<and> (ok \<longleftrightarrow> cnt s < limit) \<and> (ok \<longrightarrow> cnt s' = cnt s + 1) \<and> (\<not> ok \<longrightarrow> limit \<le> cnt s')"
  shows "counting_gate step cnt opened limit window"
proof unfold_locales
  fix s now ok s'
  assume st: "step s now ok s'"
  show "cnt s' = 1 \<and> opened s' = now" and ok if "cnt s = 0 \<or> opened s + window \<le> now"
    using fresh [OF st that] by blast+
  assume w: "cnt s \<noteq> 0" "now < opened s + window"
  note c = counted [OF st w]
  then show "opened s' = opened s \<and> (ok \<longrightarrow> cnt s < limit \<and> cnt s' = cnt s + 1) \<and> (\<not> ok \<longrightarrow> min (cnt s) limit \<le> cnt s')"
    and "(ok \<longleftrightarrow> cnt s < limit) \<and> (\<not> ok \<longrightarrow> limit \<le> cnt s')" by auto
qed (rule assms(1))

lemma gate_laws_gate:
  assumes g: "gate_laws limit T chk" and l: "0 < limit"
  shows "counting_gate (check_step T chk) count_of window_of limit (unat T)"
proof (rule counting_gateI)
  show "0 < limit" by (rule l)
next
  fix s now ok s'
  assume st: "check_step T chk s now ok s'" and c: "count_of s = 0 \<or> window_of s + unat T \<le> now"
  obtain c0 l0 W c1 l1 W1 where s: "s = (c0, l0, W)" "s' = (c1, l1, W1)" by (cases s; cases s')
  from st s have x: "now < 2 ^ 64" "unat c0 < 65535" "unat l0 + unat T < 2 ^ 64" "chk (word_of_nat now) c0 l0 W = Inr (W1, c1, l1, \<not> ok)"
    by (simp_all add: check_step_def)
  have n: "unat (word_of_nat now :: u64) = now" using x(1) by (simp add: unat_of_nat)
  have "c0 = 0 \<or> \<not> l0 + ucast T > word_of_nat now"
    using c s n in_window [OF x(3), of "word_of_nat now"] by (auto simp: count_of_def window_of_def unsigned_eq_0_iff)
  with g x(2,4) have "ok \<and> c1 = 1 \<and> l1 = word_of_nat now" unfolding gate_laws_def by fastforce
  with s n show "ok \<and> count_of s' = 1 \<and> window_of s' = now" by (simp add: count_of_def window_of_def)
next
  fix s now ok s'
  assume st: "check_step T chk s now ok s'" and c: "count_of s \<noteq> 0" "now < window_of s + unat T"
  obtain c0 l0 W c1 l1 W1 where s: "s = (c0, l0, W)" "s' = (c1, l1, W1)" by (cases s; cases s')
  from st s have x: "now < 2 ^ 64" "unat c0 < 65535" "unat l0 + unat T < 2 ^ 64" "chk (word_of_nat now) c0 l0 W = Inr (W1, c1, l1, \<not> ok)"
    by (simp_all add: check_step_def)
  have n: "unat (word_of_nat now :: u64) = now" using x(1) by (simp add: unat_of_nat)
  have "\<not> (c0 = 0 \<or> \<not> l0 + ucast T > word_of_nat now)"
    using c s n in_window [OF x(3), of "word_of_nat now"] by (auto simp: count_of_def window_of_def unsigned_eq_0_iff)
  with g x(2,4) have "l1 = l0 \<and> (\<not> ok \<longleftrightarrow> limit \<le> unat c0) \<and> (if \<not> ok then limit \<le> unat c1 \<and> unat c1 \<le> unat c0 + 1 else c1 = c0 + 1)"
    unfolding gate_laws_def by (smt (verit, best))
  with s x(2) show "window_of s' = window_of s \<and> (ok \<longleftrightarrow> count_of s < limit)
      \<and> (ok \<longrightarrow> count_of s' = count_of s + 1) \<and> (\<not> ok \<longrightarrow> limit \<le> count_of s')"
    by (auto simp: count_of_def window_of_def unat_u16_inc not_le)
qed

lemma uint_unat: "uint x \<le> uint y \<longleftrightarrow> unat x \<le> unat y" "uint x < uint y \<longleftrightarrow> unat x < unat y" "uint x = uint y \<longleftrightarrow> unat x = unat y"
  unfolding of_nat_le_iff [where 'a = int, symmetric] of_nat_less_iff [where 'a = int, symmetric]
    of_nat_eq_iff [where 'a = int, symmetric] by simp_all

lemma sint_as_uint: "0 < sint (d :: 16 word) \<Longrightarrow> sint d = uint d"
  using sint_as_unat [of d] by simp

lemma flood_gate_laws: "0 < sint (lim :: 16 word) \<Longrightarrow> gate_laws (unat lim) T (DeFloodCheckForFlood env ty act lim T other a)"
  unfolding gate_laws_def
proof (intro allI impI)
  fix tick c l W W' c' l' flooded
  assume lim: "0 < sint lim" and c: "unat (c :: u16) < 65535"
    and run: "DeFloodCheckForFlood env ty act lim T other a tick c l W = Inr (W', c', l', flooded)"
  let ?w = "l + ucast T > tick"
  note sl = sint_as_uint [OF lim] and inc = unat_u16_inc [OF c]
  have u: "unat (c - lim + 1) = unat lim + 1" if "int (unat c) = sint lim * 2"
  proof -
    have "unat c = 2 * unat lim" using that sint_as_unat [OF lim] by linarith
    then have "unat (c - lim) = unat lim" by (simp add: unat_sub_if_size)
    then show ?thesis using unat_u16_inc [of "c - lim"] sint_as_unat [OF lim] by simp
  qed
  show "if c = 0 \<or> \<not> ?w then \<not> flooded \<and> c' = 1 \<and> l' = tick
      else l' = l \<and> (flooded \<longleftrightarrow> unat lim \<le> unat c) \<and> (if flooded then unat lim \<le> unat c' \<and> unat c' \<le> unat c + 1 else c' = c + 1)"
  proof (cases "c = 0 \<or> \<not> ?w")
    case True
    then show ?thesis using run by (auto simp: DeFloodCheckForFlood_def Let_def split: if_splits)
  next
    case False
    consider "uint c = uint lim" | "uint c > uint lim" | "uint c < uint lim" by linarith
    then show ?thesis
    proof cases
      case 1
      with False run have "\<exists>W1. DeFloodDoAction env ty act c other a W = Inr (W1, c')" and r: "l' = l" "flooded"
        by (auto simp: DeFloodCheckForFlood_def Let_def rbind_Inr_iff sl)
      then obtain W1 where "DeFloodDoAction env ty act c other a W = Inr (W1, c')" by blast
      from DoAction_count [OF this] r 1 inc False show ?thesis by (auto simp: uint_unat)
    next
      case 2
      with False run have "flooded \<and> l' = l \<and> (c' = c + 1 \<or> c' = c \<or> int (unat c) = sint lim * 2 \<and> c' = c - lim + 1)"
        by (auto simp: DeFloodCheckForFlood_def Let_def rbind_Inr_iff sl split: if_splits)
      with 2 inc u False show ?thesis by (auto simp: uint_unat)
    next
      case 3
      with False run have "\<not> flooded \<and> l' = l \<and> c' = c + 1"
        by (auto simp: DeFloodCheckForFlood_def Let_def sl)
      with 3 False show ?thesis by (auto simp: uint_unat)
    qed
  qed
qed

lemma interval_gate_laws: "0 < sint (lim :: 16 word) \<Longrightarrow> gate_laws (unat lim) T (DeFloodCheckInterval env ty lim T other a)"
  unfolding gate_laws_def
proof (intro allI impI)
  fix tick c l W W' c' l' flooded
  assume lim: "0 < sint lim" and c: "unat (c :: u16) < 65535"
    and run: "DeFloodCheckInterval env ty lim T other a tick c l W = Inr (W', c', l', flooded)"
  let ?w = "l + ucast T > tick"
  note sl = sint_as_uint [OF lim] and inc = unat_u16_inc [OF c]
  show "if c = 0 \<or> \<not> ?w then \<not> flooded \<and> c' = 1 \<and> l' = tick
      else l' = l \<and> (flooded \<longleftrightarrow> unat lim \<le> unat c) \<and> (if flooded then unat lim \<le> unat c' \<and> unat c' \<le> unat c + 1 else c' = c + 1)"
  proof (cases "c = 0 \<or> \<not> ?w")
    case True
    then show ?thesis using run by (auto simp: DeFloodCheckInterval_def Let_def split: if_splits)
  next
    case False
    show ?thesis
    proof (cases "unat lim \<le> unat c")
      case True
      with False run have "flooded \<and> l' = l \<and> c' = c + 1"
        by (auto simp: DeFloodCheckInterval_def Let_def rbind_Inr_iff sl uint_unat)
      with True inc False show ?thesis by auto
    next
      case below: False
      with False run have "\<not> flooded \<and> l' = l \<and> c' = c + 1"
        by (auto simp: DeFloodCheckInterval_def Let_def sl uint_unat)
      with below False show ?thesis by auto
    qed
  qed
qed

section \<open>Runs of a check\<close>

text \<open>A sequence of commands at the given ticks: which of them the check lets through.\<close>

fun flood_run :: "flood_check \<Rightarrow> u64 list \<Rightarrow> u16 \<Rightarrow> u64 \<Rightarrow> world \<Rightarrow> bool list res" where
  "flood_run chk [] c l W = Inr []"
| "flood_run chk (tick # ticks) c l W =
     rbind (chk tick c l W) (\<lambda>(W', c', l', flooded).
       rbind (flood_run chk ticks c' l' W') (\<lambda>oks. Inr ((\<not> flooded) # oks)))"

lemma flood_run_gate:
  assumes g: "gate_laws limit T chk" and l: "0 < limit" "limit < 32768"
  shows "flood_run chk ts c w W = Inr oks \<Longrightarrow> unat c + length ts \<le> 65535 \<Longrightarrow> unat w + unat T < 2 ^ 64 \<Longrightarrow>
    \<forall>t \<in> set ts. unat t + unat T < 2 ^ 64 \<Longrightarrow>
    length oks = length ts \<and> (\<exists>s'. gate_run (check_step T chk) (c, w, W) (zip (map unat ts) oks) s')"
proof (induction ts arbitrary: c w W oks)
  case Nil
  then have "oks = []" by simp
  then show ?case by (intro conjI exI [of _ "(c, w, W)"]) (simp_all add: gate_run_Nil)
next
  case (Cons t ts)
  from Cons.prems(1) obtain W1 c1 w1 fl oks1 where r: "chk t c w W = Inr (W1, c1, w1, fl)"
    "flood_run chk ts c1 w1 W1 = Inr oks1" "oks = (\<not> fl) # oks1" by (auto simp: rbind_Inr_iff)
  have c: "unat c < 65535" using Cons.prems(2) by simp
  have st: "check_step T chk (c, w, W) (unat t) (\<not> fl) (c1, w1, W1)"
    using r(1) c Cons.prems(3) unsigned_less [of t] by (simp add: check_step_def)
  from g r(1) c have k: "if c = 0 \<or> \<not> w + ucast T > t then \<not> fl \<and> c1 = 1 \<and> w1 = t
      else w1 = w \<and> (fl \<longleftrightarrow> limit \<le> unat c) \<and> (if fl then limit \<le> unat c1 \<and> unat c1 \<le> unat c + 1 else c1 = c + 1)"
    unfolding gate_laws_def by blast
  have "unat c1 \<le> unat c + 1" using k unat_u16_inc [OF c] by (auto split: if_splits)
  then have "unat c1 + length ts \<le> 65535" using Cons.prems(2) by simp
  moreover have "unat w1 + unat T < 2 ^ 64" using k Cons.prems(3,4) by (auto split: if_splits)
  ultimately have "length oks1 = length ts \<and> (\<exists>s'. gate_run (check_step T chk) (c1, w1, W1) (zip (map unat ts) oks1) s')"
    using Cons.IH [OF r(2)] Cons.prems(4) by simp
  then obtain s' where "length oks1 = length ts" "gate_run (check_step T chk) (c1, w1, W1) (zip (map unat ts) oks1) s'" by blast
  with gate_run_Cons [OF st this(2)] r(3) show ?case by (intro conjI exI [of _ s']) simp_all
qed

text \<open>How many of the commands in an interval were let through.\<close>

definition passed :: "(nat \<Rightarrow> bool) \<Rightarrow> u64 list \<Rightarrow> bool list \<Rightarrow> nat" where
  "passed P ts oks = length (filter (\<lambda>(t, ok). ok \<and> P (unat t)) (zip ts oks))"

lemma through_zip: "through P (zip (map unat ts) oks) = passed P ts oks"
  unfolding through_def passed_def zip_map1 filter_map length_map comp_def by (simp add: case_prod_unfold)

lemma gate_run_mono:
  "gate_run step s es s' \<Longrightarrow> (\<And>s now ok s'. step s now ok s' \<Longrightarrow> step2 s now ok s') \<Longrightarrow> gate_run step2 s es s'"
proof (induction rule: gate_run.induct)
  case (gate_run_Cons s now ok s1 es s2)
  show ?case by (rule gate_run.gate_run_Cons [OF gate_run_Cons.prems [OF gate_run_Cons.hyps(1)] gate_run_Cons.IH [OF gate_run_Cons.prems]])
qed (rule gate_run.gate_run_Nil)

text \<open>The two instances; a limit that is not positive admits no step.\<close>

definition limited_step :: "16 word \<Rightarrow> u32 \<Rightarrow> flood_check \<Rightarrow> u16 \<times> u64 \<times> world \<Rightarrow> nat \<Rightarrow> bool \<Rightarrow> u16 \<times> u64 \<times> world \<Rightarrow> bool" where
  "limited_step lim T chk s now ok s' \<longleftrightarrow> 0 < sint lim \<and> check_step T chk s now ok s'"

lemma limited_gate:
  assumes "0 < sint lim \<Longrightarrow> gate_laws (unat lim) T chk"
  shows "counting_gate (limited_step lim T chk) count_of window_of (max 1 (unat lim)) (unat T)"
proof (cases "0 < sint lim")
  case True
  then have "0 < unat lim" using sint_as_unat [OF True] by linarith
  moreover from this have "max 1 (unat lim) = unat lim" by simp
  moreover have "limited_step lim T chk = check_step T chk" using True by (intro ext) (simp add: limited_step_def)
  ultimately show ?thesis using gate_laws_gate [OF assms [OF True]] by simp
next
  case False
  then show ?thesis by unfold_locales (simp_all add: limited_step_def)
qed

interpretation flood_gate: counting_gate "limited_step lim T (DeFloodCheckForFlood env ty act lim T other a)" count_of window_of
    "max 1 (unat lim)" "unat T" for lim T env ty act other a
  by (rule limited_gate) (rule flood_gate_laws)

interpretation interval_gate: counting_gate "limited_step lim T (DeFloodCheckInterval env ty lim T other a)" count_of window_of
    "max 1 (unat lim)" "unat T" for lim T env ty other a
  by (rule limited_gate) (rule interval_gate_laws)

lemma limited_run:
  assumes g: "gate_laws (unat lim) T chk" and lim: "0 < sint lim"
    and run: "flood_run chk ts 0 w W = Inr oks" and len: "length ts < 2 ^ 16"
    and t: "\<forall>t \<in> set ts. unat t + unat T < 2 ^ 64" and w: "unat w + unat T < 2 ^ 64"
  shows "length oks = length ts \<and> max 1 (unat lim) = unat lim
    \<and> (\<exists>s'. gate_run (limited_step lim T chk) (0, w, W) (zip (map unat ts) oks) s')"
proof -
  have l: "0 < unat lim" "unat lim < 32768" using sint_as_unat [OF lim] lim by linarith+
  from flood_run_gate [OF g l run _ w t] len obtain s' where r: "length oks = length ts"
    "gate_run (check_step T chk) (0, w, W) (zip (map unat ts) oks) s'" by auto
  have "gate_run (limited_step lim T chk) (0, w, W) (zip (map unat ts) oks) s'"
    by (rule gate_run_mono [OF r(2)]) (simp add: limited_step_def lim)
  with r(1) l(1) show ?thesis by (intro conjI exI [of _ s']) simp_all
qed

lemma take_zip_map: "take i (zip (map unat ts) oks) = zip (map unat (take i ts)) (take i oks)"
  by (simp add: take_zip take_map)



text \<open>
  The same of the interval check, which tells the user how long to wait.
\<close>

theorem interval_check_limits_rate:
  assumes "0 < sint lim" and "flood_run (DeFloodCheckInterval env ty lim T other a) ts 0 w W = Inr oks"
    and "sorted (map unat ts)" and "length ts < 2 ^ 16"
    and "\<forall>t \<in> set ts. unat t + unat T < 2 ^ 64" and "unat w + unat T < 2 ^ 64"
  shows "passed (\<lambda>x. t0 \<le> x \<and> x < t0 + unat T) ts oks \<le> 2 * unat lim
    \<and> (\<forall>i < length ts. \<not> oks ! i \<longrightarrow> unat lim \<le> passed (\<lambda>x. unat (ts ! i) < x + unat T) (take i ts) (take i oks))"
proof -
  from limited_run [OF interval_gate_laws [OF assms(1)] assms(1,2,4,5,6)] obtain s' where
    r: "length oks = length ts" "max 1 (unat lim) = unat lim"
      "gate_run (limited_step lim T (DeFloodCheckInterval env ty lim T other a)) (0, w, W) (zip (map unat ts) oks) s'"
    by blast
  have s: "sorted (map fst (zip (map unat ts) oks))" "count_of (0, w, W) = 0" using assms(3) r(1) by (simp_all add: count_of_def)
  show ?thesis
    using interval_gate.window_bound [OF r(3) s, of t0] interval_gate.refusal_earned [OF r(3) s] r(1)
    unfolding r(2) through_zip take_zip_map by simp
qed

theorem interval_check_limits_rate_witness:
  "flood_run (DeFloodCheckInterval demo_flood_env INTERVAL_CHAT 2 1000 None 1) [10, 20, 30] 0 0 (demo_named, new_BanManager)
     = Inr [True, True, False]
   \<and> passed (\<lambda>x. 10 \<le> x \<and> x < 1010) [10, 20, 30] [True, True, False] \<le> 4"
proof -
  let ?W = "(demo_named, new_BanManager)"
  let ?t = "m_sTexts demo_flood_env LAN_PLEASE_WAIT @ '' '' @ to_dec 980 @ '' '' @ flood_text demo_flood_env INTERVAL_CHAT 0 @ ''.|''"
  from demo_flood_ready have al: "alive 1 (fst ?W)" "room_for (global_buffer_size (fe_hub demo_flood_env)) 1 (fst ?W)"
    "zpipe_law (fe_zpipe demo_flood_env)" by (simp_all add: flood_ready_def)
  from tell_safe [OF al, of None True ?t] obtain H where "tell demo_flood_env None True ?t 1 ?W = Inr (H, new_BanManager)" by force
  then have "flood_run (DeFloodCheckInterval demo_flood_env INTERVAL_CHAT 2 1000 None 1) [10, 20, 30] 0 0 ?W = Inr [True, True, False]"
    by (simp add: DeFloodCheckInterval_def Let_def)
  from interval_check_limits_rate [OF _ this, of 10] this show ?thesis by simp
qed

text \<open>
  The bound on the number of commands matters: with the counter at its maximum and the window still open,
  a refused command sets it to zero, and the next one is let through.
\<close>

lemma counter_wraps:
  "flood_run (DeFloodCheckForFlood demo_flood_env CHAT 1 2 1000 None 1) [30, 31] 65535 10 (demo_named, new_BanManager)
     = Inr [False, True]"
  by (simp add: DeFloodCheckForFlood_def Let_def)

end
