(* ===== verification/UserRecv.thy ===== *)
theory UserRecv
  imports FloodActions UserLines
begin

text \<open>
  Receiving (\<open>User::DoRecv\<close> in \<open>core/User.cpp\<close>): data flood control, the growing receive buffer with its hard cap,
  the call of \<open>recv()\<close>, and the hand-over to the cutting of commands.  The socket is a function of the room it
  is offered; the handler of commands is the environment of \<open>UserProcessLines\<close>.  Every write into the
  buffer is checked against the allocation.
\<close>

section \<open>The receive buffer\<close>

text \<open>\<open>rv_data\<close> is the data in the buffer, \<open>rv_len\<close> the field \<open>m_ui32RecvBufLen\<close>; the allocation has one byte more.\<close>

record RecvState =
  rv_alloc :: bool
  rv_data :: string
  rv_len :: nat
  rv_called :: u32
  m_ui32Recvs :: u32
  m_ui32Recvs2 :: u32
  m_ui64RecvsTick :: u64
  m_ui64RecvsTick2 :: u64
  m_last_recv_tick :: u64
  m_ui64BytesRead :: u64

datatype recv_result = Received string | RecvWouldBlock | RecvError | RecvClosed

record recv_env =
  NODEFLOODRECV :: bool
  MAX_DOWN_ACTION :: "16 word"
  MAX_DOWN_KB :: "16 word"
  MAX_DOWN_TIME :: "16 word"
  MAX_DOWN_ACTION2 :: "16 word"
  MAX_DOWN_KB2 :: "16 word"
  MAX_DOWN_TIME2 :: "16 word"

definition g_ui32MaxRecvChunk :: nat where "g_ui32MaxRecvChunk = 8 * 1024"
definition MAX_RECV_BUF_SIZE :: nat where "MAX_RECV_BUF_SIZE = 2 ^ 20"

text \<open>The two checks on the amount received; the announced bytes count for the check only.\<close>

definition data_check1 :: "flood_env \<Rightarrow> recv_env \<Rightarrow> addr \<Rightarrow> u64 \<Rightarrow> nat \<Rightarrow> world \<times> RecvState \<Rightarrow> (world \<times> RecvState \<times> bool) res" where
  "data_check1 env renv a tick n = (\<lambda>(W, R).
     if MAX_DOWN_ACTION renv = 0 then Inr (W, R, False)
     else
       let t0 = (if m_ui32Recvs R = 0 then tick else m_ui64RecvsTick R) in
       rbind (DeFloodCheckForDataFlood env MAX_DOWN (MAX_DOWN_ACTION renv) (MAX_DOWN_KB renv) (scast (MAX_DOWN_TIME renv))
                a tick (m_ui32Recvs R + word_of_nat n) t0 W)
         (\<lambda>(W1, c, t, flooded).
           if flooded then Inr (W1, R\<lparr>m_ui32Recvs := c, m_ui64RecvsTick := t\<rparr>, True)
           else Inr (W1, R\<lparr>m_ui32Recvs := (if c \<noteq> 0 then c - word_of_nat n else c), m_ui64RecvsTick := t\<rparr>, False)))"

definition data_check2 :: "flood_env \<Rightarrow> recv_env \<Rightarrow> addr \<Rightarrow> u64 \<Rightarrow> nat \<Rightarrow> world \<times> RecvState \<Rightarrow> (world \<times> RecvState \<times> bool) res" where
  "data_check2 env renv a tick n = (\<lambda>(W, R).
     if MAX_DOWN_ACTION2 renv = 0 then Inr (W, R, False)
     else
       let t0 = (if m_ui32Recvs2 R = 0 then tick else m_ui64RecvsTick2 R) in
       rbind (DeFloodCheckForDataFlood env MAX_DOWN (MAX_DOWN_ACTION2 renv) (MAX_DOWN_KB2 renv) (scast (MAX_DOWN_TIME2 renv))
                a tick (m_ui32Recvs2 R + word_of_nat n) t0 W)
         (\<lambda>(W1, c, t, flooded).
           if flooded then Inr (W1, R\<lparr>m_ui32Recvs2 := c, m_ui64RecvsTick2 := t\<rparr>, True)
           else Inr (W1, R\<lparr>m_ui32Recvs2 := (if c \<noteq> 0 then c - word_of_nat n else c), m_ui64RecvsTick2 := t\<rparr>, False)))"

definition data_checks :: "flood_env \<Rightarrow> recv_env \<Rightarrow> addr \<Rightarrow> u64 \<Rightarrow> nat \<Rightarrow> world \<times> RecvState \<Rightarrow> (world \<times> RecvState \<times> bool) res" where
  "data_checks env renv a tick n WR =
     (if n = 0 \<or> NODEFLOODRECV renv then Inr (fst WR, snd WR, False)
      else rbind (data_check1 env renv a tick n WR) (\<lambda>(W1, R1, flooded).
        if flooded then Inr (W1, R1, True) else data_check2 env renv a tick n (W1, R1)))"

text \<open>How much to read: nothing announced is probed for a closed connection, but not on every call.\<close>

definition to_read :: "u64 \<Rightarrow> nat \<Rightarrow> RecvState \<Rightarrow> (nat \<times> RecvState) option" where
  "to_read tick n R =
     (if n = 0 then
        (let l_delta = sint tick - sint (m_last_recv_tick R) in
         if l_delta > 5 \<or> l_delta < 0 then Some (16, R\<lparr>m_last_recv_tick := tick\<rparr>) else None)
      else if n > g_ui32MaxRecvChunk then Some (g_ui32MaxRecvChunk, R)
      else Some (n, R))"

text \<open>Make room for \<open>n\<close> bytes; \<open>None\<close> when the cap is exceeded.\<close>

definition recv_room :: "nat \<Rightarrow> RecvState \<Rightarrow> RecvState option" where
  "recv_room n R =
     (let need = length (rv_data R) + n in
      if rv_len R < need then
        (if need > MAX_RECV_BUF_SIZE then None
         else Some (R\<lparr>rv_alloc := True, rv_len := Allign need - 1\<rparr>))
      else if rv_called R > 60 then
        Some (if rv_len R \<le> Allign need then R\<lparr>rv_called := 0\<rparr>
              else R\<lparr>rv_called := 0, rv_alloc := True, rv_len := Allign need - 1\<rparr>)
      else Some R)"

definition store_received :: "string \<Rightarrow> RecvState \<Rightarrow> RecvState res" where
  "store_received s R =
     (if \<not> rv_alloc R then Inl NullDeref
      else if length (rv_data R) + length s > rv_len R then Inl BufferOverflow
      else Inr (R\<lparr>m_ui32Recvs := m_ui32Recvs R + word_of_nat (length s),
                  m_ui32Recvs2 := m_ui32Recvs2 R + word_of_nat (length s),
                  m_ui64BytesRead := m_ui64BytesRead R + word_of_nat (length s)\<rparr>))"

definition recv_failed :: "flood_env \<Rightarrow> addr \<Rightarrow> world \<Rightarrow> world res" where
  "recv_failed env a W = rbind (close_with_error (fe_hub env) a (fst W)) (\<lambda>H. Inr (H, snd W))"

definition debug_broadcast :: "string \<Rightarrow> world \<Rightarrow> world" where
  "debug_broadcast t W = (call (DebugBroadcast t) (fst W), snd W)"

definition read_socket :: "flood_env \<Rightarrow> world line_env \<Rightarrow> (nat \<Rightarrow> recv_result) \<Rightarrow> addr \<Rightarrow> world \<Rightarrow> RecvState
    \<Rightarrow> (world \<times> RecvState \<times> bool) res" where
  "read_socket env lenv sock a W R =
     (let R1 = R\<lparr>rv_called := rv_called R + 1\<rparr> in
      case sock (rv_len R - length (rv_data R)) of
        RecvError \<Rightarrow> rbind (recv_failed env a (debug_broadcast ''recv() error'' W)) (\<lambda>W1. Inr (W1, R1, False))
      | RecvWouldBlock \<Rightarrow> Inr (W, R1, False)
      | RecvClosed \<Rightarrow> rbind (recv_failed env a W) (\<lambda>W1. Inr (W1, R1, False))
      | Received s \<Rightarrow>
          rbind (store_received s R1) (\<lambda>R2.
          case UserProcessLines lenv (rv_data R2) s W of
            (W1, d, wait) \<Rightarrow> Inr (W1, R2\<lparr>rv_data := d\<rparr>, wait)))"

definition recv_bytes :: "flood_env \<Rightarrow> world line_env \<Rightarrow> (nat \<Rightarrow> recv_result) \<Rightarrow> u64 \<Rightarrow> nat \<Rightarrow> addr \<Rightarrow> world \<Rightarrow> RecvState
    \<Rightarrow> (world \<times> RecvState \<times> bool) res" where
  "recv_bytes env lenv sock tick n a W R =
     (case to_read tick n R of
        None \<Rightarrow> Inr (W, R, True)
      | Some (m, R1) \<Rightarrow>
          (case recv_room m R1 of
             None \<Rightarrow> rbind (recv_failed env a W) (\<lambda>W1. Inr (W1, R1, False))
           | Some R2 \<Rightarrow> read_socket env lenv sock a W R2))"

text \<open>
  \<open>avail\<close> is what \<open>ioctl(FIONREAD)\<close> announces, \<open>None\<close> its failure.  The flag tells the caller to go on.
\<close>

definition DoRecv :: "flood_env \<Rightarrow> recv_env \<Rightarrow> world line_env \<Rightarrow> (nat \<Rightarrow> recv_result) \<Rightarrow> nat option \<Rightarrow> u64 \<Rightarrow> addr
    \<Rightarrow> world \<Rightarrow> RecvState \<Rightarrow> (world \<times> RecvState \<times> bool) res" where
  "DoRecv env renv lenv sock avail tick a W R =
     rbind (the_user a (fst W)) (\<lambda>u.
     if has_bits (m_ui32BoolBits u) BIT_ERROR \<or> isPastLogin (m_ui8State u) then Inr (W, R, False)
     else
       (case avail of
          None \<Rightarrow> rbind (recv_failed env a (debug_broadcast ''ioctlsocket(FIONREAD) error'' W)) (\<lambda>W1. Inr (W1, R, False))
        | Some n \<Rightarrow>
            rbind (data_checks env renv a tick n (W, R)) (\<lambda>(W1, R1, flooded).
              if flooded then Inr (W1, R1, False) else recv_bytes env lenv sock tick n a W1 R1)))"

section \<open>Its invariant\<close>

definition recv_ok :: "RecvState \<Rightarrow> bool" where
  "recv_ok R \<longleftrightarrow> length (rv_data R) \<le> rv_len R \<and> rv_len R < 2 * MAX_RECV_BUF_SIZE \<and> (\<not> rv_alloc R \<longrightarrow> rv_len R = 0)"

text \<open>What is documented of \<open>recv()\<close>: it returns at most the room offered, and some bytes unless it was closed.\<close>

definition recv_law :: "(nat \<Rightarrow> recv_result) \<Rightarrow> bool" where
  "recv_law sock \<longleftrightarrow> (\<forall>room s. sock room = Received s \<longrightarrow> s \<noteq> [] \<and> length s \<le> room)"

lemma recv_room_run:
  assumes "recv_ok R" and "recv_room n R = Some R'" and "0 < n"
  shows "recv_ok R' \<and> rv_alloc R' \<and> rv_data R' = rv_data R \<and> n \<le> rv_len R' - length (rv_data R')"
  using assms Allign_ge(1) [of "length (rv_data R) + n"]
  by (auto simp: recv_room_def recv_ok_def Let_def Allign_def split: if_splits)

lemma scan_length:
  "scan env past cur s w = (e, p, c, r, w') \<Longrightarrow> length p + length c + length r = length past + length cur + length s"
  by (induction env past cur s w rule: scan.induct)
    (fastforce simp: Let_def split: if_splits list.splits)+

lemma UserProcessLines_length:
  "UserProcessLines env pending new w = (w', d, f) \<Longrightarrow> length d \<le> length pending + length new"
  using scan_length [of env "[]" pending new w]
  by (auto simp: UserProcessLines_def split: prod.splits scan_end.splits if_splits)

section \<open>What receiving does\<close>

lemma flood_ready_sound: "flood_ready env a W \<Longrightarrow> sound a W"
  by (simp add: flood_ready_def sound_def)

lemma flag_flooder_ready:
  assumes "flood_ready env a W"
  shows "\<exists>W'. flag_flooder on a W = Inr W' \<and> flood_ready env a W' \<and> (\<exists>u. the_user a (fst W') = Inr u)"
proof -
  let ?f = "\<lambda>u :: User. u\<lparr>m_ui32BoolBits := (if on then m_ui32BoolBits u OR BIT_RECV_FLOODER
      else m_ui32BoolBits u AND NOT BIT_RECV_FLOODER)\<rparr>"
  have b: "has_bits (w OR BIT_RECV_FLOODER) BIT_HASHED = has_bits w BIT_HASHED"
    "has_bits (w AND NOT BIT_RECV_FLOODER) BIT_HASHED = has_bits w BIT_HASHED" for w
    by (rule has_bits_or_disjoint, simp add: user_bits) (rule has_bits_clear_disjoint, simp add: user_bits)
  have r: "set_user a ?f (fst W) = Inr (upd a ?f (fst W)) \<and> flood_ready env a (upd a ?f (fst W), snd W)"
    by (rule set_user_ready [OF assms]) (simp_all add: keeps_def b)
  then have "alive a (fst (upd a ?f (fst W), snd W))" unfolding flood_ready_def by blast
  from alive_user [OF this] r show ?thesis by (auto simp: flag_flooder_def)
qed

lemma data_flood_safe:
  assumes rd: "flood_ready env a W"
  shows "safe only_double_free (DeFloodCheckForDataFlood env ty act lim T a tick c l W)
    (\<lambda>(W', _, _, flooded). sound a W' \<and> (\<not> flooded \<longrightarrow> flood_ready env a W'))"
proof -
  from rd have "alive a (fst W)" by (simp add: flood_ready_def)
  from alive_user [OF this] obtain u where u: "the_user a (fst W) = Inr u" ..
  from flag_flooder_ready [OF rd, of True] obtain W1 u1 where
    1: "flag_flooder True a W = Inr W1" "flood_ready env a W1" "the_user a (fst W1) = Inr u1" by blast
  from flag_flooder_ready [OF rd, of False] obtain W0 where 0: "flag_flooder False a W = Inr W0" "flood_ready env a W0" by blast
  have act: "safe only_double_free (DeFloodDoAction env ty act (ucast c) None a W1) (\<lambda>x. sound a (fst x))"
    by (rule safe_conseq [OF DeFloodDoAction_safe [OF 1(2,3)]]) auto
  show ?thesis
    using u 1(1) 0 flood_ready_sound [OF 0(2)] flood_ready_sound [OF rd] rd act
    by (auto simp: DeFloodCheckForDataFlood_def Let_def split_beta)
qed

text \<open>After a check the world is sound, ready again if the data is let through, and the buffer is untouched.\<close>

definition checked :: "flood_env \<Rightarrow> addr \<Rightarrow> RecvState \<Rightarrow> world \<times> RecvState \<times> bool \<Rightarrow> bool" where
  "checked env a R = (\<lambda>(W', R', flooded). sound a W' \<and> (\<not> flooded \<longrightarrow> flood_ready env a W')
     \<and> rv_data R' = rv_data R \<and> rv_len R' = rv_len R \<and> rv_alloc R' = rv_alloc R \<and> rv_called R' = rv_called R)"

lemma data_check_safe:
  assumes "flood_ready env a W"
  shows "safe only_double_free (data_check1 env renv a tick n (W, R)) (checked env a R)"
    and "safe only_double_free (data_check2 env renv a tick n (W, R)) (checked env a R)"
  unfolding data_check1_def data_check2_def Let_def
  by (auto simp: flood_ready_sound [OF assms] assms checked_def intro!: safe_conseq [OF data_flood_safe [OF assms]])

lemma data_checks_safe:
  assumes "flood_ready env a W"
  shows "safe only_double_free (data_checks env renv a tick n (W, R)) (checked env a R)"
proof (cases "n = 0 \<or> NODEFLOODRECV renv")
  case True
  then show ?thesis using assms by (auto simp: data_checks_def flood_ready_sound checked_def)
next
  case False
  have "safe only_double_free (if flooded then Inr (W1, R1, True) else data_check2 env renv a tick n (W1, R1)) (checked env a R)"
    if "checked env a R (W1, R1, flooded)" for W1 R1 flooded
  proof (cases flooded)
    case True
    with that show ?thesis by simp
  next
    case False
    with that have "flood_ready env a W1" by (simp add: checked_def)
    from safe_conseq [OF data_check_safe(2) [OF this, of renv tick n R1], of "checked env a R"] that False show ?thesis
      by (auto simp: checked_def)
  qed
  with False show ?thesis
    by (auto simp: data_checks_def intro!: safe_conseq [OF data_check_safe(1) [OF assms]])
qed

lemma recv_failed_safe:
  assumes "alive a (fst W)"
  shows "\<exists>H. recv_failed env a W = Inr (H, snd W) \<and> closing a H"
  using close_with_error_alive [OF assms, of "fe_hub env"] by (auto simp: recv_failed_def)

text \<open>The part after the checks: probe, room, \<open>recv()\<close>, hand-over.\<close>

definition received :: "world line_env \<Rightarrow> addr \<Rightarrow> RecvState \<Rightarrow> world \<times> RecvState \<times> bool \<Rightarrow> bool" where
  "received lenv a R = (\<lambda>(W', R', wait). recv_ok R' \<and>
     (sound a W' \<and> rv_data R' = rv_data R
      \<or> (\<exists>s W1. s \<noteq> [] \<and> sound a W1 \<and> UserProcessLines lenv (rv_data R) s W1 = (W', rv_data R', wait))))"

lemma recv_ok_fields:
  assumes "recv_ok R" and "rv_data R' = rv_data R" and "rv_len R' = rv_len R" and "rv_alloc R' = rv_alloc R"
  shows "recv_ok R'"
  using assms by (simp add: recv_ok_def)

lemma store_received_run:
  assumes "recv_ok R" and "rv_alloc R" and "length (rv_data R) + length s \<le> rv_len R"
  shows "\<exists>R'. store_received s R = Inr R' \<and> rv_data R' = rv_data R \<and> rv_len R' = rv_len R \<and> rv_alloc R'"
  using assms by (simp add: store_received_def)

lemma closing_sound: "closing a H \<Longrightarrow> ban_inv s \<Longrightarrow> sound a (H, s)"
  by (simp add: sound_def closing_alive)

lemma debug_broadcast_sound [simp]: "alive a (fst (debug_broadcast t W)) = alive a (fst W)" "snd (debug_broadcast t W) = snd W"
  by (simp_all add: debug_broadcast_def)

lemma recv_failed_received:
  assumes "alive a (fst W)" and "ban_inv (snd W)" and "recv_ok R'" and "rv_data R' = rv_data R"
  shows "safe only_double_free (rbind (recv_failed env a W) (\<lambda>W1. Inr (W1, R', False))) (received lenv a R)"
proof -
  from recv_failed_safe [OF assms(1), of env] obtain H where "recv_failed env a W = Inr (H, snd W)" "closing a H" by blast
  with assms show ?thesis by (simp add: received_def closing_sound)
qed

lemma read_socket_safe:
  assumes "sound a W" and ok: "recv_ok R" and al: "rv_alloc R" and law: "recv_law sock"
  shows "safe only_double_free (read_socket env lenv sock a W R) (received lenv a R)"
proof -
  let ?R1 = "R\<lparr>rv_called := rv_called R + 1\<rparr>"
  from assms(1) have w: "alive a (fst W)" "ban_inv (snd W)" by (simp_all add: sound_def)
  have ok1: "recv_ok ?R1" using ok by (simp add: recv_ok_def)
  show ?thesis
  proof (cases "sock (rv_len R - length (rv_data R))")
    case (Received s)
    with law have s: "s \<noteq> []" "length s \<le> rv_len R - length (rv_data R)" unfolding recv_law_def by blast+
    then have "length (rv_data ?R1) + length s \<le> rv_len ?R1" using ok by (auto simp: recv_ok_def le_diff_conv2)
    from store_received_run [OF ok1 _ this] al obtain R2 where
      r: "store_received s ?R1 = Inr R2" "rv_data R2 = rv_data R" "rv_len R2 = rv_len R" "rv_alloc R2" by auto
    obtain W1 d w1 where u: "UserProcessLines lenv (rv_data R) s W = (W1, d, w1)" by (metis prod_cases3)
    have "recv_ok (R2\<lparr>rv_data := d\<rparr>)"
      using UserProcessLines_length [OF u] s r ok by (auto simp: recv_ok_def le_diff_conv2)
    moreover have "read_socket env lenv sock a W R = Inr (W1, R2\<lparr>rv_data := d\<rparr>, w1)"
      using Received r u by (simp add: read_socket_def)
    moreover have "\<exists>s W0. s \<noteq> [] \<and> sound a W0 \<and> UserProcessLines lenv (rv_data R) s W0 = (W1, d, w1)"
      using s(1) assms(1) u by blast
    ultimately show ?thesis by (simp add: received_def)
  next
    case RecvWouldBlock
    then show ?thesis using assms(1) ok1 by (simp add: read_socket_def received_def)
  next
    case RecvError
    have "safe only_double_free (rbind (recv_failed env a (debug_broadcast ''recv() error'' W)) (\<lambda>W1. Inr (W1, ?R1, False)))
        (received lenv a R)" by (rule recv_failed_received) (use w ok1 in simp_all)
    then show ?thesis using RecvError by (simp add: read_socket_def)
  next
    case RecvClosed
    have "safe only_double_free (rbind (recv_failed env a W) (\<lambda>W1. Inr (W1, ?R1, False))) (received lenv a R)"
      by (rule recv_failed_received) (use w ok1 in simp_all)
    then show ?thesis using RecvClosed by (simp add: read_socket_def)
  qed
qed

lemma recv_bytes_safe:
  assumes w: "sound a W" and ok: "recv_ok R" and law: "recv_law sock"
  shows "safe only_double_free (recv_bytes env lenv sock tick n a W R) (received lenv a R)"
proof (cases "to_read tick n R")
  case None
  with w ok show ?thesis by (simp add: recv_bytes_def received_def)
next
  case (Some p)
  then obtain m R1 where p: "to_read tick n R = Some (m, R1)" by (cases p) simp
  then have m: "0 < m" "recv_ok R1" "rv_data R1 = rv_data R"
    using ok by (auto simp: to_read_def Let_def g_ui32MaxRecvChunk_def recv_ok_def split: if_splits)
  show ?thesis
  proof (cases "recv_room m R1")
    case None
    have "safe only_double_free (rbind (recv_failed env a W) (\<lambda>W1. Inr (W1, R1, False))) (received lenv a R)"
      by (rule recv_failed_received) (use w m in \<open>simp_all add: sound_def\<close>)
    with None p show ?thesis by (simp add: recv_bytes_def)
  next
    case (Some R2)
    from recv_room_run [OF m(2) Some m(1)] m(3) have r: "recv_ok R2" "rv_alloc R2" "rv_data R2 = rv_data R" by simp_all
    from read_socket_safe [OF w r(1,2) law, of env lenv] r(3) p Some show ?thesis by (simp add: recv_bytes_def received_def)
  qed
qed

lemma DoRecv_safe:
  assumes rd: "flood_ready env a W" and ok: "recv_ok R" and law: "recv_law sock"
  shows "safe only_double_free (DoRecv env renv lenv sock avail tick a W R) (received lenv a R)"
proof -
  from rd have al: "alive a (fst W)" "ban_inv (snd W)" by (simp_all add: flood_ready_def)
  from alive_user [OF al(1)] obtain u where u: "the_user a (fst W) = Inr u" ..
  show ?thesis
  proof (cases "has_bits (m_ui32BoolBits u) BIT_ERROR \<or> isPastLogin (m_ui8State u)")
    case True
    with u ok rd show ?thesis by (simp add: DoRecv_def received_def flood_ready_sound)
  next
    case running: False
    show ?thesis
    proof (cases avail)
      case None
      have "safe only_double_free (rbind (recv_failed env a (debug_broadcast ''ioctlsocket(FIONREAD) error'' W))
          (\<lambda>W1. Inr (W1, R, False))) (received lenv a R)" by (rule recv_failed_received) (use al ok in simp_all)
      with None running u show ?thesis by (simp add: DoRecv_def)
    next
      case (Some n)
      have "safe only_double_free (if fl then Inr (W1, R1, False) else recv_bytes env lenv sock tick n a W1 R1) (received lenv a R)"
        if c: "checked env a R (W1, R1, fl)" for W1 R1 fl
      proof -
        from c have r: "sound a W1" "rv_data R1 = rv_data R" "recv_ok R1"
          using recv_ok_fields [OF ok, of R1] by (simp_all add: checked_def)
        from recv_bytes_safe [OF r(1,3) law, of env lenv tick n] r show ?thesis by (simp add: received_def)
      qed
      then have "safe only_double_free (rbind (data_checks env renv a tick n (W, R)) (\<lambda>(W1, R1, fl).
          if fl then Inr (W1, R1, False) else recv_bytes env lenv sock tick n a W1 R1)) (received lenv a R)"
        unfolding safe_rbind by (intro safe_conseq [OF data_checks_safe [OF rd]]) auto
      with Some running u show ?thesis by (simp add: DoRecv_def)
    qed
  qed
qed


definition demo_recv :: RecvState where
  "demo_recv = \<lparr>rv_alloc = False, rv_data = [], rv_len = 0, rv_called = 0, m_ui32Recvs = 0, m_ui32Recvs2 = 0,
     m_ui64RecvsTick = 0, m_ui64RecvsTick2 = 0, m_last_recv_tick = 0, m_ui64BytesRead = 0\<rparr>"

definition demo_recv_env :: recv_env where
  "demo_recv_env = \<lparr>NODEFLOODRECV = True, MAX_DOWN_ACTION = 0, MAX_DOWN_KB = 0, MAX_DOWN_TIME = 0,
     MAX_DOWN_ACTION2 = 0, MAX_DOWN_KB2 = 0, MAX_DOWN_TIME2 = 0\<rparr>"

definition demo_lines :: "world line_env" where
  "demo_lines = \<lparr>PreProcessData = \<lambda>_ w. w, ProcessCmds = \<lambda>w. w, TooLong = \<lambda>w. w, state_of = \<lambda>_. STATE_ADDED\<rparr>"


end
