(* ===== verification/PxbFormat.thy ===== *)
theory PxbFormat
  imports MsgBuffer
begin

text \<open>
  The record files of the hub (\<open>core/PXBReader.cpp\<close>): items of named sub-items with big-endian lengths, written
  through the global buffer and read back through a window that is refilled from the file.  Reading outside
  the window and writing outside the buffer are faults, and so is a loop that does not end.
\<close>

section \<open>Big-endian numbers\<close>

definition be16 :: "u16 \<Rightarrow> byte list" where "be16 w = [ucast (drop_bit 8 w), ucast w]"
definition be32 :: "u32 \<Rightarrow> byte list" where
  "be32 w = [ucast (drop_bit 24 w), ucast (drop_bit 16 w), ucast (drop_bit 8 w), ucast w]"
definition be64 :: "u64 \<Rightarrow> byte list" where
  "be64 w = be32 (ucast (drop_bit 32 w)) @ be32 (ucast w)"

definition rd16 :: "byte list \<Rightarrow> u16" where "rd16 b = push_bit 8 (ucast (b ! 0)) OR ucast (b ! 1)"
definition rd32 :: "byte list \<Rightarrow> u32" where
  "rd32 b = push_bit 24 (ucast (b ! 0)) OR push_bit 16 (ucast (b ! 1)) OR push_bit 8 (ucast (b ! 2)) OR ucast (b ! 3)"

lemma length_be [simp]: "length (be16 w) = 2" "length (be32 x) = 4" "length (be64 y) = 8"
  by (simp_all add: be16_def be32_def be64_def)

lemma rd16_be16 [simp]: "rd16 (be16 w @ r) = w"
proof (rule bit_word_eqI)
  fix n assume "n < LENGTH(16)"
  then show "bit (rd16 (be16 w @ r)) n = bit w n"
    by (cases "n < 8") (auto simp: rd16_def be16_def bit_or_iff bit_push_bit_iff bit_ucast_iff bit_drop_bit_eq)
qed

lemma rd32_be32 [simp]: "rd32 (be32 w @ r) = w"
proof (rule bit_word_eqI)
  fix n assume "n < LENGTH(32)"
  then consider "n < 8" | "8 \<le> n" "n < 16" | "16 \<le> n" "n < 24" | "24 \<le> n" "n < 32" by fastforce
  then show "bit (rd32 (be32 w @ r)) n = bit w n"
    by cases (auto simp: rd32_def be32_def bit_or_iff bit_push_bit_iff bit_ucast_iff bit_drop_bit_eq)
qed

section \<open>Items\<close>

type_synonym ident = "byte \<times> byte"

datatype pxb_value = PXB_BYTE bool | PXB_TWO_BYTES u16 | PXB_FOUR_BYTES u32 | PXB_EIGHT_BYTES u64 | PXB_STRING "byte list"

fun pxb_bytes :: "pxb_value \<Rightarrow> byte list" where
  "pxb_bytes (PXB_BYTE b) = [if b then byte_of CHR ''1'' else byte_of CHR ''0'']"
| "pxb_bytes (PXB_TWO_BYTES w) = be16 w"
| "pxb_bytes (PXB_FOUR_BYTES w) = be32 w"
| "pxb_bytes (PXB_EIGHT_BYTES w) = be64 w"
| "pxb_bytes (PXB_STRING s) = s"

text \<open>The length the callers set for the value, a 16-bit field.\<close>

definition item_length :: "pxb_value \<Rightarrow> u16" where
  "item_length v = word_of_nat (length (pxb_bytes v))"

definition write_sub :: "ident \<times> pxb_value \<Rightarrow> byte list" where
  "write_sub = (\<lambda>((c, d), v). be16 (item_length v + 4) @ [c, d] @ take (unat (item_length v)) (pxb_bytes v))"

section \<open>Writing\<close>

text \<open>The file so far and the part of the global buffer in use.\<close>

record pxb_writer =
  pw_file :: "byte list"
  pw_buf :: "byte list"

definition OpenFileSave :: pxb_writer where
  "OpenFileSave = \<lparr>pw_file = [], pw_buf = []\<rparr>"

definition WriteNextItem :: "u32 \<Rightarrow> (ident \<times> pxb_value) list \<Rightarrow> pxb_writer \<Rightarrow> pxb_writer res" where
  "WriteNextItem ui32Length subs w =
     (let ui32ItemLength = ui32Length + 4 + 4 * word_of_nat (length subs);
          w1 = (if unat ui32ItemLength > PTOKAX_GLOBAL_BUFF_SIZE - length (pw_buf w)
                then \<lparr>pw_file = pw_file w @ pw_buf w, pw_buf = []\<rparr> else w);
          out = be32 ui32ItemLength @ concat (map write_sub subs)
      in if length (pw_buf w1) + length out > PTOKAX_GLOBAL_BUFF_SIZE then Inl BufferOverflow
         else Inr (w1\<lparr>pw_buf := pw_buf w1 @ out\<rparr>))"

definition WriteRemaining :: "pxb_writer \<Rightarrow> byte list" where
  "WriteRemaining w = pw_file w @ pw_buf w"

section \<open>Reading\<close>

text \<open>
  \<open>pr_win\<close>: the \<open>m_szRemainingSize\<close> bytes from \<open>m_pActualPosition\<close>; \<open>pr_file\<close>: the part of the file not yet read.
  A field is a length and the bytes from its pointer on.
\<close>

record pxb_reader =
  pr_win :: "byte list"
  pr_file :: "byte list"
  pr_full :: bool

type_synonym field = "u16 \<times> byte list option"

definition OpenFileRead :: "byte list \<Rightarrow> pxb_reader option" where
  "OpenFileRead file =
     (if file = [] then None
      else if length file < PTOKAX_GLOBAL_BUFF_SIZE then Some \<lparr>pr_win = file, pr_file = [], pr_full = True\<rparr>
      else Some \<lparr>pr_win = take PTOKAX_GLOBAL_BUFF_SIZE file, pr_file = drop PTOKAX_GLOBAL_BUFF_SIZE file, pr_full = False\<rparr>)"

definition ReadNextFilePart :: "pxb_reader \<Rightarrow> pxb_reader" where
  "ReadNextFilePart r =
     (let want = PTOKAX_GLOBAL_BUFF_SIZE - length (pr_win r); got = take want (pr_file r) in
      \<lparr>pr_win = pr_win r @ got, pr_file = drop want (pr_file r), pr_full = (pr_full r \<or> length got \<noteq> want)\<rparr>)"

text \<open>The search for a sub-item that is not the next expected one.\<close>

fun match_ids :: "ident list \<Rightarrow> ident \<Rightarrow> field \<Rightarrow> nat \<Rightarrow> nat \<times> field list \<Rightarrow> nat \<times> field list" where
  "match_ids [] i f k st = st"
| "match_ids (e # es) i f k (act, fs) = match_ids es i f (Suc k) (if e = i then (act + 1, fs[k := f]) else (act, fs))"

definition take_sub :: "ident list \<Rightarrow> nat \<Rightarrow> nat \<Rightarrow> ident \<Rightarrow> field \<Rightarrow> nat \<times> field list \<Rightarrow> nat \<times> field list" where
  "take_sub expected n extra i f = (\<lambda>(act, fs).
     if act < n then
       (if expected ! act = i then (act + 1, fs[act := f])
        else match_ids (take (n + extra) expected) i f 0 (act, fs))
     else (act, fs))"

fun read_subs :: "nat \<Rightarrow> ident list \<Rightarrow> nat \<Rightarrow> nat \<Rightarrow> u32 \<Rightarrow> byte list \<Rightarrow> nat \<times> field list
    \<Rightarrow> (byte list \<times> nat \<times> field list \<times> bool) res" where
  "read_subs fuel expected n extra ui32ItemSize win st =
     (if ui32ItemSize = 0 then Inr (win, fst st, snd st, True)
      else case fuel of
        0 \<Rightarrow> Inl LoopFuel
      | Suc fuel' \<Rightarrow>
          if length win < (if fst st < n then 4 else 2) then Inl BufferOverflow
          else
            let sub = rd16 win in
            if ucast sub > ui32ItemSize then Inr (win, fst st, snd st, False)
            else
              let st1 = take_sub expected n extra (win ! 2, win ! 3) (sub - 4, Some (drop 4 win)) st in
              if unat sub > length win then Inl BufferOverflow
              else read_subs fuel' expected n extra (ui32ItemSize - ucast sub) (drop (unat sub) win) st1)"

declare read_subs.simps [simp del]

text \<open>
  \<open>arrays\<close> is the size the arrays were prepared with; the flag is the result.
\<close>

definition ReadNextItem :: "ident list \<Rightarrow> nat \<Rightarrow> nat \<Rightarrow> nat \<Rightarrow> pxb_reader \<Rightarrow> (pxb_reader \<times> field list \<times> bool) res" where
  "ReadNextItem expected n extra arrays r =
     (let blank = replicate arrays (0, None) in
      if pr_win r = [] then Inr (r, blank, False)
      else
        let r1 = (if length (pr_win r) < 4 \<and> \<not> pr_full r then ReadNextFilePart r else r) in
        if length (pr_win r1) < 4 then Inr (r1, blank, False)
        else
          let ui32ItemSize = rd32 (pr_win r1);
              r2 = (if unat ui32ItemSize > length (pr_win r1) \<and> \<not> pr_full r1 then ReadNextFilePart r1 else r1) in
          if unat ui32ItemSize > length (pr_win r2) then Inr (r2, blank, False)
          else
            rbind (read_subs (Suc (unat (ui32ItemSize - 4))) expected n extra (ui32ItemSize - 4) (drop 4 (pr_win r2)) (0, blank))
              (\<lambda>(win, act, fs, ended). Inr (r2\<lparr>pr_win := win\<rparr>, fs, ended \<and> act = n)))"

text \<open>The bytes of a field, as a consumer that respects the length reads them.\<close>

definition field_len :: "field list \<Rightarrow> nat \<Rightarrow> nat" where "field_len fs i = unat (fst (fs ! i))"

definition field_bytes :: "nat \<Rightarrow> field list \<Rightarrow> nat \<Rightarrow> byte list res" where
  "field_bytes len fs i =
     (case snd (fs ! i) of None \<Rightarrow> Inl NullDeref
      | Some p \<Rightarrow> if len > length p then Inl BufferOverflow else Inr (take len p))"

section \<open>Reading back what was written\<close>

text \<open>A value fits if its length and that of its header fit 16 bits.\<close>

definition fits16 :: "pxb_value \<Rightarrow> bool" where "fits16 v \<longleftrightarrow> length (pxb_bytes v) + 4 < 65536"

lemma write_sub_form:
  assumes "fits16 v"
  shows "write_sub (i, v) = be16 (word_of_nat (length (pxb_bytes v) + 4)) @ [fst i, snd i] @ pxb_bytes v"
    and "length (write_sub (i, v)) = length (pxb_bytes v) + 4"
    and "unat (item_length v) = length (pxb_bytes v)"
proof -
  show u: "unat (item_length v) = length (pxb_bytes v)" using assms by (simp add: item_length_def fits16_def unat_of_nat)
  then show w: "write_sub (i, v) = be16 (word_of_nat (length (pxb_bytes v) + 4)) @ [fst i, snd i] @ pxb_bytes v"
    by (cases i) (simp add: write_sub_def item_length_def add.commute)
  show "length (write_sub (i, v)) = length (pxb_bytes v) + 4" by (simp add: w)
qed

text \<open>What the loop does with one written sub-item.\<close>

lemma read_subs_step:
  assumes v: "fits16 v" and n: "length (write_sub (i, v)) + m < 2 ^ 32"
  shows "read_subs (Suc fuel) expected n extra (word_of_nat (length (write_sub (i, v)) + m)) (write_sub (i, v) @ w) st =
     read_subs fuel expected n extra (word_of_nat m) w
       (take_sub expected n extra i (item_length v, Some (pxb_bytes v @ w)) st)"
proof -
  let ?l = "length (pxb_bytes v) + 4"
  note f = write_sub_form(1,2) [OF v, of i]
  have s: "rd16 (write_sub (i, v) @ w) = word_of_nat ?l" by (simp add: f(1))
  have l: "?l < 65536" using v by (simp add: fits16_def)
  have u: "unat (word_of_nat ?l :: u16) = ?l" by (subst unat_of_nat) (use l in simp)
  have sz: "unat (word_of_nat (length (write_sub (i, v)) + m) :: u32) = ?l + m"
    by (subst unat_of_nat) (use n f(2) in simp)
  have u32: "unat (word_of_nat ?l :: u32) = ?l" by (subst unat_of_nat) (use l in simp)
  have uc: "(ucast (word_of_nat ?l :: u16) :: u32) = word_of_nat ?l"
    unfolding word_unat_eq_iff u32 unsigned_ucast_eq u using l by (simp add: take_bit_nat_eq_self)
  have nz: "(word_of_nat (length (write_sub (i, v)) + m) :: u32) \<noteq> 0"
  proof
    assume "(word_of_nat (length (write_sub (i, v)) + m) :: u32) = 0"
    then have "unat (word_of_nat (length (write_sub (i, v)) + m) :: u32) = 0" by (simp only: unat_0)
    with sz show False by linarith
  qed
  have le: "\<not> (word_of_nat ?l :: u32) > word_of_nat (length (write_sub (i, v)) + m)"
    unfolding word_less_nat_alt sz u32 by simp
  have sub: "(word_of_nat (length (write_sub (i, v)) + m) :: u32) - word_of_nat ?l = word_of_nat m" by (simp add: f(2))
  have len: "word_of_nat ?l - 4 = item_length v" by (simp add: item_length_def)
  have d4: "drop 4 (write_sub (i, v) @ w) = pxb_bytes v @ w" by (simp add: f(1) be16_def)
  have dl: "drop ?l (write_sub (i, v) @ w) = w" by (simp add: f(2))
  have i: "((write_sub (i, v) @ w) ! 2, (write_sub (i, v) @ w) ! 3) = i" by (simp add: f(1) be16_def)
  have l4: "length (write_sub (i, v) @ w) \<ge> ?l" by (simp add: f(2))
  show ?thesis
    by (subst read_subs.simps) (use nz l4 le in \<open>simp add: s u uc sub len d4 dl i Let_def del: of_nat_add drop_append\<close>)
qed

lemma read_subs_done [simp]: "read_subs fuel expected n extra 0 w st = Inr (w, fst st, snd st, True)"
  by (subst read_subs.simps) simp

text \<open>All sub-items of an item, followed by the bytes \<open>w\<close>.\<close>

fun take_subs :: "ident list \<Rightarrow> nat \<Rightarrow> nat \<Rightarrow> byte list \<Rightarrow> (ident \<times> pxb_value) list \<Rightarrow> nat \<times> field list \<Rightarrow> nat \<times> field list" where
  "take_subs expected n extra w [] st = st"
| "take_subs expected n extra w ((i, v) # subs) st =
     take_subs expected n extra w subs
       (take_sub expected n extra i (item_length v, Some (pxb_bytes v @ concat (map write_sub subs) @ w)) st)"

definition all_fit :: "(ident \<times> pxb_value) list \<Rightarrow> bool" where
  "all_fit subs \<longleftrightarrow> (\<forall>s \<in> set subs. fits16 (snd s))"

lemma all_fit_simps [simp]: "all_fit []" "all_fit ((i, v) # subs) \<longleftrightarrow> fits16 v \<and> all_fit subs"
  by (simp_all add: all_fit_def)

definition body :: "(ident \<times> pxb_value) list \<Rightarrow> byte list" where
  "body subs = concat (map write_sub subs)"

lemma body_simps [simp]: "body [] = []" "body (s # subs) = write_sub s @ body subs"
  by (simp_all add: body_def)

lemma read_subs_run:
  "all_fit subs \<Longrightarrow> length (body subs) < 2 ^ 32 \<Longrightarrow> length subs \<le> fuel \<Longrightarrow>
   read_subs fuel expected n extra (word_of_nat (length (body subs))) (body subs @ w) st =
     Inr (w, fst (take_subs expected n extra w subs st), snd (take_subs expected n extra w subs st), True)"
proof (induction subs arbitrary: fuel st)
  case (Cons s subs)
  obtain i v where s: "s = (i, v)" by (cases s)
  from Cons.prems obtain f' where f: "fuel = Suc f'" "length subs \<le> f'" by (cases fuel) auto
  have len: "length (write_sub (i, v)) + length (body subs) < 2 ^ 32" using Cons.prems(2) s by simp
  have "fits16 v" using Cons.prems(1) s by simp
  from read_subs_step [OF this len, of f' expected n extra "body subs @ w" st] Cons.IH [of f'] Cons.prems(1,2) s f
  show ?case by (simp add: body_def)
qed simp

lemma body_count: "all_fit subs \<Longrightarrow> 4 * length subs \<le> length (body subs)"
proof (induction subs)
  case (Cons s subs)
  then show ?case using write_sub_form(2) [of "snd s" "fst s"] by (cases s) simp
qed simp

section \<open>Items in a file\<close>

definition enc :: "(ident \<times> pxb_value) list \<Rightarrow> byte list" where
  "enc subs = be32 (word_of_nat (length (body subs) + 4)) @ body subs"

definition item_ok :: "(ident \<times> pxb_value) list \<Rightarrow> bool" where
  "item_ok subs \<longleftrightarrow> all_fit subs \<and> length (body subs) + 4 \<le> PTOKAX_GLOBAL_BUFF_SIZE"

lemma length_enc [simp]: "length (enc subs) = length (body subs) + 4"
  by (simp add: enc_def)

text \<open>What is still to be read, and the reader's place in it.\<close>

definition pending :: "pxb_reader \<Rightarrow> byte list" where "pending r = pr_win r @ pr_file r"

definition reader_ok :: "pxb_reader \<Rightarrow> bool" where
  "reader_ok r \<longleftrightarrow> length (pr_win r) \<le> PTOKAX_GLOBAL_BUFF_SIZE \<and> (pr_full r \<longrightarrow> pr_file r = [])"

lemma refill:
  assumes "reader_ok r"
  shows "pending (ReadNextFilePart r) = pending r \<and> reader_ok (ReadNextFilePart r)
    \<and> length (pr_win (ReadNextFilePart r)) = min PTOKAX_GLOBAL_BUFF_SIZE (length (pending r))"
  using assms by (auto simp: ReadNextFilePart_def pending_def reader_ok_def Let_def min_def)

lemma rd32_prefix: "4 \<le> length x \<Longrightarrow> rd32 (x @ y) = rd32 x"
  by (cases x) (auto simp: rd32_def nth_append)

text \<open>A refill when the window is too short for \<open>k\<close> of the pending bytes.\<close>

lemma refill_for:
  assumes r: "reader_ok r" and k: "k \<le> length (pending r)" "k \<le> PTOKAX_GLOBAL_BUFF_SIZE"
    and r1: "r1 = (if length (pr_win r) < k \<and> \<not> pr_full r then ReadNextFilePart r else r)"
  shows "reader_ok r1" and "pending r1 = pending r" and "k \<le> length (pr_win r1)" and "pr_full r \<longrightarrow> pr_full r1"
proof -
  have "reader_ok r1 \<and> pending r1 = pending r \<and> k \<le> length (pr_win r1) \<and> (pr_full r \<longrightarrow> pr_full r1)"
  proof (cases "length (pr_win r) < k \<and> \<not> pr_full r")
    case True
    with refill [OF r] k r1 show ?thesis by simp
  next
    case False
    with r k r1 show ?thesis by (cases "pr_full r") (simp_all add: reader_ok_def pending_def)
  qed
  then show "reader_ok r1" and "pending r1 = pending r" and "k \<le> length (pr_win r1)" and "pr_full r \<longrightarrow> pr_full r1" by blast+
qed

text \<open>While the window is not empty, the next item is read whole, wherever the window ends.\<close>

lemma ReadNextItem_run:
  assumes r: "reader_ok r" and ne: "pr_win r \<noteq> []" and it: "item_ok subs" and p: "pending r = enc subs @ w"
  shows "\<exists>r' w'. ReadNextItem expected n extra arrays r =
      Inr (r', snd (take_subs expected n extra w' subs (0, replicate arrays (0, None))),
           fst (take_subs expected n extra w' subs (0, replicate arrays (0, None))) = n)
    \<and> reader_ok r' \<and> pending r' = w \<and> w' = pr_win r' \<and> (pr_full r \<longrightarrow> pr_full r')"
proof -
  let ?B = PTOKAX_GLOBAL_BUFF_SIZE
  define r1 where "r1 = (if length (pr_win r) < 4 \<and> \<not> pr_full r then ReadNextFilePart r else r)"
  have len: "length (body subs) + 4 \<le> length (pending r)" using p by simp
  have B: "length (body subs) + 4 \<le> ?B" "?B < 2 ^ 32" using it by (simp_all add: item_ok_def PTOKAX_GLOBAL_BUFF_SIZE_def)
  have "4 \<le> length (pending r)" "4 \<le> ?B" using len B by linarith+
  note r1 = refill_for [OF r this r1_def]
  let ?n = "length (body subs) + 4"
  have un: "unat (word_of_nat ?n :: u32) = ?n" by (subst unat_of_nat) (use B in simp)
  have sz: "rd32 (pr_win r1) = word_of_nat ?n"
    using rd32_prefix [OF r1(3), of "pr_file r1"] r1(2) p by (simp add: pending_def enc_def)
  define r2 where "r2 = (if ?n > length (pr_win r1) \<and> \<not> pr_full r1 then ReadNextFilePart r1 else r1)"
  have "?n \<le> length (pending r1)" using len r1(2) by simp
  note r2' = refill_for [OF r1(1) this B(1) r2_def]
  have r2: "reader_ok r2" "pending r2 = pending r" "?n \<le> length (pr_win r2)" "pr_full r \<longrightarrow> pr_full r2"
    using r2' r1(2,4) by simp_all
  define w' where "w' = drop ?n (pr_win r2)"
  have "pr_win r2 @ pr_file r2 = enc subs @ w" using r2(2) p by (simp add: pending_def)
  then have "take ?n (pr_win r2 @ pr_file r2) = enc subs" by simp
  then have "take ?n (pr_win r2) = enc subs" using r2(3) by simp
  then have win: "pr_win r2 = enc subs @ w'" unfolding w'_def by (metis append_take_drop_id)
  then have w: "w = w' @ pr_file r2" using r2(2) p by (simp add: pending_def)
  have d: "drop 4 (pr_win r2) = body subs @ w'" by (simp add: win enc_def)
  have sub: "(word_of_nat ?n :: u32) - 4 = word_of_nat (length (body subs))" by simp
  have ub: "unat (word_of_nat (length (body subs)) :: u32) = length (body subs)" by (subst unat_of_nat) (use B in simp)
  have run: "read_subs (Suc (length (body subs))) expected n extra (word_of_nat (length (body subs))) (body subs @ w')
      (0, replicate arrays (0, None)) =
      Inr (w', fst (take_subs expected n extra w' subs (0, replicate arrays (0, None))),
           snd (take_subs expected n extra w' subs (0, replicate arrays (0, None))), True)"
    by (rule read_subs_run) (use it B body_count [of subs] in \<open>auto simp: item_ok_def\<close>)
  have "ReadNextItem expected n extra arrays r =
      Inr (r2\<lparr>pr_win := w'\<rparr>, snd (take_subs expected n extra w' subs (0, replicate arrays (0, None))),
           fst (take_subs expected n extra w' subs (0, replicate arrays (0, None))) = n)"
    unfolding ReadNextItem_def Let_def r1_def [symmetric] sz un r2_def [symmetric] sub ub d run
    using ne r1(3) r2(3) by simp
  moreover have "reader_ok (r2\<lparr>pr_win := w'\<rparr>)" using r2(1,3) win by (simp add: reader_ok_def)
  ultimately show ?thesis using w r2(4) by (intro exI [of _ "r2\<lparr>pr_win := w'\<rparr>"] exI [of _ w']) (simp add: pending_def)
qed

end
