(* ===== verification/PxbRound.thy ===== *)
theory PxbRound
  imports PxbFormat
begin

text \<open>
  Files of items as the managers use them: a header item, one item per record, written and read in a loop.
  Reading a file shorter than the window gives back exactly the items that were written.
\<close>

section \<open>Writing a file\<close>

definition data_length :: "(ident \<times> pxb_value) list \<Rightarrow> nat" where
  "data_length subs = sum_list (map (\<lambda>s. length (pxb_bytes (snd s))) subs)"

lemma length_body: "all_fit subs \<Longrightarrow> length (body subs) = data_length subs + 4 * length subs"
proof (induction subs)
  case (Cons s subs)
  then show ?case using write_sub_form(2) [of "snd s" "fst s"] by (cases s) (simp add: data_length_def)
qed (simp add: data_length_def)

text \<open>What is in the file and in the buffer.\<close>

definition written :: "pxb_writer \<Rightarrow> byte list" where "written w = pw_file w @ pw_buf w"

lemma WriteRemaining_written [simp]: "WriteRemaining w = written w"
  by (simp add: WriteRemaining_def written_def)

lemma WriteNextItem_run:
  assumes it: "item_ok subs" and len: "n = word_of_nat (data_length subs)" and b: "length (pw_buf w) \<le> PTOKAX_GLOBAL_BUFF_SIZE"
  shows "\<exists>w'. WriteNextItem n subs w = Inr w' \<and> written w' = written w @ enc subs \<and> length (pw_buf w') \<le> PTOKAX_GLOBAL_BUFF_SIZE"
proof -
  let ?B = PTOKAX_GLOBAL_BUFF_SIZE and ?l = "length (body subs) + 4"
  have bl: "length (body subs) = data_length subs + 4 * length subs" using it length_body by (simp add: item_ok_def)
  have l: "n + 4 + 4 * word_of_nat (length subs) = (word_of_nat ?l :: u32)" by (simp add: len bl)
  have B: "?l \<le> ?B" "?B < 2 ^ 32" using it by (simp_all add: item_ok_def PTOKAX_GLOBAL_BUFF_SIZE_def)
  have u: "unat (word_of_nat ?l :: u32) = ?l" by (subst unat_of_nat) (use B in simp)
  have e: "be32 (word_of_nat ?l) @ concat (map write_sub subs) = enc subs" by (simp add: enc_def body_def)
  show ?thesis
  proof (cases "?l > ?B - length (pw_buf w)")
    case True
    then show ?thesis
      unfolding WriteNextItem_def Let_def l u e using B b by (simp add: written_def)
  next
    case False
    then show ?thesis
      unfolding WriteNextItem_def Let_def l u e using B b by (simp add: written_def)
  qed
qed

text \<open>One item after the other; \<open>item\<close> gives the length argument and the sub-items of a record.\<close>

fun write_items :: "('a \<Rightarrow> (u32 \<times> (ident \<times> pxb_value) list) res) \<Rightarrow> 'a list \<Rightarrow> pxb_writer \<Rightarrow> pxb_writer res" where
  "write_items item [] w = Inr w"
| "write_items item (x # xs) w = rbind (item x) (\<lambda>(n, subs). rbind (WriteNextItem n subs w) (write_items item xs))"

lemma write_items_run:
  "\<forall>x \<in> set xs. item x = Inr (word_of_nat (data_length (subs x)), subs x) \<and> item_ok (subs x) \<Longrightarrow>
   length (pw_buf w) \<le> PTOKAX_GLOBAL_BUFF_SIZE \<Longrightarrow>
   \<exists>w'. write_items item xs w = Inr w' \<and> written w' = written w @ concat (map (\<lambda>x. enc (subs x)) xs)
     \<and> length (pw_buf w') \<le> PTOKAX_GLOBAL_BUFF_SIZE"
proof (induction xs arbitrary: w)
  case (Cons x xs)
  from Cons.prems WriteNextItem_run [of "subs x" _ w] obtain w1 where
    w1: "WriteNextItem (word_of_nat (data_length (subs x))) (subs x) w = Inr w1" "written w1 = written w @ enc (subs x)"
      "length (pw_buf w1) \<le> PTOKAX_GLOBAL_BUFF_SIZE" by auto
  from Cons.IH [OF _ w1(3)] Cons.prems(1) obtain w' where "write_items item xs w1 = Inr w'"
    "written w' = written w1 @ concat (map (\<lambda>x. enc (subs x)) xs)" "length (pw_buf w') \<le> PTOKAX_GLOBAL_BUFF_SIZE" by auto
  with w1 Cons.prems(1) show ?case by simp
qed simp

section \<open>Headers\<close>

definition ident_of :: "char \<Rightarrow> char \<Rightarrow> ident" where
  "ident_of c d = (byte_of c, byte_of d)"

text \<open>The identifiers of a text, two characters each, as \<open>memcpy\<close> lays them out.\<close>

fun idents :: "string \<Rightarrow> ident list" where
  "idents (c # d # cs) = ident_of c d # idents cs"
| "idents _ = []"

definition title_bytes :: "string \<Rightarrow> byte list" where
  "title_bytes t = map byte_of t"

definition header_item :: "string \<Rightarrow> (ident \<times> pxb_value) list" where
  "header_item sTitle = [(ident_of CHR ''F'' CHR ''I'', PXB_STRING (title_bytes sTitle)),
                         (ident_of CHR ''F'' CHR ''V'', PXB_FOUR_BYTES 1)]"

definition write_header :: "string \<Rightarrow> pxb_writer \<Rightarrow> pxb_writer res" where
  "write_header sTitle w = WriteNextItem (word_of_nat (length sTitle) + 4) (header_item sTitle) w"

text \<open>A header is right if it has the title, and a version that is not 0.\<close>

definition header_right :: "string \<Rightarrow> field list \<Rightarrow> bool res" where
  "header_right sTitle fs =
     (if field_len fs 0 \<noteq> length sTitle then Inr False
      else rbind (field_bytes (length sTitle) fs 0) (\<lambda>b.
        if b \<noteq> title_bytes sTitle then Inr False
        else rbind (field_bytes 4 fs 1) (\<lambda>v. Inr (\<not> rd32 v < 1))))"

section \<open>Reading a file\<close>

text \<open>The reading loop; every successful round consumes part of the file, so its length bounds the rounds.\<close>

fun read_all :: "nat \<Rightarrow> (pxb_reader \<Rightarrow> (pxb_reader \<times> field list \<times> bool) res) \<Rightarrow> (field list \<Rightarrow> 's \<Rightarrow> 's res)
    \<Rightarrow> pxb_reader \<Rightarrow> 's \<Rightarrow> 's res" where
  "read_all 0 next step r s = Inl LoopFuel"
| "read_all (Suc k) next step r s =
     rbind (next r) (\<lambda>(r', fs, bSuccess). if bSuccess then rbind (step fs s) (read_all k next step r') else Inr s)"

text \<open>A whole file: open, check the header, read the records.\<close>

definition load_file :: "string \<Rightarrow> nat \<Rightarrow> ident list \<Rightarrow> nat \<Rightarrow> nat \<Rightarrow> (field list \<Rightarrow> 's \<Rightarrow> 's res) \<Rightarrow> byte list \<Rightarrow> 's \<Rightarrow> 's res" where
  "load_file sTitle arrays expected n extra step file s =
     (case OpenFileRead file of
        None \<Rightarrow> Inr s
      | Some r \<Rightarrow>
          rbind (ReadNextItem (idents ''FIFV'') 2 0 arrays r) (\<lambda>(r1, fs, bSuccess).
            if \<not> bSuccess then Inr s
            else rbind (header_right sTitle fs) (\<lambda>right.
              if \<not> right then Inr s
              else read_all (Suc (length file)) (ReadNextItem expected n extra arrays) step r1 s)))"

section \<open>Sub-items in the expected order\<close>

fun fields_of :: "byte list \<Rightarrow> (ident \<times> pxb_value) list \<Rightarrow> field list" where
  "fields_of w [] = []"
| "fields_of w ((i, v) # subs) = (item_length v, Some (pxb_bytes v @ body subs @ w)) # fields_of w subs"

lemma length_fields_of [simp]: "length (fields_of w subs) = length subs"
  by (induction w subs rule: fields_of.induct) simp_all

lemma fields_of_nth:
  "i < length subs \<Longrightarrow> \<exists>tail. fields_of w subs ! i = (item_length (snd (subs ! i)), Some (pxb_bytes (snd (subs ! i)) @ tail))"
proof (induction w subs arbitrary: i rule: fields_of.induct)
  case (2 w j v subs)
  then show ?case by (cases i) auto
qed simp

lemma take_subs_in_order:
  "map fst subs = take (length subs) (drop act expected) \<Longrightarrow> act + length subs \<le> n \<Longrightarrow> n \<le> length expected \<Longrightarrow>
   act + length subs \<le> length fs \<Longrightarrow>
   take_subs expected n extra w subs (act, fs) = (act + length subs, take act fs @ fields_of w subs @ drop (act + length subs) fs)"
proof (induction subs arbitrary: act fs)
  case (Cons s subs)
  obtain i v where s: "s = (i, v)" by (cases s)
  have lt: "act < length expected" using Cons.prems by simp
  then have d: "drop act expected = expected ! act # drop (Suc act) expected" by (simp add: Cons_nth_drop_Suc)
  then have i: "expected ! act = i" and rest: "map fst subs = take (length subs) (drop (Suc act) expected)"
    using Cons.prems(1) s by simp_all
  let ?f = "(item_length v, Some (pxb_bytes v @ body subs @ w))"
  have "take_subs expected n extra w subs (Suc act, fs[act := ?f]) =
      (Suc act + length subs, take (Suc act) (fs[act := ?f]) @ fields_of w subs @ drop (Suc act + length subs) (fs[act := ?f]))"
    by (rule Cons.IH) (use Cons.prems rest in auto)
  moreover have "take (Suc act) (fs[act := ?f]) = take act fs @ [?f]" using Cons.prems(4) by (simp add: take_Suc_conv_app_nth)
  ultimately show ?case using Cons.prems(2) i s by (simp add: take_sub_def body_def)
qed simp

lemma take_subs_complete:
  assumes "map fst subs = take n expected" and "length subs = n" and "n \<le> length expected" and "n \<le> arrays"
  shows "take_subs expected n extra w subs (0, replicate arrays (0, None)) = (n, fields_of w subs @ replicate (arrays - n) (0, None))"
  using take_subs_in_order [of subs 0 expected n "replicate arrays (0, None)" extra w] assms by simp

section \<open>The round trip\<close>

lemma header_item_ok: "length t < 1000 \<Longrightarrow> item_ok (header_item t)"
  using write_sub_form(2) [of "PXB_STRING (title_bytes t)"] write_sub_form(2) [of "PXB_FOUR_BYTES 1"]
  by (simp add: header_item_def item_ok_def fits16_def title_bytes_def PTOKAX_GLOBAL_BUFF_SIZE_def ident_of_def)

lemma write_header_run:
  assumes "length t < 1000"
  shows "\<exists>w. write_header t OpenFileSave = Inr w \<and> written w = enc (header_item t) \<and> length (pw_buf w) \<le> PTOKAX_GLOBAL_BUFF_SIZE"
  using WriteNextItem_run [OF header_item_ok [OF assms], of "word_of_nat (length t) + 4" OpenFileSave]
  by (simp add: write_header_def header_item_def data_length_def title_bytes_def OpenFileSave_def written_def add.commute)

lemma header_read:
  assumes "length t < 1000" and "2 \<le> arrays"
  shows "take_subs (idents ''FIFV'') 2 0 w (header_item t) (0, replicate arrays (0, None)) =
      (2, fields_of w (header_item t) @ replicate (arrays - 2) (0, None))"
    and "header_right t (fields_of w (header_item t) @ fs) = Inr True"
proof -
  show "take_subs (idents ''FIFV'') 2 0 w (header_item t) (0, replicate arrays (0, None)) =
      (2, fields_of w (header_item t) @ replicate (arrays - 2) (0, None))"
    by (rule take_subs_complete) (use assms in \<open>simp_all add: header_item_def\<close>)
  have "unat (word_of_nat (length t) :: u16) = length t" by (subst unat_of_nat) (use assms in simp)
  moreover have "\<not> rd32 (be32 1) < 1" using rd32_be32 [of 1 "[]"] by simp
  ultimately show "header_right t (fields_of w (header_item t) @ fs) = Inr True"
    by (simp add: header_item_def header_right_def field_len_def field_bytes_def item_length_def title_bytes_def)
qed

text \<open>Reading a list of items that all fit the window.\<close>

lemma read_all_run:
  assumes "\<forall>x \<in> set xs. item_ok (subs x) \<and> (\<forall>w j s. fst (take_subs expected n extra w (subs x) (0, replicate arrays (0, None))) = n
       \<and> (j < N \<and> Inv j s \<longrightarrow> step (snd (take_subs expected n extra w (subs x) (0, replicate arrays (0, None)))) s = Inr (g x s) \<and> Inv (Suc j) (g x s)))"
    and "length xs < k" and "reader_ok r" and "pr_full r" and "pending r = concat (map (\<lambda>x. enc (subs x)) xs)" and "Inv m s" and "m + length xs \<le> N"
  shows "read_all k (ReadNextItem expected n extra arrays) step r s = Inr (foldl (\<lambda>s x. g x s) s xs)"
  using assms
proof (induction xs arbitrary: k r s m)
  case Nil
  then obtain k' where k: "k = Suc k'" by (cases k) auto
  from Nil have "pr_win r = []" by (simp add: pending_def)
  then show ?case by (simp add: k ReadNextItem_def Let_def)
next
  case (Cons x xs)
  then obtain k' where k: "k = Suc k'" "length xs < k'" by (cases k) auto
  from Cons.prems(3,4) have f: "pr_file r = []" by (simp add: reader_ok_def)
  have ne: "pr_win r \<noteq> []" using Cons.prems(5) f by (auto simp: pending_def enc_def be32_def)
  have it: "item_ok (subs x)" using Cons.prems(1) by simp
  have p: "pending r = enc (subs x) @ concat (map (\<lambda>x. enc (subs x)) xs)" using Cons.prems(5) by simp
  from ReadNextItem_run [OF Cons.prems(3) ne it p, of expected n extra arrays] obtain r' w' where
    n: "ReadNextItem expected n extra arrays r =
      Inr (r', snd (take_subs expected n extra w' (subs x) (0, replicate arrays (0, None))),
           fst (take_subs expected n extra w' (subs x) (0, replicate arrays (0, None))) = n)"
    and r': "reader_ok r'" "pending r' = concat (map (\<lambda>x. enc (subs x)) xs)" "pr_full r'" using Cons.prems(4) by blast
  have st: "fst (take_subs expected n extra w' (subs x) (0, replicate arrays (0, None))) = n"
    "step (snd (take_subs expected n extra w' (subs x) (0, replicate arrays (0, None)))) s = Inr (g x s)" "Inv (Suc m) (g x s)"
  proof -
    have x: "x \<in> set (x # xs)" and m: "m < N \<and> Inv m s" using Cons.prems(6,7) by simp_all
    show "fst (take_subs expected n extra w' (subs x) (0, replicate arrays (0, None))) = n" using bspec [OF Cons.prems(1) x] by blast
    show "step (snd (take_subs expected n extra w' (subs x) (0, replicate arrays (0, None)))) s = Inr (g x s)" "Inv (Suc m) (g x s)"
      using bspec [OF Cons.prems(1) x] m by blast+
  qed
  have "read_all k' (ReadNextItem expected n extra arrays) step r' (g x s) = Inr (foldl (\<lambda>s x. g x s) (g x s) xs)"
    by (rule Cons.IH) (use Cons.prems(1,7) k(2) r' st(3) in auto)
  with n st k(1) show ?case by simp
qed

lemma load_written:
  assumes t: "length t < 1000" and a: "2 \<le> arrays"
    and items: "\<forall>x \<in> set xs. item_ok (subs x) \<and> (\<forall>w j s. fst (take_subs expected n extra w (subs x) (0, replicate arrays (0, None))) = n
       \<and> (j < N \<and> Inv j s \<longrightarrow> step (snd (take_subs expected n extra w (subs x) (0, replicate arrays (0, None)))) s = Inr (g x s) \<and> Inv (Suc j) (g x s)))"
    and fl: "file = enc (header_item t) @ concat (map (\<lambda>x. enc (subs x)) xs)" and small: "length file < PTOKAX_GLOBAL_BUFF_SIZE"
    and s: "Inv 0 s" and N: "N = length xs"
  shows "load_file t arrays expected n extra step file s = Inr (foldl (\<lambda>s x. g x s) s xs)"
proof -
  define r where "r = \<lparr>pr_win = file, pr_file = [], pr_full = True\<rparr>"
  have ne: "file \<noteq> []" using fl by (simp add: enc_def be32_def)
  have o: "OpenFileRead file = Some r" using ne small by (simp add: OpenFileRead_def r_def)
  have rk: "reader_ok r" "pr_full r" "pr_win r \<noteq> []" "pending r = enc (header_item t) @ concat (map (\<lambda>x. enc (subs x)) xs)"
    using small ne fl by (simp_all add: reader_ok_def r_def pending_def)
  from ReadNextItem_run [OF rk(1,3) header_item_ok [OF t] rk(4), of "idents ''FIFV''" 2 0 arrays] obtain r1 w' where
    h: "ReadNextItem (idents ''FIFV'') 2 0 arrays r = Inr (r1, fields_of w' (header_item t) @ replicate (arrays - 2) (0, None), True)"
    and r1: "reader_ok r1" "pending r1 = concat (map (\<lambda>x. enc (subs x)) xs)" "pr_full r1"
    using rk(2) unfolding header_read(1) [OF t a] by auto
  have "length xs < Suc (length file)"
  proof -
    have "length xs \<le> length (concat (map (\<lambda>x. enc (subs x)) xs))" by (induction xs) (auto simp: enc_def)
    then show ?thesis using fl by simp
  qed
  from read_all_run [OF items this r1(1,3,2) s] N h header_read(2) [OF t a] o show ?thesis
    by (simp add: load_file_def)
qed

text \<open>A reader whose window is used up stops, although part of the file is unread.\<close>

lemma empty_window_stops:
  "\<exists>fs. ReadNextItem expected n extra arrays \<lparr>pr_win = [], pr_file = rest, pr_full = False\<rparr> =
     Inr (\<lparr>pr_win = [], pr_file = rest, pr_full = False\<rparr>, fs, False)"
  by (simp add: ReadNextItem_def)

end
