(* ===== verification/RegTable.thy ===== *)
theory RegTable
  imports UserIO
begin

text \<open>
  The table of registered users (\<open>core/hashRegManager.cpp\<close>): the registration objects, the multimap by nick hash,
  the list that owns the objects, and the operations on them.  The password hash (Skein, a third-party library)
  is an argument.
\<close>

section \<open>Registered users\<close>

record RegUser =
  m_tLastBadPass :: int
  reg_sNick :: string
  m_vPassData :: "byte list"
  reg_ui32Hash :: u32
  m_ui16Profile :: u16
  m_ui8BadPassCount :: byte
  m_bPassHash :: bool

type_synonym pass_hash = "byte list \<Rightarrow> byte list option"

text \<open>The bytes a password text is stored as.\<close>

definition pass_bytes :: "byte list \<Rightarrow> byte list" where
  "pass_bytes p = p @ [0]"

definition bytes_of :: "string \<Rightarrow> byte list" where
  "bytes_of s = map byte_of s"

definition CreateReg :: "string \<Rightarrow> byte list option \<Rightarrow> byte list option \<Rightarrow> u16 \<Rightarrow> RegUser option" where
  "CreateReg sRegNick sRegPassword ui8RegPassHash ui16RegProfile =
     (let pReg = \<lparr>m_tLastBadPass = 0, reg_sNick = sRegNick, m_vPassData = [], reg_ui32Hash = HashNick sRegNick,
                  m_ui16Profile = ui16RegProfile, m_ui8BadPassCount = 0, m_bPassHash = False\<rparr> in
      case ui8RegPassHash of
        Some h \<Rightarrow> Some (pReg\<lparr>m_vPassData := h, m_bPassHash := True\<rparr>)
      | None \<Rightarrow> (case sRegPassword of
                   Some p \<Rightarrow> Some (pReg\<lparr>m_vPassData := pass_bytes p\<rparr>)
                 | None \<Rightarrow> None))"

text \<open>The stored password is read as a C string when it is compared.\<close>

definition UpdatePassword :: "bool \<Rightarrow> pass_hash \<Rightarrow> byte list \<Rightarrow> RegUser \<Rightarrow> RegUser res" where
  "UpdatePassword HASH_PASSWORDS HashPassword sNewPass r =
     (if \<not> HASH_PASSWORDS then
        (if m_bPassHash r then Inr (r\<lparr>m_vPassData := pass_bytes sNewPass, m_bPassHash := False\<rparr>)
         else if 0 \<notin> set (m_vPassData r) then Inl BufferOverflow
         else if takeWhile (\<lambda>b. b \<noteq> 0) (m_vPassData r) \<noteq> sNewPass
           then Inr (r\<lparr>m_vPassData := pass_bytes sNewPass\<rparr>)
         else Inr r)
      else if m_bPassHash r then
        (case HashPassword sNewPass of
           None \<Rightarrow> Inr r
         | Some h \<Rightarrow> if length (m_vPassData r) < length h then Inl BufferOverflow
             else Inr (r\<lparr>m_vPassData := h @ drop (length h) (m_vPassData r)\<rparr>))
      else
        (case HashPassword sNewPass of
           None \<Rightarrow> Inr r
         | Some h \<Rightarrow> Inr (r\<lparr>m_vPassData := h, m_bPassHash := True\<rparr>)))"

section \<open>The manager\<close>

text \<open>
  \<open>m_Table\<close> is the multimap as its \<open>equal_range\<close> yields it per hash; a new entry goes in front of its equals.
  \<open>rg_file\<close> is the file on the disk, and \<open>rg_next\<close> bounds the addresses in use.
\<close>

record RegManager =
  rg_heap :: "addr \<Rightarrow> RegUser option"
  m_Table :: "u32 \<Rightarrow> addr list"
  m_RegList :: "addr list"
  m_ui8SaveCalls :: byte
  rg_file :: "byte list"
  rg_next :: addr

definition new_RegManager :: RegManager where
  "new_RegManager = \<lparr>rg_heap = \<lambda>_. None, m_Table = \<lambda>_. [], m_RegList = [], m_ui8SaveCalls = 0, rg_file = [], rg_next = 0\<rparr>"

definition Reg_Add2Table :: "addr \<Rightarrow> RegManager \<Rightarrow> RegManager res" where
  "Reg_Add2Table pReg R =
     rbind (deref (rg_heap R) pReg) (\<lambda>r.
       Inr (R\<lparr>m_Table := (m_Table R)(reg_ui32Hash r := pReg # m_Table R (reg_ui32Hash r))\<rparr>))"

definition Reg_Add :: "addr \<Rightarrow> RegManager \<Rightarrow> RegManager res" where
  "Reg_Add pReg R = rbind (Reg_Add2Table pReg R) (\<lambda>R1. Inr (R1\<lparr>m_RegList := m_RegList R1 @ [pReg]\<rparr>))"

text \<open>\<open>Add\<close> of an object that \<open>CreateReg\<close> has just allocated.\<close>

definition add_new_reg :: "RegUser \<Rightarrow> RegManager \<Rightarrow> (RegManager \<times> addr) res" where
  "add_new_reg r R =
     rbind (Reg_Add (rg_next R) (R\<lparr>rg_heap := (rg_heap R)(rg_next R \<mapsto> r), rg_next := Suc (rg_next R)\<rparr>))
       (\<lambda>R1. Inr (R1, rg_next R))"

definition Reg_RemFromTable :: "addr \<Rightarrow> RegManager \<Rightarrow> RegManager res" where
  "Reg_RemFromTable pReg R =
     rbind (deref (rg_heap R) pReg) (\<lambda>r.
       Inr (R\<lparr>m_Table := (m_Table R)(reg_ui32Hash r := remove1 pReg (m_Table R (reg_ui32Hash r)))\<rparr>))"

text \<open>Erasing the list entry deletes the object.\<close>

definition Reg_Rem :: "addr \<Rightarrow> RegManager \<Rightarrow> RegManager res" where
  "Reg_Rem pReg R =
     rbind (Reg_RemFromTable pReg R) (\<lambda>R1.
       if pReg \<in> set (m_RegList R1) then
         (case rg_heap R1 pReg of
            None \<Rightarrow> Inl (DoubleFree pReg)
          | Some _ \<Rightarrow> Inr (R1\<lparr>m_RegList := remove1 pReg (m_RegList R1), rg_heap := (rg_heap R1)(pReg := None)\<rparr>))
       else Inr R1)"

fun find_reg_loop :: "string \<Rightarrow> addr list \<Rightarrow> RegManager \<Rightarrow> addr option res" where
  "find_reg_loop sNick [] R = Inr None"
| "find_reg_loop sNick (a # as) R =
     rbind (deref (rg_heap R) a) (\<lambda>r. if iequals (reg_sNick r) sNick then Inr (Some a) else find_reg_loop sNick as R)"

definition Reg_Find :: "string \<Rightarrow> RegManager \<Rightarrow> addr option res" where
  "Reg_Find sNick R = find_reg_loop sNick (m_Table R (HashNick sNick)) R"

definition Reg_Find_user :: "User \<Rightarrow> RegManager \<Rightarrow> addr option res" where
  "Reg_Find_user u R = find_reg_loop (m_sNick u) (m_Table R (m_ui32NickHash u)) R"

definition Reg_Find_hash :: "u32 \<Rightarrow> string \<Rightarrow> RegManager \<Rightarrow> addr option res" where
  "Reg_Find_hash ui32Hash sNick R = find_reg_loop sNick (m_Table R ui32Hash) R"

text \<open>How often \<open>Save\<close> really writes; the flag says that this call does.\<close>

definition Reg_SaveCalls :: "bool \<Rightarrow> bool \<Rightarrow> RegManager \<Rightarrow> RegManager \<times> bool" where
  "Reg_SaveCalls bSaveOnChange bSaveOnTime R =
     (if bSaveOnTime \<and> m_ui8SaveCalls R = 0 then (R, False)
      else
        let R1 = R\<lparr>m_ui8SaveCalls := m_ui8SaveCalls R + 1\<rparr> in
        if bSaveOnChange \<and> m_ui8SaveCalls R1 < 100 then (R1, False)
        else (R1\<lparr>m_ui8SaveCalls := 0\<rparr>, True))"

fun hash_reg :: "pass_hash \<Rightarrow> RegUser \<Rightarrow> RegUser" where
  "hash_reg HashPassword r =
     (if m_bPassHash r then r
      else case HashPassword (butlast (m_vPassData r)) of
        None \<Rightarrow> r
      | Some h \<Rightarrow> r\<lparr>m_vPassData := h, m_bPassHash := True\<rparr>)"

definition HashPasswords :: "pass_hash \<Rightarrow> RegManager \<Rightarrow> RegManager" where
  "HashPasswords HashPassword R =
     R\<lparr>rg_heap := foldl (\<lambda>h a. hmod a (hash_reg HashPassword) h) (rg_heap R) (m_RegList R)\<rparr>"

section \<open>The invariant\<close>

definition reg_inv :: "RegManager \<Rightarrow> bool" where
  "reg_inv R \<longleftrightarrow> distinct (m_RegList R) \<and> set (m_RegList R) = dom (rg_heap R)
     \<and> (\<forall>h. distinct (m_Table R h) \<and> set (m_Table R h) = {a. \<exists>r. rg_heap R a = Some r \<and> reg_ui32Hash r = h})
     \<and> (\<forall>a r. rg_heap R a = Some r \<longrightarrow> reg_ui32Hash r = HashNick (reg_sNick r))
     \<and> (\<forall>a r. rg_heap R a = Some r \<longrightarrow> a < rg_next R)"

definition reg_unique :: "RegManager \<Rightarrow> bool" where
  "reg_unique R \<longleftrightarrow> (\<forall>a b r s. rg_heap R a = Some r \<longrightarrow> rg_heap R b = Some s \<longrightarrow> iequals (reg_sNick r) (reg_sNick s) \<longrightarrow> a = b)"

text \<open>The registry as a map: the registration of a nick, whatever the case of its letters.\<close>

definition registered :: "RegManager \<Rightarrow> string \<Rightarrow> addr \<Rightarrow> bool" where
  "registered R n a \<longleftrightarrow> (\<exists>r. rg_heap R a = Some r \<and> iequals (reg_sNick r) n)"

lemma reg_inv_new [simp]: "reg_inv new_RegManager" "reg_unique new_RegManager"
  by (auto simp: reg_inv_def reg_unique_def new_RegManager_def)

lemma registered_unique: "reg_unique R \<Longrightarrow> registered R n a \<Longrightarrow> registered R n b \<Longrightarrow> a = b"
  unfolding reg_unique_def registered_def using iequals_sym iequals_trans by blast

lemma find_reg_loop_run:
  "\<forall>a \<in> set as. rg_heap R a \<noteq> None \<Longrightarrow>
   \<exists>x. find_reg_loop n as R = Inr x
     \<and> (case x of None \<Rightarrow> \<forall>a \<in> set as. \<not> registered R n a | Some a \<Rightarrow> a \<in> set as \<and> registered R n a)"
proof (induction as)
  case (Cons a as)
  then obtain r where r: "rg_heap R a = Some r" by auto
  from Cons obtain x where x: "find_reg_loop n as R = Inr x"
    "case x of None \<Rightarrow> \<forall>a \<in> set as. \<not> registered R n a | Some a \<Rightarrow> a \<in> set as \<and> registered R n a" by auto
  show ?case
  proof (cases "iequals (reg_sNick r) n")
    case True
    with r show ?thesis by (auto simp: deref_def registered_def)
  next
    case False
    with r x show ?thesis by (intro exI [of _ x]) (auto simp: deref_def registered_def split: option.splits)
  qed
qed simp

lemma table_live: "reg_inv R \<Longrightarrow> a \<in> set (m_Table R h) \<Longrightarrow> rg_heap R a \<noteq> None"
  unfolding reg_inv_def by blast

lemma registered_in_table: "reg_inv R \<Longrightarrow> registered R n a \<Longrightarrow> a \<in> set (m_Table R (HashNick n))"
  unfolding reg_inv_def registered_def using HashNick_iequals by fastforce

lemma Reg_Find_run:
  assumes "reg_inv R"
  shows "\<exists>x. Reg_Find n R = Inr x
    \<and> (case x of None \<Rightarrow> \<forall>a. \<not> registered R n a | Some a \<Rightarrow> registered R n a)"
proof -
  from find_reg_loop_run [of "m_Table R (HashNick n)" R n] table_live [OF assms] obtain x where
    x: "Reg_Find n R = Inr x" and c: "case x of None \<Rightarrow> \<forall>a \<in> set (m_Table R (HashNick n)). \<not> registered R n a
      | Some a \<Rightarrow> a \<in> set (m_Table R (HashNick n)) \<and> registered R n a" by (auto simp: Reg_Find_def)
  from c registered_in_table [OF assms] have "case x of None \<Rightarrow> \<forall>a. \<not> registered R n a | Some a \<Rightarrow> registered R n a"
    by (cases x) auto
  with x show ?thesis by blast
qed

text \<open>With unique nicks the lookup is exactly the map.\<close>

lemma Reg_Find_iff:
  assumes "reg_inv R" and "reg_unique R"
  shows "Reg_Find n R = Inr (Some a) \<longleftrightarrow> registered R n a"
    and "Reg_Find n R = Inr None \<longleftrightarrow> (\<forall>a. \<not> registered R n a)"
proof -
  from Reg_Find_run [OF assms(1), of n] obtain x where
    x: "Reg_Find n R = Inr x" "case x of None \<Rightarrow> \<forall>a. \<not> registered R n a | Some a \<Rightarrow> registered R n a" by blast
  then show "Reg_Find n R = Inr (Some a) \<longleftrightarrow> registered R n a"
    using registered_unique [OF assms(2)] by (cases x) auto
  from x show "Reg_Find n R = Inr None \<longleftrightarrow> (\<forall>a. \<not> registered R n a)" by (cases x) auto
qed

lemma Reg_Find_variants:
  "Reg_Find_hash (HashNick n) n R = Reg_Find n R"
  "m_ui32NickHash u = HashNick (m_sNick u) \<Longrightarrow> Reg_Find_user u R = Reg_Find (m_sNick u) R"
  by (simp_all add: Reg_Find_hash_def Reg_Find_user_def Reg_Find_def)

section \<open>The operations keep the invariant\<close>

lemma add_new_reg_run:
  assumes inv: "reg_inv R" and h: "reg_ui32Hash r = HashNick (reg_sNick r)"
  shows "\<exists>R'. add_new_reg r R = Inr (R', rg_next R) \<and> reg_inv R' \<and> rg_heap R' = (rg_heap R)(rg_next R \<mapsto> r)
    \<and> m_RegList R' = m_RegList R @ [rg_next R] \<and> rg_heap R (rg_next R) = None"
proof -
  let ?a = "rg_next R"
  have new: "rg_heap R ?a = None" using inv unfolding reg_inv_def by (metis less_irrefl not_Some_eq)
  have tab: "?a \<notin> set (m_Table R k)" for k using inv new unfolding reg_inv_def by auto
  have lst: "?a \<notin> set (m_RegList R)" using inv new unfolding reg_inv_def by auto
  define R' where "R' = R\<lparr>rg_heap := (rg_heap R)(?a \<mapsto> r), rg_next := Suc ?a,
    m_Table := (m_Table R)(reg_ui32Hash r := ?a # m_Table R (reg_ui32Hash r)), m_RegList := m_RegList R @ [?a]\<rparr>"
  have "reg_inv R'"
    unfolding reg_inv_def
  proof (intro conjI allI impI)
    show "distinct (m_RegList R')" "set (m_RegList R') = dom (rg_heap R')"
      using inv lst by (auto simp: R'_def reg_inv_def)
    fix k
    show "distinct (m_Table R' k)" using inv tab [of k] by (auto simp: R'_def reg_inv_def)
    show "set (m_Table R' k) = {a. \<exists>s. rg_heap R' a = Some s \<and> reg_ui32Hash s = k}"
      using inv new by (auto simp: R'_def reg_inv_def)
    fix a s assume "rg_heap R' a = Some s"
    then show "reg_ui32Hash s = HashNick (reg_sNick s)" "a < rg_next R'"
      using inv h by (auto simp: R'_def reg_inv_def less_Suc_eq split: if_splits)
  qed
  then show ?thesis
    using new by (simp add: add_new_reg_def Reg_Add_def Reg_Add2Table_def deref_def R'_def)
qed

lemma add_new_reg_unique:
  assumes "reg_unique R" and "rg_heap R' = (rg_heap R)(rg_next R \<mapsto> r)" and "rg_heap R (rg_next R) = None"
    and "\<forall>a. \<not> registered R (reg_sNick r) a"
  shows "reg_unique R'"
  unfolding reg_unique_def assms(2)
  using assms(1,3,4) unfolding reg_unique_def registered_def by (auto split: if_splits dest: iequals_sym)

lemma Reg_Rem_run:
  assumes inv: "reg_inv R" and a: "rg_heap R a = Some r"
  shows "\<exists>R'. Reg_Rem a R = Inr R' \<and> reg_inv R' \<and> rg_heap R' = (rg_heap R)(a := None)
    \<and> m_RegList R' = remove1 a (m_RegList R)"
proof -
  define R' where "R' = R\<lparr>m_Table := (m_Table R)(reg_ui32Hash r := remove1 a (m_Table R (reg_ui32Hash r))),
    m_RegList := remove1 a (m_RegList R), rg_heap := (rg_heap R)(a := None)\<rparr>"
  have lst: "a \<in> set (m_RegList R)" using inv a unfolding reg_inv_def by auto
  have "reg_inv R'"
    unfolding reg_inv_def
  proof (intro conjI allI impI)
    show "distinct (m_RegList R')" "set (m_RegList R') = dom (rg_heap R')"
      using inv by (auto simp: R'_def reg_inv_def)
    fix k
    show "distinct (m_Table R' k)" using inv by (auto simp: R'_def reg_inv_def)
    show "set (m_Table R' k) = {a. \<exists>s. rg_heap R' a = Some s \<and> reg_ui32Hash s = k}"
      using inv a by (auto simp: R'_def reg_inv_def)
    fix b s assume "rg_heap R' b = Some s"
    then show "reg_ui32Hash s = HashNick (reg_sNick s)" "b < rg_next R'"
      using inv by (auto simp: R'_def reg_inv_def split: if_splits)
  qed
  then show ?thesis using a lst by (simp add: Reg_Rem_def Reg_RemFromTable_def deref_def R'_def)
qed

lemma Reg_Rem_unique: "reg_unique R \<Longrightarrow> rg_heap R' = (rg_heap R)(a := None) \<Longrightarrow> reg_unique R'"
  unfolding reg_unique_def by (auto split: if_splits)

text \<open>Changing a registration in place, its nick apart.\<close>

lemma reg_inv_update:
  assumes "reg_inv R" and "\<And>r. reg_sNick (f r) = reg_sNick r" and "\<And>r. reg_ui32Hash (f r) = reg_ui32Hash r"
  shows "reg_inv (R\<lparr>rg_heap := hmod a f (rg_heap R)\<rparr>)" and "reg_unique R \<Longrightarrow> reg_unique (R\<lparr>rg_heap := hmod a f (rg_heap R)\<rparr>)"
    and "registered (R\<lparr>rg_heap := hmod a f (rg_heap R)\<rparr>) n b = registered R n b"
proof -
  have e: "(\<exists>r. hmod a f (rg_heap R) x = Some r \<and> P (reg_ui32Hash r) (reg_sNick r)) \<longleftrightarrow> (\<exists>r. rg_heap R x = Some r \<and> P (reg_ui32Hash r) (reg_sNick r))" for x P
    using assms(2,3) by (auto simp: hmod_def)
  have s: "hmod a f (rg_heap R) x = Some r \<Longrightarrow> \<exists>r'. rg_heap R x = Some r' \<and> reg_sNick r = reg_sNick r' \<and> reg_ui32Hash r = reg_ui32Hash r'" for x r
    using assms(2,3) by (auto simp: hmod_def split: if_splits)
  show "reg_inv (R\<lparr>rg_heap := hmod a f (rg_heap R)\<rparr>)"
    unfolding reg_inv_def
  proof (intro conjI allI impI)
    show "distinct (m_RegList (R\<lparr>rg_heap := hmod a f (rg_heap R)\<rparr>))"
      "set (m_RegList (R\<lparr>rg_heap := hmod a f (rg_heap R)\<rparr>)) = dom (rg_heap (R\<lparr>rg_heap := hmod a f (rg_heap R)\<rparr>))"
      using assms(1) by (simp_all add: reg_inv_def)
    fix k
    show "distinct (m_Table (R\<lparr>rg_heap := hmod a f (rg_heap R)\<rparr>) k)" using assms(1) by (simp add: reg_inv_def)
    show "set (m_Table (R\<lparr>rg_heap := hmod a f (rg_heap R)\<rparr>) k) = {x. \<exists>r. rg_heap (R\<lparr>rg_heap := hmod a f (rg_heap R)\<rparr>) x = Some r \<and> reg_ui32Hash r = k}"
      using assms(1) e [of _ "\<lambda>h n. h = k"] by (simp add: reg_inv_def)
    fix x r assume "rg_heap (R\<lparr>rg_heap := hmod a f (rg_heap R)\<rparr>) x = Some r"
    with s obtain r' where "rg_heap R x = Some r'" "reg_sNick r = reg_sNick r'" "reg_ui32Hash r = reg_ui32Hash r'" by auto
    then show "reg_ui32Hash r = HashNick (reg_sNick r)" "x < rg_next (R\<lparr>rg_heap := hmod a f (rg_heap R)\<rparr>)"
      using assms(1) by (auto simp: reg_inv_def)
  qed
  show "reg_unique R \<Longrightarrow> reg_unique (R\<lparr>rg_heap := hmod a f (rg_heap R)\<rparr>)"
    unfolding reg_unique_def using s by simp metis
  show "registered (R\<lparr>rg_heap := hmod a f (rg_heap R)\<rparr>) n b = registered R n b"
    using e [of b "\<lambda>h m. iequals m n"] by (simp add: registered_def)
qed

lemma reg_inv_mapped:
  assumes "reg_inv R" and "\<And>r. reg_sNick (f r) = reg_sNick r" and "\<And>r. reg_ui32Hash (f r) = reg_ui32Hash r"
  shows "reg_inv (R\<lparr>rg_heap := \<lambda>x. map_option f (rg_heap R x)\<rparr>)"
  using assms by (simp add: reg_inv_def dom_def) (auto simp: map_option_case split: option.splits)

lemma reg_inv_calls [simp]:
  "reg_inv (R\<lparr>m_ui8SaveCalls := c\<rparr>) = reg_inv R" "reg_unique (R\<lparr>m_ui8SaveCalls := c\<rparr>) = reg_unique R"
  "registered (R\<lparr>m_ui8SaveCalls := c\<rparr>) = registered R"
  "reg_inv (R\<lparr>rg_file := d\<rparr>) = reg_inv R" "reg_unique (R\<lparr>rg_file := d\<rparr>) = reg_unique R"
  "registered (R\<lparr>rg_file := d\<rparr>) = registered R"
  by (simp_all add: reg_inv_def reg_unique_def registered_def fun_eq_iff)

lemma SaveCalls_only: "\<exists>c. fst (Reg_SaveCalls b t R) = R\<lparr>m_ui8SaveCalls := c\<rparr>"
  by (auto simp: Reg_SaveCalls_def Let_def intro: exI [of _ "m_ui8SaveCalls R"])

section \<open>A registry of two\<close>

definition demo_regs :: RegManager where
  "demo_regs = (case add_new_reg (the (CreateReg ''root'' (Some [1]) None 0)) new_RegManager of
     Inl e \<Rightarrow> new_RegManager
   | Inr (R, _) \<Rightarrow> (case add_new_reg (the (CreateReg ''alice'' (Some [2]) None 3)) R of Inl e \<Rightarrow> R | Inr (R', _) \<Rightarrow> R'))"

lemma demo_regs_form:
  "reg_inv demo_regs \<and> m_RegList demo_regs = [0, 1] \<and> rg_heap demo_regs =
     [0 \<mapsto> the (CreateReg ''root'' (Some [1]) None 0), 1 \<mapsto> the (CreateReg ''alice'' (Some [2]) None 3)]"
proof -
  let ?r = "the (CreateReg ''root'' (Some [1]) None 0)" and ?s = "the (CreateReg ''alice'' (Some [2]) None 3)"
  have h: "reg_ui32Hash ?r = HashNick (reg_sNick ?r)" "reg_ui32Hash ?s = HashNick (reg_sNick ?s)"
    by (simp_all add: CreateReg_def Let_def)
  define R1 where "R1 = new_RegManager\<lparr>rg_heap := [0 \<mapsto> ?r], rg_next := 1,
    m_Table := (\<lambda>_. [])(reg_ui32Hash ?r := [0]), m_RegList := [0]\<rparr>"
  have a1: "add_new_reg ?r new_RegManager = Inr (R1, 0)"
    by (simp add: add_new_reg_def new_RegManager_def Reg_Add_def Reg_Add2Table_def deref_def R1_def)
  from add_new_reg_run [OF reg_inv_new(1) h(1)] a1 have i1: "reg_inv R1" by auto
  from add_new_reg_run [OF i1 h(2)] obtain R2 where "add_new_reg ?s R1 = Inr (R2, rg_next R1)" "reg_inv R2"
    "rg_heap R2 = (rg_heap R1)(rg_next R1 \<mapsto> ?s)" "m_RegList R2 = m_RegList R1 @ [rg_next R1]" by blast
  with a1 show ?thesis by (simp add: demo_regs_def R1_def)
qed

end
