(* ===== verification/ProfileManager.thy ===== *)
theory ProfileManager
  imports RegTable
begin

text \<open>
  Profiles (\<open>core/ProfileManager.cpp\<close>): the table of named sets of rights, and the operations that renumber it
  together with the registered and the online users, who refer to a profile by its index.
\<close>

section \<open>State\<close>

record ProfileItem =
  p_sName :: string
  m_bPermissions :: "bool list"

text \<open>A cleared \<open>std::unique_ptr\<close> in the vector is \<open>None\<close>.\<close>

record ProfileManager =
  m_vpProfilesTable :: "ProfileItem option list"
  m_ui16ProfileCount :: u16

text \<open>What the operations touch; \<open>m_UserList\<close> is \<open>None\<close> while \<open>Users::m_Ptr\<close> is null.\<close>

record site =
  st_hub :: hub
  st_regs :: RegManager
  st_profiles :: ProfileManager
  m_UserList :: "addr list option"

text \<open>The rights the modelled code asks for, by their number in the enumeration.\<close>

definition HASKEYICON :: nat where "HASKEYICON = 0"
definition ALLOWEDOPCHAT :: nat where "ALLOWEDOPCHAT = 33"
definition NORECONNTIME :: nat where "NORECONNTIME = 55"

definition new_ProfileItem :: ProfileItem where
  "new_ProfileItem = \<lparr>p_sName = [], m_bPermissions = replicate 256 False\<rparr>"

text \<open>\<open>m_vpProfilesTable[i]->\<close>\<close>

definition profile_at :: "int \<Rightarrow> ProfileItem option list \<Rightarrow> ProfileItem res" where
  "profile_at i t =
     (if i < 0 \<or> int (length t) \<le> i then Inl BufferOverflow
      else case t ! nat i of None \<Rightarrow> Inl NullDeref | Some p \<Rightarrow> Inr p)"

section \<open>Rights\<close>

definition IsProfileAllowed :: "int \<Rightarrow> nat \<Rightarrow> ProfileManager \<Rightarrow> bool res" where
  "IsProfileAllowed i32Profile ui32Option P =
     (if i32Profile = -1 then Inr False
      else rbind (profile_at i32Profile (m_vpProfilesTable P)) (\<lambda>p.
        if ui32Option < length (m_bPermissions p) then Inr (m_bPermissions p ! ui32Option) else Inl BufferOverflow))"

definition IsAllowed :: "User \<Rightarrow> nat \<Rightarrow> ProfileManager \<Rightarrow> bool res" where
  "IsAllowed pUser ui32Option P = IsProfileAllowed (m_i32Profile pUser) ui32Option P"

definition ChangeProfileName :: "u16 \<Rightarrow> string \<Rightarrow> ProfileManager \<Rightarrow> ProfileManager res" where
  "ChangeProfileName ui16Profile sName P =
     rbind (profile_at (int (unat ui16Profile)) (m_vpProfilesTable P)) (\<lambda>p.
       Inr (P\<lparr>m_vpProfilesTable := (m_vpProfilesTable P)[unat ui16Profile := Some (p\<lparr>p_sName := sName\<rparr>)]\<rparr>))"

definition ChangeProfilePermission :: "u16 \<Rightarrow> nat \<Rightarrow> bool \<Rightarrow> ProfileManager \<Rightarrow> ProfileManager res" where
  "ChangeProfilePermission ui16Profile szId bValue P =
     rbind (profile_at (int (unat ui16Profile)) (m_vpProfilesTable P)) (\<lambda>p.
       if szId < length (m_bPermissions p)
       then Inr (P\<lparr>m_vpProfilesTable := (m_vpProfilesTable P)[unat ui16Profile :=
              Some (p\<lparr>m_bPermissions := (m_bPermissions p)[szId := bValue]\<rparr>)]\<rparr>)
       else Inl BufferOverflow)"

section \<open>Adding and looking up\<close>

text \<open>The index stands for the pointer \<open>CreateProfile\<close> returns.\<close>

definition CreateProfile :: "string \<Rightarrow> ProfileManager \<Rightarrow> (ProfileManager \<times> int) res" where
  "CreateProfile sName P =
     (let P1 = P\<lparr>m_ui16ProfileCount := m_ui16ProfileCount P + 1,
                 m_vpProfilesTable := m_vpProfilesTable P @ [Some (new_ProfileItem\<lparr>p_sName := sName\<rparr>)]\<rparr>;
          i = int (unat (m_ui16ProfileCount P1)) - 1
      in if i < 0 \<or> int (length (m_vpProfilesTable P1)) \<le> i then Inl BufferOverflow else Inr (P1, i))"

fun name_taken :: "string \<Rightarrow> ProfileItem option list \<Rightarrow> bool res" where
  "name_taken sName [] = Inr False"
| "name_taken sName (None # ps) = Inl NullDeref"
| "name_taken sName (Some p # ps) = (if iequals (p_sName p) sName then Inr True else name_taken sName ps)"

text \<open>\<open>char\<close> is signed: a byte from 128 on is negative.\<close>

fun bad_name :: "string \<Rightarrow> bool" where
  "bad_name [] = False"
| "bad_name (c # cs) = (if c = CHR ''|'' then True else if sint (byte_of c) < 33 then True else bad_name cs)"

definition AddProfile :: "string \<Rightarrow> ProfileManager \<Rightarrow> (ProfileManager \<times> int) res" where
  "AddProfile sName P =
     rbind (name_taken sName (m_vpProfilesTable P)) (\<lambda>taken.
       if taken then Inr (P, -1)
       else if bad_name sName then Inr (P, -2)
       else rbind (CreateProfile sName P) (\<lambda>(P1, _). Inr (P1, int (unat (m_ui16ProfileCount P1)) - 1)))"

function profile_index_loop :: "string \<Rightarrow> u16 \<Rightarrow> nat \<Rightarrow> ProfileItem option list \<Rightarrow> nat option res" where
  "profile_index_loop sName n i t =
     (if i < unat n then
        rbind (profile_at (int i) t) (\<lambda>p.
          if iequals (p_sName p) sName then Inr (Some i) else profile_index_loop sName n (Suc i) t)
      else Inr None)"
  by pat_completeness auto
termination by (relation "measure (\<lambda>(s, n, i, t). unat n - i)") auto

declare profile_index_loop.simps [simp del]

definition GetProfileIndex :: "string \<Rightarrow> ProfileManager \<Rightarrow> nat option res" where
  "GetProfileIndex sName P = profile_index_loop sName (m_ui16ProfileCount P) 0 (m_vpProfilesTable P)"

section \<open>Renumbering\<close>

text \<open>A loop over a list of objects that changes each of them.\<close>

fun each_cell :: "('n \<Rightarrow> 'n) \<Rightarrow> addr list \<Rightarrow> (addr \<Rightarrow> 'n option) \<Rightarrow> (addr \<Rightarrow> 'n option) res" where
  "each_cell f [] h = Inr h"
| "each_cell f (a # as) h = rbind (hwrite a f h) (each_cell f as)"

fun profile_in_use :: "u16 \<Rightarrow> addr list \<Rightarrow> (addr \<Rightarrow> RegUser option) \<Rightarrow> bool res" where
  "profile_in_use ui16Profile [] h = Inr False"
| "profile_in_use ui16Profile (a # as) h =
     rbind (deref h a) (\<lambda>r. if m_ui16Profile r = ui16Profile then Inr True else profile_in_use ui16Profile as h)"

definition renumber_users :: "(int \<Rightarrow> int) \<Rightarrow> site \<Rightarrow> site res" where
  "renumber_users f st =
     (case m_UserList st of
        None \<Rightarrow> Inl NullDeref
      | Some us \<Rightarrow> rbind (each_cell (\<lambda>u. u\<lparr>m_i32Profile := f (m_i32Profile u)\<rparr>) us (hm_users (hub_users (st_hub st))))
                    (\<lambda>h. Inr (st\<lparr>st_hub := (st_hub st)\<lparr>hub_users := (hub_users (st_hub st))\<lparr>hm_users := h\<rparr>\<rparr>\<rparr>)))"

definition renumber_regs :: "(u16 \<Rightarrow> u16) \<Rightarrow> site \<Rightarrow> site res" where
  "renumber_regs f st =
     rbind (each_cell (\<lambda>r. r\<lparr>m_ui16Profile := f (m_ui16Profile r)\<rparr>) (m_RegList (st_regs st)) (rg_heap (st_regs st)))
       (\<lambda>h. Inr (st\<lparr>st_regs := (st_regs st)\<lparr>rg_heap := h\<rparr>\<rparr>))"

text \<open>\<open>for (i; i < n; i++) t[i] = std::move(t[i + 1]);\<close>\<close>

function shift_profiles :: "nat \<Rightarrow> nat \<Rightarrow> 'a option list \<Rightarrow> 'a option list res" where
  "shift_profiles i n t =
     (if i < n then
        (if Suc i < length t then shift_profiles (Suc i) n (t[i := t ! Suc i, Suc i := None]) else Inl BufferOverflow)
      else Inr t)"
  by pat_completeness auto
termination by (relation "measure (\<lambda>(i, n, t). n - i)") auto

declare shift_profiles.simps [simp del]

definition reset_at :: "nat \<Rightarrow> 'a option list \<Rightarrow> 'a option list res" where
  "reset_at i t = (if i < length t then Inr (t[i := None]) else Inl BufferOverflow)"

text \<open>The table part of \<open>RemoveProfile\<close>.\<close>

definition drop_profile :: "u16 \<Rightarrow> ProfileManager \<Rightarrow> ProfileManager res" where
  "drop_profile ui16Profile P =
     (let n = m_ui16ProfileCount P - 1 in
      rbind (reset_at (unat ui16Profile) (m_vpProfilesTable P)) (\<lambda>t1.
      rbind (shift_profiles (unat ui16Profile) (unat n) t1) (\<lambda>t2.
      rbind (reset_at (unat n) t2) (\<lambda>t3. Inr (P\<lparr>m_vpProfilesTable := t3, m_ui16ProfileCount := n\<rparr>)))))"

definition RemoveProfile :: "bool \<Rightarrow> u16 \<Rightarrow> site \<Rightarrow> (site \<times> bool) res" where
  "RemoveProfile bServerRunning ui16Profile st =
     rbind (profile_in_use ui16Profile (m_RegList (st_regs st)) (rg_heap (st_regs st))) (\<lambda>used.
       if used then Inr (st, False)
       else
         rbind (drop_profile ui16Profile (st_profiles st)) (\<lambda>P.
         rbind (if bServerRunning
                then renumber_users (\<lambda>i. if i > int (unat ui16Profile) then i - 1 else i) (st\<lparr>st_profiles := P\<rparr>)
                else Inr (st\<lparr>st_profiles := P\<rparr>)) (\<lambda>st1.
         rbind (renumber_regs (\<lambda>i. if i > ui16Profile then i - 1 else i) st1) (\<lambda>st2. Inr (st2, True)))))"

fun remove_by_name :: "bool \<Rightarrow> nat list \<Rightarrow> string \<Rightarrow> site \<Rightarrow> (site \<times> int) res" where
  "remove_by_name running [] sName st = Inr (st, 0)"
| "remove_by_name running (i # is) sName st =
     rbind (profile_at (int i) (m_vpProfilesTable (st_profiles st))) (\<lambda>p.
       if iequals (p_sName p) sName
       then rbind (RemoveProfile running (word_of_nat i) st) (\<lambda>(st1, ok). Inr (st1, if ok then 1 else -1))
       else remove_by_name running is sName st)"

definition RemoveProfileByName :: "bool \<Rightarrow> string \<Rightarrow> site \<Rightarrow> (site \<times> int) res" where
  "RemoveProfileByName running sName st =
     remove_by_name running [0 ..< unat (m_ui16ProfileCount (st_profiles st))] sName st"

definition swap_profiles :: "int \<Rightarrow> int \<Rightarrow> ProfileManager \<Rightarrow> ProfileManager res" where
  "swap_profiles i j P =
     (let t = m_vpProfilesTable P; n = int (length t) in
      if i < 0 \<or> n \<le> i \<or> j < 0 \<or> n \<le> j then Inl BufferOverflow
      else Inr (P\<lparr>m_vpProfilesTable := t[nat i := t ! nat j, nat j := t ! nat i]\<rparr>))"

text \<open>Comparisons and increments as the promotions to \<open>int\<close> make them.\<close>

definition MoveProfileDown :: "u16 \<Rightarrow> site \<Rightarrow> site res" where
  "MoveProfileDown ui16Profile st =
     (let p = int (unat ui16Profile) in
      rbind (swap_profiles p (p + 1) (st_profiles st)) (\<lambda>P.
      rbind (renumber_regs (\<lambda>i. if i = ui16Profile then i + 1 else if int (unat i) = p + 1 then i - 1 else i)
               (st\<lparr>st_profiles := P\<rparr>)) (\<lambda>st1.
        if m_UserList st1 = None then Inr st1
        else renumber_users (\<lambda>i. if i = p then i + 1 else if i = p + 1 then i - 1 else i) st1)))"

definition MoveProfileUp :: "u16 \<Rightarrow> site \<Rightarrow> site res" where
  "MoveProfileUp ui16Profile st =
     (let p = int (unat ui16Profile) in
      rbind (swap_profiles (p - 1) p (st_profiles st)) (\<lambda>P.
      rbind (renumber_regs (\<lambda>i. if i = ui16Profile then i - 1 else if int (unat i) = p - 1 then i + 1 else i)
               (st\<lparr>st_profiles := P\<rparr>)) (\<lambda>st1.
        if m_UserList st1 = None then Inr st1
        else renumber_users (\<lambda>i. if i = p then i - 1 else if i = p - 1 then i + 1 else i) st1)))"

section \<open>The profiles of a new hub\<close>

definition default_names :: "(string \<times> string) list" where
  "default_names =
     [(''Master'',   ''10011111111111111111111111111111111111111111101000111111''),
      (''Operator'', ''10011111101111111110011000111111111000000011101000111111''),
      (''VIP'',      ''00000000000000011110000000000001100000000000000000000111''),
      (''Reg'',      ''00000000000000000000000000000001100000000000000000000000'')]"

definition rights_of_text :: "string \<Rightarrow> bool list" where
  "rights_of_text s = map (\<lambda>c. c = CHR ''1'') s @ replicate (256 - length s) False"

definition default_ProfileManager :: ProfileManager where
  "default_ProfileManager =
     \<lparr>m_vpProfilesTable = map (\<lambda>(n, r). Some \<lparr>p_sName = n, m_bPermissions = rights_of_text r\<rparr>) default_names,
      m_ui16ProfileCount = word_of_nat (length default_names)\<rparr>"

end
