(* ===== verification/ProfileRights.thy ===== *)
theory ProfileRights
  imports ProfileManager UserClose
begin

text \<open>
  Renumbering keeps everybody's rights: removing a profile nobody is registered with and moving a profile up or
  down leave every registered and every online user with the rights they had.  What removal leaves behind in the
  table, and what adding a profile does.
\<close>

section \<open>The invariant of the table\<close>

definition pm_ok :: "ProfileManager \<Rightarrow> bool" where
  "pm_ok P \<longleftrightarrow> (\<forall>x \<in> set (m_vpProfilesTable P). \<exists>p. x = Some p \<and> length (m_bPermissions p) = 256)
     \<and> unat (m_ui16ProfileCount P) = length (m_vpProfilesTable P)"

definition site_ok :: "site \<Rightarrow> bool" where
  "site_ok st \<longleftrightarrow> reg_inv (st_regs st)
     \<and> (\<forall>us. m_UserList st = Some us \<longrightarrow> distinct us \<and> set us \<subseteq> dom (hm_users (hub_users (st_hub st))))"

lemma pm_ok_at: "pm_ok P \<Longrightarrow> i < length (m_vpProfilesTable P) \<Longrightarrow>
    \<exists>p. m_vpProfilesTable P ! i = Some p \<and> length (m_bPermissions p) = 256"
  unfolding pm_ok_def by (meson nth_mem)

lemma profile_at_nat: "i < length t \<Longrightarrow> profile_at (int i) t = (case t ! i of None \<Rightarrow> Inl NullDeref | Some p \<Rightarrow> Inr p)"
  by (simp add: profile_at_def)

section \<open>Renumberings\<close>

text \<open>
  An operation on the table and the new number of each entry: the law is that the entry is found at its new number.
\<close>

locale renumbering =
  fixes f :: "nat \<Rightarrow> nat" and move :: "ProfileItem option list \<Rightarrow> ProfileItem option list" and kept :: "nat \<Rightarrow> nat \<Rightarrow> bool"
  assumes moved: "i < length t \<Longrightarrow> kept (length t) i \<Longrightarrow> f i < length (move t) \<and> move t ! f i = t ! i"
begin

lemma same_profile: "i < length t \<Longrightarrow> kept (length t) i \<Longrightarrow> profile_at (int (f i)) (move t) = profile_at (int i) t"
  using moved [of i t] by (simp add: profile_at_nat)

lemma same_rights:
  assumes "i < length (m_vpProfilesTable P)" and "kept (length (m_vpProfilesTable P)) i"
    and "m_vpProfilesTable P' = move (m_vpProfilesTable P)"
  shows "IsProfileAllowed (int (f i)) opt P' = IsProfileAllowed (int i) opt P"
  using same_profile [OF assms(1,2)] assms(3) by (simp add: IsProfileAllowed_def)

end

definition drop_number :: "nat \<Rightarrow> nat \<Rightarrow> nat" where "drop_number p i = (if i > p then i - 1 else i)"
definition drop_entry :: "nat \<Rightarrow> 'a option list \<Rightarrow> 'a option list" where "drop_entry p t = take p t @ drop (Suc p) t @ [None]"
definition swap_number :: "nat \<Rightarrow> nat \<Rightarrow> nat" where "swap_number p i = (if i = p then i + 1 else if i = p + 1 then i - 1 else i)"
definition swap_entry :: "nat \<Rightarrow> 'a list \<Rightarrow> 'a list" where "swap_entry p t = t[p := t ! Suc p, Suc p := t ! p]"

lemma drop_number_int: "int (drop_number p k) = (if int k > int p then int k - 1 else int k)"
  by (auto simp: drop_number_def)

lemma swap_number_int: "int (swap_number p k) = (if int k = int p then int k + 1 else if int k = int p + 1 then int k - 1 else int k)"
  by (auto simp: swap_number_def)

lemma drop_word:
  fixes w p :: "'a::len word"
  shows "int (unat (if w > p then w - 1 else w)) = (if int (unat w) > int (unat p) then int (unat w) - 1 else int (unat w))"
proof (cases "w > p")
  case True
  then have "w \<noteq> 0" by auto
  moreover from True have "unat w > unat p" by (simp add: word_less_nat_alt)
  ultimately show ?thesis using True unat_minus_one [of w] by (simp add: of_nat_diff del: of_nat_unat)
qed (simp add: word_less_nat_alt del: of_nat_unat)

interpretation removal: renumbering "drop_number p" "drop_entry p" "\<lambda>n i. p < n \<and> i \<noteq> p" for p
  by unfold_locales (auto simp: drop_number_def drop_entry_def nth_append)

interpretation exchange: renumbering "swap_number p" "swap_entry p" "\<lambda>n i. Suc p < n" for p
  by unfold_locales (auto simp: swap_number_def swap_entry_def nth_list_update)

text \<open>The loop of \<open>RemoveProfile\<close> is the removal.\<close>

lemma shift_profiles_run:
  "i \<le> n \<Longrightarrow> n < length t \<Longrightarrow> t ! i = None \<Longrightarrow>
   shift_profiles i n t = Inr (take i t @ take (n - i) (drop (Suc i) t) @ [None] @ drop (Suc n) t)"
proof (induction i n t rule: shift_profiles.induct)
  case (1 i n t)
  show ?case
  proof (cases "i < n")
    case True
    let ?t = "t[i := t ! Suc i, Suc i := None]"
    from True 1(3) have si: "Suc i < length t" by simp
    have "shift_profiles (Suc i) n ?t =
        Inr (take (Suc i) ?t @ take (n - Suc i) (drop (Suc (Suc i)) ?t) @ [None] @ drop (Suc n) ?t)"
      by (rule 1(1)) (use True si 1 in auto)
    moreover have "take (Suc i) ?t = take i t @ [t ! Suc i]"
      using si by (simp add: take_Suc_conv_app_nth)
    moreover have "take (n - i) (drop (Suc i) t) = t ! Suc i # take (n - Suc i) (drop (Suc (Suc i)) t)"
    proof -
      have "n - i = Suc (n - Suc i)" using True by simp
      then show ?thesis using si by (simp add: Cons_nth_drop_Suc [symmetric])
    qed
    ultimately show ?thesis using True si by (simp add: shift_profiles.simps [of i n t])
  next
    case False
    with 1(2,3,4) have "i = n" "t = take i t @ None # drop (Suc i) t" using id_take_nth_drop [of i t] by auto
    moreover have "shift_profiles i n t = Inr t" using False by (subst shift_profiles.simps) simp
    ultimately show ?thesis by simp
  qed
qed

lemma drop_profile_run:
  assumes ok: "pm_ok P" and p: "p < m_ui16ProfileCount P"
  shows "drop_profile p P =
    Inr (P\<lparr>m_vpProfilesTable := drop_entry (unat p) (m_vpProfilesTable P), m_ui16ProfileCount := m_ui16ProfileCount P - 1\<rparr>)"
proof -
  let ?t = "m_vpProfilesTable P" and ?p = "unat p"
  have len: "length ?t = unat (m_ui16ProfileCount P)" using ok by (simp add: pm_ok_def)
  have pl: "?p < length ?t" using p len by (simp add: word_less_nat_alt)
  have n: "unat (m_ui16ProfileCount P - 1) = length ?t - 1"
    unfolding len by (rule unat_minus_one) (use p in auto)
  have "shift_profiles ?p (length ?t - 1) (?t[?p := None]) =
      Inr (take ?p (?t[?p := None]) @ take (length ?t - 1 - ?p) (drop (Suc ?p) (?t[?p := None])) @ [None]
        @ drop (Suc (length ?t - 1)) (?t[?p := None]))"
    by (rule shift_profiles_run) (use pl in auto)
  also have "\<dots> = Inr (drop_entry ?p ?t)" using pl by (simp add: drop_entry_def)
  finally have s: "shift_profiles ?p (length ?t - 1) (?t[?p := None]) = Inr (drop_entry ?p ?t)" .
  have "reset_at (length ?t - 1) (drop_entry ?p ?t) = Inr (drop_entry ?p ?t)"
  proof -
    have l: "length (drop_entry ?p ?t) = length ?t" "length ?t - 1 < length ?t" using pl by (auto simp: drop_entry_def)
    have "drop_entry ?p ?t ! (length ?t - 1) = None" using pl by (auto simp: drop_entry_def nth_append)
    then show ?thesis using l list_update_same_conv [of "length ?t - 1" "drop_entry ?p ?t" None] by (simp add: reset_at_def)
  qed
  moreover have "reset_at ?p ?t = Inr (?t[?p := None])" using pl by (simp add: reset_at_def)
  ultimately show ?thesis using s n by (simp add: drop_profile_def Let_def)
qed

section \<open>Loops over the users\<close>

definition mapped :: "('n \<Rightarrow> 'n) \<Rightarrow> addr list \<Rightarrow> (addr \<Rightarrow> 'n option) \<Rightarrow> addr \<Rightarrow> 'n option" where
  "mapped f as h = (\<lambda>x. if x \<in> set as then map_option f (h x) else h x)"

lemma each_cell_run:
  "distinct as \<Longrightarrow> set as \<subseteq> dom h \<Longrightarrow> each_cell f as h = Inr (mapped f as h)"
proof (induction as arbitrary: h)
  case Nil
  then show ?case by (simp add: mapped_def)
next
  case (Cons a as)
  then obtain n where n: "h a = Some n" by auto
  have "each_cell f as (hmod a f h) = Inr (mapped f as (hmod a f h))"
    by (rule Cons.IH) (use Cons.prems in auto)
  moreover have "mapped f as (hmod a f h) = mapped f (a # as) h" using Cons.prems(1) by (auto simp: mapped_def hmod_def)
  ultimately show ?case using n by (simp add: hwrite_live)
qed

lemma profile_in_use_run:
  "set as \<subseteq> dom h \<Longrightarrow> profile_in_use p as h = Inr (\<exists>a \<in> set as. \<exists>r. h a = Some r \<and> m_ui16Profile r = p)"
proof (induction as)
  case (Cons a as)
  then obtain r where "h a = Some r" by auto
  with Cons show ?case by (simp add: deref_def)
qed simp

lemma renumber_regs_run:
  assumes "site_ok st"
  shows "renumber_regs g st = Inr (st\<lparr>st_regs := (st_regs st)\<lparr>rg_heap := \<lambda>x. map_option (\<lambda>r. r\<lparr>m_ui16Profile := g (m_ui16Profile r)\<rparr>) (rg_heap (st_regs st) x)\<rparr>\<rparr>)"
proof -
  let ?f = "\<lambda>r. r\<lparr>m_ui16Profile := g (m_ui16Profile r)\<rparr>" and ?R = "st_regs st"
  from assms have d: "distinct (m_RegList ?R)" "set (m_RegList ?R) = dom (rg_heap ?R)" by (simp_all add: site_ok_def reg_inv_def)
  then have "each_cell ?f (m_RegList ?R) (rg_heap ?R) = Inr (mapped ?f (m_RegList ?R) (rg_heap ?R))" by (simp add: each_cell_run)
  moreover have "mapped ?f (m_RegList ?R) (rg_heap ?R) = (\<lambda>x. map_option ?f (rg_heap ?R x))"
    by (rule ext) (use d in \<open>auto simp: mapped_def\<close>)
  ultimately show ?thesis by (simp add: renumber_regs_def)
qed

lemma renumber_users_run:
  assumes "site_ok st" and "m_UserList st = Some us"
  shows "renumber_users f st = Inr (st\<lparr>st_hub := (st_hub st)\<lparr>hub_users := (hub_users (st_hub st))\<lparr>hm_users :=
    mapped (\<lambda>u. u\<lparr>m_i32Profile := f (m_i32Profile u)\<rparr>) us (hm_users (hub_users (st_hub st)))\<rparr>\<rparr>\<rparr>)"
  using assms each_cell_run [of us "hm_users (hub_users (st_hub st))"] by (simp add: renumber_users_def site_ok_def)

section \<open>Rights are kept\<close>

text \<open>Everybody whose profile number satisfies \<open>ok\<close> has the same rights before and after.\<close>

definition keeps_rights :: "(int \<Rightarrow> bool) \<Rightarrow> site \<Rightarrow> site \<Rightarrow> bool" where
  "keeps_rights ok st st' \<longleftrightarrow>
     (\<forall>a r. rg_heap (st_regs st) a = Some r \<longrightarrow> ok (int (unat (m_ui16Profile r))) \<longrightarrow>
        (\<exists>r'. rg_heap (st_regs st') a = Some r' \<and> reg_sNick r' = reg_sNick r
          \<and> (\<forall>opt. IsProfileAllowed (int (unat (m_ui16Profile r'))) opt (st_profiles st')
               = IsProfileAllowed (int (unat (m_ui16Profile r))) opt (st_profiles st))))
     \<and> (\<forall>us a u. m_UserList st = Some us \<longrightarrow> a \<in> set us \<longrightarrow> hm_users (hub_users (st_hub st)) a = Some u \<longrightarrow> ok (m_i32Profile u) \<longrightarrow>
        (\<exists>u'. hm_users (hub_users (st_hub st')) a = Some u'
          \<and> (\<forall>opt. IsAllowed u' opt (st_profiles st') = IsAllowed u opt (st_profiles st))))"

lemma keeps_rightsI:
  assumes P: "\<And>i opt. ok i \<Longrightarrow> IsProfileAllowed (f i) opt (st_profiles st') = IsProfileAllowed i opt (st_profiles st)"
    and g: "\<And>w. ok (int (unat w)) \<Longrightarrow> int (unat (g w)) = f (int (unat w))"
    and R: "rg_heap (st_regs st') = (\<lambda>x. map_option (\<lambda>r. r\<lparr>m_ui16Profile := g (m_ui16Profile r)\<rparr>) (rg_heap (st_regs st) x))"
    and U: "\<And>us. m_UserList st = Some us \<Longrightarrow> hm_users (hub_users (st_hub st')) =
      mapped (\<lambda>u. u\<lparr>m_i32Profile := f (m_i32Profile u)\<rparr>) us (hm_users (hub_users (st_hub st)))"
  shows "keeps_rights ok st st'"
  unfolding keeps_rights_def
proof (intro conjI allI impI)
  fix a r assume "rg_heap (st_regs st) a = Some r" "ok (int (unat (m_ui16Profile r)))"
  then show "\<exists>r'. rg_heap (st_regs st') a = Some r' \<and> reg_sNick r' = reg_sNick r
      \<and> (\<forall>opt. IsProfileAllowed (int (unat (m_ui16Profile r'))) opt (st_profiles st')
               = IsProfileAllowed (int (unat (m_ui16Profile r))) opt (st_profiles st))"
    using P g R by simp
next
  fix us a u assume "m_UserList st = Some us" "a \<in> set us" "hm_users (hub_users (st_hub st)) a = Some u" "ok (m_i32Profile u)"
  then show "\<exists>u'. hm_users (hub_users (st_hub st')) a = Some u'
      \<and> (\<forall>opt. IsAllowed u' opt (st_profiles st') = IsAllowed u opt (st_profiles st))"
    using P U by (simp add: mapped_def IsAllowed_def)
qed

text \<open>The profile numbers in use: none, or an entry of the table.\<close>

definition numbered :: "ProfileManager \<Rightarrow> int \<Rightarrow> bool" where
  "numbered P i \<longleftrightarrow> i = -1 \<or> (0 \<le> i \<and> i < int (unat (m_ui16ProfileCount P)))"

lemma no_profile [simp]: "IsProfileAllowed (-1) opt P = Inr False"
  by (simp add: IsProfileAllowed_def)


text \<open>A renumbering of the table's entries keeps the rights behind the profile numbers users carry.\<close>

lemma numberedE:
  assumes "numbered P i" and "pm_ok P"
  obtains "i = -1" | k where "i = int k" and "k < length (m_vpProfilesTable P)"
proof (cases "i = -1")
  case False
  with assms(1) obtain k where "i = int k" "k < unat (m_ui16ProfileCount P)"
    unfolding numbered_def using zero_le_imp_eq_int by force
  with assms(2) that(2) show ?thesis by (simp add: pm_ok_def)
qed (rule that(1))

lemma RemoveProfile_run:
  assumes ok: "site_ok st" and P: "pm_ok (st_profiles st)" and U: "m_UserList st = Some us"
    and p: "p < m_ui16ProfileCount (st_profiles st)"
  shows "\<exists>st' removed. RemoveProfile True p st = Inr (st', removed)
    \<and> (removed \<longleftrightarrow> \<not> (\<exists>a r. rg_heap (st_regs st) a = Some r \<and> m_ui16Profile r = p))
    \<and> (if removed then keeps_rights (\<lambda>i. numbered (st_profiles st) i \<and> i \<noteq> int (unat p)) st st'
         \<and> m_ui16ProfileCount (st_profiles st') = m_ui16ProfileCount (st_profiles st) - 1
         \<and> m_vpProfilesTable (st_profiles st') = drop_entry (unat p) (m_vpProfilesTable (st_profiles st))
       else st' = st)"
proof -
  let ?R = "st_regs st" and ?P = "st_profiles st" and ?p = "unat p"
  let ?f = "\<lambda>i. if i > int ?p then i - 1 else i" and ?g = "\<lambda>i. if i > p then i - 1 else i"
  have regs: "set (m_RegList ?R) = dom (rg_heap ?R)" using ok by (simp add: site_ok_def reg_inv_def)
  have used: "profile_in_use p (m_RegList ?R) (rg_heap ?R) = Inr (\<exists>a r. rg_heap ?R a = Some r \<and> m_ui16Profile r = p)"
    (is "_ = Inr ?used") using profile_in_use_run [of "m_RegList ?R" "rg_heap ?R" p] regs by auto
  show ?thesis
  proof (cases ?used)
    case True
    with used have "RemoveProfile True p st = Inr (st, False)" by (simp add: RemoveProfile_def)
    with True show ?thesis by (intro exI [of _ st] exI [of _ False]) simp
  next
    case False
    define P' where "P' = ?P\<lparr>m_vpProfilesTable := drop_entry ?p (m_vpProfilesTable ?P), m_ui16ProfileCount := m_ui16ProfileCount ?P - 1\<rparr>"
    from drop_profile_run [OF P p] have d: "drop_profile p ?P = Inr P'" by (simp add: P'_def)
    have ok1: "site_ok (st\<lparr>st_profiles := P'\<rparr>)" "m_UserList (st\<lparr>st_profiles := P'\<rparr>) = Some us" using ok U by (simp_all add: site_ok_def)
    note u = renumber_users_run [OF ok1, of ?f]
    let ?h = "mapped (\<lambda>u. u\<lparr>m_i32Profile := ?f (m_i32Profile u)\<rparr>) us (hm_users (hub_users (st_hub st)))"
    define st1 where "st1 = st\<lparr>st_profiles := P', st_hub := (st_hub st)\<lparr>hub_users := (hub_users (st_hub st))\<lparr>hm_users := ?h\<rparr>\<rparr>\<rparr>"
    have u1: "renumber_users ?f (st\<lparr>st_profiles := P'\<rparr>) = Inr st1" using u by (simp add: st1_def)
    have ok2: "site_ok st1" using ok U by (auto simp: site_ok_def st1_def mapped_def dom_def)
    define st2 where "st2 = st1\<lparr>st_regs := (st_regs st1)\<lparr>rg_heap := \<lambda>x. map_option (\<lambda>r. r\<lparr>m_ui16Profile := ?g (m_ui16Profile r)\<rparr>) (rg_heap (st_regs st1) x)\<rparr>\<rparr>"
    have r: "renumber_regs ?g st1 = Inr st2" unfolding st2_def by (rule renumber_regs_run [OF ok2])
    have run: "RemoveProfile True p st = Inr (st2, True)" using used False d u1 r by (simp add: RemoveProfile_def)
    have "keeps_rights (\<lambda>i. numbered ?P i \<and> i \<noteq> int ?p) st st2"
    proof (rule keeps_rightsI [of _ ?f _ _ ?g])
      fix i opt assume "numbered ?P i \<and> i \<noteq> int ?p"
      then have n: "numbered ?P i" "i \<noteq> int ?p" by auto
      from n(1) P show "IsProfileAllowed (?f i) opt (st_profiles st2) = IsProfileAllowed i opt ?P"
      proof (cases rule: numberedE)
        case 1
        then have "\<not> i > int ?p" using of_nat_0_le_iff [of ?p, where 'a = int] by linarith
        with 1 show ?thesis by (simp only: if_False no_profile)
      next
        case (2 k)
        have "?p < length (m_vpProfilesTable ?P)" using p P by (simp add: pm_ok_def word_less_nat_alt)
        with removal.same_rights [OF 2(2), of ?p P' opt] n(2) 2(1)
        have "IsProfileAllowed (int (drop_number ?p k)) opt P' = IsProfileAllowed (int k) opt ?P" by (simp add: P'_def)
        moreover have "int (drop_number ?p k) = ?f i" unfolding 2(1) by (rule drop_number_int)
        ultimately show ?thesis using 2(1) by (simp add: st2_def st1_def)
      qed
    next
      fix w show "int (unat (?g w)) = ?f (int (unat w))"
        by (rule drop_word)
    qed (auto simp: st2_def st1_def U)
    with run False show ?thesis by (auto simp: st2_def st1_def P'_def)
  qed
qed

lemma RemoveProfile_table:
  assumes "site_ok st" and "pm_ok (st_profiles st)" and "m_UserList st = Some us"
    and "p < m_ui16ProfileCount (st_profiles st)" and "RemoveProfile True p st = Inr (st', True)"
  shows "m_vpProfilesTable (st_profiles st') = drop_entry (unat p) (m_vpProfilesTable (st_profiles st))"
  using RemoveProfile_run [OF assms(1-4)] assms(5) by auto

text \<open>
  C39.  Removing a profile fails, and changes nothing, exactly when a registered user has it; otherwise every registered and
  every online user without it keeps all rights, although most of them carry a new number.
\<close>

theorem RemoveProfile_keeps_rights:
  assumes ok: "site_ok st" and P: "pm_ok (st_profiles st)" and U: "m_UserList st = Some us"
    and p: "p < m_ui16ProfileCount (st_profiles st)"
  shows "\<exists>st' removed. RemoveProfile True p st = Inr (st', removed)
    \<and> (removed \<longleftrightarrow> \<not> (\<exists>a r. rg_heap (st_regs st) a = Some r \<and> m_ui16Profile r = p))
    \<and> (if removed then keeps_rights (\<lambda>i. numbered (st_profiles st) i \<and> i \<noteq> int (unat p)) st st'
         \<and> m_ui16ProfileCount (st_profiles st') = m_ui16ProfileCount (st_profiles st) - 1
       else st' = st)"
proof -
  from RemoveProfile_run [OF assms] obtain st' removed where r: "RemoveProfile True p st = Inr (st', removed)"
    "removed \<longleftrightarrow> \<not> (\<exists>a r. rg_heap (st_regs st) a = Some r \<and> m_ui16Profile r = p)"
    "if removed then keeps_rights (\<lambda>i. numbered (st_profiles st) i \<and> i \<noteq> int (unat p)) st st'
       \<and> m_ui16ProfileCount (st_profiles st') = m_ui16ProfileCount (st_profiles st) - 1
       \<and> m_vpProfilesTable (st_profiles st') = drop_entry (unat p) (m_vpProfilesTable (st_profiles st)) else st' = st" by blast
  from r(3) have "if removed then keeps_rights (\<lambda>i. numbered (st_profiles st) i \<and> i \<noteq> int (unat p)) st st'
       \<and> m_ui16ProfileCount (st_profiles st') = m_ui16ProfileCount (st_profiles st) - 1 else st' = st" by (cases removed) simp_all
  with r(1,2) show ?thesis by blast
qed

text \<open>The loops of both moves compute the exchange of neighbours.\<close>

definition swap_at :: "nat \<Rightarrow> int \<Rightarrow> int" where
  "swap_at q i = (if i = int q then i + 1 else if i = int q + 1 then i - 1 else i)"

lemma swap_at_nat: "swap_at q (int k) = int (swap_number q k)"
  by (simp add: swap_at_def swap_number_int)

lemma swap_word:
  fixes w p :: u16
  assumes "Suc (unat p) < 2 ^ 16"
  shows "int (unat (if w = p then w + 1 else if int (unat w) = int (unat p) + 1 then w - 1 else w)) = swap_at (unat p) (int (unat w))"
    and "(if w = p + 1 then w - 1 else if int (unat w) = int (unat p) then w + 1 else w)
       = (if w = p then w + 1 else if int (unat w) = int (unat p) + 1 then w - 1 else w)"
proof -
  have s: "unat (p + 1) = Suc (unat p)" using assms by (simp add: unat_word_ariths(1))
  have e: "w = p \<longleftrightarrow> int (unat w) = int (unat p)" "w = p + 1 \<longleftrightarrow> int (unat w) = int (unat p) + 1"
    unfolding word_unat_eq_iff s by linarith+
  show "int (unat (if w = p then w + 1 else if int (unat w) = int (unat p) + 1 then w - 1 else w)) = swap_at (unat p) (int (unat w))"
    unfolding e(1) [symmetric] e(2) [symmetric] using s e by (auto simp: swap_at_def simp del: of_nat_unat)
  show "(if w = p + 1 then w - 1 else if int (unat w) = int (unat p) then w + 1 else w)
       = (if w = p then w + 1 else if int (unat w) = int (unat p) + 1 then w - 1 else w)"
    unfolding e(1) [symmetric] e(2) [symmetric] by auto
qed

lemma exchange_keeps:
  assumes P: "pm_ok (st_profiles st)" and q: "Suc q < length (m_vpProfilesTable (st_profiles st))"
    and t: "m_vpProfilesTable (st_profiles st') = swap_entry q (m_vpProfilesTable (st_profiles st))"
    and g: "\<And>w. int (unat (g w)) = swap_at q (int (unat w))"
    and R: "rg_heap (st_regs st') = (\<lambda>x. map_option (\<lambda>r. r\<lparr>m_ui16Profile := g (m_ui16Profile r)\<rparr>) (rg_heap (st_regs st) x))"
    and U: "\<And>us. m_UserList st = Some us \<Longrightarrow> hm_users (hub_users (st_hub st')) =
      mapped (\<lambda>u. u\<lparr>m_i32Profile := swap_at q (m_i32Profile u)\<rparr>) us (hm_users (hub_users (st_hub st)))"
  shows "keeps_rights (numbered (st_profiles st)) st st'"
proof (rule keeps_rightsI [OF _ g R U])
  fix i opt assume "numbered (st_profiles st) i"
  from this P show "IsProfileAllowed (swap_at q i) opt (st_profiles st') = IsProfileAllowed i opt (st_profiles st)"
  proof (cases rule: numberedE)
    case 1
    then show ?thesis by (simp add: swap_at_def)
  next
    case (2 k)
    from exchange.same_rights [OF 2(2) q t, of opt] show ?thesis unfolding 2(1) swap_at_nat .
  qed
qed

lemma MoveProfileDown_run:
  assumes ok: "site_ok st" and P: "pm_ok (st_profiles st)" and p: "Suc (unat p) < unat (m_ui16ProfileCount (st_profiles st))"
  shows "\<exists>st'. MoveProfileDown p st = Inr st' \<and> MoveProfileUp (p + 1) st = Inr st'
    \<and> m_vpProfilesTable (st_profiles st') = swap_entry (unat p) (m_vpProfilesTable (st_profiles st))
    \<and> keeps_rights (numbered (st_profiles st)) st st'"
proof -
  let ?P = "st_profiles st" and ?p = "int (unat p)"
  let ?g = "\<lambda>w. if w = p then w + 1 else if int (unat w) = ?p + 1 then w - 1 else w"
  have len: "Suc (unat p) < length (m_vpProfilesTable ?P)" and b: "Suc (unat p) < 2 ^ 16"
    using p P unsigned_less [of "m_ui16ProfileCount ?P", where 'a = nat] by (simp_all add: pm_ok_def)
  note g = swap_word [OF b]
  have s: "int (unat (p + 1)) = ?p + 1" using b by (simp add: unat_word_ariths(1) del: of_nat_unat)
  define P' where "P' = ?P\<lparr>m_vpProfilesTable := swap_entry (unat p) (m_vpProfilesTable ?P)\<rparr>"
  have nat: "nat (?p + 1) = Suc (unat p)" "nat ?p = unat p" by (simp_all add: nat_add_distrib del: of_nat_unat)
  have sw: "swap_profiles ?p (?p + 1) ?P = Inr P'"
    unfolding swap_profiles_def Let_def nat P'_def swap_entry_def using len by (simp del: of_nat_unat)
  have u: "(\<lambda>i. if i = ?p then i + 1 else if i = ?p + 1 then i - 1 else i) = swap_at (unat p)"
    "(\<lambda>i. if i = ?p + 1 then i - 1 else if i = ?p then i + 1 else i) = swap_at (unat p)" by (auto simp: swap_at_def fun_eq_iff simp del: of_nat_unat)
  let ?st1 = "st\<lparr>st_profiles := P'\<rparr>"
  have ok1: "site_ok ?st1" using ok by (simp add: site_ok_def)
  note r = renumber_regs_run [OF ok1, of ?g]
  define st2 where "st2 = ?st1\<lparr>st_regs := (st_regs ?st1)\<lparr>rg_heap := \<lambda>x. map_option (\<lambda>r. r\<lparr>m_ui16Profile := ?g (m_ui16Profile r)\<rparr>) (rg_heap (st_regs ?st1) x)\<rparr>\<rparr>"
  have r2: "renumber_regs ?g ?st1 = Inr st2" unfolding st2_def by (rule r)
  have ok2: "site_ok st2" "m_UserList st2 = m_UserList st" using ok
    reg_inv_mapped [of "st_regs st" "\<lambda>r. r\<lparr>m_ui16Profile := ?g (m_ui16Profile r)\<rparr>"] by (simp_all add: site_ok_def st2_def)
  define st3 where "st3 = (case m_UserList st of None \<Rightarrow> st2 | Some us \<Rightarrow>
    st2\<lparr>st_hub := (st_hub st)\<lparr>hub_users := (hub_users (st_hub st))\<lparr>hm_users :=
      mapped (\<lambda>u. u\<lparr>m_i32Profile := swap_at (unat p) (m_i32Profile u)\<rparr>) us (hm_users (hub_users (st_hub st)))\<rparr>\<rparr>\<rparr>)"
  have u3: "(if m_UserList st2 = None then Inr st2 else renumber_users (swap_at (unat p)) st2) = Inr st3"
  proof (cases "m_UserList st")
    case (Some us)
    with renumber_users_run [OF ok2(1), of us "swap_at (unat p)"] ok2(2) show ?thesis by (simp add: st3_def) (simp add: st2_def)
  qed (simp add: st3_def ok2(2))
  have down: "MoveProfileDown p st = Inr st3"
    unfolding MoveProfileDown_def Let_def sw rbind.simps r2 u by (rule u3)
  have up: "MoveProfileUp (p + 1) st = Inr st3"
    unfolding MoveProfileUp_def Let_def s add_diff_cancel_right' sw rbind.simps g(2) r2 u by (rule u3)
  have "keeps_rights (numbered ?P) st st3"
  proof (rule exchange_keeps [OF P len _ g(1)])
    show "m_vpProfilesTable (st_profiles st3) = swap_entry (unat p) (m_vpProfilesTable ?P)"
      by (auto simp: st3_def st2_def P'_def split: option.splits)
    show "rg_heap (st_regs st3) = (\<lambda>x. map_option (\<lambda>r. r\<lparr>m_ui16Profile := ?g (m_ui16Profile r)\<rparr>) (rg_heap (st_regs st) x))"
      by (auto simp: st3_def st2_def split: option.splits)
  qed (simp add: st3_def)
  with down up show ?thesis by (auto simp: st3_def st2_def P'_def split: option.splits)
qed

text \<open>
  Moving a profile down exchanges it with its successor, moving that successor up does the same, and every registered
  and every online user keeps all rights.
\<close>

theorem MoveProfile_keeps_rights:
  assumes "site_ok st" and "pm_ok (st_profiles st)" and "Suc (unat p) < unat (m_ui16ProfileCount (st_profiles st))"
  shows "\<exists>st'. MoveProfileDown p st = Inr st' \<and> MoveProfileUp (p + 1) st = Inr st'
    \<and> m_vpProfilesTable (st_profiles st') = swap_entry (unat p) (m_vpProfilesTable (st_profiles st))
    \<and> keeps_rights (numbered (st_profiles st)) st st'"
  using MoveProfileDown_run [OF assms] .

section \<open>Adding a profile\<close>

lemma name_taken_run:
  "\<forall>x \<in> set t. x \<noteq> None \<Longrightarrow> name_taken n t = Inr (\<exists>p. Some p \<in> set t \<and> iequals (p_sName p) n)"
proof (induction t)
  case (Cons x t)
  then obtain p where "x = Some p" by auto
  with Cons show ?case by auto
qed simp

lemma profile_index_first:
  "i \<le> k \<Longrightarrow> k < unat n \<Longrightarrow> unat n \<le> length t \<Longrightarrow> \<forall>j < k. \<exists>p. t ! j = Some p \<and> \<not> iequals (p_sName p) s \<Longrightarrow>
   t ! k = Some q \<Longrightarrow> iequals (p_sName q) s \<Longrightarrow> profile_index_loop s n i t = Inr (Some k)"
proof (induction s n i t rule: profile_index_loop.induct)
  case (1 s n i t)
  show ?case
  proof (cases "i = k")
    case True
    with 1(3-) show ?thesis by (subst profile_index_loop.simps) (simp add: profile_at_nat)
  next
    case False
    with 1(2-) obtain p where p: "t ! i = Some p" "\<not> iequals (p_sName p) s" "Suc i \<le> k" "i < unat n" by (metis Suc_leI le_neq_implies_less order.strict_trans)
    have "profile_at (int i) t = Inr p" using p 1(4) by (simp add: profile_at_nat)
    moreover have "profile_index_loop s n (Suc i) t = Inr (Some k)"
      by (rule 1(1) [OF p(4) p(2,3)]) (use 1(3-) in auto)
    ultimately show ?thesis using p by (subst profile_index_loop.simps) simp
  qed
qed

lemma pm_ok_default [simp]: "pm_ok default_ProfileManager"
  by (simp add: pm_ok_def default_ProfileManager_def default_names_def rights_of_text_def)

lemma default_count [simp]: "unat (m_ui16ProfileCount default_ProfileManager) = 4"
  by (simp add: default_ProfileManager_def default_names_def)

lemma unat_Suc_count: "Suc (unat (c :: u16)) < 2 ^ 16 \<Longrightarrow> unat (c + 1) = Suc (unat c)"
  by (simp add: unat_word_ariths(1))

text \<open>
  Adding a profile refuses a name in use (whatever the case of its letters) and a name with a forbidden
  character; otherwise the name leads to the new profile, which has no rights, and nobody's rights change.
\<close>

theorem AddProfile_spec:
  assumes P: "pm_ok P" and c: "Suc (unat (m_ui16ProfileCount P)) < 2 ^ 16"
  shows "\<exists>P' i. AddProfile n P = Inr (P', i)
    \<and> (if \<exists>p. Some p \<in> set (m_vpProfilesTable P) \<and> iequals (p_sName p) n then i = -1 \<and> P' = P
       else if bad_name n then i = -2 \<and> P' = P
       else i = int (unat (m_ui16ProfileCount P)) \<and> pm_ok P' \<and> GetProfileIndex n P' = Inr (Some (nat i))
         \<and> (\<forall>opt. opt \<ge> 256 \<or> IsProfileAllowed i opt P' = Inr False)
         \<and> (\<forall>j. \<not> numbered P j \<or> (\<forall>opt. IsProfileAllowed j opt P' = IsProfileAllowed j opt P)))"
proof -
  let ?t = "m_vpProfilesTable P" and ?new = "new_ProfileItem\<lparr>p_sName := n\<rparr>"
  have len: "length ?t = unat (m_ui16ProfileCount P)" using P by (simp add: pm_ok_def)
  have all: "\<forall>x \<in> set ?t. x \<noteq> None" using P by (auto simp: pm_ok_def)
  note taken = name_taken_run [OF all, of n]
  define P' where "P' = P\<lparr>m_ui16ProfileCount := m_ui16ProfileCount P + 1, m_vpProfilesTable := ?t @ [Some ?new]\<rparr>"
  note u = unat_Suc_count [OF c]
  have create: "CreateProfile n P = Inr (P', int (length ?t))"
    using u by (simp add: CreateProfile_def Let_def P'_def len del: of_nat_unat)
  show ?thesis
  proof (cases "(\<exists>p. Some p \<in> set ?t \<and> iequals (p_sName p) n) \<or> bad_name n")
    case True
    with taken show ?thesis by (auto simp: AddProfile_def)
  next
    case False
    have run: "AddProfile n P = Inr (P', int (length ?t))"
      using False taken create u by (simp add: AddProfile_def P'_def len del: of_nat_unat)
    have ok: "pm_ok P'" using P u by (auto simp: pm_ok_def P'_def new_ProfileItem_def)
    have idx: "GetProfileIndex n P' = Inr (Some (length ?t))"
      unfolding GetProfileIndex_def
    proof (rule profile_index_first [where q = ?new])
      show "\<forall>j < length ?t. \<exists>p. m_vpProfilesTable P' ! j = Some p \<and> \<not> iequals (p_sName p) n"
        using False pm_ok_at [OF P] by (auto simp: P'_def nth_append) (metis nth_mem)
    qed (use u len in \<open>simp_all add: P'_def new_ProfileItem_def nth_append\<close>)
    have fresh: "opt \<ge> 256 \<or> IsProfileAllowed (int (length ?t)) opt P' = Inr False" for opt
      by (simp add: IsProfileAllowed_def profile_at_nat P'_def new_ProfileItem_def)
    have old: "\<not> numbered P j \<or> IsProfileAllowed j opt P' = IsProfileAllowed j opt P" for j opt
    proof (cases "numbered P j")
      case True
      from this P show ?thesis
        by (cases rule: numberedE) (simp_all add: IsProfileAllowed_def profile_at_nat P'_def nth_append)
    qed simp
    show ?thesis
      using run False ok idx fresh old by (intro exI [of _ P'] exI [of _ "int (length ?t)"]) (simp add: len del: of_nat_unat)
  qed
qed

section \<open>A hub with two registered users\<close>

definition demo_site :: site where
  "demo_site = \<lparr>st_hub = demo_hub, st_regs = demo_regs, st_profiles = default_ProfileManager, m_UserList = Some [1]\<rparr>"

lemma demo_site_ok: "site_ok demo_site" "pm_ok (st_profiles demo_site)" "m_UserList demo_site = Some [1]"
    "unat (m_ui16ProfileCount (st_profiles demo_site)) = 4" "st_profiles demo_site = default_ProfileManager"
proof -
  show "site_ok demo_site" using demo_regs_form demo_hub_user by (simp add: site_ok_def demo_site_def dom_def del: One_nat_def)
  show "unat (m_ui16ProfileCount (st_profiles demo_site)) = 4"
    by (simp add: demo_site_def default_ProfileManager_def default_names_def)
qed (simp_all add: demo_site_def)

theorem RemoveProfile_keeps_rights_witness:
  "\<exists>st'. RemoveProfile True 2 demo_site = Inr (st', True)
    \<and> keeps_rights (\<lambda>i. numbered default_ProfileManager i \<and> i \<noteq> 2) demo_site st'"
proof -
  have p: "2 < m_ui16ProfileCount (st_profiles demo_site)" by (simp add: word_less_nat_alt demo_site_ok(5))
  have "\<not> (\<exists>a r. rg_heap (st_regs demo_site) a = Some r \<and> m_ui16Profile r = 2)"
    using demo_regs_form by (auto simp: demo_site_def CreateReg_def Let_def split: if_splits)
  with RemoveProfile_keeps_rights [OF demo_site_ok(1,2,3) p] show ?thesis by (auto simp: demo_site_ok(5))
qed

theorem MoveProfile_keeps_rights_witness:
  "\<exists>st'. MoveProfileDown 1 demo_site = Inr st' \<and> MoveProfileUp 2 demo_site = Inr st'
    \<and> keeps_rights (numbered default_ProfileManager) demo_site st'"
  using MoveProfile_keeps_rights [OF demo_site_ok(1,2), of 1] by (auto simp: demo_site_ok(4,5))

theorem AddProfile_spec_witness:
  "\<exists>P'. AddProfile ''Guest'' default_ProfileManager = Inr (P', 4) \<and> GetProfileIndex ''Guest'' P' = Inr (Some 4)
    \<and> AddProfile ''vip'' default_ProfileManager = Inr (default_ProfileManager, -1)"
proof -
  note c = default_count
  then have c': "Suc (unat (m_ui16ProfileCount default_ProfileManager)) < 2 ^ 16" by simp
  have s: "set (m_vpProfilesTable default_ProfileManager) = (\<lambda>(n, r). Some \<lparr>p_sName = n, m_bPermissions = rights_of_text r\<rparr>) ` set default_names"
    by (simp add: default_ProfileManager_def)
  have n: "\<not> (\<exists>p. Some p \<in> set (m_vpProfilesTable default_ProfileManager) \<and> iequals (p_sName p) ''Guest'')"
    unfolding s by (auto simp: default_names_def iequals_def lower_byte_def byte_of_def Let_def)
  have b: "\<not> bad_name ''Guest''" by (simp add: byte_of_def)
  let ?vip = "\<lparr>p_sName = ''VIP'', m_bPermissions = rights_of_text (snd (default_names ! 2))\<rparr>"
  have "Some ?vip \<in> set (m_vpProfilesTable default_ProfileManager)" unfolding s by (simp add: default_names_def)
  moreover have "iequals (p_sName ?vip) ''vip''" by (simp add: iequals_def lower_byte_def byte_of_def)
  ultimately have v: "\<exists>p. Some p \<in> set (m_vpProfilesTable default_ProfileManager) \<and> iequals (p_sName p) ''vip''" by blast
  from AddProfile_spec [OF pm_ok_default c', of "''Guest''"] n b c have
    "\<exists>P'. AddProfile ''Guest'' default_ProfileManager = Inr (P', 4) \<and> GetProfileIndex ''Guest'' P' = Inr (Some 4)" by auto
  moreover from AddProfile_spec [OF pm_ok_default c', of "''vip''"] v have
    "AddProfile ''vip'' default_ProfileManager = Inr (default_ProfileManager, -1)" by auto
  ultimately show ?thesis by auto
qed

end
