(* ===== verification/ProfileFile.thy ===== *)
theory ProfileFile
  imports PxbRound ProfileRights
begin

text \<open>
  The file of profiles (\<open>ProfileManager::SaveProfiles\<close> and \<open>Load\<close>): what is saved is what is loaded, and after a removal
  nothing can be saved, because the table keeps a null entry.
\<close>

section \<open>Saving and loading\<close>

definition sPtokaXProfiles :: string where "sPtokaXProfiles = ''PtokaX Profiles''"

definition sProfilePermissionIds :: string where
  "sProfilePermissionIds =
     ''OPDGDMDSDPDNMMTOTBRTNTTUDRARNCNHNRNSNACPCTGIGBRSRHTPGGREBNKIDREFEBAOUIRBRURTRVGRCRCUUNNTSMNICLDCDRDTDUCIPISIUIRT''"

definition permission_ids :: "ident list" where "permission_ids = idents sProfilePermissionIds"

definition profile_subs :: "ProfileItem \<Rightarrow> (ident \<times> pxb_value) list" where
  "profile_subs p = (ident_of CHR ''P'' CHR ''N'', PXB_STRING (title_bytes (p_sName p)))
     # zip permission_ids (map PXB_BYTE (take 56 (m_bPermissions p)))"

definition profile_item :: "ProfileItem option \<Rightarrow> (u32 \<times> (ident \<times> pxb_value) list) res" where
  "profile_item x =
     (case x of None \<Rightarrow> Inl NullDeref
      | Some p \<Rightarrow> Inr (ucast (word_of_nat (length (p_sName p)) :: u16) + 55 + 1, profile_subs p))"

definition SaveProfiles :: "ProfileManager \<Rightarrow> byte list res" where
  "SaveProfiles P =
     rbind (write_header sPtokaXProfiles OpenFileSave) (\<lambda>w.
     rbind (write_items profile_item (m_vpProfilesTable P) w) (\<lambda>w1. Inr (WriteRemaining w1)))"

text \<open>A field read as a C string.\<close>

definition field_cstr :: "field list \<Rightarrow> nat \<Rightarrow> string res" where
  "field_cstr fs i =
     (case snd (fs ! i) of None \<Rightarrow> Inl NullDeref
      | Some p \<Rightarrow> if 0 \<in> set p then Inr (map char_of_byte (takeWhile (\<lambda>b. b \<noteq> 0) p)) else Inl BufferOverflow)"

fun read_rights :: "nat list \<Rightarrow> field list \<Rightarrow> bool list \<Rightarrow> bool list res" where
  "read_rights [] fs perms = Inr perms"
| "read_rights (i # is) fs perms =
     rbind (field_bytes 1 fs (Suc i)) (\<lambda>b. read_rights is fs (perms[i := b \<noteq> [byte_of CHR ''0'']]))"

definition load_profile :: "field list \<Rightarrow> ProfileManager \<Rightarrow> ProfileManager res" where
  "load_profile fs P =
     rbind (field_cstr fs 0) (\<lambda>sName.
     rbind (CreateProfile sName P) (\<lambda>(P1, i).
     rbind (profile_at i (m_vpProfilesTable P1)) (\<lambda>p.
     rbind (read_rights [0 ..< 56] fs (m_bPermissions p)) (\<lambda>perms.
       Inr (P1\<lparr>m_vpProfilesTable := (m_vpProfilesTable P1)[nat i := Some (p\<lparr>m_bPermissions := perms\<rparr>)]\<rparr>)))))"

definition LoadProfiles :: "byte list \<Rightarrow> ProfileManager \<Rightarrow> ProfileManager res" where
  "LoadProfiles file P =
     load_file sPtokaXProfiles (55 + 2) (idents (''PN'' @ sProfilePermissionIds)) (55 + 2) 0 load_profile file P"

definition empty_profiles :: ProfileManager where
  "empty_profiles = \<lparr>m_vpProfilesTable = [], m_ui16ProfileCount = 0\<rparr>"

section \<open>The round trip\<close>

text \<open>What a file can hold of a profile: the name without a NUL, and the rights that have a number.\<close>

definition storable :: "ProfileItem \<Rightarrow> bool" where
  "storable p \<longleftrightarrow> CHR 0x00 \<notin> set (p_sName p) \<and> length (p_sName p) < 60000
     \<and> drop 56 (m_bPermissions p) = replicate 200 False"

lemma permission_ids_length [simp]: "length permission_ids = 56"
  by (simp add: permission_ids_def sProfilePermissionIds_def)

lemma expected_ids: "idents (''PN'' @ sProfilePermissionIds) = ident_of CHR ''P'' CHR ''N'' # permission_ids"
  by (simp add: permission_ids_def)

lemma title_bytes_cstr:
  "CHR 0x00 \<notin> set s \<Longrightarrow> map char_of_byte (takeWhile (\<lambda>b. b \<noteq> 0) (title_bytes s @ 0 # w)) = s"
proof -
  assume n: "CHR 0x00 \<notin> set s"
  have "byte_of c \<noteq> 0" if "c \<in> set s" for c
    using that n byte_of_eq_iff [of c "CHR 0x00"] by (auto simp: byte_of_def [of "CHR 0x00"])
  then have "takeWhile (\<lambda>b. b \<noteq> 0) (title_bytes s @ 0 # w) = title_bytes s"
    by (subst takeWhile_append2) (auto simp: title_bytes_def)
  then show ?thesis by (simp add: title_bytes_def comp_def)
qed

lemma read_rights_run:
  "\<forall>i \<in> set is. field_bytes 1 fs (Suc i) = Inr [if bs ! i then byte_of CHR ''1'' else byte_of CHR ''0''] \<Longrightarrow>
   read_rights is fs perms = Inr (foldl (\<lambda>p i. p[i := bs ! i]) perms is)"
  by (induction "is" arbitrary: perms) auto

lemma fill_prefix:
  "k \<le> length perms \<Longrightarrow> foldl (\<lambda>p i. p[i := f i]) perms [0 ..< k] = map f [0 ..< k] @ drop k perms"
proof (induction k)
  case (Suc k)
  then have "foldl (\<lambda>p i. p[i := f i]) perms [0 ..< k] = map f [0 ..< k] @ drop k perms" by simp
  moreover have "drop k perms = perms ! k # drop (Suc k) perms" using Suc.prems by (simp add: Cons_nth_drop_Suc)
  ultimately show ?case by (simp add: list_update_append)
qed simp

lemma profile_subs_ok:
  assumes st: "storable p" and l: "length (m_bPermissions p) = 256"
  shows "length (profile_subs p) = 57" and "map fst (profile_subs p) = idents (''PN'' @ sProfilePermissionIds)"
    and "data_length (profile_subs p) = length (p_sName p) + 56" and "item_ok (profile_subs p)"
proof -
  let ?z = "zip permission_ids (map PXB_BYTE (take 56 (m_bPermissions p)))"
  show len: "length (profile_subs p) = 57" using l by (simp add: profile_subs_def)
  show "map fst (profile_subs p) = idents (''PN'' @ sProfilePermissionIds)"
    unfolding expected_ids using l by (simp add: profile_subs_def)
  have one: "length (pxb_bytes (snd x)) = 1" if "x \<in> set ?z" for x
  proof -
    from that have "snd x \<in> set (map PXB_BYTE (take 56 (m_bPermissions p)))" by (metis prod.collapse set_zip_rightD)
    then show ?thesis by auto
  qed
  have "sum_list (map (\<lambda>s. length (pxb_bytes (snd s))) ?z) = sum_list (map (\<lambda>s. 1) ?z)"
    by (rule arg_cong [where f = sum_list], rule map_cong [OF refl]) (use one in simp)
  also have "\<dots> = 56" using l by (simp add: sum_list_triv)
  finally show d: "data_length (profile_subs p) = length (p_sName p) + 56"
    by (simp add: data_length_def profile_subs_def title_bytes_def)
  have fit: "all_fit (profile_subs p)"
    unfolding all_fit_def
  proof
    fix s assume "s \<in> set (profile_subs p)"
    then consider "snd s = PXB_STRING (title_bytes (p_sName p))" | "s \<in> set ?z" by (auto simp: profile_subs_def)
    then show "fits16 (snd s)"
      by cases (use st one in \<open>auto simp: fits16_def storable_def title_bytes_def\<close>)
  qed
  show "item_ok (profile_subs p)"
    using fit length_body [OF fit] d len st by (simp add: item_ok_def storable_def PTOKAX_GLOBAL_BUFF_SIZE_def)
qed

lemma load_profile_run:
  assumes st: "storable p" and l: "length (m_bPermissions p) = 256"
    and P: "pm_ok P" and c: "Suc (unat (m_ui16ProfileCount P)) < 2 ^ 16"
  shows "load_profile (fields_of w (profile_subs p)) P =
    Inr (P\<lparr>m_vpProfilesTable := m_vpProfilesTable P @ [Some p], m_ui16ProfileCount := m_ui16ProfileCount P + 1\<rparr>)"
proof -
  let ?z = "zip permission_ids (map PXB_BYTE (take 56 (m_bPermissions p)))" and ?fs = "fields_of w (profile_subs p)"
  have lz: "length ?z = 56" using l by simp
  have ne: "body ?z @ w = 0 # tl (body ?z @ w)"
  proof -
    obtain i rest v vs where q: "permission_ids = i # rest" "take 56 (m_bPermissions p) = v # vs"
      using permission_ids_length l by (cases permission_ids; cases "take 56 (m_bPermissions p)") auto
    have "?z = (i, PXB_BYTE v) # zip rest (map PXB_BYTE vs)" unfolding q by simp
    then show ?thesis by (cases i) (simp add: write_sub_def be16_def item_length_def)
  qed
  have fs0: "?fs = (item_length (PXB_STRING (title_bytes (p_sName p))), Some (title_bytes (p_sName p) @ body ?z @ w)) # fields_of w ?z"
    by (simp add: profile_subs_def)
  have name: "field_cstr ?fs 0 = Inr (p_sName p)"
  proof -
    have n: "CHR 0x00 \<notin> set (p_sName p)" using st by (simp add: storable_def)
    from ne obtain q where q: "body ?z @ w = 0 # q" by blast
    show ?thesis by (simp add: field_cstr_def fs0 q title_bytes_cstr [OF n])
  qed
  have byte: "field_bytes 1 ?fs (Suc i) = Inr [if m_bPermissions p ! i then byte_of CHR ''1'' else byte_of CHR ''0'']" if "i < 56" for i
  proof -
    have "i < length ?z" using that lz by simp
    from fields_of_nth [OF this, of w] obtain tail where
      "fields_of w ?z ! i = (item_length (snd (?z ! i)), Some (pxb_bytes (snd (?z ! i)) @ tail))" by blast
    then show ?thesis using that l unfolding fs0 by (simp add: field_bytes_def)
  qed
  let ?new = "new_ProfileItem\<lparr>p_sName := p_sName p\<rparr>"
  let ?P = "P\<lparr>m_ui16ProfileCount := m_ui16ProfileCount P + 1, m_vpProfilesTable := m_vpProfilesTable P @ [Some ?new]\<rparr>"
  have len: "length (m_vpProfilesTable P) = unat (m_ui16ProfileCount P)" using P by (simp add: pm_ok_def)
  have create: "CreateProfile (p_sName p) P = Inr (?P, int (length (m_vpProfilesTable P)))"
    using unat_Suc_count [OF c] by (simp add: CreateProfile_def Let_def len del: of_nat_unat)
  have at: "profile_at (int (length (m_vpProfilesTable P))) (m_vpProfilesTable ?P) = Inr ?new"
    by (simp add: profile_at_nat)
  have "read_rights [0 ..< 56] ?fs (replicate 256 False) = Inr (map ((!) (m_bPermissions p)) [0 ..< 56] @ drop 56 (replicate 256 False))"
    using read_rights_run [of "[0 ..< 56]" ?fs "m_bPermissions p" "replicate 256 False"] byte
      fill_prefix [of 56 "replicate 256 False" "(!) (m_bPermissions p)"] by simp
  also have "map ((!) (m_bPermissions p)) [0 ..< 56] = take 56 (m_bPermissions p)"
    using l by (intro nth_equalityI) simp_all
  also have "drop 56 (replicate 256 False) = drop 56 (m_bPermissions p)" using st by (simp add: storable_def)
  finally have rights: "read_rights [0 ..< 56] ?fs (replicate 256 False) = Inr (m_bPermissions p)" by simp
  show ?thesis
    unfolding load_profile_def name rbind.simps create split_conv at
    using rights by (simp add: new_ProfileItem_def)
qed

text \<open>The table as a file holds it.\<close>

definition storable_table :: "ProfileManager \<Rightarrow> bool" where
  "storable_table P \<longleftrightarrow> pm_ok P \<and> (\<forall>p. Some p \<notin> set (m_vpProfilesTable P) \<or> storable p)"

definition file_size :: "ProfileManager \<Rightarrow> nat" where
  "file_size P = 31 + sum_list (map (\<lambda>x. case x of None \<Rightarrow> 0 | Some p \<Rightarrow> length (p_sName p) + 288) (m_vpProfilesTable P))"

lemma foldl_add_profiles:
  "foldl (\<lambda>P x. P\<lparr>m_vpProfilesTable := m_vpProfilesTable P @ [x], m_ui16ProfileCount := m_ui16ProfileCount P + 1\<rparr>) P xs
   = P\<lparr>m_vpProfilesTable := m_vpProfilesTable P @ xs, m_ui16ProfileCount := m_ui16ProfileCount P + word_of_nat (length xs)\<rparr>"
  by (induction xs arbitrary: P) (simp_all add: add.assoc)

lemma SaveProfiles_run:
  assumes st: "storable_table P"
  shows "\<exists>file. SaveProfiles P = Inr file \<and> length file = file_size P
    \<and> (file_size P < PTOKAX_GLOBAL_BUFF_SIZE \<longrightarrow> LoadProfiles file empty_profiles = Inr P)"
proof -
  let ?t = "m_vpProfilesTable P" and ?subs = "\<lambda>x. profile_subs (the x)"
  have x: "\<exists>p. x = Some p \<and> storable p \<and> length (m_bPermissions p) = 256" if "x \<in> set ?t" for x
  proof -
    from st have "pm_ok P" and s: "\<forall>p. Some p \<notin> set ?t \<or> storable p" by (simp_all add: storable_table_def)
    with that obtain p where "x = Some p" "length (m_bPermissions p) = 256" unfolding pm_ok_def by blast
    with that s show ?thesis by auto
  qed
  have item: "profile_item x = Inr (word_of_nat (data_length (?subs x)), ?subs x) \<and> item_ok (?subs x)" if xs: "x \<in> set ?t" for x
  proof -
    from x [OF xs] obtain p where p: "x = Some p" "storable p" "length (m_bPermissions p) = 256" by blast
    have "ucast (word_of_nat (length (p_sName p)) :: u16) = (word_of_nat (length (p_sName p)) :: u32)"
      by (rule word_unat_eq_iff [THEN iffD2]) (use p(2) in \<open>simp add: storable_def unsigned_ucast_eq unat_of_nat take_bit_nat_eq_self\<close>)
    then have "profile_item x = Inr (word_of_nat (length (p_sName p)) + 56, profile_subs p)"
      by (simp add: profile_item_def p(1))
    with profile_subs_ok [OF p(2,3)] p(1) show ?thesis by simp
  qed
  have t: "length sPtokaXProfiles < 1000" by (simp add: sPtokaXProfiles_def)
  from write_header_run [OF t] obtain w where w: "write_header sPtokaXProfiles OpenFileSave = Inr w"
    "written w = enc (header_item sPtokaXProfiles)" "length (pw_buf w) \<le> PTOKAX_GLOBAL_BUFF_SIZE" by blast
  from write_items_run [of ?t profile_item ?subs w] item w(3) obtain w1 where w1: "write_items profile_item ?t w = Inr w1"
    "written w1 = written w @ concat (map (\<lambda>x. enc (?subs x)) ?t)" by blast
  define dat where "dat = enc (header_item sPtokaXProfiles) @ concat (map (\<lambda>x. enc (?subs x)) ?t)"
  have save: "SaveProfiles P = Inr dat" using w w1 by (simp add: SaveProfiles_def dat_def)
  have "length (enc (?subs x)) = (case x of None \<Rightarrow> 0 | Some p \<Rightarrow> length (p_sName p) + 288)" if "x \<in> set ?t" for x
  proof -
    from x [OF that] obtain p where p: "x = Some p" "storable p" "length (m_bPermissions p) = 256" by blast
    from profile_subs_ok [OF p(2,3)] length_body [of "profile_subs p"] show ?thesis by (simp add: p(1) item_ok_def)
  qed
  then have "length (concat (map (\<lambda>x. enc (?subs x)) ?t)) = sum_list (map (\<lambda>x. case x of None \<Rightarrow> 0 | Some p \<Rightarrow> length (p_sName p) + 288) ?t)"
    unfolding length_concat map_map comp_def by (intro arg_cong [where f = sum_list] map_cong) auto
  moreover have "length (enc (header_item sPtokaXProfiles)) = 31"
    using length_body [of "header_item sPtokaXProfiles"] header_item_ok [OF t]
    by (simp add: item_ok_def header_item_def data_length_def title_bytes_def sPtokaXProfiles_def)
  ultimately have size: "length dat = file_size P" by (simp add: dat_def file_size_def)
  let ?g = "\<lambda>x P. P\<lparr>m_vpProfilesTable := m_vpProfilesTable P @ [x], m_ui16ProfileCount := m_ui16ProfileCount P + 1\<rparr>"
  let ?Inv = "\<lambda>j P. pm_ok P \<and> unat (m_ui16ProfileCount P) = j"
  have cnt: "length ?t < 2 ^ 16" using st unsigned_less [of "m_ui16ProfileCount P", where 'a = nat] by (simp add: storable_table_def pm_ok_def)
  have "LoadProfiles dat empty_profiles = Inr P" if small: "file_size P < PTOKAX_GLOBAL_BUFF_SIZE"
  proof -
    have step: "item_ok (?subs x) \<and> (\<forall>w j Q. fst (take_subs (idents (''PN'' @ sProfilePermissionIds)) 57 0 w (?subs x) (0, replicate 57 (0, None))) = 57
        \<and> (j < length ?t \<and> ?Inv j Q \<longrightarrow> load_profile (snd (take_subs (idents (''PN'' @ sProfilePermissionIds)) 57 0 w (?subs x) (0, replicate 57 (0, None)))) Q
             = Inr (?g x Q) \<and> ?Inv (Suc j) (?g x Q)))" if xs: "x \<in> set ?t" for x
    proof -
      from x [OF xs] obtain p where p: "x = Some p" "storable p" "length (m_bPermissions p) = 256" by blast
      note ok = profile_subs_ok [OF p(2,3)]
      have take: "take_subs (idents (''PN'' @ sProfilePermissionIds)) 57 0 w (profile_subs p) (0, replicate 57 (0, None))
          = (57, fields_of w (profile_subs p))" for w
        using take_subs_complete [of "profile_subs p" 57 "idents (''PN'' @ sProfilePermissionIds)" 57 0 w] ok(1,2)
        unfolding expected_ids by simp
      have "load_profile (fields_of w (profile_subs p)) Q = Inr (?g x Q) \<and> ?Inv (Suc j) (?g x Q)"
        if "j < length ?t \<and> ?Inv j Q" for w j Q
      proof -
        have c: "Suc (unat (m_ui16ProfileCount Q)) < 2 ^ 16" using that cnt by simp
        from that load_profile_run [OF p(2,3) _ c] have "load_profile (fields_of w (profile_subs p)) Q = Inr (?g x Q)" by (simp add: p(1))
        moreover have "?Inv (Suc j) (?g x Q)" using that unat_Suc_count [OF c] p by (auto simp: pm_ok_def)
        ultimately show ?thesis by blast
      qed
      with take ok(4) p(1) show ?thesis by simp
    qed
    have "load_file sPtokaXProfiles 57 (idents (''PN'' @ sProfilePermissionIds)) 57 0 load_profile dat empty_profiles
        = Inr (foldl (\<lambda>P x. ?g x P) empty_profiles ?t)"
      by (rule load_written [where subs = ?subs and Inv = ?Inv and N = "length ?t", OF t _ ballI [OF step]])
        (use small size in \<open>simp_all add: dat_def pm_ok_def empty_profiles_def\<close>)
    also have "foldl (\<lambda>P x. ?g x P) empty_profiles ?t = P"
    proof -
      have "unat (m_ui16ProfileCount P) = length ?t" using st by (simp add: storable_table_def pm_ok_def)
      from this [symmetric] have "word_of_nat (length ?t) = m_ui16ProfileCount P" by (simp only: of_nat_unat ucast_id)
      then show ?thesis unfolding foldl_add_profiles by (simp add: empty_profiles_def)
    qed
    finally show ?thesis by (simp add: LoadProfiles_def)
  qed
  with save size show ?thesis by blast
qed

text \<open>
  Loading a saved file that is shorter than the buffer gives back the table of profiles: names, rights and
  order.
\<close>

theorem profiles_save_load:
  assumes "storable_table P" and "file_size P < PTOKAX_GLOBAL_BUFF_SIZE"
  shows "\<exists>data. SaveProfiles P = Inr data \<and> length data = file_size P \<and> LoadProfiles data empty_profiles = Inr P"
  using SaveProfiles_run [OF assms(1)] assms(2) by blast

lemma default_storable: "storable_table default_ProfileManager" "file_size default_ProfileManager < PTOKAX_GLOBAL_BUFF_SIZE"
proof -
  have t: "m_vpProfilesTable default_ProfileManager = map (\<lambda>(n, r). Some \<lparr>p_sName = n, m_bPermissions = rights_of_text r\<rparr>) default_names"
    by (simp add: default_ProfileManager_def)
  have "storable p" if "Some p \<in> set (m_vpProfilesTable default_ProfileManager)" for p
    using that unfolding t by (auto simp: default_names_def storable_def rights_of_text_def)
  then show "storable_table default_ProfileManager" unfolding storable_table_def by auto
  show "file_size default_ProfileManager < PTOKAX_GLOBAL_BUFF_SIZE"
    by (simp add: file_size_def t default_names_def PTOKAX_GLOBAL_BUFF_SIZE_def)
qed

theorem profiles_save_load_witness:
  "\<exists>data. SaveProfiles default_ProfileManager = Inr data \<and> LoadProfiles data empty_profiles = Inr default_ProfileManager"
  using profiles_save_load [OF default_storable] by blast

section \<open>After a removal\<close>

lemma write_items_null: "None \<in> set xs \<Longrightarrow> \<exists>e. write_items profile_item xs w = Inl e"
proof (induction xs arbitrary: w)
  case (Cons x xs)
  show ?case
  proof (cases "write_items profile_item (x # xs) w")
    case (Inr w')
    then show ?thesis
    proof (cases x)
      case (Some p)
      with Inr Cons show ?thesis by (auto simp: profile_item_def rbind_Inr_iff split: prod.splits)
    qed (simp add: profile_item_def)
  qed blast
qed simp

lemma name_taken_null:
  "None \<in> set t \<Longrightarrow> name_taken n t = Inr True \<or> name_taken n t = Inl NullDeref"
proof (induction t)
  case (Cons x t)
  then show ?case by (cases x) auto
qed simp

text \<open>
  C40.  Removal leaves a null entry behind the last profile: from then on adding a profile either finds the name in
  use or dereferences the null entry, and saving the profiles always faults.
\<close>

theorem RemoveProfile_leaves_null:
  assumes "site_ok st" and "pm_ok (st_profiles st)" and "m_UserList st = Some us"
    and "p < m_ui16ProfileCount (st_profiles st)" and "RemoveProfile True p st = Inr (st', True)"
  shows "(\<forall>n. AddProfile n (st_profiles st') = Inr (st_profiles st', -1) \<or> AddProfile n (st_profiles st') = Inl NullDeref)
    \<and> (\<exists>e. SaveProfiles (st_profiles st') = Inl e)"
proof -
  from RemoveProfile_table [OF assms] have null: "None \<in> set (m_vpProfilesTable (st_profiles st'))" by (simp add: drop_entry_def)
  have "AddProfile n (st_profiles st') = Inr (st_profiles st', -1) \<or> AddProfile n (st_profiles st') = Inl NullDeref" for n
    using name_taken_null [OF null, of n] by (auto simp: AddProfile_def)
  moreover have "\<exists>e. SaveProfiles (st_profiles st') = Inl e"
  proof -
    have t: "length sPtokaXProfiles < 1000" by (simp add: sPtokaXProfiles_def)
    from write_header_run [OF t] obtain w where "write_header sPtokaXProfiles OpenFileSave = Inr w" by blast
    with write_items_null [OF null, of w] show ?thesis by (auto simp: SaveProfiles_def)
  qed
  ultimately show ?thesis by blast
qed

theorem RemoveProfile_leaves_null_witness:
  "\<exists>st'. RemoveProfile True 2 demo_site = Inr (st', True) \<and> AddProfile ''Guest'' (st_profiles st') = Inl NullDeref
     \<and> (\<exists>e. SaveProfiles (st_profiles st') = Inl e)"
proof -
  have p: "2 < m_ui16ProfileCount (st_profiles demo_site)" by (simp add: word_less_nat_alt demo_site_ok(5))
  have "\<not> (\<exists>a r. rg_heap (st_regs demo_site) a = Some r \<and> m_ui16Profile r = 2)"
    using demo_regs_form by (auto simp: demo_site_def CreateReg_def Let_def split: if_splits)
  with RemoveProfile_run [OF demo_site_ok(1,2,3) p] obtain st' where r: "RemoveProfile True 2 demo_site = Inr (st', True)" by auto
  have "m_vpProfilesTable (st_profiles st') = drop_entry 2 (m_vpProfilesTable default_ProfileManager)"
    using RemoveProfile_table [OF demo_site_ok(1,2,3) p r] by (simp add: demo_site_ok(5))
  then have "name_taken ''Guest'' (m_vpProfilesTable (st_profiles st')) = Inl NullDeref"
    by (simp add: drop_entry_def default_ProfileManager_def default_names_def iequals_def lower_byte_def byte_of_def Let_def)
  with RemoveProfile_leaves_null [OF demo_site_ok(1,2,3) p r] r show ?thesis by (auto simp: AddProfile_def)
qed

end
