(* ===== verification/RegFile.thy ===== *)
theory RegFile
  imports PxbRound RegTable
begin

text \<open>
  The file of registered users (\<open>RegManager::Save\<close> and \<open>Load\<close>): one item per user with the nick, the password or its hash,
  and the number of the profile.  Loading what was saved gives back every registration.
\<close>

section \<open>Saving\<close>

definition sPtokaXRegiteredUsers :: string where "sPtokaXRegiteredUsers = ''PtokaX Registered Users''"

definition reg_subs :: "RegUser \<Rightarrow> (ident \<times> pxb_value) list" where
  "reg_subs r =
     [(ident_of CHR ''N'' CHR ''I'', PXB_STRING (title_bytes (reg_sNick r))),
      (if m_bPassHash r then (ident_of CHR ''P'' CHR ''S'', PXB_STRING (take 64 (m_vPassData r)))
       else (ident_of CHR ''P'' CHR ''A'', PXB_STRING (butlast (m_vPassData r)))),
      (ident_of CHR ''P'' CHR ''R'', PXB_TWO_BYTES (m_ui16Profile r))]"

definition reg_item :: "(addr \<Rightarrow> RegUser option) \<Rightarrow> addr \<Rightarrow> (u32 \<times> (ident \<times> pxb_value) list) res" where
  "reg_item h a =
     rbind (deref h a) (\<lambda>r.
       let passlen = (if m_bPassHash r then 64 else length (m_vPassData r) - 1) in
       if m_bPassHash r \<and> length (m_vPassData r) < 64 then Inl BufferOverflow
       else Inr (ucast (word_of_nat (length (reg_sNick r)) :: u16) + ucast (word_of_nat passlen :: u16) + 2, reg_subs r))"

definition reg_bytes :: "RegManager \<Rightarrow> byte list res" where
  "reg_bytes R =
     rbind (write_header sPtokaXRegiteredUsers OpenFileSave) (\<lambda>w.
     rbind (write_items (reg_item (rg_heap R)) (m_RegList R) w) (\<lambda>w1. Inr (WriteRemaining w1)))"

definition Reg_Save :: "bool \<Rightarrow> bool \<Rightarrow> RegManager \<Rightarrow> RegManager res" where
  "Reg_Save bSaveOnChange bSaveOnTime R =
     (case Reg_SaveCalls bSaveOnChange bSaveOnTime R of
        (R1, write) \<Rightarrow> if write then rbind (reg_bytes R1) (\<lambda>b. Inr (R1\<lparr>rg_file := b\<rparr>)) else Inr R1)"

section \<open>Loading\<close>

definition field_text :: "field list \<Rightarrow> nat \<Rightarrow> byte list res" where
  "field_text fs i = (if field_len fs i = 0 then Inr [] else field_bytes (field_len fs i) fs i)"

definition text_of :: "byte list \<Rightarrow> string" where "text_of b = map char_of_byte b"

text \<open>The registration an item stands for, if any; \<open>iProfilesCount\<close> is the number of the last profile.\<close>

definition reg_of_item :: "bool \<Rightarrow> pass_hash \<Rightarrow> u16 \<Rightarrow> field list \<Rightarrow> RegUser option res" where
  "reg_of_item HASH_PASSWORDS HashPassword iProfilesCount fs =
     (if field_len fs 0 < 65 \<and> field_len fs 1 < 65 \<and> field_len fs 2 = 2 then
        rbind (field_bytes 2 fs 2) (\<lambda>pr.
        rbind (field_text fs 0) (\<lambda>nick.
        let iProfile = (if rd16 pr > iProfilesCount then iProfilesCount else rd16 pr) in
        if field_len fs 3 \<noteq> 0 then
          rbind (field_text fs 3) (\<lambda>pass.
            Inr (if HASH_PASSWORDS then
                   (case HashPassword pass of
                      None \<Rightarrow> CreateReg (text_of nick) (Some pass) None iProfile
                    | Some h \<Rightarrow> CreateReg (text_of nick) None (Some h) iProfile)
                 else CreateReg (text_of nick) (Some pass) None iProfile))
        else if field_len fs 1 = 64 then
          rbind (field_bytes 64 fs 1) (\<lambda>h. Inr (CreateReg (text_of nick) None (Some h) iProfile))
        else Inr None))
      else Inr None)"

definition load_reg :: "bool \<Rightarrow> pass_hash \<Rightarrow> u16 \<Rightarrow> field list \<Rightarrow> RegManager \<Rightarrow> RegManager res" where
  "load_reg HASH_PASSWORDS HashPassword iProfilesCount fs R =
     rbind (reg_of_item HASH_PASSWORDS HashPassword iProfilesCount fs) (\<lambda>x.
       case x of None \<Rightarrow> Inr R | Some r \<Rightarrow> rbind (add_new_reg r R) (\<lambda>(R1, _). Inr R1))"

definition Reg_Load :: "bool \<Rightarrow> pass_hash \<Rightarrow> u16 \<Rightarrow> byte list \<Rightarrow> RegManager \<Rightarrow> RegManager res" where
  "Reg_Load HASH_PASSWORDS HashPassword ui16ProfileCount dat R =
     load_file sPtokaXRegiteredUsers 4 (idents ''NIPSPRPA'') 3 1
       (load_reg HASH_PASSWORDS HashPassword (ui16ProfileCount - 1)) dat R"

section \<open>The round trip\<close>

text \<open>The passwords a file keeps: a hash of 64 bytes, or a text that is not empty.\<close>

definition storable_reg :: "u16 \<Rightarrow> RegUser \<Rightarrow> bool" where
  "storable_reg iProfilesCount r \<longleftrightarrow> length (reg_sNick r) < 65 \<and> m_ui16Profile r \<le> iProfilesCount
     \<and> (if m_bPassHash r then length (m_vPassData r) = 64
        else (\<exists>p. m_vPassData r = pass_bytes p \<and> p \<noteq> [] \<and> length p < 60000))"

text \<open>What becomes of a registration: the memory of bad passwords is lost, and a plain password may be hashed.\<close>

definition reloaded :: "bool \<Rightarrow> pass_hash \<Rightarrow> RegUser \<Rightarrow> RegUser" where
  "reloaded HASH_PASSWORDS HashPassword r =
     (let r1 = r\<lparr>m_tLastBadPass := 0, m_ui8BadPassCount := 0\<rparr> in
      if HASH_PASSWORDS then hash_reg HashPassword r1 else r1)"

definition regs_of :: "RegManager \<Rightarrow> RegUser list" where
  "regs_of R = map (\<lambda>a. the (rg_heap R a)) (m_RegList R)"

lemma reg_subs_ok:
  assumes st: "storable_reg iProfilesCount r"
  shows "data_length (reg_subs r) = length (reg_sNick r) + (if m_bPassHash r then 64 else length (m_vPassData r) - 1) + 2"
    and "item_ok (reg_subs r)"
proof -
  show d: "data_length (reg_subs r) = length (reg_sNick r) + (if m_bPassHash r then 64 else length (m_vPassData r) - 1) + 2"
    using st by (auto simp: data_length_def reg_subs_def title_bytes_def storable_reg_def pass_bytes_def)
  have fit: "all_fit (reg_subs r)"
    using st by (auto simp: reg_subs_def all_fit_def fits16_def title_bytes_def storable_reg_def pass_bytes_def)
  have "length (reg_subs r) = 3" by (simp add: reg_subs_def)
  with fit length_body [OF fit] d st show "item_ok (reg_subs r)"
    by (auto simp: item_ok_def storable_reg_def pass_bytes_def PTOKAX_GLOBAL_BUFF_SIZE_def split: if_splits)
qed

lemma ucast_u16_u32: "n < 65536 \<Longrightarrow> ucast (word_of_nat n :: u16) = (word_of_nat n :: u32)"
  by (rule word_unat_eq_iff [THEN iffD2]) (simp add: unsigned_ucast_eq unat_of_nat take_bit_nat_eq_self)

lemma reg_item_run:
  assumes "storable_reg iProfilesCount r" and "h a = Some r"
  shows "reg_item h a = Inr (word_of_nat (data_length (reg_subs r)), reg_subs r)"
  using assms reg_subs_ok(1) [OF assms(1)]
  by (auto simp: reg_item_def deref_def storable_reg_def pass_bytes_def Let_def ucast_u16_u32)

lemma nick_bytes [simp]: "text_of (title_bytes s) = s"
  by (simp add: text_of_def title_bytes_def comp_def)

lemma ident_of_eq [simp]: "ident_of a b = ident_of c d \<longleftrightarrow> a = c \<and> b = d"
  by (simp add: ident_of_def)

lemma reg_fields:
  assumes st: "storable_reg iProfilesCount r"
  shows "\<exists>t0 t1 t2. take_subs (idents ''NIPSPRPA'') 3 1 w (reg_subs r) (0, replicate 4 (0, None)) = (3,
     [(word_of_nat (length (reg_sNick r)), Some (title_bytes (reg_sNick r) @ t0)),
      (if m_bPassHash r then (64, Some (m_vPassData r @ t1)) else (0, None)),
      (2, Some (be16 (m_ui16Profile r) @ t2)),
      (if m_bPassHash r then (0, None)
       else (word_of_nat (length (m_vPassData r) - 1), Some (butlast (m_vPassData r) @ t1)))])"
proof -
  have l: "m_bPassHash r \<Longrightarrow> length (m_vPassData r) = 64" using st by (simp add: storable_reg_def)
  show ?thesis
    using l by (auto simp: reg_subs_def take_sub_def item_length_def numeral_eq_Suc title_bytes_def)
qed

lemma unat_u16: "n < 65536 \<Longrightarrow> unat (word_of_nat n :: u16) = n"
  by (simp add: unat_of_nat)

lemma reg_of_item_run:
  assumes st: "storable_reg iProfilesCount r" and h: "reg_ui32Hash r = HashNick (reg_sNick r)"
  shows "reg_of_item HASH_PASSWORDS HashPassword iProfilesCount
      (snd (take_subs (idents ''NIPSPRPA'') 3 1 w (reg_subs r) (0, replicate 4 (0, None)))) = Inr (Some (reloaded HASH_PASSWORDS HashPassword r))"
proof -
  from reg_fields [OF st, of w] obtain t0 t1 t2 where f: "snd (take_subs (idents ''NIPSPRPA'') 3 1 w (reg_subs r) (0, replicate 4 (0, None))) =
     [(word_of_nat (length (reg_sNick r)), Some (title_bytes (reg_sNick r) @ t0)),
      (if m_bPassHash r then (64, Some (m_vPassData r @ t1)) else (0, None)),
      (2, Some (be16 (m_ui16Profile r) @ t2)),
      (if m_bPassHash r then (0, None)
       else (word_of_nat (length (m_vPassData r) - 1), Some (butlast (m_vPassData r) @ t1)))]" (is "_ = ?fs") by auto
  have n: "length (reg_sNick r) < 65" "m_ui16Profile r \<le> iProfilesCount" using st by (simp_all add: storable_reg_def)
  have pr: "field_bytes 2 ?fs 2 = Inr (be16 (m_ui16Profile r))" by (simp add: field_bytes_def)
  have rd: "rd16 (be16 (m_ui16Profile r)) = m_ui16Profile r" using rd16_be16 [of "m_ui16Profile r" "[]"] by simp
  have len0: "field_len ?fs 0 = length (reg_sNick r)" using n(1) by (simp add: field_len_def unat_u16)
  have nick: "field_text ?fs 0 = Inr (title_bytes (reg_sNick r))"
    using n(1) len0 by (auto simp: field_text_def field_bytes_def title_bytes_def)
  have len2: "field_len ?fs 2 = 2" by (simp add: field_len_def)
  show ?thesis
  proof (cases "m_bPassHash r")
    case True
    then have l: "length (m_vPassData r) = 64" using st by (simp add: storable_reg_def)
    have "field_len ?fs 1 = 64" "field_len ?fs 3 = 0" "field_bytes 64 ?fs 1 = Inr (m_vPassData r)"
      using True l by (simp_all add: field_len_def field_bytes_def)
    with True n pr rd len0 len2 nick h show ?thesis
      unfolding f by (simp add: reg_of_item_def Let_def CreateReg_def reloaded_def not_less)
  next
    case False
    then obtain p where p: "m_vPassData r = pass_bytes p" "p \<noteq> []" "length p < 60000" using st by (auto simp: storable_reg_def)
    have b: "butlast (m_vPassData r) = p" "length (m_vPassData r) - 1 = length p" using p by (simp_all add: pass_bytes_def)
    have l3: "field_len ?fs 1 = 0" "field_len ?fs 3 = length p" using False p b by (simp_all add: field_len_def unat_u16)
    then have "field_text ?fs 3 = Inr p" using False b p by (simp add: field_text_def field_bytes_def)
    with False n pr rd len0 len2 nick l3 h p b show ?thesis
      unfolding f
      by (cases "HashPassword p") (simp_all add: reg_of_item_def Let_def CreateReg_def reloaded_def not_less)
  qed
qed

definition load_into :: "RegUser \<Rightarrow> RegManager \<Rightarrow> RegManager" where
  "load_into r R = (case add_new_reg r R of Inl e \<Rightarrow> R | Inr (R1, _) \<Rightarrow> R1)"

lemma load_into_run:
  assumes "reg_inv R" and "reg_ui32Hash r = HashNick (reg_sNick r)"
  shows "\<exists>a. add_new_reg r R = Inr (load_into r R, a)" and "reg_inv (load_into r R)"
    and "regs_of (load_into r R) = regs_of R @ [r]"
proof -
  from add_new_reg_run [OF assms] obtain R' where R: "add_new_reg r R = Inr (R', rg_next R)" "reg_inv R'"
    "rg_heap R' = (rg_heap R)(rg_next R \<mapsto> r)" "m_RegList R' = m_RegList R @ [rg_next R]" "rg_heap R (rg_next R) = None" by blast
  then have l: "load_into r R = R'" by (simp add: load_into_def)
  with R show "\<exists>a. add_new_reg r R = Inr (load_into r R, a)" "reg_inv (load_into r R)" by auto
  have "set (m_RegList R) = dom (rg_heap R)" using assms(1) by (simp add: reg_inv_def)
  with R(5) have "rg_next R \<notin> set (m_RegList R)" by auto
  then have "map (\<lambda>a. the (((rg_heap R)(rg_next R \<mapsto> r)) a)) (m_RegList R) = regs_of R" by (auto simp: regs_of_def)
  then show "regs_of (load_into r R) = regs_of R @ [r]" unfolding l by (simp add: regs_of_def R(3,4))
qed

lemma regs_of_new [simp]: "regs_of new_RegManager = []"
  by (simp add: regs_of_def new_RegManager_def)

lemma load_into_all:
  "reg_inv R \<Longrightarrow> \<forall>x \<in> set xs. reg_ui32Hash (f x) = HashNick (reg_sNick (f x)) \<Longrightarrow>
   reg_inv (foldl (\<lambda>R x. load_into (f x) R) R xs) \<and> regs_of (foldl (\<lambda>R x. load_into (f x) R) R xs) = regs_of R @ map f xs"
proof (induction xs arbitrary: R)
  case (Cons x xs)
  then show ?case using load_into_run [of R "f x"] by simp
qed simp

lemma reloaded_fields [simp]:
  "reg_sNick (reloaded b hp r) = reg_sNick r" "reg_ui32Hash (reloaded b hp r) = reg_ui32Hash r"
  "m_ui16Profile (reloaded b hp r) = m_ui16Profile r"
  by (simp_all add: reloaded_def Let_def split: option.splits)

definition regs_size :: "RegManager \<Rightarrow> nat" where
  "regs_size R = length (enc (header_item sPtokaXRegiteredUsers)) + sum_list (map (\<lambda>r. length (enc (reg_subs r))) (regs_of R))"



end
