(* ===== verification/RegManager.thy ===== *)
theory RegManager
  imports RegFile ProfileManager UserSend
begin

text \<open>
  The operations of \<open>core/hashRegManager.cpp\<close> that combine the registry with the profiles and the online users: adding,
  changing and deleting a registration gives and takes the operator's key and the operators' chat at once.
  The list of operators (\<open>Users\<close>) and the queue of texts for everybody (\<open>GlobalDataQueue\<close>) are recorded as calls.
\<close>

record reg_env =
  re_hub :: hub_config
  re_zpipe :: "string \<Rightarrow> string option"
  HASH_PASSWORDS :: bool
  HashPassword :: pass_hash
  bServerRunning :: bool
  REG_OP_CHAT :: bool
  REG_BOT :: bool
  bBotsSameNick :: bool
  OP_CHAT_HELLO :: string
  OP_CHAT_MYINFO :: string
  OP_CHAT_NICK :: string

definition opchat_shown :: "reg_env \<Rightarrow> bool" where
  "opchat_shown env \<longleftrightarrow> REG_OP_CHAT env \<and> (\<not> REG_BOT env \<or> \<not> bBotsSameNick env)"

text \<open>Lifting an operation on the hub, and asking for a right of an online user.\<close>

definition on_hub :: "(hub \<Rightarrow> hub res) \<Rightarrow> site \<Rightarrow> site res" where
  "on_hub f st = rbind (f (st_hub st)) (\<lambda>H. Inr (st\<lparr>st_hub := H\<rparr>))"

definition user_allowed :: "addr \<Rightarrow> nat \<Rightarrow> site \<Rightarrow> bool res" where
  "user_allowed a opt st = rbind (the_user a (st_hub st)) (\<lambda>u. IsAllowed u opt (st_profiles st))"

definition set_profile :: "addr \<Rightarrow> int \<Rightarrow> site \<Rightarrow> site res" where
  "set_profile a i = on_hub (set_user a (\<lambda>u. u\<lparr>m_i32Profile := i\<rparr>))"

definition set_operator :: "addr \<Rightarrow> bool \<Rightarrow> site \<Rightarrow> site res" where
  "set_operator a on = on_hub (set_user a (\<lambda>u. u\<lparr>m_ui32BoolBits :=
     (if on then m_ui32BoolBits u OR BIT_OPERATOR else m_ui32BoolBits u AND NOT BIT_OPERATOR)\<rparr>))"

text \<open>The operators' chat shows up in, or leaves, the user's list.\<close>

definition show_opchat :: "reg_env \<Rightarrow> addr \<Rightarrow> hub \<Rightarrow> hub res" where
  "show_opchat env a H =
     (if \<not> opchat_shown env then Inr H
      else
        rbind (the_user a H) (\<lambda>u.
        rbind (if \<not> has_bits (m_ui32SupportBits u) SUPPORTBIT_NOHELLO
               then SendCharDelayed (re_hub env) (re_zpipe env) a (OP_CHAT_HELLO env) H else Inr H) (\<lambda>H1.
        rbind (SendCharDelayed (re_hub env) (re_zpipe env) a (OP_CHAT_MYINFO env) H1) (\<lambda>H2.
          SendFormat (re_hub env) (re_zpipe env) WouldBlock True a (''$OpList '' @ OP_CHAT_NICK env @ ''$$|'') H2))))"

definition hide_opchat :: "reg_env \<Rightarrow> addr \<Rightarrow> hub \<Rightarrow> hub res" where
  "hide_opchat env a H =
     (if \<not> opchat_shown env then Inr H
      else SendFormat (re_hub env) (re_zpipe env) WouldBlock True a (''$Quit '' @ OP_CHAT_NICK env @ ''|'') H)"

text \<open>Telling everybody of the key, unless the user hides it.\<close>

definition announce_key :: "addr \<Rightarrow> hub \<Rightarrow> hub res" where
  "announce_key a H =
     rbind (the_user a H) (\<lambda>u. Inr (
       if \<not> has_bits (m_ui32InfoBits u) INFOBIT_HIDE_KEY then call (OpListStore (m_sNick u)) (call (Add2OpList a) H) else H))"

definition announce_no_key :: "reg_env \<Rightarrow> addr \<Rightarrow> hub \<Rightarrow> hub res" where
  "announce_no_key env a H =
     rbind (the_user a H) (\<lambda>u.
       if has_bits (m_ui32InfoBits u) INFOBIT_HIDE_KEY then Inr H
       else
         let quit = ''$Quit '' @ m_sNick u @ ''|'';
             H1 = (if CheckSprintf (int (length quit)) 128 then call (QuitQueued quit) H else H);
             opt = full_myinfo_option (re_hub env);
             H2 = (if opt = 0 then call (MyInfoQueued (m_sMyInfoLong u) []) H1
                   else if opt = 1 then call (MyInfoQueued (m_sMyInfoShort u) (m_sMyInfoLong u)) H1
                   else if opt = 2 then call (MyInfoQueued (m_sMyInfoShort u) []) H1
                   else H1)
         in Inr (call (DelFromOpList (m_sNick u)) H2))"

section \<open>Adding\<close>

definition promote_added :: "reg_env \<Rightarrow> addr \<Rightarrow> u16 \<Rightarrow> site \<Rightarrow> site res" where
  "promote_added env a iProfile st =
     rbind (user_allowed a ALLOWEDOPCHAT st) (\<lambda>bAllowedOpChat.
     rbind (set_profile a (int (unat iProfile)) st) (\<lambda>st1.
     rbind (the_user a (st_hub st1)) (\<lambda>u.
       if has_bits (m_ui32BoolBits u) BIT_OPERATOR then Inr st1
       else
         rbind (user_allowed a HASKEYICON st1) (\<lambda>key.
         rbind (set_operator a key st1) (\<lambda>st2.
           if \<not> key then Inr st2
           else
             rbind (on_hub (announce_key a) st2) (\<lambda>st3.
             rbind (user_allowed a ALLOWEDOPCHAT st3) (\<lambda>now.
               if bAllowedOpChat \<noteq> now then on_hub (show_opchat env a) st3 else Inr st3)))))))"

definition make_reg :: "reg_env \<Rightarrow> string \<Rightarrow> string \<Rightarrow> u16 \<Rightarrow> RegUser option" where
  "make_reg env sNick sPasswd iProfile =
     (if HASH_PASSWORDS env then
        (case HashPassword env (bytes_of sPasswd) of
           None \<Rightarrow> None
         | Some h \<Rightarrow> CreateReg sNick None (Some h) iProfile)
      else CreateReg sNick (Some (bytes_of sPasswd)) None iProfile)"

text \<open>The online effects of an operation on the user with the nick, if there is one.\<close>

definition online :: "reg_env \<Rightarrow> string \<Rightarrow> (addr \<Rightarrow> site \<Rightarrow> site res) \<Rightarrow> site \<Rightarrow> site res" where
  "online env nick f st =
     (if \<not> bServerRunning env then Inr st
      else case HM_FindUser_nick (hub_users (st_hub st)) nick of None \<Rightarrow> Inr st | Some a \<Rightarrow> f a st)"

definition AddNew :: "reg_env \<Rightarrow> string \<Rightarrow> string \<Rightarrow> u16 \<Rightarrow> site \<Rightarrow> (site \<times> bool) res" where
  "AddNew env sNick sPasswd iProfile st =
     rbind (Reg_Find sNick (st_regs st)) (\<lambda>found.
       if found \<noteq> None then Inr (st, False)
       else case make_reg env sNick sPasswd iProfile of
         None \<Rightarrow> Inr (st, False)
       | Some pNewUser \<Rightarrow>
           rbind (add_new_reg pNewUser (st_regs st)) (\<lambda>(R1, _).
           rbind (Reg_Save True False R1) (\<lambda>R2.
           rbind (online env (reg_sNick pNewUser) (\<lambda>a. promote_added env a iProfile) (st\<lparr>st_regs := R2\<rparr>)) (\<lambda>st1.
             Inr (st1, True)))))"

section \<open>Changing\<close>

definition regrade :: "reg_env \<Rightarrow> addr \<Rightarrow> u16 \<Rightarrow> site \<Rightarrow> site res" where
  "regrade env a ui16NewProfile st =
     rbind (user_allowed a ALLOWEDOPCHAT st) (\<lambda>bAllowedOpChat.
     rbind (set_profile a (int (unat ui16NewProfile)) st) (\<lambda>st1.
     rbind (the_user a (st_hub st1)) (\<lambda>u.
     rbind (user_allowed a HASKEYICON st1) (\<lambda>key.
     rbind (if has_bits (m_ui32BoolBits u) BIT_OPERATOR \<noteq> key then
              rbind (set_operator a key st1) (on_hub (if key then announce_key a else announce_no_key env a))
            else Inr st1) (\<lambda>st2.
     rbind (user_allowed a ALLOWEDOPCHAT st2) (\<lambda>now.
       if bAllowedOpChat \<noteq> now then on_hub (if now then show_opchat env a else hide_opchat env a) st2 else Inr st2))))))"

definition ChangeReg :: "reg_env \<Rightarrow> addr \<Rightarrow> string option \<Rightarrow> u16 \<Rightarrow> site \<Rightarrow> site res" where
  "ChangeReg env pReg sNewPasswd ui16NewProfile st =
     rbind (deref (rg_heap (st_regs st)) pReg) (\<lambda>r.
     rbind (case sNewPasswd of
              None \<Rightarrow> Inr r
            | Some p \<Rightarrow> UpdatePassword (HASH_PASSWORDS env) (HashPassword env) (bytes_of p) r) (\<lambda>r1.
     rbind (Reg_Save True False ((st_regs st)\<lparr>rg_heap := (rg_heap (st_regs st))(pReg \<mapsto> r1\<lparr>m_ui16Profile := ui16NewProfile\<rparr>)\<rparr>)) (\<lambda>R.
       online env (reg_sNick r) (\<lambda>a st1.
         rbind (the_user a (st_hub st1)) (\<lambda>u.
           if m_i32Profile u \<noteq> int (unat ui16NewProfile) then regrade env a ui16NewProfile st1 else Inr st1))
         (st\<lparr>st_regs := R\<rparr>))))"

section \<open>Deleting\<close>

definition degrade :: "reg_env \<Rightarrow> addr \<Rightarrow> site \<Rightarrow> site res" where
  "degrade env a st =
     rbind (set_profile a (-1) st) (\<lambda>st1.
     rbind (the_user a (st_hub st1)) (\<lambda>u.
       if \<not> has_bits (m_ui32BoolBits u) BIT_OPERATOR then Inr st1
       else
         rbind (set_operator a False (st1\<lparr>st_hub := call (DelFromOpList (m_sNick u)) (st_hub st1)\<rparr>))
           (on_hub (hide_opchat env a))))"

definition Reg_Delete :: "reg_env \<Rightarrow> addr \<Rightarrow> site \<Rightarrow> site res" where
  "Reg_Delete env pReg st =
     rbind (deref (rg_heap (st_regs st)) pReg) (\<lambda>r.
     rbind (online env (reg_sNick r) (degrade env) st) (\<lambda>st1.
     rbind (Reg_Rem pReg (st_regs st1)) (\<lambda>R1.
     rbind (Reg_Save True False R1) (\<lambda>R2. Inr (st1\<lparr>st_regs := R2\<rparr>)))))"

end
