(* ===== verification/RegPrivileges.thy ===== *)
theory RegPrivileges
  imports RegManager ProfileRights
begin

text \<open>
  The registry as a map from nicks to registrations, whatever the case of their letters, and the privileges of the
  online users, which follow their registration: what \<open>AddNew\<close>, \<open>ChangeReg\<close> and \<open>Delete\<close> do to both.
\<close>

section \<open>Rank of an online user\<close>

text \<open>The profile and the operator flag; sending texts and closing do not touch them.\<close>

definition rank :: "User \<Rightarrow> int \<times> bool" where
  "rank u = (m_i32Profile u, has_bits (m_ui32BoolBits u) BIT_OPERATOR)"

text \<open>The user has the rank, and its send buffer has room for \<open>n\<close> bytes or it is being closed.\<close>

definition ranked :: "int \<times> bool \<Rightarrow> nat \<Rightarrow> addr \<Rightarrow> hub \<Rightarrow> bool" where
  "ranked k n a H \<longleftrightarrow> alive a H \<and> (\<exists>u. the_user a H = Inr u \<and> rank u = k
     \<and> (isPastLogin (m_ui8State u) \<or> length (sb_data (m_SendBuf u)) + n < 2 ^ 31))"

lemma rankedE:
  assumes "ranked k n a H"
  obtains u ch where "hub_rel H ch" and "hm_users (hub_users H) a = Some u" and "the_user a H = Inr u" and "rank u = k"
    and "isPastLogin (m_ui8State u) \<or> length (sb_data (m_SendBuf u)) + n < 2 ^ 31"
proof -
  from assms have "alive a H" by (simp add: ranked_def)
  from aliveE [OF this] obtain u ch where u: "hub_rel H ch" "hm_users (hub_users H) a = Some u" "the_user a H = Inr u" .
  with assms that show ?thesis by (auto simp: ranked_def)
qed

lemma ranked_mono: "ranked k n a H \<Longrightarrow> m \<le> n \<Longrightarrow> ranked k m a H"
  by (auto simp: ranked_def)

lemma ranked_call [simp]: "ranked k n a (call c H) = ranked k n a H"
  by (simp add: ranked_def)

lemma operator_bit_error [simp]: "has_bits (w OR BIT_ERROR) BIT_OPERATOR = has_bits w BIT_OPERATOR"
  by (rule has_bits_or_disjoint) (simp add: user_bits)

lemma rank_closed [simp]: "rank (closed_user u) = rank u"
proof -
  have "has_bits (w AND NOT BIT_HAVE_SHARECOUNTED) BIT_OPERATOR = has_bits w BIT_OPERATOR" for w :: u32
    by (rule has_bits_clear_disjoint) (simp add: user_bits)
  then show ?thesis by (simp add: rank_def closed_user_def Let_def)
qed

lemma put_in_buf_length:
  assumes "buf_ok b" and "put_in_buf m keep t b = Inr (Some b')"
  shows "length (sb_data b') \<le> length (sb_data b) + 1 + length t"
proof -
  let ?b0 = "b\<lparr>sb_called := sb_called b + 1\<rparr>"
  have h: "sb_head ?b0 \<le> length (sb_data ?b0)" using assms(1) by (simp add: buf_ok_def)
  have room: "length (sb_data b1) \<le> length (sb_data b) + 1" if "make_room m keep (length t) ?b0 = Room b1 al" for b1 al
    using that keep_slow_cut_length [OF h, of "length t" m] by (auto simp: make_room_def Let_def split: if_splits)
  from assms(2) obtain b1 al b2 where 1: "make_room m keep (length t) ?b0 = Room b1 al"
    and 2: "reallocate al b1 = Inr b2" and 3: "append_data t b2 = Inr b'"
    by (auto simp: put_in_buf_def Let_def rbind_Inr_iff split: room.splits)
  from 2 have "sb_data b2 = sb_data b1" by (auto simp: reallocate_def split: if_splits)
  with 3 room [OF 1] show ?thesis by (auto simp: append_data_def split: if_splits)
qed

lemma PutInSendBuf_ranked:
  assumes rk: "ranked k (n + 1 + length t) a H" and t: "t \<noteq> []" and np: "\<forall>u. the_user a H = Inr u \<longrightarrow> \<not> isPastLogin (m_ui8State u)"
  shows "\<exists>H' ok. PutInSendBuf cfg a t H = Inr (H', ok) \<and> ranked k n a H'"
proof -
  from rankedE [OF rk] obtain u ch where u: "hub_rel H ch" "hm_users (hub_users H) a = Some u" "the_user a H = Inr u" "rank u = k"
    and l: "length (sb_data (m_SendBuf u)) + (n + 1 + length t) < 2 ^ 31" using np by metis
  have np': "\<not> isPastLogin (m_ui8State u)" using np u(3) by blast
  have al: "alive a H" using rk by (simp add: ranked_def)
  have ok: "buf_ok (m_SendBuf u)" using u by (auto simp: hub_rel_def user_ok_def)
  have f: "fits t (m_SendBuf u)" using l t by (auto simp: fits_def)
  let ?m = "max_buf_len (has_bits (m_ui32BoolBits u) BIT_BIG_SEND_BUFFER) (m_ui32MyInfosTagLen H) (m_ui32MyInfosLen H)"
  let ?k = "keep_slow_users cfg \<and> \<not> has_bits (m_ui32SupportBits u) SUPPORTBIT_ZPIPE"
  from put_in_buf_run [OF ok f, of ?m ?k] consider
      (over) "put_in_buf ?m ?k t (m_SendBuf u) = Inr None"
    | (app) b where "put_in_buf ?m ?k t (m_SendBuf u) = Inr (Some b)" "buf_ok b" by blast
  then show ?thesis
  proof cases
    case app
    let ?f = "\<lambda>u. u\<lparr>m_SendBuf := b\<rparr>"
    have s: "set_user a ?f H = Inr (upd a ?f H) \<and> alive a (upd a ?f H)"
      by (rule set_user_alive [OF al]) (use app(2) in \<open>simp_all add: keeps_def\<close>)
    have "length (sb_data b) + n < 2 ^ 31" using put_in_buf_length [OF ok app(1)] l by linarith
    then have "ranked k n a (upd a ?f H)" using s u by (simp add: ranked_def rank_def)
    with u(3) app(1) s show ?thesis by (auto simp: PutInSendBuf_def)
  next
    case over
    let ?f = "\<lambda>u :: User. u\<lparr>m_ui32BoolBits := m_ui32BoolBits u OR BIT_ERROR,
        m_SendBuf := (m_SendBuf u)\<lparr>sb_called := sb_called (m_SendBuf u) + 1\<rparr>\<rparr>"
    let ?H1 = "call (DebugBroadcast ''SendBuffer overflow'') (upd a ?f H)"
    have s: "set_user a ?f H = Inr (upd a ?f H) \<and> alive a (upd a ?f H)"
      by (rule set_user_alive [OF al]) (simp_all add: keeps_def bit_error_hashed buf_ok_def)
    then have "alive a ?H1" by simp
    from aliveE [OF this] obtain ch1 u1 where h: "hub_rel ?H1 ch1" by blast
    have u1: "hm_users (hub_users ?H1) a = Some (?f u)" using u by simp
    from User_Close_run [OF h u1, of cfg False] np' obtain H' ch' where
      c: "User_Close cfg a False ?H1 = Inr H'" "hub_rel H' ch'" "hm_users (hub_users H') a = Some (closed_user (clear_user_links (?f u)))" by auto
    have "ranked k n a H'"
      using c(2,3) u(4) by (auto simp: ranked_def alive_def hub_inv_def the_user_def ub_simps deref_def) (auto simp: rank_def)
    with u(3) over s c(1) show ?thesis by (auto simp: PutInSendBuf_def)
  qed
qed

lemma queue_delayed_ranked:
  assumes rk: "ranked k (n + 1 + length t) a H" and t: "t \<noteq> []" and np: "\<forall>u. the_user a H = Inr u \<longrightarrow> \<not> isPastLogin (m_ui8State u)"
    and z: "zpipe_law zp"
  shows "\<exists>H'. queue_text cfg zp sock False a t H = Inr H' \<and> ranked k n a H'"
proof -
  from rankedE [OF rk] obtain u where u: "the_user a H = Inr u" .
  have put: "\<exists>H'. put_and_send cfg sock False a x H = Inr H' \<and> ranked k n a H'" if "x \<noteq> []" "length x \<le> length t" for x
    using PutInSendBuf_ranked [OF ranked_mono [OF rk] that(1) np, of n cfg] that(2) by (auto simp: put_and_send_def)
  have saved: "ranked k n a (H'\<lparr>m_ui64BytesSentSaved := x\<rparr>) = ranked k n a H'" for H' x by (simp add: ranked_def the_user_def)
  show ?thesis
  proof (cases "zp t")
    case None
    with put [of t] t u show ?thesis by (auto simp: queue_text_def)
  next
    case (Some d)
    with z have "d \<noteq> []" "length d \<le> length t" by (auto simp: zpipe_law_def)
    with put [of t] put [of d] t u Some show ?thesis by (auto simp: queue_text_def saved)
  qed
qed

lemma SendCharDelayed_ranked:
  assumes "ranked k (n + 1 + length t) a H" and "zpipe_law zp"
  shows "\<exists>H'. SendCharDelayed cfg zp a t H = Inr H' \<and> ranked k n a H'"
proof -
  from rankedE [OF assms(1)] obtain u where u: "the_user a H = Inr u" .
  have "ranked k n a H" by (rule ranked_mono [OF assms(1)]) simp
  with queue_delayed_ranked [OF assms(1) _ _ assms(2), of cfg WouldBlock] u show ?thesis by (auto simp: SendCharDelayed_def)
qed

lemma SendFormat_ranked:
  assumes "ranked k (n + 1 + global_buffer_size cfg) a H" and "zpipe_law zp"
  shows "\<exists>H'. SendFormat cfg zp sock True a t H = Inr H' \<and> ranked k n a H'"
proof -
  from rankedE [OF assms(1)] obtain u where u: "the_user a H = Inr u" .
  have 1: "ranked k n a H" by (rule ranked_mono [OF assms(1)]) simp
  have 2: "ranked k (n + 1 + length t) a H" if "length t < global_buffer_size cfg" by (rule ranked_mono [OF assms(1)]) (use that in simp)
  from 1 queue_delayed_ranked [OF 2 _ _ assms(2), of cfg sock] u show ?thesis by (auto simp: SendFormat_def)
qed

section \<open>The steps of a promotion\<close>

definition opchat_room :: "reg_env \<Rightarrow> nat" where
  "opchat_room env = length (OP_CHAT_HELLO env) + length (OP_CHAT_MYINFO env) + global_buffer_size (re_hub env) + 3"

lemma show_opchat_ranked:
  assumes rk: "ranked k (opchat_room env) a H" and z: "zpipe_law (re_zpipe env)"
  shows "\<exists>H'. show_opchat env a H = Inr H' \<and> ranked k 0 a H'"
proof -
  let ?g = "global_buffer_size (re_hub env)" and ?m = "length (OP_CHAT_MYINFO env)"
  from rankedE [OF rk] obtain u where u: "the_user a H = Inr u" .
  have r1: "ranked k (0 + 1 + ?g + 1 + ?m + 1 + length (OP_CHAT_HELLO env)) a H"
    by (rule ranked_mono [OF rk]) (simp add: opchat_room_def)
  then have r1': "ranked k (0 + 1 + ?g + 1 + ?m) a H" by (rule ranked_mono) simp
  have "\<exists>H1. (if \<not> has_bits (m_ui32SupportBits u) SUPPORTBIT_NOHELLO
      then SendCharDelayed (re_hub env) (re_zpipe env) a (OP_CHAT_HELLO env) H else Inr H) = Inr H1 \<and> ranked k (0 + 1 + ?g + 1 + ?m) a H1"
    using SendCharDelayed_ranked [OF r1 z] r1' by simp
  then obtain H1 where 1: "(if \<not> has_bits (m_ui32SupportBits u) SUPPORTBIT_NOHELLO
      then SendCharDelayed (re_hub env) (re_zpipe env) a (OP_CHAT_HELLO env) H else Inr H) = Inr H1" "ranked k (0 + 1 + ?g + 1 + ?m) a H1" by blast
  from SendCharDelayed_ranked [OF 1(2) z] obtain H2 where
    2: "SendCharDelayed (re_hub env) (re_zpipe env) a (OP_CHAT_MYINFO env) H1 = Inr H2" "ranked k (0 + 1 + ?g) a H2" by blast
  from SendFormat_ranked [OF 2(2) z] obtain H3 where
    3: "SendFormat (re_hub env) (re_zpipe env) WouldBlock True a (''$OpList '' @ OP_CHAT_NICK env @ ''$$|'') H2 = Inr H3" "ranked k 0 a H3" by blast
  have "ranked k 0 a H" by (rule ranked_mono [OF rk]) simp
  then show ?thesis using u 1(1) 2(1) 3 by (simp add: show_opchat_def)
qed

lemma hide_opchat_ranked:
  assumes rk: "ranked k (opchat_room env) a H" and z: "zpipe_law (re_zpipe env)"
  shows "\<exists>H'. hide_opchat env a H = Inr H' \<and> ranked k 0 a H'"
proof -
  have 1: "ranked k (0 + 1 + global_buffer_size (re_hub env)) a H" by (rule ranked_mono [OF rk]) (simp add: opchat_room_def)
  have "ranked k 0 a H" by (rule ranked_mono [OF rk]) simp
  with SendFormat_ranked [OF 1 z] show ?thesis by (simp add: hide_opchat_def)
qed

lemma announce_ranked:
  assumes "ranked k n a H"
  shows "\<exists>H'. announce_key a H = Inr H' \<and> ranked k n a H'" and "\<exists>H'. announce_no_key env a H = Inr H' \<and> ranked k n a H'"
proof -
  from rankedE [OF assms] obtain u where u: "the_user a H = Inr u" .
  with assms show "\<exists>H'. announce_key a H = Inr H' \<and> ranked k n a H'" by (simp add: announce_key_def)
  from u assms show "\<exists>H'. announce_no_key env a H = Inr H' \<and> ranked k n a H'" by (simp add: announce_no_key_def Let_def)
qed

lemma set_profile_ranked:
  assumes rk: "ranked (i, op) n a (st_hub st)"
  shows "\<exists>H. set_profile a j st = Inr (st\<lparr>st_hub := H\<rparr>) \<and> ranked (j, op) n a H"
proof -
  from rankedE [OF rk] obtain u where u: "the_user a (st_hub st) = Inr u" "rank u = (i, op)"
    "isPastLogin (m_ui8State u) \<or> length (sb_data (m_SendBuf u)) + n < 2 ^ 31" .
  let ?f = "\<lambda>u. u\<lparr>m_i32Profile := j\<rparr>"
  have "set_user a ?f (st_hub st) = Inr (upd a ?f (st_hub st)) \<and> alive a (upd a ?f (st_hub st))"
    by (rule set_user_alive) (use rk in \<open>simp_all add: ranked_def keeps_def\<close>)
  with u show ?thesis by (auto simp: set_profile_def on_hub_def ranked_def rank_def)
qed

lemma set_operator_ranked:
  assumes rk: "ranked (i, op) n a (st_hub st)"
  shows "\<exists>H. set_operator a on st = Inr (st\<lparr>st_hub := H\<rparr>) \<and> ranked (i, on) n a H"
proof -
  from rankedE [OF rk] obtain u where u: "the_user a (st_hub st) = Inr u" "rank u = (i, op)"
    "isPastLogin (m_ui8State u) \<or> length (sb_data (m_SendBuf u)) + n < 2 ^ 31" .
  let ?f = "\<lambda>u. u\<lparr>m_ui32BoolBits := (if on then m_ui32BoolBits u OR BIT_OPERATOR else m_ui32BoolBits u AND NOT BIT_OPERATOR)\<rparr>"
  have h: "has_bits (w OR BIT_OPERATOR) BIT_HASHED = has_bits w BIT_HASHED"
    "has_bits (w AND NOT BIT_OPERATOR) BIT_HASHED = has_bits w BIT_HASHED" for w :: u32
    by (rule has_bits_or_disjoint has_bits_clear_disjoint; simp add: user_bits)+
  have o: "has_bits (if on then w OR BIT_OPERATOR else w AND NOT BIT_OPERATOR) BIT_OPERATOR = on" for w :: u32
    using has_bits_clear [of BIT_OPERATOR w] by (simp add: user_bits)
  have "set_user a ?f (st_hub st) = Inr (upd a ?f (st_hub st)) \<and> alive a (upd a ?f (st_hub st))"
    by (rule set_user_alive) (use rk h in \<open>simp_all add: ranked_def keeps_def\<close>)
  with u o show ?thesis by (auto simp: set_operator_def on_hub_def ranked_def rank_def)
qed

text \<open>A right of a profile number, for those that are in range.\<close>

definition right :: "ProfileManager \<Rightarrow> int \<Rightarrow> nat \<Rightarrow> bool" where
  "right P i opt = (case IsProfileAllowed i opt P of Inr b \<Rightarrow> b | Inl _ \<Rightarrow> False)"

lemma IsProfileAllowed_right:
  assumes "numbered P i" and "pm_ok P" and "opt < 256"
  shows "IsProfileAllowed i opt P = Inr (right P i opt)"
  using assms(1,2)
proof (cases rule: numberedE)
  case 1
  then show ?thesis by (simp add: right_def)
next
  case (2 k)
  from pm_ok_at [OF assms(2) 2(2)] obtain p where "m_vpProfilesTable P ! k = Some p" "length (m_bPermissions p) = 256" by blast
  then show ?thesis using 2 assms(3) by (simp add: right_def IsProfileAllowed_def profile_at_nat)
qed

lemma user_allowed_run:
  assumes "ranked (i, op) n a (st_hub st)" and "numbered (st_profiles st) i" and "pm_ok (st_profiles st)" and "opt < 256"
  shows "user_allowed a opt st = Inr (right (st_profiles st) i opt)"
proof -
  from rankedE [OF assms(1)] obtain u where u: "the_user a (st_hub st) = Inr u" "rank u = (i, op)" .
  from u(2) have "m_i32Profile u = i" by (simp add: rank_def)
  with u(1) IsProfileAllowed_right [OF assms(2-4)] show ?thesis by (simp add: user_allowed_def IsAllowed_def)
qed

lemma key_numbers [simp]: "HASKEYICON < 256" "ALLOWEDOPCHAT < 256"
  by (simp_all add: HASKEYICON_def ALLOWEDOPCHAT_def)

lemma on_hub_ranked:
  "\<exists>H'. f (st_hub st) = Inr H' \<and> ranked k n a H' \<Longrightarrow> \<exists>H'. on_hub f st = Inr (st\<lparr>st_hub := H'\<rparr>) \<and> ranked k n a H'"
  by (auto simp: on_hub_def)

lemma profile_in_range: "p < m_ui16ProfileCount P \<Longrightarrow> numbered P (int (unat p))"
  by (simp add: numbered_def word_less_nat_alt del: of_nat_unat)

text \<open>What the site looks like after an operation on one online user.\<close>

definition regraded :: "addr \<Rightarrow> int \<times> bool \<Rightarrow> site \<Rightarrow> site \<Rightarrow> bool" where
  "regraded a k st st' \<longleftrightarrow> (\<exists>H. st' = st\<lparr>st_hub := H\<rparr> \<and> ranked k 0 a H)"

lemma regraded_hub: "regraded a k (st\<lparr>st_hub := H\<rparr>) st' \<Longrightarrow> regraded a k st st'"
  by (auto simp: regraded_def)

lemma promote_added_run:
  assumes rk: "ranked (i, op) (opchat_room env) a (st_hub st)" and i: "numbered (st_profiles st) i"
    and P: "pm_ok (st_profiles st)" and p: "p < m_ui16ProfileCount (st_profiles st)" and z: "zpipe_law (re_zpipe env)"
  shows "\<exists>st'. promote_added env a p st = Inr st'
    \<and> regraded a (int (unat p), op \<or> right (st_profiles st) (int (unat p)) HASKEYICON) st st'"
proof -
  let ?P = "st_profiles st" and ?j = "int (unat p)"
  let ?key = "right ?P ?j HASKEYICON"
  note j = profile_in_range [OF p]
  have c0: "user_allowed a ALLOWEDOPCHAT st = Inr (right ?P i ALLOWEDOPCHAT)" by (rule user_allowed_run [OF rk i P]) simp
  from set_profile_ranked [OF rk, of ?j] obtain H1 where s1: "set_profile a ?j st = Inr (st\<lparr>st_hub := H1\<rparr>)"
    "ranked (?j, op) (opchat_room env) a H1" by blast
  let ?st1 = "st\<lparr>st_hub := H1\<rparr>"
  from rankedE [OF s1(2)] obtain u where u: "the_user a H1 = Inr u" "rank u = (?j, op)" .
  have opu: "has_bits (m_ui32BoolBits u) BIT_OPERATOR = op" using u(2) by (simp add: rank_def)
  show ?thesis
  proof (cases op)
    case True
    have "promote_added env a p st = Inr ?st1" using c0 s1(1) u(1) opu True by (simp add: promote_added_def del: of_nat_unat)
    moreover have "ranked (?j, True) 0 a H1" using ranked_mono [OF s1(2), of 0] True by (simp del: of_nat_unat)
    ultimately show ?thesis using True by (auto simp: regraded_def simp del: of_nat_unat)
  next
    case False
    have c1: "user_allowed a HASKEYICON ?st1 = Inr ?key"
      using user_allowed_run [of ?j op "opchat_room env" a ?st1 HASKEYICON] s1(2) j P by (simp del: of_nat_unat)
    from set_operator_ranked [of ?j op "opchat_room env" a ?st1 ?key] s1(2) obtain H2 where
      s2: "set_operator a ?key ?st1 = Inr (st\<lparr>st_hub := H2\<rparr>)" "ranked (?j, ?key) (opchat_room env) a H2" by (auto simp del: of_nat_unat)
    let ?st2 = "st\<lparr>st_hub := H2\<rparr>"
    show ?thesis
    proof (cases ?key)
      case no: False
      have "promote_added env a p st = Inr ?st2" using c0 s1(1) u(1) opu False c1 s2(1) no by (simp add: promote_added_def del: of_nat_unat)
      moreover have "ranked (?j, ?key) 0 a H2" using ranked_mono [OF s2(2), of 0] by (simp del: of_nat_unat)
      ultimately show ?thesis using False by (auto simp: regraded_def simp del: of_nat_unat)
    next
      case key: True
      have "ranked (?j, ?key) (opchat_room env) a (st_hub ?st2)" using s2(2) by (simp del: of_nat_unat)
      from on_hub_ranked [where f = "announce_key a", OF announce_ranked(1) [OF this]] obtain H3 where
        s3: "on_hub (announce_key a) ?st2 = Inr (st\<lparr>st_hub := H3\<rparr>)" "ranked (?j, ?key) (opchat_room env) a H3" by (auto simp del: of_nat_unat)
      let ?st3 = "st\<lparr>st_hub := H3\<rparr>"
      have c3: "user_allowed a ALLOWEDOPCHAT ?st3 = Inr (right ?P ?j ALLOWEDOPCHAT)"
        using user_allowed_run [of ?j ?key "opchat_room env" a ?st3 ALLOWEDOPCHAT] s3(2) j P by (simp del: of_nat_unat)
      have "ranked (?j, ?key) (opchat_room env) a (st_hub ?st3)" using s3(2) by (simp del: of_nat_unat)
      from on_hub_ranked [where f = "show_opchat env a", OF show_opchat_ranked [OF this z]] obtain H4 where
        s4: "on_hub (show_opchat env a) ?st3 = Inr (st\<lparr>st_hub := H4\<rparr>)" "ranked (?j, ?key) 0 a H4" by (auto simp del: of_nat_unat)
      have z3: "ranked (?j, ?key) 0 a H3" using ranked_mono [OF s3(2), of 0] by (simp del: of_nat_unat)
      show ?thesis
        using c0 s1(1) u(1) opu False c1 s2(1) s3(1) c3 s4 z3 key
        by (cases "right ?P i ALLOWEDOPCHAT \<noteq> right ?P ?j ALLOWEDOPCHAT") (auto simp: promote_added_def regraded_def simp del: of_nat_unat)
    qed
  qed
qed

lemma announce_either:
  "ranked k n a (st_hub st) \<Longrightarrow>
   \<exists>H'. on_hub (if key then announce_key a else announce_no_key env a) st = Inr (st\<lparr>st_hub := H'\<rparr>) \<and> ranked k n a H'"
  by (rule on_hub_ranked) (simp add: announce_ranked)

lemma opchat_either:
  "ranked k (opchat_room env) a (st_hub st) \<Longrightarrow> zpipe_law (re_zpipe env) \<Longrightarrow>
   \<exists>H'. on_hub (if now then show_opchat env a else hide_opchat env a) st = Inr (st\<lparr>st_hub := H'\<rparr>) \<and> ranked k 0 a H'"
  by (rule on_hub_ranked) (simp add: show_opchat_ranked hide_opchat_ranked)

lemma regrade_run:
  assumes rk: "ranked (i, op) (opchat_room env) a (st_hub st)" and i: "numbered (st_profiles st) i"
    and P: "pm_ok (st_profiles st)" and p: "p < m_ui16ProfileCount (st_profiles st)" and z: "zpipe_law (re_zpipe env)"
  shows "\<exists>st'. regrade env a p st = Inr st' \<and> regraded a (int (unat p), right (st_profiles st) (int (unat p)) HASKEYICON) st st'"
proof -
  let ?P = "st_profiles st" and ?j = "int (unat p)" and ?r = "opchat_room env"
  let ?key = "right ?P ?j HASKEYICON" and ?now = "right ?P ?j ALLOWEDOPCHAT"
  note j = profile_in_range [OF p]
  have c0: "user_allowed a ALLOWEDOPCHAT st = Inr (right ?P i ALLOWEDOPCHAT)" by (rule user_allowed_run [OF rk i P]) simp
  from set_profile_ranked [OF rk, of ?j] obtain H1 where s1: "set_profile a ?j st = Inr (st\<lparr>st_hub := H1\<rparr>)"
    "ranked (?j, op) ?r a H1" by blast
  let ?st1 = "st\<lparr>st_hub := H1\<rparr>"
  from rankedE [OF s1(2)] obtain u where u: "the_user a H1 = Inr u" "rank u = (?j, op)" .
  have opu: "has_bits (m_ui32BoolBits u) BIT_OPERATOR = op" using u(2) by (simp add: rank_def)
  have c1: "user_allowed a HASKEYICON ?st1 = Inr ?key"
    using user_allowed_run [of ?j op ?r a ?st1 HASKEYICON] s1(2) j P by (simp del: of_nat_unat)
  let ?bits = "if op \<noteq> ?key then rbind (set_operator a ?key ?st1) (on_hub (if ?key then announce_key a else announce_no_key env a)) else Inr ?st1"
  have "\<exists>H2. ?bits = Inr (st\<lparr>st_hub := H2\<rparr>) \<and> ranked (?j, ?key) ?r a H2"
  proof (cases "op = ?key")
    case False
    from set_operator_ranked [of ?j op ?r a ?st1 ?key] s1(2) obtain Ha where
      a: "set_operator a ?key ?st1 = Inr (st\<lparr>st_hub := Ha\<rparr>)" "ranked (?j, ?key) ?r a Ha" by (auto simp del: of_nat_unat)
    have "ranked (?j, ?key) ?r a (st_hub (st\<lparr>st_hub := Ha\<rparr>))" using a(2) by (simp del: of_nat_unat)
    from announce_either [OF this, of ?key env] obtain Hb where
      "on_hub (if ?key then announce_key a else announce_no_key env a) (st\<lparr>st_hub := Ha\<rparr>) = Inr (st\<lparr>st_hub := Hb\<rparr>)"
      "ranked (?j, ?key) ?r a Hb" by (auto simp del: of_nat_unat)
    with a(1) False have "?bits = Inr (st\<lparr>st_hub := Hb\<rparr>) \<and> ranked (?j, ?key) ?r a Hb" by (simp del: of_nat_unat)
    then show ?thesis by blast
  qed (use s1(2) in \<open>auto simp del: of_nat_unat\<close>)
  then obtain H2 where s2: "?bits = Inr (st\<lparr>st_hub := H2\<rparr>)" and r2: "ranked (?j, ?key) ?r a H2" by blast
  let ?st2 = "st\<lparr>st_hub := H2\<rparr>"
  have c2: "user_allowed a ALLOWEDOPCHAT ?st2 = Inr ?now"
    using user_allowed_run [of ?j ?key ?r a ?st2 ALLOWEDOPCHAT] r2 j P by (simp del: of_nat_unat)
  have "ranked (?j, ?key) ?r a (st_hub ?st2)" using r2 by (simp del: of_nat_unat)
  from opchat_either [OF this z, of ?now] obtain H3 where
    s3: "on_hub (if ?now then show_opchat env a else hide_opchat env a) ?st2 = Inr (st\<lparr>st_hub := H3\<rparr>)" "ranked (?j, ?key) 0 a H3"
    by (auto simp del: of_nat_unat)
  have z2: "ranked (?j, ?key) 0 a H2" using ranked_mono [OF r2, of 0] by (simp del: of_nat_unat)
  have "regrade env a p st = (if right ?P i ALLOWEDOPCHAT \<noteq> ?now then Inr (st\<lparr>st_hub := H3\<rparr>) else Inr ?st2)"
    unfolding regrade_def c0 rbind.simps s1(1) using u(1) opu c1 s2 c2 s3(1) by (simp del: of_nat_unat)
  then show ?thesis
    using s3(2) z2 by (cases "right ?P i ALLOWEDOPCHAT \<noteq> ?now") (auto simp: regraded_def simp del: of_nat_unat)
qed

lemma degrade_run:
  assumes rk: "ranked (i, op) (opchat_room env) a (st_hub st)" and z: "zpipe_law (re_zpipe env)"
  shows "\<exists>st'. degrade env a st = Inr st' \<and> regraded a (-1, False) st st'"
proof -
  let ?r = "opchat_room env"
  from set_profile_ranked [OF rk, of "-1"] obtain H1 where s1: "set_profile a (-1) st = Inr (st\<lparr>st_hub := H1\<rparr>)"
    "ranked (-1, op) ?r a H1" by blast
  from rankedE [OF s1(2)] obtain u where u: "the_user a H1 = Inr u" "rank u = (-1, op)" .
  have opu: "has_bits (m_ui32BoolBits u) BIT_OPERATOR = op" using u(2) by (simp add: rank_def)
  show ?thesis
  proof (cases op)
    case False
    have "ranked (-1, False) 0 a H1" using ranked_mono [OF s1(2), of 0] False by simp
    with s1(1) u(1) opu False show ?thesis by (auto simp: degrade_def regraded_def)
  next
    case True
    let ?st1 = "st\<lparr>st_hub := call (DelFromOpList (m_sNick u)) H1\<rparr>"
    have "ranked (-1, op) ?r a (st_hub ?st1)" using s1(2) by simp
    from set_operator_ranked [OF this, of False] obtain H2 where s2: "set_operator a False ?st1 = Inr (st\<lparr>st_hub := H2\<rparr>)"
      "ranked (-1, False) ?r a H2" by auto
    have "ranked (-1, False) ?r a (st_hub (st\<lparr>st_hub := H2\<rparr>))" using s2(2) by simp
    from on_hub_ranked [where f = "hide_opchat env a", OF hide_opchat_ranked [OF this z]] obtain H3 where
      s3: "on_hub (hide_opchat env a) (st\<lparr>st_hub := H2\<rparr>) = Inr (st\<lparr>st_hub := H3\<rparr>)" "ranked (-1, False) 0 a H3" by auto
    have "degrade env a st = Inr (st\<lparr>st_hub := H3\<rparr>)"
      unfolding degrade_def s1(1) rbind.simps using u(1) opu True s2(1) s3(1) by simp
    with s3(2) show ?thesis by (auto simp: regraded_def)
  qed
qed

section \<open>Saving never fails\<close>

text \<open>What fits an item of the file.\<close>

definition reg_fit :: "RegUser \<Rightarrow> bool" where
  "reg_fit r \<longleftrightarrow> length (reg_sNick r) < 60000
     \<and> (if m_bPassHash r then length (m_vPassData r) = 64
        else (\<exists>p. m_vPassData r = pass_bytes p \<and> length p < 60000))"

definition regs_fit :: "RegManager \<Rightarrow> bool" where
  "regs_fit R \<longleftrightarrow> (\<forall>a r. rg_heap R a = Some r \<longrightarrow> reg_fit r)"

lemma reg_item_fit:
  assumes "reg_fit r" and "h a = Some r"
  shows "reg_item h a = Inr (word_of_nat (data_length (reg_subs r)), reg_subs r) \<and> item_ok (reg_subs r)"
proof -
  have d: "data_length (reg_subs r) = length (reg_sNick r) + (if m_bPassHash r then 64 else length (m_vPassData r) - 1) + 2"
    using assms(1) by (auto simp: data_length_def reg_subs_def title_bytes_def reg_fit_def pass_bytes_def)
  have fit: "all_fit (reg_subs r)"
    using assms(1) by (auto simp: reg_subs_def all_fit_def fits16_def title_bytes_def reg_fit_def pass_bytes_def)
  have "length (reg_subs r) = 3" by (simp add: reg_subs_def)
  with fit length_body [OF fit] d assms have "item_ok (reg_subs r)"
    by (auto simp: item_ok_def reg_fit_def pass_bytes_def PTOKAX_GLOBAL_BUFF_SIZE_def split: if_splits)
  moreover have "reg_item h a = Inr (word_of_nat (data_length (reg_subs r)), reg_subs r)"
    using assms d by (auto simp: reg_item_def deref_def reg_fit_def pass_bytes_def Let_def ucast_u16_u32)
  ultimately show ?thesis by blast
qed

lemma Reg_Save_run:
  assumes inv: "reg_inv R" and fit: "regs_fit R"
  shows "\<exists>c d. Reg_Save b t R = Inr (R\<lparr>m_ui8SaveCalls := c, rg_file := d\<rparr>)"
proof -
  have r: "\<exists>r. rg_heap R a = Some r \<and> reg_fit r" if "a \<in> set (m_RegList R)" for a
    using that inv fit unfolding reg_inv_def regs_fit_def by blast
  have bytes: "\<exists>d. reg_bytes (R\<lparr>m_ui8SaveCalls := c\<rparr>) = Inr d" for c
  proof -
    have len: "length sPtokaXRegiteredUsers < 1000" by (simp add: sPtokaXRegiteredUsers_def)
    from write_header_run [OF len] obtain w where w: "write_header sPtokaXRegiteredUsers OpenFileSave = Inr w"
      "length (pw_buf w) \<le> PTOKAX_GLOBAL_BUFF_SIZE" by blast
    have "\<forall>a \<in> set (m_RegList R). reg_item (rg_heap R) a = Inr (word_of_nat (data_length (reg_subs (the (rg_heap R a)))), reg_subs (the (rg_heap R a)))
        \<and> item_ok (reg_subs (the (rg_heap R a)))" using r reg_item_fit by fastforce
    from write_items_run [of _ _ "\<lambda>a. reg_subs (the (rg_heap R a))", OF this w(2)] w(1) show ?thesis by (auto simp: reg_bytes_def)
  qed
  obtain c wr where s: "Reg_SaveCalls b t R = (R\<lparr>m_ui8SaveCalls := c\<rparr>, wr)"
    using SaveCalls_only [of b t R] by (cases "Reg_SaveCalls b t R") auto
  show ?thesis
  proof (cases wr)
    case True
    from bytes [of c] obtain d where "reg_bytes (R\<lparr>m_ui8SaveCalls := c\<rparr>) = Inr d" by blast
    with s True show ?thesis by (auto simp: Reg_Save_def)
  next
    case False
    have "R\<lparr>m_ui8SaveCalls := c\<rparr> = R\<lparr>m_ui8SaveCalls := c, rg_file := rg_file R\<rparr>" by simp
    moreover have "Reg_Save b t R = Inr (R\<lparr>m_ui8SaveCalls := c\<rparr>)" using s False by (simp add: Reg_Save_def)
    ultimately show ?thesis by metis
  qed
qed

section \<open>The registry as a map\<close>

definition reg_at :: "RegManager \<Rightarrow> string \<Rightarrow> RegUser option" where
  "reg_at R n = (case Reg_Find n R of Inr (Some a) \<Rightarrow> rg_heap R a | _ \<Rightarrow> None)"

definition registry_ok :: "RegManager \<Rightarrow> bool" where
  "registry_ok R \<longleftrightarrow> reg_inv R \<and> reg_unique R \<and> regs_fit R"

lemma reg_at_iff:
  assumes "reg_inv R" and "reg_unique R"
  shows "reg_at R n = Some r \<longleftrightarrow> (\<exists>a. rg_heap R a = Some r \<and> iequals (reg_sNick r) n)"
proof -
  from Reg_Find_run [OF assms(1), of n] obtain x where
    x: "Reg_Find n R = Inr x" "case x of None \<Rightarrow> \<forall>a. \<not> registered R n a | Some a \<Rightarrow> registered R n a" by blast
  show ?thesis
  proof (cases x)
    case None
    with x show ?thesis by (auto simp: reg_at_def registered_def)
  next
    case (Some a)
    with x have a: "registered R n a" by simp
    from a obtain q where q: "rg_heap R a = Some q" "iequals (reg_sNick q) n" by (auto simp: registered_def)
    have "b = a" if "rg_heap R b = Some r" "iequals (reg_sNick r) n" for b
      by (rule registered_unique [OF assms(2) _ a]) (use that in \<open>simp add: registered_def\<close>)
    moreover have "reg_at R n = Some q" using x(1) Some q(1) by (simp add: reg_at_def)
    ultimately show ?thesis using q by (metis option.inject)
  qed
qed

lemma same_options: "(\<And>r. x = Some r \<longleftrightarrow> y = Some r) \<Longrightarrow> x = y"
  by (cases x; cases y) auto

lemma reg_at_heap: "rg_heap R' = rg_heap R \<Longrightarrow> reg_inv R \<Longrightarrow> reg_inv R' \<Longrightarrow> reg_unique R \<Longrightarrow> reg_unique R' \<Longrightarrow> reg_at R' n = reg_at R n"
  by (rule same_options) (simp add: reg_at_iff)

section \<open>Adding, changing and deleting a registration\<close>

definition hash_law :: "pass_hash \<Rightarrow> bool" where
  "hash_law hp \<longleftrightarrow> (\<forall>p h. hp p = Some h \<longrightarrow> length h = 64)"

text \<open>The online user with the nick, if any, has a profile in range and room for the texts about the operators' chat.\<close>

definition online_ready :: "reg_env \<Rightarrow> string \<Rightarrow> site \<Rightarrow> bool" where
  "online_ready env nick st \<longleftrightarrow> zpipe_law (re_zpipe env)
     \<and> (\<forall>a. bServerRunning env \<and> HM_FindUser_nick (hub_users (st_hub st)) nick = Some a \<longrightarrow>
          (\<exists>i op. ranked (i, op) (opchat_room env) a (st_hub st) \<and> numbered (st_profiles st) i))"

text \<open>How the rank of the online user with the nick changes.\<close>

definition online_rank :: "reg_env \<Rightarrow> string \<Rightarrow> (int \<times> bool \<Rightarrow> int \<times> bool) \<Rightarrow> site \<Rightarrow> site \<Rightarrow> bool" where
  "online_rank env nick f st st' \<longleftrightarrow>
     (\<forall>a. bServerRunning env \<and> HM_FindUser_nick (hub_users (st_hub st)) nick = Some a \<longrightarrow>
        (\<exists>u u'. the_user a (st_hub st) = Inr u \<and> the_user a (st_hub st') = Inr u' \<and> rank u' = f (rank u) \<and> hub_inv (st_hub st')))"

lemma online_run:
  assumes rdy: "online_ready env nick st"
    and step: "\<And>a i op. ranked (i, op) (opchat_room env) a (st_hub st) \<Longrightarrow> numbered (st_profiles st) i \<Longrightarrow>
      \<exists>st'. g a st = Inr st' \<and> regraded a (f (i, op)) st st'"
  shows "\<exists>H. online env nick g st = Inr (st\<lparr>st_hub := H\<rparr>) \<and> online_rank env nick f st (st\<lparr>st_hub := H\<rparr>)"
proof (cases "bServerRunning env \<and> HM_FindUser_nick (hub_users (st_hub st)) nick \<noteq> None")
  case True
  then obtain a where a: "bServerRunning env" "HM_FindUser_nick (hub_users (st_hub st)) nick = Some a" by auto
  with rdy obtain i op where r: "ranked (i, op) (opchat_room env) a (st_hub st)" "numbered (st_profiles st) i"
    by (auto simp: online_ready_def)
  from step [OF r] obtain H where s: "g a st = Inr (st\<lparr>st_hub := H\<rparr>)" "ranked (f (i, op)) 0 a H" by (auto simp: regraded_def)
  from rankedE [OF r(1)] obtain u where u: "the_user a (st_hub st) = Inr u" "rank u = (i, op)" .
  from rankedE [OF s(2)] obtain u' where u': "the_user a H = Inr u'" "rank u' = f (i, op)" .
  have "hub_inv H" using s(2) by (simp add: ranked_def alive_def)
  with a s(1) u u' show ?thesis by (auto simp: online_def online_rank_def)
next
  case False
  have "online env nick g st = Inr (st\<lparr>st_hub := st_hub st\<rparr>)" using False by (auto simp: online_def split: option.splits)
  moreover have "online_rank env nick f st (st\<lparr>st_hub := st_hub st\<rparr>)" using False by (auto simp: online_rank_def)
  ultimately show ?thesis by blast
qed

lemma online_rank_regs [simp]: "online_rank env nick f (st\<lparr>st_regs := R\<rparr>) st' = online_rank env nick f st st'"
  "online_rank env nick f st (st'\<lparr>st_regs := R\<rparr>) = online_rank env nick f st st'"
  by (simp_all add: online_rank_def)

lemma make_reg_fields:
  assumes "make_reg env nick pass p = Some r"
  shows "reg_sNick r = nick" and "reg_ui32Hash r = HashNick nick" and "m_ui16Profile r = p"
    and "hash_law (HashPassword env) \<Longrightarrow> length nick < 60000 \<Longrightarrow> length pass < 60000 \<Longrightarrow> reg_fit r"
  using assms
  by (auto simp: make_reg_def CreateReg_def Let_def reg_fit_def hash_law_def pass_bytes_def bytes_of_def split: if_splits option.splits)

lemma saved_fields: "registry_ok (R\<lparr>m_ui8SaveCalls := c, rg_file := d\<rparr>) = registry_ok R"
  "reg_at (R\<lparr>m_ui8SaveCalls := c, rg_file := d\<rparr>) n = reg_at R n"
proof -
  have l: "find_reg_loop n as (R\<lparr>m_ui8SaveCalls := c, rg_file := d\<rparr>) = find_reg_loop n as R" for as
    by (induction as) (simp_all cong: if_cong)
  show "registry_ok (R\<lparr>m_ui8SaveCalls := c, rg_file := d\<rparr>) = registry_ok R" by (simp add: registry_ok_def regs_fit_def)
  show "reg_at (R\<lparr>m_ui8SaveCalls := c, rg_file := d\<rparr>) n = reg_at R n" using l by (simp add: reg_at_def Reg_Find_def split: sum.splits option.splits)
qed

text \<open>
  C34.  Adding a registration is refused, without any change, when the nick is registered (whatever the case of its
  letters) or the password cannot be hashed; otherwise exactly this nick is registered anew, and the user who is
  online under it gets the profile, and the operator's key when the profile has it.
\<close>

theorem AddNew_spec:
  assumes R: "registry_ok (st_regs st)" and P: "pm_ok (st_profiles st)" and p: "p < m_ui16ProfileCount (st_profiles st)"
    and law: "hash_law (HashPassword env)" and len: "length nick < 60000" "length pass < 60000" and on: "online_ready env nick st"
  shows "\<exists>st' added. AddNew env nick pass p st = Inr (st', added)
    \<and> (if reg_at (st_regs st) nick \<noteq> None \<or> make_reg env nick pass p = None then \<not> added \<and> st' = st
       else added \<and> registry_ok (st_regs st')
         \<and> (\<forall>n. reg_at (st_regs st') n = (if iequals nick n then make_reg env nick pass p else reg_at (st_regs st) n))
         \<and> online_rank env nick (\<lambda>(i, op). (int (unat p), op \<or> right (st_profiles st) (int (unat p)) HASKEYICON)) st st')"
proof -
  let ?R = "st_regs st"
  have inv: "reg_inv ?R" "reg_unique ?R" "regs_fit ?R" using R by (simp_all add: registry_ok_def)
  from Reg_Find_run [OF inv(1), of nick] obtain x where x: "Reg_Find nick ?R = Inr x"
    "case x of None \<Rightarrow> \<forall>a. \<not> registered ?R nick a | Some a \<Rightarrow> registered ?R nick a" by blast
  have found: "x = None \<longleftrightarrow> reg_at ?R nick = None" using x by (auto simp: reg_at_def registered_def split: option.splits)
  show ?thesis
  proof (cases "x = None \<and> make_reg env nick pass p \<noteq> None")
    case False
    then show ?thesis using x(1) found by (auto simp: AddNew_def)
  next
    case True
    then obtain r where r: "make_reg env nick pass p = Some r" by auto
    note f = make_reg_fields [OF r]
    from add_new_reg_run [OF inv(1), of r] f obtain R1 where R1: "add_new_reg r ?R = Inr (R1, rg_next ?R)" "reg_inv R1"
      "rg_heap R1 = (rg_heap ?R)(rg_next ?R \<mapsto> r)" "rg_heap ?R (rg_next ?R) = None" by auto
    have none: "\<forall>a. \<not> registered ?R (reg_sNick r) a" using x True f(1) by simp
    have uq: "reg_unique R1" by (rule add_new_reg_unique [OF inv(2) R1(3,4) none])
    have ft: "regs_fit R1" using inv(3) f(4) [OF law len] by (auto simp: regs_fit_def R1(3))
    from Reg_Save_run [OF R1(2) ft, of True False] obtain c d where
      save: "Reg_Save True False R1 = Inr (R1\<lparr>m_ui8SaveCalls := c, rg_file := d\<rparr>)" (is "_ = Inr ?R2") by blast
    have ok2: "registry_ok ?R2" using R1(2) uq ft unfolding saved_fields by (simp add: registry_ok_def)
    let ?st = "st\<lparr>st_regs := ?R2\<rparr>"
    have rdy: "online_ready env nick ?st" using on by (simp add: online_ready_def)
    have "\<exists>H. online env nick (\<lambda>a. promote_added env a p) ?st = Inr (?st\<lparr>st_hub := H\<rparr>)
      \<and> online_rank env nick (\<lambda>(i, op). (int (unat p), op \<or> right (st_profiles st) (int (unat p)) HASKEYICON)) ?st (?st\<lparr>st_hub := H\<rparr>)"
    proof (rule online_run [OF rdy])
      fix a i op assume "ranked (i, op) (opchat_room env) a (st_hub ?st)" "numbered (st_profiles ?st) i"
      from promote_added_run [OF this, of p] P p on show "\<exists>st'. promote_added env a p ?st = Inr st'
        \<and> regraded a (case (i, op) of (i, op) \<Rightarrow> (int (unat p), op \<or> right (st_profiles st) (int (unat p)) HASKEYICON)) ?st st'"
        by (simp add: online_ready_def del: of_nat_unat)
    qed
    then obtain H where H: "online env nick (\<lambda>a. promote_added env a p) ?st = Inr (?st\<lparr>st_hub := H\<rparr>)"
      "online_rank env nick (\<lambda>(i, op). (int (unat p), op \<or> right (st_profiles st) (int (unat p)) HASKEYICON)) ?st (?st\<lparr>st_hub := H\<rparr>)" by blast
    have run: "AddNew env nick pass p st = Inr (?st\<lparr>st_hub := H\<rparr>, True)"
      using x(1) True r R1(1) save H(1) f(1) by (simp add: AddNew_def)
    have at: "reg_at R1 n = (if iequals nick n then Some r else reg_at ?R n)" for n
    proof (rule same_options)
      fix q
      have "(\<exists>a. rg_heap R1 a = Some q \<and> iequals (reg_sNick q) n) \<longleftrightarrow>
          (q = r \<and> iequals nick n) \<or> (\<exists>a. rg_heap ?R a = Some q \<and> iequals (reg_sNick q) n)"
      proof -
        have m: "rg_heap R1 a = Some q \<longleftrightarrow> (a = rg_next ?R \<and> q = r) \<or> rg_heap ?R a = Some q" for a using R1(3,4) by auto
        show ?thesis unfolding m using f(1) by blast
      qed
      moreover have "\<not> (\<exists>a. rg_heap ?R a = Some q \<and> iequals (reg_sNick q) n)" if "iequals nick n"
        using none f(1) that iequals_trans iequals_sym unfolding registered_def by metis
      ultimately show "reg_at R1 n = Some q \<longleftrightarrow> (if iequals nick n then Some r else reg_at ?R n) = Some q"
        unfolding reg_at_iff [OF R1(2) uq] using reg_at_iff [OF inv(1,2), of n q] by auto
    qed
    have "reg_at ?R2 n = (if iequals nick n then Some r else reg_at ?R n)" for n unfolding saved_fields(2) by (rule at)
    with run ok2 H(2) r True found show ?thesis
      by (intro exI [of _ "?st\<lparr>st_hub := H\<rparr>"] exI [of _ True]) (simp del: of_nat_unat)
  qed
qed

lemma replace_reg:
  assumes "reg_inv R" and "reg_unique R" and a: "rg_heap R a = Some r" and n: "reg_sNick r' = reg_sNick r" "reg_ui32Hash r' = reg_ui32Hash r"
  shows "reg_inv (R\<lparr>rg_heap := (rg_heap R)(a \<mapsto> r')\<rparr>)" and "reg_unique (R\<lparr>rg_heap := (rg_heap R)(a \<mapsto> r')\<rparr>)"
proof -
  have h: "(rg_heap R)(a \<mapsto> r') = hmod a (\<lambda>s. if s = r then r' else s) (rg_heap R)" using a by (auto simp: hmod_def)
  have f: "reg_sNick (if s = r then r' else s) = reg_sNick s" "reg_ui32Hash (if s = r then r' else s) = reg_ui32Hash s" for s
    using n by simp_all
  show "reg_inv (R\<lparr>rg_heap := (rg_heap R)(a \<mapsto> r')\<rparr>)" unfolding h by (rule reg_inv_update(1) [OF assms(1)]) (use f in auto)
  show "reg_unique (R\<lparr>rg_heap := (rg_heap R)(a \<mapsto> r')\<rparr>)" unfolding h by (rule reg_inv_update(2) [OF assms(1)]) (use f assms(2) in auto)
qed

text \<open>The registration holds the password: its hash, or the text itself.\<close>

definition stores :: "reg_env \<Rightarrow> string \<Rightarrow> RegUser \<Rightarrow> bool" where
  "stores env p r \<longleftrightarrow> (if m_bPassHash r then HashPassword env (bytes_of p) = Some (m_vPassData r)
     else takeWhile (\<lambda>b. b \<noteq> 0) (m_vPassData r) = bytes_of p)"

lemma stores_profile [simp]: "stores env p (r\<lparr>m_ui16Profile := i\<rparr>) = stores env p r"
  by (simp add: stores_def)

lemma bytes_of_nonzero: "CHR 0x00 \<notin> set p \<Longrightarrow> 0 \<notin> set (bytes_of p)"
proof
  assume "CHR 0x00 \<notin> set p" and "0 \<in> set (bytes_of p)"
  moreover have "byte_of (CHR 0x00) = 0" by (simp add: byte_of_def)
  moreover from calculation obtain c where c: "c \<in> set p" "byte_of c = 0" by (auto simp: bytes_of_def)
  ultimately have "byte_of c = byte_of (CHR 0x00)" by simp
  then have "c = CHR 0x00" unfolding byte_of_eq_iff .
  with c(1) \<open>CHR 0x00 \<notin> set p\<close> show False by simp
qed

lemma UpdatePassword_run:
  assumes fit: "reg_fit r" and law: "hash_law hp" and p: "CHR 0x00 \<notin> set p" "length p < 60000"
  shows "\<exists>r1. UpdatePassword b hp (bytes_of p) r = Inr r1 \<and> reg_fit r1
    \<and> reg_sNick r1 = reg_sNick r \<and> reg_ui32Hash r1 = reg_ui32Hash r \<and> m_ui16Profile r1 = m_ui16Profile r
    \<and> (b \<and> hp (bytes_of p) = None \<or> (if m_bPassHash r1 then hp (bytes_of p) = Some (m_vPassData r1)
         else takeWhile (\<lambda>b. b \<noteq> 0) (m_vPassData r1) = bytes_of p))"
proof -
  have nz: "0 \<notin> set (bytes_of p)" using p(1) by (rule bytes_of_nonzero)
  then have tw: "takeWhile (\<lambda>b. b \<noteq> 0) (pass_bytes (bytes_of p)) = bytes_of p"
    unfolding pass_bytes_def by (subst takeWhile_append2) auto
  have pb: "\<exists>q. pass_bytes (bytes_of p) = pass_bytes q \<and> length q < 60000" using p(2) by (auto simp: bytes_of_def)
  show ?thesis
  proof (cases b)
    case True
    show ?thesis
    proof (cases "hp (bytes_of p)")
      case None
      with True fit show ?thesis by (auto simp: UpdatePassword_def)
    next
      case (Some h)
      with law have "length h = 64" by (simp add: hash_law_def)
      with True Some fit show ?thesis by (auto simp: UpdatePassword_def reg_fit_def)
    qed
  next
    case False
    show ?thesis
    proof (cases "m_bPassHash r")
      case True
      with False fit tw pb show ?thesis by (auto simp: UpdatePassword_def reg_fit_def)
    next
      case plain: False
      with fit obtain q where q: "m_vPassData r = pass_bytes q" "length q < 60000" by (auto simp: reg_fit_def)
      then have "0 \<in> set (m_vPassData r)" by (simp add: pass_bytes_def)
      with False plain fit tw pb show ?thesis by (auto simp: UpdatePassword_def reg_fit_def)
    qed
  qed
qed

text \<open>
  C35.  Changing a registration changes this one only: it gets the profile, and the password when one is given (which
  a failing hash leaves as it was); the user online under its nick gets the profile, and has the operator's key
  exactly when the profile has it, unless the profile is the one the user had.
\<close>

theorem ChangeReg_spec:
  assumes R: "registry_ok (st_regs st)" and P: "pm_ok (st_profiles st)" and p: "p < m_ui16ProfileCount (st_profiles st)"
    and law: "hash_law (HashPassword env)" and a: "rg_heap (st_regs st) a = Some r"
    and pw: "\<forall>q. pass = Some q \<longrightarrow> CHR 0x00 \<notin> set q \<and> length q < 60000" and on: "online_ready env (reg_sNick r) st"
  shows "\<exists>st' r'. ChangeReg env a pass p st = Inr st' \<and> registry_ok (st_regs st')
    \<and> (\<forall>n. reg_at (st_regs st') n = (if iequals (reg_sNick r) n then Some r' else reg_at (st_regs st) n))
    \<and> reg_sNick r' = reg_sNick r \<and> m_ui16Profile r' = p
    \<and> (case pass of None \<Rightarrow> m_vPassData r' = m_vPassData r \<and> m_bPassHash r' = m_bPassHash r
         | Some q \<Rightarrow> HASH_PASSWORDS env \<and> HashPassword env (bytes_of q) = None \<or> stores env q r')
    \<and> online_rank env (reg_sNick r) (\<lambda>(i, op). if i = int (unat p) then (i, op)
         else (int (unat p), right (st_profiles st) (int (unat p)) HASKEYICON)) st st'"
proof -
  let ?R = "st_regs st" and ?nick = "reg_sNick r"
  let ?f = "\<lambda>(i, op). if i = int (unat p) then (i, op) else (int (unat p), right (st_profiles st) (int (unat p)) HASKEYICON)"
  have inv: "reg_inv ?R" "reg_unique ?R" "regs_fit ?R" using R by (simp_all add: registry_ok_def)
  have fit: "reg_fit r" using inv(3) a by (auto simp: regs_fit_def)
  have "\<exists>r1. (case pass of None \<Rightarrow> Inr r | Some q \<Rightarrow> UpdatePassword (HASH_PASSWORDS env) (HashPassword env) (bytes_of q) r) = Inr r1
      \<and> reg_fit r1 \<and> reg_sNick r1 = ?nick \<and> reg_ui32Hash r1 = reg_ui32Hash r
      \<and> (case pass of None \<Rightarrow> m_vPassData r1 = m_vPassData r \<and> m_bPassHash r1 = m_bPassHash r
         | Some q \<Rightarrow> HASH_PASSWORDS env \<and> HashPassword env (bytes_of q) = None \<or> stores env q r1)"
  proof (cases pass)
    case (Some q)
    with pw have "CHR 0x00 \<notin> set q" "length q < 60000" by auto
    from UpdatePassword_run [OF fit law this, of "HASH_PASSWORDS env"] Some show ?thesis by (auto simp: stores_def)
  qed (simp add: fit)
  then obtain r1 where r1: "(case pass of None \<Rightarrow> Inr r | Some q \<Rightarrow> UpdatePassword (HASH_PASSWORDS env) (HashPassword env) (bytes_of q) r) = Inr r1"
      "reg_fit r1" "reg_sNick r1 = ?nick" "reg_ui32Hash r1 = reg_ui32Hash r"
      "case pass of None \<Rightarrow> m_vPassData r1 = m_vPassData r \<and> m_bPassHash r1 = m_bPassHash r
         | Some q \<Rightarrow> HASH_PASSWORDS env \<and> HashPassword env (bytes_of q) = None \<or> stores env q r1" by blast
  let ?r' = "r1\<lparr>m_ui16Profile := p\<rparr>"
  define R1 where "R1 = ?R\<lparr>rg_heap := (rg_heap ?R)(a \<mapsto> ?r')\<rparr>"
  have R1: "reg_inv R1" "reg_unique R1" "regs_fit R1"
    using replace_reg [OF inv(1,2) a, of ?r'] inv(3) r1(2-4) by (auto simp: R1_def regs_fit_def reg_fit_def split: if_splits)
  from Reg_Save_run [OF R1(1,3), of True False] obtain c d where
    save: "Reg_Save True False R1 = Inr (R1\<lparr>m_ui8SaveCalls := c, rg_file := d\<rparr>)" (is "_ = Inr ?R2") by blast
  have ok2: "registry_ok ?R2" using R1 unfolding saved_fields by (simp add: registry_ok_def)
  let ?st = "st\<lparr>st_regs := ?R2\<rparr>"
  let ?g = "\<lambda>a st1. rbind (the_user a (st_hub st1)) (\<lambda>u. if m_i32Profile u \<noteq> int (unat p) then regrade env a p st1 else Inr st1)"
  have rdy: "online_ready env ?nick ?st" using on by (simp add: online_ready_def)
  have "\<exists>H. online env ?nick ?g ?st = Inr (?st\<lparr>st_hub := H\<rparr>) \<and> online_rank env ?nick ?f ?st (?st\<lparr>st_hub := H\<rparr>)"
  proof (rule online_run [OF rdy])
    fix a i op assume r: "ranked (i, op) (opchat_room env) a (st_hub ?st)" and n: "numbered (st_profiles ?st) i"
    from rankedE [OF r] obtain u where u: "the_user a (st_hub ?st) = Inr u" "rank u = (i, op)" .
    show "\<exists>st'. ?g a ?st = Inr st' \<and> regraded a (?f (i, op)) ?st st'"
    proof (cases "i = int (unat p)")
      case True
      have "ranked (i, op) 0 a (st_hub ?st)" by (rule ranked_mono [OF r]) simp
      then have "regraded a (i, op) ?st ?st" unfolding regraded_def by (intro exI [of _ "st_hub ?st"]) simp
      with True u show ?thesis by (simp add: rank_def del: of_nat_unat)
    next
      case False
      from regrade_run [OF r n] P p on obtain st' where
        "regrade env a p ?st = Inr st'" "regraded a (int (unat p), right (st_profiles st) (int (unat p)) HASKEYICON) ?st st'"
        by (auto simp: online_ready_def simp del: of_nat_unat)
      with False u show ?thesis by (simp add: rank_def del: of_nat_unat)
    qed
  qed
  then obtain H where H: "online env ?nick ?g ?st = Inr (?st\<lparr>st_hub := H\<rparr>)" "online_rank env ?nick ?f ?st (?st\<lparr>st_hub := H\<rparr>)" by blast
  have run: "ChangeReg env a pass p st = Inr (?st\<lparr>st_hub := H\<rparr>)"
    using a r1(1) save H(1) by (simp add: ChangeReg_def deref_def R1_def)
  have at: "reg_at R1 n = (if iequals ?nick n then Some ?r' else reg_at ?R n)" for n
  proof (rule same_options)
    fix q
    have heap: "rg_heap R1 = (rg_heap ?R)(a \<mapsto> ?r')" by (simp add: R1_def)
    have others: "b = a" if "iequals (reg_sNick s) n" "iequals ?nick n" "rg_heap ?R b = Some s" for b s
      using registered_unique [OF inv(2), of n b a] that a by (auto simp: registered_def)
    show "reg_at R1 n = Some q \<longleftrightarrow> (if iequals ?nick n then Some ?r' else reg_at ?R n) = Some q"
    proof (cases "iequals ?nick n")
      case True
      then show ?thesis unfolding reg_at_iff [OF R1(1,2)] heap using others [OF _ True] r1(3) by (auto split: if_splits)
    next
      case False
      have m: "rg_heap R1 b = Some q \<longleftrightarrow> (b = a \<and> q = ?r') \<or> (b \<noteq> a \<and> rg_heap ?R b = Some q)" for b by (auto simp: heap)
      have "b \<noteq> a" if "rg_heap ?R b = Some q" "iequals (reg_sNick q) n" for b using that a False by auto
      then show ?thesis unfolding reg_at_iff [OF R1(1,2)] m using reg_at_iff [OF inv(1,2), of n q] False r1(3) by auto
    qed
  qed
  have "reg_at ?R2 n = (if iequals ?nick n then Some ?r' else reg_at ?R n)" for n unfolding saved_fields(2) by (rule at)
  with run ok2 H(2) r1(3,5) show ?thesis
    by (intro exI [of _ "?st\<lparr>st_hub := H\<rparr>"] exI [of _ ?r']) (cases pass; simp del: of_nat_unat)
qed

text \<open>
  Deleting a registration takes away this one only, and the user online under its nick loses profile and
  operator's key.
\<close>

theorem Delete_spec:
  assumes R: "registry_ok (st_regs st)" and a: "rg_heap (st_regs st) a = Some r" and on: "online_ready env (reg_sNick r) st"
  shows "\<exists>st'. Reg_Delete env a st = Inr st' \<and> registry_ok (st_regs st')
    \<and> (\<forall>n. reg_at (st_regs st') n = (if iequals (reg_sNick r) n then None else reg_at (st_regs st) n))
    \<and> online_rank env (reg_sNick r) (\<lambda>_. (-1, False)) st st'"
proof -
  let ?R = "st_regs st" and ?nick = "reg_sNick r"
  have inv: "reg_inv ?R" "reg_unique ?R" "regs_fit ?R" using R by (simp_all add: registry_ok_def)
  have "\<exists>H. online env ?nick (degrade env) st = Inr (st\<lparr>st_hub := H\<rparr>) \<and> online_rank env ?nick (\<lambda>_. (-1, False)) st (st\<lparr>st_hub := H\<rparr>)"
    by (rule online_run [OF on]) (use degrade_run on in \<open>auto simp: online_ready_def\<close>)
  then obtain H where H: "online env ?nick (degrade env) st = Inr (st\<lparr>st_hub := H\<rparr>)"
    "online_rank env ?nick (\<lambda>_. (-1, False)) st (st\<lparr>st_hub := H\<rparr>)" by blast
  from Reg_Rem_run [OF inv(1) a] obtain R1 where R1: "Reg_Rem a ?R = Inr R1" "reg_inv R1" "rg_heap R1 = (rg_heap ?R)(a := None)" by blast
  have uq: "reg_unique R1" by (rule Reg_Rem_unique [OF inv(2) R1(3)])
  have ft: "regs_fit R1" using inv(3) by (auto simp: regs_fit_def R1(3) split: if_splits)
  from Reg_Save_run [OF R1(2) ft, of True False] obtain c d where
    save: "Reg_Save True False R1 = Inr (R1\<lparr>m_ui8SaveCalls := c, rg_file := d\<rparr>)" (is "_ = Inr ?R2") by blast
  have ok2: "registry_ok ?R2" using R1(2) uq ft unfolding saved_fields by (simp add: registry_ok_def)
  let ?st = "st\<lparr>st_hub := H, st_regs := ?R2\<rparr>"
  have run: "Reg_Delete env a st = Inr ?st" using a H(1) R1(1) save by (simp add: Reg_Delete_def deref_def)
  have at: "reg_at R1 n = (if iequals ?nick n then None else reg_at ?R n)" for n
  proof (rule same_options)
    fix q
    have m: "rg_heap R1 b = Some q \<longleftrightarrow> b \<noteq> a \<and> rg_heap ?R b = Some q" for b by (auto simp: R1(3))
    have others: "b = a" if "iequals (reg_sNick q) n" "iequals ?nick n" "rg_heap ?R b = Some q" for b
      using registered_unique [OF inv(2), of n b a] that a by (auto simp: registered_def)
    have "b \<noteq> a" if "rg_heap ?R b = Some q" "iequals (reg_sNick q) n" "\<not> iequals ?nick n" for b using that a by auto
    with others show "reg_at R1 n = Some q \<longleftrightarrow> (if iequals ?nick n then None else reg_at ?R n) = Some q"
      unfolding reg_at_iff [OF R1(2) uq] m using reg_at_iff [OF inv(1,2), of n q] by auto
  qed
  have "reg_at ?R2 n = (if iequals ?nick n then None else reg_at ?R n)" for n unfolding saved_fields(2) by (rule at)
  with run ok2 H(2) show ?thesis by (intro exI [of _ ?st]) simp
qed

section \<open>The operations on a running hub\<close>

definition demo_reg_env :: reg_env where
  "demo_reg_env = \<lparr>re_hub = demo_config, re_zpipe = \<lambda>_. None, HASH_PASSWORDS = False, HashPassword = \<lambda>_. None,
     bServerRunning = True, REG_OP_CHAT = True, REG_BOT = False, bBotsSameNick = False,
     OP_CHAT_HELLO = ''$Hello OpChat|'', OP_CHAT_MYINFO = ''$MyINFO $ALL OpChat|'', OP_CHAT_NICK = ''OpChat''\<rparr>"

lemma demo_registry_ok: "registry_ok (st_regs demo_site)"
  unfolding registry_ok_def
proof (intro conjI)
  show "reg_inv (st_regs demo_site)" using demo_regs_form by (simp add: demo_site_def)
  show "regs_fit (st_regs demo_site)"
    using demo_regs_form by (auto simp: demo_site_def regs_fit_def reg_fit_def CreateReg_def Let_def pass_bytes_def split: if_splits)
  have "\<not> iequals ''root'' ''alice''" "\<not> iequals ''alice'' ''root''" by (simp_all add: iequals_def)
  then show "reg_unique (st_regs demo_site)"
    using demo_regs_form by (auto simp: demo_site_def reg_unique_def CreateReg_def Let_def split: if_splits)
qed

lemma demo_online_ready: "online_ready demo_reg_env nick demo_site"
proof -
  have u: "the_user 1 demo_hub = Inr demo_member" using demo_hub_user by (simp add: the_user_def deref_def)
  have "ranked (rank demo_member) (opchat_room demo_reg_env) 1 demo_hub"
    using u hub_inv_demo demo_hub_user unfolding ranked_def alive_def
    by (auto simp: opchat_room_def demo_reg_env_def demo_config_def empty_buf_def)
  moreover have "numbered default_ProfileManager (m_i32Profile demo_member)"
    by (simp add: numbered_def demo_member_def blank_user_def)
  ultimately show ?thesis
    by (auto simp: online_ready_def zpipe_law_def demo_reg_env_def demo_site_def rank_def HM_FindUser_nick_def demo_hub_def split: if_splits)
qed

lemma demo_alice:
  "reg_at (st_regs demo_site) ''alice'' \<noteq> None" "\<exists>r. rg_heap (st_regs demo_site) 1 = Some r \<and> reg_sNick r = ''alice''"
    "\<exists>r. rg_heap (st_regs demo_site) 0 = Some r \<and> reg_sNick r = ''root''"
proof -
  have i: "reg_inv (st_regs demo_site)" "reg_unique (st_regs demo_site)" using demo_registry_ok by (simp_all add: registry_ok_def)
  have h: "rg_heap (st_regs demo_site) 1 = Some (the (CreateReg ''alice'' (Some [2]) None 3))"
    using demo_regs_form by (simp add: demo_site_def)
  then have "reg_at (st_regs demo_site) ''alice'' = Some (the (CreateReg ''alice'' (Some [2]) None 3))"
    unfolding reg_at_iff [OF i] by (auto simp: CreateReg_def Let_def)
  then show "reg_at (st_regs demo_site) ''alice'' \<noteq> None" by simp
  from h show "\<exists>r. rg_heap (st_regs demo_site) 1 = Some r \<and> reg_sNick r = ''alice''" by (simp add: CreateReg_def Let_def)
  show "\<exists>r. rg_heap (st_regs demo_site) 0 = Some r \<and> reg_sNick r = ''root''"
    using demo_regs_form by (simp add: demo_site_def CreateReg_def Let_def)
qed

lemma demo_find: "bServerRunning demo_reg_env" "HM_FindUser_nick (hub_users (st_hub demo_site)) ''alice'' = Some 1"
  by (simp_all add: demo_reg_env_def demo_site_def demo_hub_def HM_FindUser_nick_def)

lemma demo_operator_right: "right default_ProfileManager 0 HASKEYICON"
  by (simp add: right_def IsProfileAllowed_def profile_at_def default_ProfileManager_def default_names_def rights_of_text_def HASKEYICON_def)

lemma demo_hash_law: "hash_law (HashPassword demo_reg_env)"
  by (simp add: hash_law_def demo_reg_env_def)

theorem AddNew_spec_witness:
  "\<exists>st'. AddNew demo_reg_env ''bob'' ''secret'' 1 demo_site = Inr (st', True) \<and> reg_at (st_regs st') ''BOB'' \<noteq> None
     \<and> AddNew demo_reg_env ''alice'' ''secret'' 1 demo_site = Inr (demo_site, False)"
proof -
  have p: "(1 :: u16) < m_ui16ProfileCount (st_profiles demo_site)" by (simp add: word_less_nat_alt demo_site_ok(5))
  note spec = AddNew_spec [OF demo_registry_ok demo_site_ok(2) p demo_hash_law _ _ demo_online_ready]
  have i: "reg_inv (st_regs demo_site)" "reg_unique (st_regs demo_site)" using demo_registry_ok by (simp_all add: registry_ok_def)
  have "\<not> (\<exists>a r. rg_heap (st_regs demo_site) a = Some r \<and> iequals (reg_sNick r) ''bob'')"
    using demo_regs_form by (auto simp: demo_site_def CreateReg_def Let_def iequals_def lower_byte_def byte_of_def split: if_splits)
  then have "reg_at (st_regs demo_site) ''bob'' \<noteq> Some r" for r unfolding reg_at_iff [OF i] by blast
  then have no: "reg_at (st_regs demo_site) ''bob'' = None" by (cases "reg_at (st_regs demo_site) ''bob''") blast+
  have mk: "make_reg demo_reg_env ''bob'' ''secret'' 1 \<noteq> None" by (simp add: make_reg_def demo_reg_env_def CreateReg_def Let_def)
  have eq: "iequals ''bob'' ''BOB''" by (simp add: iequals_def lower_byte_def byte_of_def)
  from spec [of "''bob''" "''secret''"] no mk obtain st' where "AddNew demo_reg_env ''bob'' ''secret'' 1 demo_site = Inr (st', True)"
    "reg_at (st_regs st') ''BOB'' = make_reg demo_reg_env ''bob'' ''secret'' 1" using eq by auto
  with mk spec [of "''alice''" "''secret''"] demo_alice(1) show ?thesis by auto
qed

theorem ChangeReg_spec_witness:
  "\<exists>st' u. ChangeReg demo_reg_env 1 (Some ''secret'') 0 demo_site = Inr st' \<and> the_user 1 (st_hub st') = Inr u \<and> rank u = (0, True)"
proof -
  have p: "(0 :: u16) < m_ui16ProfileCount (st_profiles demo_site)" by (simp add: word_less_nat_alt demo_site_ok(5))
  from demo_alice(2) obtain r where r: "rg_heap (st_regs demo_site) 1 = Some r" "reg_sNick r = ''alice''" by blast
  have u: "the_user 1 (st_hub demo_site) = Inr demo_member" "m_i32Profile demo_member = -1"
    using demo_hub_user by (simp_all add: demo_site_def the_user_def deref_def demo_member_def blank_user_def)
  from ChangeReg_spec [OF demo_registry_ok demo_site_ok(2) p demo_hash_law r(1) _ demo_online_ready, of "Some ''secret''"] obtain st' where
    st': "ChangeReg demo_reg_env 1 (Some ''secret'') 0 demo_site = Inr st'"
    "online_rank demo_reg_env (reg_sNick r) (\<lambda>(i, op). if i = int (unat (0 :: u16)) then (i, op)
         else (int (unat (0 :: u16)), right (st_profiles demo_site) (int (unat (0 :: u16))) HASKEYICON)) demo_site st'" by auto
  from st'(2) demo_find u obtain u' where "the_user 1 (st_hub st') = Inr u'" "rank u' = (0, True)"
    using demo_operator_right by (auto simp: online_rank_def r(2) rank_def demo_site_ok(5))
  with st'(1) show ?thesis by blast
qed

theorem Delete_spec_witness:
  "\<exists>st' u. Reg_Delete demo_reg_env 1 demo_site = Inr st' \<and> reg_at (st_regs st') ''Alice'' = None
     \<and> the_user 1 (st_hub st') = Inr u \<and> rank u = (-1, False)"
proof -
  from demo_alice(2) obtain r where r: "rg_heap (st_regs demo_site) 1 = Some r" "reg_sNick r = ''alice''" by blast
  have eq: "iequals ''alice'' ''Alice''" by (simp add: iequals_def lower_byte_def byte_of_def)
  from Delete_spec [OF demo_registry_ok r(1) demo_online_ready] obtain st' where
    st': "Reg_Delete demo_reg_env 1 demo_site = Inr st'" "reg_at (st_regs st') ''Alice'' = None"
    "online_rank demo_reg_env (reg_sNick r) (\<lambda>_. (-1, False)) demo_site st'" using eq r(2) by auto
  from st'(3) demo_find obtain u' where "the_user 1 (st_hub st') = Inr u'" "rank u' = (-1, False)"
    by (auto simp: online_rank_def r(2))
  with st'(1,2) show ?thesis by blast
qed

end
