(* ===== verification/Country.thy ===== *)
theory Country
  imports BanRange TextFormat
begin

text \<open>
  The country of an address (\<open>core/IP2Country.cpp\<close>): the table of IPv4 ranges read from \<open>IpToCountry.csv\<close>, and the
  lookups by binary search.  The IPv6 table is filled only in builds with another option; its lookup is modelled.
\<close>

section \<open>The table\<close>

record IpP2Country =
  m_ui32RangeFrom :: "u32 list"
  m_ui32RangeTo :: "u32 list"
  m_ui8RangeCI :: "byte list"
  m_ui128IPv6RangeFrom :: "byte list list"
  m_ui128IPv6RangeTo :: "byte list list"
  m_ui8IPv6RangeCI :: "byte list"

definition no_countries :: IpP2Country where
  "no_countries = \<lparr>m_ui32RangeFrom = [], m_ui32RangeTo = [], m_ui8RangeCI = [], m_ui128IPv6RangeFrom = [],
     m_ui128IPv6RangeTo = [], m_ui8IPv6RangeCI = []\<rparr>"

definition CountryCodes :: "string list" where
  "CountryCodes = [
     ''AD'', ''AE'', ''AF'', ''AG'', ''AI'', ''AL'', ''AM'', ''AO'', ''AR'', ''AS'', ''AT'', ''AU'', ''AW'', ''AX'', ''AZ'', ''BA'', ''BB'', ''BD'',
     ''BE'', ''BF'', ''BG'', ''BH'', ''BI'', ''BJ'', ''BL'', ''BM'', ''BN'', ''BO'', ''BR'', ''BS'', ''BT'', ''BV'', ''BW'', ''BY'', ''BZ'', ''CA'',
     ''CC'', ''CD'', ''CF'', ''CG'', ''CH'', ''CI'', ''CK'', ''CL'', ''CM'', ''CN'', ''CO'', ''CR'', ''CS'', ''CU'', ''CV'', ''CW'', ''CX'', ''CY'',
     ''CZ'', ''DE'', ''DJ'', ''DK'', ''DM'', ''DO'', ''DZ'', ''EC'', ''EE'', ''EG'', ''EH'', ''ER'', ''ES'', ''ET'', ''FI'', ''FJ'', ''FK'', ''FM'',
     ''FO'', ''FR'', ''GA'', ''GB'', ''GD'', ''GE'', ''GF'', ''GG'', ''GH'', ''GI'', ''GL'', ''GM'', ''GN'', ''GP'', ''GQ'', ''GR'', ''GS'', ''GT'',
     ''GU'', ''GW'', ''GY'', ''HK'', ''HM'', ''HN'', ''HR'', ''HT'', ''HU'', ''ID'', ''IE'', ''IL'', ''IM'', ''IN'', ''IO'', ''IQ'', ''IR'', ''IS'',
     ''IT'', ''JE'', ''JM'', ''JO'', ''JP'', ''KE'', ''KG'', ''KH'', ''KI'', ''KM'', ''KN'', ''KP'', ''KR'', ''KW'', ''KY'', ''KZ'', ''LA'', ''LB'',
     ''LC'', ''LI'', ''LK'', ''LR'', ''LS'', ''LT'', ''LU'', ''LV'', ''LY'', ''MA'', ''MC'', ''MD'', ''ME'', ''MF'', ''MG'', ''MH'', ''MK'', ''ML'',
     ''MM'', ''MN'', ''MO'', ''MP'', ''MQ'', ''MR'', ''MS'', ''MT'', ''MU'', ''MV'', ''MW'', ''MX'', ''MY'', ''MZ'', ''NA'', ''NC'', ''NE'', ''NF'',
     ''NG'', ''NI'', ''NL'', ''NO'', ''NP'', ''NR'', ''NU'', ''NZ'', ''OM'', ''PA'', ''PE'', ''PF'', ''PG'', ''PH'', ''PK'', ''PL'', ''PM'', ''PN'',
     ''PR'', ''PS'', ''PT'', ''PW'', ''PY'', ''QA'', ''RE'', ''RO'', ''RS'', ''RU'', ''RW'', ''SA'', ''SB'', ''SC'', ''SD'', ''SE'', ''SG'', ''SH'',
     ''SI'', ''SJ'', ''SK'', ''SL'', ''SM'', ''SN'', ''SO'', ''SR'', ''SS'', ''ST'', ''SV'', ''SX'', ''SY'', ''SZ'', ''TC'', ''TD'', ''TF'', ''TG'',
     ''TH'', ''TJ'', ''TK'', ''TL'', ''TM'', ''TN'', ''TO'', ''TR'', ''TT'', ''TV'', ''TW'', ''TZ'', ''UA'', ''UG'', ''UM'', ''US'', ''UY'', ''UZ'',
     ''VA'', ''VC'', ''VE'', ''VG'', ''VI'', ''VN'', ''VU'', ''WF'', ''WS'', ''YE'', ''YT'', ''ZA'', ''ZM'', ''ZW'', ''AN'', ''AP'', ''LN'', ''EU'',
     ''ZZ'', ''??''] "

definition COUNTRY_COUNT :: nat where "COUNTRY_COUNT = 254"

section \<open>Loading\<close>

text \<open>
  The quoted fields of a line: the text up to the next quote, after which the closing quote, a comma and
  the next opening quote are skipped.
\<close>

function quoted :: "string \<Rightarrow> string \<Rightarrow> string list" where
  "quoted acc [] = []"
| "quoted acc (c # cs) = (if c = CHR 0x22 then acc # quoted [] (drop 2 cs) else quoted (acc @ [c]) cs)"
  by pat_completeness auto
termination by (relation "measure (\<lambda>(acc, cs). length cs)") auto

fun code_index :: "nat \<Rightarrow> string list \<Rightarrow> string \<Rightarrow> nat option" where
  "code_index i [] s = None"
| "code_index i (code # codes) s = (if take 2 s = code then Some i else code_index (Suc i) codes s)"

text \<open>
  One line.  The slot being filled, \<open>from\<close> and \<open>to\<close>, keeps its values when a number is not readable or the line
  names no known country; \<open>from_chars\<close> stores nothing when the value does not fit.
\<close>

definition read_u32 :: "string \<Rightarrow> u32 \<Rightarrow> u32" where
  "read_u32 s old = (case safe_stoul s of None \<Rightarrow> old | Some n \<Rightarrow> if n < 2 ^ 32 then word_of_nat n else old)"

fun load_line :: "string \<Rightarrow> IpP2Country \<times> u32 \<times> u32 \<Rightarrow> IpP2Country \<times> u32 \<times> u32" where
  "load_line l (T, from, to) =
     (case l of
        [] \<Rightarrow> (T, from, to)
      | c # cs \<Rightarrow>
          if c \<noteq> CHR 0x22 then (T, from, to)
          else
            let fs = quoted [] cs;
                from' = (if 0 < length fs then read_u32 (fs ! 0) from else from);
                to' = (if 1 < length fs then read_u32 (fs ! 1) to else to)
            in if 4 < length fs then
                 (case code_index 0 (take (COUNTRY_COUNT - 1) CountryCodes) (fs ! 4) of
                    None \<Rightarrow> (T, from', to')
                  | Some i \<Rightarrow> (T\<lparr>m_ui32RangeFrom := m_ui32RangeFrom T @ [from'], m_ui32RangeTo := m_ui32RangeTo T @ [to'],
                                m_ui8RangeCI := m_ui8RangeCI T @ [word_of_nat i]\<rparr>, 0, 0))
               else (T, from', to'))"

definition LoadIPv4 :: "bool \<Rightarrow> string list option \<Rightarrow> IpP2Country \<Rightarrow> IpP2Country" where
  "LoadIPv4 bUseIPv4 csv T =
     (if \<not> bUseIPv4 then T
      else case csv of
        None \<Rightarrow> T
      | Some ls \<Rightarrow> fst (foldl (\<lambda>s l. load_line l s) (T, 0, 0) ls))"

section \<open>The lookups\<close>

text \<open>\<open>std::upper_bound\<close> on a sorted range: the number of elements not greater than the key.\<close>

definition upper_bound :: "'a::linorder list \<Rightarrow> 'a \<Rightarrow> nat" where
  "upper_bound xs k = length (takeWhile (\<lambda>x. x \<le> k) xs)"

definition be32 :: "byte \<Rightarrow> byte \<Rightarrow> byte \<Rightarrow> byte \<Rightarrow> u32" where
  "be32 a b c d = 16777216 * ucast a + 65536 * ucast b + 256 * ucast c + ucast d"

text \<open>The IPv4 address the hash stands for: mapped, in a 6to4 tunnel or in a Teredo tunnel.\<close>

definition ipv4_of :: "bool \<Rightarrow> byte list \<Rightarrow> u32 option" where
  "ipv4_of bUseIPv6 h =
     (if \<not> bUseIPv6 \<or> IsV4Mapped h then Some (be32 (h ! 12) (h ! 13) (h ! 14) (h ! 15))
      else if h ! 0 = 32 \<and> h ! 1 = 2 then Some (be32 (h ! 2) (h ! 3) (h ! 4) (h ! 5))
      else if h ! 0 = 32 \<and> h ! 1 = 1 \<and> h ! 2 = 0 \<and> h ! 3 = 0
        then Some (be32 (h ! 12) (h ! 13) (h ! 14) (h ! 15) XOR 0xFFFFFFFF)
      else None)"

function search6 :: "byte list list \<Rightarrow> byte list \<Rightarrow> nat \<Rightarrow> nat \<Rightarrow> nat" where
  "search6 froms h lo hi =
     (if lo < hi then
        (let mid = lo + (hi - lo) div 2 in
         if memcmp (froms ! mid) h \<le> 0 then search6 froms h (mid + 1) hi else search6 froms h lo mid)
      else lo)"
  by pat_completeness auto
termination by (relation "measure (\<lambda>(froms, h, lo, hi). hi - lo)") auto

declare search6.simps [simp del]

definition Country_Find :: "bool \<Rightarrow> IpP2Country \<Rightarrow> byte list \<Rightarrow> byte" where
  "Country_Find bUseIPv6 T h =
     (case ipv4_of bUseIPv6 h of
        Some ip \<Rightarrow>
          let n = upper_bound (m_ui32RangeFrom T) ip in
          if n \<noteq> 0 \<and> m_ui32RangeTo T ! (n - 1) \<ge> ip then m_ui8RangeCI T ! (n - 1) else word_of_nat (COUNTRY_COUNT - 1)
      | None \<Rightarrow>
          let lo = search6 (m_ui128IPv6RangeFrom T) h 0 (length (m_ui8IPv6RangeCI T)) in
          if lo > 0 \<and> memcmp (m_ui128IPv6RangeTo T ! (lo - 1)) h \<ge> 0 then m_ui8IPv6RangeCI T ! (lo - 1)
          else word_of_nat (COUNTRY_COUNT - 1))"

section \<open>What a lookup finds\<close>

text \<open>A table of disjoint ranges in increasing order.\<close>

definition well_ranged :: "nat list \<Rightarrow> nat list \<Rightarrow> bool" where
  "well_ranged fs ts \<longleftrightarrow> length fs = length ts \<and> sorted fs
     \<and> (\<forall>i < length fs. fs ! i \<le> ts ! i \<and> (Suc i < length fs \<longrightarrow> ts ! i < fs ! Suc i))"

definition in_range :: "nat list \<Rightarrow> nat list \<Rightarrow> nat \<Rightarrow> nat \<Rightarrow> bool" where
  "in_range fs ts k i \<longleftrightarrow> i < length fs \<and> fs ! i \<le> k \<and> k \<le> ts ! i"

definition below :: "nat list \<Rightarrow> nat \<Rightarrow> nat" where
  "below fs k = length (takeWhile (\<lambda>x. x \<le> k) fs)"

lemma below_nth: "i < below fs k \<Longrightarrow> i < length fs \<and> fs ! i \<le> k"
  unfolding below_def by (metis (mono_tags, lifting) length_takeWhile_le nth_mem order_less_le_trans set_takeWhileD takeWhile_nth)

lemma below_next: "below fs k < length fs \<Longrightarrow> k < fs ! below fs k"
  unfolding below_def using nth_length_takeWhile [of "\<lambda>x. x \<le> k" fs] by simp

lemma below_unique:
  assumes "sorted fs" and "n \<le> length fs" and "\<And>i. i < n \<Longrightarrow> fs ! i \<le> k" and "n < length fs \<Longrightarrow> k < fs ! n"
  shows "below fs k = n"
proof (rule linorder_cases [of "below fs k" n])
  assume "below fs k < n"
  with assms(2,3) below_next [of fs k] show ?thesis by fastforce
next
  assume "n < below fs k"
  with below_nth [of n fs k] assms(4) show ?thesis by simp
qed

text \<open>The last range that starts at or below the key is the only one that can hold it.\<close>

lemma range_found:
  assumes "well_ranged fs ts" and "in_range fs ts k i"
  shows "below fs k = Suc i"
proof (rule below_unique)
  show "sorted fs" using assms(1) by (simp add: well_ranged_def)
  show "Suc i \<le> length fs" using assms(2) by (simp add: in_range_def)
  show "fs ! j \<le> k" if "j < Suc i" for j
    using that assms sorted_nth_mono [of fs j i] by (fastforce simp: well_ranged_def in_range_def)
  show "k < fs ! Suc i" if "Suc i < length fs"
  proof -
    have "ts ! i < fs ! Suc i" using that assms(1) by (simp add: well_ranged_def)
    with assms(2) show ?thesis by (simp add: in_range_def)
  qed
qed

lemma range_missing:
  assumes "well_ranged fs ts" and "below fs k \<noteq> 0" and "k \<le> ts ! (below fs k - 1)"
  shows "in_range fs ts k (below fs k - 1)"
  using below_nth [of "below fs k - 1" fs k] assms by (simp add: in_range_def)

lemma upper_bound_below: "upper_bound (xs :: u32 list) k = below (map unat xs) (unat k)"
  by (simp add: upper_bound_def below_def takeWhile_map word_le_nat_alt comp_def)

lemma search6_bounds:
  assumes "sorted (map be_val froms)" and "\<forall>f \<in> set froms. length f = length h" and "lo \<le> hi" and "hi \<le> length froms"
    and "\<And>i. i < lo \<Longrightarrow> be_val (froms ! i) \<le> be_val h" and "\<And>i. hi \<le> i \<Longrightarrow> i < length froms \<Longrightarrow> be_val h < be_val (froms ! i)"
  shows "search6 froms h lo hi = below (map be_val froms) (be_val h)"
  using assms
proof (induction froms h lo hi rule: search6.induct)
  case (1 froms h lo hi)
  show ?case
  proof (cases "lo < hi")
    case False
    with "1.prems" have "lo = hi" by simp
    then show ?thesis
      using "1.prems" by (subst search6.simps) (auto intro!: below_unique [symmetric])
  next
    case True
    define mid where "mid = lo + (hi - lo) div 2"
    have m: "lo \<le> mid" "mid < hi" using True by (auto simp: mid_def)
    then have len: "length (froms ! mid) = length h" using "1.prems"(2,4) by simp
    have mono: "be_val (froms ! i) \<le> be_val (froms ! j)" if "i \<le> j" "j < length froms" for i j
      using sorted_nth_mono [OF "1.prems"(1), of i j] that by simp
    show ?thesis
    proof (cases "memcmp (froms ! mid) h \<le> 0")
      case le: True
      then have v: "be_val (froms ! mid) \<le> be_val h" using memcmp_be_val [OF len] by linarith
      have "search6 froms h (mid + 1) hi = below (map be_val froms) (be_val h)"
      proof (rule "1.IH"(1) [OF True mid_def le "1.prems"(1,2) _ "1.prems"(4)])
        show "mid + 1 \<le> hi" using m by simp
        show "be_val (froms ! i) \<le> be_val h" if "i < mid + 1" for i
          using mono [of i mid] v that m "1.prems"(4) by simp
      qed (use "1.prems"(6) in blast)
      with True le show ?thesis by (subst search6.simps) (simp add: mid_def [symmetric] Let_def)
    next
      case gt: False
      then have v: "be_val h < be_val (froms ! mid)" using memcmp_be_val [OF len] by linarith
      have "search6 froms h lo mid = below (map be_val froms) (be_val h)"
      proof (rule "1.IH"(2) [OF True mid_def gt "1.prems"(1,2) m(1)])
        show "mid \<le> length froms" using m "1.prems"(4) by simp
        show "be_val h < be_val (froms ! i)" if "mid \<le> i" "i < length froms" for i
          using mono [of mid i] v that by simp
      qed (use "1.prems"(5) in blast)
      with True gt show ?thesis by (subst search6.simps) (simp add: mid_def [symmetric] Let_def)
    qed
  qed
qed

definition ranges_ok :: "IpP2Country \<Rightarrow> bool" where
  "ranges_ok T \<longleftrightarrow> well_ranged (map unat (m_ui32RangeFrom T)) (map unat (m_ui32RangeTo T))
     \<and> length (m_ui8RangeCI T) = length (m_ui32RangeFrom T)
     \<and> well_ranged (map be_val (m_ui128IPv6RangeFrom T)) (map be_val (m_ui128IPv6RangeTo T))
     \<and> length (m_ui8IPv6RangeCI T) = length (m_ui128IPv6RangeFrom T)
     \<and> (\<forall>f \<in> set (m_ui128IPv6RangeFrom T) \<union> set (m_ui128IPv6RangeTo T). length f = 16)"

text \<open>The country of range \<open>i\<close> as the address selects a table.\<close>

definition holds_range :: "bool \<Rightarrow> IpP2Country \<Rightarrow> byte list \<Rightarrow> nat \<Rightarrow> bool" where
  "holds_range b T h i \<longleftrightarrow> (case ipv4_of b h of
     Some ip \<Rightarrow> in_range (map unat (m_ui32RangeFrom T)) (map unat (m_ui32RangeTo T)) (unat ip) i
   | None \<Rightarrow> in_range (map be_val (m_ui128IPv6RangeFrom T)) (map be_val (m_ui128IPv6RangeTo T)) (be_val h) i)"

definition range_country :: "bool \<Rightarrow> IpP2Country \<Rightarrow> byte list \<Rightarrow> nat \<Rightarrow> byte" where
  "range_country b T h i = (case ipv4_of b h of Some _ \<Rightarrow> m_ui8RangeCI T ! i | None \<Rightarrow> m_ui8IPv6RangeCI T ! i)"

lemma Country_Find_below:
  assumes ok: "ranges_ok T" and h: "length h = 16"
  shows "Country_Find b T h =
    (let (fs, ts, k) = (case ipv4_of b h of
        Some ip \<Rightarrow> (map unat (m_ui32RangeFrom T), map unat (m_ui32RangeTo T), unat ip)
      | None \<Rightarrow> (map be_val (m_ui128IPv6RangeFrom T), map be_val (m_ui128IPv6RangeTo T), be_val h))
     in if below fs k \<noteq> 0 \<and> k \<le> ts ! (below fs k - 1) then range_country b T h (below fs k - 1)
        else word_of_nat (COUNTRY_COUNT - 1))"
proof (cases "ipv4_of b h")
  case (Some ip)
  have n: "below (map unat (m_ui32RangeFrom T)) (unat ip) - 1 < length (m_ui32RangeTo T)"
    if "below (map unat (m_ui32RangeFrom T)) (unat ip) \<noteq> 0"
    using below_nth [of "below (map unat (m_ui32RangeFrom T)) (unat ip) - 1" "map unat (m_ui32RangeFrom T)" "unat ip"] that ok
    by (simp add: ranges_ok_def well_ranged_def)
  show ?thesis
    using Some n by (auto simp: Country_Find_def upper_bound_below range_country_def Let_def word_le_nat_alt)
next
  case None
  have len: "\<forall>f \<in> set (m_ui128IPv6RangeFrom T). length f = length h" using ok h by (simp add: ranges_ok_def)
  have s: "search6 (m_ui128IPv6RangeFrom T) h 0 (length (m_ui8IPv6RangeCI T))
      = below (map be_val (m_ui128IPv6RangeFrom T)) (be_val h)"
    by (rule search6_bounds) (use ok len in \<open>auto simp: ranges_ok_def well_ranged_def\<close>)
  let ?n = "below (map be_val (m_ui128IPv6RangeFrom T)) (be_val h)"
  have n: "?n - 1 < length (m_ui128IPv6RangeTo T)" if "?n \<noteq> 0"
    using below_nth [of "?n - 1" "map be_val (m_ui128IPv6RangeFrom T)" "be_val h"] that ok
    by (simp add: ranges_ok_def well_ranged_def)
  have c: "memcmp (m_ui128IPv6RangeTo T ! (?n - 1)) h \<ge> 0 \<longleftrightarrow> be_val h \<le> be_val (m_ui128IPv6RangeTo T ! (?n - 1))" if "?n \<noteq> 0"
  proof -
    have "length (m_ui128IPv6RangeTo T ! (?n - 1)) = length h"
      using n [OF that] ok h by (simp add: ranges_ok_def)
    from memcmp_be_val [OF this] show ?thesis by linarith
  qed
  show ?thesis using None n c by (auto simp: Country_Find_def s range_country_def Let_def)
qed

text \<open>
  C36. In a table of disjoint ranges in increasing order the lookup gives the country of the range that holds the
  address, and the unknown country when there is none.
\<close>

theorem Country_Find_correct:
  assumes "ranges_ok T" and "length h = 16"
  shows "(\<forall>i. holds_range b T h i \<longrightarrow> Country_Find b T h = range_country b T h i)
    \<and> ((\<forall>i. \<not> holds_range b T h i) \<longrightarrow> Country_Find b T h = word_of_nat (COUNTRY_COUNT - 1))"
proof -
  define fs ts k where "fs = (case ipv4_of b h of Some ip \<Rightarrow> map unat (m_ui32RangeFrom T) | None \<Rightarrow> map be_val (m_ui128IPv6RangeFrom T))"
    and "ts = (case ipv4_of b h of Some ip \<Rightarrow> map unat (m_ui32RangeTo T) | None \<Rightarrow> map be_val (m_ui128IPv6RangeTo T))"
    and "k = (case ipv4_of b h of Some ip \<Rightarrow> unat ip | None \<Rightarrow> be_val h)"
  note defs = fs_def ts_def k_def
  have w: "well_ranged fs ts" using assms(1) by (simp add: defs ranges_ok_def split: option.splits)
  have f: "Country_Find b T h = (if below fs k \<noteq> 0 \<and> k \<le> ts ! (below fs k - 1)
      then range_country b T h (below fs k - 1) else word_of_nat (COUNTRY_COUNT - 1))"
    unfolding Country_Find_below [OF assms] by (simp add: defs Let_def split: option.splits)
  have r: "holds_range b T h i \<longleftrightarrow> in_range fs ts k i" for i
    by (simp add: holds_range_def defs split: option.splits)
  have "Country_Find b T h = range_country b T h i" if "in_range fs ts k i" for i
    using f range_found [OF w that] that by (simp add: in_range_def)
  moreover have "Country_Find b T h = word_of_nat (COUNTRY_COUNT - 1)" if "\<forall>i. \<not> in_range fs ts k i"
    using f range_missing [OF w, of k] that by (metis (no_types))
  ultimately show ?thesis unfolding r by blast
qed

text \<open>Two ranges read from lines of the file, an address in the second and one in no range.\<close>

definition demo_countries :: IpP2Country where
  "demo_countries = LoadIPv4 True (Some
     [[CHR 0x22] @ ''16777216'' @ [CHR 0x22, CHR 0x2C, CHR 0x22] @ ''16777471'' @ [CHR 0x22, CHR 0x2C, CHR 0x22] @ ''apnic''
       @ [CHR 0x22, CHR 0x2C, CHR 0x22] @ ''1313020800'' @ [CHR 0x22, CHR 0x2C, CHR 0x22] @ ''AU'' @ [CHR 0x22],
      ''# comment'',
      [CHR 0x22] @ ''16777472'' @ [CHR 0x22, CHR 0x2C, CHR 0x22] @ ''16778239'' @ [CHR 0x22, CHR 0x2C, CHR 0x22] @ ''apnic''
       @ [CHR 0x22, CHR 0x2C, CHR 0x22] @ ''1313020800'' @ [CHR 0x22, CHR 0x2C, CHR 0x22] @ ''CN'' @ [CHR 0x22]]) no_countries"

lemma demo_countries_form:
  "demo_countries = no_countries\<lparr>m_ui32RangeFrom := [16777216, 16777472], m_ui32RangeTo := [16777471, 16778239],
     m_ui8RangeCI := [11, 45]\<rparr>"
  by (simp add: demo_countries_def LoadIPv4_def no_countries_def read_u32_def safe_stoul_def dec_val_def digit_val_def
      is_digit_def CountryCodes_def COUNTRY_COUNT_def Let_def)

theorem Country_Find_correct_witness:
  "Country_Find True demo_countries [0, 0, 0, 0, 0, 0, 0, 0, 0, 0, 255, 255, 1, 0, 2, 9] = 45
   \<and> Country_Find True demo_countries [0, 0, 0, 0, 0, 0, 0, 0, 0, 0, 255, 255, 9, 0, 2, 9] = 253"
proof -
  have ok: "ranges_ok demo_countries"
    by (simp add: ranges_ok_def well_ranged_def demo_countries_form no_countries_def less_Suc_eq)
  have a: "holds_range True demo_countries [0, 0, 0, 0, 0, 0, 0, 0, 0, 0, 255, 255, 1, 0, 2, 9] 1"
    by (simp add: holds_range_def ipv4_of_def IsV4Mapped_def be32_def in_range_def demo_countries_form no_countries_def)
  have b: "\<not> holds_range True demo_countries [0, 0, 0, 0, 0, 0, 0, 0, 0, 0, 255, 255, 9, 0, 2, 9] i" for i
    by (auto simp: holds_range_def ipv4_of_def IsV4Mapped_def be32_def in_range_def demo_countries_form no_countries_def nth_Cons split: nat.splits)
  from Country_Find_correct [OF ok, of "[0, 0, 0, 0, 0, 0, 0, 0, 0, 0, 255, 255, 1, 0, 2, 9]" True] a
    Country_Find_correct [OF ok, of "[0, 0, 0, 0, 0, 0, 0, 0, 0, 0, 255, 255, 9, 0, 2, 9]" True] b
  show ?thesis
    by (simp add: range_country_def ipv4_of_def IsV4Mapped_def demo_countries_form no_countries_def COUNTRY_COUNT_def)
qed

end
