(* ===== verification/Server.thy ===== *)
theory Server
  imports RegManager FloodActions ReservedNicks Country
begin

text \<open>
  The server as the protocol handlers of \<open>core/DcCommands.cpp\<close> see it: the hub with its registry and profiles,
  the bans, the reserved nicks, the failed passwords per address, the reconnect times and the statistics.
  Settings, language texts and everything outside the repository are the environment.
\<close>

section \<open>Settings and texts\<close>

datatype SetBoolIds =
    SETBOOL_ENABLE_SCRIPTING | SETBOOL_NO_QUACK_SUPPORTS | SETBOOL_DONT_ALLOW_PINGERS | SETBOOL_ADVANCED_PASS_PROTECTION
  | SETBOOL_REG_ONLY | SETBOOL_REDIRECT_WHEN_HUB_FULL | SETBOOL_REPORT_3X_BAD_PASS | SETBOOL_REPORT_PINGERS
  | SETBOOL_BAN_MSG_SHOW_IP | SETBOOL_BAN_MSG_SHOW_NICK | SETBOOL_BAN_MSG_SHOW_RANGE | SETBOOL_BAN_MSG_SHOW_REASON
  | SETBOOL_BAN_MSG_SHOW_BY | SETBOOL_PERM_BAN_REDIR | SETBOOL_TEMP_BAN_REDIR | SETBOOL_SEND_STATUS_MESSAGES | SETBOOL_REPORT_SUSPICIOUS_TAG
  | SETBOOL_REDIRECT_ALL

datatype SetShortIds =
    SETSHORT_MAX_USERS | SETSHORT_MAX_CONN_SAME_IP | SETSHORT_MIN_RECONN_TIME | SETSHORT_MIN_NICK_LEN | SETSHORT_MAX_NICK_LEN
  | SETSHORT_BRUTE_FORCE_PASS_PROTECT_BAN_TYPE | SETSHORT_BRUTE_FORCE_PASS_PROTECT_TEMP_BAN_TIME
  | SETSHORT_GETNICKLIST_ACTION | SETSHORT_GETNICKLIST_MESSAGES | SETSHORT_GETNICKLIST_TIME
  | SETSHORT_MYINFO_ACTION | SETSHORT_MYINFO_MESSAGES | SETSHORT_MYINFO_TIME
  | SETSHORT_MYINFO_ACTION2 | SETSHORT_MYINFO_MESSAGES2 | SETSHORT_MYINFO_TIME2 | SETSHORT_MAX_MYINFO_LEN
  | SETSHORT_NO_TAG_OPTION | SETSHORT_MIN_SLOTS_LIMIT | SETSHORT_MAX_SLOTS_LIMIT
  | SETSHORT_HUB_SLOT_RATIO_HUBS | SETSHORT_HUB_SLOT_RATIO_SLOTS | SETSHORT_MAX_HUBS_LIMIT
  | SETSHORT_CTM_ACTION | SETSHORT_CTM_MESSAGES | SETSHORT_CTM_TIME | SETSHORT_CTM_ACTION2 | SETSHORT_CTM_MESSAGES2 | SETSHORT_CTM_TIME2
  | SETSHORT_RCTM_ACTION | SETSHORT_RCTM_MESSAGES | SETSHORT_RCTM_TIME | SETSHORT_RCTM_ACTION2 | SETSHORT_RCTM_MESSAGES2
  | SETSHORT_RCTM_TIME2 | SETSHORT_SR_ACTION | SETSHORT_SR_MESSAGES | SETSHORT_SR_TIME | SETSHORT_SR_ACTION2 | SETSHORT_SR_MESSAGES2
  | SETSHORT_SR_TIME2 | SETSHORT_MAX_CTM_LEN | SETSHORT_MAX_RCTM_LEN | SETSHORT_MAX_SR_LEN | SETSHORT_MAX_PASIVE_SR

datatype SetTxtIds =
    SETTXT_HUB_NAME | SETTXT_HUB_ADDRESS | SETTXT_HUB_DESCRIPTION | SETTXT_HUB_OWNER_EMAIL | SETTXT_MSG_TO_ADD_TO_BAN_MSG
  | SETTXT_REDIRECT_ADDRESS

datatype SetPreTxtIds =
    SETPRETXT_NICK_LIMIT_MSG | SETPRETXT_REG_ONLY_MSG | SETPRETXT_REDIRECT_ADDRESS | SETPRETXT_SHARE_LIMIT_MSG
  | SETPRETXT_NO_TAG_MSG | SETPRETXT_SLOTS_LIMIT_MSG | SETPRETXT_HUB_SLOT_RATIO_MSG | SETPRETXT_MAX_HUBS_LIMIT_MSG
  | SETPRETXT_HUB_NAME_WLCM | SETPRETXT_PERM_BAN_REDIR_ADDRESS | SETPRETXT_TEMP_BAN_REDIR_ADDRESS

text \<open>The language entries of the login handlers.\<close>

datatype LoginLang =
    LAN_QUACK_SUPPORTS | LAN_SORRY_THIS_HUB_NOT_ALLOW_PINGERS | LAN_DAYS_LWR | LAN_HOURS_LWR | LAN_MINUTES_LWR | LAN_USERS
  | LAN_YOUR_NICK_CONTAINS_ILLEGAL_CHARACTER | LAN_PLS_CORRECT_IT_AND_GET_BACK_AGAIN
  | LAN_YOUR_NICK_CONTAINS_ILLEGAL_WHITE_CHARACTER | LAN_THE_NICK_IS_RESERVED_FOR_SOMEONE_OTHER
  | LAN_CHANGE_YOUR_NICK_AND_GET_BACK_AGAIN | LAN_LAST_PASS_WAS_WRONG_YOU_NEED_WAIT | LAN_BEFORE_YOU_TRY_AGAIN
  | LAN_THIS_HUB_IS_FULL | LAN_USERS_ONLINE_LWR | LAN_SORRY_ALREADY_MAX_IP_CONNS | LAN_SECONDS_BEFORE_RECONN
  | LAN_YOUR_IP_BANNED_BRUTE_FORCE_ATTACK | LAN_YOUR_IS_BANNED | LAN_BANNED_BECAUSE_3X_BAD_PASS_FOR_NICK | LAN_INCORRECT_PASSWORD
  | LAN_PINGER_FROM_IP | LAN_WITH_NICK | LAN_DETECTED_LWR | LAN_MYINFO_TOO_LONG | LAN_YOU_MyINFO_IS_CORRUPTED | LAN_FAKE_TAG
  | LAN_SORRY_PERM_BANNED | LAN_SORRY_TEMP_BANNED | LAN_IP | LAN_NICK | LAN_RANGE | LAN_REASON | LAN_BANNED_BY
  | LAN_HAS_SUSPICIOUS_TAG_CHECK_HIM | LAN_FULL_DESCRIPTION | LAN_YOU_REDIR_TO
  | LAN_CTM_TOO_LONG | LAN_RCTM_TOO_LONG | LAN_SR_TOO_LONG | LAN_YOUR_CLIENT_SEND_INCORRECT_IPPORT_IN_COMMAND
  | LAN_YOUR_CLIENT_SEND_INCORRECT_PORT_IN_CTM | LAN_YOUR_CLIENT_SEND_INCORRECT_IP | LAN_IN_COMMAND_HUB_REPLACED_IT_WITH_YOUR_REAL_IP

section \<open>The rights the handlers ask for\<close>

definition NODEFLOODGETNICKLIST :: nat where "NODEFLOODGETNICKLIST = 1"
definition NODEFLOODMYINFO :: nat where "NODEFLOODMYINFO = 2"
definition NOTAGCHECK :: nat where "NOTAGCHECK = 10"
definition NOMAXHUBCHECK :: nat where "NOMAXHUBCHECK = 15"
definition NOSLOTHUBRATIO :: nat where "NOSLOTHUBRATIO = 16"
definition NOSLOTCHECK :: nat where "NOSLOTCHECK = 17"
definition NOSHARELIMIT :: nat where "NOSHARELIMIT = 18"
definition ENTERFULLHUB :: nat where "ENTERFULLHUB = 31"
definition ENTERIFIPBAN :: nat where "ENTERIFIPBAN = 32"
definition NOUSRSAMEIP :: nat where "NOUSRSAMEIP = 54"

section \<open>State\<close>

record PassBf =
  m_iCount :: int
  pb_ui128IpHash :: "byte list"

record RecTime =
  m_ui64DisConnTick :: u64
  rt_sNick :: string
  rt_ui32NickHash :: u32
  rt_ui128IpHash :: "byte list"

datatype DcStat =
    StatChat | StatCmdUnknown | StatCmdTo | StatCmdMyInfo | StatCmdSearch | StatCmdSR | StatCmdRevCTM | StatCmdOpForceMove
  | StatCmdMyPass | StatCmdValidate | StatCmdKey | StatCmdGetInfo | StatCmdGetNickList | StatCmdConnectToMe | StatCmdVersion
  | StatCmdKick | StatCmdSupports | StatBotINFO | StatZPipe | StatCmdMultiSearch | StatCmdMultiConnectToMe | StatCmdClose
  | StatBadState | StatGarbageData | StatNickSpoofing | StatBruteforce | StatFlood | StatInvalidJson | StatUnknownCmd
  | StatCmdExtJSON

record server =
  sv_site :: site
  sv_bans :: BanManager
  sv_reserved :: ReservedNicksManager
  m_PasswdBfCheck :: "PassBf list"
  m_RecTimeList :: "RecTime list"
  sv_countries :: IpP2Country
  m_ui32Joins :: u32
  m_ui32Parts :: u32
  sv_stats :: "DcStat \<Rightarrow> u32"
  m_ui64ActualTick :: u64
  sv_time :: int

abbreviation sv_hub :: "server \<Rightarrow> hub" where
  "sv_hub S \<equiv> st_hub (sv_site S)"

abbreviation sv_regs :: "server \<Rightarrow> RegManager" where
  "sv_regs S \<equiv> st_regs (sv_site S)"

abbreviation sv_profiles :: "server \<Rightarrow> ProfileManager" where
  "sv_profiles S \<equiv> st_profiles (sv_site S)"

abbreviation set_hub :: "hub \<Rightarrow> server \<Rightarrow> server" where
  "set_hub H S \<equiv> S\<lparr>sv_site := (sv_site S)\<lparr>st_hub := H\<rparr>\<rparr>"

abbreviation set_regs :: "RegManager \<Rightarrow> server \<Rightarrow> server" where
  "set_regs R S \<equiv> S\<lparr>sv_site := (sv_site S)\<lparr>st_regs := R\<rparr>\<rparr>"

section \<open>The environment\<close>

text \<open>
  What \<open>recv\<close> with \<open>MSG_PEEK\<close> answers for a connection: data is waiting, nothing yet, or the peer is gone
  (closed, or an error other than \<open>EAGAIN\<close>).
\<close>

datatype peek_result = PeekData | PeekAgain | PeekGone

text \<open>The events a script can hear of.\<close>

datatype arrival =
    SUPPORTS_ARRIVAL | KEY_ARRIVAL | VALIDATENICK_ARRIVAL | VALIDATE_DENIDE_ARRIVAL | PASSWORD_ARRIVAL | VERSION_ARRIVAL
  | GETNICKLIST_ARRIVAL | MYINFO_ARRIVAL | BOTINFO_ARRIVAL | UNKNOWN_ARRIVAL
  | CONNECTTOME_ARRIVAL | MULTICONNECTTOME_ARRIVAL | REVCONNECTTOME_ARRIVAL | SR_ARRIVAL

text \<open>The texts \<open>colUsers\<close> keeps of all users: nicks, announcements with and without tags, operators.\<close>

record list_texts =
  m_NickList :: string
  m_MyInfos :: string
  m_MyInfosTag :: string
  m_OpList :: string

text \<open>\<open>se_lua\<close> stands for the scripts, which run in the Lua interpreter.\<close>

record server_env =
  se_flood :: flood_env
  se_lang :: "LoginLang \<Rightarrow> string"
  m_bBools :: "SetBoolIds \<Rightarrow> bool"
  m_i16Shorts :: "SetShortIds \<Rightarrow> 16 word"
  se_sTexts :: "SetTxtIds \<Rightarrow> string"
  m_sPreTexts :: "SetPreTxtIds \<Rightarrow> string"
  m_ui64MinShare :: u64
  m_ui64MaxShare :: u64
  se_HashPassword :: pass_hash
  se_resolver :: resolver
  se_bUseIPv6 :: bool
  se_uptime :: "u64 \<times> u64 \<times> u64"
  se_peek :: "addr \<Rightarrow> peek_result"
  se_lists :: "server \<Rightarrow> list_texts"
  se_lua :: "arrival \<Rightarrow> addr \<Rightarrow> string \<Rightarrow> server \<Rightarrow> (server \<times> bool) res"

definition short :: "server_env \<Rightarrow> SetShortIds \<Rightarrow> int" where
  "short env i = sint (m_i16Shorts env i)"

text \<open>\<open>static_cast<uint32_t>(m_i16Shorts[i])\<close>: the sign is extended.\<close>

definition ushort :: "server_env \<Rightarrow> SetShortIds \<Rightarrow> u32" where
  "ushort env i = scast (m_i16Shorts env i)"

definition Arrival :: "server_env \<Rightarrow> arrival \<Rightarrow> addr \<Rightarrow> string \<Rightarrow> server \<Rightarrow> (server \<times> bool) res" where
  "Arrival env k a sCommand S =
     (if \<not> m_bBools env SETBOOL_ENABLE_SCRIPTING then Inr (S, False) else se_lua env k a sCommand S)"

section \<open>Lifting the operations of the components\<close>

definition in_hub :: "(hub \<Rightarrow> hub res) \<Rightarrow> server \<Rightarrow> server res" where
  "in_hub f S = rbind (f (sv_hub S)) (\<lambda>H. Inr (set_hub H S))"

definition in_world :: "(world \<Rightarrow> (world \<times> 'a) res) \<Rightarrow> server \<Rightarrow> (server \<times> 'a) res" where
  "in_world f S = rbind (f (sv_hub S, sv_bans S)) (\<lambda>((H, B), x). Inr ((set_hub H S)\<lparr>sv_bans := B\<rparr>, x))"

definition user_of :: "addr \<Rightarrow> server \<Rightarrow> User res" where
  "user_of a S = the_user a (sv_hub S)"

definition mod_user :: "addr \<Rightarrow> (User \<Rightarrow> User) \<Rightarrow> server \<Rightarrow> server res" where
  "mod_user a f = in_hub (set_user a f)"

definition set_bits :: "addr \<Rightarrow> u32 \<Rightarrow> server \<Rightarrow> server res" where
  "set_bits a m = mod_user a (\<lambda>u. u\<lparr>m_ui32BoolBits := m_ui32BoolBits u OR m\<rparr>)"

definition clear_bits :: "addr \<Rightarrow> u32 \<Rightarrow> server \<Rightarrow> server res" where
  "clear_bits a m = mod_user a (\<lambda>u. u\<lparr>m_ui32BoolBits := m_ui32BoolBits u AND NOT m\<rparr>)"

definition set_state :: "addr \<Rightarrow> UserStates \<Rightarrow> server \<Rightarrow> server res" where
  "set_state a s = mod_user a (\<lambda>u. u\<lparr>m_ui8State := s\<rparr>)"

definition close_with :: "server_env \<Rightarrow> bool \<Rightarrow> addr \<Rightarrow> server \<Rightarrow> server res" where
  "close_with env bNoQuit a = in_hub (User_Close (fe_hub (se_flood env)) a bNoQuit)"

abbreviation close_it :: "server_env \<Rightarrow> addr \<Rightarrow> server \<Rightarrow> server res" where
  "close_it env \<equiv> close_with env False"

definition say :: "server_env \<Rightarrow> bool \<Rightarrow> addr \<Rightarrow> string \<Rightarrow> server \<Rightarrow> server res" where
  "say env bDelayed a sText =
     in_hub (SendFormat (fe_hub (se_flood env)) (fe_zpipe (se_flood env)) (fe_sock (se_flood env)) bDelayed a sText)"

definition send_text :: "server_env \<Rightarrow> addr \<Rightarrow> string \<Rightarrow> server \<Rightarrow> server res" where
  "send_text env a sText =
     in_hub (SendChar (fe_hub (se_flood env)) (fe_zpipe (se_flood env)) (fe_sock (se_flood env)) a sText)"

definition send_later :: "server_env \<Rightarrow> addr \<Rightarrow> string \<Rightarrow> server \<Rightarrow> server res" where
  "send_later env a sText = in_hub (SendCharDelayed (fe_hub (se_flood env)) (fe_zpipe (se_flood env)) a sText)"

definition queue_cmd :: "addr \<Rightarrow> byte \<Rightarrow> server \<Rightarrow> server res" where
  "queue_cmd a ty = in_hub (AddPrcsdCmd a ty [] None False)"

text \<open>A text the hub says in its own name.\<close>

definition as_hub :: "server_env \<Rightarrow> string \<Rightarrow> string" where
  "as_hub env t = ''<'' @ HubSec (se_flood env) @ ''> '' @ t"

definition count_stat :: "DcStat \<Rightarrow> server \<Rightarrow> server" where
  "count_stat k S = S\<lparr>sv_stats := (sv_stats S)(k := sv_stats S k + 1)\<rparr>"

definition allowed :: "addr \<Rightarrow> nat \<Rightarrow> server \<Rightarrow> bool res" where
  "allowed a opt S = rbind (user_of a S) (\<lambda>u. IsAllowed u opt (sv_profiles S))"

definition flood_now :: "server_env \<Rightarrow> server \<Rightarrow> flood_env" where
  "flood_now env S = (se_flood env)\<lparr>clock := sv_time S\<rparr>"

text \<open>\<open>DeFloodCheckForFlood\<close> on one of the user's counters.\<close>

definition flood_check :: "server_env \<Rightarrow> DefloodTypes \<Rightarrow> FloodCounter \<Rightarrow> 16 word \<Rightarrow> 16 word \<Rightarrow> u32 \<Rightarrow> addr \<Rightarrow> server
    \<Rightarrow> (server \<times> bool) res" where
  "flood_check env ty k act cnt time a S =
     rbind (user_of a S) (\<lambda>u.
     rbind (in_world (\<lambda>W. rbind (DeFloodCheckForFlood (flood_now env S) ty act cnt time None a (m_ui64ActualTick S)
                         (fst (m_Counters u k)) (snd (m_Counters u k)) W) (\<lambda>(W1, c, t, bad). Inr (W1, (c, t, bad)))) S)
       (\<lambda>(S1, c, t, bad).
     rbind (mod_user a (\<lambda>u. u\<lparr>m_Counters := (m_Counters u)(k := (c, t))\<rparr>) S1) (\<lambda>S2. Inr (S2, bad))))"

text \<open>An optional check: not made when its action is off, and a second one only when the first has passed.\<close>

definition flood_check_if :: "bool \<Rightarrow> server_env \<Rightarrow> DefloodTypes \<Rightarrow> FloodCounter \<Rightarrow> SetShortIds \<Rightarrow> SetShortIds \<Rightarrow> u32 \<Rightarrow> addr
    \<Rightarrow> server \<Rightarrow> (server \<times> bool) res" where
  "flood_check_if on env ty k act cnt time a S =
     (if on \<and> m_i16Shorts env act \<noteq> 0
      then flood_check env ty k (m_i16Shorts env act) (m_i16Shorts env cnt) time a S
      else Inr (S, False))"

section \<open>Failed passwords and reconnect times\<close>

fun PassBf_Find :: "byte list \<Rightarrow> PassBf list \<Rightarrow> PassBf option" where
  "PassBf_Find h [] = None"
| "PassBf_Find h (p # ps) = (if pb_ui128IpHash p = h then Some p else PassBf_Find h ps)"

text \<open>The first entry of the address, the one \<open>Find\<close> returns, is dropped or counted.\<close>

fun PassBf_Remove :: "byte list \<Rightarrow> PassBf list \<Rightarrow> PassBf list" where
  "PassBf_Remove h [] = []"
| "PassBf_Remove h (p # ps) = (if pb_ui128IpHash p = h then ps else p # PassBf_Remove h ps)"

fun PassBf_count :: "byte list \<Rightarrow> PassBf list \<Rightarrow> PassBf list" where
  "PassBf_count h [] = []"
| "PassBf_count h (p # ps) = (if pb_ui128IpHash p = h then p\<lparr>m_iCount := m_iCount p + 1\<rparr> # ps else p # PassBf_count h ps)"

definition add_short :: "u64 \<Rightarrow> 16 word \<Rightarrow> u64" where
  "add_short t s = t + scast s"

text \<open>The entries left, and the one that forbids the user to come back yet.\<close>

fun check_rec_loop :: "16 word \<Rightarrow> u64 \<Rightarrow> User \<Rightarrow> RecTime list \<Rightarrow> RecTime list \<times> RecTime option" where
  "check_rec_loop t tick u [] = ([], None)"
| "check_rec_loop t tick u (p # ps) =
     (if add_short (m_ui64DisConnTick p) t \<le> tick then check_rec_loop t tick u ps
      else if rt_ui32NickHash p = m_ui32NickHash u \<and> rt_ui128IpHash p = m_ui128IpHash u \<and> iequals (rt_sNick p) (m_sNick u)
        then (p # ps, Some p)
      else (let (l, r) = check_rec_loop t tick u ps in (p # l, r)))"

definition CheckRecTime :: "server_env \<Rightarrow> addr \<Rightarrow> server \<Rightarrow> (server \<times> bool) res" where
  "CheckRecTime env a S =
     rbind (user_of a S) (\<lambda>u.
       let t = m_i16Shorts env SETSHORT_MIN_RECONN_TIME;
           (l, r) = check_rec_loop t (m_ui64ActualTick S) u (m_RecTimeList S);
           S1 = S\<lparr>m_RecTimeList := l\<rparr>
       in case r of
            None \<Rightarrow> Inr (S1, False)
          | Some p \<Rightarrow>
              rbind (say env False a (as_hub env (m_sTexts (se_flood env) LAN_PLEASE_WAIT @ '' ''
                @ to_dec (unat (add_short (m_ui64DisConnTick p) t - m_ui64ActualTick S)) @ '' ''
                @ se_lang env LAN_SECONDS_BEFORE_RECONN @ ''.|'')) S1) (\<lambda>S2. Inr (S2, True)))"

definition Add2RecTimes_now :: "server_env \<Rightarrow> int \<Rightarrow> addr \<Rightarrow> server \<Rightarrow> server res" where
  "Add2RecTimes_now env tLoginTime a S =
     rbind (allowed a NOUSRSAMEIP S) (\<lambda>ok.
     rbind (user_of a S) (\<lambda>u.
       if ok \<or> sv_time S - tLoginTime \<ge> short env SETSHORT_MIN_RECONN_TIME then Inr S
       else Inr (S\<lparr>m_RecTimeList := \<lparr>m_ui64DisConnTick = m_ui64ActualTick S - word_of_int (sv_time S - tLoginTime),
              rt_sNick = m_sNick u, rt_ui32NickHash = m_ui32NickHash u, rt_ui128IpHash = m_ui128IpHash u\<rparr> # m_RecTimeList S\<rparr>)))"

section \<open>One user of the server\<close>

text \<open>A change of one user object of the server.\<close>

definition updS :: "addr \<Rightarrow> (User \<Rightarrow> User) \<Rightarrow> server \<Rightarrow> server" where
  "updS a f S = set_hub (upd a f (sv_hub S)) S"

lemma mod_user_run: "user_of a S = Inr u \<Longrightarrow> mod_user a f S = Inr (updS a f S)"
  by (simp add: user_of_def mod_user_def in_hub_def set_user_run updS_def)

lemma user_of_updS [simp]: "user_of a S = Inr u \<Longrightarrow> user_of a (updS a f S) = Inr (f u)"
  by (simp add: user_of_def updS_def)

section \<open>A server to try things on\<close>

definition demo_server_env :: server_env where
  "demo_server_env = \<lparr>se_flood = demo_flood_env, se_lang = (\<lambda>_. ''text''), m_bBools = (\<lambda>_. False), m_i16Shorts = (\<lambda>_. 0),
     se_sTexts = (\<lambda>_. []), m_sPreTexts = (\<lambda>_. []), m_ui64MinShare = 0, m_ui64MaxShare = 0, se_HashPassword = (\<lambda>_. None),
     se_resolver = example_resolver, se_bUseIPv6 = False, se_uptime = (0, 0, 0), se_peek = (\<lambda>_. PeekData),
     se_lists = (\<lambda>_. \<lparr>m_NickList = ''$NickList |'', m_MyInfos = [], m_MyInfosTag = [], m_OpList = ''$OpList |''\<rparr>),
     se_lua = (\<lambda>_ _ _ S. Inr (S, False))\<rparr>"

definition demo_server :: "hub \<Rightarrow> RegManager \<Rightarrow> server" where
  "demo_server H R = \<lparr>sv_site = \<lparr>st_hub = H, st_regs = R, st_profiles = default_ProfileManager, m_UserList = None\<rparr>,
     sv_bans = new_BanManager, sv_reserved = [], m_PasswdBfCheck = [], m_RecTimeList = [], sv_countries = no_countries,
     m_ui32Joins = 0, m_ui32Parts = 0, sv_stats = (\<lambda>_. 0), m_ui64ActualTick = 100, sv_time = 1000\<rparr>"

end
