(* ===== verification/MyInfo.thy ===== *)
theory MyInfo
  imports Server
begin

text \<open>
  Reading \<open>$MyINFO\<close> (\<open>UserParseMyInfo\<close>, \<open>SetMyInfoOriginal\<close> and \<open>ProcessRules\<close> in \<open>core/User.cpp\<close>): the parts between the
  dollars, the share, and the tag \<open><client V:..,M:..,H:..,S:..>\<close> at the end of the description.  The code cuts the
  text in the global buffer by writing NULs over the separators; here a cut is a piece of the text, and reading
  behind a piece gives the NUL (\<open>cget\<close>).  Received texts hold no NUL of their own.
\<close>

section \<open>Cutting\<close>

definition MatchBytes :: "string \<Rightarrow> string \<Rightarrow> bool" where
  "MatchBytes buf literal \<longleftrightarrow> take (length literal) buf = literal"

text \<open>The pieces between the separators: one more than there are separators.\<close>

fun split_on :: "char \<Rightarrow> string \<Rightarrow> string list" where
  "split_on d [] = [[]]"
| "split_on d (c # s) =
     (if c = d then [] # split_on d s
      else (case split_on d s of [] \<Rightarrow> [[c]] | p # ps \<Rightarrow> (c # p) # ps))"

text \<open>At most \<open>k\<close> pieces, each ended by the separator.\<close>

fun terminated :: "char \<Rightarrow> nat \<Rightarrow> string \<Rightarrow> string list" where
  "terminated d 0 s = []"
| "terminated d (Suc k) s =
     (let p = takeWhile (\<lambda>c. c \<noteq> d) s
      in if length p < length s then p # terminated d k (drop (Suc (length p)) s) else [])"

text \<open>\<open>strrchr\<close>: what is before the last occurrence, and the text from it on.\<close>

fun strrchr :: "char \<Rightarrow> string \<Rightarrow> (string \<times> string) option" where
  "strrchr d [] = None"
| "strrchr d (c # s) =
     (case strrchr d s of
        Some (before, at_it) \<Rightarrow> Some (c # before, at_it)
      | None \<Rightarrow> if c = d then Some ([], c # s) else None)"

section \<open>Fields of the tag\<close>

datatype tag_outcome = TagBad | TagSkip | TagCounted | TagFake

abbreviation mod_info :: "(UserInfo \<Rightarrow> UserInfo) \<Rightarrow> User \<Rightarrow> User" where
  "mod_info g u \<equiv> u\<lparr>m_Info := g (m_Info u)\<rparr>"

definition put_bit :: "bool \<Rightarrow> u32 \<Rightarrow> User \<Rightarrow> User" where
  "put_bit b m u = u\<lparr>m_ui32BoolBits := (if b then m_ui32BoolBits u OR m else m_ui32BoolBits u AND NOT m)\<rparr>"

definition is_active :: "char \<Rightarrow> bool" where
  "is_active c \<longleftrightarrow> c = CHR ''A'' \<or> c = CHR ''a''"

definition tag_V :: "string \<Rightarrow> User \<Rightarrow> User \<times> tag_outcome" where
  "tag_V f u =
     (if cget f 2 = CHR 0x00 \<or> m_sTagVersion (m_Info u) \<noteq> [] then (u, TagBad)
      else (mod_info (\<lambda>i. i\<lparr>m_sTagVersion := drop 2 f\<rparr>) u, TagCounted))"

definition tag_M :: "string \<Rightarrow> User \<Rightarrow> User \<times> tag_outcome" where
  "tag_M f u =
     (if has_bits (m_ui32BoolBits u) BIT_IPV6 \<and> has_bits (m_ui32SupportBits u) SUPPORTBIT_IP64 then
        (if cget f 2 = CHR 0x00 \<or> cget f 3 = CHR 0x00 \<or> cget f 4 \<noteq> CHR 0x00 then (u, TagBad)
         else (put_bit (is_active (cget f 2)) BIT_IPV4_ACTIVE
                 (put_bit (is_active (cget f 3)) BIT_IPV6_ACTIVE (mod_info (\<lambda>i. i\<lparr>m_sModes := [cget f 2, cget f 3]\<rparr>) u)),
               TagCounted))
      else
        (if cget f 2 = CHR 0x00 \<or> cget f 3 \<noteq> CHR 0x00 then (u, TagBad)
         else (put_bit (is_active (cget f 2)) BIT_IPV4_ACTIVE (mod_info (\<lambda>i. i\<lparr>m_sModes := [cget f 2]\<rparr>) u), TagCounted)))"

text \<open>The slashes of the hub counts are looked for behind the first character.\<close>

definition hub_cuts :: "string \<Rightarrow> string list" where
  "hub_cuts h = (case split_on (CHR ''/'') (tl h) of [] \<Rightarrow> [] | p # ps \<Rightarrow> (hd h # p) # ps)"

definition only_numbers :: "string \<Rightarrow> bool" where
  "only_numbers s \<longleftrightarrow> HaveOnlyNumbers s (unat (word_of_nat (length s) :: u16))"

definition tag_H :: "string \<Rightarrow> User \<Rightarrow> User \<times> tag_outcome" where
  "tag_H f u =
     (if cget f 2 = CHR 0x00 then (u, TagBad)
      else case hub_cuts (drop 2 f) of
        [h] \<Rightarrow>
          (case safe_stoi h of
             None \<Rightarrow> (u, TagBad)
           | Some n \<Rightarrow> (put_bit True BIT_OLDHUBSTAG (mod_info (\<lambda>i. i\<lparr>m_ui32Hubs := word_of_int n\<rparr>) u), TagCounted))
      | h0 # h1 # h2 # _ \<Rightarrow>
          (if h1 = [] \<or> h2 = [] then (u, TagFake)
           else if \<not> only_numbers h0 \<or> \<not> only_numbers h1 \<or> \<not> only_numbers h2 then (u, TagBad)
           else case (safe_stoi h0, safe_stoi h1, safe_stoi h2) of
                  (Some n0, Some n1, Some n2) \<Rightarrow>
                    (let total = word_of_int n0 + word_of_int n1 + word_of_int n2 :: u32;
                         u1 = mod_info (\<lambda>i. i\<lparr>m_ui32NormalHubs := word_of_int n0, m_ui32RegHubs := word_of_int n1,
                                m_ui32OpHubs := word_of_int n2, m_ui32Hubs := total\<rparr>) u
                     in if total \<noteq> 0 then (put_bit False BIT_OLDHUBSTAG u1, TagCounted) else (u1, TagFake))
                | _ \<Rightarrow> (u, TagBad))
      | _ \<Rightarrow> (u, TagFake))"

definition tag_S :: "string \<Rightarrow> User \<Rightarrow> User \<times> tag_outcome" where
  "tag_S f u =
     (if cget f 2 = CHR 0x00 then (u, TagBad)
      else
        let n = drop 2 f;
            u1 = (if (word_of_nat (length n) :: u16) > 12 then mod_info (\<lambda>i. i\<lparr>m_is_bad_len_number_myinfo := True\<rparr>) u else u)
        in if \<not> only_numbers n then (u1, TagBad)
           else case safe_stoi n of
                  None \<Rightarrow> (u1, TagBad)
                | Some k \<Rightarrow> (mod_info (\<lambda>i. i\<lparr>m_ui32Slots := word_of_int k\<rparr>) u1, TagCounted))"

text \<open>The limits are optional: they do not count.\<close>

definition tag_limit :: "(u32 \<Rightarrow> UserInfo \<Rightarrow> UserInfo) \<Rightarrow> string \<Rightarrow> User \<Rightarrow> User \<times> tag_outcome" where
  "tag_limit put f u =
     (if cget f 2 = CHR 0x00 then (u, TagBad)
      else
        let u1 = (if length f > 12 then mod_info (\<lambda>i. i\<lparr>m_is_bad_len_number_myinfo := True\<rparr>) u else u)
        in case safe_stoi (drop 2 f) of
             None \<Rightarrow> (u1, TagBad)
           | Some k \<Rightarrow> (mod_info (put (word_of_int k)) u1, TagSkip))"

text \<open>
  One field, with the character that follows its terminator in the buffer, which is what the code reads as
  second character of an empty field.
\<close>

definition tag_field :: "char \<Rightarrow> string \<Rightarrow> User \<Rightarrow> User \<times> tag_outcome" where
  "tag_field follows f u =
     (if (if f = [] then follows else cget f 1) \<noteq> CHR '':'' then (u, TagBad)
      else if cget f 0 = CHR ''V'' then tag_V f u
      else if cget f 0 = CHR ''M'' then tag_M f u
      else if cget f 0 = CHR ''H'' then tag_H f u
      else if cget f 0 = CHR ''S'' then tag_S f u
      else if cget f 0 = CHR ''O'' then tag_limit (\<lambda>n i. i\<lparr>m_ui32OLimit := n\<rparr>) f u
      else if cget f 0 = CHR ''B'' \<or> cget f 0 = CHR ''L'' then tag_limit (\<lambda>n i. i\<lparr>m_ui32LLimit := n\<rparr>) f u
      else if cget f 0 = CHR ''D'' then tag_limit (\<lambda>n i. i\<lparr>m_ui32DLimit := n\<rparr>) f u
      else (u, TagSkip))"

fun next_char :: "string list \<Rightarrow> char" where
  "next_char [] = CHR 0x00"
| "next_char ([] # fs) = CHR '',''"
| "next_char ((c # f) # fs) = c"

definition fake_hubs :: "User \<Rightarrow> User" where
  "fake_hubs = mod_info (\<lambda>i. i\<lparr>m_ui32NormalHubs := 1, m_ui32Hubs := (if m_ui32Hubs i = 0 then 1 else m_ui32Hubs i)\<rparr>)"

text \<open>The fields in order; the number of required ones seen, or \<open>None\<close> at a bad one.\<close>

fun tag_loop :: "server_env \<Rightarrow> addr \<Rightarrow> string list \<Rightarrow> nat \<Rightarrow> server \<Rightarrow> (server \<times> nat option) res" where
  "tag_loop env a [] reqVals S = Inr (S, Some reqVals)"
| "tag_loop env a (f # fs) reqVals S =
     rbind (user_of a S) (\<lambda>u.
     rbind (mod_user a (\<lambda>u. fst (tag_field (next_char fs) f u)) S) (\<lambda>S1.
       case snd (tag_field (next_char fs) f u) of
         TagBad \<Rightarrow> Inr (S1, None)
       | TagSkip \<Rightarrow> tag_loop env a fs reqVals S1
       | TagCounted \<Rightarrow> tag_loop env a fs (Suc reqVals) S1
       | TagFake \<Rightarrow>
           rbind (say env False a (as_hub env (se_lang env LAN_FAKE_TAG @ ''!|'')) S1) (\<lambda>S2.
           rbind (mod_user a fake_hubs S2) (\<lambda>S3. tag_loop env a fs reqVals S3))))"

section \<open>The text\<close>

definition g_sOtherNoTag :: string where "g_sOtherNoTag = ''OTHER (NO TAG)''"
definition g_sUnknownTag :: string where "g_sUnknownTag = ''UNKNOWN TAG''"
definition g_sBadTag :: string where "g_sBadTag = ''BAD TAG!''"

text \<open>The length of the description is passed on as an 8-bit number.\<close>

definition UserSetBadTag :: "string \<Rightarrow> User \<Rightarrow> User" where
  "UserSetBadTag sDesc u =
     (mod_info (\<lambda>i. i\<lparr>m_sTagVersion := [], m_sModes := [], m_ui32Hubs := 0, m_ui32Slots := 0, m_ui32OLimit := 0,
         m_ui32LLimit := 0, m_ui32DLimit := 0, m_ui32NormalHubs := 0, m_ui32RegHubs := 0, m_ui32OpHubs := 0,
         m_sDescription := take (unat (word_of_nat (length sDesc) :: byte)) sDesc, m_sTag := [], m_sClient := g_sBadTag\<rparr>) u)
     \<lparr>m_ui32BoolBits := m_ui32BoolBits u OR BIT_OLDHUBSTAG OR BIT_HAVE_BADTAG\<rparr>"

definition ParseShare :: "string \<Rightarrow> u64 option" where
  "ParseShare sShare =
     (let ds = takeWhile is_digit sShare
      in if ds = [] \<or> dec_val ds \<ge> 2 ^ 64 then None else Some (word_of_nat (dec_val ds)))"

definition reset_tag :: "UserInfo \<Rightarrow> UserInfo" where
  "reset_tag i = i\<lparr>m_sModes := [], m_ui32Hubs := 0, m_ui32NormalHubs := 0, m_ui32RegHubs := 0, m_ui32OpHubs := 0,
     m_ui32Slots := 0, m_ui32OLimit := 0, m_ui32LLimit := 0, m_ui32DLimit := 0\<rparr>"

definition set_share :: "addr \<Rightarrow> u64 \<Rightarrow> server \<Rightarrow> server res" where
  "set_share a ui64NewShare = in_hub (\<lambda>H.
     rbind (the_user a H) (\<lambda>u.
     rbind (set_user a (\<lambda>u. u\<lparr>m_ui64SharedSize := ui64NewShare\<rparr>) H) (\<lambda>H1.
       Inr (if has_bits (m_ui32BoolBits u) BIT_HAVE_SHARECOUNTED
            then H1\<lparr>m_ui64TotalShare := m_ui64TotalShare H1 - m_ui64SharedSize u + ui64NewShare\<rparr> else H1))))"

text \<open>The description \<open>d\<close> is \<open>before @ tag\<close>, and \<open>tag\<close> is from the last \<open><\<close> to the closing \<open>>\<close>.\<close>

definition parse_tag :: "server_env \<Rightarrow> addr \<Rightarrow> string \<Rightarrow> string \<Rightarrow> string \<Rightarrow> server \<Rightarrow> server res" where
  "parse_tag env a d before tag S =
     rbind (mod_user a (\<lambda>u. (mod_info (\<lambda>i. i\<lparr>m_sTag := tag\<rparr>) u)\<lparr>m_ui32SupportBits :=
        (if MatchBytes tag ''<++ '' then m_ui32SupportBits u OR SUPPORTBIT_NOHELLO else m_ui32SupportBits u)\<rparr>) S) (\<lambda>S1.
       let client = takeWhile (\<lambda>c. c \<noteq> CHR '' '') tag;
           rest = drop (Suc (length client)) tag
       in if length client < length tag \<and> MatchBytes rest ''V:'' then
            rbind (mod_user a (mod_info (\<lambda>i. i\<lparr>m_sClient := tl client\<rparr>)) S1) (\<lambda>S2.
            rbind (tag_loop env a (split_on (CHR '','') (butlast rest)) 0 S2) (\<lambda>(S3, r).
              case r of
                Some n \<Rightarrow> if n < 4 then mod_user a (UserSetBadTag d) S3
                          else mod_user a (mod_info (\<lambda>i. i\<lparr>m_sDescription := before\<rparr>)) S3
              | None \<Rightarrow> mod_user a (UserSetBadTag d) S3))
          else mod_user a (mod_info (\<lambda>i. i\<lparr>m_sClient := g_sUnknownTag, m_sTag := [], m_sDescription := d\<rparr>)) S1)"

definition parse_description :: "server_env \<Rightarrow> addr \<Rightarrow> string \<Rightarrow> server \<Rightarrow> server res" where
  "parse_description env a d S =
     (if d \<noteq> [] \<and> last d = CHR ''>'' then
        (case strrchr (CHR ''<'') d of
           None \<Rightarrow> mod_user a (mod_info (\<lambda>i. i\<lparr>m_sDescription := d, m_sClient := g_sOtherNoTag\<rparr>)) S
         | Some (before, tag) \<Rightarrow> parse_tag env a d before tag S)
      else mod_user a (mod_info (\<lambda>i. reset_tag (i\<lparr>m_sDescription := (if d \<noteq> [] then d else m_sDescription i),
                m_sClient := g_sOtherNoTag, m_sTag := [], m_sTagVersion := []\<rparr>))) S)"

text \<open>The five parts behind the nick: description, an empty part of one character, connection, mail and share.\<close>

definition info_parts :: "nat \<Rightarrow> string \<Rightarrow> (string \<times> string \<times> string \<times> string) option" where
  "info_parts start s =
     (case terminated (CHR ''$'') 5 (drop start (butlast s)) of
        [p0, p1, p2, p3, p4] \<Rightarrow> if length p1 \<noteq> 1 \<or> p2 = [] \<or> p4 = [] then None else Some (p0, p2, p3, p4)
      | _ \<Rightarrow> None)"

definition UserParseMyInfo :: "server_env \<Rightarrow> addr \<Rightarrow> server \<Rightarrow> server res" where
  "UserParseMyInfo env a S =
     rbind (user_of a S) (\<lambda>u.
       let s = (case m_sMyInfoOriginal (m_Info u) of None \<Rightarrow> [] | Some t \<Rightarrow> t);
           start = 14 + length (m_sNick u) in
       if unat (m_ui16MyInfoOriginalLen (m_Info u)) \<le> start then close_it env a S
       else if length s > global_buffer_size (fe_hub (se_flood env)) then Inl BufferOverflow
       else case info_parts start s of
         None \<Rightarrow> rbind (say env False a (as_hub env (se_lang env LAN_YOU_MyINFO_IS_CORRUPTED @ ''!|'')) S) (close_it env a)
       | Some (desc, conn, email, share) \<Rightarrow>
           rbind (mod_user a (mod_info (\<lambda>i. i\<lparr>m_ui8MagicByte := byte_of (last conn), m_sConnection := butlast conn,
                     m_sEmail := (if email \<noteq> [] then email else m_sEmail i)\<rparr>)) S) (\<lambda>S1.
           if \<not> HaveOnlyNumbers share (length share) then close_it env a S1
           else case ParseShare share of
             None \<Rightarrow> close_it env a S1
           | Some ui64NewShare \<Rightarrow>
               rbind (set_share a ui64NewShare S1) (\<lambda>S2.
               rbind (mod_user a (mod_info reset_tag) S2) (\<lambda>S3. parse_description env a desc S3))))"

section \<open>Storing\<close>

definition store_original :: "string \<Rightarrow> u16 \<Rightarrow> UserInfo \<Rightarrow> UserInfo" where
  "store_original sMyInfo ui16MyInfoLen i =
     (let i1 = (if m_sMyInfoOriginal i \<noteq> None
                then i\<lparr>m_sConnection := [], m_sDescription := [], m_sEmail := [], m_sTag := [], m_sClient := [], m_sTagVersion := []\<rparr>
                else i)
      in i1\<lparr>m_sMyInfoOriginal := Some (take (unat ui16MyInfoLen) sMyInfo), m_ui16MyInfoOriginalLen := ui16MyInfoLen\<rparr>)"

definition info_bit :: "bool \<Rightarrow> u32 \<Rightarrow> u32 \<Rightarrow> u32" where
  "info_bit b m w = (if b then w OR m else w AND NOT m)"

definition mark_changes :: "User \<Rightarrow> User \<Rightarrow> User" where
  "mark_changes old u =
     (let bits = info_bit (m_ui64SharedSize old \<noteq> m_ui64SharedSize u) INFOBIT_SHARE_CHANGED
           (info_bit (m_sEmail (m_Info old) \<noteq> m_sEmail (m_Info u)) INFOBIT_EMAIL_CHANGED
           (info_bit (m_sConnection (m_Info old) \<noteq> m_sConnection (m_Info u)) INFOBIT_CONNECTION_CHANGED
           (info_bit (m_sTag (m_Info old) \<noteq> m_sTag (m_Info u)) INFOBIT_TAG_CHANGED
           (info_bit (m_sDescription (m_Info old) \<noteq> m_sDescription (m_Info u)) INFOBIT_DESCRIPTION_CHANGED (m_ui32InfoBits u)))))
      in (mod_info (\<lambda>i. i\<lparr>
            m_ui64ChangedSharedSizeShort :=
              (if \<not> has_bits bits INFOBIT_SHARE_SHORT_PERM then m_ui64SharedSize u else m_ui64ChangedSharedSizeShort i),
            m_ui64ChangedSharedSizeLong :=
              (if \<not> has_bits bits INFOBIT_SHARE_LONG_PERM then m_ui64SharedSize u else m_ui64ChangedSharedSizeLong i)\<rparr>) u)
         \<lparr>m_ui32InfoBits := bits\<rparr>)"

definition SetMyInfoOriginal :: "server_env \<Rightarrow> addr \<Rightarrow> string \<Rightarrow> u16 \<Rightarrow> server \<Rightarrow> server res" where
  "SetMyInfoOriginal env a sMyInfo ui16MyInfoLen S =
     rbind (user_of a S) (\<lambda>old.
     rbind (mod_user a (mod_info (store_original sMyInfo ui16MyInfoLen)) S) (\<lambda>S1.
     rbind (UserParseMyInfo env a S1) (\<lambda>S2. mod_user a (mark_changes old) S2)))"

section \<open>Rules\<close>

text \<open>
  The ratio of slots to hubs is compared exactly; the code compares doubles, whose rounding cannot show below a
  million hubs.
\<close>

definition ratio_less :: "int \<Rightarrow> int \<Rightarrow> int \<Rightarrow> int \<Rightarrow> bool" where
  "ratio_less slots hubs s h = (if h > 0 then slots * h < s * hubs else slots * h > s * hubs)"

definition share_out_of_limits :: "server_env \<Rightarrow> User \<Rightarrow> bool" where
  "share_out_of_limits env u \<longleftrightarrow>
     m_ui64MinShare env \<noteq> 0 \<and> m_ui64SharedSize u < m_ui64MinShare env
     \<or> m_ui64MaxShare env \<noteq> 0 \<and> m_ui64SharedSize u > m_ui64MaxShare env"

definition slots_out_of_limits :: "server_env \<Rightarrow> User \<Rightarrow> bool" where
  "slots_out_of_limits env u \<longleftrightarrow>
     m_i16Shorts env SETSHORT_MIN_SLOTS_LIMIT \<noteq> 0 \<and> m_ui32Slots (m_Info u) < ushort env SETSHORT_MIN_SLOTS_LIMIT
     \<or> m_i16Shorts env SETSHORT_MAX_SLOTS_LIMIT \<noteq> 0 \<and> m_ui32Slots (m_Info u) > ushort env SETSHORT_MAX_SLOTS_LIMIT"

definition ratio_too_low :: "server_env \<Rightarrow> User \<Rightarrow> bool" where
  "ratio_too_low env u \<longleftrightarrow>
     m_i16Shorts env SETSHORT_HUB_SLOT_RATIO_HUBS \<noteq> 0 \<and> m_i16Shorts env SETSHORT_HUB_SLOT_RATIO_SLOTS \<noteq> 0
     \<and> ratio_less (uint (m_ui32Slots (m_Info u))) (if m_ui32Hubs (m_Info u) > 0 then uint (m_ui32Hubs (m_Info u)) else 1)
         (short env SETSHORT_HUB_SLOT_RATIO_SLOTS) (short env SETSHORT_HUB_SLOT_RATIO_HUBS)"

definition too_many_hubs :: "server_env \<Rightarrow> User \<Rightarrow> bool" where
  "too_many_hubs env u \<longleftrightarrow>
     m_i16Shorts env SETSHORT_MAX_HUBS_LIMIT \<noteq> 0 \<and> m_ui32Hubs (m_Info u) > ushort env SETSHORT_MAX_HUBS_LIMIT"

text \<open>A rule: asked only when the user has no right to break it; a broken one ends the check with its text.\<close>

fun check_rules :: "server_env \<Rightarrow> addr \<Rightarrow> (nat \<times> (User \<Rightarrow> bool) \<times> SetPreTxtIds) list \<Rightarrow> server \<Rightarrow> (server \<times> bool) res" where
  "check_rules env a [] S = Inr (S, True)"
| "check_rules env a ((right, broken, text) # rules) S =
     rbind (allowed a right S) (\<lambda>ok.
     rbind (user_of a S) (\<lambda>u.
       if \<not> ok \<and> broken u then rbind (send_text env a (m_sPreTexts env text) S) (\<lambda>S1. Inr (S1, False))
       else check_rules env a rules S))"

definition ProcessRules :: "server_env \<Rightarrow> addr \<Rightarrow> server \<Rightarrow> (server \<times> bool) res" where
  "ProcessRules env a S =
     rbind (user_of a S) (\<lambda>u.
       check_rules env a ((NOSHARELIMIT, share_out_of_limits env, SETPRETXT_SHARE_LIMIT_MSG) #
         (if m_sTag (m_Info u) = []
          then [(NOTAGCHECK, \<lambda>_. m_i16Shorts env SETSHORT_NO_TAG_OPTION \<noteq> 0, SETPRETXT_NO_TAG_MSG)]
          else [(NOSLOTCHECK, slots_out_of_limits env, SETPRETXT_SLOTS_LIMIT_MSG),
                (NOSLOTHUBRATIO, ratio_too_low env, SETPRETXT_HUB_SLOT_RATIO_MSG),
                (NOMAXHUBCHECK, too_many_hubs env, SETPRETXT_MAX_HUBS_LIMIT_MSG)])) S)"

end
