(* ===== verification/MyInfoRound.thy ===== *)
theory MyInfoRound
  imports MyInfo
begin

text \<open>
  What a client writes into \<open>$MyINFO\<close> is what the hub reads out of it: the round trip of the tagged text.
\<close>

section \<open>Cutting a text put together\<close>

lemma split_on_none [simp]: "d \<notin> set p \<Longrightarrow> split_on d p = [p]"
  by (induction p) auto

lemma split_on_nonempty [simp]: "split_on d s \<noteq> []"
  by (induction s) (auto split: list.splits)

lemma split_on_cons [simp]: "d \<notin> set p \<Longrightarrow> split_on d (p @ d # s) = p # split_on d s"
  by (induction p) (auto split: list.splits)

lemma takeWhile_sep: "d \<notin> set p \<Longrightarrow> takeWhile (\<lambda>c. c \<noteq> d) (p @ d # s) = p"
  by (induction p) auto

lemma terminated_cons [simp]: "d \<notin> set p \<Longrightarrow> terminated d (Suc k) (p @ d # s) = p # terminated d k s"
  by (simp add: takeWhile_sep Let_def)

lemma terminated_one: "d \<notin> set p \<Longrightarrow> terminated d (Suc k) (p @ [d]) = p # terminated d k []"
  using terminated_cons [of d p k "[]"] by simp

lemma strrchr_none: "d \<notin> set s \<Longrightarrow> strrchr d s = None"
  by (induction s) auto

lemma strrchr_last: "d \<notin> set s \<Longrightarrow> strrchr d (p @ d # s) = Some (p, d # s)"
  by (induction p) (auto simp: strrchr_none)

text \<open>Numbers are written in digits and read back.\<close>

lemma to_dec_all_digits: "c \<in> set (to_dec n) \<Longrightarrow> is_digit c"
  using to_dec_digits [of n] by blast

lemma not_in_dec: "\<not> is_digit c \<Longrightarrow> c \<notin> set (to_dec n)"
  using to_dec_all_digits by blast

lemma only_numbers_dec: "length (to_dec n) < 65536 \<Longrightarrow> only_numbers (to_dec n)"
  unfolding only_numbers_def
  by (subst HaveOnlyNumbers_iff) (auto simp: unat_of_nat list_all_iff dest: to_dec_all_digits in_set_takeD)

lemma takeWhile_dec: "takeWhile is_digit (to_dec n) = to_dec n"
  using to_dec_all_digits by (auto simp: takeWhile_eq_all_conv)

lemma hd_dec: "is_digit (hd (to_dec n))"
  using to_dec_all_digits [OF hd_in_set [OF to_dec_nonempty]] .

lemma safe_stoi_dec: "n < 2 ^ 31 \<Longrightarrow> safe_stoi (to_dec n) = Some (int n)"
  using hd_dec [of n] to_dec_digits [of n]
  by (auto simp: safe_stoi_def Let_def takeWhile_dec is_digit_def)

lemma length_to_dec: "n < 10 ^ Suc k \<Longrightarrow> length (to_dec n) \<le> Suc k"
proof (induction k arbitrary: n)
  case 0
  then show ?case by (subst to_dec.simps) simp
next
  case (Suc k)
  show ?case
  proof (cases "n < 10")
    case True
    then show ?thesis by (subst to_dec.simps) simp
  next
    case False
    have "n div 10 < 10 ^ Suc k" using Suc.prems by (simp add: div_less_iff_less_mult)
    from Suc.IH [OF this] False show ?thesis by (subst to_dec.simps) simp
  qed
qed

lemma length_to_dec_int: "n < 2 ^ 31 \<Longrightarrow> length (to_dec n) \<le> 10"
  using length_to_dec [of n 9] by simp

section \<open>The fields of a tag\<close>

definition hub_counts :: "nat \<Rightarrow> nat \<Rightarrow> nat \<Rightarrow> string" where
  "hub_counts n r o' = to_dec n @ ''/'' @ to_dec r @ ''/'' @ to_dec o'"

lemma not_digits [simp]: "\<not> is_digit (CHR ''/'')" "\<not> is_digit (CHR '','')" "\<not> is_digit (CHR ''$'')" "\<not> is_digit (CHR ''<'')"
  "\<not> is_digit (CHR 0x00)"
  by (simp_all add: is_digit_def)

lemma tl_dec_slash: "CHR ''/'' \<notin> set (tl (to_dec n))"
  using not_in_dec [of "CHR ''/''" n] by (auto dest: list.set_sel(2) [OF to_dec_nonempty])

lemma hub_cuts_counts: "hub_cuts (hub_counts n r k) = [to_dec n, to_dec r, to_dec k]"
proof -
  have "tl (hub_counts n r k) = tl (to_dec n) @ CHR ''/'' # (to_dec r @ CHR ''/'' # to_dec k)"
    by (simp add: hub_counts_def)
  then show ?thesis using tl_dec_slash [of n] not_in_dec [of "CHR ''/''"]
    by (simp add: hub_cuts_def) (simp add: hub_counts_def)
qed

lemma cget_2_dec: "cget (a # b # to_dec n @ s) 2 = hd (to_dec n)"
  by (cases "to_dec n") (simp_all add: cget_def)

lemma hd_dec_not_nul [simp]: "hd (to_dec n) \<noteq> CHR 0x00"
  using hd_dec [of n] by (auto simp: is_digit_def)

lemma tag_H_counts:
  assumes "n < 2 ^ 31" "r < 2 ^ 31" "k < 2 ^ 31" and "(of_nat n + of_nat r + of_nat k :: u32) \<noteq> 0"
  shows "tag_H (''H:'' @ hub_counts n r k) u = (put_bit False BIT_OLDHUBSTAG (mod_info (\<lambda>i. i\<lparr>m_ui32NormalHubs := of_nat n,
    m_ui32RegHubs := of_nat r, m_ui32OpHubs := of_nat k, m_ui32Hubs := of_nat n + of_nat r + of_nat k\<rparr>) u), TagCounted)"
proof -
  have c: "cget (''H:'' @ hub_counts n r k) 2 \<noteq> CHR 0x00" by (simp add: hub_counts_def cget_2_dec)
  have o: "only_numbers (to_dec n)" "only_numbers (to_dec r)" "only_numbers (to_dec k)"
    using assms(1-3) [THEN length_to_dec_int] by (simp_all add: only_numbers_dec)
  show ?thesis using c o assms by (simp add: tag_H_def hub_cuts_counts safe_stoi_dec Let_def)
qed

lemma tag_S_slots:
  assumes "n < 2 ^ 31"
  shows "tag_S (''S:'' @ to_dec n) u = (mod_info (\<lambda>i. i\<lparr>m_ui32Slots := of_nat n\<rparr>) u, TagCounted)"
proof -
  have c: "cget (''S:'' @ to_dec n) 2 \<noteq> CHR 0x00" using cget_2_dec [of _ _ n "[]"] by simp
  have l: "length (to_dec n) \<le> 10" using assms by (rule length_to_dec_int)
  have w: "\<not> (word_of_nat (length (to_dec n)) :: u16) > 12"
    using l by (simp add: word_less_nat_alt unat_of_nat)
  from c w l assms show ?thesis by (simp add: tag_S_def only_numbers_dec safe_stoi_dec Let_def)
qed

section \<open>The text a client sends\<close>

record client_info =
  ci_desc :: string
  ci_client :: string
  ci_version :: string
  ci_mode :: char
  ci_hubs :: nat
  ci_regs :: nat
  ci_ops :: nat
  ci_slots :: nat
  ci_speed :: string
  ci_magic :: char
  ci_email :: string
  ci_share :: nat

definition tag_fields :: "client_info \<Rightarrow> string" where
  "tag_fields x = ''V:'' @ ci_version x @ '','' @ ''M:'' @ [ci_mode x] @ '','' @ ''H:'' @ hub_counts (ci_hubs x) (ci_regs x) (ci_ops x)
     @ '','' @ ''S:'' @ to_dec (ci_slots x)"

definition tag_text :: "client_info \<Rightarrow> string" where
  "tag_text x = ''<'' @ ci_client x @ '' '' @ tag_fields x @ ''>''"

definition myinfo_text :: "string \<Rightarrow> client_info \<Rightarrow> string" where
  "myinfo_text nick x = ''$MyINFO $ALL '' @ nick @ '' '' @ ci_desc x @ tag_text x @ ''$ $'' @ ci_speed x @ [ci_magic x] @ ''$''
     @ ci_email x @ ''$'' @ to_dec (ci_share x) @ ''$|''"

text \<open>A text without the protocol's separators, and an announcement made of such texts.\<close>

definition plain :: "string \<Rightarrow> string \<Rightarrow> bool" where
  "plain bad s \<longleftrightarrow> (\<forall>c \<in> set s. c \<notin> set bad)"

definition well_formed :: "client_info \<Rightarrow> bool" where
  "well_formed x \<longleftrightarrow> plain ''$'' (ci_desc x) \<and> plain ''$ <'' (ci_client x) \<and> plain ''$,<'' (ci_version x) \<and> ci_version x \<noteq> []
     \<and> hd (ci_version x) \<noteq> CHR 0x00 \<and> plain ''$,<'' [ci_mode x] \<and> ci_mode x \<noteq> CHR 0x00
     \<and> plain ''$'' (ci_speed x) \<and> plain ''$'' [ci_magic x] \<and> plain ''$'' (ci_email x)
     \<and> ci_hubs x < 2 ^ 31 \<and> ci_regs x < 2 ^ 31 \<and> ci_ops x < 2 ^ 31 \<and> ci_slots x < 2 ^ 31 \<and> ci_share x < 2 ^ 64
     \<and> (of_nat (ci_hubs x) + of_nat (ci_regs x) + of_nat (ci_ops x) :: u32) \<noteq> 0"

lemma plainD: "plain bad s \<Longrightarrow> c \<in> set bad \<Longrightarrow> c \<notin> set s"
  by (auto simp: plain_def)

lemma well_formedD:
  assumes "well_formed x"
  shows "plain ''$'' (ci_desc x)" "plain ''$ <'' (ci_client x)" "plain ''$,<'' (ci_version x)" "plain ''$,<'' [ci_mode x]"
    "plain ''$'' (ci_speed x)" "plain ''$'' [ci_magic x]" "plain ''$'' (ci_email x)"
  using assms by (simp_all add: well_formed_def)

lemma not_space_digit [simp]: "\<not> is_digit (CHR '' '')" by (simp add: is_digit_def)

lemma counts_set: "c \<in> set (hub_counts n r k) \<Longrightarrow> is_digit c \<or> c = CHR ''/''"
  by (auto simp: hub_counts_def dest: to_dec_all_digits)

lemma counts_free [simp]: "\<not> is_digit c \<Longrightarrow> c \<noteq> CHR ''/'' \<Longrightarrow> c \<notin> set (hub_counts n r k)"
  using counts_set by blast

lemma split_tag_fields:
  assumes "well_formed x"
  shows "split_on (CHR '','') (tag_fields x) = [''V:'' @ ci_version x, ''M:'' @ [ci_mode x],
    ''H:'' @ hub_counts (ci_hubs x) (ci_regs x) (ci_ops x), ''S:'' @ to_dec (ci_slots x)]"
proof -
  let ?c = "CHR '',''"
  have n: "?c \<notin> set (''V:'' @ ci_version x)" "?c \<notin> set (''M:'' @ [ci_mode x])"
    "?c \<notin> set (''H:'' @ hub_counts (ci_hubs x) (ci_regs x) (ci_ops x))" "?c \<notin> set (''S:'' @ to_dec (ci_slots x))"
    using well_formedD(3,4) [OF assms, THEN plainD, of "?c"] by (simp_all add: not_in_dec)
  have "tag_fields x = (''V:'' @ ci_version x) @ ?c # ((''M:'' @ [ci_mode x]) @ ?c #
      ((''H:'' @ hub_counts (ci_hubs x) (ci_regs x) (ci_ops x)) @ ?c # (''S:'' @ to_dec (ci_slots x))))"
    by (simp add: tag_fields_def)
  then show ?thesis by (simp only: split_on_cons [OF n(1)] split_on_cons [OF n(2)] split_on_cons [OF n(3)] split_on_none [OF n(4)])
qed

lemma myinfo_parts:
  assumes "well_formed x"
  shows "info_parts (14 + length nick) (myinfo_text nick x) =
    Some (ci_desc x @ tag_text x, ci_speed x @ [ci_magic x], ci_email x, to_dec (ci_share x))"
proof -
  let ?d = "CHR ''$''"
  have n: "?d \<notin> set (ci_desc x @ tag_text x)" "?d \<notin> set '' ''" "?d \<notin> set (ci_speed x @ [ci_magic x])" "?d \<notin> set (ci_email x)"
    "?d \<notin> set (to_dec (ci_share x))"
    using well_formedD [OF assms, THEN plainD, of "?d"] by (simp_all add: tag_text_def tag_fields_def not_in_dec)
  have "drop (14 + length nick) (butlast (myinfo_text nick x)) =
      (ci_desc x @ tag_text x) @ ?d # ('' '' @ ?d # ((ci_speed x @ [ci_magic x]) @ ?d # (ci_email x @ ?d # (to_dec (ci_share x) @ [?d]))))"
    (is "drop ?n ?t = ?r")
  proof -
    have "?t = (''$MyINFO $ALL '' @ nick @ '' '') @ ?r" by (simp add: myinfo_text_def butlast_append)
    moreover have "length (''$MyINFO $ALL '' @ nick @ '' '') = ?n" by simp
    ultimately show ?thesis by (metis append_eq_conv_conj)
  qed
  then have "terminated ?d 5 (drop (14 + length nick) (butlast (myinfo_text nick x))) =
      [ci_desc x @ tag_text x, '' '', ci_speed x @ [ci_magic x], ci_email x, to_dec (ci_share x)]"
    by (simp only: numeral_nat terminated_cons [OF n(1)] terminated_cons [OF n(2)] terminated_cons [OF n(3)]
        terminated_cons [OF n(4)] terminated_one [OF n(5)] terminated.simps(1))
  then show ?thesis by (simp add: info_parts_def)
qed

section \<open>Reading it\<close>

lemma set_share_run:
  "user_of a S = Inr u \<Longrightarrow> \<exists>S'. set_share a x S = Inr S' \<and> user_of a S' = Inr (u\<lparr>m_ui64SharedSize := x\<rparr>)"
  by (simp add: user_of_def set_share_def in_hub_def set_user_run)

definition tag_info :: "client_info \<Rightarrow> UserInfo \<Rightarrow> UserInfo" where
  "tag_info x i = i\<lparr>m_sTagVersion := ci_version x, m_sModes := [ci_mode x], m_ui32NormalHubs := of_nat (ci_hubs x),
     m_ui32RegHubs := of_nat (ci_regs x), m_ui32OpHubs := of_nat (ci_ops x),
     m_ui32Hubs := of_nat (ci_hubs x) + of_nat (ci_regs x) + of_nat (ci_ops x), m_ui32Slots := of_nat (ci_slots x)\<rparr>"

lemma put_bit_has: "m \<noteq> 0 \<Longrightarrow> has_bits (m_ui32BoolBits (put_bit b m u)) m = b"
  by (simp add: put_bit_def has_bits_clear)

lemma put_bit_other: "m AND k = 0 \<Longrightarrow> has_bits (m_ui32BoolBits (put_bit b m u)) k = has_bits (m_ui32BoolBits u) k"
  by (simp add: put_bit_def has_bits_clear_disjoint has_bits_or_disjoint)

text \<open>What reading the description leaves alone.\<close>

definition reads_only :: "User \<Rightarrow> User \<Rightarrow> bool" where
  "reads_only u v \<longleftrightarrow> m_sNick v = m_sNick u \<and> m_sMyInfoLong v = m_sMyInfoLong u \<and> m_ui32InfoBits v = m_ui32InfoBits u"

text \<open>A counted field.\<close>

lemma tag_loop_step:
  assumes u: "user_of a S = Inr u" and f: "\<And>c. tag_field c f u = (v, TagCounted)"
  shows "\<exists>S1. (\<forall>n. tag_loop env a (f # fs) n S = tag_loop env a fs (Suc n) S1) \<and> user_of a S1 = Inr v"
proof -
  let ?S = "updS a (\<lambda>u. fst (tag_field (next_char fs) f u)) S"
  have "user_of a ?S = Inr v" using u f by simp
  then show ?thesis using u f by (intro exI [of _ ?S]) (simp add: mod_user_run)
qed

lemma tag_loop_fields:
  assumes wf: "well_formed x" and u: "user_of a S = Inr u" and v: "m_sTagVersion (m_Info u) = []"
    and one: "\<not> (has_bits (m_ui32BoolBits u) BIT_IPV6 \<and> has_bits (m_ui32SupportBits u) SUPPORTBIT_IP64)"
  shows "\<exists>S' u'. tag_loop env a (split_on (CHR '','') (tag_fields x)) 0 S = Inr (S', Some 4) \<and> user_of a S' = Inr u'
    \<and> m_Info u' = tag_info x (m_Info u) \<and> m_ui64SharedSize u' = m_ui64SharedSize u \<and> reads_only u u'
    \<and> (has_bits (m_ui32BoolBits u') BIT_IPV4_ACTIVE \<longleftrightarrow> is_active (ci_mode x))"
proof -
  have c2: "cget (''V:'' @ ci_version x) 2 \<noteq> CHR 0x00" using wf by (cases "ci_version x") (auto simp: cget_def well_formed_def)
  have h: "ci_hubs x < 2 ^ 31" "ci_regs x < 2 ^ 31" "ci_ops x < 2 ^ 31" "ci_slots x < 2 ^ 31" "ci_mode x \<noteq> CHR 0x00"
    "(of_nat (ci_hubs x) + of_nat (ci_regs x) + of_nat (ci_ops x) :: u32) \<noteq> 0"
    using wf by (simp_all add: well_formed_def)
  note H = tag_H_counts [OF h(1-3) h(6)] and Sl = tag_S_slots [OF h(4)]
  have M: "tag_M (''M:'' @ [ci_mode x]) w = (put_bit (is_active (ci_mode x)) BIT_IPV4_ACTIVE
      (mod_info (\<lambda>i. i\<lparr>m_sModes := [ci_mode x]\<rparr>) w), TagCounted)"
    if "\<not> (has_bits (m_ui32BoolBits w) BIT_IPV6 \<and> has_bits (m_ui32SupportBits w) SUPPORTBIT_IP64)" for w
    using that h(5) by (simp add: tag_M_def cget_def)
  have V: "tag_V (''V:'' @ ci_version x) w = (mod_info (\<lambda>i. i\<lparr>m_sTagVersion := ci_version x\<rparr>) w, TagCounted)"
    if "m_sTagVersion (m_Info w) = []" for w
    using that c2 by (simp add: tag_V_def)
  have fd: "tag_field c (''V:'' @ t) = tag_V (''V:'' @ t)" "tag_field c (''M:'' @ t) = tag_M (''M:'' @ t)"
    "tag_field c (''H:'' @ t) = tag_H (''H:'' @ t)" "tag_field c (''S:'' @ t) = tag_S (''S:'' @ t)" for c t
    by (simp_all add: tag_field_def cget_def fun_eq_iff)
  define f1 where "f1 = ''V:'' @ ci_version x"
  define f2 where "f2 = ''M:'' @ [ci_mode x]"
  define f3 where "f3 = ''H:'' @ hub_counts (ci_hubs x) (ci_regs x) (ci_ops x)"
  define f4 where "f4 = ''S:'' @ to_dec (ci_slots x)"
  let ?u1 = "mod_info (\<lambda>i. i\<lparr>m_sTagVersion := ci_version x\<rparr>) u"
  let ?u2 = "put_bit (is_active (ci_mode x)) BIT_IPV4_ACTIVE (mod_info (\<lambda>i. i\<lparr>m_sModes := [ci_mode x]\<rparr>) ?u1)"
  let ?u3 = "put_bit False BIT_OLDHUBSTAG (mod_info (\<lambda>i. i\<lparr>m_ui32NormalHubs := of_nat (ci_hubs x),
    m_ui32RegHubs := of_nat (ci_regs x), m_ui32OpHubs := of_nat (ci_ops x),
    m_ui32Hubs := of_nat (ci_hubs x) + of_nat (ci_regs x) + of_nat (ci_ops x)\<rparr>) ?u2)"
  let ?u4 = "mod_info (\<lambda>i. i\<lparr>m_ui32Slots := of_nat (ci_slots x)\<rparr>) ?u3"
  have F: "tag_field c f1 u = (?u1, TagCounted)" "tag_field c f2 ?u1 = (?u2, TagCounted)" "tag_field c f3 ?u2 = (?u3, TagCounted)"
    "tag_field c f4 ?u3 = (?u4, TagCounted)" for c
    using V [OF v] M [of ?u1] one H [of ?u2] Sl [of ?u3] unfolding f1_def f2_def f3_def f4_def fd by simp_all
  from tag_loop_step [OF u F(1)] obtain S1 where
    1: "\<forall>n. tag_loop env a (f1 # [f2, f3, f4]) n S = tag_loop env a [f2, f3, f4] (Suc n) S1" "user_of a S1 = Inr ?u1" by blast
  from tag_loop_step [OF 1(2) F(2)] obtain S2 where
    2: "\<forall>n. tag_loop env a (f2 # [f3, f4]) n S1 = tag_loop env a [f3, f4] (Suc n) S2" "user_of a S2 = Inr ?u2" by blast
  from tag_loop_step [OF 2(2) F(3)] obtain S3 where
    3: "\<forall>n. tag_loop env a (f3 # [f4]) n S2 = tag_loop env a [f4] (Suc n) S3" "user_of a S3 = Inr ?u3" by blast
  from tag_loop_step [OF 3(2) F(4)] obtain S4 where
    4: "\<forall>n. tag_loop env a (f4 # []) n S3 = tag_loop env a [] (Suc n) S4" "user_of a S4 = Inr ?u4" by blast
  have "tag_loop env a [f1, f2, f3, f4] 0 S = Inr (S4, Some 4)"
    using 1(1) 2(1) 3(1) 4(1) by (simp only: tag_loop.simps(1)) (simp add: eval_nat_numeral)
  then have "tag_loop env a (split_on (CHR '','') (tag_fields x)) 0 S = Inr (S4, Some 4)"
    unfolding split_tag_fields [OF wf] f1_def f2_def f3_def f4_def .
  moreover have "m_Info ?u4 = tag_info x (m_Info u)" by (simp add: put_bit_def tag_info_def)
  moreover have "has_bits (m_ui32BoolBits ?u4) BIT_IPV4_ACTIVE \<longleftrightarrow> is_active (ci_mode x)"
    using put_bit_other [of BIT_OLDHUBSTAG BIT_IPV4_ACTIVE] put_bit_has [of BIT_IPV4_ACTIVE] by (simp add: user_bits)
  ultimately show ?thesis using 4(2) by (intro exI [of _ S4] exI [of _ ?u4]) (simp add: put_bit_def reads_only_def)
qed

lemma parse_tag_run:
  assumes wf: "well_formed x" and u: "user_of a S = Inr u" and v: "m_sTagVersion (m_Info u) = []"
    and one: "\<not> (has_bits (m_ui32BoolBits u) BIT_IPV6 \<and> has_bits (m_ui32SupportBits u) SUPPORTBIT_IP64)"
  shows "\<exists>S' u'. parse_description env a (ci_desc x @ tag_text x) S = Inr S' \<and> user_of a S' = Inr u'
    \<and> m_Info u' = (tag_info x (m_Info u))\<lparr>m_sTag := tag_text x, m_sClient := ci_client x, m_sDescription := ci_desc x\<rparr>
    \<and> m_ui64SharedSize u' = m_ui64SharedSize u \<and> reads_only u u'
    \<and> (has_bits (m_ui32BoolBits u') BIT_IPV4_ACTIVE \<longleftrightarrow> is_active (ci_mode x))"
proof -
  let ?lt = "CHR ''<''" and ?sp = "CHR '' ''"
  have lt: "?lt \<notin> set (tl (tag_text x))" "?sp \<notin> set (CHR ''<'' # ci_client x)"
    using well_formedD [OF wf, THEN plainD, of "?lt"] well_formedD(2) [OF wf, THEN plainD, of ?sp]
    by (simp_all add: tag_text_def tag_fields_def not_in_dec)
  have t: "tag_text x = ?lt # tl (tag_text x)" by (simp add: tag_text_def)
  have sr: "strrchr ?lt (ci_desc x @ tag_text x) = Some (ci_desc x, tag_text x)"
    using strrchr_last [OF lt(1), of "ci_desc x"] t by simp
  have l: "last (ci_desc x @ tag_text x) = CHR ''>''" "ci_desc x @ tag_text x \<noteq> []" by (simp_all add: tag_text_def)
  have cl: "takeWhile (\<lambda>c. c \<noteq> ?sp) (tag_text x) = ?lt # ci_client x"
    using takeWhile_sep [OF lt(2), of "tag_fields x @ ''>''"] by (simp add: tag_text_def)
  have rest: "drop (Suc (Suc (length (ci_client x)))) (tag_text x) = tag_fields x @ ''>''" by (simp add: tag_text_def)
  let ?f1 = "\<lambda>u. (mod_info (\<lambda>i. i\<lparr>m_sTag := tag_text x\<rparr>) u)\<lparr>m_ui32SupportBits :=
      (if MatchBytes (tag_text x) ''<++ '' then m_ui32SupportBits u OR SUPPORTBIT_NOHELLO else m_ui32SupportBits u)\<rparr>"
  let ?f2 = "mod_info (\<lambda>i. i\<lparr>m_sClient := ci_client x\<rparr>)"
  let ?S2 = "updS a ?f2 (updS a ?f1 S)"
  have ip64: "has_bits (m_ui32SupportBits (?f1 u)) SUPPORTBIT_IP64 = has_bits (m_ui32SupportBits u) SUPPORTBIT_IP64"
    using has_bits_or_disjoint [of SUPPORTBIT_NOHELLO SUPPORTBIT_IP64] by (simp add: user_bits)
  have u2: "user_of a ?S2 = Inr (?f2 (?f1 u))" using u by simp
  obtain S3 u3 where 3: "tag_loop env a (split_on (CHR '','') (tag_fields x)) 0 ?S2 = Inr (S3, Some 4)" "user_of a S3 = Inr u3"
    "m_Info u3 = tag_info x (m_Info (?f2 (?f1 u)))" "m_ui64SharedSize u3 = m_ui64SharedSize u" "reads_only u u3"
    "has_bits (m_ui32BoolBits u3) BIT_IPV4_ACTIVE \<longleftrightarrow> is_active (ci_mode x)"
    using tag_loop_fields [OF wf u2, of env] v one ip64 by (auto simp: reads_only_def)
  have m: "MatchBytes (tag_fields x @ ''>'') ''V:''" by (simp add: MatchBytes_def tag_fields_def)
  have len: "length (?lt # ci_client x) < length (tag_text x)" by (simp add: tag_text_def)
  have "parse_description env a (ci_desc x @ tag_text x) S =
      Inr (updS a (mod_info (\<lambda>i. i\<lparr>m_sDescription := ci_desc x\<rparr>)) S3)"
    using u l 3 m len by (simp add: parse_description_def sr parse_tag_def cl rest mod_user_run Let_def)
  then show ?thesis using 3 by (simp add: tag_info_def reads_only_def)
qed

lemma mark_changes_fields:
  "m_sMyInfoOriginal (m_Info (mark_changes old u)) = m_sMyInfoOriginal (m_Info u)" "m_sDescription (m_Info (mark_changes old u)) = m_sDescription (m_Info u)"
  "m_sTag (m_Info (mark_changes old u)) = m_sTag (m_Info u)" "m_sClient (m_Info (mark_changes old u)) = m_sClient (m_Info u)"
  "m_sTagVersion (m_Info (mark_changes old u)) = m_sTagVersion (m_Info u)" "m_sModes (m_Info (mark_changes old u)) = m_sModes (m_Info u)"
  "m_ui32NormalHubs (m_Info (mark_changes old u)) = m_ui32NormalHubs (m_Info u)" "m_ui32RegHubs (m_Info (mark_changes old u)) = m_ui32RegHubs (m_Info u)"
  "m_ui32OpHubs (m_Info (mark_changes old u)) = m_ui32OpHubs (m_Info u)" "m_ui32Slots (m_Info (mark_changes old u)) = m_ui32Slots (m_Info u)"
  "m_sConnection (m_Info (mark_changes old u)) = m_sConnection (m_Info u)" "m_ui8MagicByte (m_Info (mark_changes old u)) = m_ui8MagicByte (m_Info u)"
  "m_sEmail (m_Info (mark_changes old u)) = m_sEmail (m_Info u)"
  "m_ui64SharedSize (mark_changes old u) = m_ui64SharedSize u" "m_ui32BoolBits (mark_changes old u) = m_ui32BoolBits u"
  unfolding mark_changes_def Let_def by simp_all

lemma parse_run:
  assumes "user_of a S = Inr u" and "m_sMyInfoOriginal (m_Info u) = Some t"
    and "\<not> unat (m_ui16MyInfoOriginalLen (m_Info u)) \<le> 14 + length (m_sNick u)"
    and "length t \<le> global_buffer_size (fe_hub (se_flood env))"
    and "info_parts (14 + length (m_sNick u)) t = Some (d, conn, email, share)"
    and "HaveOnlyNumbers share (length share)" and "ParseShare share = Some sh"
    and "mod_user a (mod_info (\<lambda>i. i\<lparr>m_ui8MagicByte := byte_of (last conn), m_sConnection := butlast conn,
      m_sEmail := (if email \<noteq> [] then email else m_sEmail i)\<rparr>)) S = Inr S1"
    and "set_share a sh S1 = Inr S2" and "mod_user a (mod_info reset_tag) S2 = Inr S3"
  shows "UserParseMyInfo env a S = parse_description env a d S3"
  using assms unfolding UserParseMyInfo_def Let_def by simp

lemma store_original_fields:
  "m_sMyInfoOriginal (store_original t n i) = Some (take (unat n) t)" "m_ui16MyInfoOriginalLen (store_original t n i) = n"
  "m_sMyInfoOriginal i = None \<longrightarrow> m_sTagVersion i = [] \<Longrightarrow> m_sTagVersion (store_original t n i) = []"
  by (auto simp: store_original_def Let_def)

lemma has_info_bit: "m AND k = 0 \<Longrightarrow> has_bits (info_bit b m w) k = has_bits w k"
  by (simp add: info_bit_def has_bits_clear_disjoint has_bits_or_disjoint)

lemma mark_changes_rest:
  "m_sNick (mark_changes old u) = m_sNick u" "m_sMyInfoLong (mark_changes old u) = m_sMyInfoLong u"
  "\<not> has_bits (m_ui32InfoBits u) INFOBIT_SHARE_LONG_PERM \<Longrightarrow>
     m_ui64ChangedSharedSizeLong (m_Info (mark_changes old u)) = m_ui64SharedSize u"
  unfolding mark_changes_def Let_def by (simp_all add: has_info_bit user_bits)

lemma MyINFO_read:
  assumes "user_of a S = Inr u" and "well_formed x"
    and "\<not> (has_bits (m_ui32BoolBits u) BIT_IPV6 \<and> has_bits (m_ui32SupportBits u) SUPPORTBIT_IP64)"
    and "length (myinfo_text (m_sNick u) x) < 65536"
    and "length (myinfo_text (m_sNick u) x) \<le> global_buffer_size (fe_hub (se_flood env))"
    and "m_sMyInfoOriginal (m_Info u) = None \<longrightarrow> m_sTagVersion (m_Info u) = []"
  shows "\<exists>S' u'. SetMyInfoOriginal env a (myinfo_text (m_sNick u) x) (of_nat (length (myinfo_text (m_sNick u) x))) S = Inr S'
    \<and> user_of a S' = Inr u' \<and> m_ui64SharedSize u' = of_nat (ci_share x)
    \<and> m_sMyInfoOriginal (m_Info u') = Some (myinfo_text (m_sNick u) x)
    \<and> m_sDescription (m_Info u') = ci_desc x \<and> m_sTag (m_Info u') = tag_text x
    \<and> m_sClient (m_Info u') = ci_client x \<and> m_sTagVersion (m_Info u') = ci_version x
    \<and> m_sModes (m_Info u') = [ci_mode x] \<and> (has_bits (m_ui32BoolBits u') BIT_IPV4_ACTIVE \<longleftrightarrow> is_active (ci_mode x))
    \<and> m_ui32NormalHubs (m_Info u') = of_nat (ci_hubs x) \<and> m_ui32RegHubs (m_Info u') = of_nat (ci_regs x)
    \<and> m_ui32OpHubs (m_Info u') = of_nat (ci_ops x) \<and> m_ui32Slots (m_Info u') = of_nat (ci_slots x)
    \<and> m_sConnection (m_Info u') = ci_speed x \<and> m_ui8MagicByte (m_Info u') = byte_of (ci_magic x)
    \<and> (ci_email x \<noteq> [] \<longrightarrow> m_sEmail (m_Info u') = ci_email x)
    \<and> (ci_email x = [] \<longrightarrow> m_sEmail (m_Info u') = (if m_sMyInfoOriginal (m_Info u) = None then m_sEmail (m_Info u) else []))
    \<and> m_sNick u' = m_sNick u \<and> m_sMyInfoLong u' = m_sMyInfoLong u
    \<and> (\<not> has_bits (m_ui32InfoBits u) INFOBIT_SHARE_LONG_PERM \<longrightarrow> m_ui64ChangedSharedSizeLong (m_Info u') = of_nat (ci_share x))"
proof -
  let ?t = "myinfo_text (m_sNick u) x" and ?n = "of_nat (length (myinfo_text (m_sNick u) x)) :: u16"
  have n: "unat ?n = length ?t" using assms(4) by (simp add: unat_of_nat)
  let ?f1 = "mod_info (store_original ?t ?n)"
  let ?S1 = "updS a ?f1 S"
  have u1: "user_of a ?S1 = Inr (?f1 u)" using assms(1) by simp
  have o: "m_sMyInfoOriginal (m_Info (?f1 u)) = Some ?t" "m_ui16MyInfoOriginalLen (m_Info (?f1 u)) = ?n"
    "m_sTagVersion (m_Info (?f1 u)) = []" "m_sNick (?f1 u) = m_sNick u"
    using n assms(6) by (simp_all add: store_original_fields)
  have long: "\<not> length ?t \<le> 14 + length (m_sNick u)" by (simp add: myinfo_text_def)
  let ?f2 = "mod_info (\<lambda>i. i\<lparr>m_ui8MagicByte := byte_of (ci_magic x), m_sConnection := ci_speed x,
      m_sEmail := (if ci_email x \<noteq> [] then ci_email x else m_sEmail i)\<rparr>)"
  let ?S2 = "updS a ?f2 ?S1"
  have u2: "user_of a ?S2 = Inr (?f2 (?f1 u))" using u1 by simp
  have sh: "ParseShare (to_dec (ci_share x)) = Some (of_nat (ci_share x))" "HaveOnlyNumbers (to_dec (ci_share x)) (length (to_dec (ci_share x)))"
    using assms(2) to_dec_digits [of "ci_share x"]
    by (simp_all add: ParseShare_def Let_def takeWhile_dec well_formed_def HaveOnlyNumbers_iff list_all_iff subset_iff)
  obtain S3 where 3: "set_share a (of_nat (ci_share x)) ?S2 = Inr S3"
    "user_of a S3 = Inr ((?f2 (?f1 u))\<lparr>m_ui64SharedSize := of_nat (ci_share x)\<rparr>)" (is "_ = Inr ?u3")
    using set_share_run [OF u2] by blast
  let ?S4 = "updS a (mod_info reset_tag) S3" and ?u4 = "mod_info reset_tag ?u3"
  have u4: "user_of a ?S4 = Inr ?u4" using 3 by simp
  have v4: "m_sTagVersion (m_Info ?u4) = []" using o(3) by (simp add: reset_tag_def)
  obtain S5 u5 where 5: "parse_description env a (ci_desc x @ tag_text x) ?S4 = Inr S5" "user_of a S5 = Inr u5"
    "m_Info u5 = (tag_info x (m_Info ?u4))\<lparr>m_sTag := tag_text x, m_sClient := ci_client x, m_sDescription := ci_desc x\<rparr>"
    "m_ui64SharedSize u5 = of_nat (ci_share x)" "reads_only ?u4 u5" "has_bits (m_ui32BoolBits u5) BIT_IPV4_ACTIVE \<longleftrightarrow> is_active (ci_mode x)"
    using parse_tag_run [OF assms(2) u4 v4, of env] assms(3) by (auto simp: reads_only_def)
  have parse: "UserParseMyInfo env a ?S1 = Inr S5"
    using parse_run [OF u1 o(1) _ assms(5) _ sh(2,1) _ _ mod_user_run [OF 3(2)], of "ci_desc x @ tag_text x"
        "ci_speed x @ [ci_magic x]" "ci_email x" ?S2] o(2,4) n long myinfo_parts [OF assms(2), of "m_sNick u"] 3(1) 5(1)
      mod_user_run [OF u1, of ?f2] by simp
  have "SetMyInfoOriginal env a ?t ?n S = Inr (updS a (mark_changes u) S5)"
    using assms(1) parse 5(2) by (simp add: SetMyInfoOriginal_def mod_user_run)
  moreover have "user_of a (updS a (mark_changes u) S5) = Inr (mark_changes u u5)" using 5(2) by simp
  moreover have "m_sNick u5 = m_sNick u" "m_sMyInfoLong u5 = m_sMyInfoLong u" "m_ui32InfoBits u5 = m_ui32InfoBits u"
    using 5(5) 3(2) by (simp_all add: reads_only_def)
  moreover have "m_sEmail (store_original ?t ?n (m_Info u)) = (if m_sMyInfoOriginal (m_Info u) = None then m_sEmail (m_Info u) else [])"
    by (simp add: store_original_def Let_def)
  ultimately show ?thesis using 5(3,4,6) o(1) n
    by (intro exI [of _ "updS a (mark_changes u) S5"] exI [of _ "mark_changes u u5"])
       (simp add: mark_changes_fields mark_changes_rest tag_info_def reset_tag_def)
qed

text \<open>
  C8.  The round trip of \<open>$MyINFO\<close>: an announcement in the common form, within the length the buffers hold, is accepted
  and read back field by field, for a user with one address family.
\<close>

theorem MyINFO_roundtrip:
  assumes "user_of a S = Inr u" and "well_formed x"
    and "\<not> (has_bits (m_ui32BoolBits u) BIT_IPV6 \<and> has_bits (m_ui32SupportBits u) SUPPORTBIT_IP64)"
    and "length (myinfo_text (m_sNick u) x) < 65536"
    and "length (myinfo_text (m_sNick u) x) \<le> global_buffer_size (fe_hub (se_flood env))"
    and "m_sMyInfoOriginal (m_Info u) = None \<longrightarrow> m_sTagVersion (m_Info u) = []"
  shows "\<exists>S' u'. SetMyInfoOriginal env a (myinfo_text (m_sNick u) x) (of_nat (length (myinfo_text (m_sNick u) x))) S = Inr S'
    \<and> user_of a S' = Inr u' \<and> m_ui64SharedSize u' = of_nat (ci_share x)
    \<and> m_sMyInfoOriginal (m_Info u') = Some (myinfo_text (m_sNick u) x)
    \<and> m_sDescription (m_Info u') = ci_desc x \<and> m_sTag (m_Info u') = tag_text x
    \<and> m_sClient (m_Info u') = ci_client x \<and> m_sTagVersion (m_Info u') = ci_version x
    \<and> m_sModes (m_Info u') = [ci_mode x] \<and> (has_bits (m_ui32BoolBits u') BIT_IPV4_ACTIVE \<longleftrightarrow> is_active (ci_mode x))
    \<and> m_ui32NormalHubs (m_Info u') = of_nat (ci_hubs x) \<and> m_ui32RegHubs (m_Info u') = of_nat (ci_regs x)
    \<and> m_ui32OpHubs (m_Info u') = of_nat (ci_ops x) \<and> m_ui32Slots (m_Info u') = of_nat (ci_slots x)
    \<and> m_sConnection (m_Info u') = ci_speed x \<and> m_ui8MagicByte (m_Info u') = byte_of (ci_magic x)
    \<and> (ci_email x \<noteq> [] \<longrightarrow> m_sEmail (m_Info u') = ci_email x)"
  using MyINFO_read [OF assms] by blast

definition demo_info :: client_info where
  "demo_info = \<lparr>ci_desc = ''hi '', ci_client = ''++'', ci_version = ''0.868'', ci_mode = CHR ''A'', ci_hubs = 1, ci_regs = 2, ci_ops = 0,
     ci_slots = 5, ci_speed = ''100'', ci_magic = CHR 0x01, ci_email = ''a@b'', ci_share = 4096\<rparr>"

lemma demo_dec: "to_dec 0 = ''0''" "to_dec (Suc 0) = ''1''" "to_dec 2 = ''2''" "to_dec 5 = ''5''" "to_dec 4096 = ''4096''"
  using char_of_char [of "CHR ''0''"] char_of_char [of "CHR ''1''"] char_of_char [of "CHR ''2''"] char_of_char [of "CHR ''4''"]
    char_of_char [of "CHR ''5''"] char_of_char [of "CHR ''6''"] char_of_char [of "CHR ''9''"]
  by (simp_all add: to_dec.simps)

lemma demo_sent:
  "user_of 1 (demo_server demo_hub demo_regs) = Inr demo_member" "well_formed demo_info"
  "\<not> (has_bits (m_ui32BoolBits demo_member) BIT_IPV6 \<and> has_bits (m_ui32SupportBits demo_member) SUPPORTBIT_IP64)"
  "length (myinfo_text ''alice'' demo_info) = 68" "global_buffer_size (fe_hub (se_flood demo_server_env)) = 262144"
  "m_sTagVersion (m_Info demo_member) = []" "m_sNick demo_member = ''alice''"
proof -
  show "user_of 1 (demo_server demo_hub demo_regs) = Inr demo_member"
    using demo_hub_user by (simp add: user_of_def demo_server_def the_user_def deref_def del: One_nat_def)
  show "well_formed demo_info" unfolding well_formed_def by (intro conjI) (simp_all add: demo_info_def plain_def)
  show "m_sNick demo_member = ''alice''" by simp
  show "length (myinfo_text ''alice'' demo_info) = 68"
    by (simp add: myinfo_text_def demo_info_def tag_text_def tag_fields_def hub_counts_def demo_dec)
  show "\<not> (has_bits (m_ui32BoolBits demo_member) BIT_IPV6 \<and> has_bits (m_ui32SupportBits demo_member) SUPPORTBIT_IP64)"
    "m_sTagVersion (m_Info demo_member) = []"
    by (simp_all add: demo_member_def blank_user_def blank_info_def has_bits_def user_bits)
  show "global_buffer_size (fe_hub (se_flood demo_server_env)) = 262144"
    by (simp add: demo_server_env_def demo_flood_env_def demo_config_def)
qed

theorem MyINFO_roundtrip_witness:
  "\<exists>S' u'. SetMyInfoOriginal demo_server_env 1 (myinfo_text ''alice'' demo_info) 68 (demo_server demo_hub demo_regs) = Inr S'
    \<and> user_of 1 S' = Inr u' \<and> m_sTag (m_Info u') = ''<++ V:0.868,M:A,H:1/2/0,S:5>'' \<and> m_sEmail (m_Info u') = ''a@b''"
proof -
  have t: "tag_text demo_info = ''<++ V:0.868,M:A,H:1/2/0,S:5>''" "ci_email demo_info = ''a@b''"
    by (simp_all add: demo_info_def tag_text_def tag_fields_def hub_counts_def demo_dec)
  have n: "(of_nat 68 :: u16) = 68" by simp
  have h: "m_sMyInfoOriginal (m_Info demo_member) = None \<longrightarrow> m_sTagVersion (m_Info demo_member) = []"
    "(68::nat) < 65536" "(68::nat) \<le> 262144" "''a@b'' \<noteq> []" using demo_sent(6) by simp_all
  from MyINFO_roundtrip [OF demo_sent(1-3), of demo_server_env, unfolded demo_sent(4,5,7) t n, OF h(2,3,1)] h(4) show ?thesis by blast
qed

end
