(* ===== verification/BanMessage.thy ===== *)
theory BanMessage
  imports Server
begin

text \<open>
  The message a banned user gets (\<open>GenerateBanMessage\<close>, \<open>GenerateRangeBanMessage\<close> and \<open>AppendBanFooter\<close> in
  \<open>core/utility.cpp\<close>), built up in the global buffer.  The message so far is the text before the offset; the
  first line may be longer than the buffer, of which \<open>snprintf\<close> then keeps the beginning only.
\<close>

section \<open>Building the message\<close>

text \<open>\<open>SnprintfAppend\<close> at the end of the message.\<close>

definition msg_append :: "nat \<Rightarrow> string \<Rightarrow> string \<Rightarrow> string option" where
  "msg_append sz msg t = (if length msg \<ge> sz \<or> t = [] \<or> length msg + length t \<ge> sz then None else Some (msg @ t))"

text \<open>The two plain stores of the closing pipe and the NUL behind it.\<close>

definition msg_pipe :: "nat \<Rightarrow> string \<Rightarrow> string res" where
  "msg_pipe sz msg = (if length msg + 1 \<ge> sz then Inl BufferOverflow else Inr (msg @ ''|''))"

definition footer_field :: "nat \<Rightarrow> bool \<Rightarrow> string \<Rightarrow> string \<Rightarrow> string \<Rightarrow> string option" where
  "footer_field sz shown label value msg =
     (if shown \<and> value \<noteq> [] then msg_append sz msg ([CHR 0x0A] @ label @ '': '' @ value) else Some msg)"

text \<open>An address to go to; a redirect that does not fit is left out.\<close>

definition redirect_to :: "server_env \<Rightarrow> nat \<Rightarrow> 'a BanItemBase_scheme \<Rightarrow> string \<Rightarrow> string" where
  "redirect_to env sz pBan msg =
     (let (on, addr) = (if is_set pBan PERM then (m_bBools env SETBOOL_PERM_BAN_REDIR, m_sPreTexts env SETPRETXT_PERM_BAN_REDIR_ADDRESS)
                        else (m_bBools env SETBOOL_TEMP_BAN_REDIR, m_sPreTexts env SETPRETXT_TEMP_BAN_REDIR_ADDRESS))
      in if on \<and> addr \<noteq> [] then (case msg_append sz msg addr of None \<Rightarrow> msg | Some m \<Rightarrow> m) else msg)"

definition AppendBanFooter :: "server_env \<Rightarrow> 'a BanItemBase_scheme \<Rightarrow> string \<Rightarrow> string option res" where
  "AppendBanFooter env pBan msg =
     (let sz = global_buffer_size (fe_hub (se_flood env)) in
      case footer_field sz (m_bBools env SETBOOL_BAN_MSG_SHOW_REASON) (se_lang env LAN_REASON) (m_sReason pBan) msg of
        None \<Rightarrow> Inr None
      | Some m1 \<Rightarrow>
          (case footer_field sz (m_bBools env SETBOOL_BAN_MSG_SHOW_BY) (se_lang env LAN_BANNED_BY) (m_sBy pBan) m1 of
             None \<Rightarrow> Inr None
           | Some m2 \<Rightarrow>
               if se_sTexts env SETTXT_MSG_TO_ADD_TO_BAN_MSG \<noteq> [] then
                 (case msg_append sz m2 ([CHR 0x0A] @ se_sTexts env SETTXT_MSG_TO_ADD_TO_BAN_MSG @ ''|'') of
                    None \<Rightarrow> Inr None
                  | Some m3 \<Rightarrow> Inr (Some (redirect_to env sz pBan m3)))
               else rbind (msg_pipe sz m2) (\<lambda>m3. Inr (Some (redirect_to env sz pBan m3)))))"

text \<open>The time left is computed in \<open>time_t\<close> and read as an unsigned number.\<close>

definition ban_intro :: "server_env \<Rightarrow> string \<Rightarrow> 'a BanItemBase_scheme \<Rightarrow> int \<Rightarrow> string" where
  "ban_intro env dot pBan tAccTime =
     (if is_set pBan PERM then as_hub env (se_lang env LAN_SORRY_PERM_BANNED @ ''.'')
      else as_hub env (se_lang env LAN_SORRY_TEMP_BANNED @ '': ''
        @ formatSecTime (time_texts (se_flood env)) (unat (word_of_int (m_tTempBanExpire pBan - tAccTime) :: u64)) @ dot))"

text \<open>The empty text stands for the length 0 of a message that could not be built.\<close>

definition GenerateBanMessage :: "server_env \<Rightarrow> BanItem \<Rightarrow> int \<Rightarrow> string res" where
  "GenerateBanMessage env pBan tAccTime =
     (let sz = global_buffer_size (fe_hub (se_flood env)) in
      case footer_field sz (m_bBools env SETBOOL_BAN_MSG_SHOW_IP) (se_lang env LAN_IP) (b_sIp pBan) (ban_intro env ''.'' pBan tAccTime) of
        None \<Rightarrow> Inr []
      | Some m1 \<Rightarrow>
          (case footer_field sz (m_bBools env SETBOOL_BAN_MSG_SHOW_NICK) (se_lang env LAN_NICK) (b_sNick pBan) m1 of
             None \<Rightarrow> Inr []
           | Some m2 \<Rightarrow> rbind (AppendBanFooter env pBan m2) (\<lambda>r. Inr (case r of None \<Rightarrow> [] | Some m \<Rightarrow> m))))"

definition GenerateRangeBanMessage :: "server_env \<Rightarrow> RangeBanItem \<Rightarrow> int \<Rightarrow> string res" where
  "GenerateRangeBanMessage env pRangeBan tAccTime =
     (let sz = global_buffer_size (fe_hub (se_flood env));
          m = ban_intro env [] pRangeBan tAccTime in
      case (if m_bBools env SETBOOL_BAN_MSG_SHOW_RANGE
            then msg_append sz m ([CHR 0x0A] @ se_lang env LAN_RANGE @ '': '' @ m_sIpFrom pRangeBan @ ''-'' @ m_sIpTo pRangeBan)
            else Some m) of
        None \<Rightarrow> Inr []
      | Some m1 \<Rightarrow> rbind (AppendBanFooter env pRangeBan m1) (\<lambda>r. Inr (case r of None \<Rightarrow> [] | Some m2 \<Rightarrow> m2)))"

section \<open>What is sent\<close>

lemma msg_append_len: "msg_append sz msg t = Some m \<Longrightarrow> length m < sz \<and> take (length msg) m = msg"
  by (auto simp: msg_append_def split: if_splits)

lemma redirect_to_len: "length msg < sz \<Longrightarrow> length (redirect_to env sz b msg) < sz \<and> take (length msg) (redirect_to env sz b msg) = msg"
  by (auto simp: redirect_to_def Let_def dest: msg_append_len split: option.splits)

lemma AppendBanFooter_len: "AppendBanFooter env b msg = Inr (Some m) \<Longrightarrow> length m < global_buffer_size (fe_hub (se_flood env))"
  by (auto simp: AppendBanFooter_def Let_def msg_pipe_def split: option.splits if_splits
      dest!: msg_append_len simp: redirect_to_len)

text \<open>The lines before the closing text, when they all fit.\<close>

definition ban_lines :: "server_env \<Rightarrow> BanItem \<Rightarrow> int \<Rightarrow> string option" where
  "ban_lines env b t =
     (let sz = global_buffer_size (fe_hub (se_flood env)) in
      Option.bind (footer_field sz (m_bBools env SETBOOL_BAN_MSG_SHOW_IP) (se_lang env LAN_IP) (b_sIp b) (ban_intro env ''.'' b t)) (\<lambda>m1.
      Option.bind (footer_field sz (m_bBools env SETBOOL_BAN_MSG_SHOW_NICK) (se_lang env LAN_NICK) (b_sNick b) m1) (\<lambda>m2.
      Option.bind (footer_field sz (m_bBools env SETBOOL_BAN_MSG_SHOW_REASON) (se_lang env LAN_REASON) (m_sReason b) m2)
        (footer_field sz (m_bBools env SETBOOL_BAN_MSG_SHOW_BY) (se_lang env LAN_BANNED_BY) (m_sBy b)))))"

text \<open>
  C37. A ban message fits the global buffer with its NUL, except that the closing pipe is written over the end of
  the buffer exactly when no closing text is configured and the lines leave no room for the pipe and a NUL.
\<close>

theorem GenerateBanMessage_bounds:
  "(GenerateBanMessage env b t = Inl BufferOverflow \<longleftrightarrow>
      se_sTexts env SETTXT_MSG_TO_ADD_TO_BAN_MSG = []
      \<and> (\<exists>m. ban_lines env b t = Some m \<and> global_buffer_size (fe_hub (se_flood env)) \<le> length m + 1))
    \<and> (GenerateBanMessage env b t = Inl BufferOverflow
      \<or> (\<exists>m. GenerateBanMessage env b t = Inr m \<and> (m = [] \<or> length m < global_buffer_size (fe_hub (se_flood env)))))"
proof -
  have "length m < global_buffer_size (fe_hub (se_flood env))" if "AppendBanFooter env b x = Inr (Some m)" for m x
    using AppendBanFooter_len [OF that] by simp
  then show ?thesis
    by (auto simp: GenerateBanMessage_def AppendBanFooter_def ban_lines_def Let_def msg_pipe_def
        split: option.splits if_splits dest!: msg_append_len simp: redirect_to_len)
qed

end
