(* ===== verification/Login.thy ===== *)
theory Login
  imports MyInfo BanMessage
begin

text \<open>
  The commands of a user who is logging in (\<open>core/DcCommands.cpp\<close>): the checks of the nick, the password, the
  announcement, and the dispatch by connection state.  A command is the received text with its closing pipe;
  cutting the pipe off is \<open>butlast\<close>.  What the scripts do is the environment's \<open>se_lua\<close>.
\<close>

section \<open>Helpers\<close>

definition show_int :: "int \<Rightarrow> string" where
  "show_int i = (if i < 0 then ''-'' @ to_dec (nat (- i)) else to_dec (nat i))"

definition hm_add :: "addr \<Rightarrow> server \<Rightarrow> server res" where
  "hm_add a = in_hub (\<lambda>H. rbind (HM_Add a (hub_users H)) (\<lambda>t. Inr (H\<lparr>hub_users := t\<rparr>)))"

definition set_reg :: "addr \<Rightarrow> (RegUser \<Rightarrow> RegUser) \<Rightarrow> server \<Rightarrow> server res" where
  "set_reg p f S = rbind (hwrite p f (rg_heap (sv_regs S))) (\<lambda>h. Inr (set_regs ((sv_regs S)\<lparr>rg_heap := h\<rparr>) S))"

definition on_bans :: "(BanManager \<Rightarrow> (BanManager \<times> 'a) res) \<Rightarrow> server \<Rightarrow> (server \<times> 'a) res" where
  "on_bans f S = rbind (f (sv_bans S)) (\<lambda>(B, x). Inr (S\<lparr>sv_bans := B\<rparr>, x))"

definition status :: "server_env \<Rightarrow> string \<Rightarrow> server \<Rightarrow> server" where
  "status env t S = set_hub (call (StatusMessage (as_hub env (''*** '' @ t))) (sv_hub S)) S"

definition past_login :: "addr \<Rightarrow> server \<Rightarrow> bool res" where
  "past_login a S = rbind (user_of a S) (\<lambda>u. Inr (isPastLogin (m_ui8State u)))"

definition SetNick :: "string \<Rightarrow> User \<Rightarrow> User" where
  "SetNick sNick u = u\<lparr>m_sNick := sNick, m_ui32NickHash := HashNick sNick\<rparr>"

definition add_me :: "server_env \<Rightarrow> addr \<Rightarrow> server \<Rightarrow> server res" where
  "add_me env a S = in_hub (AddMeOrIPv4Check (fe_hub (se_flood env)) (fe_zpipe (se_flood env)) (m_ui64ActualTick S) a) S"

text \<open>Close a user, with or without a text before, and refuse what he asked for.\<close>

definition refuse :: "server_env \<Rightarrow> addr \<Rightarrow> server \<Rightarrow> (server \<times> bool) res" where
  "refuse env a S = rbind (close_it env a S) (\<lambda>S1. Inr (S1, False))"

definition refuse_saying :: "server_env \<Rightarrow> addr \<Rightarrow> string \<Rightarrow> server \<Rightarrow> (server \<times> bool) res" where
  "refuse_saying env a t S = rbind (say env False a t S) (refuse env a)"

definition refuse_sending :: "server_env \<Rightarrow> addr \<Rightarrow> string \<Rightarrow> server \<Rightarrow> (server \<times> bool) res" where
  "refuse_sending env a t S = rbind (send_text env a t S) (refuse env a)"

text \<open>The kinds of \<open>PrcsdUsrCmd\<close> the login queues.\<close>

definition CMD_SUPPORTS :: byte where "CMD_SUPPORTS = 1"
definition CMD_LOGINHELLO :: byte where "CMD_LOGINHELLO = 2"
definition CMD_GETPASS :: byte where "CMD_GETPASS = 3"

section \<open>The nick\<close>

definition ValidateUserNickFinally :: "server_env \<Rightarrow> bool \<Rightarrow> addr \<Rightarrow> nat \<Rightarrow> bool \<Rightarrow> server \<Rightarrow> (server \<times> bool) res" where
  "ValidateUserNickFinally env pIsNotReg a szNickLen ValidateNick S =
     rbind (user_of a S) (\<lambda>u.
       if pIsNotReg then
         (if m_i16Shorts env SETSHORT_MIN_NICK_LEN \<noteq> 0 \<and> szNickLen < unat (ushort env SETSHORT_MIN_NICK_LEN)
            \<or> m_i16Shorts env SETSHORT_MAX_NICK_LEN \<noteq> 0 \<and> szNickLen > unat (ushort env SETSHORT_MAX_NICK_LEN)
          then refuse_sending env a (m_sPreTexts env SETPRETXT_NICK_LIMIT_MSG) S
          else if m_bBools env SETBOOL_REG_ONLY \<and> \<not> has_bits (m_ui32BoolBits u) BIT_PINGER
          then refuse_sending env a (m_sPreTexts env SETPRETXT_REG_ONLY_MSG) S
          else
            rbind (hm_add a S) (\<lambda>S1.
            rbind (set_bits a BIT_HASHED S1) (\<lambda>S2.
            rbind (if ValidateNick
                   then rbind (set_state a STATE_VERSION_OR_MYPASS S2) (queue_cmd a CMD_LOGINHELLO) else Inr S2) (\<lambda>S3.
              Inr (S3, True)))))
       else
         rbind (hm_add a S) (\<lambda>S1.
         rbind (set_bits a BIT_HASHED S1) (\<lambda>S2.
         rbind (set_state a STATE_VERSION_OR_MYPASS S2) (\<lambda>S3.
         rbind (set_bits a BIT_WAITING_FOR_PASS S3) (\<lambda>S4.
         rbind (queue_cmd a CMD_GETPASS S4) (\<lambda>S5. Inr (S5, True)))))))"

text \<open>
  The minutes to wait after wrong passwords: a power of two computed in floating point and converted to 32 bits,
  which is undefined when it does not fit.
\<close>

definition minutes_to_wait :: "(nat \<Rightarrow> u32) \<Rightarrow> byte \<Rightarrow> u32" where
  "minutes_to_wait too_big ui8BadPassCount =
     (let n = unat ui8BadPassCount - 1 in if n < 32 then 2 ^ n else too_big n)"

definition wait_until :: "(nat \<Rightarrow> u32) \<Rightarrow> RegUser \<Rightarrow> int" where
  "wait_until too_big r = m_tLastBadPass r + uint (60 * minutes_to_wait too_big (m_ui8BadPassCount r))"

text \<open>The first character a nick may not have.\<close>

fun bad_char :: "string \<Rightarrow> char option" where
  "bad_char [] = None"
| "bad_char (c # s) =
     (if c \<in> {CHR '' '', CHR ''$'', CHR ''|''} \<or> (of_char c :: nat) < 32 then Some c else bad_char s)"

text \<open>
  A text redirecting the user, when the hub is full and redirection is on.
\<close>

definition redirect :: "server_env \<Rightarrow> string" where
  "redirect env = (if m_bBools env SETBOOL_REDIRECT_WHEN_HUB_FULL then m_sPreTexts env SETPRETXT_REDIRECT_ADDRESS else [])"

text \<open>Refused by the profile's rights: the ban of the address, the full hub, the connections and the reconnect time.\<close>

definition entry_checks :: "server_env \<Rightarrow> addr \<Rightarrow> int \<Rightarrow> server \<Rightarrow> (server \<times> bool) res" where
  "entry_checks env a i32Profile S =
     rbind (user_of a S) (\<lambda>u.
     rbind (IsProfileAllowed i32Profile ENTERIFIPBAN (sv_profiles S)) (\<lambda>ip_ok.
       case (if ip_ok then None else m_pBan u) of
         Some b \<Rightarrow> refuse_sending env a (ub_sMessage b) S
       | None \<Rightarrow>
           rbind (mod_user a (\<lambda>u. u\<lparr>m_pBan := None\<rparr>) S) (\<lambda>S1.
           rbind (IsProfileAllowed i32Profile ENTERFULLHUB (sv_profiles S)) (\<lambda>full_ok.
           if \<not> full_ok \<and> \<not> has_bits (m_ui32BoolBits u) BIT_PINGER
             \<and> m_ui32Joins S - m_ui32Parts S > ushort env SETSHORT_MAX_USERS
           then refuse_saying env a (''$HubIsFull|'' @ as_hub env (se_lang env LAN_THIS_HUB_IS_FULL @ ''. ''
                  @ to_dec (unat (m_ui32Logged (sv_hub S))) @ '' '' @ se_lang env LAN_USERS_ONLINE_LWR @ ''.|'') @ redirect env) S1
           else
             rbind (IsProfileAllowed i32Profile NOUSRSAMEIP (sv_profiles S)) (\<lambda>same_ok.
             rbind (HM_GetUserIpCount (hub_users (sv_hub S1)) a) (\<lambda>n.
             if \<not> same_ok \<and> n \<ge> ushort env SETSHORT_MAX_CONN_SAME_IP
             then refuse_saying env a (as_hub env (se_lang env LAN_SORRY_ALREADY_MAX_IP_CONNS @ ''.|'') @ redirect env) S1
             else
               rbind (IsProfileAllowed i32Profile NORECONNTIME (sv_profiles S)) (\<lambda>rec_ok.
               if rec_ok then Inr (S1, True)
               else rbind (CheckRecTime env a S1) (\<lambda>(S2, early).
                 if early then refuse env a S2 else Inr (S2, True)))))))))"

definition set_country :: "server_env \<Rightarrow> addr \<Rightarrow> server \<Rightarrow> server res" where
  "set_country env a S =
     rbind (user_of a S) (\<lambda>u.
       mod_user a (\<lambda>u. u\<lparr>m_ui8Country := Country_Find (se_bUseIPv6 env) (sv_countries S) (m_ui128IpHash u)\<rparr>) S)"

text \<open>The nick is in use by another user: his connection is dead, or the newcomer has to prove who he is, or go.\<close>

definition nick_taken :: "server_env \<Rightarrow> addr \<Rightarrow> string \<Rightarrow> string \<Rightarrow> bool \<Rightarrow> addr \<Rightarrow> server \<Rightarrow> (server \<times> bool) res" where
  "nick_taken env a sCommand sNick reg pOther S =
     (if se_peek env pOther = PeekGone then
        rbind (set_bits pOther BIT_ERROR S) (\<lambda>S1.
        rbind (close_it env pOther S1) (\<lambda>S2. Inr (S2, False)))
      else if \<not> reg then
        rbind (Arrival env VALIDATE_DENIDE_ARRIVAL a sCommand S) (\<lambda>(S1, _).
          refuse_saying env a (''$ValidateDenide '' @ sNick @ ''|'') S1)
      else
        rbind (set_state a STATE_VERSION_OR_MYPASS S) (\<lambda>S1.
        rbind (set_bits a BIT_WAITING_FOR_PASS S1) (\<lambda>S2.
        rbind (queue_cmd a CMD_GETPASS S2) (\<lambda>S3. Inr (S3, True)))))"

text \<open>The bans of the nick: the one found when the connection came in, and those of the table.\<close>

definition nick_ban_checks :: "server_env \<Rightarrow> addr \<Rightarrow> server \<Rightarrow> (server \<times> bool) res" where
  "nick_ban_checks env a S =
     rbind (user_of a S) (\<lambda>u.
       case m_pBan u of
         Some b \<Rightarrow> if m_ui32NickHash u = ub_ui32NickHash b then refuse_sending env a (ub_sMessage b) S else Inr (S, True)
       | None \<Rightarrow> Inr (S, True))"

definition table_ban_check :: "server_env \<Rightarrow> addr \<Rightarrow> server \<Rightarrow> (server \<times> bool) res" where
  "table_ban_check env a S =
     rbind (user_of a S) (\<lambda>u.
     rbind (on_bans (FindNick_user u (sv_time S)) S) (\<lambda>(S1, r).
       case r of
         None \<Rightarrow> Inr (S1, True)
       | Some p \<Rightarrow>
           rbind (deref (bm_heap (sv_bans S1)) p) (\<lambda>b.
           rbind (GenerateBanMessage env b (sv_time S1)) (\<lambda>msg. refuse_sending env a msg S1))))"

text \<open>The registration of the nick; too early after a wrong password it refuses.\<close>

definition reg_check :: "server_env \<Rightarrow> (nat \<Rightarrow> u32) \<Rightarrow> addr \<Rightarrow> server \<Rightarrow> (server \<times> RegUser option \<times> bool) res" where
  "reg_check env too_big a S =
     rbind (user_of a S) (\<lambda>u.
     rbind (Reg_Find_user u (sv_regs S)) (\<lambda>found.
       case found of
         None \<Rightarrow> Inr (S, None, True)
       | Some p \<Rightarrow>
           rbind (deref (rg_heap (sv_regs S)) p) (\<lambda>r.
             if m_bBools env SETBOOL_ADVANCED_PASS_PROTECTION \<and> m_ui8BadPassCount r \<noteq> 0 \<and> sv_time S < wait_until too_big r
             then rbind (refuse_saying env a (as_hub env (se_lang env LAN_LAST_PASS_WAS_WRONG_YOU_NEED_WAIT @ '' ''
                    @ formatSecTime (time_texts (se_flood env)) (unat (word_of_int (wait_until too_big r - sv_time S) :: u64)) @ '' ''
                    @ se_lang env LAN_BEFORE_YOU_TRY_AGAIN @ ''!|'')) S) (\<lambda>(S1, _). Inr (S1, Some r, False))
             else Inr (S, Some r, True))))"

text \<open>One check after the other, as long as they pass.\<close>

definition and_then :: "(server \<times> bool) res \<Rightarrow> (server \<Rightarrow> (server \<times> bool) res) \<Rightarrow> (server \<times> bool) res" where
  "and_then m f = rbind m (\<lambda>(S, ok). if ok then f S else Inr (S, False))"

definition ValidateUserNick :: "server_env \<Rightarrow> (nat \<Rightarrow> u32) \<Rightarrow> string \<Rightarrow> addr \<Rightarrow> string \<Rightarrow> bool \<Rightarrow> server \<Rightarrow> (server \<times> bool) res" where
  "ValidateUserNick env too_big sCommand a sNick ValidateNick S =
     (case bad_char sNick of
        Some c \<Rightarrow>
          if c \<in> {CHR '' '', CHR ''$'', CHR ''|''}
          then refuse_saying env a (as_hub env (se_lang env LAN_YOUR_NICK_CONTAINS_ILLEGAL_CHARACTER @ '' '' @ [CHR 0x27, c, CHR 0x27]
                 @ '' ! '' @ se_lang env LAN_PLS_CORRECT_IT_AND_GET_BACK_AGAIN @ ''.|'')) S
          else refuse_saying env a (as_hub env (se_lang env LAN_YOUR_NICK_CONTAINS_ILLEGAL_WHITE_CHARACTER @ ''! ''
                 @ se_lang env LAN_PLS_CORRECT_IT_AND_GET_BACK_AGAIN @ ''.|'')) S
      | None \<Rightarrow>
          rbind (mod_user a (SetNick sNick) S) (\<lambda>S0.
          if CheckReserved (sv_reserved S0) sNick (HashNick sNick)
          then refuse_saying env a (as_hub env (se_lang env LAN_THE_NICK_IS_RESERVED_FOR_SOMEONE_OTHER @ ''. ''
                 @ se_lang env LAN_CHANGE_YOUR_NICK_AND_GET_BACK_AGAIN @ ''.|'') @ ''$ValidateDenide '' @ sNick @ ''|'') S0
          else
            and_then (nick_ban_checks env a S0) (\<lambda>S1.
            and_then (table_ban_check env a S1) (\<lambda>S2.
            rbind (reg_check env too_big a S2) (\<lambda>(S3, reg, ok).
              if \<not> ok then Inr (S3, False)
              else
                and_then (entry_checks env a (case reg of None \<Rightarrow> -1 | Some r \<Rightarrow> int (unat (m_ui16Profile r))) S3) (\<lambda>S4.
                rbind (set_country env a S4) (\<lambda>S5.
                rbind (HM_FindUser (hub_users (sv_hub S5)) a) (\<lambda>other.
                  case other of
                    None \<Rightarrow> ValidateUserNickFinally env (reg = None) a (length sNick) ValidateNick S5
                  | Some pOther \<Rightarrow>
                      rbind (past_login pOther S5) (\<lambda>gone.
                        if gone then ValidateUserNickFinally env (reg = None) a (length sNick) ValidateNick S5
                        else nick_taken env a sCommand sNick (reg \<noteq> None) pOther S5)))))))))"

definition ValidateNick :: "server_env \<Rightarrow> (nat \<Rightarrow> u32) \<Rightarrow> addr \<Rightarrow> string \<Rightarrow> server \<Rightarrow> server res" where
  "ValidateNick env too_big a c S =
     rbind (user_of a S) (\<lambda>u.
       if has_bits (m_ui32SupportBits u) SUPPORTBIT_QUICKLIST \<or> length c < 16 then close_it env a S
       else rbind (ValidateUserNick env too_big (butlast c) a (drop 14 (butlast c)) True S) (\<lambda>(S1, ok).
         if ok then rbind (Arrival env VALIDATENICK_ARRIVAL a c S1) (\<lambda>(S2, _). Inr S2) else Inr S1))"

end
