(* ===== verification/LoginCommands.thy ===== *)
theory LoginCommands
  imports Login
begin

text \<open>
  The remaining commands of the login (\<open>core/DcCommands.cpp\<close>) and the dispatch of a received command by the state of
  the connection (\<open>PreProcessData\<close>).
\<close>

section \<open>Supports, key and version\<close>

text \<open>The items of \<open>$Supports\<close>: a space ends one, and so does the end of the command unless nothing is left before it.\<close>

definition support_items :: "string \<Rightarrow> string list" where
  "support_items c = (let ps = split_on (CHR '' '') (drop 10 (butlast c)) in if last ps = [] then butlast ps else ps)"

definition support_bits :: "string \<Rightarrow> u32 \<Rightarrow> u32" where
  "support_bits s w =
     (if s = ''NoHello'' then w OR SUPPORTBIT_NOHELLO
      else if s = ''NoGetINFO'' then w OR SUPPORTBIT_NOGETINFO
      else if s = ''QuickList'' then (if has_bits w SUPPORTBIT_QUICKLIST then w else w OR SUPPORTBIT_QUICKLIST OR SUPPORTBIT_NOHELLO)
      else if s = ''HubURL'' then w OR SUPPORTBIT_HUBURL
      else if s = ''UserCommand'' then w OR SUPPORTBIT_USERCOMMAND
      else if s = ''UserIP2'' then w OR SUPPORTBIT_USERIP2
      else if s = ''ZPipe0'' then (if has_bits w SUPPORTBIT_ZPIPE then w else w OR SUPPORTBIT_ZPIPE0 OR SUPPORTBIT_ZPIPE)
      else if s = ''ZPipe'' then w OR SUPPORTBIT_ZPIPE
      else if s = ''IP64'' then w OR SUPPORTBIT_IP64
      else if s = ''IPv4'' then w OR SUPPORTBIT_IPV4
      else if s = ''TLS2'' then w OR SUPPORTBIT_TLS2
      else w)"

definition pinger_welcome :: "server_env \<Rightarrow> server \<Rightarrow> string" where
  "pinger_welcome env S =
     (let (d, h, m) = se_uptime env in
      m_sPreTexts env SETPRETXT_HUB_NAME_WLCM @ to_dec (unat d) @ '' '' @ se_lang env LAN_DAYS_LWR @ '', '' @ to_dec (unat h) @ '' ''
      @ se_lang env LAN_HOURS_LWR @ '', '' @ to_dec (unat m) @ '' '' @ se_lang env LAN_MINUTES_LWR @ '' / '' @ se_lang env LAN_USERS
      @ '': '' @ to_dec (unat (m_ui32Logged (sv_hub S))) @ '')|'')"

text \<open>One item; the flag tells whether the loop goes on.\<close>

definition support_item :: "server_env \<Rightarrow> addr \<Rightarrow> string \<Rightarrow> server \<Rightarrow> (server \<times> bool) res" where
  "support_item env a s S =
     rbind (user_of a S) (\<lambda>u.
       if s = [] then refuse env a S
       else if s = ''BotINFO'' then
         (if has_bits (m_ui32BoolBits u) BIT_PINGER then Inr (S, True)
          else if m_bBools env SETBOOL_DONT_ALLOW_PINGERS
          then refuse_saying env a (as_hub env (se_lang env LAN_SORRY_THIS_HUB_NOT_ALLOW_PINGERS @ ''.|'')) S
          else rbind (set_bits a BIT_PINGER S) (\<lambda>S1.
               rbind (say env True a (pinger_welcome env S1) S1) (\<lambda>S2. Inr (S2, True))))
       else
         rbind (mod_user a (\<lambda>u. u\<lparr>m_ui32SupportBits := support_bits s (m_ui32SupportBits u)\<rparr>) S) (\<lambda>S1.
           Inr (if (s = ''ZPipe0'' \<or> s = ''ZPipe'') \<and> \<not> has_bits (m_ui32SupportBits u) SUPPORTBIT_ZPIPE
                then count_stat StatZPipe S1 else S1, True)))"

fun supports_loop :: "server_env \<Rightarrow> addr \<Rightarrow> string list \<Rightarrow> server \<Rightarrow> (server \<times> bool) res" where
  "supports_loop env a [] S = Inr (S, True)"
| "supports_loop env a (s # ss) S = and_then (support_item env a s S) (supports_loop env a ss)"

definition flood_close :: "server_env \<Rightarrow> addr \<Rightarrow> server \<Rightarrow> server res" where
  "flood_close env a S = close_it env a (count_stat StatFlood S)"

definition Supports :: "server_env \<Rightarrow> addr \<Rightarrow> string \<Rightarrow> server \<Rightarrow> server res" where
  "Supports env a c S =
     rbind (user_of a S) (\<lambda>u.
       if has_bits (m_ui32BoolBits u) BIT_HAVE_SUPPORTS then flood_close env a S
       else
         rbind (set_bits a BIT_HAVE_SUPPORTS S) (\<lambda>S1.
         let quack = (c ! (length c - 2) = CHR '' '') in
         if length c < 13 then close_it env a S1
         else if quack \<and> m_bBools env SETBOOL_NO_QUACK_SUPPORTS
         then rbind (say env False a (as_hub env (se_lang env LAN_QUACK_SUPPORTS @ ''.|'')) S1) (close_it env a)
         else
           rbind (if quack then set_bits a BIT_QUACK_SUPPORTS S1 else Inr S1) (\<lambda>S2.
           rbind (Arrival env SUPPORTS_ARRIVAL a c S2) (\<lambda>(S3, _).
           rbind (past_login a S3) (\<lambda>gone.
             if gone then Inr S3
             else
               rbind (supports_loop env a (support_items c) S3) (\<lambda>(S4, ok).
                 if \<not> ok then Inr S4
                 else rbind (set_state a STATE_VALIDATE S4) (queue_cmd a CMD_SUPPORTS)))))))"

text \<open>The key is computed from 46 characters of the lock behind the first six.\<close>

definition Key :: "server_env \<Rightarrow> addr \<Rightarrow> string \<Rightarrow> server \<Rightarrow> server res" where
  "Key env a c S =
     rbind (user_of a S) (\<lambda>u.
       if has_bits (m_ui32BoolBits u) BIT_HAVE_KEY then flood_close env a S
       else
         rbind (set_bits a BIT_HAVE_KEY S) (\<lambda>S1.
         if length c < 6 then close_it env a S1
         else if length (m_LogBuffer u) < 52 then Inl BufferOverflow
         else if \<not> VerifyLockKey (m_LogBuffer u) (Some (drop 5 (butlast c))) then close_it env a S1
         else
           rbind (mod_user a FreeBuffer S1) (\<lambda>S2.
           rbind (Arrival env KEY_ARRIVAL a c S2) (\<lambda>(S3, _).
           rbind (past_login a S3) (\<lambda>gone.
             if gone then Inr S3 else set_state a STATE_VALIDATE S3)))))"

definition Version :: "server_env \<Rightarrow> addr \<Rightarrow> string \<Rightarrow> server \<Rightarrow> server res" where
  "Version env a c S =
     (if length c < 11 then close_it env a S
      else
        rbind (set_state a STATE_GETNICKLIST_OR_MYINFO S) (\<lambda>S1.
        rbind (Arrival env VERSION_ARRIVAL a c S1) (\<lambda>(S2, _). Inr S2)))"

section \<open>The announcement\<close>

definition MyINFODeflood :: "server_env \<Rightarrow> addr \<Rightarrow> string \<Rightarrow> server \<Rightarrow> (server \<times> bool) res" where
  "MyINFODeflood env a c S =
     rbind (user_of a S) (\<lambda>u.
       if length c < 22 + length (m_sNick u) then refuse env a S
       else
         rbind (allowed a NODEFLOODMYINFO S) (\<lambda>ok.
         rbind (flood_check_if (\<not> ok) env MYINFO MyINFOs SETSHORT_MYINFO_ACTION SETSHORT_MYINFO_MESSAGES
                  (ushort env SETSHORT_MYINFO_TIME) a S) (\<lambda>(S1, bad).
           if bad then Inr (S1, False)
           else
             rbind (flood_check_if (\<not> ok) env MYINFO MyINFOs2 SETSHORT_MYINFO_ACTION2 SETSHORT_MYINFO_MESSAGES2
                      (ushort env SETSHORT_MYINFO_TIME2) a S1) (\<lambda>(S2, bad2).
               if bad2 then Inr (S2, False)
               else if length c > unat (ushort env SETSHORT_MAX_MYINFO_LEN)
               then rbind (say env True a (as_hub env (se_lang env LAN_MYINFO_TOO_LONG @ ''!|'')) S2) (refuse env a)
               else Inr (S2, True)))))"

definition same_info :: "string \<Rightarrow> User \<Rightarrow> bool" where
  "same_info c u \<longleftrightarrow>
     (case m_sMyInfoOriginal (m_Info u) of
        None \<Rightarrow> False
      | Some s \<Rightarrow> length c = unat (m_ui16MyInfoOriginalLen (m_Info u))
          \<and> drop (14 + length (m_sNick u)) s = drop (14 + length (m_sNick u)) c)"

definition MyINFO :: "server_env \<Rightarrow> addr \<Rightarrow> string \<Rightarrow> server \<Rightarrow> (server \<times> bool) res" where
  "MyINFO env a c S =
     rbind (user_of a S) (\<lambda>u.
       if same_info c u then Inr (S, False)
       else if length c > 65535
       then refuse_saying env a (as_hub env (se_lang env LAN_YOU_MyINFO_IS_CORRUPTED @ ''!|'')) S
       else
         rbind (SetMyInfoOriginal env a c (of_nat (length c)) S) (\<lambda>S1.
         rbind (past_login a S1) (\<lambda>gone.
           if gone then Inr (S1, False)
           else
             rbind (ProcessRules env a S1) (\<lambda>(S2, ok).
               if \<not> ok then refuse env a S2
               else
                 rbind (Arrival env MYINFO_ARRIVAL a c S2) (\<lambda>(S3, _).
                 rbind (past_login a S3) (\<lambda>gone3. Inr (S3, \<not> gone3)))))))"

text \<open>The announcement of a user who is not yet on line, and what follows when it is accepted.\<close>

definition first_myinfo :: "server_env \<Rightarrow> addr \<Rightarrow> string \<Rightarrow> server \<Rightarrow> server res" where
  "first_myinfo env a c S =
     rbind (MyINFO env a c S) (\<lambda>(S1, ok).
     rbind (user_of a S1) (\<lambda>u.
       if \<not> ok \<or> has_bits (m_ui32BoolBits u) BIT_WAITING_FOR_PASS \<or> has_bits (m_ui32BoolBits u) BIT_PINGER then Inr S1
       else add_me env a S1))"

definition spoofed :: "User \<Rightarrow> string \<Rightarrow> bool" where
  "spoofed u c \<longleftrightarrow> cget c (13 + length (m_sNick u)) \<noteq> CHR '' '' \<or> take (length (m_sNick u)) (drop 13 c) \<noteq> m_sNick u"

definition named_myinfo :: "server_env \<Rightarrow> addr \<Rightarrow> string \<Rightarrow> server \<Rightarrow> server res" where
  "named_myinfo env a c S =
     rbind (MyINFODeflood env a c (count_stat StatCmdMyInfo S)) (\<lambda>(S1, ok).
       if \<not> ok then Inr S1
       else
         rbind (user_of a S1) (\<lambda>u.
           if spoofed u c then close_it env a (count_stat StatNickSpoofing S1) else first_myinfo env a c S1))"

text \<open>With the quick list the announcement brings the nick.\<close>

definition bad_state :: "server_env \<Rightarrow> addr \<Rightarrow> server \<Rightarrow> server res" where
  "bad_state env a S = close_it env a (count_stat StatBadState S)"

definition quick_myinfo :: "server_env \<Rightarrow> (nat \<Rightarrow> u32) \<Rightarrow> addr \<Rightarrow> string \<Rightarrow> server \<Rightarrow> server res" where
  "quick_myinfo env too_big a c S =
     rbind (user_of a S) (\<lambda>u.
       if \<not> has_bits (m_ui32SupportBits u) SUPPORTBIT_QUICKLIST then bad_state env a (count_stat StatCmdMyInfo S)
       else
         rbind (MyINFODeflood env a c (count_stat StatCmdMyInfo S)) (\<lambda>(S1, ok).
           if \<not> ok then Inr S1
           else
             let nick = takeWhile (\<lambda>x. x \<noteq> CHR '' '') (drop 13 c) in
             if length nick = length (drop 13 c) then close_it env a S1
             else
               rbind (ValidateUserNick env too_big (c[13 + length nick := CHR 0x00]) a nick False S1) (\<lambda>(S2, valid).
                 if valid then first_myinfo env a c S2 else Inr S2)))"

section \<open>The password\<close>

definition password_ok :: "pass_hash \<Rightarrow> RegUser \<Rightarrow> string \<Rightarrow> bool res" where
  "password_ok hash r sPass =
     (if m_bPassHash r then
        (case hash (bytes_of sPass) of
           None \<Rightarrow> Inr False
         | Some h \<Rightarrow> if length (m_vPassData r) < 64 then Inl BufferOverflow else Inr (take 64 (m_vPassData r) = h))
      else if 0 \<notin> set (m_vPassData r) then Inl BufferOverflow
      else Inr (takeWhile (\<lambda>b. b \<noteq> 0) (m_vPassData r) = bytes_of sPass))"

text \<open>The third wrong password from an address bans it.\<close>

definition brute_force_ban :: "server_env \<Rightarrow> addr \<Rightarrow> server \<Rightarrow> server res" where
  "brute_force_ban env a S =
     rbind (user_of a S) (\<lambda>u.
     rbind (on_bans (FindFull (m_ui128IpHash u) (sv_time S)) S) (\<lambda>(S1, found).
     rbind (case found of None \<Rightarrow> Inr False | Some p \<Rightarrow> rbind (deref (bm_heap (sv_bans S1)) p) (\<lambda>b. Inr (is_set b FULL))) (\<lambda>full.
     rbind (if full then say env False a (as_hub env (se_lang env LAN_YOUR_IS_BANNED @ ''!|'')) S1
            else
              let reason = take (global_buffer_size (fe_hub (se_flood env)) - 1) (''3x bad password for nick '' @ m_sNick u) in
              rbind (on_bans (if m_i16Shorts env SETSHORT_BRUTE_FORCE_PASS_PROTECT_BAN_TYPE = 1
                then BanIp (se_resolver env) (Some u) None (Some reason) None True (sv_time S1)
                else TempBanIp (se_resolver env) (Some u) None (Some reason) None
                       (word_of_int (short env SETSHORT_BRUTE_FORCE_PASS_PROTECT_TEMP_BAN_TIME * 60)) 0 True
                       (DEFAULT_TEMP_BAN_TIME (se_flood env)) (sv_time S1)) S1) (\<lambda>(S2, _).
              say env False a (as_hub env (se_lang env LAN_YOUR_IP_BANNED_BRUTE_FORCE_ATTACK @ ''.|''))
                (S2\<lparr>m_PasswdBfCheck := PassBf_Remove (m_ui128IpHash u) (m_PasswdBfCheck S2)\<rparr>))) (\<lambda>S3.
       close_it env a
         (if m_bBools env SETBOOL_REPORT_3X_BAD_PASS
          then status env (se_lang env LAN_IP @ '' '' @ m_sIP u @ '' '' @ se_lang env LAN_BANNED_BECAUSE_3X_BAD_PASS_FOR_NICK @ '' ''
                 @ m_sNick u @ ''|'') S3
          else S3)))))"

definition wrong_password :: "server_env \<Rightarrow> addr \<Rightarrow> addr \<Rightarrow> server \<Rightarrow> server res" where
  "wrong_password env a pReg S =
     rbind (user_of a S) (\<lambda>u.
     rbind (if m_bBools env SETBOOL_ADVANCED_PASS_PROTECTION
            then set_reg pReg (\<lambda>r. r\<lparr>m_tLastBadPass := sv_time S,
                   m_ui8BadPassCount := (if m_ui8BadPassCount r < 255 then m_ui8BadPassCount r + 1 else m_ui8BadPassCount r)\<rparr>) S
            else Inr S) (\<lambda>S1.
     let on = (m_i16Shorts env SETSHORT_BRUTE_FORCE_PASS_PROTECT_BAN_TYPE \<noteq> 0);
         item = PassBf_Find (m_ui128IpHash u) (m_PasswdBfCheck S1) in
     if on \<and> (case item of None \<Rightarrow> False | Some p \<Rightarrow> m_iCount p = 2) then brute_force_ban env a S1
     else
       let S2 = (if \<not> on then S1
                 else case item of
                   None \<Rightarrow> S1\<lparr>m_PasswdBfCheck := \<lparr>m_iCount = 1, pb_ui128IpHash = m_ui128IpHash u\<rparr> # m_PasswdBfCheck S1\<rparr>
                 | Some _ \<Rightarrow> S1\<lparr>m_PasswdBfCheck := PassBf_count (m_ui128IpHash u) (m_PasswdBfCheck S1)\<rparr>)
       in rbind (say env False a (''$BadPass|'' @ as_hub env (se_lang env LAN_INCORRECT_PASSWORD @ ''!|'')) S2) (\<lambda>S3.
            close_it env a (count_stat StatBruteforce S3))))"

text \<open>The right password: the rights, then the place of the user's own ghost.\<close>

definition kill_ghost :: "server_env \<Rightarrow> addr \<Rightarrow> server \<Rightarrow> server res" where
  "kill_ghost env a S =
     rbind (user_of a S) (\<lambda>u.
       if has_bits (m_ui32BoolBits u) BIT_HASHED then Inr S
       else
         rbind (case HM_FindUser_nick (hub_users (sv_hub S)) (m_sNick u) of
                  None \<Rightarrow> Inr S
                | Some o' \<Rightarrow> close_with env (has_bits (m_ui32SupportBits u) SUPPORTBIT_QUICKLIST) o' S) (\<lambda>S1.
         rbind (hm_add a S1) (set_bits a BIT_HASHED)))"

definition right_password :: "server_env \<Rightarrow> addr \<Rightarrow> string \<Rightarrow> addr \<Rightarrow> server \<Rightarrow> server res" where
  "right_password env a c pReg S =
     rbind (deref (rg_heap (sv_regs S)) pReg) (\<lambda>r.
     rbind (mod_user a (\<lambda>u. u\<lparr>m_i32Profile := int (unat (m_ui16Profile r))\<rparr>) S) (\<lambda>S1.
     rbind (set_reg pReg (\<lambda>r. r\<lparr>m_ui8BadPassCount := 0\<rparr>) S1) (\<lambda>S2.
     rbind (user_of a S2) (\<lambda>u.
     let S3 = S2\<lparr>m_PasswdBfCheck := PassBf_Remove (m_ui128IpHash u) (m_PasswdBfCheck S2)\<rparr> in
     rbind (Arrival env PASSWORD_ARRIVAL a c S3) (\<lambda>(S4, _).
     rbind (past_login a S4) (\<lambda>gone.
     if gone then Inr S4
     else
       rbind (allowed a HASKEYICON S4) (\<lambda>key.
       rbind (if key then set_bits a BIT_OPERATOR S4 else clear_bits a BIT_OPERATOR S4) (\<lambda>S5.
       rbind (kill_ghost env a S5) (\<lambda>S6.
       rbind (user_of a S6) (\<lambda>u6.
         if \<not> has_bits (m_ui32SupportBits u6) SUPPORTBIT_QUICKLIST then
           say env True a (''$Hello '' @ m_sNick u6 @ ''|''
             @ (if has_bits (m_ui32BoolBits u6) BIT_OPERATOR then ''$LogedIn '' @ m_sNick u6 @ ''|'' else [])) S6
         else if \<not> has_bits (m_ui32BoolBits u6) BIT_PINGER then add_me env a S6
         else Inr S6))))))))))"

definition MyPass :: "server_env \<Rightarrow> addr \<Rightarrow> string \<Rightarrow> server \<Rightarrow> server res" where
  "MyPass env a c S =
     rbind (user_of a S) (\<lambda>u.
     rbind (Reg_Find_user u (sv_regs S)) (\<lambda>found.
       case (if has_bits (m_ui32BoolBits u) BIT_WAITING_FOR_PASS then found else None) of
         None \<Rightarrow> close_it env a S
       | Some pReg \<Rightarrow>
           rbind (clear_bits a BIT_WAITING_FOR_PASS S) (\<lambda>S1.
           if length c < 10 \<or> length c > 73 then close_it env a S1
           else
             rbind (deref (rg_heap (sv_regs S1)) pReg) (\<lambda>r.
             rbind (password_ok (se_HashPassword env) r (drop 8 (butlast c))) (\<lambda>good.
               if good then right_password env a c pReg S1 else wrong_password env a pReg S1)))))"

end
