(* ===== verification/LoginDispatch.thy ===== *)
theory LoginDispatch
  imports LoginCommands
begin

text \<open>
  The list of nicks, the pingers, unknown commands, and the dispatch of a received command by the state of the
  connection (\<open>GetNickList\<close>, \<open>BotINFO\<close>, \<open>MyNick\<close>, \<open>Unknown\<close>, \<open>TryBadStateClose\<close> and \<open>PreProcessData\<close> in
  \<open>core/DcCommands.cpp\<close>).
\<close>

section \<open>Pingers and the list of nicks\<close>

definition BotINFO :: "server_env \<Rightarrow> addr \<Rightarrow> string \<Rightarrow> server \<Rightarrow> server res" where
  "BotINFO env a c S =
     rbind (user_of a S) (\<lambda>u.
       if \<not> has_bits (m_ui32BoolBits u) BIT_PINGER \<or> has_bits (m_ui32BoolBits u) BIT_HAVE_BOTINFO then flood_close env a S
       else if length c < 9 then close_it env a S
       else
         rbind (set_bits a BIT_HAVE_BOTINFO S) (\<lambda>S1.
         rbind (Arrival env BOTINFO_ARRIVAL a c S1) (\<lambda>(S2, handled).
         rbind (past_login a S2) (\<lambda>gone.
           if handled \<or> gone then Inr S2
           else
             rbind (say env True a (''$HubINFO '' @ se_sTexts env SETTXT_HUB_NAME @ ''$'' @ se_sTexts env SETTXT_HUB_ADDRESS @ '':''
               @ to_dec (unat (tcp_port (fe_hub (se_flood env)))) @ ''$'' @ se_sTexts env SETTXT_HUB_DESCRIPTION @ ''.px.$''
               @ show_int (short env SETSHORT_MAX_USERS) @ ''$'' @ to_dec (unat (m_ui64MinShare env)) @ ''$''
               @ show_int (short env SETSHORT_MIN_SLOTS_LIMIT) @ ''$'' @ show_int (short env SETSHORT_MAX_HUBS_LIMIT)
               @ ''$PtokaX$'' @ se_sTexts env SETTXT_HUB_OWNER_EMAIL @ ''|'') S2) (\<lambda>S3.
             rbind (user_of a S3) (\<lambda>u3.
               if has_bits (m_ui32BoolBits u3) BIT_HAVE_GETNICKLIST then close_it env a S3 else Inr S3))))))"

text \<open>
  A whole list, compressed when the user can read it; the compressed form is kept beside the list as long as it
  does not change, so it is the one computed now.
\<close>

definition send_list :: "server_env \<Rightarrow> addr \<Rightarrow> string \<Rightarrow> server \<Rightarrow> server res" where
  "send_list env a t S =
     rbind (user_of a S) (\<lambda>u.
       case (if m_ui32SupportBits u AND SUPPORTBIT_ZPIPE = 0 then None else fe_zpipe (se_flood env) t) of
         None \<Rightarrow> send_later env a t S
       | Some z \<Rightarrow>
           in_hub (\<lambda>H. rbind (PutInSendBuf (fe_hub (se_flood env)) a z H) (\<lambda>(H1, _).
             Inr (H1\<lparr>m_ui64BytesSentSaved := m_ui64BytesSentSaved H1 + word_of_nat (length t) - word_of_nat (length z)\<rparr>))) S)"

definition send_list_if :: "bool \<Rightarrow> server_env \<Rightarrow> addr \<Rightarrow> string \<Rightarrow> server \<Rightarrow> server res" where
  "send_list_if b env a t S = (if b then send_list env a t S else Inr S)"

definition flush :: "server_env \<Rightarrow> addr \<Rightarrow> server \<Rightarrow> server res" where
  "flush env a S =
     rbind (user_of a S) (\<lambda>u.
       if sb_data (m_SendBuf u) = [] then Inr S
       else in_hub (\<lambda>H. rbind (Try2Send (fe_hub (se_flood env)) (fe_sock (se_flood env)) a H) (\<lambda>(H1, _). Inr H1)) S)"

definition pinger_nicklist :: "server_env \<Rightarrow> addr \<Rightarrow> server \<Rightarrow> server res" where
  "pinger_nicklist env a S =
     rbind (set_bits a BIT_BIG_SEND_BUFFER S) (\<lambda>S1.
     rbind (user_of a S1) (\<lambda>u.
     let L = se_lists env S1; opt = full_myinfo_option (fe_hub (se_flood env)) in
     rbind (send_list_if (\<not> has_bits (m_ui32SupportBits u) SUPPORTBIT_NOHELLO \<and> length (m_NickList L) > 11) env a (m_NickList L) S1) (\<lambda>S2.
     rbind (if opt = 2 then send_list_if (m_MyInfos L \<noteq> []) env a (m_MyInfos L) S2
            else send_list_if (m_MyInfosTag L \<noteq> []) env a (m_MyInfosTag L) S2) (\<lambda>S3.
     rbind (send_list_if (length (m_OpList L) > 9) env a (m_OpList L) S3) (\<lambda>S4.
     rbind (flush env a S4) (\<lambda>S5.
     rbind (set_bits a BIT_HAVE_GETNICKLIST S5) (\<lambda>S6.
     rbind (user_of a S6) (\<lambda>u6.
     let S7 = (if m_bBools env SETBOOL_REPORT_PINGERS
               then status env (se_lang env LAN_PINGER_FROM_IP @ '': '' @ m_sIP u6 @ '' '' @ se_lang env LAN_WITH_NICK @ '': '' @ m_sNick u6
                      @ '' '' @ se_lang env LAN_DETECTED_LWR @ ''.|'') S6
               else S6)
     in if has_bits (m_ui32BoolBits u6) BIT_HAVE_BOTINFO then close_it env a S7 else Inr S7))))))))"

definition GetNickList :: "server_env \<Rightarrow> addr \<Rightarrow> string \<Rightarrow> server \<Rightarrow> (server \<times> bool) res" where
  "GetNickList env a c S =
     rbind (user_of a S) (\<lambda>u.
       let quick = has_bits (m_ui32SupportBits u) SUPPORTBIT_QUICKLIST; had = has_bits (m_ui32BoolBits u) BIT_HAVE_GETNICKLIST in
       if quick \<and> had then refuse env a S
       else if has_bits (m_ui32BoolBits u) BIT_PINGER then
         rbind (if \<not> had then pinger_nicklist env a S else flood_close env a S) (\<lambda>S1. Inr (S1, False))
       else
         rbind (set_bits a BIT_HAVE_GETNICKLIST S) (\<lambda>S1.
         rbind (allowed a NODEFLOODGETNICKLIST S1) (\<lambda>ok.
         rbind (flood_check_if (\<not> ok) env GETNICKLIST GetNickLists SETSHORT_GETNICKLIST_ACTION SETSHORT_GETNICKLIST_MESSAGES
                  (ushort env SETSHORT_GETNICKLIST_TIME * 60) a S1) (\<lambda>(S2, bad).
           if bad then Inr (S2, False)
           else
             rbind (Arrival env GETNICKLIST_ARRIVAL a c S2) (\<lambda>(S3, handled).
             rbind (user_of a S3) (\<lambda>u3.
               Inr (S3, \<not> (handled \<or> isPastLogin (m_ui8State u3) \<or> has_bits (m_ui32SupportBits u3) SUPPORTBIT_QUICKLIST))))))))"

text \<open>A request for the list that the hub answers later, unless the user's client asks with the quick list.\<close>

definition ask_nicklist :: "server_env \<Rightarrow> (User \<Rightarrow> bool) \<Rightarrow> addr \<Rightarrow> string \<Rightarrow> server \<Rightarrow> server res" where
  "ask_nicklist env mark a c S =
     rbind (GetNickList env a c (count_stat StatCmdGetNickList S)) (\<lambda>(S1, ok).
     rbind (user_of a S1) (\<lambda>u.
       if ok \<and> mark u then set_bits a BIT_GETNICKLIST S1 else Inr S1))"

section \<open>Unknown commands\<close>

definition Unknown :: "server_env \<Rightarrow> bool \<Rightarrow> addr \<Rightarrow> string \<Rightarrow> server \<Rightarrow> server res" where
  "Unknown env bMyNick a c S =
     rbind (Arrival env UNKNOWN_ARRIVAL a c (count_stat StatCmdUnknown S)) (\<lambda>(S1, handled).
       if handled then Inr S1
       else
         rbind (if bMyNick then send_later env a ''$Error CTM2HUB|'' (count_stat StatUnknownCmd S1)
                else Inr (count_stat StatUnknownCmd S1)) (close_it env a))"

text \<open>A connection made over IPv4 tells the address of a user who came over IPv6 and waits for it.\<close>

definition MyNick :: "server_env \<Rightarrow> addr \<Rightarrow> string \<Rightarrow> server \<Rightarrow> server res" where
  "MyNick env a c S =
     rbind (user_of a S) (\<lambda>u.
       if has_bits (m_ui32BoolBits u) BIT_IPV6 \<or> length c < 10 then Unknown env True a c S
       else
         (case HM_FindUser_nick (hub_users (sv_hub S)) (drop 8 (butlast c)) of
            None \<Rightarrow> Unknown env True a (butlast c @ [CHR 0x00]) S
          | Some o' \<Rightarrow>
              rbind (user_of o' S) (\<lambda>w.
                if m_ui8State w \<noteq> STATE_IPV4_CHECK then Unknown env True a (butlast c @ [CHR 0x00]) S
                else
                  rbind (mod_user o' (\<lambda>w. w\<lparr>m_sIPv4 := m_sIP u, m_ui32BoolBits := m_ui32BoolBits w OR BIT_IPV4,
                           m_ui8State := STATE_ADDME\<rparr>) S) (close_it env a))))"

text \<open>The commands that are known but not allowed in the user's state, with their counters.\<close>

definition g_BadStateCmds :: "(string \<times> nat \<times> DcStat) list" where
  "g_BadStateCmds = [(''onnectToMe '', 0, StatCmdConnectToMe), (''lose '', 0, StatCmdClose), (''etINFO '', 0, StatCmdGetInfo),
     (''etNickList'', 13, StatCmdGetNickList), (''ey '', 0, StatCmdKey), (''ick '', 0, StatCmdKick),
     (''ultiConnectToMe '', 0, StatCmdMultiConnectToMe), (''ultiSearch '', 0, StatCmdMultiSearch), (''yINFO $ALL '', 0, StatCmdMyInfo),
     (''yPass '', 0, StatCmdMyPass), (''pForceMove $Who:'', 0, StatCmdOpForceMove), (''evConnectToMe '', 0, StatCmdRevCTM),
     (''o: '', 0, StatCmdTo), (''alidateNick '', 0, StatCmdValidate), (''ersion '', 0, StatCmdVersion)]"

definition g_BadStateCmdsS :: "(string \<times> nat \<times> DcStat) list" where
  "g_BadStateCmdsS = [(''earch '', 0, StatCmdSearch), (''R '', 0, StatCmdSR), (''upports '', 0, StatCmdSupports)]"

fun TryBadStateClose :: "string \<Rightarrow> (string \<times> nat \<times> DcStat) list \<Rightarrow> nat \<Rightarrow> DcStat option" where
  "TryBadStateClose c [] off = None"
| "TryBadStateClose c ((suffix, exactCmdLen, st) # es) off =
     (if MatchBytes (drop off c) suffix \<and> (exactCmdLen = 0 \<or> length c = exactCmdLen) then Some st
      else TryBadStateClose c es off)"

definition bad_state_stat :: "string \<Rightarrow> DcStat option" where
  "bad_state_stat c =
     (let t = (\<lambda>i n. TryBadStateClose c (take n (drop i g_BadStateCmds)) 2); x = c ! 1 in
      if x = CHR ''C'' then t 0 2 else if x = CHR ''G'' then t 2 2 else if x = CHR ''K'' then t 4 2 else if x = CHR ''M'' then t 6 4
      else if x = CHR ''O'' then t 10 1 else if x = CHR ''R'' then t 11 1
      else if x = CHR ''S'' then TryBadStateClose c g_BadStateCmdsS 3
      else if x = CHR ''T'' then t 12 1 else if x = CHR ''V'' then t 13 2 else None)"

text \<open>What is left when the state does not handle the command.\<close>

definition fallback :: "server_env \<Rightarrow> addr \<Rightarrow> string \<Rightarrow> server \<Rightarrow> server res" where
  "fallback env a c S =
     (if c ! 0 = CHR ''$'' then
        (if MatchBytes c ''$BotINFO'' then BotINFO env a c (count_stat StatBotINFO S)
         else if MatchBytes c ''$ExtJSON '' then Inr (count_stat StatCmdExtJSON S)
         else (case bad_state_stat c of Some st \<Rightarrow> bad_state env a (count_stat st S) | None \<Rightarrow> Unknown env False a c S))
      else if c ! 0 = CHR ''<'' then bad_state env a (count_stat StatChat S)
      else Unknown env False a c S)"

section \<open>The dispatch\<close>

definition in_accepted :: "server_env \<Rightarrow> addr \<Rightarrow> string \<Rightarrow> server \<Rightarrow> server res" where
  "in_accepted env a c S = (if MatchBytes c ''$MyNick '' then MyNick env a c S else fallback env a c S)"

definition in_key_or_sup :: "server_env \<Rightarrow> addr \<Rightarrow> string \<Rightarrow> server \<Rightarrow> server res" where
  "in_key_or_sup env a c S =
     (if MatchBytes c ''$Supports '' then Supports env a c (count_stat StatCmdSupports S)
      else if MatchBytes c ''$Key '' then Key env a c (count_stat StatCmdKey S)
      else if MatchBytes c ''$MyNick '' then MyNick env a c S
      else fallback env a c S)"

definition is_nicklist :: "string \<Rightarrow> bool" where
  "is_nicklist c \<longleftrightarrow> length c = 13 \<and> MatchBytes c ''$GetNickList''"

text \<open>The counter of \<open>$ExtJSON\<close> is moved by the state and by the fallback.\<close>

definition count_json :: "string \<Rightarrow> server \<Rightarrow> server" where
  "count_json c S = (if MatchBytes c ''$ExtJSON '' then count_stat StatCmdExtJSON S else S)"

definition in_validate :: "server_env \<Rightarrow> (nat \<Rightarrow> u32) \<Rightarrow> addr \<Rightarrow> string \<Rightarrow> server \<Rightarrow> server res" where
  "in_validate env too_big a c S =
     rbind (user_of a S) (\<lambda>u.
       if MatchBytes c ''$Key '' then
         (if \<not> has_bits (m_ui32BoolBits u) BIT_HAVE_SUPPORTS then Key env a c (count_stat StatCmdKey S)
          else mod_user a FreeBuffer (count_stat StatCmdKey S))
       else if MatchBytes c ''$ValidateNick '' then ValidateNick env too_big a c (count_stat StatCmdValidate S)
       else if MatchBytes c ''$MyINFO $ALL '' then quick_myinfo env too_big a c S
       else if is_nicklist c then
         (if \<not> has_bits (m_ui32SupportBits u) SUPPORTBIT_QUICKLIST \<and> \<not> has_bits (m_ui32BoolBits u) BIT_PINGER
          then bad_state env a (count_stat StatCmdGetNickList S)
          else ask_nicklist env (\<lambda>_. False) a c S)
       else fallback env a c (count_json c S))"

definition in_version_or_mypass :: "server_env \<Rightarrow> addr \<Rightarrow> string \<Rightarrow> server \<Rightarrow> server res" where
  "in_version_or_mypass env a c S =
     (if MatchBytes c ''$Version '' then Version env a c (count_stat StatCmdVersion S)
       else if is_nicklist c then ask_nicklist env (\<lambda>u. \<not> has_bits (m_ui32SupportBits u) SUPPORTBIT_QUICKLIST) a c S
       else if MatchBytes c ''$MyINFO $ALL '' then named_myinfo env a c S
       else if MatchBytes c ''$MyPass '' then MyPass env a c (count_stat StatCmdMyPass S)
       else fallback env a c (count_json c S))"

definition in_nicklist_or_myinfo :: "server_env \<Rightarrow> addr \<Rightarrow> string \<Rightarrow> server \<Rightarrow> server res" where
  "in_nicklist_or_myinfo env a c S =
     (if is_nicklist c then ask_nicklist env (\<lambda>_. True) a c S
      else if MatchBytes c ''$MyINFO $ALL '' then named_myinfo env a c S
      else fallback env a c (count_json c S))"

text \<open>The commands of a user on line, or about to be, are the argument \<open>later\<close>.\<close>

definition DcCommands_PreProcessData :: "(addr \<Rightarrow> string \<Rightarrow> server \<Rightarrow> server res) \<Rightarrow> server_env \<Rightarrow> (nat \<Rightarrow> u32) \<Rightarrow> addr \<Rightarrow> string \<Rightarrow> server
    \<Rightarrow> server res" where
  "DcCommands_PreProcessData later env too_big a c S =
     (if length c < 5 then close_it env a (count_stat StatGarbageData S)
      else
        rbind (user_of a S) (\<lambda>u.
          case m_ui8State u of
            STATE_SOCKET_ACCEPTED \<Rightarrow> in_accepted env a c S
          | STATE_KEY_OR_SUP \<Rightarrow> in_key_or_sup env a c S
          | STATE_VALIDATE \<Rightarrow> in_validate env too_big a c S
          | STATE_VERSION_OR_MYPASS \<Rightarrow> in_version_or_mypass env a c S
          | STATE_GETNICKLIST_OR_MYINFO \<Rightarrow> in_nicklist_or_myinfo env a c S
          | STATE_CLOSING \<Rightarrow> Inr S
          | STATE_REMME \<Rightarrow> Inr S
          | _ \<Rightarrow> later a c S))"

end
