(* ===== verification/LoginFrames.thy ===== *)
theory LoginFrames
  imports LoginDispatch
begin

text \<open>
  What the operations leave alone.  Sending, queueing, closing and the flood checks never touch a user's nick, his
  profile or whether he is waiting for his password, they change his state only to a closing one, and they put nothing into
  what waits for other users: they are
  \<^emph>\<open>mild\<close>.  A mild step keeps every statement about who may be where in the login.
\<close>

section \<open>Mild changes\<close>

definition sec :: "User \<Rightarrow> string \<times> u32 \<times> bool \<times> int" where
  "sec u = (m_sNick u, m_ui32NickHash u, has_bits (m_ui32BoolBits u) BIT_WAITING_FOR_PASS, m_i32Profile u)"

definition kept :: "User \<Rightarrow> User \<Rightarrow> bool" where
  "kept u u' \<longleftrightarrow> sec u' = sec u \<and> (m_ui8State u' = m_ui8State u \<or> isPastLogin (m_ui8State u'))
     \<and> (m_CmdToUserList u' = m_CmdToUserList u \<or> m_CmdToUserList u' = [])"

definition mild_heap :: "(addr \<Rightarrow> User option) \<Rightarrow> (addr \<Rightarrow> User option) \<Rightarrow> bool" where
  "mild_heap h h' \<longleftrightarrow> (\<forall>b u'. h' b = Some u' \<longrightarrow> (\<exists>u. h b = Some u \<and> kept u u'))"

abbreviation users_of :: "hub \<Rightarrow> addr \<Rightarrow> User option" where
  "users_of H \<equiv> hm_users (hub_users H)"

definition mild :: "hub \<Rightarrow> hub \<Rightarrow> bool" where
  "mild H H' \<longleftrightarrow> mild_heap (users_of H) (users_of H')"

lemma kept_refl [simp]: "kept u u"
  by (simp add: kept_def)

lemma kept_trans: "kept u v \<Longrightarrow> kept v w \<Longrightarrow> kept u w"
  by (auto simp: kept_def)

lemma mild_heap_refl [simp]: "mild_heap h h"
  by (auto simp: mild_heap_def)

lemma mild_heap_trans [trans]: "mild_heap h h1 \<Longrightarrow> mild_heap h1 h2 \<Longrightarrow> mild_heap h h2"
  unfolding mild_heap_def using kept_trans by meson

lemma mild_refl [simp]: "mild H H"
  by (simp add: mild_def)

lemma mild_trans [trans]: "mild H H1 \<Longrightarrow> mild H1 H2 \<Longrightarrow> mild H H2"
  unfolding mild_def by (rule mild_heap_trans)

lemma mild_heap_hmod: "(\<And>u. kept u (f u)) \<Longrightarrow> mild_heap h (hmod a f h)"
  by (auto simp: mild_heap_def hmod_def)

lemma mild_heap_step: "mild_heap h h1 \<Longrightarrow> (\<And>u. kept u (f u)) \<Longrightarrow> mild_heap h (hmod a f h1)"
  by (erule mild_heap_trans) (rule mild_heap_hmod)

lemma mild_upd: "mild H H1 \<Longrightarrow> (\<And>u. kept u (f u)) \<Longrightarrow> mild H (upd a f H1)"
  by (simp add: mild_def upd_def mild_heap_step)

text \<open>
  Partial correctness: whatever an operation returns satisfies \<open>Q\<close>.  The rules of each operation go backwards from
  \<open>Q\<close>, as in a calculus of weakest preconditions.
\<close>

abbreviation always :: "'a res \<Rightarrow> ('a \<Rightarrow> bool) \<Rightarrow> bool" where
  "always m Q \<equiv> safe (\<lambda>_. True) m Q"

lemma always_if [simp]: "always (if b then m else n) Q = (if b then always m Q else always n Q)"
  by simp

lemma always_option [simp]: "always (case x of None \<Rightarrow> m | Some y \<Rightarrow> f y) Q = (case x of None \<Rightarrow> always m Q | Some y \<Rightarrow> always (f y) Q)"
  by (cases x) simp_all

lemma always_prod [simp]: "always (case x of (y, z) \<Rightarrow> f y z) Q = (case x of (y, z) \<Rightarrow> always (f y z) Q)"
  by (cases x) simp_all

lemma always_hwrite [simp]: "always (hwrite a f h) Q = (h a \<noteq> None \<longrightarrow> Q (hmod a f h))"
  by (auto simp: hwrite_def split: option.splits)

lemma always_deref [simp]: "always (deref h a) Q = (\<forall>u. h a = Some u \<longrightarrow> Q u)"
  by (auto simp: deref_def split: option.splits)

lemma always_the_user [simp]: "always (the_user a H) Q = (\<forall>u. users_of H a = Some u \<longrightarrow> Q u)"
  by (simp add: the_user_def)

lemma always_set_user [simp]: "always (set_user a f H) Q = (users_of H a \<noteq> None \<longrightarrow> Q (upd a f H))"
  by (simp add: set_user_def upd_def)

text \<open>The rules for mild steps, from a fixed state on; each operation adds its own.\<close>

named_theorems mild_intros \<open>rules for mild steps\<close>

text \<open>Of an operation that returns more than the hub.\<close>

definition mildp :: "hub \<Rightarrow> hub \<times> 'a \<Rightarrow> bool" where
  "mildp H r = mild H (fst r)"

lemma always_bind [mild_intros]:
  "always m (mild H0) \<Longrightarrow> (\<And>H1. mild H0 H1 \<Longrightarrow> always (f H1) (mild H0)) \<Longrightarrow> always (rbind m f) (mild H0)"
  "always m (mild H0) \<Longrightarrow> (\<And>H1. mild H0 H1 \<Longrightarrow> always (g H1) (mildp H0)) \<Longrightarrow> always (rbind m g) (mildp H0)"
  "always n (mildp H0) \<Longrightarrow> (\<And>H1 x. mild H0 H1 \<Longrightarrow> always (h (H1, x)) (mild H0)) \<Longrightarrow> always (rbind n h) (mild H0)"
  "always n (mildp H0) \<Longrightarrow> (\<And>H1 x. mild H0 H1 \<Longrightarrow> always (k (H1, x)) (mildp H0)) \<Longrightarrow> always (rbind n k) (mildp H0)"
  by (auto simp: mildp_def intro: safe_conseq)

lemma always_Inrp [mild_intros]: "mild H0 H \<Longrightarrow> always (Inr (H, x)) (mildp H0)"
  by (simp add: mildp_def)

lemma always_user_bind [mild_intros]: "(\<And>u. always (f u) Q) \<Longrightarrow> always (rbind (the_user a H) f) Q"
  by simp

lemma always_Inr [mild_intros]: "mild H0 H \<Longrightarrow> always (Inr H) (mild H0)"
  by simp

lemma always_ifI [mild_intros]: "(b \<Longrightarrow> always m Q) \<Longrightarrow> (\<not> b \<Longrightarrow> always n Q) \<Longrightarrow> always (if b then m else n) Q"
  by simp

lemma always_optionI [mild_intros]:
  "(x = None \<Longrightarrow> always m Q) \<Longrightarrow> (\<And>y. x = Some y \<Longrightarrow> always (f y) Q) \<Longrightarrow> always (case x of None \<Rightarrow> m | Some y \<Rightarrow> f y) Q"
  by (cases x) simp_all

lemma always_prodI [mild_intros]: "(\<And>y z. x = (y, z) \<Longrightarrow> always (f y z) Q) \<Longrightarrow> always (case x of (y, z) \<Rightarrow> f y z) Q"
  by (cases x) simp

lemma always_sendI [mild_intros]:
  "always m Q \<Longrightarrow> always n Q \<Longrightarrow> (\<And>k. always (f k) Q) \<Longrightarrow> always (case s of SendError \<Rightarrow> m | WouldBlock \<Rightarrow> n | Sent k \<Rightarrow> f k) Q"
  by (cases s) simp_all

lemma mild_ifI [mild_intros]: "mild H0 H1 \<Longrightarrow> mild H0 H2 \<Longrightarrow> mild H0 (if b then H1 else H2)"
  by simp

lemma always_set_userI [mild_intros]: "mild H0 H \<Longrightarrow> (\<And>u. kept u (f u)) \<Longrightarrow> always (set_user a f H) (mild H0)"
  by (auto intro: mild_upd)

lemma mild_rule: "(\<And>H. always (f H) (mild H)) \<Longrightarrow> mild H0 H \<Longrightarrow> always (f H) (mild H0)"
  using mild_trans by (blast intro: safe_conseq)

lemma mildp_rule: "(\<And>H. always (f H) (mildp H)) \<Longrightarrow> mild H0 H \<Longrightarrow> always (f H) (mildp H0)"
  using mild_trans unfolding mildp_def by (blast intro: safe_conseq)

text \<open>Fields that do not matter.\<close>

lemma mild_call [simp]: "mild H (call c H') = mild H H'"
  by (simp add: mild_def)

lemma mild_fields [simp]:
  "mild H (H'\<lparr>m_ui64TotalShare := x\<rparr>) = mild H H'" "mild H (H'\<lparr>m_ui32Logged := y\<rparr>) = mild H H'"
  "mild H (H'\<lparr>m_ui64BytesSent := x\<rparr>) = mild H H'" "mild H (H'\<lparr>m_ui64BytesSentSaved := x\<rparr>) = mild H H'"
  "mild (H\<lparr>m_ui64TotalShare := x\<rparr>) H' = mild H H'" "mild (H\<lparr>m_ui32Logged := y\<rparr>) H' = mild H H'"
  "mild (H\<lparr>m_ui64BytesSent := x\<rparr>) H' = mild H H'" "mild (call c H) H' = mild H H'"
  by (simp_all add: mild_def)

lemma waiting_bits [simp]:
  "has_bits (w OR BIT_ERROR) BIT_WAITING_FOR_PASS = has_bits w BIT_WAITING_FOR_PASS"
  "has_bits (w OR BIT_HASHED) BIT_WAITING_FOR_PASS = has_bits w BIT_WAITING_FOR_PASS"
  "has_bits (w OR BIT_PINGER) BIT_WAITING_FOR_PASS = has_bits w BIT_WAITING_FOR_PASS"
  "has_bits (w OR BIT_OPERATOR) BIT_WAITING_FOR_PASS = has_bits w BIT_WAITING_FOR_PASS"
  "has_bits (w OR BIT_HAVE_KEY) BIT_WAITING_FOR_PASS = has_bits w BIT_WAITING_FOR_PASS"
  "has_bits (w OR BIT_HAVE_SUPPORTS) BIT_WAITING_FOR_PASS = has_bits w BIT_WAITING_FOR_PASS"
  "has_bits (w OR BIT_QUACK_SUPPORTS) BIT_WAITING_FOR_PASS = has_bits w BIT_WAITING_FOR_PASS"
  "has_bits (w OR BIT_HAVE_BOTINFO) BIT_WAITING_FOR_PASS = has_bits w BIT_WAITING_FOR_PASS"
  "has_bits (w OR BIT_HAVE_GETNICKLIST) BIT_WAITING_FOR_PASS = has_bits w BIT_WAITING_FOR_PASS"
  "has_bits (w OR BIT_GETNICKLIST) BIT_WAITING_FOR_PASS = has_bits w BIT_WAITING_FOR_PASS"
  "has_bits (w OR BIT_BIG_SEND_BUFFER) BIT_WAITING_FOR_PASS = has_bits w BIT_WAITING_FOR_PASS"
  "has_bits (w OR BIT_IPV4) BIT_WAITING_FOR_PASS = has_bits w BIT_WAITING_FOR_PASS"
  "has_bits (w OR BIT_OLDHUBSTAG) BIT_WAITING_FOR_PASS = has_bits w BIT_WAITING_FOR_PASS"
  "has_bits (w OR BIT_HAVE_BADTAG) BIT_WAITING_FOR_PASS = has_bits w BIT_WAITING_FOR_PASS"
  "has_bits (w OR BIT_IPV4_ACTIVE) BIT_WAITING_FOR_PASS = has_bits w BIT_WAITING_FOR_PASS"
  "has_bits (w OR BIT_IPV6_ACTIVE) BIT_WAITING_FOR_PASS = has_bits w BIT_WAITING_FOR_PASS"
  by (rule has_bits_or_disjoint, simp add: user_bits)+

lemma waiting_bits_clear [simp]:
  "has_bits (w AND NOT BIT_HAVE_SHARECOUNTED) BIT_WAITING_FOR_PASS = has_bits w BIT_WAITING_FOR_PASS"
  "has_bits (w AND NOT BIT_BIG_SEND_BUFFER) BIT_WAITING_FOR_PASS = has_bits w BIT_WAITING_FOR_PASS"
  "has_bits (w AND NOT BIT_OPERATOR) BIT_WAITING_FOR_PASS = has_bits w BIT_WAITING_FOR_PASS"
  "has_bits (w AND NOT BIT_OLDHUBSTAG) BIT_WAITING_FOR_PASS = has_bits w BIT_WAITING_FOR_PASS"
  "has_bits (w AND NOT BIT_IPV4_ACTIVE) BIT_WAITING_FOR_PASS = has_bits w BIT_WAITING_FOR_PASS"
  "has_bits (w AND NOT BIT_IPV6_ACTIVE) BIT_WAITING_FOR_PASS = has_bits w BIT_WAITING_FOR_PASS"
  by (rule has_bits_clear_disjoint, simp add: user_bits)+

lemma keptI: "sec u' = sec u \<Longrightarrow> m_ui8State u' = m_ui8State u \<Longrightarrow> m_CmdToUserList u' = m_CmdToUserList u \<Longrightarrow> kept u u'"
  by (simp add: kept_def)

section \<open>The operations on the hub\<close>

lemma HM_Remove_always: "always (HM_Remove a s) (\<lambda>s'. mild_heap (hm_users s) (hm_users s'))"
  unfolding HM_Remove_def Let_def
  by (auto split: option.splits intro!: mild_heap_step keptI simp: sec_def)

lemma HM_Add_always: "always (HM_Add a s) (\<lambda>s'. mild_heap (hm_users s) (hm_users s'))"
  unfolding HM_Add_def Let_def
  by (auto split: option.splits intro!: mild_heap_step keptI simp: sec_def)

lemma table_mild:
  assumes "always (f (hub_users H)) (\<lambda>t. mild_heap (users_of H) (hm_users t))" and "mild H0 H"
  shows "always (rbind (f (hub_users H)) (\<lambda>t. Inr (H\<lparr>hub_users := t\<rparr>))) (mild H0)"
  using assms mild_heap_trans by (auto simp: mild_def intro: safe_conseq)

lemmas HM_Remove_mild [mild_intros] = table_mild [where f = "HM_Remove a" for a, OF HM_Remove_always]
lemmas HM_Add_mild [mild_intros] = table_mild [where f = "HM_Add a" for a, OF HM_Add_always]

lemma leave_userlist_mild: "always (leave_userlist cfg a q H) (mild H)"
  unfolding leave_userlist_def Let_def
  by (intro mild_intros) (simp_all add: kept_def sec_def)

lemma User_Close_mild: "always (User_Close cfg a q H) (mild H)"
  unfolding User_Close_def Let_def
  by (intro mild_intros mild_rule [OF leave_userlist_mild]) (simp_all add: kept_def sec_def isPastLogin_iff)

lemmas Close_mild [mild_intros] = mild_rule [OF User_Close_mild]

lemma PutInSendBuf_mild: "always (PutInSendBuf cfg a t H) (mildp H)"
proof -
  have any: "always (rbind m f) Q" if "\<And>x. always (f x) Q" for m :: "'x res" and f :: "'x \<Rightarrow> 'y res" and Q
    using that by (cases m) auto
  show ?thesis unfolding PutInSendBuf_def Let_def
    by (intro mild_intros any) (auto simp: kept_def sec_def)
qed

lemmas Put_mild [mild_intros] = mildp_rule [OF PutInSendBuf_mild]

lemma Try2Send_mild: "always (Try2Send cfg sock a H) (mildp H)"
  unfolding Try2Send_def Let_def close_with_error_def
  by (intro mild_intros) (auto simp: kept_def sec_def)

lemmas Try2_mild [mild_intros] = mildp_rule [OF Try2Send_mild]

lemma put_and_send_mild: "always (put_and_send cfg sock now a t H) (mild H)"
  unfolding put_and_send_def by (intro mild_intros) simp_all

lemmas put_send_mild [mild_intros] = mild_rule [OF put_and_send_mild]

lemma queue_text_mild: "always (queue_text cfg z sock now a t H) (mild H)"
  unfolding queue_text_def by (intro mild_intros) simp_all

lemmas queue_mild [mild_intros] = mild_rule [OF queue_text_mild]

lemma SendFormat_mild: "always (SendFormat cfg z sock d a t H) (mild H)" "always (SendFormatCheckPM cfg z sock other d a t H) (mild H)"
  "always (SendChar cfg z sock a t H) (mild H)" "always (SendCharDelayed cfg z a t H) (mild H)"
  unfolding SendFormat_def SendFormatCheckPM_def SendChar_def SendCharDelayed_def Let_def by (intro mild_intros; simp)+

lemmas Send_mild [mild_intros] = mild_rule [OF SendFormat_mild(1)] mild_rule [OF SendFormat_mild(2)]
  mild_rule [OF SendFormat_mild(3)] mild_rule [OF SendFormat_mild(4)]

section \<open>The flood checks\<close>

definition mildw :: "hub \<Rightarrow> world \<times> 'a \<Rightarrow> bool" where
  "mildw H r = mild H (fst (fst r))"

lemma always_bind_world [mild_intros]:
  "always n (mildp H0) \<Longrightarrow> (\<And>H1 x. mild H0 H1 \<Longrightarrow> always (h (H1, x)) (mildw H0)) \<Longrightarrow> always (rbind n h) (mildw H0)"
  "always m (mildw H0) \<Longrightarrow> (\<And>H1 B x. mild H0 H1 \<Longrightarrow> always (k ((H1, B), x)) (mildw H0)) \<Longrightarrow> always (rbind m k) (mildw H0)"
  "always p (mild H0) \<Longrightarrow> (\<And>H1. mild H0 H1 \<Longrightarrow> always (g H1) (mildw H0)) \<Longrightarrow> always (rbind p g) (mildw H0)"
  by (auto simp: mildp_def mildw_def intro: safe_conseq)

lemma always_Inrw [mild_intros]: "mild H0 (fst W) \<Longrightarrow> always (Inr (W, x)) (mildw H0)"
  by (simp add: mildw_def)

lemma always_ban_bind [mild_intros]: "(\<And>s. always (f s) Q) \<Longrightarrow> always (rbind (m :: BanManager res) f) Q"
  by (cases m) auto

lemma mildw_rule: "(\<And>W. always (f W) (mildw (fst W))) \<Longrightarrow> mild H0 (fst W) \<Longrightarrow> always (f W) (mildw H0)"
  using mild_trans unfolding mildw_def by (blast intro: safe_conseq)

lemma mildv_rule: "(\<And>W. always (f W) (mildp (fst W))) \<Longrightarrow> mild H0 (fst W) \<Longrightarrow> always (f W) (mildp H0)"
  for f :: "world \<Rightarrow> world res"
  using mild_trans unfolding mildp_def by (blast intro: safe_conseq)

lemma flood_steps_mild:
  "always (tell env other d t a W) (mildp (fst W))" "always (close_user env a W) (mildp (fst W))"
  "always (temp_ban_user env r m a W) (mildp (fst W))" "always (perm_ban_user env r a W) (mildp (fst W))"
  "always (add_warning a W) (mildp (fst W))"
  unfolding tell_def close_user_def temp_ban_user_def perm_ban_user_def add_warning_def
  by (intro mild_intros; simp add: kept_def sec_def)+

lemma DeFloodReport_mild: "always (DeFloodReport env ty act a W) (mildp (fst W))"
  unfolding DeFloodReport_def Let_def by (intro mild_intros) simp_all

lemmas flood_mild [mild_intros] = mildv_rule [OF flood_steps_mild(1)] mildv_rule [OF flood_steps_mild(2)]
  mildv_rule [OF flood_steps_mild(3)] mildv_rule [OF flood_steps_mild(4)] mildv_rule [OF flood_steps_mild(5)]
  mildv_rule [OF DeFloodReport_mild]

lemma flooders_mild:
  "always (kick_flooder env ty other a W) (mildp (fst W))" "always (temp_ban_flooder env ty other a W) (mildp (fst W))"
  "always (ban_flooder env ty other a W) (mildp (fst W))"
  unfolding kick_flooder_def temp_ban_flooder_def ban_flooder_def by (intro mild_intros; simp)+

lemmas flooder_mild [mild_intros] = mildv_rule [OF flooders_mild(1)] mildv_rule [OF flooders_mild(2)] mildv_rule [OF flooders_mild(3)]

lemma warning_action_mild: "always (warning_action env ty other a W) (mildp (fst W))"
  unfolding warning_action_def Let_def by (intro mild_intros) (simp_all add: mildp_def)

lemmas warning_mild [mild_intros] = mildv_rule [OF warning_action_mild]

lemma DeFloodCheckForWarn_mild: "always (DeFloodCheckForWarn env ty other a W) (mildw (fst W))"
  unfolding DeFloodCheckForWarn_def by (intro mild_intros) simp_all

lemmas CheckForWarn_mild [mild_intros] = mildw_rule [OF DeFloodCheckForWarn_mild]

lemma DeFloodDoAction_mild: "always (DeFloodDoAction env ty act c other a W) (mildw (fst W))"
  unfolding DeFloodDoAction_def Let_def by (intro mild_intros) auto

lemmas DoAction_mild [mild_intros] = mildw_rule [OF DeFloodDoAction_mild]

lemma DeFloodCheckForFlood_mild: "always (DeFloodCheckForFlood env ty act lim time other a tick c t W) (mildw (fst W))"
  unfolding DeFloodCheckForFlood_def Let_def by (intro mild_intros) auto

lemmas CheckForFlood_mild [mild_intros] = mildw_rule [OF DeFloodCheckForFlood_mild]

section \<open>The operations on the server\<close>

text \<open>What can be asked for a nick: the registration objects but for their counters of wrong passwords.\<close>

definition reg_view :: "RegUser \<Rightarrow> string \<times> byte list \<times> bool \<times> u16" where
  "reg_view r = (reg_sNick r, m_vPassData r, m_bPassHash r, m_ui16Profile r)"

definition same_regs :: "RegManager \<Rightarrow> RegManager \<Rightarrow> bool" where
  "same_regs R R' \<longleftrightarrow> m_Table R' = m_Table R \<and> (\<forall>p. map_option reg_view (rg_heap R' p) = map_option reg_view (rg_heap R p))"

definition mildS :: "server \<Rightarrow> server \<Rightarrow> bool" where
  "mildS S S' \<longleftrightarrow> mild (sv_hub S) (sv_hub S') \<and> same_regs (sv_regs S) (sv_regs S')"

definition mildSp :: "server \<Rightarrow> server \<times> 'a \<Rightarrow> bool" where
  "mildSp S r = mildS S (fst r)"

lemma same_regs_refl [simp]: "same_regs R R"
  by (simp add: same_regs_def)

lemma same_regs_trans: "same_regs R R1 \<Longrightarrow> same_regs R1 R2 \<Longrightarrow> same_regs R R2"
  by (simp add: same_regs_def)

lemma mildS_refl [simp]: "mildS S S"
  by (simp add: mildS_def)

lemma mildS_trans: "mildS S S1 \<Longrightarrow> mildS S1 S2 \<Longrightarrow> mildS S S2"
  unfolding mildS_def using mild_trans same_regs_trans by blast

lemma mildS_fields [simp]:
  "mildS S (S'\<lparr>sv_bans := b\<rparr>) = mildS S S'" "mildS S (S'\<lparr>m_PasswdBfCheck := pb\<rparr>) = mildS S S'"
  "mildS S (S'\<lparr>m_RecTimeList := rt\<rparr>) = mildS S S'" "mildS S (count_stat k S') = mildS S S'"
  "mildS (count_stat k S) S' = mildS S S'" "mildS S (status env t S') = mildS S S'"
  by (simp_all add: mildS_def count_stat_def status_def)

named_theorems mildS_intros \<open>rules for mild steps of the server\<close>

lemma alwaysS_bind [mildS_intros]:
  "always m (mildS S0) \<Longrightarrow> (\<And>S1. mildS S0 S1 \<Longrightarrow> always (f S1) (mildS S0)) \<Longrightarrow> always (rbind m f) (mildS S0)"
  "always m (mildS S0) \<Longrightarrow> (\<And>S1. mildS S0 S1 \<Longrightarrow> always (g S1) (mildSp S0)) \<Longrightarrow> always (rbind m g) (mildSp S0)"
  "always n (mildSp S0) \<Longrightarrow> (\<And>S1 x. mildS S0 S1 \<Longrightarrow> always (h (S1, x)) (mildS S0)) \<Longrightarrow> always (rbind n h) (mildS S0)"
  "always n (mildSp S0) \<Longrightarrow> (\<And>S1 x. mildS S0 S1 \<Longrightarrow> always (k (S1, x)) (mildSp S0)) \<Longrightarrow> always (rbind n k) (mildSp S0)"
  by (auto simp: mildSp_def intro: safe_conseq)

lemma alwaysS_Inr [mildS_intros]: "mildS S0 S \<Longrightarrow> always (Inr S) (mildS S0)"
  "mildS S0 S \<Longrightarrow> always (Inr (S, x)) (mildSp S0)"
  by (simp_all add: mildSp_def)

lemma alwaysS_user [mildS_intros]: "(\<And>u. user_of a S = Inr u \<Longrightarrow> always (f u) Q) \<Longrightarrow> always (rbind (user_of a S) f) Q"
  by (cases "user_of a S") simp_all

text \<open>Reading anything that is not a server.\<close>

lemma alwaysS_read [mildS_intros]:
  "(\<And>x. always (f x) Q) \<Longrightarrow> always (rbind (m :: bool res) f) Q"
  "(\<And>y. always (g y) Q) \<Longrightarrow> always (rbind (n :: addr option res) g) Q"
  "(\<And>z. always (h z) Q) \<Longrightarrow> always (rbind (k :: string res) h) Q"
  "(\<And>z. always (h' z) Q) \<Longrightarrow> always (rbind (k' :: u32 res) h') Q"
  "(\<And>z. always (i z) Q) \<Longrightarrow> always (rbind (l :: BanItem res) i) Q"
  "(\<And>z. always (j z) Q) \<Longrightarrow> always (rbind (l' :: RegUser res) j) Q"
  by (cases m, auto, cases n, auto, cases k, auto, cases k', auto, cases l, auto, cases l', auto)

lemma mildS_ifI [mildS_intros]: "(b \<Longrightarrow> mildS S0 S1) \<Longrightarrow> (\<not> b \<Longrightarrow> mildS S0 S2) \<Longrightarrow> mildS S0 (if b then S1 else S2)"
  by simp

lemmas alwaysS_cases [mildS_intros] = always_ifI always_optionI always_prodI

lemma mildS_rule: "(\<And>S. always (f S) (mildS S)) \<Longrightarrow> mildS S0 S \<Longrightarrow> always (f S) (mildS S0)"
  using mildS_trans by (blast intro: safe_conseq)

lemma mildSp_rule: "(\<And>S. always (f S) (mildSp S)) \<Longrightarrow> mildS S0 S \<Longrightarrow> always (f S) (mildSp S0)"
  using mildS_trans unfolding mildSp_def by (blast intro: safe_conseq)

lemma in_hub_mildS: "(\<And>H. always (f H) (mild H)) \<Longrightarrow> always (in_hub f S) (mildS S)"
  unfolding in_hub_def by (auto simp: mildS_def intro: safe_conseq)

lemma in_world_mildS:
  assumes "\<And>W. always (f W) (mildw (fst W))"
  shows "always (in_world f S) (mildSp S)"
proof -
  have "always (f (sv_hub S, sv_bans S)) (mildw (sv_hub S))" using assms [of "(sv_hub S, sv_bans S)"] by simp
  then show ?thesis unfolding in_world_def safe_rbind
    by (rule safe_conseq) (auto simp: mildSp_def mildS_def mildw_def)
qed

lemma hub_lifts_mild:
  "always (close_with env q a S) (mildS S)" "always (say env d a t S) (mildS S)" "always (send_text env a t S) (mildS S)"
  "always (send_later env a t S) (mildS S)"
  unfolding close_with_def say_def send_text_def send_later_def
  by (simp_all add: in_hub_mildS User_Close_mild SendFormat_mild)

lemmas hub_lift_mild [mildS_intros] = mildS_rule [OF hub_lifts_mild(1)] mildS_rule [OF hub_lifts_mild(2)]
  mildS_rule [OF hub_lifts_mild(3)] mildS_rule [OF hub_lifts_mild(4)]

lemma mod_user_mild [mildS_intros]: "mildS S0 S \<Longrightarrow> (\<And>u. kept u (f u)) \<Longrightarrow> always (mod_user a f S) (mildS S0)"
  by (rule mildS_rule [where f = "mod_user a f"]) (auto simp: mod_user_def intro!: in_hub_mildS mild_upd)

lemma set_bits_mild [mildS_intros]:
  "mildS S0 S \<Longrightarrow> (\<And>w. has_bits (w OR m) BIT_WAITING_FOR_PASS = has_bits w BIT_WAITING_FOR_PASS) \<Longrightarrow>
    always (set_bits a m S) (mildS S0)"
  unfolding set_bits_def by (rule mod_user_mild) (simp_all add: kept_def sec_def)

lemma clear_bits_mild [mildS_intros]:
  "mildS S0 S \<Longrightarrow> (\<And>w. has_bits (w AND NOT m) BIT_WAITING_FOR_PASS = has_bits w BIT_WAITING_FOR_PASS) \<Longrightarrow>
    always (clear_bits a m S) (mildS S0)"
  unfolding clear_bits_def by (rule mod_user_mild) (simp_all add: kept_def sec_def)

lemma queue_cmd_mild [mildS_intros]: "mildS S0 S \<Longrightarrow> ty \<noteq> 0 \<Longrightarrow> always (queue_cmd a ty S) (mildS S0)"
  by (rule mildS_rule [where f = "queue_cmd a ty"])
     (auto simp: queue_cmd_def AddPrcsdCmd_def kept_def sec_def intro!: in_hub_mildS mild_upd)

lemma hm_add_mild [mildS_intros]: "mildS S0 S \<Longrightarrow> always (hm_add a S) (mildS S0)"
  by (rule mildS_rule [where f = "hm_add a"]) (auto simp: hm_add_def intro!: in_hub_mildS HM_Add_mild simp del: safe_rbind)

lemma set_reg_mild [mildS_intros]: "mildS S0 S \<Longrightarrow> (\<And>r. reg_view (f r) = reg_view r) \<Longrightarrow> always (set_reg p f S) (mildS S0)"
  by (rule mildS_rule [where f = "set_reg p f"])
     (auto simp: set_reg_def mildS_def same_regs_def hmod_def option.map_comp comp_def)

lemma on_bans_mild [mildS_intros]: "mildS S0 S \<Longrightarrow> always (on_bans f S) (mildSp S0)"
  by (cases "f (sv_bans S)") (auto simp: on_bans_def mildSp_def)

lemma world_flood_mild: "always (in_world (\<lambda>W. rbind (DeFloodCheckForFlood env ty act lim time other a tick c t W)
    (\<lambda>(W1, c, t, bad). Inr (W1, c, t, bad))) S) (mildSp S)"
  by (intro in_world_mildS mild_intros) auto

lemma flood_check_mild: "always (flood_check env ty k act lim time a S) (mildSp S)"
  unfolding flood_check_def by (intro mildS_intros world_flood_mild) (auto simp: kept_def sec_def)

lemmas flood_check_mildS [mildS_intros] = mildSp_rule [OF flood_check_mild]

lemma flood_check_if_mild [mildS_intros]: "mildS S0 S \<Longrightarrow> always (flood_check_if on env ty k act cnt time a S) (mildSp S0)"
  unfolding flood_check_if_def by (intro mildS_intros)

lemma CheckRecTime_mild: "always (CheckRecTime env a S) (mildSp S)"
  unfolding CheckRecTime_def Let_def by (intro mildS_intros) auto

lemmas CheckRec_mild [mildS_intros] = mildSp_rule [OF CheckRecTime_mild]

lemma refuse_mild [mildS_intros]:
  "mildS S0 S \<Longrightarrow> always (refuse env a S) (mildSp S0)" "mildS S0 S \<Longrightarrow> always (refuse_saying env a t S) (mildSp S0)"
  "mildS S0 S \<Longrightarrow> always (refuse_sending env a t S) (mildSp S0)"
  unfolding refuse_def refuse_saying_def refuse_sending_def by (intro mildS_intros; simp)+

lemma and_then_mild [mildS_intros]:
  "always m (mildSp S0) \<Longrightarrow> (\<And>S1. mildS S0 S1 \<Longrightarrow> always (f S1) (mildSp S0)) \<Longrightarrow> always (and_then m f) (mildSp S0)"
  unfolding and_then_def by (intro mildS_intros) auto

section \<open>The announcement\<close>

lemma kept_info [simp]: "kept u (mod_info g u)"
  by (simp add: kept_def sec_def)

lemma put_bit_kept: "m \<in> {BIT_IPV4_ACTIVE, BIT_IPV6_ACTIVE, BIT_OLDHUBSTAG} \<Longrightarrow> kept v u \<Longrightarrow> kept v (put_bit b m u)"
  by (auto simp: kept_def sec_def put_bit_def)

lemma tag_field_kept: "kept u (fst (tag_field c f u))"
proof -
  note k = put_bit_kept kept_info
  have "kept u (fst (tag_V g u))" "kept u (fst (tag_M g u))" "kept u (fst (tag_S g u))" "kept u (fst (tag_limit p g u))" for p g
    by (auto simp: tag_V_def tag_M_def tag_S_def tag_limit_def Let_def intro!: k split: option.splits)
  moreover have "kept u (fst (tag_H g u))" for g
    by (auto simp: tag_H_def Let_def intro!: k split: option.splits list.splits)
  ultimately show ?thesis by (simp add: tag_field_def)
qed

lemma fake_hubs_kept: "kept u (fake_hubs u)"
  unfolding fake_hubs_def by (rule kept_info)

lemma always_outcomeI [mildS_intros]:
  "always m Q \<Longrightarrow> always n Q \<Longrightarrow> always k Q \<Longrightarrow> always l Q \<Longrightarrow>
    always (case x of TagBad \<Rightarrow> m | TagSkip \<Rightarrow> n | TagCounted \<Rightarrow> k | TagFake \<Rightarrow> l) Q"
  by (cases x) simp_all

lemma tag_loop_mild: "mildS S0 S \<Longrightarrow> always (tag_loop env a fs n S) (mildSp S0)"
proof (induction fs arbitrary: n S)
  case Nil
  then show ?case by (simp add: mildSp_def)
next
  case (Cons f fs)
  show ?case unfolding tag_loop.simps
    by (intro mildS_intros Cons.IH Cons.prems) (simp_all add: tag_field_kept fake_hubs_kept)
qed

lemma set_share_mild [mildS_intros]: "mildS S0 S \<Longrightarrow> always (set_share a x S) (mildS S0)"
  by (rule mildS_rule [where f = "set_share a x"])
     (auto simp: set_share_def kept_def sec_def intro!: in_hub_mildS mild_upd)

lemma bad_tag_kept: "kept u (UserSetBadTag d u)"
  by (simp add: UserSetBadTag_def kept_def sec_def or.assoc [symmetric])

lemma parse_tag_mild: "mildS S0 S \<Longrightarrow> always (parse_tag env a d b t S) (mildS S0)"
  unfolding parse_tag_def Let_def
  by (intro mildS_intros tag_loop_mild bad_tag_kept kept_info) (auto simp: kept_def sec_def)

lemma UserParseMyInfo_mild: "mildS S0 S \<Longrightarrow> always (UserParseMyInfo env a S) (mildS S0)"
  unfolding UserParseMyInfo_def parse_description_def Let_def
  by (intro mildS_intros parse_tag_mild) (auto simp: kept_def sec_def)

lemma mark_changes_kept: "kept u (mark_changes old u)"
  by (simp add: mark_changes_def Let_def kept_def sec_def)

lemma SetMyInfoOriginal_mild [mildS_intros]: "mildS S0 S \<Longrightarrow> always (SetMyInfoOriginal env a t n S) (mildS S0)"
  unfolding SetMyInfoOriginal_def
  by (intro mildS_intros UserParseMyInfo_mild) (simp_all add: mark_changes_kept)

lemma check_rules_mild: "mildS S0 S \<Longrightarrow> always (check_rules env a rs S) (mildSp S0)"
proof (induction env a rs S rule: check_rules.induct)
  case (2 env a r b t rules S)
  show ?case unfolding check_rules.simps
    by (intro mildS_intros 2) (use 2(2) in simp_all)
qed (simp add: mildSp_def)

lemma ProcessRules_mild [mildS_intros]: "mildS S0 S \<Longrightarrow> always (ProcessRules env a S) (mildSp S0)"
  unfolding ProcessRules_def by (intro mildS_intros check_rules_mild)

end
