(* ===== verification/LoginSafety.thy ===== *)
theory LoginSafety
  imports LoginFrames
begin

text \<open>
  Nobody gets a registered nick, or the rights of a profile, without its password: an invariant of the login kept
  by every command of every user, in whatever order they come.
\<close>

section \<open>The invariant\<close>

text \<open>The command that proves a nick.\<close>

definition right_pass :: "pass_hash \<Rightarrow> RegManager \<Rightarrow> string \<Rightarrow> string \<Rightarrow> bool" where
  "right_pass hash R nick c \<longleftrightarrow>
     (\<exists>p r. Reg_Find nick R = Inr (Some p) \<and> rg_heap R p = Some r \<and> password_ok hash r (drop 8 (butlast c)) = Inr True)"

definition waiting :: "User \<Rightarrow> bool" where
  "waiting u \<longleftrightarrow> has_bits (m_ui32BoolBits u) BIT_WAITING_FOR_PASS"

definition reg_nick :: "RegManager \<Rightarrow> string \<Rightarrow> bool" where
  "reg_nick R nick \<longleftrightarrow> Reg_Find nick R \<noteq> Inr None"

text \<open>
  \<open>P b n\<close>: the connection \<open>b\<close> has proved the nick \<open>n\<close>.  Before the nick is known nobody waits for a password and
  nobody has a profile; a profile needs the proof; a user who has passed the nick check has proved it, waits for the
  password, or has a nick nobody registered; and nobody waits any more when he is about to be on line.
\<close>

definition sec_ok :: "RegManager \<Rightarrow> (addr \<Rightarrow> string \<Rightarrow> bool) \<Rightarrow> addr \<Rightarrow> User \<Rightarrow> bool" where
  "sec_ok R P b u \<longleftrightarrow>
     (m_ui8State u \<le> STATE_VALIDATE \<longrightarrow> \<not> waiting u \<and> m_i32Profile u = -1)
     \<and> (m_i32Profile u \<noteq> -1 \<longrightarrow> P b (m_sNick u))
     \<and> (STATE_VERSION_OR_MYPASS \<le> m_ui8State u \<and> \<not> isPastLogin (m_ui8State u) \<longrightarrow>
          m_ui32NickHash u = HashNick (m_sNick u) \<and> (reg_nick R (m_sNick u) \<and> \<not> waiting u \<longrightarrow> P b (m_sNick u)))
     \<and> (STATE_IPV4_CHECK \<le> m_ui8State u \<and> \<not> isPastLogin (m_ui8State u) \<longrightarrow> \<not> waiting u)"

definition sec_inv :: "RegManager \<Rightarrow> (addr \<Rightarrow> string \<Rightarrow> bool) \<Rightarrow> server \<Rightarrow> bool" where
  "sec_inv R0 P S \<longleftrightarrow> same_regs R0 (sv_regs S) \<and> (\<forall>b u. users_of (sv_hub S) b = Some u \<longrightarrow> sec_ok (sv_regs S) P b u)"

lemma kept_fields:
  assumes "kept u u'"
  shows "m_sNick u' = m_sNick u" "m_ui32NickHash u' = m_ui32NickHash u" "waiting u' = waiting u" "m_i32Profile u' = m_i32Profile u"
    "m_ui8State u' = m_ui8State u \<or> isPastLogin (m_ui8State u')"
  using assms by (simp_all add: kept_def sec_def waiting_def)

lemma sec_ok_kept: "kept u u' \<Longrightarrow> sec_ok R P b u \<Longrightarrow> sec_ok R P b u'"
  by (frule kept_fields(5), erule disjE)
     (simp_all add: sec_ok_def kept_fields, auto simp: isPastLogin_iff less_eq_UserStates_def)

lemma find_reg_same:
  "same_regs R R' \<Longrightarrow> find_reg_loop n as R' = find_reg_loop n as R"
proof (induction "as")
  case (Cons a as)
  then have v: "map_option reg_view (rg_heap R' a) = map_option reg_view (rg_heap R a)" by (simp add: same_regs_def)
  show ?case
  proof (cases "rg_heap R a")
    case None
    with v show ?thesis by (simp add: deref_def)
  next
    case (Some r)
    with v obtain r' where "rg_heap R' a = Some r'" "reg_view r' = reg_view r" by (cases "rg_heap R' a") auto
    with Some show ?thesis using Cons by (simp add: deref_def reg_view_def)
  qed
qed simp

lemma Reg_Find_same: "same_regs R R' \<Longrightarrow> Reg_Find n R' = Reg_Find n R"
  unfolding Reg_Find_def using find_reg_same by (simp add: same_regs_def)

lemma reg_nick_same: "same_regs R R' \<Longrightarrow> reg_nick R' n = reg_nick R n"
  by (simp add: reg_nick_def Reg_Find_same)

lemma password_ok_view: "reg_view r = reg_view r' \<Longrightarrow> password_ok hash r t = password_ok hash r' t"
  by (cases "hash (bytes_of t)") (simp_all add: password_ok_def reg_view_def)

lemma right_pass_same:
  assumes "same_regs R R'"
  shows "right_pass hash R' n c = right_pass hash R n c"
proof -
  have "\<exists>r'. rg_heap B p = Some r' \<and> password_ok hash r' t = Inr True"
    if "same_regs A B" "rg_heap A p = Some r" "password_ok hash r t = Inr True" for A B p r t
  proof -
    have "map_option reg_view (rg_heap B p) = Some (reg_view r)" using that by (simp add: same_regs_def)
    then obtain r' where "rg_heap B p = Some r'" "reg_view r' = reg_view r" by auto
    with password_ok_view [of r' r] that(3) show ?thesis by auto
  qed
  moreover have "same_regs R' R" using assms by (simp add: same_regs_def)
  ultimately show ?thesis unfolding right_pass_def Reg_Find_same [OF assms] using assms by blast
qed

lemma mildS_user:
  assumes "mildS S S'" and "users_of (sv_hub S') a = Some u'"
  obtains u where "users_of (sv_hub S) a = Some u" and "kept u u'"
  using assms unfolding mildS_def mild_def mild_heap_def by blast

lemma sec_ok_same: "same_regs R R' \<Longrightarrow> sec_ok R' P b u = sec_ok R P b u"
  by (simp add: sec_ok_def reg_nick_same)

lemma sec_inv_mild: "mildS S S' \<Longrightarrow> sec_inv R0 P S \<Longrightarrow> sec_inv R0 P S'"
proof -
  assume m: "mildS S S'" and i: "sec_inv R0 P S"
  then have "same_regs R0 (sv_regs S')" using same_regs_trans unfolding mildS_def sec_inv_def by blast
  moreover have "sec_ok (sv_regs S') P b u'" if u': "users_of (sv_hub S') b = Some u'" for b u'
  proof -
    obtain u where "users_of (sv_hub S) b = Some u" "kept u u'" using m u' by (rule mildS_user)
    then have "sec_ok (sv_regs S) P b u'" using i sec_ok_kept unfolding sec_inv_def by blast
    then show ?thesis using m sec_ok_same unfolding mildS_def by blast
  qed
  ultimately show "sec_inv R0 P S'" by (simp add: sec_inv_def)
qed

text \<open>Statements about one user that mild steps keep.\<close>

definition about :: "addr \<Rightarrow> (RegManager \<Rightarrow> User \<Rightarrow> bool) \<Rightarrow> server \<Rightarrow> bool" where
  "about a X S \<longleftrightarrow> (\<forall>u. users_of (sv_hub S) a = Some u \<longrightarrow> X (sv_regs S) u)"

definition fresh :: "RegManager \<Rightarrow> User \<Rightarrow> bool" where
  "fresh R u \<longleftrightarrow> \<not> waiting u \<and> m_i32Profile u = -1"

definition named :: "string \<Rightarrow> RegManager \<Rightarrow> User \<Rightarrow> bool" where
  "named n R u \<longleftrightarrow> fresh R u \<and> m_sNick u = n \<and> m_ui32NickHash u = HashNick n"

definition cleared :: "(string \<Rightarrow> bool) \<Rightarrow> RegManager \<Rightarrow> User \<Rightarrow> bool" where
  "cleared p R u \<longleftrightarrow> m_ui32NickHash u = HashNick (m_sNick u) \<and> (reg_nick R (m_sNick u) \<and> \<not> waiting u \<longrightarrow> p (m_sNick u))
     \<and> (m_i32Profile u \<noteq> -1 \<longrightarrow> p (m_sNick u))"

definition stable :: "(RegManager \<Rightarrow> User \<Rightarrow> bool) \<Rightarrow> bool" where
  "stable X \<longleftrightarrow> (\<forall>R R' u u'. same_regs R R' \<longrightarrow> kept u u' \<longrightarrow> X R u \<longrightarrow> X R' u')"

lemma about_mild: "stable X \<Longrightarrow> mildS S S' \<Longrightarrow> about a X S \<Longrightarrow> about a X S'"
  unfolding about_def stable_def using mildS_user by (metis mildS_def)

lemma stable_facts [simp]: "stable fresh" "stable (named n)" "stable (cleared p)"
  unfolding stable_def fresh_def named_def cleared_def using kept_fields reg_nick_same by (simp_all add: kept_fields)

lemma sec_inv_about:
  assumes "sec_inv R0 P S" and "about a (\<lambda>R u. sec_ok R P a u \<longrightarrow> X R u) S"
  shows "about a X S"
  using assms by (auto simp: sec_inv_def about_def)

text \<open>A change of one user.\<close>

lemma always_mod_user [simp]: "always (mod_user a f S) Q = (users_of (sv_hub S) a \<noteq> None \<longrightarrow> Q (updS a f S))"
  by (simp add: mod_user_def in_hub_def updS_def)

lemma updS_regs [simp]: "sv_regs (updS a f S) = sv_regs S"
  by (simp add: updS_def)

lemma users_updS [simp]: "users_of (sv_hub (updS a f S)) b = (if b = a then map_option f (users_of (sv_hub S) a) else users_of (sv_hub S) b)"
  by (simp add: updS_def upd_def hmod_def)

lemma sec_inv_updS:
  assumes "sec_inv R0 P S" and "\<And>u. users_of (sv_hub S) a = Some u \<Longrightarrow> sec_ok (sv_regs S) P a (f u)"
  shows "sec_inv R0 P (updS a f S)"
  using assms by (auto simp: sec_inv_def)

lemma user_of_iff [simp]: "user_of a S = Inr u \<longleftrightarrow> users_of (sv_hub S) a = Some u"
  by (simp add: user_of_def the_user_def ub_simps)

end
