(* ===== verification/LoginGuard.thy ===== *)
theory LoginGuard
  imports LoginSafety
begin

text \<open>
  Every command of the login keeps the invariant of \<open>LoginSafety\<close>, with no scripts running; the theorem that nobody
  gets a registered nick or a profile without its password.
\<close>

section \<open>Commands that only send or close\<close>

definition no_scripts :: "server_env \<Rightarrow> bool" where
  "no_scripts env \<longleftrightarrow> \<not> m_bBools env SETBOOL_ENABLE_SCRIPTING"

lemma Arrival_mild: "no_scripts env \<Longrightarrow> mildS S0 S \<Longrightarrow> always (Arrival env k a c S) (mildSp S0)"
  by (simp add: Arrival_def no_scripts_def mildSp_def)

lemma flood_close_mild [mildS_intros]: "mildS S0 S \<Longrightarrow> always (flood_close env a S) (mildS S0)"
  unfolding flood_close_def by (intro mildS_intros) simp

lemma bad_state_mild [mildS_intros]: "mildS S0 S \<Longrightarrow> always (bad_state env a S) (mildS S0)"
  unfolding bad_state_def by (intro mildS_intros) simp

lemma support_item_mild [mildS_intros]: "mildS S0 S \<Longrightarrow> always (support_item env a s S) (mildSp S0)"
  unfolding support_item_def by (intro mildS_intros) (auto simp: kept_def sec_def)

lemma supports_loop_mild [mildS_intros]: "mildS S0 S \<Longrightarrow> always (supports_loop env a ss S) (mildSp S0)"
proof (induction ss arbitrary: S)
  case (Cons s ss)
  then show ?case by (auto intro!: mildS_intros)
qed (simp add: mildSp_def)

lemma MyINFODeflood_mild [mildS_intros]: "mildS S0 S \<Longrightarrow> always (MyINFODeflood env a c S) (mildSp S0)"
  unfolding MyINFODeflood_def by (intro mildS_intros) auto

lemma MyINFO_mild: "no_scripts env \<Longrightarrow> mildS S0 S \<Longrightarrow> always (MyINFO env a c S) (mildSp S0)"
  unfolding MyINFO_def past_login_def rbind_assoc by (intro mildS_intros Arrival_mild) auto

lemma BotINFO_mild: "no_scripts env \<Longrightarrow> mildS S0 S \<Longrightarrow> always (BotINFO env a c S) (mildS S0)"
  unfolding BotINFO_def past_login_def rbind_assoc by (intro mildS_intros Arrival_mild) auto

lemma send_list_mild [mildS_intros]: "mildS S0 S \<Longrightarrow> always (send_list_if b env a t S) (mildS S0)"
proof -
  have "always (in_hub (\<lambda>H. rbind (PutInSendBuf cfg a z H) (\<lambda>(H1, _). Inr (H1\<lparr>m_ui64BytesSentSaved := m_ui64BytesSentSaved H1 + x - y\<rparr>))) S)
      (mildS S)" for cfg z x y S
    by (intro in_hub_mildS mild_intros) auto
  note p = mildS_rule [OF this]
  assume "mildS S0 S"
  then show ?thesis unfolding send_list_if_def send_list_def by (intro mildS_intros p)
qed

lemma flush_mild [mildS_intros]: "mildS S0 S \<Longrightarrow> always (flush env a S) (mildS S0)"
proof -
  have "always (in_hub (\<lambda>H. rbind (Try2Send cfg sock a H) (\<lambda>(H1, _). Inr H1)) S) (mildS S)" for cfg sock S
    by (intro in_hub_mildS mild_intros) auto
  note p = mildS_rule [OF this]
  assume "mildS S0 S"
  then show ?thesis unfolding flush_def by (intro mildS_intros p)
qed

lemma pinger_nicklist_mild [mildS_intros]: "mildS S0 S \<Longrightarrow> always (pinger_nicklist env a S) (mildS S0)"
  unfolding pinger_nicklist_def Let_def by (intro mildS_intros) auto

lemma GetNickList_mild: "no_scripts env \<Longrightarrow> mildS S0 S \<Longrightarrow> always (GetNickList env a c S) (mildSp S0)"
  unfolding GetNickList_def Let_def by (intro mildS_intros Arrival_mild) auto

lemma ask_nicklist_mild: "no_scripts env \<Longrightarrow> mildS S0 S \<Longrightarrow> always (ask_nicklist env mark a c S) (mildS S0)"
  unfolding ask_nicklist_def by (intro mildS_intros GetNickList_mild) auto

lemma Unknown_mild: "no_scripts env \<Longrightarrow> mildS S0 S \<Longrightarrow> always (Unknown env b a c S) (mildS S0)"
  unfolding Unknown_def by (intro mildS_intros Arrival_mild) auto

lemma fallback_mild: "no_scripts env \<Longrightarrow> mildS S0 S \<Longrightarrow> always (fallback env a c S) (mildS S0)"
  unfolding fallback_def by (intro mildS_intros BotINFO_mild Unknown_mild) auto

section \<open>Commands that move the user on\<close>

text \<open>After a mild beginning.\<close>

lemma then_always: "always m (mildS S) \<Longrightarrow> (\<And>S1. mildS S S1 \<Longrightarrow> always (f S1) Q) \<Longrightarrow> always (rbind m f) Q"
  "always n (mildSp S) \<Longrightarrow> (\<And>S1 x. mildS S S1 \<Longrightarrow> always (g (S1, x)) Q) \<Longrightarrow> always (rbind n g) Q"
  by (auto simp: mildSp_def intro: safe_conseq)

lemma mild_keeps: "always m (mildS S) \<Longrightarrow> sec_inv R0 P S \<Longrightarrow> always m (sec_inv R0 P)"
  by (erule safe_conseq) (rule sec_inv_mild)

text \<open>Back to the nick check.\<close>

lemma to_validate: "sec_inv R0 P S \<Longrightarrow> about a fresh S \<Longrightarrow> always (set_state a STATE_VALIDATE S) (sec_inv R0 P)"
  by (auto simp: set_state_def about_def fresh_def sec_ok_def waiting_def less_eq_UserStates_def intro!: sec_inv_updS)

lemma queue_keeps: "ty \<noteq> 0 \<Longrightarrow> sec_inv R0 P S \<Longrightarrow> always (queue_cmd a ty S) (sec_inv R0 P)"
  by (rule mild_keeps [OF queue_cmd_mild [OF mildS_refl]])

lemma ends_keep:
  assumes "sec_inv R0 P S" and "mildS S S'"
  shows "always (Inr S') (sec_inv R0 P)" "always (close_it env a S') (sec_inv R0 P)" "always (flood_close env a S') (sec_inv R0 P)"
    "always (Inr (S', x)) (\<lambda>r. sec_inv R0 P (fst r))"
  using mild_keeps [OF hub_lift_mild(1) [OF assms(2)] assms(1)] mild_keeps [OF flood_close_mild [OF assms(2)] assms(1)]
    sec_inv_mild [OF assms(2,1)] by simp_all

lemma Supports_keeps:
  assumes ns: "no_scripts env" and i: "sec_inv R0 P S" and f: "about a fresh S"
  shows "always (Supports env a c S) (sec_inv R0 P)"
proof -
  have v: "always (set_state a STATE_VALIDATE S') (sec_inv R0 P)" if "mildS S S'" for S'
    using sec_inv_mild [OF that i] about_mild [OF stable_facts(1) that f] by (rule to_validate)
  have go: "always (rbind (set_state a STATE_VALIDATE S') (queue_cmd a CMD_SUPPORTS)) (sec_inv R0 P)" if "mildS S S'" for S'
    unfolding safe_rbind by (rule safe_conseq [OF v [OF that]]) (simp add: queue_keeps CMD_SUPPORTS_def)
  show ?thesis unfolding Supports_def Let_def past_login_def rbind_assoc
    by (intro then_always [where S = S] mildS_intros Arrival_mild [OF ns] ends_keep [OF i] go) auto
qed

lemma Key_keeps:
  assumes ns: "no_scripts env" and i: "sec_inv R0 P S" and f: "about a fresh S"
  shows "always (Key env a c S) (sec_inv R0 P)"
proof -
  have v: "always (set_state a STATE_VALIDATE S') (sec_inv R0 P)" if "mildS S S'" for S'
    using sec_inv_mild [OF that i] about_mild [OF stable_facts(1) that f] by (rule to_validate)
  have e: "always (Inl BufferOverflow :: server res) Q" for Q by simp
  show ?thesis unfolding Key_def past_login_def rbind_assoc
    by (intro then_always [where S = S] mildS_intros Arrival_mild [OF ns] ends_keep [OF i] v e)
       (auto simp: FreeBuffer_def kept_def sec_def)
qed

lemma to_state:
  assumes "sec_inv R0 P S" and "\<And>u. users_of (sv_hub S) a = Some u \<Longrightarrow> sec_ok (sv_regs S) P a (u\<lparr>m_ui8State := s\<rparr>)"
  shows "always (set_state a s S) (sec_inv R0 P)"
  using assms by (auto simp: set_state_def intro!: sec_inv_updS)

lemma Version_keeps:
  assumes ns: "no_scripts env" and i: "sec_inv R0 P S" and st: "about a (\<lambda>R u. m_ui8State u = STATE_VERSION_OR_MYPASS) S"
  shows "always (Version env a c S) (sec_inv R0 P)"
proof -
  have v: "always (set_state a STATE_GETNICKLIST_OR_MYINFO S) (sec_inv R0 P)"
    using i st by (intro to_state) (auto simp: sec_inv_def about_def sec_ok_def waiting_def less_eq_UserStates_def isPastLogin_iff)
  have "always (rbind (Arrival env VERSION_ARRIVAL a c S1) (\<lambda>(S2, _). Inr S2)) (sec_inv R0 P)" if "sec_inv R0 P S1" for S1
    by (intro then_always [where S = S1] mildS_intros Arrival_mild [OF ns] ends_keep [OF that]) auto
  then show ?thesis
    unfolding Version_def using ends_keep(2) [OF i mildS_refl] v by (auto intro: safe_conseq)
qed

section \<open>The nick check\<close>

text \<open>After the check: a registered nick has to be proved.\<close>

definition settled :: "string \<Rightarrow> RegManager \<Rightarrow> User \<Rightarrow> bool" where
  "settled n R u \<longleftrightarrow> m_sNick u = n \<and> m_ui32NickHash u = HashNick n \<and> m_i32Profile u = -1 \<and> (reg_nick R n \<longrightarrow> waiting u)"

definition checked :: "RegManager \<Rightarrow> (addr \<Rightarrow> string \<Rightarrow> bool) \<Rightarrow> addr \<Rightarrow> string \<Rightarrow> server \<times> bool \<Rightarrow> bool" where
  "checked R0 P a n r \<longleftrightarrow> sec_inv R0 P (fst r) \<and> (snd r \<longrightarrow> about a (settled n) (fst r))"

lemma stable_settled [simp]: "stable (settled n)"
  unfolding stable_def settled_def using kept_fields reg_nick_same by metis

lemma refused: "sec_inv R0 P S \<Longrightarrow> mildS S S' \<Longrightarrow> always (Inr (S', False)) (checked R0 P a n)"
    "sec_inv R0 P S \<Longrightarrow> mildS S S' \<Longrightarrow> always (refuse env b S') (checked R0 P a n)"
    "sec_inv R0 P S \<Longrightarrow> mildS S S' \<Longrightarrow> always (refuse_saying env b t S') (checked R0 P a n)"
    "sec_inv R0 P S \<Longrightarrow> mildS S S' \<Longrightarrow> always (refuse_sending env b t S') (checked R0 P a n)"
proof -
  assume i: "sec_inv R0 P S" and m: "mildS S S'"
  then show "always (Inr (S', False)) (checked R0 P a n)" by (simp add: checked_def sec_inv_mild)
  have no: "always (rbind k (\<lambda>S1. Inr (S1, False))) (checked R0 P a n)" if "always k (mildS S)" for k
    unfolding safe_rbind by (rule safe_conseq [OF that]) (simp add: checked_def sec_inv_mild [OF _ i])
  show r: "always (refuse env b S') (checked R0 P a n)" unfolding refuse_def by (intro no mildS_intros m)
  have k: "always (rbind k (refuse env b)) (checked R0 P a n)" if "always k (mildS S)" for k
    unfolding refuse_def rbind_assoc [symmetric] by (intro no mildS_intros that)
  show "always (refuse_saying env b t S') (checked R0 P a n)" "always (refuse_sending env b t S') (checked R0 P a n)"
    unfolding refuse_saying_def refuse_sending_def by (intro k mildS_intros m)+
qed

lemma accepted_as:
  assumes "sec_inv R0 P S" and "about a (settled n) S" and "ty \<noteq> 0"
  shows "always (rbind (queue_cmd a ty S) (\<lambda>S3. Inr (S3, True))) (checked R0 P a n)"
  unfolding safe_rbind
  by (rule safe_conseq [OF queue_cmd_mild [OF mildS_refl assms(3)]])
     (simp add: checked_def sec_inv_mild [OF _ assms(1)] about_mild [OF _ _ assms(2)])

text \<open>A nick nobody registered, with a state that goes on or stays.\<close>

lemma settled_unregistered:
  "about a (named n) S \<Longrightarrow> \<not> reg_nick (sv_regs S) n \<Longrightarrow> about a (settled n) S"
  by (auto simp: about_def named_def settled_def fresh_def)

lemma go_on_unregistered:
  assumes "sec_inv R0 P S" and "about a (named n) S" and "\<not> reg_nick (sv_regs S) n"
  shows "always (set_state a STATE_VERSION_OR_MYPASS S) (\<lambda>S1. sec_inv R0 P S1 \<and> about a (settled n) S1)"
  using assms by (auto simp: set_state_def about_def named_def settled_def fresh_def sec_ok_def waiting_def
      less_eq_UserStates_def intro!: sec_inv_updS)

lemma has_bits_waiting:
  "waiting (u\<lparr>m_ui32BoolBits := w OR BIT_WAITING_FOR_PASS\<rparr>)"
  "waiting (u\<lparr>m_ui8State := s, m_ui32BoolBits := w OR BIT_WAITING_FOR_PASS\<rparr>)"
  by (simp_all add: waiting_def)

lemma wait_for_pass:
  assumes "sec_inv R0 P S" and "about a (named n) S"
  shows "always (rbind (set_state a STATE_VERSION_OR_MYPASS S) (\<lambda>S3. rbind (set_bits a BIT_WAITING_FOR_PASS S3) (\<lambda>S4.
    rbind (queue_cmd a CMD_GETPASS S4) (\<lambda>S5. Inr (S5, True))))) (checked R0 P a n)"
proof -
  let ?g = "\<lambda>u. u\<lparr>m_ui32BoolBits := m_ui32BoolBits u OR BIT_WAITING_FOR_PASS\<rparr>" and ?f = "\<lambda>u. u\<lparr>m_ui8State := STATE_VERSION_OR_MYPASS\<rparr>"
  let ?S = "updS a ?g (updS a ?f S)"
  have "sec_inv R0 P ?S" using assms
    by (auto simp: sec_inv_def about_def named_def fresh_def sec_ok_def has_bits_waiting less_eq_UserStates_def)
  moreover have "about a (settled n) ?S" using assms(2) has_bits_waiting by (auto simp: about_def named_def settled_def fresh_def)
  ultimately have "always (rbind (queue_cmd a CMD_GETPASS ?S) (\<lambda>S5. Inr (S5, True))) (checked R0 P a n)"
    by (rule accepted_as) (simp add: CMD_GETPASS_def)
  then show ?thesis by (simp add: set_state_def set_bits_def)
qed

lemma ValidateUserNickFinally_keeps:
  assumes i: "sec_inv R0 P S" and n: "about a (named n) S" and r: "notreg \<longrightarrow> \<not> reg_nick (sv_regs S) n"
  shows "always (ValidateUserNickFinally env notreg a len v S) (checked R0 P a n)"
proof -
  have add: "always (rbind (hm_add a S) (\<lambda>S1. rbind (set_bits a BIT_HASHED S1) f)) Q"
    if "\<And>S1. mildS S S1 \<Longrightarrow> always (f S1) Q" for f :: "server \<Rightarrow> (server \<times> bool) res" and Q
    by (intro then_always [where S = S] mildS_intros that) auto
  have w: "always (rbind (set_state a STATE_VERSION_OR_MYPASS S1) (\<lambda>S3. rbind (set_bits a BIT_WAITING_FOR_PASS S3) (\<lambda>S4.
    rbind (queue_cmd a CMD_GETPASS S4) (\<lambda>S5. Inr (S5, True))))) (checked R0 P a n)" if "mildS S S1" for S1
    using wait_for_pass sec_inv_mild [OF that i] about_mild [OF _ that n] by simp
  have u: "always (rbind (if v then rbind (set_state a STATE_VERSION_OR_MYPASS S1) (queue_cmd a CMD_LOGINHELLO) else Inr S1)
      (\<lambda>S3. Inr (S3, True))) (checked R0 P a n)" if m: "mildS S S1" and nr: notreg for S1
  proof -
    have nr1: "\<not> reg_nick (sv_regs S1) n" using r nr m reg_nick_same unfolding mildS_def by blast
    note i1 = sec_inv_mild [OF m i] and n1 = about_mild [OF stable_facts(2) m n]
    have "always (rbind (rbind (set_state a STATE_VERSION_OR_MYPASS S1) (queue_cmd a CMD_LOGINHELLO)) (\<lambda>S3. Inr (S3, True))) (checked R0 P a n)"
      unfolding rbind_assoc by (subst safe_rbind, rule safe_conseq [OF go_on_unregistered [OF i1 n1 nr1]])
        (auto intro!: accepted_as simp: CMD_LOGINHELLO_def simp del: safe_rbind)
    moreover have "checked R0 P a n (S1, True)" using i1 settled_unregistered [OF n1 nr1] by (simp add: checked_def)
    ultimately show ?thesis by simp
  qed
  show ?thesis unfolding ValidateUserNickFinally_def
    by (intro mildS_intros refused [OF i mildS_refl] add w u) auto
qed

lemma and_then_checked:
  assumes "sec_inv R0 P S0" and "always m (mildSp S0)" and "\<And>S1. mildS S0 S1 \<Longrightarrow> always (f S1) (checked R0 P a n)"
  shows "always (and_then m f) (checked R0 P a n)"
  unfolding and_then_def by (intro then_always(2) [OF assms(2)]) (use assms(3) refused(1) [OF assms(1)] in auto)

lemma nick_checks_mild [mildS_intros]:
  "mildS S0 S \<Longrightarrow> always (nick_ban_checks env a S) (mildSp S0)" "mildS S0 S \<Longrightarrow> always (table_ban_check env a S) (mildSp S0)"
  "mildS S0 S \<Longrightarrow> always (entry_checks env a prof S) (mildSp S0)" "mildS S0 S \<Longrightarrow> always (set_country env a S) (mildS S0)"
  unfolding nick_ban_checks_def table_ban_check_def entry_checks_def set_country_def
  by (intro mildS_intros; simp add: kept_def sec_def)+

lemma reg_check_mild:
  assumes "mildS S0 S" and "about a (named n) S"
  shows "always (reg_check env too_big a S)
    (\<lambda>(S1, reg, ok). mildS S0 S1 \<and> (reg = None \<longrightarrow> \<not> reg_nick (sv_regs S0) n))"
proof (cases "users_of (sv_hub S) a")
  case (Some u)
  with assms(2) have u: "m_sNick u = n" "m_ui32NickHash u = HashNick n" by (simp_all add: about_def named_def)
  have un: "user_of a S = Inr u" using Some by simp
  have reg: "reg_nick (sv_regs S) n = reg_nick (sv_regs S0) n" using assms(1) reg_nick_same unfolding mildS_def by blast
  have no: "\<not> reg_nick (sv_regs S0) n" if "Reg_Find_user u (sv_regs S) = Inr None"
    using that u reg by (simp add: reg_nick_def Reg_Find_user_def Reg_Find_def)
  have say: "always (rbind (refuse_saying env a t S) (\<lambda>(S1, _). Inr (S1, Some r, False)))
      (\<lambda>(S1, reg, ok). mildS S0 S1 \<and> (reg = None \<longrightarrow> \<not> reg_nick (sv_regs S0) n))" for t r
    by (rule then_always(2) [OF refuse_mild(2) [OF assms(1)]]) simp
  have one: "always (Inr (S, x, True)) (\<lambda>(S1, reg, ok). mildS S0 S1 \<and> (reg = None \<longrightarrow> \<not> reg_nick (sv_regs S0) n))"
    if "x = None \<Longrightarrow> \<not> reg_nick (sv_regs S0) n" for x
    using that assms(1) by simp
  show ?thesis
  proof (cases "Reg_Find_user u (sv_regs S)")
    case (Inr found)
    show ?thesis
    proof (cases found)
      case None
      with Inr no show ?thesis unfolding reg_check_def un using one by simp
    next
      case (Some p)
      show ?thesis unfolding reg_check_def un rbind.simps Inr Some option.case
        by (intro mildS_intros say one) simp
    qed
  qed (simp add: reg_check_def un)
qed (simp add: reg_check_def user_of_def the_user_def deref_def)

lemma nick_taken_keeps:
  assumes ns: "no_scripts env" and i: "sec_inv R0 P S" and n: "about a (named n) S"
  shows "always (nick_taken env a c n reg b S) (checked R0 P a n)"
  unfolding nick_taken_def
  by (intro always_ifI then_always [where S = S] mildS_intros Arrival_mild [OF ns] refused [OF i] wait_for_pass [OF i n]) auto

lemma after_mod_user: "always (f (updS a g S)) Q \<Longrightarrow> always (rbind (mod_user a g S) f) Q"
  by simp

text \<open>A user who has not passed the nick check, or is gone.\<close>

definition early :: "RegManager \<Rightarrow> User \<Rightarrow> bool" where
  "early R u \<longleftrightarrow> fresh R u \<and> (m_ui8State u \<le> STATE_VALIDATE \<or> isPastLogin (m_ui8State u))"

lemma stable_early [simp]: "stable early"
  unfolding stable_def early_def fresh_def using kept_fields by metis

lemma SetNick_keeps:
  assumes "sec_inv R0 P S" and "about a early S"
  shows "sec_inv R0 P (updS a (SetNick n) S)" "about a (named n) (updS a (SetNick n) S)"
  using assms by (auto simp: about_def early_def fresh_def named_def SetNick_def sec_ok_def waiting_def
      less_eq_UserStates_def isPastLogin_iff intro!: sec_inv_updS)

lemma ValidateUserNick_keeps:
  assumes ns: "no_scripts env" and i: "sec_inv R0 P S" and e: "about a early S"
  shows "always (ValidateUserNick env too_big c a n v S) (checked R0 P a n)"
proof -
  let ?S = "updS a (SetNick n) S"
  let ?last = "\<lambda>reg S5. rbind (HM_FindUser (hub_users (sv_hub S5)) a) (\<lambda>other.
      case other of None \<Rightarrow> ValidateUserNickFinally env (reg = None) a (length n) v S5
      | Some b \<Rightarrow> rbind (past_login b S5) (\<lambda>gone.
          if gone then ValidateUserNickFinally env (reg = None) a (length n) v S5
          else nick_taken env a c n (reg \<noteq> None) b S5))"
  let ?reg = "\<lambda>S2. rbind (reg_check env too_big a S2) (\<lambda>(S3, reg, ok). if \<not> ok then Inr (S3, False) else
      and_then (entry_checks env a (case reg of None \<Rightarrow> -1 | Some r \<Rightarrow> int (unat (m_ui16Profile r))) S3) (\<lambda>S4.
      rbind (set_country env a S4) (?last reg)))"
  note i0 = SetNick_keeps(1) [OF i e, of n] and n0 = SetNick_keeps(2) [OF i e, of n]
  have fin: "always (rbind (set_country env a S3) (?last reg)) (checked R0 P a n)"
    if m: "mildS ?S S3" and r: "reg = None \<longrightarrow> \<not> reg_nick (sv_regs ?S) n" for S3 and reg :: "RegUser option"
  proof (rule then_always(1) [OF nick_checks_mild(4) [OF m]])
    fix S5 assume m5: "mildS ?S S5"
    note i5 = sec_inv_mild [OF m5 i0] and n5 = about_mild [OF stable_facts(2) m5 n0]
    have r5: "(reg = None) \<longrightarrow> \<not> reg_nick (sv_regs S5) n" using r m5 reg_nick_same unfolding mildS_def by blast
    show "always (?last reg S5) (checked R0 P a n)"
      by (intro alwaysS_read alwaysS_cases nick_taken_keeps [OF ns i5 n5] ValidateUserNickFinally_keeps [OF i5 n5 r5])
  qed
  note no = refused(1) [OF i0, unfolded safe_Inr]
  have "always (?reg S2) (checked R0 P a n)" if m: "mildS ?S S2" for S2
    unfolding safe_rbind [where m = "reg_check env too_big a S2"]
    by (rule safe_conseq [OF reg_check_mild [OF m about_mild [OF stable_facts(2) m n0]]])
       (auto simp del: safe_rbind simp: no intro!: and_then_checked [OF i0] nick_checks_mild fin)
  then have "always (and_then (nick_ban_checks env a ?S) (\<lambda>S1. and_then (table_ban_check env a S1) ?reg)) (checked R0 P a n)"
    by (intro and_then_checked [OF i0] nick_checks_mild mildS_refl)
  then show ?thesis unfolding ValidateUserNick_def
    by (intro alwaysS_cases refused [OF i mildS_refl] after_mod_user refused [OF i0 mildS_refl])
qed

lemma ValidateNick_keeps:
  assumes ns: "no_scripts env" and i: "sec_inv R0 P S" and e: "about a early S"
  shows "always (ValidateNick env too_big a c S) (sec_inv R0 P)"
proof -
  have arr: "always (rbind (Arrival env k a c S1) (\<lambda>(S2, _). Inr S2)) (sec_inv R0 P)" if "sec_inv R0 P S1" for S1 k
    by (intro then_always [where S = S1] mildS_intros Arrival_mild [OF ns] ends_keep [OF that]) auto
  have "always (rbind (ValidateUserNick env too_big d a n True S) (\<lambda>(S1, ok).
      if ok then rbind (Arrival env k a c S1) (\<lambda>(S2, _). Inr S2) else Inr S1)) (sec_inv R0 P)" for d n k
    unfolding safe_rbind [where m = "ValidateUserNick env too_big d a n True S"]
    by (rule safe_conseq [OF ValidateUserNick_keeps [OF ns i e]]) (auto simp: checked_def intro: arr simp del: safe_rbind)
  then show ?thesis unfolding ValidateNick_def
    by (intro alwaysS_user always_ifI ends_keep [OF i mildS_refl])
qed

section \<open>On the way in\<close>

lemma sec_ok_in:
  "cleared (P a) R u \<Longrightarrow> \<not> waiting u \<Longrightarrow> sec_ok R P a (u\<lparr>m_ui8State := STATE_ADDME\<rparr>)"
  "cleared (P a) R u \<Longrightarrow> \<not> waiting u \<Longrightarrow> sec_ok R P a (u\<lparr>m_ui8State := STATE_IPV4_CHECK, m_ui64IPv4CheckTick := t\<rparr>)"
  by (auto simp: sec_ok_def cleared_def waiting_def less_eq_UserStates_def isPastLogin_iff)

lemma add_me_keeps:
  assumes i: "sec_inv R0 P S" and c: "about a (cleared (P a)) S" and w: "about a (\<lambda>R u. \<not> waiting u) S"
  shows "always (add_me env a S) (sec_inv R0 P)"
proof -
  have ok: "sec_inv R0 P (set_hub (upd a f (sv_hub S)) S)"
    if "\<And>u. users_of (sv_hub S) a = Some u \<Longrightarrow> sec_ok (sv_regs S) P a (f u)" for f
    using sec_inv_updS [OF i, where f = f] that unfolding updS_def by blast
  have u: "cleared (P a) (sv_regs S) u \<and> \<not> waiting u" if "users_of (sv_hub S) a = Some u" for u
    using c w that by (simp add: about_def)
  have m: "always (rbind (SendFormat cfg z s d a t (upd a f (sv_hub S))) (\<lambda>H. Inr (set_hub H S))) (sec_inv R0 P)"
    if "\<And>u. users_of (sv_hub S) a = Some u \<Longrightarrow> sec_ok (sv_regs S) P a (f u)" for cfg z s d t f
    unfolding safe_rbind by (rule safe_conseq [OF SendFormat_mild(1)])
      (use sec_inv_mild [OF _ ok [OF that]] in \<open>auto simp: mildS_def\<close>)
  show ?thesis unfolding add_me_def in_hub_def AddMeOrIPv4Check_def rbind_assoc set_user_def
    using u sec_ok_in [of P a] ok m
    by (auto simp: hwrite_def upd_def [symmetric])
qed

lemma first_myinfo_keeps:
  assumes ns: "no_scripts env" and i: "sec_inv R0 P S" and c: "about a (cleared (P a)) S"
  shows "always (first_myinfo env a t S) (sec_inv R0 P)"
proof -
  have "always (rbind (user_of a S1) (\<lambda>u. if \<not> ok \<or> has_bits (m_ui32BoolBits u) BIT_WAITING_FOR_PASS \<or> has_bits (m_ui32BoolBits u) BIT_PINGER
      then Inr S1 else add_me env a S1)) (sec_inv R0 P)" if m: "mildS S S1" for S1 ok
  proof (rule alwaysS_user)
    fix u assume u: "user_of a S1 = Inr u"
    have "always (add_me env a S1) (sec_inv R0 P)" if "\<not> has_bits (m_ui32BoolBits u) BIT_WAITING_FOR_PASS"
      by (rule add_me_keeps [OF sec_inv_mild [OF m i] about_mild [OF stable_facts(3) m c]])
         (use u that in \<open>simp add: about_def waiting_def\<close>)
    then show "always (if \<not> ok \<or> has_bits (m_ui32BoolBits u) BIT_WAITING_FOR_PASS \<or> has_bits (m_ui32BoolBits u) BIT_PINGER
      then Inr S1 else add_me env a S1) (sec_inv R0 P)" using sec_inv_mild [OF m i] by simp
  qed
  then show ?thesis unfolding first_myinfo_def
    by (intro then_always(2) [OF MyINFO_mild [OF ns mildS_refl]]) simp
qed

lemma named_myinfo_keeps:
  assumes ns: "no_scripts env" and i: "sec_inv R0 P S" and c: "about a (cleared (P a)) S"
  shows "always (named_myinfo env a t S) (sec_inv R0 P)"
proof -
  have f: "always (first_myinfo env a t S1) (sec_inv R0 P)" if m: "mildS S S1" for S1
    by (rule first_myinfo_keeps [OF ns sec_inv_mild [OF m i] about_mild [OF stable_facts(3) m c]])
  show ?thesis unfolding named_myinfo_def
    by (intro then_always [where S = S] mildS_intros ends_keep [OF i] f) auto
qed

lemma settled_cleared: "about a (settled n) S \<Longrightarrow> about a (cleared p) S"
  by (auto simp: about_def settled_def cleared_def)

lemma quick_myinfo_keeps:
  assumes ns: "no_scripts env" and i: "sec_inv R0 P S" and e: "about a early S"
  shows "always (quick_myinfo env too_big a t S) (sec_inv R0 P)"
proof -
  have v: "always (rbind (ValidateUserNick env too_big d a n False S1) (\<lambda>(S2, valid).
      if valid then first_myinfo env a t S2 else Inr S2)) (sec_inv R0 P)" if m: "mildS S S1" for S1 d n
    unfolding safe_rbind [where m = "ValidateUserNick env too_big d a n False S1"]
    by (rule safe_conseq [OF ValidateUserNick_keeps [OF ns sec_inv_mild [OF m i] about_mild [OF stable_early m e]]])
       (auto simp: checked_def intro!: first_myinfo_keeps [OF ns] intro: settled_cleared simp del: safe_rbind)
  have b: "always (bad_state env a (count_stat k S)) (sec_inv R0 P)" for k
    by (rule mild_keeps [OF bad_state_mild i]) simp
  show ?thesis unfolding quick_myinfo_def Let_def
    by (intro then_always [where S = S] mildS_intros ends_keep [OF i] v b) auto
qed

section \<open>The password\<close>

text \<open>A closed user is gone.\<close>

definition gone :: "addr \<Rightarrow> hub \<Rightarrow> bool" where
  "gone a H \<longleftrightarrow> (\<forall>u. users_of H a = Some u \<longrightarrow> isPastLogin (m_ui8State u))"

lemma gone_mild: "mild H H' \<Longrightarrow> gone a H \<Longrightarrow> gone a H'"
  unfolding gone_def mild_def mild_heap_def kept_def by metis

lemma gone_from:
  assumes "\<And>u. isPastLogin (m_ui8State (f u))" and "\<And>H1. mild (upd a f H) H1 \<Longrightarrow> always (g H1) (mild (upd a f H))"
  shows "always (rbind (set_user a f H) g) (gone a)"
proof -
  have "gone a (upd a f H)" using assms(1) by (auto simp: gone_def upd_def hmod_def)
  then have "always (g (upd a f H)) (gone a)" using gone_mild safe_conseq [OF assms(2) [OF mild_refl]] by blast
  then show ?thesis by (auto simp: set_user_def hwrite_def upd_def split: option.splits)
qed

lemma User_Close_gone: "always (User_Close cfg a q H) (gone a)"
proof (cases "users_of H a")
  case (Some u)
  then have u: "the_user a H = Inr u" by (simp add: the_user_def deref_def)
  show ?thesis
  proof (cases "isPastLogin (m_ui8State u)")
    case False
    show ?thesis unfolding User_Close_def u rbind.simps Let_def if_not_P [OF False]
      by (rule gone_from, simp add: isPastLogin_iff, intro mild_intros mild_rule [OF leave_userlist_mild])
         (simp_all add: kept_def sec_def isPastLogin_iff)
  qed (use Some in \<open>simp add: User_Close_def u gone_def\<close>)
qed (simp add: User_Close_def the_user_def deref_def)

lemma close_gone: "always (close_with env q a S) (\<lambda>S'. mildS S S' \<and> gone a (sv_hub S'))"
proof -
  have "always (close_with env q a S) (\<lambda>S'. gone a (sv_hub S'))"
    unfolding close_with_def in_hub_def using User_Close_gone by simp
  moreover have "always (close_with env q a S) (mildS S)" by (rule hub_lift_mild(1)) simp
  ultimately show ?thesis by (auto simp: safe_def split: sum.splits)
qed

definition left_by :: "addr \<Rightarrow> server \<Rightarrow> server \<Rightarrow> bool" where
  "left_by a S S' \<longleftrightarrow> mildS S S' \<and> gone a (sv_hub S')"

lemma close_left: "mildS S0 S \<Longrightarrow> always (close_with env q a S) (left_by a S0)"
  unfolding left_by_def using mildS_trans by (blast intro: safe_conseq [OF close_gone])

lemma wrong_password_left: "mildS S0 S \<Longrightarrow> always (wrong_password env a p S) (left_by a S0)"
proof -
  have b: "always (brute_force_ban env a S1) (left_by a S0)" if "mildS S0 S1" for S1
    unfolding brute_force_ban_def Let_def
    by (intro then_always [where S = S0] mildS_intros close_left that) auto
  assume "mildS S0 S"
  then show ?thesis unfolding wrong_password_def Let_def
    by (intro then_always [where S = S0] mildS_intros close_left b) (auto simp: reg_view_def split: option.splits)
qed

text \<open>Until then the user, who waits no more, is no longer sure to have proved his nick.\<close>

lemma left_keeps:
  assumes "left_by a S1 S'" and "sec_inv R0 (\<lambda>b n. P b n \<or> b = a) S1" and "about a (\<lambda>R u. m_i32Profile u \<noteq> -1 \<longrightarrow> P a (m_sNick u)) S1"
  shows "sec_inv R0 P S'"
proof -
  have "stable (\<lambda>R u. m_i32Profile u \<noteq> -1 \<longrightarrow> P a (m_sNick u))" unfolding stable_def using kept_fields by metis
  then have "about a (\<lambda>R u. m_i32Profile u \<noteq> -1 \<longrightarrow> P a (m_sNick u)) S'"
    using assms(1,3) about_mild unfolding left_by_def by blast
  then have 1: "sec_ok (sv_regs S') P a u" if "users_of (sv_hub S') a = Some u" for u
    using assms(1) that by (auto simp: left_by_def gone_def about_def sec_ok_def isPastLogin_iff less_eq_UserStates_def)
  have "sec_inv R0 (\<lambda>b n. P b n \<or> b = a) S'" using assms(1,2) sec_inv_mild unfolding left_by_def by blast
  note weak = this
  then have 2: "sec_ok (sv_regs S') P b u" if "users_of (sv_hub S') b = Some u" "b \<noteq> a" for b u
    using that unfolding sec_inv_def sec_ok_def by meson
  have "same_regs R0 (sv_regs S')" using weak by (simp add: sec_inv_def)
  then show ?thesis unfolding sec_inv_def using 1 2 by metis
qed

lemma after_read: "(\<And>x. m = Inr x \<Longrightarrow> always (f x) Q) \<Longrightarrow> always (rbind m f) Q"
  by (cases m) simp_all

definition proved :: "(string \<Rightarrow> bool) \<Rightarrow> RegManager \<Rightarrow> User \<Rightarrow> bool" where
  "proved p R u \<longleftrightarrow> m_ui32NickHash u = HashNick (m_sNick u) \<and> \<not> waiting u \<and> p (m_sNick u)"

lemma stable_proved [simp]: "stable (proved p)"
  unfolding stable_def proved_def using kept_fields by metis

lemma kill_ghost_mild [mildS_intros]: "mildS S0 S \<Longrightarrow> always (kill_ghost env a S) (mildS S0)"
  unfolding kill_ghost_def by (intro mildS_intros) auto

lemma right_password_keeps:
  assumes ns: "no_scripts env" and i: "sec_inv R0 P S"
    and p: "about a (\<lambda>R u. proved (P a) R u \<and> STATE_VERSION_OR_MYPASS \<le> m_ui8State u) S"
  shows "always (right_password env a c q S) (sec_inv R0 P)"
proof -
  have i1: "sec_inv R0 P (updS a (\<lambda>u. u\<lparr>m_i32Profile := x\<rparr>) S)" for x
    using i p by (auto simp: about_def proved_def sec_inv_def sec_ok_def waiting_def less_eq_UserStates_def intro!: sec_inv_updS)
  have p1: "about a (proved (P a)) (updS a (\<lambda>u. u\<lparr>m_i32Profile := x\<rparr>) S)" for x
    using p by (auto simp: about_def proved_def waiting_def)
  have add: "always (add_me env a S1) (sec_inv R0 P)" if "mildS (updS a (\<lambda>u. u\<lparr>m_i32Profile := x\<rparr>) S) S1" for x S1
    using about_mild [OF stable_proved that p1] sec_inv_mild [OF that i1]
    by (intro add_me_keeps) (auto simp: about_def proved_def cleared_def)
  have say: "always (say env d a t S1) (sec_inv R0 P)" if "mildS (updS a (\<lambda>u. u\<lparr>m_i32Profile := x\<rparr>) S) S1" for x S1 d t
    by (rule mild_keeps [OF hub_lift_mild(2) [OF that] i1])
  show ?thesis unfolding right_password_def Let_def
  proof (intro alwaysS_read after_mod_user, goal_cases)
    case (1 r)
    let ?S = "updS a (\<lambda>u. u\<lparr>m_i32Profile := int (unat (m_ui16Profile r))\<rparr>) S"
    show ?case
      by (intro then_always [where S = ?S] mildS_intros Arrival_mild [OF ns] ends_keep [OF i1] add say mildS_refl)
         (simp_all add: reg_view_def)
  qed
qed

lemma MyPass_keeps:
  assumes ns: "no_scripts env" and i: "sec_inv R0 P S" and st: "about a (\<lambda>R u. m_ui8State u = STATE_VERSION_OR_MYPASS) S"
    and r: "\<And>n. right_pass (se_HashPassword env) (sv_regs S) n c \<Longrightarrow> P a n"
  shows "always (MyPass env a c S) (sec_inv R0 P)"
proof (cases "users_of (sv_hub S) a")
  case (Some u)
  then have un: "user_of a S = Inr u" by simp
  let ?f = "\<lambda>u. u\<lparr>m_ui32BoolBits := m_ui32BoolBits u AND NOT BIT_WAITING_FOR_PASS\<rparr>"
  let ?S = "updS a ?f S"
  have u: "m_ui8State u = STATE_VERSION_OR_MYPASS" "m_ui32NickHash u = HashNick (m_sNick u)" "m_i32Profile u \<noteq> -1 \<Longrightarrow> P a (m_sNick u)"
    using st i Some by (auto simp: about_def sec_inv_def sec_ok_def less_eq_UserStates_def isPastLogin_iff)
  have w: "\<not> waiting (?f u)" using has_bits_clear [of BIT_WAITING_FOR_PASS] by (simp add: waiting_def user_bits)
  have no: "always (close_it env a S') (sec_inv R0 P)" if "mildS S S'" for S' by (rule ends_keep(2) [OF i that])
  have weak: "sec_inv R0 (\<lambda>b n. P b n \<or> b = a) ?S" "about a (\<lambda>R u. m_i32Profile u \<noteq> -1 \<longrightarrow> P a (m_sNick u)) ?S"
    using i u Some w by (auto simp: sec_inv_def sec_ok_def about_def)
  have left: "always m (sec_inv R0 P)" if "always m (left_by a ?S)" for m
    by (rule safe_conseq [OF that]) (rule left_keeps [OF _ weak])
  have right: "always (right_password env a c p ?S) (sec_inv R0 P)"
    if f: "Reg_Find_user u (sv_regs S) = Inr (Some p)" and h: "rg_heap (sv_regs S) p = Some g"
      and ok: "password_ok (se_HashPassword env) g (drop 8 (butlast c)) = Inr True" for p g
  proof -
    have pn: "P a (m_sNick u)"
      using r f h ok Reg_Find_variants(2) [OF u(2)] unfolding right_pass_def by auto
    have "sec_inv R0 P ?S" using i u w pn Some
      by (intro sec_inv_updS) (auto simp: sec_ok_def less_eq_UserStates_def isPastLogin_iff)
    moreover have "about a (\<lambda>R u. proved (P a) R u \<and> STATE_VERSION_OR_MYPASS \<le> m_ui8State u) ?S"
      using u w pn Some by (simp add: about_def proved_def)
    ultimately show ?thesis by (rule right_password_keeps [OF ns])
  qed
  show ?thesis
  proof (cases "Reg_Find_user u (sv_regs S)")
    case (Inr found)
    show ?thesis unfolding MyPass_def un rbind.simps Inr clear_bits_def
    proof (intro alwaysS_cases no [OF mildS_refl] after_mod_user left [OF close_left [OF mildS_refl]])
      fix p assume "(if has_bits (m_ui32BoolBits u) BIT_WAITING_FOR_PASS then found else None) = Some p"
      then have f: "Reg_Find_user u (sv_regs S) = Inr (Some p)" using Inr by (simp split: if_splits)
      show "always (rbind (deref (rg_heap (sv_regs ?S)) p) (\<lambda>r.
        rbind (password_ok (se_HashPassword env) r (drop 8 (butlast c))) (\<lambda>good.
          if good then right_password env a c p ?S else wrong_password env a p ?S))) (sec_inv R0 P)"
        by (intro after_read) (use right [OF f] left [OF wrong_password_left [OF mildS_refl]] in
          \<open>auto simp: deref_def simp del: safe_rbind split: option.splits\<close>)
    qed
  qed (simp add: MyPass_def un)
qed (simp add: MyPass_def user_of_def the_user_def deref_def)

section \<open>Every command of the login\<close>

lemma count_stat_sec [simp]: "sec_inv R0 P (count_stat k S) = sec_inv R0 P S" "about a X (count_stat k S) = about a X S"
  "sv_regs (count_stat k S) = sv_regs S"
  by (simp_all add: count_stat_def sec_inv_def about_def)

definition in_state :: "(UserStates \<Rightarrow> bool) \<Rightarrow> RegManager \<Rightarrow> User \<Rightarrow> bool" where
  "in_state p R u \<longleftrightarrow> p (m_ui8State u)"

lemma early_of: "sec_inv R0 P S \<Longrightarrow> about a (in_state (\<lambda>s. s \<le> STATE_VALIDATE)) S \<Longrightarrow> about a early S \<and> about a fresh S"
  by (auto simp: sec_inv_def sec_ok_def about_def in_state_def early_def fresh_def)

lemma cleared_of:
  "sec_inv R0 P S \<Longrightarrow> about a (in_state (\<lambda>s. s = STATE_VERSION_OR_MYPASS \<or> s = STATE_GETNICKLIST_OR_MYINFO)) S \<Longrightarrow>
    about a (cleared (P a)) S"
  by (fastforce simp: sec_inv_def sec_ok_def about_def in_state_def cleared_def less_eq_UserStates_def isPastLogin_iff)

lemma MyNick_keeps:
  assumes ns: "no_scripts env" and i: "sec_inv R0 P S"
  shows "always (MyNick env a c S) (sec_inv R0 P)"
proof -
  have u: "always (Unknown env b a d S) (sec_inv R0 P)" for b d by (rule mild_keeps [OF Unknown_mild [OF ns mildS_refl] i])
  have "always (rbind (mod_user o' (\<lambda>w. w\<lparr>m_sIPv4 := t, m_ui32BoolBits := m_ui32BoolBits w OR BIT_IPV4,
      m_ui8State := STATE_ADDME\<rparr>) S) (close_it env a)) (sec_inv R0 P)"
    if o': "user_of o' S = Inr w" "\<not> m_ui8State w \<noteq> STATE_IPV4_CHECK" for o' w t
  proof (rule after_mod_user)
    have "sec_inv R0 P (updS o' (\<lambda>w. w\<lparr>m_sIPv4 := t, m_ui32BoolBits := m_ui32BoolBits w OR BIT_IPV4, m_ui8State := STATE_ADDME\<rparr>) S)"
      using i o' by (intro sec_inv_updS) (auto simp: sec_inv_def sec_ok_def waiting_def less_eq_UserStates_def isPastLogin_iff)
    then show "always (close_it env a (updS o' (\<lambda>w. w\<lparr>m_sIPv4 := t, m_ui32BoolBits := m_ui32BoolBits w OR BIT_IPV4,
      m_ui8State := STATE_ADDME\<rparr>) S)) (sec_inv R0 P)" by (rule ends_keep(2)) simp
  qed
  then show ?thesis unfolding MyNick_def by (intro alwaysS_user always_ifI always_optionI u)
qed

lemma mild_commands_keep:
  assumes "no_scripts env" and "sec_inv R0 P S"
  shows "always (fallback env a c S) (sec_inv R0 P)" "always (ask_nicklist env k a c S) (sec_inv R0 P)"
    "always (bad_state env a S) (sec_inv R0 P)" "always (mod_user a FreeBuffer S) (sec_inv R0 P)"
  using mild_keeps [OF fallback_mild [OF assms(1) mildS_refl] assms(2)] mild_keeps [OF ask_nicklist_mild [OF assms(1) mildS_refl] assms(2)]
    mild_keeps [OF bad_state_mild [OF mildS_refl] assms(2)]
    mild_keeps [OF mod_user_mild [OF mildS_refl, of FreeBuffer] assms(2)]
  by (simp_all add: FreeBuffer_def kept_def sec_def)

lemma in_accepted_keeps:
  "no_scripts env \<Longrightarrow> sec_inv R0 P S \<Longrightarrow> always (in_accepted env a c S) (sec_inv R0 P)"
  unfolding in_accepted_def by (intro always_ifI MyNick_keeps mild_commands_keep)

lemma in_key_or_sup_keeps:
  assumes "no_scripts env" and "sec_inv R0 P S" and "about a (in_state (\<lambda>s. s \<le> STATE_VALIDATE)) S"
  shows "always (in_key_or_sup env a c S) (sec_inv R0 P)"
  unfolding in_key_or_sup_def using assms early_of [OF assms(2,3)]
  by (intro always_ifI MyNick_keeps mild_commands_keep Supports_keeps Key_keeps) simp_all

lemma in_validate_keeps:
  assumes "no_scripts env" and "sec_inv R0 P S" and "about a (in_state (\<lambda>s. s \<le> STATE_VALIDATE)) S"
  shows "always (in_validate env too_big a c S) (sec_inv R0 P)"
  unfolding in_validate_def count_json_def using assms early_of [OF assms(2,3)]
  by (intro alwaysS_user always_ifI mild_commands_keep Key_keeps ValidateNick_keeps quick_myinfo_keeps) simp_all

lemma in_version_or_mypass_keeps:
  assumes "no_scripts env" and "sec_inv R0 P S" and "about a (in_state (\<lambda>s. s = STATE_VERSION_OR_MYPASS)) S"
    and "\<And>n. right_pass (se_HashPassword env) (sv_regs S) n c \<Longrightarrow> P a n"
  shows "always (in_version_or_mypass env a c S) (sec_inv R0 P)"
proof -
  have "about a (cleared (P a)) S" "about a (\<lambda>R u. m_ui8State u = STATE_VERSION_OR_MYPASS) S"
    using cleared_of [OF assms(2), of a] assms(3) by (simp_all add: about_def in_state_def)
  with assms show ?thesis unfolding in_version_or_mypass_def count_json_def
    by (intro always_ifI mild_commands_keep Version_keeps named_myinfo_keeps MyPass_keeps) simp_all
qed

lemma in_nicklist_or_myinfo_keeps:
  assumes "no_scripts env" and "sec_inv R0 P S" and "about a (in_state (\<lambda>s. s = STATE_GETNICKLIST_OR_MYINFO)) S"
  shows "always (in_nicklist_or_myinfo env a c S) (sec_inv R0 P)"
proof -
  have "about a (cleared (P a)) S" using assms(3) by (intro cleared_of [OF assms(2)]) (simp add: about_def in_state_def)
  with assms show ?thesis unfolding in_nicklist_or_myinfo_def count_json_def
    by (intro always_ifI mild_commands_keep named_myinfo_keeps) simp_all
qed

text \<open>The user is logging in, or gone.\<close>

definition logging_in :: "UserStates \<Rightarrow> bool" where
  "logging_in s \<longleftrightarrow> s < STATE_IPV4_CHECK \<or> isPastLogin s"

lemma PreProcessData_keeps:
  assumes ns: "no_scripts env" and i: "sec_inv R0 P S" and l: "about a (in_state logging_in) S"
    and r: "\<And>n. right_pass (se_HashPassword env) (sv_regs S) n c \<Longrightarrow> P a n"
  shows "always (DcCommands_PreProcessData later env too_big a c S) (sec_inv R0 P)"
proof (cases "length c < 5")
  case False
  show ?thesis
  proof (cases "users_of (sv_hub S) a")
    case (Some u)
    then have un: "user_of a S = Inr u" by simp
    have st: "about a (in_state p) S" if "p (m_ui8State u)" for p using that Some by (simp add: about_def in_state_def)
    have lu: "logging_in (m_ui8State u)" using l Some by (simp add: about_def in_state_def)
    show ?thesis unfolding DcCommands_PreProcessData_def un rbind.simps if_not_P [OF False]
      using lu ns i r st in_accepted_keeps in_key_or_sup_keeps in_validate_keeps in_version_or_mypass_keeps in_nicklist_or_myinfo_keeps
      by (cases "m_ui8State u") (simp_all add: logging_in_def isPastLogin_iff less_UserStates_def less_eq_UserStates_def)
  qed (use False in \<open>simp add: DcCommands_PreProcessData_def user_of_def the_user_def deref_def\<close>)
next
  case True
  have "always (close_it env a (count_stat k S)) (sec_inv R0 P)" for k by (rule ends_keep(2) [OF i]) simp
  with True show ?thesis by (simp add: DcCommands_PreProcessData_def)
qed

end
