(* ===== verification/ServiceLoop.thy ===== *)
theory ServiceLoop
  imports LoginFrames
begin

text \<open>
  The service loop (\<open>core/serviceLoop.cpp\<close>): the list of proxies, taking in an accepted connection, and what a
  turn of the receive loop and of the send loop does with a connection that is logging in or closing.
\<close>

section \<open>The list of proxies\<close>

text \<open>A range \<open>[m_start_ip, m_stop_ip)\<close>; the eight numbers of a line, shifted and added in 32 bits.\<close>

type_synonym ip_range = "u32 \<times> u32"

definition ip_of :: "u32 \<Rightarrow> u32 \<Rightarrow> u32 \<Rightarrow> u32 \<Rightarrow> u32" where
  "ip_of a b c d = push_bit 24 a + push_bit 16 b + push_bit 8 c + d"

definition proxy_range :: "u32 list \<Rightarrow> ip_range option" where
  "proxy_range ns =
     (case ns of
        [a, b, c, d, a2, b2, c2, d2] \<Rightarrow>
          (let l_startIP = ip_of a b c d; l_endIP = ip_of a2 b2 c2 d2 + 1 in
           if l_startIP \<ge> l_endIP then None else Some (l_startIP, l_endIP))
      | _ \<Rightarrow> None)"

text \<open>Sorted by the start; lines without eight numbers and empty ranges are left out.\<close>

definition proxy_array :: "u32 list list \<Rightarrow> ip_range list" where
  "proxy_array lines = sort_key fst (List.map_filter proxy_range lines)"

definition isProxy :: "ip_range list \<Rightarrow> u32 \<Rightarrow> bool" where
  "isProxy rs l_ip4 =
     (let it = upper_bound (map fst rs) l_ip4 in
      if it \<noteq> 0 then (let (b, e) = rs ! (it - 1) in l_ip4 \<ge> b \<and> l_ip4 < e) else False)"

section \<open>Taking in a connection\<close>

text \<open>The address of the socket, as bytes in network order, and its text as \<open>inet_ntop\<close> writes it.\<close>

datatype sock_addr = Inet6 "byte list" | Inet "byte list"

definition is_v4mapped :: "byte list \<Rightarrow> bool" where
  "is_v4mapped h \<longleftrightarrow> take 12 h = replicate 10 0 @ [0xFF, 0xFF]"

fun is_ipv6 :: "sock_addr \<Rightarrow> bool" where
  "is_ipv6 (Inet6 h) = (\<not> is_v4mapped h)"
| "is_ipv6 (Inet h) = False"

fun addr_hash :: "sock_addr \<Rightarrow> byte list" where
  "addr_hash (Inet6 h) = h"
| "addr_hash (Inet h) = replicate 10 0 @ [255, 255] @ h"

text \<open>\<open>ipv4addr\<close>, as the number \<open>isProxy\<close> compares; it is filled in for mapped addresses only.\<close>

fun proxy_addr :: "sock_addr \<Rightarrow> u32" where
  "proxy_addr (Inet6 h) = (if is_v4mapped h then ip_of (ucast (h ! 12)) (ucast (h ! 13)) (ucast (h ! 14)) (ucast (h ! 15)) else 0)"
| "proxy_addr (Inet h) = 0"

definition g_sDefaultNick :: string where "g_sDefaultNick = ''<unknown>''"

definition new_user :: User where
  "new_user = blank_user\<lparr>m_sNick := g_sDefaultNick, m_ui8Country := 246, m_ui32BoolBits := BIT_IPV4_ACTIVE OR BIT_OLDHUBSTAG,
     m_Info := blank_info\<lparr>m_sClient := g_sOtherNoTag\<rparr>\<rparr>"

text \<open>The text must fit \<open>m_sIP\<close>, 40 characters with the NUL.\<close>

definition SetIP :: "string \<Rightarrow> User \<Rightarrow> User" where
  "SetIP sIP u = u\<lparr>m_sIP := take 39 sIP\<rparr>"

text \<open>A connection is refused with a text, or becomes a user.\<close>

datatype accepted = Refused string | Accepted

definition debug :: "string \<Rightarrow> server \<Rightarrow> server" where
  "debug t S = set_hub (call (DebugBroadcast t) (sv_hub S)) S"

definition AddUser :: "addr \<Rightarrow> User \<Rightarrow> server \<Rightarrow> server" where
  "AddUser a u S = (let t = hub_users (sv_hub S) in
     set_hub ((sv_hub S)\<lparr>hub_users := t\<lparr>hm_users := (hm_users t)(a \<mapsto> u)\<rparr>\<rparr>) S)"

definition find_full :: "byte list \<Rightarrow> server \<Rightarrow> (server \<times> BanItem option) res" where
  "find_full h S =
     rbind (on_bans (FindFull h (sv_time S)) S) (\<lambda>(S1, found).
       case found of
         None \<Rightarrow> Inr (S1, None)
       | Some p \<Rightarrow> rbind (deref (bm_heap (sv_bans S1)) p) (\<lambda>b. Inr (S1, Some b)))"

definition find_full_range :: "byte list \<Rightarrow> server \<Rightarrow> server \<times> RangeBanItem option" where
  "find_full_range h S =
     (let (B, found) = FindFullRange h (sv_time S) (sv_bans S) in
      (S\<lparr>sv_bans := B\<rparr>, Option.bind found (map_of (m_RangeBanList B))))"

text \<open>The message kept for a user whose ban is not a full one.\<close>

definition user_ban :: "server_env \<Rightarrow> BanItem option \<Rightarrow> RangeBanItem option \<Rightarrow> int \<Rightarrow> UserBan option res" where
  "user_ban env ban rb now =
     (case ban of
        Some b \<Rightarrow> rbind (GenerateBanMessage env b now) (\<lambda>m.
          Inr (Some \<lparr>ub_sMessage = m, ub_ui32NickHash = (if is_set b NICK then b_ui32NickHash b else 0)\<rparr>))
      | None \<Rightarrow>
          (case rb of
             Some r \<Rightarrow> rbind (GenerateRangeBanMessage env r now) (\<lambda>m. Inr (Some \<lparr>ub_sMessage = m, ub_ui32NickHash = 0\<rparr>))
           | None \<Rightarrow> Inr None))"

definition take_in :: "server_env \<Rightarrow> ip_range list \<Rightarrow> addr \<Rightarrow> sock_addr \<Rightarrow> string \<Rightarrow> BanItem option \<Rightarrow> RangeBanItem option \<Rightarrow> server
    \<Rightarrow> (server \<times> accepted) res" where
  "take_in env proxies a sk sIP ban rb S =
     rbind (user_ban env ban rb (sv_time S)) (\<lambda>ub.
     let S1 = (if isProxy proxies (proxy_addr sk) then debug (''[SYS] Proxy user ip '' @ sIP) S else S);
         u = SetIP sIP (new_user\<lparr>m_ui64LogonTick := m_ui64ActualTick S, m_ui128IpHash := addr_hash sk,
               m_ui32BoolBits := m_ui32BoolBits new_user OR (if is_ipv6 sk then BIT_IPV6 else BIT_IPV4), m_pBan := ub\<rparr>)
     in Inr (AddUser a u (S1\<lparr>m_ui32Joins := m_ui32Joins S1 + 1\<rparr>), Accepted))"

text \<open>
  A hub that sends everybody elsewhere.  The length \<open>snprintf\<close> returns is that of the whole text: at the size of the
  buffer its NUL is sent in place of the last character, beyond it the code reads past the buffer.
\<close>

definition redirect_all :: "server_env \<Rightarrow> server \<Rightarrow> (server \<times> accepted) res" where
  "redirect_all env S =
     (let sz = global_buffer_size (fe_hub (se_flood env));
          t = as_hub env (se_lang env LAN_YOU_REDIR_TO @ '' '' @ se_sTexts env SETTXT_REDIRECT_ADDRESS @ ''|'')
              @ m_sPreTexts env SETPRETXT_REDIRECT_ADDRESS
      in if se_sTexts env SETTXT_REDIRECT_ADDRESS = [] then Inr (S, Refused [])
         else if length t > sz then Inl BufferOverflow
         else Inr (set_hub ((sv_hub S)\<lparr>m_ui64BytesSent := m_ui64BytesSent (sv_hub S) + word_of_nat (length t)\<rparr>) S,
                Refused (if length t = sz then butlast t @ [CHR 0x00] else t)))"

definition AcceptUser :: "server_env \<Rightarrow> ip_range list \<Rightarrow> addr \<Rightarrow> sock_addr \<Rightarrow> string \<Rightarrow> server \<Rightarrow> (server \<times> accepted) res" where
  "AcceptUser env proxies a sk sIP S =
     (if m_bBools env SETBOOL_REDIRECT_ALL then redirect_all env S else
     rbind (find_full (addr_hash sk) S) (\<lambda>(S1, ban).
       case (case ban of Some b \<Rightarrow> if is_set b FULL then Some b else None | None \<Rightarrow> None) of
         Some b \<Rightarrow> rbind (GenerateBanMessage env b (sv_time S)) (\<lambda>m. Inr (S1, Refused m))
       | None \<Rightarrow>
           (case find_full_range (addr_hash sk) S1 of (S2, rb) \<Rightarrow>
             (case (case rb of Some r \<Rightarrow> if is_set r FULL then Some r else None | None \<Rightarrow> None) of
                Some r \<Rightarrow> rbind (GenerateRangeBanMessage env r (sv_time S)) (\<lambda>m. Inr (S2, Refused m))
              | None \<Rightarrow> take_in env proxies a sk sIP ban rb S2))))"

section \<open>A turn of the loops\<close>

text \<open>
  The lock of 63 characters: 27 of them are random numbers of 0 to 73 the generator gives.  It is copied over the
  beginning of the send buffer and kept for checking the key.
\<close>

definition lock_text :: "nat list \<Rightarrow> string" where
  "lock_text rnd = ''$Lock EXTENDEDPROTOCOL'' @ map (\<lambda>r. char_of (r + 48)) (take 27 rnd) @ ''nix Pk=PtokaX|''"

definition MakeLock :: "nat list \<Rightarrow> User \<Rightarrow> User" where
  "MakeLock rnd u =
     (let b = m_SendBuf u; d = sb_data b; n = Allign (length d + 63) in
      u\<lparr>m_SendBuf := b\<lparr>sb_alloc := True, sb_data := lock_text rnd @ drop 63 (d @ replicate 63 (CHR 0x00)), sb_head := 0,
          sb_len := (n - 1) mod 2 ^ 32\<rparr>,
        m_LogBuffer := lock_text rnd @ [CHR 0x00]\<rparr>)"

definition RemUser :: "addr \<Rightarrow> server \<Rightarrow> server res" where
  "RemUser a S =
     rbind (user_of a S) (\<lambda>u.
       let t = hub_users (sv_hub S);
           S1 = set_hub ((sv_hub S)\<lparr>hub_users := t\<lparr>hm_users := (hm_users t)(a := None)\<rparr>\<rparr>) S
       in Inr (S1\<lparr>m_ui32Parts := m_ui32Parts S1 + 1,
             sv_stats := (if has_bits (m_ui32SupportBits u) SUPPORTBIT_ZPIPE
                          then (sv_stats S1)(StatZPipe := sv_stats S1 StatZPipe - 1) else sv_stats S1)\<rparr>))"

definition timeout_close :: "server_env \<Rightarrow> string \<Rightarrow> addr \<Rightarrow> server \<Rightarrow> server res" where
  "timeout_close env t a S = close_it env a (debug t S)"

text \<open>A connection that is closing: what is left of its data is sent for up to 100 turns, to a pinger for as long as it takes.\<close>

definition closing_turn :: "server_env \<Rightarrow> addr \<Rightarrow> server \<Rightarrow> server res" where
  "closing_turn env a S =
     rbind (user_of a S) (\<lambda>u.
       if \<not> has_bits (m_ui32BoolBits u) BIT_ERROR \<and> sb_data (m_SendBuf u) \<noteq> []
          \<and> (m_ui32ToCloseLoops u \<noteq> 0 \<or> has_bits (m_ui32BoolBits u) BIT_PINGER)
       then
         rbind (in_hub (\<lambda>H. rbind (Try2Send (fe_hub (se_flood env)) (fe_sock (se_flood env)) a H) (\<lambda>(H1, _). Inr H1)) S)
           (mod_user a (\<lambda>u. u\<lparr>m_ui32ToCloseLoops := m_ui32ToCloseLoops u - 1\<rparr>))
       else set_state a STATE_REMME S)"

text \<open>One turn of the receive loop after receiving; \<open>later\<close> is what it does from \<open>STATE_ADDME_1LOOP\<close> on.\<close>

definition receive_turn :: "(addr \<Rightarrow> server \<Rightarrow> server res) \<Rightarrow> server_env \<Rightarrow> nat list \<Rightarrow> addr \<Rightarrow> server \<Rightarrow> server res" where
  "receive_turn later env rnd a S =
     rbind (user_of a S) (\<lambda>u.
     let since = m_ui64ActualTick S - m_ui64LogonTick u in
     case m_ui8State u of
       STATE_SOCKET_ACCEPTED \<Rightarrow>
         if m_ui64ActualTick S \<noteq> m_ui64LogonTick u
         then mod_user a (\<lambda>u. (MakeLock rnd u)\<lparr>m_ui8State := STATE_KEY_OR_SUP\<rparr>) S else Inr S
     | STATE_KEY_OR_SUP \<Rightarrow>
         if since > 20
         then timeout_close env (''[SYS] Login timeout 1 for '' @ m_sIP u @ '' - user ('' @ m_sNick u @ '') disconnected.'') a S
         else Inr S
     | STATE_IPV4_CHECK \<Rightarrow>
         if m_ui64ActualTick S - m_ui64IPv4CheckTick u > 10
         then set_state a STATE_ADDME (debug (''[SYS] IPv4Check timeout for '' @ m_sNick u @ '' ('' @ m_sIP u @ '').'') S)
         else Inr S
     | STATE_ADDME \<Rightarrow>
         if \<not> has_bits (m_ui32BoolBits u) BIT_GETNICKLIST \<and> \<not> has_bits (m_ui32SupportBits u) SUPPORTBIT_QUICKLIST
            \<and> has_bits (m_ui32BoolBits u) BIT_PINGER
         then Inr S
         else rbind (say env True a (pinger_welcome env S) S) (set_state a STATE_ADDME_1LOOP)
     | STATE_ADDME_1LOOP \<Rightarrow> later a S
     | STATE_ADDED \<Rightarrow> later a S
     | STATE_CLOSING \<Rightarrow> closing_turn env a S
     | STATE_REMME \<Rightarrow> RemUser a S
     | _ \<Rightarrow>
         if since > 60
         then timeout_close env (''[SYS] Login timeout ('' @ to_dec (to_underlying (m_ui8State u)) @ '') 2 for '' @ m_sNick u
                @ '' ('' @ m_sIP u @ '') - user disconnected.'') a S
         else Inr S)"

text \<open>One turn of the send loop; again \<open>later\<close> is what it does with users on line or about to be.\<close>

definition send_turn :: "(addr \<Rightarrow> server \<Rightarrow> server res) \<Rightarrow> server_env \<Rightarrow> addr \<Rightarrow> server \<Rightarrow> server res" where
  "send_turn later env a S =
     rbind (user_of a S) (\<lambda>u.
       case m_ui8State u of
         STATE_ADDME_2LOOP \<Rightarrow> later a S
       | STATE_ADDED \<Rightarrow> later a S
       | STATE_CLOSING \<Rightarrow> Inr S
       | STATE_REMME \<Rightarrow> Inr S
       | _ \<Rightarrow> in_hub (\<lambda>H. rbind (Try2Send (fe_hub (se_flood env)) (fe_sock (se_flood env)) a H) (\<lambda>(H1, _). Inr H1)) S)"

section \<open>Proxies are found\<close>

lemma takeWhile_sorted_filter:
  "sorted (map fst rs) \<Longrightarrow> takeWhile (\<lambda>r. fst r \<le> k) rs = filter (\<lambda>r. fst r \<le> k) rs"
proof (induction rs)
  case (Cons r rs)
  show ?case
  proof (cases "fst r \<le> k")
    case False
    then have "\<forall>q \<in> set rs. \<not> fst q \<le> k" using Cons.prems by (auto simp: not_le)
    with False show ?thesis by (simp add: filter_empty_conv)
  qed (use Cons in auto)
qed simp

lemma last_started:
  assumes "sorted (map fst rs)" and "r \<in> set rs" and "fst r \<le> ip"
  shows "upper_bound (map fst rs) ip \<noteq> 0" "rs ! (upper_bound (map fst rs) ip - 1) = last (filter (\<lambda>r. fst r \<le> ip) rs)"
proof -
  let ?t = "takeWhile (\<lambda>r. fst r \<le> ip) rs"
  have t: "?t = filter (\<lambda>r. fst r \<le> ip) rs" using assms(1) by (rule takeWhile_sorted_filter)
  then have ne: "?t \<noteq> []" using assms(2,3) by (auto simp: filter_empty_conv)
  then show "upper_bound (map fst rs) ip \<noteq> 0" by (simp add: upper_bound_def takeWhile_map comp_def)
  from ne have "?t ! (length ?t - 1) = last ?t" by (simp add: last_conv_nth)
  moreover have "rs ! (length ?t - 1) = ?t ! (length ?t - 1)" using ne by (simp add: takeWhile_nth)
  ultimately show "rs ! (upper_bound (map fst rs) ip - 1) = last (filter (\<lambda>r. fst r \<le> ip) rs)"
    using t by (simp add: upper_bound_def takeWhile_map comp_def)
qed

lemma upper_bound_0: "sorted (map fst rs) \<Longrightarrow> \<forall>r \<in> set rs. ip < fst r \<Longrightarrow> upper_bound (map fst rs) ip = 0"
  by (cases rs) (auto simp: upper_bound_def not_le)

text \<open>Only the range that starts last at or before the address is looked at.\<close>

lemma isProxy_last:
  assumes "sorted (map fst rs)"
  shows "isProxy rs ip \<longleftrightarrow> (\<exists>r \<in> set rs. fst r \<le> ip) \<and> ip < snd (last (filter (\<lambda>r. fst r \<le> ip) rs))"
proof (cases "\<exists>r \<in> set rs. fst r \<le> ip")
  case True
  then obtain r where r: "r \<in> set rs" "fst r \<le> ip" by blast
  note l = last_started [OF assms r]
  have "last (filter (\<lambda>r. fst r \<le> ip) rs) \<in> set (filter (\<lambda>r. fst r \<le> ip) rs)"
    using r by (intro last_in_set) (auto simp: filter_empty_conv)
  then have "fst (last (filter (\<lambda>r. fst r \<le> ip) rs)) \<le> ip" by simp
  with l r show ?thesis by (auto simp: isProxy_def Let_def split: prod.splits)
next
  case False
  with assms show ?thesis by (auto simp: isProxy_def upper_bound_0 not_le)
qed

text \<open>
  C34.  In a list whose ranges do not overlap, \<open>isProxy\<close> finds exactly the addresses in one of the ranges.
\<close>

theorem isProxy_iff:
  assumes "sorted (map fst rs)" and "sorted_wrt (\<lambda>r q. snd r \<le> fst q) rs"
  shows "isProxy rs ip \<longleftrightarrow> (\<exists>(b, e) \<in> set rs. b \<le> ip \<and> ip < e)"
proof
  assume "isProxy rs ip"
  then have e: "\<exists>r \<in> set rs. fst r \<le> ip" and l: "ip < snd (last (filter (\<lambda>r. fst r \<le> ip) rs))"
    using isProxy_last [OF assms(1)] by auto
  from e have "last (filter (\<lambda>r. fst r \<le> ip) rs) \<in> set (filter (\<lambda>r. fst r \<le> ip) rs)"
    by (intro last_in_set) (auto simp: filter_empty_conv)
  with l show "\<exists>(b, e) \<in> set rs. b \<le> ip \<and> ip < e" by (auto simp: case_prod_unfold)
next
  assume "\<exists>(b, e) \<in> set rs. b \<le> ip \<and> ip < e"
  then obtain r where r: "r \<in> set rs" "fst r \<le> ip" "ip < snd r" by auto
  let ?f = "filter (\<lambda>r. fst r \<le> ip) rs"
  have f: "r \<in> set ?f" "sorted_wrt (\<lambda>r q. snd r \<le> fst q) ?f" using r assms(2) by (simp_all add: sorted_wrt_filter)
  then obtain xs q where q: "?f = xs @ [q]" by (cases ?f rule: rev_cases) auto
  have "r = q"
  proof (rule ccontr)
    assume "r \<noteq> q"
    then have "snd r \<le> fst q" using f q by (auto simp: sorted_wrt_append)
    moreover have "q \<in> set ?f" using q by simp
    then have "fst q \<le> ip" by simp
    ultimately show False using r(3) by simp
  qed
  with q r isProxy_last [OF assms(1)] show "isProxy rs ip" by auto
qed

theorem isProxy_iff_witness:
  "isProxy [(10, 20), (30, 40)] 35 = (\<exists>(b, e) \<in> set [(10 :: u32, 20 :: u32), (30, 40)]. b \<le> 35 \<and> 35 < e)"
  by (rule isProxy_iff) simp_all

text \<open>An overlapping range hides an earlier one.\<close>

lemma isProxy_hidden: "\<not> isProxy [(10, 100), (20, 30)] 50"
  by (simp add: isProxy_def upper_bound_def)

section \<open>A closing connection ends\<close>

text \<open>The turns of the receive loop one connection sees, each with the environment of its moment.\<close>

fun turns :: "(addr \<Rightarrow> server \<Rightarrow> server res) \<Rightarrow> (server_env \<times> nat list) list \<Rightarrow> addr \<Rightarrow> server \<Rightarrow> server res" where
  "turns later [] a S = Inr S"
| "turns later ((env, rnd) # es) a S =
     (if users_of (sv_hub S) a = None then Inr S else rbind (receive_turn later env rnd a S) (turns later es a))"

lemma turns_gone: "users_of (sv_hub S) a = None \<Longrightarrow> turns later es a S = Inr S"
  by (cases es) auto

text \<open>For a user already closing, sending leaves alone what decides how long it goes on.\<close>

definition same_turns :: "User \<Rightarrow> User \<Rightarrow> bool" where
  "same_turns u u' \<longleftrightarrow> m_ui8State u' = m_ui8State u \<and> m_ui32ToCloseLoops u' = m_ui32ToCloseLoops u
     \<and> has_bits (m_ui32BoolBits u') BIT_PINGER = has_bits (m_ui32BoolBits u) BIT_PINGER"

lemma pinger_bits [simp]:
  "has_bits (w OR BIT_ERROR) BIT_PINGER = has_bits w BIT_PINGER"
  "has_bits (w AND NOT BIT_BIG_SEND_BUFFER) BIT_PINGER = has_bits w BIT_PINGER"
  by (rule has_bits_or_disjoint, simp add: user_bits) (rule has_bits_clear_disjoint, simp add: user_bits)

lemma Try2Send_past:
  assumes "users_of H a = Some u" and "isPastLogin (m_ui8State u)"
  shows "always (Try2Send cfg sock a H) (\<lambda>(H', _). \<exists>u'. users_of H' a = Some u' \<and> same_turns u u')"
proof -
  have close: "always (close_with_error cfg a H') (\<lambda>H2. \<exists>u'. users_of H2 a = Some u' \<and> same_turns u u')"
    if "users_of H' a = Some u" for H'
    using that assms(2) by (simp add: close_with_error_def User_Close_def hmod_def upd_def same_turns_def)
  have call: "users_of (call c H) a = Some u" for c using assms(1) by (simp add: call_def)
  show ?thesis unfolding Try2Send_def Let_def
    using assms close [OF assms(1)] close [OF call]
    by (auto simp: upd_def hmod_def split_beta same_turns_def split: send_result.splits)
qed

text \<open>One turn of a closing connection: done, or one turn less.\<close>

lemma closing_turn_step:
  assumes al: "alive a (sv_hub S)" and u: "users_of (sv_hub S) a = Some u" "m_ui8State u = STATE_CLOSING"
    and np: "\<not> has_bits (m_ui32BoolBits u) BIT_PINGER"
  shows "\<exists>S' u'. closing_turn env a S = Inr S' \<and> users_of (sv_hub S') a = Some u' \<and>
    (m_ui8State u' = STATE_REMME \<or>
     m_ui8State u' = STATE_CLOSING \<and> \<not> has_bits (m_ui32BoolBits u') BIT_PINGER \<and> alive a (sv_hub S')
       \<and> unat (m_ui32ToCloseLoops u') < unat (m_ui32ToCloseLoops u))"
proof (cases "\<not> has_bits (m_ui32BoolBits u) BIT_ERROR \<and> sb_data (m_SendBuf u) \<noteq> [] \<and> m_ui32ToCloseLoops u \<noteq> 0")
  case True
  let ?cfg = "fe_hub (se_flood env)" and ?sock = "fe_sock (se_flood env)" and ?f = "\<lambda>u. u\<lparr>m_ui32ToCloseLoops := m_ui32ToCloseLoops u - 1\<rparr>"
  from Try2Send_alive [OF al, of ?cfg ?sock] obtain H m where H: "Try2Send ?cfg ?sock a (sv_hub S) = Inr (H, m)" "alive a H" by blast
  from Try2Send_past [OF u(1), of ?cfg ?sock] u(2) H(1) obtain u1 where u1: "users_of H a = Some u1" "same_turns u u1"
    by (auto simp: isPastLogin_iff)
  have "set_user a ?f H = Inr (upd a ?f H) \<and> alive a (upd a ?f H)"
    by (rule set_user_alive [OF H(2)]) (simp_all add: keeps_def)
  moreover have "closing_turn env a S = rbind (set_user a ?f H) (\<lambda>H1. Inr (set_hub H1 S))"
    using True u(1) H(1) by (simp add: closing_turn_def user_of_def the_user_def deref_def in_hub_def mod_user_def)
  ultimately have run: "closing_turn env a S = Inr (set_hub (upd a ?f H) S)" "alive a (upd a ?f H)" by simp_all
  have "users_of (upd a ?f H) a = Some (?f u1)" using u1(1) by (simp add: upd_def hmod_def)
  moreover have "unat (m_ui32ToCloseLoops u - 1) < unat (m_ui32ToCloseLoops u)"
    using True by (simp add: unat_minus_one word_gt_0 [symmetric] unat_gt_0)
  ultimately show ?thesis using run u1(2) u(2) np by (auto simp: same_turns_def)
next
  case False
  then have "closing_turn env a S = set_state a STATE_REMME S"
    using u np by (auto simp: closing_turn_def user_of_def the_user_def deref_def)
  also have "\<dots> = Inr (updS a (\<lambda>u. u\<lparr>m_ui8State := STATE_REMME\<rparr>) S)"
    unfolding set_state_def by (rule mod_user_run) (use u in \<open>simp add: user_of_def the_user_def deref_def\<close>)
  finally show ?thesis using u(1) by (auto simp: updS_def upd_def hmod_def)
qed

lemma removed_turn:
  assumes "users_of (sv_hub S) a = Some u" and "m_ui8State u = STATE_REMME"
  shows "\<exists>S'. receive_turn later env rnd a S = Inr S' \<and> users_of (sv_hub S') a = None"
  using assms by (simp add: receive_turn_def user_of_def the_user_def deref_def RemUser_def Let_def)

text \<open>
  C9.  A closing connection that is not a pinger's is removed after at most \<open>m_ui32ToCloseLoops\<close> + 2 turns (102 after
  \<open>Close\<close>), whatever the socket does with its data in these turns.
\<close>

theorem closing_ends:
  assumes "hub_inv (sv_hub S)" and "users_of (sv_hub S) a = Some u" and "m_ui8State u = STATE_CLOSING"
    and "\<not> has_bits (m_ui32BoolBits u) BIT_PINGER" and "unat (m_ui32ToCloseLoops u) + 2 \<le> length es"
  shows "\<exists>S'. turns later es a S = Inr S' \<and> users_of (sv_hub S') a = None"
  using assms
proof (induction es arbitrary: S u)
  case (Cons e es)
  obtain env rnd where e: "e = (env, rnd)" by (cases e)
  have "alive a (sv_hub S)" using Cons.prems by (simp add: alive_def)
  from closing_turn_step [OF this Cons.prems(2-4), of env] obtain S1 u1 where
    run: "closing_turn env a S = Inr S1" and u1: "users_of (sv_hub S1) a = Some u1" and
    st: "m_ui8State u1 = STATE_REMME \<or> m_ui8State u1 = STATE_CLOSING \<and> \<not> has_bits (m_ui32BoolBits u1) BIT_PINGER
      \<and> alive a (sv_hub S1) \<and> unat (m_ui32ToCloseLoops u1) < unat (m_ui32ToCloseLoops u)" by blast
  have go: "turns later (e # es) a S = turns later es a S1"
    using Cons.prems run e by (simp add: receive_turn_def user_of_def the_user_def deref_def)
  from st show ?case
  proof
    assume s: "m_ui8State u1 = STATE_REMME"
    from Cons.prems(5) obtain e' es' where es: "es = e' # es'" by (cases es) auto
    obtain env' rnd' where e': "e' = (env', rnd')" by (cases e')
    from removed_turn [OF u1 s, of later env' rnd'] obtain S2 where
      "receive_turn later env' rnd' a S1 = Inr S2" "users_of (sv_hub S2) a = None" by blast
    then show ?thesis using go es e' u1 turns_gone by simp
  next
    assume s: "m_ui8State u1 = STATE_CLOSING \<and> \<not> has_bits (m_ui32BoolBits u1) BIT_PINGER
      \<and> alive a (sv_hub S1) \<and> unat (m_ui32ToCloseLoops u1) < unat (m_ui32ToCloseLoops u)"
    then have "hub_inv (sv_hub S1)" "unat (m_ui32ToCloseLoops u1) + 2 \<le> length es" using Cons.prems(5) by (simp_all add: alive_def)
    with Cons.IH [OF _ u1] s go show ?thesis by simp
  qed
qed simp

text \<open>A hub with one unregistered connection, and its server.\<close>

definition lone_hub :: "User \<Rightarrow> hub" where
  "lone_hub u = \<lparr>hub_users = hm_init\<lparr>hm_users := [1 \<mapsto> u]\<rparr>, m_ui64TotalShare = 0, m_ui32Logged = 0, m_ui64BytesSent = 0,
     m_ui64BytesSentSaved = 0, m_ui32MyInfosTagLen = 0, m_ui32MyInfosLen = 0, trace = []\<rparr>"

definition demo_closing :: User where
  "demo_closing = blank_user\<lparr>m_ui8State := STATE_CLOSING, m_ui32ToCloseLoops := 1,
     m_SendBuf := \<lparr>sb_alloc = True, sb_data = ''$BadPass|'', sb_head = 0, sb_len = 99, sb_called = 0\<rparr>\<rparr>"

lemma hub_inv_lone:
  assumes "buf_ok (m_SendBuf u)" and "m_pHashIpTablePrev u = None" and "m_pHashIpTableNext u = None"
    and "\<not> has_bits (m_ui32BoolBits u) BIT_HASHED"
  shows "hub_inv (lone_hub u)"
proof -
  have "hub_rel (lone_hub u) (\<lambda>_. [])" using assms
    by (simp add: hub_rel_def hm_rel_def hm_chains_def chain_slot_def hm_init_def hashed_def lone_hub_def user_ok_def)
  then show ?thesis unfolding hub_inv_def by blast
qed

theorem closing_ends_witness:
  "\<exists>S'. turns (\<lambda>_. Inr) (replicate 3 (demo_server_env, [])) 1 (demo_server (lone_hub demo_closing) new_RegManager) = Inr S'
     \<and> users_of (sv_hub S') 1 = None"
proof (rule closing_ends)
  show "hub_inv (sv_hub (demo_server (lone_hub demo_closing) new_RegManager))"
    by (simp add: demo_server_def hub_inv_lone demo_closing_def blank_user_def buf_ok_def has_bits_def user_bits)
  show "users_of (sv_hub (demo_server (lone_hub demo_closing) new_RegManager)) 1 = Some demo_closing"
    by (simp add: demo_server_def lone_hub_def)
qed (simp_all add: demo_closing_def blank_user_def has_bits_def user_bits)

text \<open>
  A pinger who stops reading stays: its counter of turns is decremented past zero and never looked at.
\<close>

definition stalled :: "User \<Rightarrow> bool" where
  "stalled u \<longleftrightarrow> m_ui8State u = STATE_CLOSING \<and> has_bits (m_ui32BoolBits u) BIT_PINGER \<and> \<not> has_bits (m_ui32BoolBits u) BIT_ERROR
     \<and> sb_data (m_SendBuf u) \<noteq> [] \<and> 0 \<le> to_int32 (sb_head (m_SendBuf u))
     \<and> to_int32 (sb_head (m_SendBuf u)) \<le> to_int32 (length (sb_data (m_SendBuf u)))"

text \<open>
  C10.  A pinger's closing connection whose socket takes no data is never removed, however many turns go by.
\<close>

theorem stalled_pinger_stays:
  assumes "users_of (sv_hub S) a = Some u" and "stalled u" and "list_all (\<lambda>e. fe_sock (se_flood (fst e)) = WouldBlock) es"
  shows "\<exists>S' u'. turns later es a S = Inr S' \<and> users_of (sv_hub S') a = Some u' \<and> stalled u'"
  using assms
proof (induction es arbitrary: S u)
  case (Cons e es)
  obtain env rnd where e: "e = (env, rnd)" by (cases e)
  let ?f = "\<lambda>u. u\<lparr>m_ui32ToCloseLoops := m_ui32ToCloseLoops u - 1\<rparr>"
  have "receive_turn later env rnd a S = Inr (updS a ?f S)"
    using Cons.prems e by (simp add: receive_turn_def closing_turn_def user_of_def the_user_def deref_def stalled_def Try2Send_def
        Let_def in_hub_def mod_user_def set_user_def hwrite_def updS_def upd_def)
  moreover have "users_of (sv_hub (updS a ?f S)) a = Some (?f u)" using Cons.prems by (simp add: updS_def upd_def hmod_def)
  moreover have "stalled (?f u)" using Cons.prems by (simp add: stalled_def)
  ultimately show ?case using Cons.IH [of "updS a ?f S" "?f u"] Cons.prems e by simp
qed auto

theorem stalled_pinger_stays_witness:
  "\<exists>S' u'. turns (\<lambda>_. Inr) (replicate 5000 (demo_server_env\<lparr>se_flood := demo_flood_env\<lparr>fe_sock := WouldBlock\<rparr>\<rparr>, [])) 1
       (demo_server (lone_hub (demo_closing\<lparr>m_ui32BoolBits := BIT_PINGER\<rparr>)) new_RegManager) = Inr S'
     \<and> users_of (sv_hub S') 1 = Some u' \<and> stalled u'"
proof (rule stalled_pinger_stays)
  show "users_of (sv_hub (demo_server (lone_hub (demo_closing\<lparr>m_ui32BoolBits := BIT_PINGER\<rparr>)) new_RegManager)) 1
      = Some (demo_closing\<lparr>m_ui32BoolBits := BIT_PINGER\<rparr>)"
    by (simp add: demo_server_def lone_hub_def)
qed (simp_all add: stalled_def demo_closing_def blank_user_def has_bits_def user_bits to_int32_def list_all_iff)

end
