(* ===== verification/LoginExample.thy ===== *)
theory LoginExample
  imports ServiceLoop
begin

text \<open>
  A login worked out: a connection comes in, gets its lock, names its client's extensions and a registered nick, and
  gives the password.  Every step is a rewriting of the model on a hub with this one connection.
\<close>

section \<open>The hub\<close>

definition login_profiles :: ProfileManager where
  "login_profiles = \<lparr>m_vpProfilesTable = [Some \<lparr>p_sName = ''Master'', m_bPermissions = replicate 60 True\<rparr>], m_ui16ProfileCount = 1\<rparr>"

definition bob_reg :: RegUser where
  "bob_reg = the (CreateReg ''bob'' (Some (bytes_of ''secret'')) None 0)"

definition bob_regs :: RegManager where
  "bob_regs = new_RegManager\<lparr>m_Table := (\<lambda>_. [])(HashNick ''bob'' := [0]), rg_heap := [0 \<mapsto> bob_reg]\<rparr>"

definition login_env :: server_env where
  "login_env = demo_server_env\<lparr>m_i16Shorts := \<lambda>_. 100\<rparr>"

definition with_users :: "HashManager \<Rightarrow> u32 \<Rightarrow> u64 \<Rightarrow> (DcStat \<Rightarrow> u32) \<Rightarrow> server" where
  "with_users t joins tick st = \<lparr>sv_site = \<lparr>st_hub = (lone_hub blank_user)\<lparr>hub_users := t\<rparr>, st_regs = bob_regs,
       st_profiles = login_profiles, m_UserList = None\<rparr>,
     sv_bans = new_BanManager, sv_reserved = [], m_PasswdBfCheck = [], m_RecTimeList = [], sv_countries = no_countries,
     m_ui32Joins = joins, m_ui32Parts = 0, sv_stats = st, m_ui64ActualTick = tick, sv_time = 1000\<rparr>"

text \<open>The one connection, with its entries in the tables of nicks and addresses.\<close>

definition lone :: "(string \<Rightarrow> addr option) \<Rightarrow> (byte list \<Rightarrow> IpTableItem option) \<Rightarrow> User \<Rightarrow> (DcStat \<Rightarrow> u32) \<Rightarrow> server" where
  "lone nt it u st = with_users \<lparr>hm_users = [2 \<mapsto> u], m_NickTable = nt, m_IpTable = it\<rparr> 1 101 st"

lemma bob_fields: "m_ui16Profile bob_reg = 0" "reg_sNick bob_reg = ''bob''" "m_bPassHash bob_reg = False"
    "m_vPassData bob_reg = pass_bytes (bytes_of ''secret'')" "bob_reg\<lparr>m_ui8BadPassCount := 0\<rparr> = bob_reg"
  by (simp_all add: bob_reg_def CreateReg_def Let_def)

lemma login_env_fields [simp]: "m_bBools login_env k = False" "m_i16Shorts login_env i = 100" "se_bUseIPv6 login_env = False"
    "se_HashPassword login_env = (\<lambda>_. None)" "se_flood login_env = demo_flood_env"
  by (simp_all add: login_env_def demo_server_env_def)

lemmas lone_runs = user_of_def the_user_def deref_def mod_user_def in_hub_def set_user_def hwrite_def hmod_def with_users_def
  lone_hub_def hm_init_def count_stat_def lone_def

lemma lone_ops [simp]: "user_of 2 (lone nt it u st) = Inr u" "mod_user 2 f (lone nt it u st) = Inr (lone nt it (f u) st)"
    "count_stat k (lone nt it u st) = lone nt it u (st(k := st k + 1))"
  by (simp_all add: lone_runs)

lemma lone_fields [simp]:
  "sv_time (lone nt it u st) = 1000" "sv_bans (lone nt it u st) = new_BanManager"
  "(lone nt it u st)\<lparr>sv_bans := new_BanManager\<rparr> = lone nt it u st" "sv_regs (lone nt it u st) = bob_regs"
  "sv_profiles (lone nt it u st) = login_profiles" "m_RecTimeList (lone nt it u st) = []"
  "(lone nt it u st)\<lparr>m_RecTimeList := []\<rparr> = lone nt it u st"
  "hub_users (sv_hub (lone nt it u st)) = \<lparr>hm_users = [2 \<mapsto> u], m_NickTable = nt, m_IpTable = it\<rparr>"
  "sv_countries (lone nt it u st) = no_countries" "sv_reserved (lone nt it u st) = []"
  "m_ui32Joins (lone nt it u st) = 1" "m_ui32Parts (lone nt it u st) = 0" "m_PasswdBfCheck (lone nt it u st) = []"
  "(lone nt it u st)\<lparr>m_PasswdBfCheck := []\<rparr> = lone nt it u st"
  by (simp_all add: with_users_def lone_def)

section \<open>Coming in\<close>

definition fresh_bob :: User where
  "fresh_bob = SetIP ''127.0.0.1'' (new_user\<lparr>m_ui64LogonTick := 100, m_ui128IpHash := replicate 10 0 @ [255, 255, 127, 0, 0, 1],
     m_ui32BoolBits := m_ui32BoolBits new_user OR BIT_IPV4, m_pBan := None\<rparr>)"

definition locked_bob :: User where
  "locked_bob = (MakeLock (replicate 27 0) fresh_bob)\<lparr>m_ui8State := STATE_KEY_OR_SUP\<rparr>"

lemma bob_accepted:
  "AcceptUser login_env [] 2 (Inet [127, 0, 0, 1]) ''127.0.0.1'' (with_users hm_init 0 100 (\<lambda>_. 0)) =
    Inr (with_users (hm_init\<lparr>hm_users := [2 \<mapsto> fresh_bob]\<rparr>) 1 100 (\<lambda>_. 0), Accepted)"
  by (simp add: AcceptUser_def find_full_def on_bans_def FindFull_def FindIpBanGeneric_def with_users_def new_BanManager_def fresh_bob_def
      hm_init_def find_full_range_def FindFullRange_def FindRangeBanGeneric_def take_in_def user_ban_def Let_def isProxy_def
      upper_bound_def AddUser_def lone_hub_def)

lemma bob_clock: "(with_users t j k st)\<lparr>m_ui64ActualTick := k', sv_time := 1000\<rparr> = with_users t j k' st"
  by (simp add: with_users_def)

lemma bob_locked:
  "receive_turn later login_env (replicate 27 0) 2 (with_users (hm_init\<lparr>hm_users := [2 \<mapsto> fresh_bob]\<rparr>) 1 101 st) =
    Inr (lone (\<lambda>_. None) (\<lambda>_. None) locked_bob st)"
  by (simp add: receive_turn_def lone_runs locked_bob_def fresh_bob_def SetIP_def new_user_def blank_user_def)

section \<open>The extensions\<close>

definition queued :: "byte \<Rightarrow> PrcsdUsrCmd" where
  "queued ty = \<lparr>cmd_sCommand = [CHR 0x00], cmd_ui32Len = 0, cmd_ui8Type = ty, cmd_pPtr = None\<rparr>"

lemma bob_queues [simp]:
  "ty \<noteq> 0 \<Longrightarrow> queue_cmd 2 ty (lone nt it u st) = Inr (lone nt it (u\<lparr>m_CmdList := m_CmdList u @ [queued ty]\<rparr>) st)"
  by (simp add: queue_cmd_def AddPrcsdCmd_def lone_runs queued_def)

lemma bob_supports:
  assumes "m_ui8State u = STATE_KEY_OR_SUP" and "\<not> has_bits (m_ui32BoolBits u) BIT_HAVE_SUPPORTS"
  shows "DcCommands_PreProcessData later login_env too_big 2 ''$Supports NoHello|'' (lone nt it u st) =
    Inr (lone nt it (u\<lparr>m_ui32BoolBits := m_ui32BoolBits u OR BIT_HAVE_SUPPORTS,
        m_ui32SupportBits := m_ui32SupportBits u OR SUPPORTBIT_NOHELLO, m_ui8State := STATE_VALIDATE,
        m_CmdList := m_CmdList u @ [queued CMD_SUPPORTS]\<rparr>) (st(StatCmdSupports := st StatCmdSupports + 1)))"
proof -
  have "support_items ''$Supports NoHello|'' = [''NoHello'']" by (simp add: support_items_def)
  then show ?thesis using assms
    by (simp add: DcCommands_PreProcessData_def in_key_or_sup_def MatchBytes_def Supports_def and_then_def support_item_def
        support_bits_def Arrival_def past_login_def isPastLogin_iff set_bits_def set_state_def CMD_SUPPORTS_def)
qed

section \<open>The nick\<close>

lemma bob_found: "m_sNick u = ''bob'' \<Longrightarrow> m_ui32NickHash u = HashNick ''bob'' \<Longrightarrow> Reg_Find_user u bob_regs = Inr (Some 0)"
  by (simp add: Reg_Find_user_def bob_regs_def bob_fields deref_def iequals_def)

lemma bob_reg_at: "deref (rg_heap bob_regs) 0 = Inr bob_reg"
  by (simp add: bob_regs_def deref_def)

lemma bob_not_banned:
  assumes "m_pBan u = None"
  shows "nick_ban_checks login_env 2 (lone nt it u st) = Inr (lone nt it u st, True)"
    "table_ban_check login_env 2 (lone nt it u st) = Inr (lone nt it u st, True)"
proof -
  have "FindNick_user u 1000 new_BanManager = Inr (new_BanManager, None)"
    by (simp add: FindNick_user_def FindNickBanGeneric_def new_BanManager_def)
  with assms show "nick_ban_checks login_env 2 (lone nt it u st) = Inr (lone nt it u st, True)"
    "table_ban_check login_env 2 (lone nt it u st) = Inr (lone nt it u st, True)"
    by (simp_all add: nick_ban_checks_def table_ban_check_def on_bans_def)
qed

lemma bob_registered:
  "m_sNick u = ''bob'' \<Longrightarrow> m_ui32NickHash u = HashNick ''bob'' \<Longrightarrow>
    reg_check login_env too_big 2 (lone nt it u st) = Inr (lone nt it u st, Some bob_reg, True)"
  by (simp add: reg_check_def bob_found bob_reg_at)

lemma master_may [simp]: "k < 60 \<Longrightarrow> IsProfileAllowed 0 k login_profiles = Inr True"
  by (simp add: IsProfileAllowed_def profile_at_def login_profiles_def)

lemma bob_enters:
  assumes "m_pBan u = None"
  shows "entry_checks login_env 2 0 (lone nt (\<lambda>_. None) u st) = Inr (lone nt (\<lambda>_. None) u st, True)"
proof -
  have e: "u\<lparr>m_pBan := None\<rparr> = u" using assms by simp
  show ?thesis using assms
    by (simp add: entry_checks_def ENTERIFIPBAN_def ENTERFULLHUB_def NOUSRSAMEIP_def NORECONNTIME_def HM_GetUserIpCount_def deref_def)
       (simp only: e)
qed

lemma bob_country: "set_country login_env 2 (lone nt it u st) = Inr (lone nt it (u\<lparr>m_ui8Country := 253\<rparr>) st)"
proof -
  have "Country_Find False no_countries h = 253" for h
    by (simp add: Country_Find_def ipv4_of_def no_countries_def Let_def COUNTRY_COUNT_def Country.upper_bound_def)
  then show ?thesis by (simp add: set_country_def)
qed

lemma bob_alone: "HM_FindUser \<lparr>hm_users = [2 \<mapsto> u], m_NickTable = \<lambda>_. None, m_IpTable = it\<rparr> 2 = Inr None"
  by (simp add: HM_FindUser_def HM_FindUser_nick_def deref_def)

lemma bob_added: "hm_add 2 (lone (\<lambda>_. None) (\<lambda>_. None) u st) =
    Inr (lone [m_sNick u \<mapsto> 2] [m_ui128IpHash u \<mapsto> \<lparr>m_pFirstUser = 2, m_ui16Count = 1\<rparr>] u st)"
  by (simp add: hm_add_def HM_Add_def lone_runs)

lemma bob_named:
  assumes "m_ui8State u = STATE_VALIDATE" and "m_pBan u = None" and "\<not> has_bits (m_ui32SupportBits u) SUPPORTBIT_QUICKLIST"
  shows "DcCommands_PreProcessData later login_env too_big 2 ''$ValidateNick bob|'' (lone (\<lambda>_. None) (\<lambda>_. None) u st) =
    Inr (lone [''bob'' \<mapsto> 2] [m_ui128IpHash u \<mapsto> \<lparr>m_pFirstUser = 2, m_ui16Count = 1\<rparr>]
      (u\<lparr>m_sNick := ''bob'', m_ui32NickHash := HashNick ''bob'', m_ui8Country := 253, m_ui8State := STATE_VERSION_OR_MYPASS,
         m_ui32BoolBits := m_ui32BoolBits u OR BIT_HASHED OR BIT_WAITING_FOR_PASS, m_CmdList := m_CmdList u @ [queued CMD_GETPASS]\<rparr>)
      (st(StatCmdValidate := st StatCmdValidate + 1)))"
  using assms
  by (simp add: DcCommands_PreProcessData_def in_validate_def MatchBytes_def ValidateNick_def ValidateUserNick_def SetNick_def
      bob_not_banned bob_registered bob_enters bob_country bob_alone ValidateUserNickFinally_def bob_added and_then_def bob_fields
      Arrival_def set_bits_def set_state_def CMD_GETPASS_def or.assoc)

section \<open>The password\<close>

lemma bob_reset: "set_reg 0 (\<lambda>r. r\<lparr>m_ui8BadPassCount := 0\<rparr>) (lone nt it u st) = Inr (lone nt it u st)"
proof -
  have "hmod 0 (\<lambda>r. r\<lparr>m_ui8BadPassCount := 0\<rparr>) [0 \<mapsto> bob_reg] = [0 \<mapsto> bob_reg\<lparr>m_ui8BadPassCount := 0\<rparr>]"
    by (simp add: hmod_def)
  then have "hwrite 0 (\<lambda>r. r\<lparr>m_ui8BadPassCount := 0\<rparr>) [0 \<mapsto> bob_reg] = Inr [0 \<mapsto> bob_reg]"
    by (simp add: hwrite_def bob_fields(5) del: fun_upd_apply) simp
  then show ?thesis by (simp add: set_reg_def bob_regs_def lone_def with_users_def)
qed

lemma bob_told:
  assumes "sb_alloc (m_SendBuf u)" and "sb_called (m_SendBuf u) = 0" and "length (sb_data (m_SendBuf u)) + length t \<le> sb_len (m_SendBuf u)"
    and "t \<noteq> []" and "length t < 128" and "\<not> isPastLogin (m_ui8State u)"
  shows "say login_env True 2 t (lone nt it u st) =
    Inr (lone nt it (u\<lparr>m_SendBuf := (m_SendBuf u)\<lparr>sb_called := 1, sb_data := sb_data (m_SendBuf u) @ t\<rparr>\<rparr>) st)"
  using assms by (simp add: say_def lone_runs SendFormat_def queue_text_def g_ui32ZMinDataLen_def put_and_send_def PutInSendBuf_def
      put_in_buf_def make_room_def reallocate_def append_data_def demo_flood_env_def demo_config_def Let_def)

lemma bob_password: "password_ok h bob_reg ''secret'' = Inr True"
  by (simp add: password_ok_def bob_fields pass_bytes_def bytes_of_def byte_of_def)

lemma bob_passed:
  assumes "m_ui8State u = STATE_VERSION_OR_MYPASS" and "m_sNick u = ''bob''" and "m_ui32NickHash u = HashNick ''bob''"
    and "has_bits (m_ui32BoolBits u) BIT_WAITING_FOR_PASS" and "has_bits (m_ui32BoolBits u) BIT_HASHED"
    and "\<not> has_bits (m_ui32SupportBits u) SUPPORTBIT_QUICKLIST" and "sb_alloc (m_SendBuf u)" and "sb_called (m_SendBuf u) = 0"
    and "length (sb_data (m_SendBuf u)) + 24 \<le> sb_len (m_SendBuf u)"
  shows "DcCommands_PreProcessData later login_env too_big 2 ''$MyPass secret|'' (lone nt it u st) =
    Inr (lone nt it (u\<lparr>m_i32Profile := 0, m_ui32BoolBits := m_ui32BoolBits u AND NOT BIT_WAITING_FOR_PASS OR BIT_OPERATOR,
        m_SendBuf := (m_SendBuf u)\<lparr>sb_called := 1, sb_data := sb_data (m_SendBuf u) @ ''$Hello bob|$LogedIn bob|''\<rparr>\<rparr>)
      (st(StatCmdMyPass := st StatCmdMyPass + 1)))"
proof -
  have h: "has_bits (w AND NOT BIT_WAITING_FOR_PASS) BIT_HASHED = has_bits w BIT_HASHED"
      "has_bits (w OR BIT_OPERATOR) BIT_HASHED = has_bits w BIT_HASHED" for w
    by (rule has_bits_clear_disjoint, simp add: user_bits) (rule has_bits_or_disjoint, simp add: user_bits)
  show ?thesis using assms
    by (simp add: DcCommands_PreProcessData_def in_version_or_mypass_def MatchBytes_def is_nicklist_def MyPass_def bob_found clear_bits_def
        bob_reg_at bob_password right_password_def bob_reset Let_def Arrival_def past_login_def isPastLogin_iff allowed_def IsAllowed_def
        HASKEYICON_def bob_fields set_bits_def kill_ghost_def h bob_told)
qed

end
