(* ===== verification/LoginRun.thy ===== *)
theory LoginRun
  imports LoginGuard LoginExample
begin

text \<open>
  The login as a whole: connections are taken in, the loops have their turns, and commands arrive, in any order.  Who
  comes in with a registered nick, or gets the rights of a profile, has sent that nick's password on his connection.
\<close>

section \<open>Runs\<close>

datatype event = Took_in addr | Said addr string

text \<open>What the connection at an address has said, the latest event first; an address may be used again.\<close>

fun said_by :: "addr \<Rightarrow> event list \<Rightarrow> string set" where
  "said_by b [] = {}"
| "said_by b (Took_in a # es) = (if a = b then {} else said_by b es)"
| "said_by b (Said a c # es) = (if a = b then insert c (said_by b es) else said_by b es)"

text \<open>
  A run up to the door: the commands of users who are logging in, and the turns of connections which are not yet
  handed to the user list.  No scripts run, the password hash is the same throughout; settings, texts, the sockets
  and the clock may change at any time.
\<close>

inductive login_run :: "pass_hash \<Rightarrow> server \<Rightarrow> event list \<Rightarrow> server \<Rightarrow> bool" for hash S0 where
  run_start: "login_run hash S0 [] S0"
| run_command: "login_run hash S0 es S \<Longrightarrow> no_scripts env \<Longrightarrow> se_HashPassword env = hash \<Longrightarrow>
    users_of (sv_hub S) a = Some u \<Longrightarrow> logging_in (m_ui8State u) \<Longrightarrow>
    DcCommands_PreProcessData later env too_big a c S = Inr S' \<Longrightarrow> login_run hash S0 (Said a c # es) S'"
| run_accept: "login_run hash S0 es S \<Longrightarrow> users_of (sv_hub S) a = None \<Longrightarrow>
    AcceptUser env proxies a sk sIP S = Inr (S', Accepted) \<Longrightarrow> login_run hash S0 (Took_in a # es) S'"
| run_refuse: "login_run hash S0 es S \<Longrightarrow> users_of (sv_hub S) a = None \<Longrightarrow>
    AcceptUser env proxies a sk sIP S = Inr (S', Refused m) \<Longrightarrow> login_run hash S0 es S'"
| run_receive: "login_run hash S0 es S \<Longrightarrow> users_of (sv_hub S) a = Some u \<Longrightarrow>
    m_ui8State u \<notin> {STATE_ADDME_1LOOP, STATE_ADDED} \<Longrightarrow> receive_turn later env rnd a S = Inr S' \<Longrightarrow> login_run hash S0 es S'"
| run_send: "login_run hash S0 es S \<Longrightarrow> users_of (sv_hub S) a = Some u \<Longrightarrow>
    m_ui8State u \<notin> {STATE_ADDME_2LOOP, STATE_ADDED} \<Longrightarrow> send_turn later env a S = Inr S' \<Longrightarrow> login_run hash S0 es S'"
| run_clock: "login_run hash S0 es S \<Longrightarrow> login_run hash S0 es (S\<lparr>m_ui64ActualTick := tick, sv_time := now\<rparr>)"

section \<open>The invariant along a run\<close>

definition has_proved :: "pass_hash \<Rightarrow> RegManager \<Rightarrow> event list \<Rightarrow> addr \<Rightarrow> string \<Rightarrow> bool" where
  "has_proved hash R es b n \<longleftrightarrow> (\<exists>c \<in> said_by b es. right_pass hash R n c)"

lemma sec_ok_mono: "sec_ok R P b u \<Longrightarrow> (\<And>n. P b n \<Longrightarrow> P' b n) \<Longrightarrow> sec_ok R P' b u"
  unfolding sec_ok_def by blast

lemma sec_inv_mono:
  "sec_inv R0 P S \<Longrightarrow> (\<And>b n. users_of (sv_hub S) b \<noteq> None \<Longrightarrow> P b n \<Longrightarrow> P' b n) \<Longrightarrow> sec_inv R0 P' S"
  unfolding sec_inv_def using sec_ok_mono by (metis option.distinct(1))

text \<open>The parts of a run that say nothing.\<close>

lemma find_full_mild: "always (find_full h S) (mildSp S)"
  unfolding find_full_def by (intro mildS_intros) auto

lemma new_user_ok:
  assumes "m_ui8State u = STATE_SOCKET_ACCEPTED" and "\<not> waiting u" and "m_i32Profile u = -1"
  shows "sec_ok R P a u"
  using assms by (simp add: sec_ok_def less_eq_UserStates_def isPastLogin_iff)

lemma AddUser_sec:
  assumes "sec_inv R0 P S" and "users_of (sv_hub S) a = None" and "sec_ok (sv_regs S) P' a u"
    and "\<And>b n. b \<noteq> a \<Longrightarrow> P b n \<Longrightarrow> P' b n"
  shows "sec_inv R0 P' (AddUser a u S)"
  using assms sec_ok_mono unfolding sec_inv_def AddUser_def Let_def by simp metis

lemma new_waiting: "\<not> waiting (SetIP t (new_user\<lparr>m_ui64LogonTick := k, m_ui128IpHash := h,
    m_ui32BoolBits := m_ui32BoolBits new_user OR (if v6 then BIT_IPV6 else BIT_IPV4), m_pBan := b\<rparr>))"
  by (simp add: waiting_def SetIP_def new_user_def has_bits_def user_bits BIT_IPV6_def)

lemma AcceptUser_keeps:
  assumes i: "sec_inv R0 P S" and free: "users_of (sv_hub S) a = None" and more: "\<And>b n. b \<noteq> a \<Longrightarrow> P b n \<Longrightarrow> P' b n"
  shows "always (AcceptUser env proxies a sk sIP S) (\<lambda>(S', r). case r of Accepted \<Rightarrow> sec_inv R0 P' S' | Refused m \<Rightarrow> sec_inv R0 P S')"
proof -
  let ?Q = "\<lambda>(S', r). case r of Accepted \<Rightarrow> sec_inv R0 P' S' | Refused m \<Rightarrow> sec_inv R0 P S'"
  have take: "always (take_in env proxies a sk sIP ban rb S1) ?Q" if m: "mildS S S1" for ban rb S1
  proof -
    have i1: "sec_inv R0 P (S1\<lparr>m_ui32Joins := j\<rparr>)" "sec_inv R0 P ((debug t S1)\<lparr>m_ui32Joins := j\<rparr>)" for j t
      using sec_inv_mild [OF m i] by (simp_all add: sec_inv_def debug_def)
    have f1: "users_of (sv_hub S1) a = None"
      using m free unfolding mildS_def mild_def mild_heap_def by (metis not_Some_eq)
    have "sec_inv R0 P' (AddUser a (SetIP t (new_user\<lparr>m_ui64LogonTick := k, m_ui128IpHash := h,
        m_ui32BoolBits := m_ui32BoolBits new_user OR (if v6 then BIT_IPV6 else BIT_IPV4), m_pBan := b\<rparr>)) S2)"
      if "sec_inv R0 P S2" "users_of (sv_hub S2) a = None" for t k h v6 b S2
      by (rule AddUser_sec [OF that new_user_ok more])
        (use new_waiting in \<open>simp_all add: SetIP_def new_user_def blank_user_def\<close>)
    then show ?thesis using i1 f1 unfolding take_in_def Let_def
      by (intro after_read) (simp add: debug_def)
  qed
  have ref: "always (rbind (g :: string res) (\<lambda>m. Inr (S1, Refused m))) ?Q" if m: "mildS S S1" for g S1
    by (intro after_read) (simp add: sec_inv_mild [OF m i])
  have rng: "mildS S S2" if "mildS S S1" "find_full_range h S1 = (S2, rb)" for S1 S2 h rb
    using that by (auto simp: find_full_range_def mildS_def split: prod.splits)
  have red: "always (redirect_all env S) ?Q"
    using i by (simp add: redirect_all_def Let_def sec_inv_def)
  show ?thesis
  proof (cases "m_bBools env SETBOOL_REDIRECT_ALL")
    case True with red show ?thesis by (simp add: AcceptUser_def)
  next
    case False
    show ?thesis unfolding AcceptUser_def if_not_P [OF False]
      by (intro then_always(2) [OF find_full_mild]) (auto simp del: safe_rbind intro!: take ref split: option.splits prod.splits dest: rng)
  qed
qed

lemma debug_mild [simp]: "mildS S (debug t S') = mildS S S'"
  by (simp add: debug_def mildS_def)

lemma closing_turn_mild [mildS_intros]: "mildS S0 S \<Longrightarrow> always (closing_turn env a S) (mildS S0)"
proof -
  have "always (in_hub (\<lambda>H. rbind (Try2Send cfg sock a H) (\<lambda>(H1, _). Inr H1)) S) (mildS S)" for cfg sock S
    by (intro in_hub_mildS mild_intros) auto
  note p = mildS_rule [OF this]
  assume "mildS S0 S"
  then show ?thesis unfolding closing_turn_def set_state_def
    by (intro mildS_intros p) (auto simp: kept_def sec_def isPastLogin_iff)
qed

lemma RemUser_mild [mildS_intros]: "mildS S0 S \<Longrightarrow> always (RemUser a S) (mildS S0)"
  unfolding RemUser_def Let_def by (intro mildS_intros) (auto simp: mildS_def mild_def mild_heap_def)

lemma timeout_close_mild [mildS_intros]: "mildS S0 S \<Longrightarrow> always (timeout_close env t a S) (mildS S0)"
  unfolding timeout_close_def by (intro mildS_intros) simp

text \<open>From the state before the door on.\<close>

lemma to_door:
  assumes "sec_inv R0 P S" and "about a (cleared (P a)) S" and "about a (\<lambda>R u. \<not> waiting u) S" and "s = STATE_ADDME \<or> s = STATE_ADDME_1LOOP"
  shows "always (set_state a s S) (sec_inv R0 P)"
  using assms by (intro to_state) (auto simp: about_def sec_ok_def cleared_def waiting_def less_eq_UserStates_def isPastLogin_iff)

lemma receive_turn_keeps:
  assumes i: "sec_inv R0 P S" and u: "users_of (sv_hub S) a = Some u" and st: "m_ui8State u \<notin> {STATE_ADDME_1LOOP, STATE_ADDED}"
  shows "always (receive_turn later env rnd a S) (sec_inv R0 P)"
proof -
  have un: "user_of a S = Inr u" using u by simp
  have ok: "sec_ok (sv_regs S) P a u" using i u by (simp add: sec_inv_def)
  have idle: "always (Inr S) (sec_inv R0 P)" using i by simp
  have mild: "always m (sec_inv R0 P)" if "always m (mildS S)" for m by (rule mild_keeps [OF that i])
  have accepted: "always (mod_user a (\<lambda>u. (MakeLock rnd u)\<lparr>m_ui8State := STATE_KEY_OR_SUP\<rparr>) S) (sec_inv R0 P)"
    if "m_ui8State u = STATE_SOCKET_ACCEPTED"
    using i ok that u by (auto intro!: sec_inv_updS simp: sec_ok_def MakeLock_def Let_def waiting_def less_eq_UserStates_def isPastLogin_iff)
  have door: "always (set_state a s S1) (sec_inv R0 P)"
    if "m_ui8State u = STATE_IPV4_CHECK \<or> m_ui8State u = STATE_ADDME" "mildS S S1" "s = STATE_ADDME \<or> s = STATE_ADDME_1LOOP" for S1 s
  proof -
    have nw: "stable (\<lambda>R u. \<not> waiting u)" unfolding stable_def using kept_fields by metis
    have "about a (cleared (P a)) S" "about a (\<lambda>R u. \<not> waiting u) S"
      using ok that(1) u by (auto simp: about_def sec_ok_def cleared_def less_eq_UserStates_def isPastLogin_iff)
    then show ?thesis using that sec_inv_mild [OF that(2) i] about_mild [OF _ that(2)] nw by (intro to_door) simp_all
  qed
  have addme: "always (rbind (say env d a t S) (set_state a STATE_ADDME_1LOOP)) (sec_inv R0 P)" if "m_ui8State u = STATE_ADDME" for d t
    by (rule then_always(1) [OF hub_lift_mild(2) [OF mildS_refl] door]) (simp_all add: that)
  have ipv4: "always (set_state a STATE_ADDME (debug t S)) (sec_inv R0 P)" if "m_ui8State u = STATE_IPV4_CHECK" for t
    by (rule door) (simp_all add: that)
  note turn = mild [OF timeout_close_mild [OF mildS_refl]] mild [OF closing_turn_mild [OF mildS_refl]] mild [OF RemUser_mild [OF mildS_refl]]
  show ?thesis
    unfolding receive_turn_def un rbind.simps Let_def
    using st i
    by (cases "m_ui8State u") (simp_all del: safe_rbind always_mod_user add: turn accepted addme ipv4)
qed

lemma send_turn_keeps:
  assumes i: "sec_inv R0 P S" and u: "users_of (sv_hub S) a = Some u" and st: "m_ui8State u \<notin> {STATE_ADDME_2LOOP, STATE_ADDED}"
  shows "always (send_turn later env a S) (sec_inv R0 P)"
proof -
  have un: "user_of a S = Inr u" using u by simp
  have "always (in_hub (\<lambda>H. rbind (Try2Send cfg sock a H) (\<lambda>(H1, _). Inr H1)) S) (mildS S)" for cfg sock
    by (intro in_hub_mildS mild_intros) auto
  from mild_keeps [OF this i] show ?thesis unfolding send_turn_def un rbind.simps using st i
    by (cases "m_ui8State u") simp_all
qed

section \<open>Nobody comes in without the password\<close>

lemma login_run_inv:
  assumes "login_run hash S0 es S" and "\<forall>b. users_of (sv_hub S0) b = None"
  shows "sec_inv (sv_regs S0) (has_proved hash (sv_regs S0) es) S"
  using assms
proof (induction rule: login_run.induct)
  case run_start
  then show ?case by (simp add: sec_inv_def)
next
  case (run_command es S env a u later too_big c S')
  let ?P = "has_proved hash (sv_regs S0) (Said a c # es)"
  have i: "sec_inv (sv_regs S0) ?P S"
    by (rule sec_inv_mono [OF run_command.IH [OF run_command.prems]]) (auto simp: has_proved_def)
  have r: "?P a n" if "right_pass (se_HashPassword env) (sv_regs S) n c" for n
    using that run_command.hyps(3) i right_pass_same [of "sv_regs S0" "sv_regs S"] by (auto simp: has_proved_def sec_inv_def)
  have "about a (in_state logging_in) S" using run_command.hyps(4,5) by (simp add: about_def in_state_def)
  from PreProcessData_keeps [OF run_command.hyps(2) i this r] run_command.hyps(6) show ?case by (metis safe_InrD)
next
  case (run_accept es S a env proxies sk sIP S')
  have more: "has_proved hash (sv_regs S0) es b n \<Longrightarrow> has_proved hash (sv_regs S0) (Took_in a # es) b n" if "b \<noteq> a" for b n
    using that by (simp add: has_proved_def)
  from AcceptUser_keeps [where P' = "has_proved hash (sv_regs S0) (Took_in a # es)", OF run_accept.IH [OF run_accept.prems] run_accept.hyps(2) more]
    run_accept.hyps(3) show ?case by (force dest: safe_InrD)
next
  case (run_refuse es S env proxies a sk sIP S' m)
  note i = run_refuse.IH [OF run_refuse.prems]
  from AcceptUser_keeps [OF i run_refuse.hyps(2), where P' = "has_proved hash (sv_regs S0) es"] run_refuse.hyps(3) show ?case
    by (force dest: safe_InrD)
next
  case (run_receive es S a u later env rnd S')
  from receive_turn_keeps [OF run_receive.IH [OF run_receive.prems] run_receive.hyps(2,3)] run_receive.hyps(4)
  show ?case by (metis safe_InrD)
next
  case (run_send es S a u later env S')
  from send_turn_keeps [OF run_send.IH [OF run_send.prems] run_send.hyps(2,3)] run_send.hyps(4)
  show ?case by (metis safe_InrD)
next
  case (run_clock es S tick now)
  then show ?case by (simp add: sec_inv_def)
qed


text \<open>The login of \<open>LoginExample\<close> is such a run.\<close>

lemma fresh_bob_state: "m_ui8State fresh_bob = STATE_SOCKET_ACCEPTED"
  by (simp add: fresh_bob_def SetIP_def new_user_def blank_user_def)

lemma locked_bob_fields:
  "m_ui8State locked_bob = STATE_KEY_OR_SUP" "\<not> has_bits (m_ui32BoolBits locked_bob) BIT_HAVE_SUPPORTS" "m_pBan locked_bob = None"
  "m_ui32SupportBits locked_bob = 0" "sb_alloc (m_SendBuf locked_bob)" "sb_called (m_SendBuf locked_bob) = 0"
  "length (sb_data (m_SendBuf locked_bob)) = 63" "sb_len (m_SendBuf locked_bob) = 94"
  by (simp_all add: locked_bob_def fresh_bob_def SetIP_def new_user_def blank_user_def MakeLock_def Let_def has_bits_def user_bits BIT_IPV6_def
      empty_buf_def lock_text_def Allign_def)

abbreviation bob_events :: "event list" where
  "bob_events \<equiv> [Said 2 ''$MyPass secret|'', Said 2 ''$ValidateNick bob|'', Said 2 ''$Supports NoHello|'', Took_in 2]"

lemma bob_run:
  "\<exists>nt it u st. login_run (\<lambda>_. None) (with_users hm_init 0 100 (\<lambda>_. 0)) bob_events (lone nt it u st) \<and> m_i32Profile u = 0"
proof -
  let ?run = "login_run (\<lambda>_. None) (with_users hm_init 0 100 (\<lambda>_. 0))" and ?w = "\<lambda>k. with_users (hm_init\<lparr>hm_users := [2 \<mapsto> fresh_bob]\<rparr>) 1 k (\<lambda>_. 0)"
  have env: "no_scripts login_env" "se_HashPassword login_env = (\<lambda>_. None)" by (simp_all add: no_scripts_def)
  have at: "users_of (sv_hub (lone nt it u st)) 2 = Some u" for nt it u st by simp
  have 1: "?run [Took_in 2] (?w 100)"
    by (rule run_accept [OF run_start _ bob_accepted]) (simp add: with_users_def hm_init_def)
  have 2: "?run [Took_in 2] (?w 101)" using run_clock [OF 1, where tick = 101 and now = 1000] by (simp only: bob_clock)
  have 3: "?run [Took_in 2] (lone (\<lambda>_. None) (\<lambda>_. None) locked_bob (\<lambda>_. 0))"
    by (rule run_receive [where u = fresh_bob, OF 2 _ _ bob_locked [where later = "\<lambda>_. Inr"]])
       (simp_all add: with_users_def hm_init_def fresh_bob_state)
  note 4 = run_command [OF 3 env at _ bob_supports [where later = "\<lambda>_ _. Inr" and too_big = "\<lambda>_. 0"]]
  have 5: "\<exists>u. ?run [Said 2 ''$Supports NoHello|'', Took_in 2] (lone (\<lambda>_. None) (\<lambda>_. None) u ((\<lambda>_. 0)(StatCmdSupports := 1)))
      \<and> m_ui8State u = STATE_VALIDATE \<and> m_pBan u = None \<and> m_ui32SupportBits u = SUPPORTBIT_NOHELLO \<and> m_SendBuf u = m_SendBuf locked_bob"
    using 4 locked_bob_fields by (force simp: logging_in_def less_UserStates_def)
  then obtain u5 where 5: "?run [Said 2 ''$Supports NoHello|'', Took_in 2] (lone (\<lambda>_. None) (\<lambda>_. None) u5 ((\<lambda>_. 0)(StatCmdSupports := 1)))"
    "m_ui8State u5 = STATE_VALIDATE" "m_pBan u5 = None" "m_ui32SupportBits u5 = SUPPORTBIT_NOHELLO" "m_SendBuf u5 = m_SendBuf locked_bob" by blast
  have q: "\<not> has_bits SUPPORTBIT_NOHELLO SUPPORTBIT_QUICKLIST" by (simp add: has_bits_def SUPPORTBIT_NOHELLO_def SUPPORTBIT_QUICKLIST_def)
  note 6 = run_command [OF 5(1) env at _ bob_named [where later = "\<lambda>_ _. Inr" and too_big = "\<lambda>_. 0"]]
  have h: "has_bits (w OR BIT_HASHED OR BIT_WAITING_FOR_PASS) BIT_HASHED" "has_bits (w OR BIT_HASHED OR BIT_WAITING_FOR_PASS) BIT_WAITING_FOR_PASS" for w
    by (metis has_bits_or or.assoc or.commute)+
  obtain nt it u st where 7: "?run [Said 2 ''$ValidateNick bob|'', Said 2 ''$Supports NoHello|'', Took_in 2] (lone nt it u st)"
    "m_ui8State u = STATE_VERSION_OR_MYPASS" "m_sNick u = ''bob''" "m_ui32NickHash u = HashNick ''bob''"
    "has_bits (m_ui32BoolBits u) BIT_WAITING_FOR_PASS" "has_bits (m_ui32BoolBits u) BIT_HASHED"
    "m_ui32SupportBits u = SUPPORTBIT_NOHELLO" "m_SendBuf u = m_SendBuf locked_bob"
    using 6 5(2-) q h by (force simp: logging_in_def less_UserStates_def)
  from run_command [OF 7(1) env at _ bob_passed [where later = "\<lambda>_ _. Inr" and too_big = "\<lambda>_. 0"]] 7(2-) q locked_bob_fields
  show ?thesis by (force simp: logging_in_def less_UserStates_def)
qed


end
