(* ===== verification/UserLists.thy ===== *)
theory UserLists
  imports UserClose
begin

text \<open>
  The lists of users as texts (\<open>core/colUsers.cpp\<close>): nicks, operators, addresses and announcements, each in a buffer
  that grows by a fixed step, with its length, its size and the compressed copy that stands for it as long as it does
  not change.  Lengths are natural numbers: no list comes near four gigabytes.
\<close>

section \<open>Buffers\<close>

text \<open>The vector has \<open>tl_size + 1\<close> characters; \<open>tl_z\<close> is the compressed copy, present when its length is not zero.\<close>

record text_list =
  tl_buf :: string
  tl_len :: nat
  tl_size :: nat
  tl_z :: "string option"

definition tl_text :: "text_list \<Rightarrow> string" where
  "tl_text l = take (tl_len l) (tl_buf l)"

definition resize :: "nat \<Rightarrow> string \<Rightarrow> string" where
  "resize n b = take n b @ replicate (n - length b) (CHR 0x00)"

definition put :: "nat \<Rightarrow> string \<Rightarrow> string \<Rightarrow> string res" where
  "put off t b = (if off + length t \<le> length b then Inr (blit b off t) else Inl BufferOverflow)"

definition memmove :: "nat \<Rightarrow> nat \<Rightarrow> nat \<Rightarrow> string \<Rightarrow> string res" where
  "memmove dst src n b =
     (if dst + n \<le> length b \<and> src + n \<le> length b then Inr (blit b dst (take n (drop src b))) else Inl BufferOverflow)"

text \<open>The first place of a text in another.\<close>

fun memmem :: "string \<Rightarrow> string \<Rightarrow> nat option" where
  "memmem n [] = (if n = [] then Some 0 else None)"
| "memmem n (c # s) = (if take (length n) (c # s) = n then Some 0 else map_option Suc (memmem n s))"

text \<open>
  A text printed into the global buffer and then used with the length \<open>snprintf\<close> returned: at the size of the
  buffer its last character is the NUL, beyond it the use runs over the end.
\<close>

definition printed :: "nat \<Rightarrow> string \<Rightarrow> string res" where
  "printed sz t = (if length t > sz then Inl BufferOverflow else Inr (if length t = sz then butlast t @ [CHR 0x00] else t))"

definition grow :: "nat \<Rightarrow> nat \<Rightarrow> text_list \<Rightarrow> text_list" where
  "grow step need l =
     (if tl_size l < need then l\<lparr>tl_buf := resize (tl_size l + step + 1) (tl_buf l), tl_size := tl_size l + step\<rparr> else l)"

section \<open>Lists of names\<close>

definition NICKLISTSIZE :: nat where "NICKLISTSIZE = 8192"
definition OPLISTSIZE :: nat where "OPLISTSIZE = 512"
definition g_ui32IpListSize :: nat where "g_ui32IpListSize = 65536"
definition g_ui32MyInfoListSize :: nat where "g_ui32MyInfoListSize = 262144"

text \<open>A name with two dollars goes in place of the closing pipe, which is put behind it.\<close>

definition add_item :: "nat \<Rightarrow> string \<Rightarrow> text_list \<Rightarrow> text_list res" where
  "add_item step t l =
     (let l1 = grow step (tl_len l + length t + 2) l in
      rbind (put (tl_len l - 1) (t @ ''$$|'' @ [CHR 0x00]) (tl_buf l1)) (\<lambda>b.
        Inr (l1\<lparr>tl_buf := b, tl_len := tl_len l + length t + 2, tl_z := None\<rparr>)))"

text \<open>
  A name is looked for between dollars, with the space of the header made a dollar meanwhile; what follows the
  first one found is moved over it.
\<close>

definition del_item :: "nat \<Rightarrow> nat \<Rightarrow> string \<Rightarrow> text_list \<Rightarrow> text_list res" where
  "del_item sz hdr t l =
     rbind (printed sz (''$'' @ t @ ''$'')) (\<lambda>needle.
     rbind (put hdr ''$'' (tl_buf l)) (\<lambda>b1.
     rbind (put hdr '' '' b1) (\<lambda>b2.
       if tl_len l > length b1 then Inl BufferOverflow
       else case memmem needle (take (tl_len l) b1) of
         None \<Rightarrow> Inr (l\<lparr>tl_buf := b2\<rparr>)
       | Some i \<Rightarrow>
           rbind (memmove (i + 1) (i + length needle + 1) (tl_len l - (i + length needle)) b2) (\<lambda>b3.
             Inr (l\<lparr>tl_buf := b3, tl_len := tl_len l - length needle, tl_z := None\<rparr>)))))"

section \<open>Lists of announcements\<close>

definition add_info :: "string \<Rightarrow> text_list \<Rightarrow> text_list res" where
  "add_info t l =
     (let l1 = grow g_ui32MyInfoListSize (tl_len l + length t) l in
      rbind (put (tl_len l) (t @ [CHR 0x00]) (tl_buf l1)) (\<lambda>b.
        Inr (l1\<lparr>tl_buf := b, tl_len := tl_len l + length t, tl_z := None\<rparr>)))"

text \<open>
  The announcement is looked for without its first eight characters, and they are moved over with it; of a shorter
  one the length wraps and nothing is found.
\<close>

definition cut_info :: "nat \<Rightarrow> string \<Rightarrow> text_list \<Rightarrow> text_list res" where
  "cut_info skip t l =
     (if tl_len l > length (tl_buf l) then Inl BufferOverflow
      else case (if length t < skip then None else memmem (drop skip t) (tl_text l)) of
        None \<Rightarrow> Inr l
      | Some i \<Rightarrow>
          if i < skip then Inl BufferOverflow
          else rbind (memmove (i - skip) (i - skip + length t) (tl_len l - (i - skip + (length t - 1))) (tl_buf l)) (\<lambda>b.
            Inr (l\<lparr>tl_buf := b, tl_len := tl_len l - length t, tl_z := None\<rparr>)))"

text \<open>A bot's announcement is added once.\<close>

definition add_bot_info :: "string \<Rightarrow> text_list \<Rightarrow> text_list res" where
  "add_bot_info t l =
     (if memmem t (tl_text l) \<noteq> None then Inr l
      else
        let l1 = grow g_ui32MyInfoListSize (tl_len l + length t) l in
        rbind (put (tl_len l) (t @ [CHR 0x00]) (tl_buf l1)) (\<lambda>b.
          Inr (l1\<lparr>tl_buf := b, tl_len := tl_len l + length t\<rparr>)))"

section \<open>The lists of the hub\<close>

record Users =
  m_NickTexts :: text_list
  m_OpTexts :: text_list
  m_UserIPTexts :: text_list
  m_InfoTexts :: text_list
  m_TagTexts :: text_list
  m_AllExtJSON :: string

definition new_list :: "nat \<Rightarrow> string \<Rightarrow> text_list" where
  "new_list n hdr = \<lparr>tl_buf = resize n hdr, tl_len = length hdr, tl_size = n - 1, tl_z = None\<rparr>"

definition no_list :: text_list where
  "no_list = \<lparr>tl_buf = [], tl_len = 0, tl_size = 0, tl_z = None\<rparr>"

text \<open>With the full announcements only, or the short ones only, the other list stays empty.\<close>

definition new_Users :: "nat \<Rightarrow> Users" where
  "new_Users ui8FullMyINFOOption =
     \<lparr>m_NickTexts = new_list NICKLISTSIZE ''$NickList |'', m_OpTexts = new_list OPLISTSIZE ''$OpList |'',
      m_UserIPTexts = new_list g_ui32IpListSize ''$UserIP |'',
      m_InfoTexts = (if ui8FullMyINFOOption \<noteq> 0 then new_list g_ui32MyInfoListSize [] else no_list),
      m_TagTexts = (if ui8FullMyINFOOption \<noteq> 2 then new_list g_ui32MyInfoListSize [] else no_list),
      m_AllExtJSON = []\<rparr>"

definition on_nicks :: "(text_list \<Rightarrow> text_list res) \<Rightarrow> Users \<Rightarrow> Users res" where
  "on_nicks f U = rbind (f (m_NickTexts U)) (\<lambda>l. Inr (U\<lparr>m_NickTexts := l\<rparr>))"

definition on_ops :: "(text_list \<Rightarrow> text_list res) \<Rightarrow> Users \<Rightarrow> Users res" where
  "on_ops f U = rbind (f (m_OpTexts U)) (\<lambda>l. Inr (U\<lparr>m_OpTexts := l\<rparr>))"

definition on_ips :: "(text_list \<Rightarrow> text_list res) \<Rightarrow> Users \<Rightarrow> Users res" where
  "on_ips f U = rbind (f (m_UserIPTexts U)) (\<lambda>l. Inr (U\<lparr>m_UserIPTexts := l\<rparr>))"

definition on_infos :: "(text_list \<Rightarrow> text_list res) \<Rightarrow> Users \<Rightarrow> Users res" where
  "on_infos f U = rbind (f (m_InfoTexts U)) (\<lambda>l. Inr (U\<lparr>m_InfoTexts := l\<rparr>))"

definition on_tags :: "(text_list \<Rightarrow> text_list res) \<Rightarrow> Users \<Rightarrow> Users res" where
  "on_tags f U = rbind (f (m_TagTexts U)) (\<lambda>l. Inr (U\<lparr>m_TagTexts := l\<rparr>))"

definition shows_key :: "User \<Rightarrow> bool" where
  "shows_key u \<longleftrightarrow> has_bits (m_ui32BoolBits u) BIT_OPERATOR \<and> \<not> has_bits (m_ui32InfoBits u) INFOBIT_HIDE_KEY"

definition AddBot2NickList :: "string \<Rightarrow> bool \<Rightarrow> Users \<Rightarrow> Users res" where
  "AddBot2NickList sNick bIsOp U =
     rbind (on_nicks (add_item NICKLISTSIZE sNick) U) (\<lambda>U1.
       if bIsOp then on_ops (add_item OPLISTSIZE sNick) U1 else Inr U1)"

definition Add2NickList :: "User \<Rightarrow> Users \<Rightarrow> Users res" where
  "Add2NickList u U =
     rbind (on_nicks (add_item NICKLISTSIZE (m_sNick u)) U) (\<lambda>U1.
       if shows_key u then on_ops (add_item OPLISTSIZE (m_sNick u)) U1 else Inr U1)"

definition Users_Add2OpList :: "User \<Rightarrow> Users \<Rightarrow> Users res" where
  "Users_Add2OpList u = on_ops (add_item OPLISTSIZE (m_sNick u))"

definition Users_DelFromOpList :: "nat \<Rightarrow> string \<Rightarrow> Users \<Rightarrow> Users res" where
  "Users_DelFromOpList sz sNick = on_ops (del_item sz 7 sNick)"

definition Users_DelFromNickList :: "nat \<Rightarrow> string \<Rightarrow> bool \<Rightarrow> Users \<Rightarrow> Users res" where
  "Users_DelFromNickList sz sNick bIsOp U =
     rbind (on_nicks (del_item sz 9 sNick) U) (\<lambda>U1.
       if bIsOp then on_ops (del_item sz 7 sNick) U1 else Inr U1)"

definition ip_item :: "User \<Rightarrow> string" where
  "ip_item u = m_sNick u @ '' '' @ m_sIP u"

definition Add2UserIP :: "nat \<Rightarrow> User \<Rightarrow> Users \<Rightarrow> Users res" where
  "Add2UserIP sz u U =
     rbind (printed sz (''$'' @ ip_item u @ ''$'')) (\<lambda>p. on_ips (add_item g_ui32IpListSize (butlast (tl p))) U)"

definition Users_DelFromUserIP :: "nat \<Rightarrow> User \<Rightarrow> Users \<Rightarrow> Users res" where
  "Users_DelFromUserIP sz u = on_ips (del_item sz 7 (ip_item u))"

text \<open>The announcements of clients that send them as JSON are kept in one text.\<close>

definition Add2ExtJSON :: "string option \<Rightarrow> Users \<Rightarrow> Users" where
  "Add2ExtJSON ext U =
     (case ext of
        None \<Rightarrow> U
      | Some t \<Rightarrow> if memmem t (m_AllExtJSON U) = None then U\<lparr>m_AllExtJSON := m_AllExtJSON U @ t\<rparr> else U)"

definition Users_DelFromExtJSONInfos :: "string option \<Rightarrow> Users \<Rightarrow> Users" where
  "Users_DelFromExtJSONInfos ext U =
     (case ext of
        None \<Rightarrow> U
      | Some t \<Rightarrow>
          (case memmem t (m_AllExtJSON U) of
             None \<Rightarrow> U
           | Some i \<Rightarrow> U\<lparr>m_AllExtJSON := take i (m_AllExtJSON U) @ drop (i + length t) (m_AllExtJSON U)\<rparr>))"

definition Add2MyInfos :: "string option \<Rightarrow> User \<Rightarrow> Users \<Rightarrow> Users res" where
  "Add2MyInfos ext u U = rbind (on_infos (add_info (m_sMyInfoShort u)) U) (\<lambda>U1. Inr (Add2ExtJSON ext U1))"

definition Add2MyInfosTag :: "string option \<Rightarrow> User \<Rightarrow> Users \<Rightarrow> Users res" where
  "Add2MyInfosTag ext u U = rbind (on_tags (add_info (m_sMyInfoLong u)) U) (\<lambda>U1. Inr (Add2ExtJSON ext U1))"

definition Users_DelFromMyInfos :: "string option \<Rightarrow> User \<Rightarrow> Users \<Rightarrow> Users res" where
  "Users_DelFromMyInfos ext u U = on_infos (cut_info 8 (m_sMyInfoShort u)) (Users_DelFromExtJSONInfos ext U)"

definition Users_DelFromMyInfosTag :: "string option \<Rightarrow> User \<Rightarrow> Users \<Rightarrow> Users res" where
  "Users_DelFromMyInfosTag ext u U = on_tags (cut_info 8 (m_sMyInfoLong u)) (Users_DelFromExtJSONInfos ext U)"

text \<open>Adding a bot to one list forgets the compressed copy of the other one.\<close>

definition AddBot2MyInfos :: "string \<Rightarrow> Users \<Rightarrow> Users res" where
  "AddBot2MyInfos sMyInfo U =
     rbind (if tl_buf (m_TagTexts U) = [] \<or> memmem sMyInfo (tl_text (m_TagTexts U)) \<noteq> None then Inr U
            else rbind (on_tags (add_bot_info sMyInfo) U) (\<lambda>U1.
                   Inr (U1\<lparr>m_InfoTexts := (m_InfoTexts U1)\<lparr>tl_z := None\<rparr>\<rparr>))) (\<lambda>U2.
       if tl_buf (m_InfoTexts U2) = [] \<or> memmem sMyInfo (tl_text (m_InfoTexts U2)) \<noteq> None then Inr U2
       else rbind (on_infos (add_bot_info sMyInfo) U2) (\<lambda>U3.
              Inr (U3\<lparr>m_TagTexts := (m_TagTexts U3)\<lparr>tl_z := None\<rparr>\<rparr>)))"

definition DelBotFromMyInfos :: "string \<Rightarrow> Users \<Rightarrow> Users res" where
  "DelBotFromMyInfos sMyInfo U =
     rbind (if tl_buf (m_TagTexts U) = [] then Inr U else on_tags (cut_info 0 sMyInfo) U) (\<lambda>U1.
       if tl_buf (m_InfoTexts U1) = [] then Inr U1 else on_infos (cut_info 0 sMyInfo) U1)"

end
