(* ===== verification/UserListsSpec.thy ===== *)
theory UserListsSpec
  imports UserLists
begin

text \<open>
  What the lists of names hold: the text of a sequence of names, to which adding appends and from which deleting
  takes the first occurrence, along any sequence of operations.
\<close>

section \<open>The contract\<close>

locale listed_names =
  fixes holds :: "string list \<Rightarrow> 's \<Rightarrow> bool"
    and add_it :: "string \<Rightarrow> 's \<Rightarrow> 's res"
    and del_it :: "string \<Rightarrow> 's \<Rightarrow> 's res"
    and proper :: "string \<Rightarrow> bool"
  assumes add_law: "holds ns l \<Longrightarrow> \<forall>m \<in> set ns. proper m \<Longrightarrow> proper n \<Longrightarrow> \<exists>l'. add_it n l = Inr l' \<and> holds (ns @ [n]) l'"
    and del_law: "holds ns l \<Longrightarrow> \<forall>m \<in> set ns. proper m \<Longrightarrow> proper n \<Longrightarrow> \<exists>l'. del_it n l = Inr l' \<and> holds (remove1 n ns) l'"
begin

primrec run_names :: "(bool \<times> string) list \<Rightarrow> 's \<Rightarrow> 's res" where
  "run_names [] l = Inr l"
| "run_names (op # ops) l = rbind (if fst op then add_it (snd op) l else del_it (snd op) l) (run_names ops)"

lemma run_names_holds:
  assumes "holds ns l" and "\<forall>m \<in> set ns. proper m" and "\<forall>op \<in> set ops. proper (snd op)"
  shows "\<exists>l'. run_names ops l = Inr l'
    \<and> holds (fold (\<lambda>(b, n) ms. if b then ms @ [n] else remove1 n ms) ops ns) l'"
  using assms
proof (induction ops arbitrary: ns l)
  case (Cons op ops)
  obtain b n where op: "op = (b, n)" by fastforce
  let ?ns = "if b then ns @ [n] else remove1 n ns"
  have "\<forall>m \<in> set ?ns. proper m" using Cons.prems op by (auto dest: notin_set_remove1)
  moreover obtain l1 where "(if b then add_it n l else del_it n l) = Inr l1" "holds ?ns l1"
    using add_law [OF Cons.prems(1,2), of n] del_law [OF Cons.prems(1,2), of n] Cons.prems(3) op by (cases b) auto
  ultimately show ?case using Cons.IH [of ?ns l1] Cons.prems(3) op by (cases b) simp_all
qed simp

end

section \<open>Finding a name between dollars\<close>

definition items :: "string list \<Rightarrow> string" where
  "items ts = concat (map (\<lambda>t. t @ ''$$'') ts)"

lemma items_simps [simp]: "items [] = []" "items (t # ts) = t @ ''$$'' @ items ts" "items (ts @ us) = items ts @ items us"
  by (simp_all add: items_def)

abbreviation between :: "string \<Rightarrow> string" where
  "between t \<equiv> ''$'' @ t @ ''$''"

lemma memmem_over:
  "CHR ''$'' \<notin> set s \<Longrightarrow> memmem (CHR ''$'' # n) (s @ r) = map_option (\<lambda>i. i + length s) (memmem (CHR ''$'' # n) r)"
  by (induction s) (auto simp: option.map_comp comp_def option.map_ident)

lemma mark_cut:
  assumes "m \<notin> set s" and "m \<notin> set t" and "take (length t + 1) (s @ m # r) = t @ [m]"
  shows "s = t"
proof -
  have "s @ m # r = take (length t + 1) (s @ m # r) @ drop (length t + 1) (s @ m # r)"
    by (simp only: append_take_drop_id)
  then have "s @ m # r = t @ m # drop (length t + 1) (s @ m # r)" by (simp only: assms(3)) simp
  then have "takeWhile (\<lambda>c. c \<noteq> m) (s @ m # r) = takeWhile (\<lambda>c. c \<noteq> m) (t @ m # drop (length t + 1) (s @ m # r))"
    by simp
  with assms(1,2) show ?thesis by (auto simp: takeWhile_append split: if_splits)
qed

lemma memmem_name:
  assumes "CHR ''$'' \<notin> set s" and "CHR ''$'' \<notin> set t"
  shows "memmem (between t) (''$'' @ s @ ''$'' @ r) =
    (if s = t then Some 0 else map_option (\<lambda>i. i + length s + 1) (memmem (between t) (''$'' @ r)))"
proof (cases "s = t")
  case False
  with mark_cut [OF assms] have "take (length (between t)) (''$'' @ s @ ''$'' @ r) \<noteq> between t" by auto
  with False memmem_over [OF assms(1), of "t @ ''$''" "CHR ''$'' # r"] show ?thesis
    by (auto simp: option.map_comp comp_def)
qed simp

definition proper_name :: "string \<Rightarrow> string \<Rightarrow> bool" where
  "proper_name w t \<longleftrightarrow> t \<noteq> [] \<and> CHR ''$'' \<notin> set t \<and> t \<noteq> w"

lemma memmem_items:
  assumes "t \<noteq> []" and "CHR ''$'' \<notin> set t" and "\<forall>s \<in> set ts. CHR ''$'' \<notin> set s"
  shows "memmem (between t) (''$'' @ items ts @ ''|'') =
    (if t \<in> set ts then Some (length (items (takeWhile (\<lambda>s. s \<noteq> t) ts))) else None)"
  using assms(3)
proof (induction ts)
  case Nil
  from assms(1) have "length (between t) > 2" by (cases t) auto
  then show ?case by auto
next
  case (Cons s ts)
  have "memmem (between t) (''$'' @ items (s # ts) @ ''|'') =
      (if s = t then Some 0 else map_option (\<lambda>i. i + length s + 1) (memmem (between t) (''$'' @ ''$'' @ items ts @ ''|'')))"
    using memmem_name [of s t "''$'' @ items ts @ ''|''"] assms(2) Cons.prems by simp
  also have "memmem (between t) (''$'' @ ''$'' @ items ts @ ''|'') = map_option Suc (memmem (between t) (''$'' @ items ts @ ''|''))"
    using memmem_name [of "[]" t "items ts @ ''|''"] assms(1,2) by simp
  finally show ?case using Cons by (auto simp: option.map_comp comp_def)
qed

section \<open>The buffer\<close>

text \<open>The buffer is one longer than its size, and a NUL follows the text.\<close>

definition sound :: "text_list \<Rightarrow> bool" where
  "sound l \<longleftrightarrow> length (tl_buf l) = tl_size l + 1 \<and> tl_len l \<le> tl_size l \<and> tl_buf l ! tl_len l = CHR 0x00"

lemma sound_simps [simp]: "sound (l\<lparr>tl_z := z\<rparr>) = sound l" "tl_text (l\<lparr>tl_z := z\<rparr>) = tl_text l"
  by (simp_all add: sound_def tl_text_def)

lemma sound_text: "sound l \<Longrightarrow> length (tl_text l) = tl_len l"
  by (simp add: sound_def tl_text_def)

lemma length_resize [simp]: "length (resize n b) = n"
  by (simp add: resize_def)

lemma put_over: "length x = n \<Longrightarrow> length c = length d \<Longrightarrow> put n d (x @ c @ y) = Inr (x @ d @ y)"
  by (simp add: put_def blit_def)

lemma grow_buf: "length (tl_buf l) = tl_size l + 1 \<Longrightarrow> \<exists>k. tl_buf (grow step need l) = tl_buf l @ replicate k (CHR 0x00)"
  unfolding grow_def resize_def by (cases "tl_size l < need") (auto intro: exI [of _ "0::nat"])

lemma take_blit_text: "n \<le> length b \<Longrightarrow> take (n + length t) (blit b n t) = take n b @ t"
  by (simp add: blit_def)

lemma nth_blit: "n + length t < length b \<Longrightarrow> blit b n (t @ [c]) ! (n + length t) = c"
  by (simp add: blit_def nth_append)

lemma put_sound:
  assumes l: "sound l" and g: "l1 = grow step (n + length t) l" and n: "n \<le> tl_len l" and fits: "n + length t \<le> tl_len l + step"
  shows "\<exists>b. put n (t @ [CHR 0x00]) (tl_buf l1) = Inr b
    \<and> sound (l1\<lparr>tl_buf := b, tl_len := n + length t\<rparr>) \<and> tl_text (l1\<lparr>tl_buf := b, tl_len := n + length t\<rparr>) = take n (tl_text l) @ t"
proof -
  have s: "n + length t \<le> tl_size l1" "length (tl_buf l1) = tl_size l1 + 1"
    using l fits by (auto simp: g grow_def sound_def)
  from s have p: "put n (t @ [CHR 0x00]) (tl_buf l1) = Inr (blit (tl_buf l1) n (t @ [CHR 0x00]))" by (simp add: put_def)
  obtain j where j: "tl_buf l1 = tl_buf l @ replicate j (CHR 0x00)" unfolding g using grow_buf l unfolding sound_def by blast
  have "take n (tl_buf l1) = take n (tl_text l)" using n l unfolding j tl_text_def sound_def by simp
  moreover have "take (n + length t) (blit (tl_buf l1) n (t @ [CHR 0x00])) = take n (tl_buf l1) @ t"
    using s by (simp add: blit_def)
  moreover have "blit (tl_buf l1) n (t @ [CHR 0x00]) ! (n + length t) = CHR 0x00" using s by (simp add: nth_blit)
  ultimately show ?thesis using p s by (auto simp: sound_def tl_text_def)
qed

text \<open>A piece of the text is cut out and the NUL moves with the rest.\<close>

lemma memmove_cut:
  assumes l: "sound l" and text_l: "tl_text l = a @ x @ c"
  shows "\<exists>b. memmove (length a) (length a + length x) (tl_len l - (length a + length x) + 1) (tl_buf l) = Inr b
    \<and> sound (l\<lparr>tl_buf := b, tl_len := tl_len l - length x\<rparr>) \<and> tl_text (l\<lparr>tl_buf := b, tl_len := tl_len l - length x\<rparr>) = a @ c"
proof -
  let ?b = "tl_buf l" and ?m = "tl_len l - (length a + length x) + 1"
  have n: "tl_len l = length a + length x + length c" using sound_text [OF l] text_l by simp
  have "take (tl_len l + 1) ?b = tl_text l @ [CHR 0x00]" using l by (simp add: sound_def tl_text_def take_Suc_conv_app_nth)
  then have b: "?b = (a @ x) @ (c @ [CHR 0x00]) @ drop (tl_len l + 1) ?b"
    using append_take_drop_id [of "tl_len l + 1" ?b] text_l by simp
  have fits: "length a + length x + ?m \<le> length ?b" using n l by (simp add: sound_def)
  have m: "?m = length (c @ [CHR 0x00])" using n by simp
  have mid: "take ?m (drop (length a + length x) ?b) = c @ [CHR 0x00]" by (subst b, simp only: m) simp
  have "take (length a) ?b = a" by (subst b) simp
  then have B: "blit ?b (length a) (c @ [CHR 0x00]) = a @ c @ CHR 0x00 # drop (length a + ?m) ?b"
    unfolding blit_def using m by simp
  have "length (blit ?b (length a) (c @ [CHR 0x00])) = length ?b" using fits m by (subst length_blit) simp_all
  then have "sound (l\<lparr>tl_buf := blit ?b (length a) (c @ [CHR 0x00]), tl_len := tl_len l - length x\<rparr>)"
    "tl_text (l\<lparr>tl_buf := blit ?b (length a) (c @ [CHR 0x00]), tl_len := tl_len l - length x\<rparr>) = a @ c"
    using n l by (simp_all add: sound_def tl_text_def B nth_append)
  with fits mid show ?thesis by (simp add: memmove_def)
qed

lemma memmove_cut_at:
  assumes "sound l" and "tl_text l = a @ x @ c" and "dst = length a" and "n = length x" and "src = dst + n" and "k = tl_len l - src + 1"
  shows "\<exists>b. memmove dst src k (tl_buf l) = Inr b
    \<and> sound (l\<lparr>tl_buf := b, tl_len := tl_len l - n\<rparr>) \<and> tl_text (l\<lparr>tl_buf := b, tl_len := tl_len l - n\<rparr>) = a @ c"
  using memmove_cut [OF assms(1,2)] unfolding assms(3-6) .

section \<open>A list of names\<close>

definition listed :: "string \<Rightarrow> string list \<Rightarrow> text_list \<Rightarrow> bool" where
  "listed w ts l \<longleftrightarrow> sound l \<and> tl_text l = ''$'' @ w @ '' '' @ items ts @ ''|''"

lemma listed_new: "listed ''NickList'' [] (new_list NICKLISTSIZE ''$NickList |'')"
    "listed ''OpList'' [] (new_list OPLISTSIZE ''$OpList |'')" "listed ''UserIP'' [] (new_list g_ui32IpListSize ''$UserIP |'')"
  by (simp_all add: listed_def sound_def new_list_def tl_text_def resize_def NICKLISTSIZE_def OPLISTSIZE_def g_ui32IpListSize_def nth_append)

lemma add_item_listed:
  assumes l: "listed w ts l" and fits: "length t + 2 \<le> step"
  shows "\<exists>l'. add_item step t l = Inr l' \<and> listed w (ts @ [t]) l' \<and> tl_z l' = None"
proof -
  let ?n = "tl_len l - 1" and ?t = "t @ ''$$|''"
  from l have s: "sound l" and shown: "tl_text l = ''$'' @ w @ '' '' @ items ts @ ''|''" by (simp_all add: listed_def)
  have n: "tl_len l = Suc ?n" using sound_text [OF s] shown by simp
  then have need: "?n + length ?t = tl_len l + length t + 2" by simp
  define l1 where "l1 = grow step (tl_len l + length t + 2) l"
  have "l1 = grow step (?n + length ?t) l" unfolding l1_def need ..
  from put_sound [OF s this] fits obtain b where b: "put ?n (?t @ [CHR 0x00]) (tl_buf l1) = Inr b"
    "sound (l1\<lparr>tl_buf := b, tl_len := tl_len l + length t + 2\<rparr>)"
    "tl_text (l1\<lparr>tl_buf := b, tl_len := tl_len l + length t + 2\<rparr>) = take ?n (tl_text l) @ ?t"
    unfolding need by auto
  have front: "take ?n (tl_text l) = ''$'' @ w @ '' '' @ items ts"
    using sound_text [OF s] shown butlast_conv_take [of "tl_text l"] by (simp add: butlast_append)
  have "listed w (ts @ [t]) (l1\<lparr>tl_buf := b, tl_len := tl_len l + length t + 2, tl_z := None\<rparr>)"
    using b(2,3) unfolding front listed_def by (simp add: sound_def tl_text_def)
  moreover have "add_item step t l = Inr (l1\<lparr>tl_buf := b, tl_len := tl_len l + length t + 2, tl_z := None\<rparr>)"
  proof -
    have "add_item step t l = rbind (put ?n (?t @ [CHR 0x00]) (tl_buf l1)) (\<lambda>b.
        Inr (l1\<lparr>tl_buf := b, tl_len := tl_len l + length t + 2, tl_z := None\<rparr>))"
      by (simp only: add_item_def Let_def l1_def append_assoc)
    with b(1) show ?thesis by simp
  qed
  moreover have "tl_z (l1\<lparr>tl_buf := b, tl_len := n, tl_z := None\<rparr>) = None" for b n by simp
  ultimately show ?thesis by blast
qed

text \<open>Deleting a name: where it is found, and what is left.\<close>

lemma del_item_run:
  assumes l: "listed w ts l" and sz: "length t + 2 < sz"
  shows "del_item sz (length w + 1) t l =
    (case memmem (between t) (''$'' @ w @ ''$'' @ items ts @ ''|'') of
       None \<Rightarrow> Inr l
     | Some i \<Rightarrow> rbind (memmove (i + 1) (i + (length t + 2) + 1) (tl_len l - (i + (length t + 2))) (tl_buf l)) (\<lambda>b3.
         Inr (l\<lparr>tl_buf := b3, tl_len := tl_len l - (length t + 2), tl_z := None\<rparr>)))"
proof -
  let ?b = "tl_buf l" and ?h = "length w + 1"
  from l have s: "sound l" and shown: "take (tl_len l) ?b = ''$'' @ w @ '' '' @ items ts @ ''|''"
    by (simp_all add: listed_def tl_text_def)
  have n: "tl_len l = length w + length (items ts) + 3" using sound_text [OF s] l by (simp add: listed_def)
  have split: "?b = (''$'' @ w) @ '' '' @ items ts @ ''|'' @ drop (tl_len l) ?b"
    using append_take_drop_id [of "tl_len l" ?b] shown by simp
  have h: "length (''$'' @ w) = ?h" by simp
  define B where "B = (''$'' @ w) @ ''$'' @ items ts @ ''|'' @ drop (tl_len l) ?b"
  have "length B = length ?b" using arg_cong [OF split, of length] by (simp add: B_def)
  then have over: "\<not> tl_len l > length B" using s by (simp add: sound_def)
  have b1: "put ?h ''$'' ?b = Inr B"
    using put_over [OF h, of "'' ''" "''$''" "items ts @ ''|'' @ drop (tl_len l) ?b"] split by (simp add: B_def)
  have b2: "put ?h '' '' B = Inr ?b"
    using put_over [OF h, of "''$''" "'' ''" "items ts @ ''|'' @ drop (tl_len l) ?b"] split by (simp add: B_def)
  have "take (tl_len l) B = ''$'' @ w @ ''$'' @ items ts @ ''|''"
    using n by (simp add: numeral_3_eq_3 B_def)
  with b1 b2 over sz show ?thesis by (simp add: del_item_def printed_def split: option.splits)
qed

lemma del_item_listed:
  assumes l: "listed w ts l" and ts: "\<forall>s \<in> set ts. CHR ''$'' \<notin> set s" and t: "proper_name w t" "CHR ''$'' \<notin> set w"
    and sz: "length t + 2 < sz"
  shows "\<exists>l'. del_item sz (length w + 1) t l = Inr l' \<and> listed w (remove1 t ts) l'"
proof -
  let ?us = "takeWhile (\<lambda>s. s \<noteq> t) ts"
  let ?i = "length w + 1 + length (items ?us)"
  have found: "memmem (between t) (''$'' @ w @ ''$'' @ items ts @ ''|'') = (if t \<in> set ts then Some ?i else None)"
    using memmem_name [of w t "items ts @ ''|''"] memmem_items [of t ts] t ts by (auto simp: proper_name_def)
  show ?thesis
  proof (cases "t \<in> set ts")
    case False
    with del_item_run [OF l sz] found l show ?thesis by (simp add: remove1_idem)
  next
    case True
    then obtain us vs where s: "ts = us @ t # vs" "t \<notin> set us" by (meson split_list_first)
    then have us: "?us = us" by (subst s(1), subst takeWhile_append2) auto
    let ?a = "''$'' @ w @ '' '' @ items us" and ?x = "t @ ''$$''"
    from l s have so: "sound l" and shown: "tl_text l = ?a @ ?x @ items vs @ ''|''" by (simp_all add: listed_def)
    have n: "tl_len l = ?i + (length t + 2) + 1 + (length (items vs) + 1)" using sound_text [OF so] shown us by simp
    have step: "del_item sz (length w + 1) t l =
        rbind (memmove (?i + 1) (?i + (length t + 2) + 1) (tl_len l - (?i + (length t + 2))) (tl_buf l)) (\<lambda>b.
          Inr (l\<lparr>tl_buf := b, tl_len := tl_len l - (length t + 2), tl_z := None\<rparr>))"
      using del_item_run [OF l sz] found True by (simp only: if_True option.case)
    obtain b where b: "memmove (?i + 1) (?i + (length t + 2) + 1) (tl_len l - (?i + (length t + 2))) (tl_buf l) = Inr b"
      "sound (l\<lparr>tl_buf := b, tl_len := tl_len l - (length t + 2)\<rparr>)"
      "tl_text (l\<lparr>tl_buf := b, tl_len := tl_len l - (length t + 2)\<rparr>) = ?a @ items vs @ ''|''"
      using memmove_cut_at [OF so shown, of "?i + 1" "length t + 2" "?i + (length t + 2) + 1"
          "tl_len l - (?i + (length t + 2))"] n us by auto
    have "listed w (us @ vs) (l\<lparr>tl_buf := b, tl_len := tl_len l - (length t + 2), tl_z := None\<rparr>)"
      using b(2,3) by (simp add: listed_def sound_def tl_text_def)
    moreover have "remove1 t ts = us @ vs" using s by (simp add: remove1_append)
    ultimately show ?thesis unfolding step b(1) by simp
  qed
qed

section \<open>The three lists keep the contract\<close>

definition name_ok :: "string \<Rightarrow> nat \<Rightarrow> nat \<Rightarrow> string \<Rightarrow> bool" where
  "name_ok w step sz t \<longleftrightarrow> proper_name w t \<and> length t + 2 \<le> step \<and> length t + 2 < sz"

lemma name_laws:
  assumes "listed w ts l" and "\<forall>s \<in> set ts. name_ok w step sz s" and "name_ok w step sz t" and "CHR ''$'' \<notin> set w" and "hdr = length w + 1"
  shows "\<exists>l'. add_item step t l = Inr l' \<and> listed w (ts @ [t]) l'"
    and "\<exists>l'. del_item sz hdr t l = Inr l' \<and> listed w (remove1 t ts) l'"
proof -
  have "\<forall>s \<in> set ts. CHR ''$'' \<notin> set s" using assms(2) by (auto simp: name_ok_def proper_name_def)
  then show "\<exists>l'. add_item step t l = Inr l' \<and> listed w (ts @ [t]) l'"
    and "\<exists>l'. del_item sz hdr t l = Inr l' \<and> listed w (remove1 t ts) l'"
    using add_item_listed [of w ts l t step] del_item_listed [of w ts l t sz] assms unfolding name_ok_def assms(5) by blast+
qed

interpretation nick_names: listed_names "listed ''NickList''" "add_item NICKLISTSIZE" "del_item sz 9" "name_ok ''NickList'' NICKLISTSIZE sz" for sz
proof
  fix ns n and l :: text_list
  assume "listed ''NickList'' ns l" "\<forall>m \<in> set ns. name_ok ''NickList'' NICKLISTSIZE sz m" "name_ok ''NickList'' NICKLISTSIZE sz n"
  note laws = name_laws [OF this, of 9]
  show "\<exists>l'. add_item NICKLISTSIZE n l = Inr l' \<and> listed ''NickList'' (ns @ [n]) l'" by (rule laws) simp_all
  show "\<exists>l'. del_item sz 9 n l = Inr l' \<and> listed ''NickList'' (remove1 n ns) l'" by (rule laws) simp_all
qed

interpretation op_names: listed_names "listed ''OpList''" "add_item OPLISTSIZE" "del_item sz 7" "name_ok ''OpList'' OPLISTSIZE sz" for sz
proof
  fix ns n and l :: text_list
  assume "listed ''OpList'' ns l" "\<forall>m \<in> set ns. name_ok ''OpList'' OPLISTSIZE sz m" "name_ok ''OpList'' OPLISTSIZE sz n"
  note laws = name_laws [OF this, of 7]
  show "\<exists>l'. add_item OPLISTSIZE n l = Inr l' \<and> listed ''OpList'' (ns @ [n]) l'" by (rule laws) simp_all
  show "\<exists>l'. del_item sz 7 n l = Inr l' \<and> listed ''OpList'' (remove1 n ns) l'" by (rule laws) simp_all
qed

interpretation ip_names: listed_names "listed ''UserIP''" "add_item g_ui32IpListSize" "del_item sz 7" "name_ok ''UserIP'' g_ui32IpListSize sz" for sz
proof
  fix ns n and l :: text_list
  assume "listed ''UserIP'' ns l" "\<forall>m \<in> set ns. name_ok ''UserIP'' g_ui32IpListSize sz m" "name_ok ''UserIP'' g_ui32IpListSize sz n"
  note laws = name_laws [OF this, of 7]
  show "\<exists>l'. add_item g_ui32IpListSize n l = Inr l' \<and> listed ''UserIP'' (ns @ [n]) l'" by (rule laws) simp_all
  show "\<exists>l'. del_item sz 7 n l = Inr l' \<and> listed ''UserIP'' (remove1 n ns) l'" by (rule laws) simp_all
qed

section \<open>The nick and operator lists of the hub\<close>

definition nick_ok :: "nat \<Rightarrow> string \<Rightarrow> bool" where
  "nick_ok sz n \<longleftrightarrow> name_ok ''NickList'' NICKLISTSIZE sz n \<and> name_ok ''OpList'' OPLISTSIZE sz n"

primrec nick_run :: "nat \<Rightarrow> (bool \<times> string \<times> bool) list \<Rightarrow> Users \<Rightarrow> Users res" where
  "nick_run sz [] U = Inr U"
| "nick_run sz (op # ops) U =
     rbind (if fst op then AddBot2NickList (fst (snd op)) (snd (snd op)) U
            else Users_DelFromNickList sz (fst (snd op)) (snd (snd op)) U) (nick_run sz ops)"

definition names_after :: "(bool \<times> string \<times> bool) list \<Rightarrow> string list \<Rightarrow> string list" where
  "names_after ops = fold (\<lambda>(b, n, k) ms. if b then ms @ [n] else remove1 n ms) ops"

lemma names_after_simps [simp]: "names_after [] ns = ns"
  "names_after ((b, n, k) # ops) ns = names_after ops (if b then ns @ [n] else remove1 n ns)"
  by (simp_all add: names_after_def)

lemma Add2NickList_bot: "Add2NickList u U = AddBot2NickList (m_sNick u) (shows_key u) U"
  by (simp add: Add2NickList_def AddBot2NickList_def)

lemma nick_run_listed:
  assumes "listed ''NickList'' ns (m_NickTexts U)" and "listed ''OpList'' os (m_OpTexts U)"
    and "\<forall>n \<in> set ns \<union> set os. nick_ok sz n" and "\<forall>op \<in> set ops. nick_ok sz (fst (snd op))"
  shows "\<exists>U'. nick_run sz ops U = Inr U' \<and> listed ''NickList'' (names_after ops ns) (m_NickTexts U')
    \<and> listed ''OpList'' (names_after (filter (\<lambda>op. snd (snd op)) ops) os) (m_OpTexts U')"
  using assms
proof (induction ops arbitrary: ns os U)
  case (Cons op ops)
  obtain b n k where op: "op = (b, n, k)" by (cases op) auto
  from Cons.prems(3,4) op have ok: "\<forall>m \<in> set ns. name_ok ''NickList'' NICKLISTSIZE sz m" "name_ok ''NickList'' NICKLISTSIZE sz n"
    "\<forall>m \<in> set os. name_ok ''OpList'' OPLISTSIZE sz m" "name_ok ''OpList'' OPLISTSIZE sz n" by (auto simp: nick_ok_def)
  let ?ns = "if b then ns @ [n] else remove1 n ns" and ?os = "if k then (if b then os @ [n] else remove1 n os) else os"
  obtain U1 where "(if b then AddBot2NickList n k U else Users_DelFromNickList sz n k U) = Inr U1"
      "listed ''NickList'' ?ns (m_NickTexts U1)" "listed ''OpList'' ?os (m_OpTexts U1)"
    using nick_names.add_law [OF Cons.prems(1) ok(1,2)] nick_names.del_law [OF Cons.prems(1) ok(1,2)]
      op_names.add_law [OF Cons.prems(2) ok(3,4)] op_names.del_law [OF Cons.prems(2) ok(3,4)] Cons.prems(2)
    by (cases b; cases k) (auto simp: AddBot2NickList_def Users_DelFromNickList_def on_nicks_def on_ops_def)
  moreover have "\<forall>m \<in> set ?ns \<union> set ?os. nick_ok sz m"
    using Cons.prems(3,4) op set_remove1_subset [of n ns] set_remove1_subset [of n os] by (cases b; cases k) auto
  ultimately show ?case using Cons.IH [of ?ns U1 ?os] Cons.prems(4) op by (cases b; cases k) simp_all
qed simp



text \<open>
  A user called like the header of the list is found in the header itself: deleting the nick NickList cuts the
  command word off together with the first character of the first name, and leaves every other name that was listed,
  the deleted one included; no client can read what is left as a list of nicks.
\<close>

theorem header_deleted:
  assumes "listed ''NickList'' ns (m_NickTexts U)" and "10 < sz"
  shows "\<exists>U'. Users_DelFromNickList sz ''NickList'' False U = Inr U'
    \<and> tl_text (m_NickTexts U') = ''$'' @ tl (items ns @ ''|'')"
proof -
  let ?l = "m_NickTexts U"
  from assms(1) have s: "sound ?l" and t: "tl_text ?l = ''$'' @ (''NickList '' @ [hd (items ns @ ''|'')]) @ tl (items ns @ ''|'')"
    by (simp_all add: listed_def)
  have n: "tl_len ?l = length (items ns) + 11" using sound_text [OF s] t by simp
  have "memmem (between ''NickList'') (''$'' @ ''NickList'' @ ''$'' @ items ns @ ''|'') = Some 0" by simp
  moreover have "length ''NickList'' + 2 < sz" using assms(2) by simp
  ultimately have run: "del_item sz 9 ''NickList'' ?l = rbind (memmove 1 11 (length (items ns) + 1) (tl_buf ?l)) (\<lambda>b.
      Inr (?l\<lparr>tl_buf := b, tl_len := tl_len ?l - 10, tl_z := None\<rparr>))"
    using del_item_run [OF assms(1), of "''NickList''" sz] n by (simp add: numeral_eq_Suc)
  obtain b where b: "memmove 1 11 (length (items ns) + 1) (tl_buf ?l) = Inr b"
      "tl_text (?l\<lparr>tl_buf := b, tl_len := tl_len ?l - 10\<rparr>) = ''$'' @ tl (items ns @ ''|'')"
    using memmove_cut_at [OF s t, of 1 10 11 "length (items ns) + 1"] n by auto
  show ?thesis
    using b(2) by (simp add: Users_DelFromNickList_def on_nicks_def run b(1) tl_text_def del: One_nat_def)
qed

lemma header_deleted_witness:
  "\<exists>U. Users_DelFromNickList 512 ''NickList'' False ((new_Users 1)\<lparr>m_NickTexts := new_list 64 ''$NickList ann$$NickList$$|''\<rparr>) = Inr U
    \<and> tl_text (m_NickTexts U) = ''$nn$$NickList$$|''"
  using header_deleted [of "[''ann'', ''NickList'']" "(new_Users 1)\<lparr>m_NickTexts := new_list 64 ''$NickList ann$$NickList$$|''\<rparr>" 512]
  by (simp add: listed_def sound_def new_list_def tl_text_def resize_def)

section \<open>The address list\<close>

definition ip_ok :: "nat \<Rightarrow> User \<Rightarrow> bool" where
  "ip_ok sz u \<longleftrightarrow> name_ok ''UserIP'' g_ui32IpListSize sz (ip_item u)"

primrec ip_run :: "nat \<Rightarrow> (bool \<times> User) list \<Rightarrow> Users \<Rightarrow> Users res" where
  "ip_run sz [] U = Inr U"
| "ip_run sz (op # ops) U = rbind (if fst op then Add2UserIP sz (snd op) U else Users_DelFromUserIP sz (snd op) U) (ip_run sz ops)"

lemma ip_run_names:
  assumes "\<forall>op \<in> set ops. ip_ok sz (snd op)"
  shows "ip_run sz ops U = rbind (ip_names.run_names sz (map (\<lambda>(b, u). (b, ip_item u)) ops) (m_UserIPTexts U)) (\<lambda>l.
    Inr (U\<lparr>m_UserIPTexts := l\<rparr>))"
  using assms
proof (induction ops arbitrary: U)
  case (Cons op ops)
  have "length (ip_item (snd op)) + 2 < sz" using Cons.prems by (simp add: ip_ok_def name_ok_def)
  then have "printed sz (''$'' @ ip_item (snd op) @ ''$'') = Inr (''$'' @ ip_item (snd op) @ ''$'')" by (simp add: printed_def)
  moreover have "rbind (case x of Inl e \<Rightarrow> Inl e | Inr l \<Rightarrow> Inr (U\<lparr>m_UserIPTexts := l\<rparr>)) (ip_run sz ops)
    = (case x of Inl e \<Rightarrow> Inl e | Inr l \<Rightarrow> ip_run sz ops (U\<lparr>m_UserIPTexts := l\<rparr>))" for x :: "text_list res"
    by (cases x) simp_all
  ultimately show ?case using Cons
    by (cases op; cases "fst op"; cases "add_item g_ui32IpListSize (ip_item (snd op)) (m_UserIPTexts U)";
        cases "del_item sz 7 (ip_item (snd op)) (m_UserIPTexts U)")
      (simp_all add: Add2UserIP_def Users_DelFromUserIP_def on_ips_def butlast_append)
qed simp

text \<open>
  Along any sequence of additions and deletions the list of addresses is its header, the pairs of nick and address
  in the order they came less the first occurrence of each one deleted, and the pipe, and its buffer is never overrun.
\<close>

theorem address_list_refines:
  assumes "\<forall>op \<in> set ops. ip_ok sz (snd op)"
  shows "\<exists>U. ip_run sz ops (new_Users f) = Inr U \<and> tl_text (m_UserIPTexts U) =
    ''$UserIP '' @ items (fold (\<lambda>(b, t) ts. if b then ts @ [t] else remove1 t ts) (map (\<lambda>(b, u). (b, ip_item u)) ops) []) @ ''|''"
proof -
  have new: "listed ''UserIP'' [] (m_UserIPTexts (new_Users f))" by (simp add: new_Users_def listed_new)
  have "\<forall>op \<in> set (map (\<lambda>(b, u). (b, ip_item u)) ops). name_ok ''UserIP'' g_ui32IpListSize sz (snd op)"
    using assms by (auto simp: ip_ok_def)
  from ip_names.run_names_holds [OF new _ this] ip_run_names [OF assms, of "new_Users f"]
  show ?thesis by (auto simp: listed_def)
qed

definition demo_guest :: User where
  "demo_guest = blank_user\<lparr>m_sNick := ''bob'', m_sIP := ''::7''\<rparr>"

lemma address_list_refines_witness:
  "\<exists>U. ip_run 512 [(True, demo_guest), (False, demo_guest)] (new_Users 1) = Inr U \<and> tl_text (m_UserIPTexts U) = ''$UserIP |''"
  using address_list_refines [of "[(True, demo_guest), (False, demo_guest)]" 512 1]
  by (simp add: ip_ok_def name_ok_def proper_name_def ip_item_def g_ui32IpListSize_def demo_guest_def)

section \<open>Lists of announcements\<close>

text \<open>An announcement ends with its only pipe.\<close>

definition line :: "string \<Rightarrow> bool" where
  "line s \<longleftrightarrow> (\<exists>b. s = b @ ''|'' \<and> CHR ''|'' \<notin> set b)"

definition announced :: "string list \<Rightarrow> text_list \<Rightarrow> bool" where
  "announced ts l \<longleftrightarrow> sound l \<and> tl_text l = concat ts"

definition ends :: "string \<Rightarrow> string \<Rightarrow> bool" where
  "ends r s \<longleftrightarrow> length r \<le> length s \<and> drop (length s - length r) s = r"

lemma memmem_line:
  assumes "CHR ''|'' \<notin> set b" and "CHR ''|'' \<notin> set c"
  shows "memmem (c @ ''|'') (b @ CHR ''|'' # r) =
    (if ends c b then Some (length b - length c) else map_option (\<lambda>i. i + (length b + 1)) (memmem (c @ ''|'') r))"
  using assms(1)
proof (induction b)
  case Nil
  show ?case
  proof (cases "c = []")
    case False
    then have "take (length c + 1) (CHR ''|'' # r) \<noteq> c @ ''|''" using mark_cut [of "CHR ''|''" "[]" c r] assms by auto
    with False show ?thesis by (auto simp: ends_def comp_def)
  qed (simp add: ends_def)
next
  case (Cons x b)
  show ?case
  proof (cases "x # b = c")
    case True
    then show ?thesis by (auto simp: ends_def)
  next
    case False
    then have "take (length c + 1) ((x # b) @ CHR ''|'' # r) \<noteq> c @ ''|''"
      using mark_cut [of "CHR ''|''" "x # b" c r] Cons.prems assms(2) by blast
    moreover have "ends c (x # b) \<longleftrightarrow> ends c b" using False by (auto simp: ends_def Suc_diff_le le_Suc_eq)
    moreover have "ends c b \<Longrightarrow> length c \<le> length b" by (simp add: ends_def)
    ultimately show ?thesis using Cons by (auto simp: option.map_comp comp_def Suc_diff_le)
  qed
qed

text \<open>The announcements of users, as the parser lets them through.\<close>

definition announcement :: "string \<Rightarrow> bool" where
  "announcement s \<longleftrightarrow> (\<exists>b. s = ''$MyINFO $ALL '' @ b @ ''|'' \<and> CHR ''|'' \<notin> set b)"

lemma announcement_line: "announcement s \<Longrightarrow> \<exists>b. s = b @ ''|'' \<and> CHR ''|'' \<notin> set b"
  by (force simp: announcement_def)

lemma ends_pipe: "ends (c @ ''|'') (b @ ''|'') = ends c b"
  by (auto simp: ends_def)

lemma memmem_lines:
  assumes "\<forall>s \<in> set ts. announcement s" and "CHR ''|'' \<notin> set c"
  shows "memmem (c @ ''|'') (concat ts) =
    (case dropWhile (\<lambda>s. \<not> ends (c @ ''|'') s) ts of
       [] \<Rightarrow> None
     | s # _ \<Rightarrow> Some (length (concat (takeWhile (\<lambda>s. \<not> ends (c @ ''|'') s) ts)) + (length s - length (c @ ''|''))))"
  using assms(1)
proof (induction ts)
  case (Cons s ts)
  from Cons.prems have "announcement s" by simp
  from announcement_line [OF this] obtain b where s: "s = b @ ''|''" "CHR ''|'' \<notin> set b" by blast
  have "memmem (c @ ''|'') (concat (s # ts)) =
      (if ends c b then Some (length b - length c) else map_option (\<lambda>i. i + (length b + 1)) (memmem (c @ ''|'') (concat ts)))"
    using memmem_line [OF s(2) assms(2), of "concat ts"] s(1) by simp
  with Cons s show ?case
    by (cases "dropWhile (\<lambda>s. \<not> ends (c @ ''|'') s) ts") (simp_all add: ends_pipe ac_simps del: dropWhile_eq_Nil_conv)
qed simp

text \<open>An announcement that ends with the text of another one is at least as long.\<close>

lemma ends_long:
  assumes "announcement t" and "announcement s" and "ends (drop 8 t) s"
  shows "length t \<le> length s"
proof (rule ccontr)
  assume short: "\<not> ?thesis"
  from assms(1,2) obtain b c where t: "t = ''$MyINFO $ALL '' @ b @ ''|''" and s: "s = ''$MyINFO $ALL '' @ c @ ''|''"
    by (auto simp: announcement_def)
  define d where "d = length s - length (drop 8 t)"
  have r: "drop 8 t = ''$ALL '' @ b @ ''|''" by (simp add: t)
  have le: "length (drop 8 t) \<le> length s" and at: "drop d s = drop 8 t" using assms(3) by (simp_all add: ends_def d_def)
  have "d < 8" using short le by (simp add: t d_def)
  moreover have "s ! d = CHR ''$''" "s ! (d + 1) = CHR ''A''"
    using nth_drop [of d s 0] nth_drop [of d s 1] unfolding at r by (simp_all add: d_def)
  ultimately show False unfolding s by (auto simp: less_Suc_eq numeral_eq_Suc)
qed

lemma add_info_announced:
  assumes l: "announced ts l" and fits: "length t \<le> g_ui32MyInfoListSize"
  shows "\<exists>l'. add_info t l = Inr l' \<and> announced (ts @ [t]) l' \<and> tl_z l' = None"
proof -
  from l have s: "sound l" and shown: "tl_text l = concat ts" by (simp_all add: announced_def)
  define l1 where "l1 = grow g_ui32MyInfoListSize (tl_len l + length t) l"
  from put_sound [OF s l1_def] fits obtain b where b: "put (tl_len l) (t @ [CHR 0x00]) (tl_buf l1) = Inr b"
    "sound (l1\<lparr>tl_buf := b, tl_len := tl_len l + length t\<rparr>)"
    "tl_text (l1\<lparr>tl_buf := b, tl_len := tl_len l + length t\<rparr>) = tl_text l @ t"
    using sound_text [OF s] by auto
  have "announced (ts @ [t]) (l1\<lparr>tl_buf := b, tl_len := tl_len l + length t, tl_z := None\<rparr>)"
    using b(2,3) shown unfolding announced_def by (simp add: sound_def tl_text_def)
  moreover have "add_info t l = Inr (l1\<lparr>tl_buf := b, tl_len := tl_len l + length t, tl_z := None\<rparr>)"
    using b(1) by (simp add: add_info_def Let_def l1_def)
  moreover have "tl_z (l1\<lparr>tl_buf := b, tl_len := n, tl_z := None\<rparr>) = None" for b n by simp
  ultimately show ?thesis by blast
qed

lemma cut_info_lines:
  assumes l: "announced ts l" and ts: "\<forall>s \<in> set ts. announcement s" and t: "announcement t"
  shows "\<exists>l'. cut_info 8 t l = Inr l' \<and> sound l' \<and> tl_text l' =
    concat (takeWhile (\<lambda>s. \<not> ends (drop 8 t) s) ts) @
    (case dropWhile (\<lambda>s. \<not> ends (drop 8 t) s) ts of [] \<Rightarrow> [] | s # vs \<Rightarrow> take (length s - length t) s @ concat vs)"
proof -
  let ?r = "drop 8 t" and ?us = "takeWhile (\<lambda>s. \<not> ends (drop 8 t) s) ts"
  from l have so: "sound l" and shown: "tl_text l = concat ts" by (simp_all add: announced_def)
  from t obtain b where "t = ''$MyINFO $ALL '' @ b @ ''|''" "CHR ''|'' \<notin> set b" by (auto simp: announcement_def)
  then have r: "?r = (''$ALL '' @ b) @ ''|''" "CHR ''|'' \<notin> set (''$ALL '' @ b)" and lt: "length ?r = length t - 8" "8 \<le> length t" by simp_all
  have found: "memmem ?r (concat ts) = (case dropWhile (\<lambda>s. \<not> ends ?r s) ts of
       [] \<Rightarrow> None | s # _ \<Rightarrow> Some (length (concat ?us) + (length s - length ?r)))"
    using memmem_lines [OF ts r(2)] by (simp only: r(1))
  show ?thesis
  proof (cases "dropWhile (\<lambda>s. \<not> ends ?r s) ts")
    case Nil
    then have "?us = ts" using takeWhile_dropWhile_id [of "\<lambda>s. \<not> ends ?r s" ts] by simp
    with found Nil so shown lt show ?thesis
      by (simp add: cut_info_def sound_def del: dropWhile_eq_Nil_conv takeWhile_eq_all_conv)
  next
    case (Cons s vs)
    have split: "ts = ?us @ s # vs" using Cons takeWhile_dropWhile_id [of "\<lambda>s. \<not> ends ?r s" ts] by simp
    have "ends ?r s" using Cons by (metis hd_dropWhile list.distinct(1) list.sel(1))
    moreover have "announcement s" using ts split by (metis in_set_conv_decomp)
    ultimately have ls: "length t \<le> length s" "drop (length s - length ?r) s = ?r" using ends_long [OF t] by (auto simp: ends_def)
    let ?a = "concat ?us @ take (length s - length t) s" and ?x = "drop (length s - length t) s"
    have "concat ts = concat ?us @ s @ concat vs" by (subst split) simp
    then have text_l: "tl_text l = ?a @ ?x @ concat vs" using shown by simp
    have i: "length (concat ?us) + (length s - length ?r) = length ?a + 8" using lt ls by simp
    have len: "tl_len l = length ?a + length t + length (concat vs)" using sound_text [OF so] text_l ls by simp
    have "cut_info 8 t l = rbind (memmove (length ?a) (length ?a + length t) (tl_len l - (length ?a + (length t - 1))) (tl_buf l)) (\<lambda>b.
        Inr (l\<lparr>tl_buf := b, tl_len := tl_len l - length t, tl_z := None\<rparr>))"
    proof -
      have "memmem ?r (tl_text l) = Some (length ?a + 8)" using found by (simp only: shown Cons list.case i)
      moreover have "\<not> tl_len l > length (tl_buf l)" "\<not> length t < 8" using so lt by (simp_all add: sound_def)
      ultimately show ?thesis by (simp only: cut_info_def if_False option.case) simp
    qed
    moreover obtain b where b: "memmove (length ?a) (length ?a + length t) (tl_len l - (length ?a + (length t - 1))) (tl_buf l) = Inr b"
        "sound (l\<lparr>tl_buf := b, tl_len := tl_len l - length t\<rparr>)" "tl_text (l\<lparr>tl_buf := b, tl_len := tl_len l - length t\<rparr>) = ?a @ concat vs"
      using memmove_cut_at [OF so text_l, of "length ?a" "length t" "length ?a + length t" "tl_len l - (length ?a + (length t - 1))"]
        ls len lt by auto
    moreover have "sound (l\<lparr>tl_buf := b, tl_len := tl_len l - length t, tl_z := None\<rparr>)"
        "tl_text (l\<lparr>tl_buf := b, tl_len := tl_len l - length t, tl_z := None\<rparr>) = ?a @ concat vs"
      using b(2,3) by (simp_all add: sound_def tl_text_def)
    ultimately show ?thesis using Cons by simp
  qed
qed

text \<open>
  Deleting the announcement of a user looks only for its text behind the command word and cuts the length of the
  user's own announcement, up to the end of the first announcement that ends with that text: of a longer announcement
  the front stays, without its pipe, and the user's own entry is left in the list.
\<close>

theorem announcement_cut:
  assumes "announced ts (m_TagTexts U)" and "\<forall>s \<in> set ts. announcement s" and "announcement (m_sMyInfoLong u)"
  defines "r \<equiv> drop 8 (m_sMyInfoLong u)"
  shows "\<exists>U'. Users_DelFromMyInfosTag ext u U = Inr U' \<and> tl_text (m_TagTexts U') =
    concat (takeWhile (\<lambda>s. \<not> ends r s) ts) @
    (case dropWhile (\<lambda>s. \<not> ends r s) ts of
       [] \<Rightarrow> []
     | s # vs \<Rightarrow> take (length s - length (m_sMyInfoLong u)) s @ concat vs)"
proof -
  have "m_TagTexts (Users_DelFromExtJSONInfos ext U) = m_TagTexts U"
    by (simp add: Users_DelFromExtJSONInfos_def split: option.splits)
  with cut_info_lines [OF assms(1-3)] show ?thesis
    unfolding r_def Users_DelFromMyInfosTag_def on_tags_def by auto
qed

text \<open>Eve's announcement carries a copy of Bob's: when Bob leaves, hers is cut and his stays.\<close>

lemma announcement_cut_witness:
  "\<exists>U. Users_DelFromMyInfosTag None (blank_user\<lparr>m_sMyInfoLong := ''$MyINFO $ALL bob x|''\<rparr>)
      ((new_Users 0)\<lparr>m_TagTexts := new_list 128 (''$MyINFO $ALL eve y$ALL bob x|$MyINFO $ALL bob x|'')\<rparr>) = Inr U
    \<and> tl_text (m_TagTexts U) = ''$MyINFO $A$MyINFO $ALL bob x|''"
proof -
  let ?t = "''$MyINFO $ALL bob x|''" and ?s = "''$MyINFO $ALL eve y$ALL bob x|''"
  have "announcement ?t" unfolding announcement_def by (rule exI [of _ "''bob x''"]) simp
  moreover have "announcement ?s" unfolding announcement_def by (rule exI [of _ "''eve y$ALL bob x''"]) simp
  moreover have "announced [?s, ?t] (new_list 128 (?s @ ?t))"
    by (simp add: announced_def sound_def new_list_def tl_text_def resize_def)
  ultimately show ?thesis
    using announcement_cut [of "[?s, ?t]" "(new_Users 0)\<lparr>m_TagTexts := new_list 128 (?s @ ?t)\<rparr>"
        "blank_user\<lparr>m_sMyInfoLong := ?t\<rparr>" None]
    by (simp add: ends_def)
qed

text \<open>
  On a hub that keeps one list of announcements only, a bot added to it leaves the compressed copy of the list as
  it was: the list has the bot's announcement and the copy that is sent to clients that take compressed data has not,
  until the next user changes the list.
\<close>

theorem bot_leaves_stale_copy:
  assumes "announced ts (m_TagTexts U)" and "tl_buf (m_InfoTexts U) = []" and "tl_z (m_TagTexts U) = Some z"
    and "memmem t (concat ts) = None" and "length t \<le> g_ui32MyInfoListSize"
  shows "\<exists>U'. AddBot2MyInfos t U = Inr U' \<and> announced (ts @ [t]) (m_TagTexts U') \<and> tl_z (m_TagTexts U') = Some z"
proof -
  let ?l = "m_TagTexts U"
  from assms(1) have s: "sound ?l" and shown: "tl_text ?l = concat ts" by (simp_all add: announced_def)
  define l1 where "l1 = grow g_ui32MyInfoListSize (tl_len ?l + length t) ?l"
  from put_sound [OF s l1_def] assms(5) obtain b where b: "put (tl_len ?l) (t @ [CHR 0x00]) (tl_buf l1) = Inr b"
    "sound (l1\<lparr>tl_buf := b, tl_len := tl_len ?l + length t\<rparr>)"
    "tl_text (l1\<lparr>tl_buf := b, tl_len := tl_len ?l + length t\<rparr>) = tl_text ?l @ t"
    using sound_text [OF s] by auto
  define l2 where "l2 = l1\<lparr>tl_buf := b, tl_len := tl_len ?l + length t\<rparr>"
  have "add_bot_info t ?l = Inr l2"
    using b(1) assms(4) shown by (simp add: add_bot_info_def Let_def l1_def l2_def)
  moreover have "tl_buf ?l \<noteq> []" using s by (auto simp: sound_def)
  ultimately have "AddBot2MyInfos t U = Inr (U\<lparr>m_TagTexts := l2, m_InfoTexts := (m_InfoTexts U)\<lparr>tl_z := None\<rparr>\<rparr>)"
    using assms(2,4) shown by (simp add: AddBot2MyInfos_def on_tags_def)
  moreover have "announced (ts @ [t]) l2" using b(2,3) shown by (simp add: announced_def l2_def)
  moreover have "tl_z l2 = Some z" using assms(3) by (simp add: l2_def l1_def grow_def)
  ultimately show ?thesis by simp
qed

lemma bot_leaves_stale_copy_witness:
  "\<exists>U. AddBot2MyInfos ''$MyINFO $ALL bot b|''
      ((new_Users 0)\<lparr>m_TagTexts := (new_list 128 ''$MyINFO $ALL ann a|'')\<lparr>tl_z := Some ''ZOn..''\<rparr>\<rparr>) = Inr U
    \<and> announced [''$MyINFO $ALL ann a|'', ''$MyINFO $ALL bot b|''] (m_TagTexts U) \<and> tl_z (m_TagTexts U) = Some ''ZOn..''"
  using bot_leaves_stale_copy [of "[''$MyINFO $ALL ann a|'']"
      "(new_Users 0)\<lparr>m_TagTexts := (new_list 128 ''$MyINFO $ALL ann a|'')\<lparr>tl_z := Some ''ZOn..''\<rparr>\<rparr>" "''ZOn..''" "''$MyINFO $ALL bot b|''"]
  by (simp add: announced_def sound_def new_list_def tl_text_def resize_def new_Users_def no_list_def g_ui32MyInfoListSize_def)

end
