(* ===== verification/DataQueue.thy ===== *)
theory DataQueue
  imports UserLists ProfileManager
begin

text \<open>
  The broadcast queue of a tick (\<open>core/GlobalDataQueue.cpp\<close>): commands for all users are collected, every kind of
  user gets its own text built from them once, and every user is sent the text of its kind.  How far a vector grows
  when it has to (\<open>growth\<close>: old size and wanted size to new capacity) and the compressor are arguments.
\<close>

section \<open>Growing buffers\<close>

text \<open>
  \<open>std::vector<char>\<close> as \<open>CFlyBuffer\<close> uses it: its memory, as long as its capacity, its size, and the length of the
  data, which are written through \<open>data()\<close>.  Growing moves the first \<open>size()\<close> characters only.
\<close>

record buffer =
  fb_mem :: string
  fb_size :: nat
  fb_len :: nat

definition AlignUp :: "nat \<Rightarrow> nat" where "AlignUp n = n + 1"

definition g_ui32InitialQueueBufferSize :: nat where "g_ui32InitialQueueBufferSize = 256"

definition new_buffer :: buffer where
  "new_buffer = \<lparr>fb_mem = replicate g_ui32InitialQueueBufferSize (CHR 0x00), fb_size = g_ui32InitialQueueBufferSize, fb_len = 0\<rparr>"

definition vec_resize :: "(nat \<Rightarrow> nat \<Rightarrow> nat) \<Rightarrow> nat \<Rightarrow> buffer \<Rightarrow> buffer" where
  "vec_resize growth n b =
     (if n \<le> length (fb_mem b)
      then b\<lparr>fb_mem := (if fb_size b < n then blit (fb_mem b) (fb_size b) (replicate (n - fb_size b) (CHR 0x00)) else fb_mem b),
             fb_size := n\<rparr>
      else b\<lparr>fb_mem := take (fb_size b) (fb_mem b) @ replicate (max n (growth (fb_size b) n) - fb_size b) (CHR 0x00), fb_size := n\<rparr>)"

definition make_space :: "(nat \<Rightarrow> nat \<Rightarrow> nat) \<Rightarrow> nat \<Rightarrow> buffer \<Rightarrow> buffer" where
  "make_space growth n b = (if length (fb_mem b) < n + 1 then vec_resize growth (AlignUp n) b else b)"

definition AddDataToQueue :: "(nat \<Rightarrow> nat \<Rightarrow> nat) \<Rightarrow> string \<Rightarrow> buffer \<Rightarrow> buffer res" where
  "AddDataToQueue growth sData b =
     (let b1 = make_space growth (fb_len b + length sData) b in
      rbind (put (fb_len b) (sData @ [CHR 0x00]) (fb_mem b1)) (\<lambda>m.
        Inr (b1\<lparr>fb_mem := m, fb_len := fb_len b + length sData\<rparr>)))"

text \<open>The data as the sending functions read them.\<close>

definition buf_text :: "buffer \<Rightarrow> string res" where
  "buf_text b = (if length (fb_mem b) < fb_len b then Inl BufferOverflow else Inr (take (fb_len b) (fb_mem b)))"

definition clean :: "buffer \<Rightarrow> buffer" where
  "clean b =
     (if fb_len b = 0 \<and> length (fb_mem b) > 256
      then b\<lparr>fb_mem := replicate 256 (CHR 0x00), fb_size := 256\<rparr> else b)"

section \<open>Items\<close>

datatype Cmd =
    HUBNAME | CHAT | HELLO | MYINFO | QUIT | OPS | LUA | ACTIVE_SEARCH_V6 | ACTIVE_SEARCH_V64 | ACTIVE_SEARCH_V4
  | PASSIVE_SEARCH_V6 | PASSIVE_SEARCH_V64 | PASSIVE_SEARCH_V4 | PASSIVE_SEARCH_V4_ONLY | PASSIVE_SEARCH_V6_ONLY | EXTJSON

datatype SendItem = PM2ALL | PM2OPS | OPCHAT | TOPROFILE | PM2PROFILE

text \<open>The two commands, \<open>None\<close> for a null pointer, and what lies behind the first one in the item's block of memory.\<close>

record QueueItem =
  m_pCommand0 :: "string option"
  m_pCommand1 :: "string option"
  qi_behind :: string
  m_eCmdType :: Cmd

definition align8 :: "nat \<Rightarrow> nat" where "align8 n = (n + 7) div 8 * 8"

text \<open>\<open>raw\<close> is what the new block holds before the commands are copied into it.\<close>

definition CreateQueueItem :: "string \<Rightarrow> string \<Rightarrow> string \<Rightarrow> Cmd \<Rightarrow> QueueItem" where
  "CreateQueueItem raw sCmd1 sCmd2 eCmdType =
     \<lparr>m_pCommand0 = (if sCmd1 = [] then None else Some sCmd1), m_pCommand1 = (if sCmd2 = [] then None else Some sCmd2),
      qi_behind = take (align8 (length sCmd1) - length sCmd1) (drop (length sCmd1) raw) @ sCmd2
        @ take (align8 (length sCmd2) - length sCmd2) (drop (align8 (length sCmd1) + length sCmd2) raw),
      m_eCmdType = eCmdType\<rparr>"

record SingleDataItem =
  m_pFromUser :: "addr option"
  m_Data :: string
  sd_i32Profile :: int
  m_eType :: SendItem

section \<open>The queues\<close>

record GlobalQueue =
  gq_buf :: buffer
  m_bCreated :: bool
  m_bZlined :: bool
  m_Zbuffer :: string

record GlobalDataQueue =
  m_GlobalQueues :: "GlobalQueue list"
  m_OpListQueue :: buffer
  m_UserIPQueue :: buffer
  m_bHaveDollars :: bool
  m_CreatedGlobalQueues :: "nat list"
  m_NewQueueItems :: "QueueItem list"
  m_QueueItems :: "QueueItem list"
  m_NewSingleItems :: "SingleDataItem list"
  m_SingleItems :: "SingleDataItem list"
  m_bHaveItems :: bool

definition new_queue :: GlobalQueue where
  "new_queue = \<lparr>gq_buf = new_buffer, m_bCreated = False, m_bZlined = False, m_Zbuffer = []\<rparr>"

definition new_GlobalDataQueue :: GlobalDataQueue where
  "new_GlobalDataQueue =
     \<lparr>m_GlobalQueues = replicate 144 new_queue, m_OpListQueue = new_buffer, m_UserIPQueue = new_buffer, m_bHaveDollars = False,
      m_CreatedGlobalQueues = [], m_NewQueueItems = [], m_QueueItems = [], m_NewSingleItems = [], m_SingleItems = [],
      m_bHaveItems = False\<rparr>"

definition AddQueueItem :: "string \<Rightarrow> string \<Rightarrow> string \<Rightarrow> Cmd \<Rightarrow> GlobalDataQueue \<Rightarrow> GlobalDataQueue" where
  "AddQueueItem raw sCommand1 sCommand2 eCmdType G =
     G\<lparr>m_NewQueueItems := m_NewQueueItems G @ [CreateQueueItem raw sCommand1 sCommand2 eCmdType]\<rparr>"

definition SingleItemStore :: "string \<Rightarrow> addr option \<Rightarrow> int \<Rightarrow> SendItem \<Rightarrow> GlobalDataQueue \<Rightarrow> GlobalDataQueue" where
  "SingleItemStore sData pFromUser i32Profile eType G =
     G\<lparr>m_NewSingleItems := m_NewSingleItems G
         @ [\<lparr>m_pFromUser = pFromUser, m_Data = sData, sd_i32Profile = i32Profile, m_eType = eType\<rparr>]\<rparr>"

definition PrepareQueueItems :: "GlobalDataQueue \<Rightarrow> GlobalDataQueue" where
  "PrepareQueueItems G =
     G\<lparr>m_QueueItems := m_NewQueueItems G, m_NewQueueItems := [],
       m_bHaveItems := (if m_NewQueueItems G \<noteq> [] \<or> fb_len (m_OpListQueue G) \<noteq> 0 \<or> fb_len (m_UserIPQueue G) \<noteq> 0
                        then True else m_bHaveItems G),
       m_SingleItems := m_NewSingleItems G, m_NewSingleItems := []\<rparr>"

definition clear_queue :: "GlobalQueue \<Rightarrow> GlobalQueue" where
  "clear_queue q = q\<lparr>gq_buf := clean ((gq_buf q)\<lparr>fb_len := 0\<rparr>), m_bCreated := False, m_bZlined := False, m_Zbuffer := []\<rparr>"

definition rewound :: "buffer \<Rightarrow> buffer" where
  "rewound b = b\<lparr>fb_mem := (fb_mem b)[0 := CHR 0x00], fb_len := 0\<rparr>"

definition ClearQueues :: "GlobalDataQueue \<Rightarrow> GlobalDataQueue" where
  "ClearQueues G =
     G\<lparr>m_bHaveItems := False, m_CreatedGlobalQueues := [],
       m_GlobalQueues := fold (\<lambda>i qs. qs[i := clear_queue (qs ! i)]) (m_CreatedGlobalQueues G) (m_GlobalQueues G),
       m_OpListQueue := rewound (m_OpListQueue G), m_UserIPQueue := rewound (m_UserIPQueue G),
       m_QueueItems := [], m_SingleItems := []\<rparr>"

text \<open>An item put in early, to be filled later: before the first one, behind another one, or last.\<close>

definition blank_item :: "string \<Rightarrow> Cmd \<Rightarrow> QueueItem" where
  "blank_item raw eCmdType = \<lparr>m_pCommand0 = Some [], m_pCommand1 = None, qi_behind = take 8192 raw, m_eCmdType = eCmdType\<rparr>"

definition InsertBlankQueueItem :: "string \<Rightarrow> nat option \<Rightarrow> Cmd \<Rightarrow> GlobalDataQueue \<Rightarrow> GlobalDataQueue \<times> nat" where
  "InsertBlankQueueItem raw pAfterItem eCmdType G =
     (let qs = m_NewQueueItems G;
          k = (case pAfterItem of None \<Rightarrow> 0 | Some i \<Rightarrow> if i = 0 \<and> qs \<noteq> [] then 0 else if i < length qs then i + 1 else length qs)
      in (G\<lparr>m_NewQueueItems := take k qs @ blank_item raw eCmdType # drop k qs\<rparr>, k))"

definition FillBlankQueueItem :: "string \<Rightarrow> QueueItem \<Rightarrow> QueueItem" where
  "FillBlankQueueItem sCommand q =
     (if sCommand = [] then q
      else let c = take 8192 sCommand in q\<lparr>m_pCommand0 := Some c, qi_behind := drop (length c) (qi_behind q)\<rparr>)"

section \<open>The operator list and the addresses of a tick\<close>

text \<open>\<open>snprintf\<close> at an offset of a buffer: at most the rest of its capacity is written, the full length returned.\<close>

definition print_at :: "nat \<Rightarrow> string \<Rightarrow> buffer \<Rightarrow> buffer" where
  "print_at off t b = b\<lparr>fb_mem := fst (vsnprintf (fb_mem b) off (length (fb_mem b) - off) t)\<rparr>"

definition OpListStore :: "(nat \<Rightarrow> nat \<Rightarrow> nat) \<Rightarrow> string \<Rightarrow> GlobalDataQueue \<Rightarrow> GlobalDataQueue res" where
  "OpListStore growth sNick G =
     (let b = m_OpListQueue G in
      if fb_len b = 0 then
        (let t = ''$OpList '' @ sNick @ ''$$|'' in Inr (G\<lparr>m_OpListQueue := (print_at 0 t b)\<lparr>fb_len := length t\<rparr>\<rparr>))
      else
        let b1 = make_space growth (fb_len b + length sNick + 3) b;
            t = sNick @ ''$$|''
        in if length (fb_mem b1) < fb_len b - 1 then Inl BufferOverflow
           else Inr (G\<lparr>m_OpListQueue := (print_at (fb_len b - 1) t b1)\<lparr>fb_len := fb_len b + length t - 1\<rparr>\<rparr>))"

text \<open>A second address makes the first one's pipe two dollars.\<close>

definition UserIPStore :: "(nat \<Rightarrow> nat \<Rightarrow> nat) \<Rightarrow> User \<Rightarrow> GlobalDataQueue \<Rightarrow> GlobalDataQueue res" where
  "UserIPStore growth u G =
     (let b = m_UserIPQueue G in
      if fb_len b = 0 then
        (let t = ''$UserIP '' @ ip_item u @ ''|'' in
         Inr (G\<lparr>m_UserIPQueue := (print_at 0 t b)\<lparr>fb_len := length t\<rparr>, m_bHaveDollars := False\<rparr>))
      else
        let b1 = make_space growth (fb_len b + length (m_sNick u) + length (m_sIP u) + 4) b in
        rbind (if m_bHaveDollars G then Inr b1
               else rbind (put (fb_len b - 1) ''$$'' (fb_mem b1)) (\<lambda>m. Inr (b1\<lparr>fb_mem := m, fb_len := fb_len b + 2\<rparr>))) (\<lambda>b2.
        if length (fb_mem b2) < fb_len b2 - 1 then Inl BufferOverflow
        else
          let t = ip_item u @ ''$$|'' in
          Inr (G\<lparr>m_UserIPQueue := (print_at (fb_len b2 - 1) t b2)\<lparr>fb_len := fb_len b2 + length t - 1\<rparr>, m_bHaveDollars := True\<rparr>)))"

section \<open>The queue of a user\<close>

definition SENDALLUSERIP :: nat where "SENDALLUSERIP = 34"
definition SENDFULLMYINFOS :: nat where "SENDFULLMYINFOS = 44"

definition Q_LONG_MYINFO :: u16 where "Q_LONG_MYINFO = 0x1"
definition Q_ALL_SEARCHES_IPV64 :: u16 where "Q_ALL_SEARCHES_IPV64 = 0x2"
definition Q_ALL_SEARCHES_IPV6 :: u16 where "Q_ALL_SEARCHES_IPV6 = 0x4"
definition Q_ALL_SEARCHES_IPV4 :: u16 where "Q_ALL_SEARCHES_IPV4 = 0x8"
definition Q_ACTIVE_SEARCHES_IPV64 :: u16 where "Q_ACTIVE_SEARCHES_IPV64 = 0x10"
definition Q_ACTIVE_SEARCHES_IPV6 :: u16 where "Q_ACTIVE_SEARCHES_IPV6 = 0x20"
definition Q_ACTIVE_SEARCHES_IPV4 :: u16 where "Q_ACTIVE_SEARCHES_IPV4 = 0x40"
definition Q_HELLO :: u16 where "Q_HELLO = 0x80"
definition Q_OPERATOR :: u16 where "Q_OPERATOR = 0x100"
definition Q_USERIP :: u16 where "Q_USERIP = 0x200"
definition Q_ALL_SEARCHES_IPV6_ACTIVE_IPV4 :: u16 where "Q_ALL_SEARCHES_IPV6_ACTIVE_IPV4 = 0x400"
definition Q_ACTIVE_SEARCHES_IPV6_ALL_IPV4 :: u16 where "Q_ACTIVE_SEARCHES_IPV6_ALL_IPV4 = 0x800"

lemmas queue_bits = Q_LONG_MYINFO_def Q_ALL_SEARCHES_IPV64_def Q_ALL_SEARCHES_IPV6_def Q_ALL_SEARCHES_IPV4_def
  Q_ACTIVE_SEARCHES_IPV64_def Q_ACTIVE_SEARCHES_IPV6_def Q_ACTIVE_SEARCHES_IPV4_def Q_HELLO_def Q_OPERATOR_def Q_USERIP_def
  Q_ALL_SEARCHES_IPV6_ACTIVE_IPV4_def Q_ACTIVE_SEARCHES_IPV6_ALL_IPV4_def

text \<open>Which searches a user who shares something takes: its part of the number of the queue, and its bit.\<close>

definition search_class :: "User \<Rightarrow> nat \<times> u16" where
  "search_class u =
     (let b = has_bits (m_ui32BoolBits u) in
      if m_ui64SharedSize u = 0 then (0, 0)
      else if b BIT_IPV6 then
        (if b BIT_IPV4 then
           (if b BIT_IPV6_ACTIVE then
              (if b BIT_IPV4_ACTIVE then (6, Q_ALL_SEARCHES_IPV64) else (14, Q_ALL_SEARCHES_IPV6_ACTIVE_IPV4))
            else
              (if b BIT_IPV4_ACTIVE then (16, Q_ACTIVE_SEARCHES_IPV6_ALL_IPV4) else (12, Q_ACTIVE_SEARCHES_IPV64)))
         else (if b BIT_IPV6_ACTIVE then (4, Q_ALL_SEARCHES_IPV6) else (10, Q_ACTIVE_SEARCHES_IPV6)))
      else (if b BIT_IPV4_ACTIVE then (2, Q_ALL_SEARCHES_IPV4) else (8, Q_ACTIVE_SEARCHES_IPV4)))"

definition plus_kind :: "bool \<Rightarrow> nat \<times> u16 \<Rightarrow> nat \<times> u16 \<Rightarrow> nat \<times> u16" where
  "plus_kind c k t = (if c then (fst t + fst k, snd t OR snd k) else t)"

definition queue_kind :: "hub_config \<Rightarrow> ProfileManager \<Rightarrow> User \<Rightarrow> (nat \<times> u16) res" where
  "queue_kind cfg P u =
     rbind (if full_myinfo_option cfg = 1 then IsAllowed u SENDFULLMYINFOS P else Inr False) (\<lambda>long.
     let t1 = plus_kind True (search_class u) (plus_kind long (1, Q_LONG_MYINFO) (0, 0));
         t2 = plus_kind (\<not> has_bits (m_ui32SupportBits u) SUPPORTBIT_NOHELLO) (14, Q_HELLO) t1;
         t3 = plus_kind (has_bits (m_ui32BoolBits u) BIT_OPERATOR) (28, Q_OPERATOR) t2
     in rbind (if m_i32Profile u \<noteq> -1 \<and> has_bits (m_ui32SupportBits u) SUPPORTBIT_USERIP2
               then IsAllowed u SENDALLUSERIP P else Inr False) (\<lambda>ips.
          Inr (plus_kind ips (56, Q_USERIP) t3)))"

section \<open>What an item is to a user\<close>

text \<open>\<open>MatchBytes\<close> on the first command compares nine characters, whatever its length.\<close>

definition is_ExtJSON :: "QueueItem \<Rightarrow> bool res" where
  "is_ExtJSON q =
     (case m_pCommand0 q of
        None \<Rightarrow> Inl NullDeref
      | Some c \<Rightarrow>
          if length c + length (qi_behind q) < 9 then Inl BufferOverflow
          else Inr (take 9 (c @ qi_behind q) = ''$ExtJSON ''))"

definition command_text :: "string option \<Rightarrow> string" where
  "command_text c = (case c of None \<Rightarrow> [] | Some t \<Rightarrow> t)"

definition search_text :: "User \<Rightarrow> QueueItem \<Rightarrow> string" where
  "search_text u q = (if m_ui64SharedSize u \<noteq> 0 then command_text (m_pCommand0 q) else [])"

text \<open>The text an item adds to the queue of a user with these bits; \<open>json\<close>: the client takes JSON.\<close>

definition item_text :: "bool \<Rightarrow> User \<Rightarrow> u16 \<Rightarrow> QueueItem \<Rightarrow> string res" where
  "item_text json u bits q =
     (let b = has_bits bits; c = command_text (m_pCommand0 q); shares = m_ui64SharedSize u \<noteq> 0;
          search = (\<lambda>cond. Inr (if shares \<and> cond then search_text u q else [])) in
      case m_eCmdType q of
        HELLO \<Rightarrow> Inr (if b Q_HELLO then c else [])
      | EXTJSON \<Rightarrow> Inr (if c \<noteq> [] \<and> json then c else [])
      | MYINFO \<Rightarrow> Inr (if b Q_LONG_MYINFO then command_text (m_pCommand1 q) else c)
      | OPS \<Rightarrow>
          if b Q_OPERATOR then rbind (is_ExtJSON q) (\<lambda>j. Inr (if j then (if json then c else []) else c)) else Inr []
      | ACTIVE_SEARCH_V6 \<Rightarrow> search (\<not> b Q_ALL_SEARCHES_IPV4 \<and> \<not> b Q_ACTIVE_SEARCHES_IPV4)
      | ACTIVE_SEARCH_V64 \<Rightarrow>
          Inr (if shares \<and> \<not> b Q_ALL_SEARCHES_IPV4 \<and> \<not> b Q_ACTIVE_SEARCHES_IPV4 then search_text u q
               else if \<not> b Q_ALL_SEARCHES_IPV6 \<and> \<not> b Q_ACTIVE_SEARCHES_IPV6 then search_text u q else [])
      | ACTIVE_SEARCH_V4 \<Rightarrow> search (\<not> b Q_ALL_SEARCHES_IPV6 \<and> \<not> b Q_ACTIVE_SEARCHES_IPV6)
      | PASSIVE_SEARCH_V6 \<Rightarrow> search (b Q_ALL_SEARCHES_IPV6 \<or> b Q_ALL_SEARCHES_IPV64 \<or> b Q_ALL_SEARCHES_IPV6_ACTIVE_IPV4)
      | PASSIVE_SEARCH_V64 \<Rightarrow>
          search (b Q_ALL_SEARCHES_IPV64 \<or> b Q_ALL_SEARCHES_IPV6 \<or> b Q_ALL_SEARCHES_IPV4 \<or> b Q_ACTIVE_SEARCHES_IPV6_ALL_IPV4
            \<or> b Q_ALL_SEARCHES_IPV6_ACTIVE_IPV4)
      | PASSIVE_SEARCH_V4 \<Rightarrow> search (b Q_ALL_SEARCHES_IPV4 \<or> b Q_ALL_SEARCHES_IPV64 \<or> b Q_ACTIVE_SEARCHES_IPV6_ALL_IPV4)
      | PASSIVE_SEARCH_V4_ONLY \<Rightarrow> search (b Q_ALL_SEARCHES_IPV4)
      | PASSIVE_SEARCH_V6_ONLY \<Rightarrow> search (b Q_ALL_SEARCHES_IPV6)
      | _ \<Rightarrow> Inr c)"

definition AddDataToQueueStr :: "(nat \<Rightarrow> nat \<Rightarrow> nat) \<Rightarrow> string \<Rightarrow> buffer \<Rightarrow> buffer res" where
  "AddDataToQueueStr growth t b = (if t = [] then Inr b else AddDataToQueue growth t b)"

primrec build_items :: "(nat \<Rightarrow> nat \<Rightarrow> nat) \<Rightarrow> bool \<Rightarrow> User \<Rightarrow> u16 \<Rightarrow> QueueItem list \<Rightarrow> buffer \<Rightarrow> buffer res" where
  "build_items growth json u bits [] b = Inr b"
| "build_items growth json u bits (q # qs) b =
     rbind (item_text json u bits q) (\<lambda>t. rbind (AddDataToQueueStr growth t b) (build_items growth json u bits qs))"

definition build_queue :: "(nat \<Rightarrow> nat \<Rightarrow> nat) \<Rightarrow> bool \<Rightarrow> User \<Rightarrow> u16 \<Rightarrow> GlobalDataQueue \<Rightarrow> buffer \<Rightarrow> buffer res" where
  "build_queue growth json u bits G b =
     rbind (build_items growth json u bits (m_QueueItems G) b) (\<lambda>b1.
     rbind (if fb_len (m_OpListQueue G) \<noteq> 0
            then rbind (buf_text (m_OpListQueue G)) (\<lambda>t. AddDataToQueue growth t b1) else Inr b1) (\<lambda>b2.
       if fb_len (m_UserIPQueue G) \<noteq> 0 \<and> has_bits bits Q_USERIP
       then rbind (buf_text (m_UserIPQueue G)) (\<lambda>t. AddDataToQueue growth t b2) else Inr b2))"

text \<open>The queue of a kind is built for the first user of that kind and taken as it is for the others.\<close>

definition queue_of :: "(nat \<Rightarrow> nat \<Rightarrow> nat) \<Rightarrow> bool \<Rightarrow> User \<Rightarrow> nat \<times> u16 \<Rightarrow> GlobalDataQueue \<Rightarrow> GlobalDataQueue res" where
  "queue_of growth json u k G =
     (if fst k \<ge> length (m_GlobalQueues G) then Inl BufferOverflow
      else
        let q = m_GlobalQueues G ! fst k in
        if m_bCreated q then Inr G
        else rbind (build_queue growth json u (snd k) G (gq_buf q)) (\<lambda>b.
          Inr (G\<lparr>m_GlobalQueues := (m_GlobalQueues G)[fst k := q\<lparr>gq_buf := b, m_bCreated := True\<rparr>],
                 m_CreatedGlobalQueues := fst k # m_CreatedGlobalQueues G\<rparr>)))"

section \<open>Sending a user its queue\<close>

text \<open>The searches a user has sent and not got back yet; closing the user deletes them.\<close>

record searches =
  m_pCmdActive4Search :: "string option"
  m_pCmdActive6Search :: "string option"

definition no_searches :: searches where
  "no_searches = \<lparr>m_pCmdActive4Search = None, m_pCmdActive6Search = None\<rparr>"

text \<open>What a tick works on: the queue, the hub, and the searches of the user at hand.\<close>

record tick =
  tk_queue :: GlobalDataQueue
  tk_hub :: hub
  tk_searches :: searches

definition forget_searches :: "tick \<Rightarrow> tick" where
  "forget_searches T = T\<lparr>tk_searches := no_searches\<rparr>"

definition tick_put :: "hub_config \<Rightarrow> addr \<Rightarrow> string \<Rightarrow> tick \<Rightarrow> tick res" where
  "tick_put cfg a t T =
     rbind (the_user a (tk_hub T)) (\<lambda>u.
     rbind (PutInSendBuf cfg a t (tk_hub T)) (\<lambda>(H, ok).
       Inr (if ok \<or> isPastLogin (m_ui8State u) then T\<lparr>tk_hub := H\<rparr> else forget_searches (T\<lparr>tk_hub := H\<rparr>))))"

text \<open>\<open>RemFromSendBuf\<close>: the first occurrence behind an offset, before the first NUL, is taken out of the buffer.\<close>

definition RemFromSendBuf :: "string \<Rightarrow> nat \<Rightarrow> SendBuf \<Rightarrow> SendBuf res" where
  "RemFromSendBuf sData from b =
     (if \<not> sb_alloc b then Inl NullDeref
      else if length (sb_data b) < from then Inl BufferOverflow
      else case memmem sData (c_str (drop from (sb_data b))) of
        None \<Rightarrow> Inr b
      | Some i \<Rightarrow> Inr (b\<lparr>sb_data := take (from + i) (sb_data b) @ drop (from + i + length sData) (sb_data b)\<rparr>))"

definition tick_rem :: "addr \<Rightarrow> string \<Rightarrow> nat \<Rightarrow> tick \<Rightarrow> tick res" where
  "tick_rem a t from T =
     rbind (the_user a (tk_hub T)) (\<lambda>u.
     rbind (RemFromSendBuf t from (m_SendBuf u)) (\<lambda>b.
     rbind (set_user a (\<lambda>u. u\<lparr>m_SendBuf := b\<rparr>) (tk_hub T)) (\<lambda>H. Inr (T\<lparr>tk_hub := H\<rparr>))))"

text \<open>The compressed copy is made once; short texts and texts that get no smaller have none.\<close>

definition zip_queue :: "(string \<Rightarrow> string option) \<Rightarrow> GlobalQueue \<Rightarrow> GlobalQueue res" where
  "zip_queue CreateZPipe q =
     (if m_bZlined q then Inr q
      else rbind (buf_text (gq_buf q)) (\<lambda>t.
        Inr (q\<lparr>m_bZlined := True,
               m_Zbuffer := (if length t < g_ui32ZMinDataLen then m_Zbuffer q
                             else case CreateZPipe t of None \<Rightarrow> m_Zbuffer q | Some z \<Rightarrow> z)\<rparr>)))"

definition zip_for :: "(string \<Rightarrow> string option) \<Rightarrow> User \<Rightarrow> nat \<Rightarrow> tick \<Rightarrow> (tick \<times> string option) res" where
  "zip_for CreateZPipe u i T =
     (let G = tk_queue T in
      if has_bits (m_ui32SupportBits u) SUPPORTBIT_ZPIPE then
        rbind (zip_queue CreateZPipe (m_GlobalQueues G ! i)) (\<lambda>q.
          Inr (T\<lparr>tk_queue := G\<lparr>m_GlobalQueues := (m_GlobalQueues G)[i := q]\<rparr>\<rparr>,
               if m_Zbuffer q = [] then None else Some (m_Zbuffer q)))
      else Inr (T, None))"

definition send_zipped :: "hub_config \<Rightarrow> addr \<Rightarrow> nat \<Rightarrow> string \<Rightarrow> tick \<Rightarrow> tick res" where
  "send_zipped cfg a n z T =
     rbind (tick_put cfg a z T) (\<lambda>T1.
       Inr (T1\<lparr>tk_hub := (tk_hub T1)\<lparr>m_ui64BytesSentSaved := m_ui64BytesSentSaved (tk_hub T1) + (word_of_nat n - word_of_nat (length z))\<rparr>\<rparr>))"

text \<open>The length of the queue without the user's own searches, in the 64 bits of \<open>size_t\<close>.\<close>

definition len_without :: "nat \<Rightarrow> nat \<Rightarrow> nat" where
  "len_without n k = unat (word_of_nat n - word_of_nat k :: u64)"

definition search_len :: "string option \<Rightarrow> nat" where
  "search_len s = (case s of None \<Rightarrow> 0 | Some t \<Rightarrow> length t)"

definition rem_search :: "addr \<Rightarrow> string option \<Rightarrow> nat \<Rightarrow> tick \<Rightarrow> tick res" where
  "rem_search a s from T = (case s of None \<Rightarrow> Inr T | Some t \<Rightarrow> tick_rem a t from T)"

text \<open>Where in the send buffer the new data begin, and everywhere when the buffer has been cut.\<close>

definition rem_offset :: "addr \<Rightarrow> nat \<Rightarrow> tick \<Rightarrow> nat res" where
  "rem_offset a old T =
     rbind (the_user a (tk_hub T)) (\<lambda>u. Inr (if length (sb_data (m_SendBuf u)) \<le> old then 0 else old))"

definition send_ipv6 :: "hub_config \<Rightarrow> (string \<Rightarrow> string option) \<Rightarrow> addr \<Rightarrow> User \<Rightarrow> nat \<Rightarrow> string \<Rightarrow> tick \<Rightarrow> tick res" where
  "send_ipv6 cfg CreateZPipe a u i t T =
     rbind (zip_for CreateZPipe u i T) (\<lambda>(T1, z).
     let s = tk_searches T1;
         rest = len_without (length t) (search_len (m_pCmdActive6Search s) + search_len (m_pCmdActive4Search s))
     in case (case z of None \<Rightarrow> None | Some y \<Rightarrow> if length y \<le> rest then Some y else None) of
          Some y \<Rightarrow> rbind (send_zipped cfg a (length t) y T1) (\<lambda>T2. Inr (forget_searches T2))
        | None \<Rightarrow>
            rbind (tick_put cfg a t T1) (\<lambda>T2.
            rbind (rem_offset a (length (sb_data (m_SendBuf u))) T2) (\<lambda>from.
            rbind (rem_search a (m_pCmdActive6Search (tk_searches T2)) from T2) (\<lambda>T3.
            rbind (rem_search a (m_pCmdActive4Search (tk_searches T2)) from T3) (\<lambda>T4.
              Inr (forget_searches T4))))))"

text \<open>A user with IPv4 only: after the text is queued the search is used without another look at the pointer.\<close>

definition send_ipv4 :: "hub_config \<Rightarrow> (string \<Rightarrow> string option) \<Rightarrow> addr \<Rightarrow> User \<Rightarrow> nat \<Rightarrow> string \<Rightarrow> string \<Rightarrow> tick \<Rightarrow> tick res" where
  "send_ipv4 cfg CreateZPipe a u i own t T =
     rbind (zip_for CreateZPipe u i T) (\<lambda>(T1, z).
     case (case z of None \<Rightarrow> None | Some y \<Rightarrow> if length y \<le> len_without (length t) (length own) then Some y else None) of
       Some y \<Rightarrow>
         rbind (send_zipped cfg a (length t) y T1) (\<lambda>T2.
           Inr (T2\<lparr>tk_searches := (tk_searches T2)\<lparr>m_pCmdActive4Search := None\<rparr>\<rparr>))
     | None \<Rightarrow>
         rbind (tick_put cfg a t T1) (\<lambda>T2.
         rbind (rem_offset a (length (sb_data (m_SendBuf u))) T2) (\<lambda>from.
         case m_pCmdActive4Search (tk_searches T2) of
           None \<Rightarrow> Inl NullDeref
         | Some own' \<Rightarrow>
             rbind (tick_rem a own' from T2) (\<lambda>T3.
               Inr (T3\<lparr>tk_searches := (tk_searches T3)\<lparr>m_pCmdActive4Search := None\<rparr>\<rparr>)))))"

definition send_all :: "hub_config \<Rightarrow> (string \<Rightarrow> string option) \<Rightarrow> addr \<Rightarrow> User \<Rightarrow> nat \<Rightarrow> string \<Rightarrow> tick \<Rightarrow> tick res" where
  "send_all cfg CreateZPipe a u i t T =
     rbind (zip_for CreateZPipe u i T) (\<lambda>(T1, z).
       case z of Some y \<Rightarrow> send_zipped cfg a (length t) y T1 | None \<Rightarrow> tick_put cfg a t T1)"

text \<open>\<open>now\<close>: this is a tick in which searches are sent (\<open>m_ui8SrCntr\<close> is zero).\<close>

definition ProcessQueues ::
    "hub_config \<Rightarrow> ProfileManager \<Rightarrow> (string \<Rightarrow> string option) \<Rightarrow> (nat \<Rightarrow> nat \<Rightarrow> nat) \<Rightarrow> bool \<Rightarrow> bool \<Rightarrow> addr \<Rightarrow> tick \<Rightarrow> tick res" where
  "ProcessQueues cfg P CreateZPipe growth now json a T =
     rbind (the_user a (tk_hub T)) (\<lambda>u.
     rbind (queue_kind cfg P u) (\<lambda>k.
     rbind (queue_of growth json u k (tk_queue T)) (\<lambda>G.
     let T1 = T\<lparr>tk_queue := G\<rparr>; b = gq_buf (m_GlobalQueues G ! fst k) in
     if fb_len b = 0 then Inr (if now then forget_searches T1 else T1)
     else
       rbind (buf_text b) (\<lambda>t.
       if now \<and> m_ui64SharedSize u = 0 then send_all cfg CreateZPipe a u (fst k) t (forget_searches T1)
       else if now \<and> has_bits (m_ui32BoolBits u) BIT_IPV6 then send_ipv6 cfg CreateZPipe a u (fst k) t T1
       else
         case (if now then m_pCmdActive4Search (tk_searches T1) else None) of
           Some own \<Rightarrow> send_ipv4 cfg CreateZPipe a u (fst k) own t T1
         | None \<Rightarrow> send_all cfg CreateZPipe a u (fst k) t T1))))"

section \<open>Single items\<close>

text \<open>The text of an item goes to the global buffer behind what is there; \<open>alloc\<close>: enlarging the buffer succeeds.\<close>

definition pm_item :: "bool \<Rightarrow> string \<Rightarrow> string \<Rightarrow> nat \<times> global_buffer \<Rightarrow> (nat \<times> global_buffer) res" where
  "pm_item alloc sNick d st =
     (let szLen = fst st; szWanted = szLen + length d + length sNick + 13; (ok, g) = CheckAndResizeGlobalBuffer alloc szWanted (snd st);
          p = ''$To: '' @ sNick @ '' From: ''
      in if \<not> ok then Inr (szLen, g)
         else if length (gb_data g) < szLen then Inl BufferOverflow
         else
           let m = fst (vsnprintf (gb_data g) szLen (gb_size g - szLen) p) in
           rbind (put (szLen + length p) (d @ [CHR 0x00]) m) (\<lambda>m'.
             Inr (szLen + length p + length d, g\<lparr>gb_data := m'\<rparr>)))"

definition data_item :: "bool \<Rightarrow> string \<Rightarrow> nat \<times> global_buffer \<Rightarrow> (nat \<times> global_buffer) res" where
  "data_item alloc d st =
     (let szLen = fst st; (ok, g) = CheckAndResizeGlobalBuffer alloc (szLen + length d) (snd st)
      in if \<not> ok then Inr (szLen, g)
         else rbind (put szLen (d @ [CHR 0x00]) (gb_data g)) (\<lambda>m. Inr (szLen + length d, g\<lparr>gb_data := m\<rparr>)))"

definition single_item :: "bool \<Rightarrow> ProfileManager \<Rightarrow> addr \<Rightarrow> User \<Rightarrow> SingleDataItem \<Rightarrow> nat \<times> global_buffer \<Rightarrow> (nat \<times> global_buffer) res" where
  "single_item alloc P a u q st =
     (if m_pFromUser q = Some a then Inr st
      else case m_eType q of
        PM2ALL \<Rightarrow> pm_item alloc (m_sNick u) (m_Data q) st
      | PM2OPS \<Rightarrow> if has_bits (m_ui32BoolBits u) BIT_OPERATOR then pm_item alloc (m_sNick u) (m_Data q) st else Inr st
      | OPCHAT \<Rightarrow> rbind (IsAllowed u ALLOWEDOPCHAT P) (\<lambda>ok. if ok then pm_item alloc (m_sNick u) (m_Data q) st else Inr st)
      | TOPROFILE \<Rightarrow> if m_i32Profile u = sd_i32Profile q then data_item alloc (m_Data q) st else Inr st
      | PM2PROFILE \<Rightarrow> if m_i32Profile u = sd_i32Profile q then pm_item alloc (m_sNick u) (m_Data q) st else Inr st)"

primrec single_items :: "bool \<Rightarrow> ProfileManager \<Rightarrow> addr \<Rightarrow> User \<Rightarrow> SingleDataItem list \<Rightarrow> nat \<times> global_buffer \<Rightarrow> (nat \<times> global_buffer) res" where
  "single_items alloc P a u [] st = Inr st"
| "single_items alloc P a u (q # qs) st = rbind (single_item alloc P a u q st) (single_items alloc P a u qs)"

definition ProcessSingleItems ::
    "hub_config \<Rightarrow> ProfileManager \<Rightarrow> (string \<Rightarrow> string option) \<Rightarrow> bool \<Rightarrow> addr \<Rightarrow> GlobalDataQueue \<Rightarrow> global_buffer \<times> hub \<Rightarrow> (global_buffer \<times> hub) res" where
  "ProcessSingleItems cfg P CreateZPipe alloc a G gH =
     rbind (the_user a (snd gH)) (\<lambda>u.
     rbind (single_items alloc P a u (m_SingleItems G) (0, fst gH)) (\<lambda>(szLen, g).
     rbind (if szLen \<noteq> 0 then SendCharDelayed cfg CreateZPipe a (take szLen (gb_data g)) (snd gH) else Inr (snd gH)) (\<lambda>H.
       Inr (ReduceGlobalBuffer alloc g, H))))"

section \<open>The last words of the hub\<close>

definition final_text :: "QueueItem \<Rightarrow> string res" where
  "final_text q =
     (if m_eCmdType q \<in> {OPS, CHAT, LUA}
      then rbind (is_ExtJSON q) (\<lambda>j. Inr (if j then [] else command_text (m_pCommand0 q))) else Inr [])"

primrec final_items :: "(nat \<Rightarrow> nat \<Rightarrow> nat) \<Rightarrow> QueueItem list \<Rightarrow> buffer \<Rightarrow> buffer res" where
  "final_items growth [] b = Inr b"
| "final_items growth (q # qs) b =
     rbind (final_text q) (\<lambda>t. rbind (AddDataToQueueStr growth t b) (final_items growth qs))"

primrec final_send :: "hub_config \<Rightarrow> string \<Rightarrow> string option \<Rightarrow> addr list \<Rightarrow> hub \<Rightarrow> hub res" where
  "final_send cfg t z [] H = Inr H"
| "final_send cfg t z (a # as) H =
     rbind (case z of
              Some y \<Rightarrow> rbind (PutInSendBuf cfg a y H) (\<lambda>(H1, _).
                Inr (H1\<lparr>m_ui64BytesSentSaved := m_ui64BytesSentSaved H1 + (word_of_nat (length t) - word_of_nat (length y))\<rparr>))
            | None \<Rightarrow> rbind (PutInSendBuf cfg a t H) (\<lambda>(H1, _). Inr H1)) (final_send cfg t z as)"

definition SendFinalQueue ::
    "hub_config \<Rightarrow> (string \<Rightarrow> string option) \<Rightarrow> (nat \<Rightarrow> nat \<Rightarrow> nat) \<Rightarrow> addr list \<Rightarrow> GlobalDataQueue \<times> hub \<Rightarrow> (GlobalDataQueue \<times> hub) res" where
  "SendFinalQueue cfg CreateZPipe growth users GH =
     (let G = fst GH; q = m_GlobalQueues G ! 0 in
      rbind (final_items growth (m_QueueItems G @ m_NewQueueItems G) (gq_buf q)) (\<lambda>b.
      if fb_len b = 0 then Inr (G\<lparr>m_GlobalQueues := (m_GlobalQueues G)[0 := q\<lparr>gq_buf := b\<rparr>]\<rparr>, snd GH)
      else
        rbind (buf_text b) (\<lambda>t.
        let y = (if length t < g_ui32ZMinDataLen then m_Zbuffer q else case CreateZPipe t of None \<Rightarrow> m_Zbuffer q | Some z \<Rightarrow> z) in
        rbind (final_send cfg t (if y = [] then None else Some y) users (snd GH)) (\<lambda>H.
          Inr (G\<lparr>m_GlobalQueues := (m_GlobalQueues G)[0 := q\<lparr>gq_buf := b, m_Zbuffer := y\<rparr>]\<rparr>, H)))))"

section \<open>Reports to operators\<close>

text \<open>\<open>t\<close> is what the format expands to; a report that does not fit the global buffer is dropped.\<close>

definition StatusMessageFormat :: "string \<Rightarrow> bool \<Rightarrow> nat \<Rightarrow> string \<Rightarrow> string \<Rightarrow> GlobalDataQueue \<Rightarrow> GlobalDataQueue" where
  "StatusMessageFormat raw as_pm gsize hub_sec t G =
     (let p = (if as_pm then hub_sec @ '' $'' else []) in
      if length t = 0 \<or> length t \<ge> gsize - length p then G
      else if as_pm then SingleItemStore (p @ t) None 0 PM2OPS G
      else AddQueueItem raw (p @ t) [] OPS G)"

end
