(* ===== verification/DataQueueSpec.thy ===== *)
theory DataQueueSpec
  imports DataQueue UserSend
begin

text \<open>
  What the broadcast queue delivers: buffers that are never overrun but lose data when they grow, queues shared by
  kinds of users that are not meant to share them, and the faults on the way to the send buffer.
\<close>

section \<open>Buffers\<close>

definition sound_buf :: "buffer \<Rightarrow> bool" where
  "sound_buf b \<longleftrightarrow> fb_size b \<le> length (fb_mem b) \<and> fb_len b < length (fb_mem b)"

text \<open>A vector that takes no more than it is asked for.\<close>

definition tight :: "buffer \<Rightarrow> bool" where
  "tight b \<longleftrightarrow> fb_size b = length (fb_mem b) \<and> fb_len b < length (fb_mem b)"

abbreviation shown :: "buffer \<Rightarrow> string" where
  "shown b \<equiv> take (fb_len b) (fb_mem b)"

lemma buf_text_sound: "sound_buf b \<Longrightarrow> buf_text b = Inr (shown b)"
  by (simp add: sound_buf_def buf_text_def)

lemma tight_sound: "tight b \<Longrightarrow> sound_buf b"
  by (simp add: tight_def sound_buf_def)

lemma new_buffer_tight: "tight new_buffer" "fb_len new_buffer = 0"
  by (simp_all add: tight_def new_buffer_def g_ui32InitialQueueBufferSize_def)

lemma make_space_room: "sound_buf b \<Longrightarrow> n < length (fb_mem (make_space growth n b))"
  by (auto simp: make_space_def vec_resize_def AlignUp_def sound_buf_def)

lemma take_written: "n + length t < length m \<Longrightarrow> take (n + length t) (blit m n (t @ [c])) = take n m @ t"
  by (simp add: blit_def)

lemma make_space_size: "fb_size b \<le> length (fb_mem b) \<Longrightarrow> fb_size (make_space growth n b) \<le> length (fb_mem (make_space growth n b))"
  by (auto simp: make_space_def vec_resize_def AlignUp_def)

lemma AddDataToQueue_run:
  assumes "sound_buf b"
  shows "AddDataToQueue growth t b = Inr ((make_space growth (fb_len b + length t) b)
      \<lparr>fb_mem := blit (fb_mem (make_space growth (fb_len b + length t) b)) (fb_len b) (t @ [CHR 0x00]), fb_len := fb_len b + length t\<rparr>)"
  using make_space_room [OF assms, of "fb_len b + length t" growth] by (simp add: AddDataToQueue_def Let_def put_def)

lemma AddDataToQueue_sound:
  assumes "sound_buf b"
  shows "\<exists>b'. AddDataToQueue growth t b = Inr b' \<and> sound_buf b' \<and> fb_len b' = fb_len b + length t"
  using make_space_room [of b "fb_len b + length t" growth] make_space_size [of b growth "fb_len b + length t"] assms
  by (simp add: AddDataToQueue_run sound_buf_def)

text \<open>While the data lie within the size, or no growing is needed, an addition appends.\<close>

lemma AddDataToQueue_appends:
  assumes "sound_buf b" and "fb_len b \<le> fb_size b \<or> fb_len b + length t < length (fb_mem b)"
  shows "\<exists>b'. AddDataToQueue growth t b = Inr b' \<and> shown b' = shown b @ t"
proof -
  let ?b = "make_space growth (fb_len b + length t) b"
  have r: "fb_len b + length t < length (fb_mem ?b)" using assms(1) by (rule make_space_room)
  have "take (fb_len b) (fb_mem ?b) = shown b"
    using assms by (auto simp: make_space_def vec_resize_def AlignUp_def sound_buf_def min_def)
  then show ?thesis using r by (simp add: AddDataToQueue_run [OF assms(1)] take_written del: take_append)
qed

definition exact :: "(nat \<Rightarrow> nat \<Rightarrow> nat) \<Rightarrow> bool" where
  "exact growth \<longleftrightarrow> (\<forall>s n. growth s n \<le> n)"

lemma AddDataToQueue_tight:
  assumes "tight b" and "exact growth"
  shows "\<exists>b'. AddDataToQueue growth t b = Inr b' \<and> tight b' \<and> shown b' = shown b @ t"
proof -
  have mx: "max n (growth s n) = n" for s n using assms(2) by (simp add: exact_def max_absorb1)
  have "tight (b' :: buffer)" if "AddDataToQueue growth t b = Inr b'" for b'
    using that assms make_space_room [of b "fb_len b + length t" growth]
    by (auto simp: AddDataToQueue_run [OF tight_sound] tight_def make_space_def vec_resize_def AlignUp_def mx)
  then show ?thesis using AddDataToQueue_appends [OF tight_sound [OF assms(1)], of t growth] assms(1) by (auto simp: tight_def)
qed

text \<open>
  When a buffer must grow while its data run past its size, everything between the size and the end of the data is
  lost: it reads as NUL characters in front of the new text.
\<close>

lemma growing_loses_data:
  assumes "sound_buf b" and "fb_size b \<le> fb_len b" and "length (fb_mem b) \<le> fb_len b + length t"
  shows "\<exists>b'. AddDataToQueue growth t b = Inr b'
    \<and> shown b' = take (fb_size b) (fb_mem b) @ replicate (fb_len b - fb_size b) (CHR 0x00) @ t"
proof -
  let ?b = "make_space growth (fb_len b + length t) b"
  have r: "fb_len b + length t < length (fb_mem ?b)" using assms(1) by (rule make_space_room)
  have "take (fb_len b) (fb_mem ?b) = take (fb_size b) (fb_mem b) @ replicate (fb_len b - fb_size b) (CHR 0x00)"
    using assms by (auto simp: make_space_def vec_resize_def AlignUp_def sound_buf_def min_def)
  then show ?thesis using r by (simp add: AddDataToQueue_run [OF assms(1)] take_written del: take_append)
qed

text \<open>
  C13. With vectors that double their capacity, the broadcast of a tick loses text: of four texts of which the second
  fills the first 256 bytes and the fourth runs over the doubled 512, the third is replaced by NUL characters but for
  its first character.
\<close>

theorem doubling_loses_text:
  assumes growth: "\<And>s n. growth s n = max (2 * s) n"
    and one: "length t1 < 256" and two: "256 \<le> length (t1 @ t2)" and three: "length (t1 @ t2 @ t3) < 512" "t3 \<noteq> []"
    and four: "512 \<le> length (t1 @ t2 @ t3 @ t4)"
  shows "\<exists>b. rbind (rbind (rbind (AddDataToQueue growth t1 new_buffer) (AddDataToQueue growth t2)) (AddDataToQueue growth t3))
      (AddDataToQueue growth t4) = Inr b
    \<and> buf_text b = Inr (t1 @ t2 @ [hd t3] @ replicate (length t3 - 1) (CHR 0x00) @ t4)"
proof -
  have n: "sound_buf new_buffer" "fb_len new_buffer = 0" "length (fb_mem new_buffer) = 256" "fb_size new_buffer = 256"
    by (simp_all add: sound_buf_def new_buffer_def g_ui32InitialQueueBufferSize_def)
  obtain b1 where b1: "AddDataToQueue growth t1 new_buffer = Inr b1" "sound_buf b1" "fb_len b1 = length t1"
      "length (fb_mem b1) = 256" "fb_size b1 = 256" "shown b1 = t1"
    using AddDataToQueue_sound [OF n(1), of growth t1] AddDataToQueue_appends [OF n(1), of t1 growth] one n
    by (auto simp: AddDataToQueue_run [OF n(1)] make_space_def)
  obtain b2 where b2: "AddDataToQueue growth t2 b1 = Inr b2" "sound_buf b2" "fb_len b2 = length (t1 @ t2)"
      "length (fb_mem b2) = 512" "fb_size b2 = length (t1 @ t2) + 1" "shown b2 = t1 @ t2"
    using AddDataToQueue_sound [OF b1(2), of growth t2] AddDataToQueue_appends [OF b1(2), of t2 growth] b1(3-6) one two three
    by (auto simp: AddDataToQueue_run [OF b1(2)] make_space_def vec_resize_def AlignUp_def growth)
  obtain b3 where b3: "AddDataToQueue growth t3 b2 = Inr b3" "sound_buf b3" "fb_len b3 = length (t1 @ t2 @ t3)"
      "length (fb_mem b3) = 512" "fb_size b3 = length (t1 @ t2) + 1" "shown b3 = t1 @ t2 @ t3"
    using AddDataToQueue_sound [OF b2(2), of growth t3] AddDataToQueue_appends [OF b2(2), of t3 growth] b2(3-6) three
    by (auto simp: AddDataToQueue_run [OF b2(2)] make_space_def add.assoc)
  have "take (fb_size b3) (fb_mem b3) = take (fb_size b3) (shown b3)" using b3(3,5) three(2) by (cases t3) simp_all
  also have "\<dots> = t1 @ t2 @ [hd t3]" unfolding b3(6) using b3(5) three(2) by (cases t3) simp_all
  finally have kept: "take (fb_size b3) (fb_mem b3) = t1 @ t2 @ [hd t3]" .
  have "fb_size b3 \<le> fb_len b3" "length (fb_mem b3) \<le> fb_len b3 + length t4" "fb_len b3 - fb_size b3 = length t3 - 1"
    using b3(3-5) three(2) four by (cases t3; simp)+
  with growing_loses_data [OF b3(2), of t4 growth] kept AddDataToQueue_sound [OF b3(2), of growth t4]
  obtain b4 where "AddDataToQueue growth t4 b3 = Inr b4" "sound_buf b4"
      "shown b4 = t1 @ t2 @ [hd t3] @ replicate (length t3 - 1) (CHR 0x00) @ t4" by auto
  then show ?thesis using b1(1) b2(1) b3(1) by (simp add: buf_text_sound)
qed

lemma doubling_loses_text_witness:
  "\<exists>b. rbind (rbind (rbind (AddDataToQueue (\<lambda>s n. max (2 * s) n) (replicate 200 CHR ''a'') new_buffer)
        (AddDataToQueue (\<lambda>s n. max (2 * s) n) (replicate 100 CHR ''b'')))
        (AddDataToQueue (\<lambda>s n. max (2 * s) n) (replicate 150 CHR ''c'')))
        (AddDataToQueue (\<lambda>s n. max (2 * s) n) (replicate 100 CHR ''d'')) = Inr b
    \<and> buf_text b = Inr (replicate 200 CHR ''a'' @ replicate 100 CHR ''b'' @ [CHR ''c''] @ replicate 149 (CHR 0x00) @ replicate 100 CHR ''d'')"
  using doubling_loses_text [of "\<lambda>s n. max (2 * s) n" "replicate 200 CHR ''a''" "replicate 100 CHR ''b''"
      "replicate 150 CHR ''c''" "replicate 100 CHR ''d''"]
  by (simp add: hd_replicate)

section \<open>Kinds of users\<close>

definition class_bits :: "nat \<Rightarrow> u16" where
  "class_bits c =
     (if c = 0 then 0 else if c = 2 then Q_ALL_SEARCHES_IPV4 else if c = 4 then Q_ALL_SEARCHES_IPV6
      else if c = 6 then Q_ALL_SEARCHES_IPV64 else if c = 8 then Q_ACTIVE_SEARCHES_IPV4 else if c = 10 then Q_ACTIVE_SEARCHES_IPV6
      else if c = 12 then Q_ACTIVE_SEARCHES_IPV64 else if c = 14 then Q_ALL_SEARCHES_IPV6_ACTIVE_IPV4
      else Q_ACTIVE_SEARCHES_IPV6_ALL_IPV4)"

definition kind :: "bool \<Rightarrow> nat \<Rightarrow> bool \<Rightarrow> bool \<Rightarrow> bool \<Rightarrow> nat \<times> u16" where
  "kind long c hello op ips =
     (of_bool long + c + 14 * of_bool hello + 28 * of_bool op + 56 * of_bool ips,
      (if long then Q_LONG_MYINFO else 0) OR class_bits c OR (if hello then Q_HELLO else 0)
        OR (if op then Q_OPERATOR else 0) OR (if ips then Q_USERIP else 0))"

lemma search_class_cases:
  "fst (search_class u) \<in> {0, 2, 4, 6, 8, 10, 12, 14, 16}" "search_class u = (fst (search_class u), class_bits (fst (search_class u)))"
  by (auto simp: search_class_def class_bits_def Let_def)

lemma queue_kind_kind:
  assumes "queue_kind cfg P u = Inr k"
  shows "\<exists>long ips. k = kind long (fst (search_class u)) (\<not> has_bits (m_ui32SupportBits u) SUPPORTBIT_NOHELLO)
    (has_bits (m_ui32BoolBits u) BIT_OPERATOR) ips"
proof -
  have s: "snd (search_class u) = class_bits (fst (search_class u))" using search_class_cases(2) [of u] by (metis snd_conv)
  from assms obtain long ips where "k = plus_kind ips (56, Q_USERIP)
      (plus_kind (has_bits (m_ui32BoolBits u) BIT_OPERATOR) (28, Q_OPERATOR)
        (plus_kind (\<not> has_bits (m_ui32SupportBits u) SUPPORTBIT_NOHELLO) (14, Q_HELLO)
          (plus_kind True (search_class u) (plus_kind long (1, Q_LONG_MYINFO) (0, 0)))))"
    by (auto simp: queue_kind_def Let_def rbind_Inr_iff)
  then have "k = kind long (fst (search_class u)) (\<not> has_bits (m_ui32SupportBits u) SUPPORTBIT_NOHELLO)
      (has_bits (m_ui32BoolBits u) BIT_OPERATOR) ips"
    by (cases long; cases ips; cases "has_bits (m_ui32SupportBits u) SUPPORTBIT_NOHELLO"; cases "has_bits (m_ui32BoolBits u) BIT_OPERATOR")
      (simp_all add: plus_kind_def kind_def s or.assoc)
  then show ?thesis by blast
qed

lemma queue_kind_bound: "queue_kind cfg P u = Inr k \<Longrightarrow> fst k < 144"
  using queue_kind_kind [of cfg P u k] search_class_cases(1) [of u] by (auto simp: kind_def)


text \<open>An operator who shares nothing and needs no hellos; a user with both addresses, active over IPv6 only.\<close>

definition demo_op :: User where
  "demo_op = blank_user\<lparr>m_sNick := ''op'', m_i32Profile := -1, m_ui32BoolBits := BIT_OPERATOR, m_ui32SupportBits := SUPPORTBIT_NOHELLO,
     m_ui64SharedSize := 0\<rparr>"

definition demo_mixed :: User where
  "demo_mixed = blank_user\<lparr>m_sNick := ''eve'', m_i32Profile := -1, m_ui32BoolBits := BIT_IPV6 OR BIT_IPV4 OR BIT_IPV6_ACTIVE,
     m_ui32SupportBits := 0, m_ui64SharedSize := 1\<rparr>"

definition no_profiles :: ProfileManager where
  "no_profiles = \<lparr>m_vpProfilesTable = [], m_ui16ProfileCount = 0\<rparr>"

lemma demo_op_fields [simp]:
  "has_bits (m_ui32BoolBits demo_op) BIT_OPERATOR" "\<not> has_bits (m_ui32BoolBits demo_op) BIT_IPV6"
  "\<not> has_bits (m_ui32BoolBits demo_op) BIT_IPV4_ACTIVE" "has_bits (m_ui32SupportBits demo_op) SUPPORTBIT_NOHELLO"
  "\<not> has_bits (m_ui32SupportBits demo_op) SUPPORTBIT_USERIP2" "m_ui64SharedSize demo_op = 0" "full_myinfo_option demo_config = 0"
  by (simp_all add: demo_op_def demo_config_def user_bits has_bits_def)


lemma new_buffer_gets: "\<exists>b. AddDataToQueueStr growth t new_buffer = Inr b \<and> buf_text b = Inr t"
proof -
  note new = tight_sound [OF new_buffer_tight(1)]
  have z: "shown new_buffer = []" by (simp add: new_buffer_tight(2))
  have "fb_len new_buffer \<le> fb_size new_buffer" by (simp add: new_buffer_tight(2))
  then obtain b where b1: "AddDataToQueue growth t new_buffer = Inr b" "shown b = [] @ t"
    using AddDataToQueue_appends [OF new, of t growth] unfolding z by blast
  moreover from AddDataToQueue_sound [OF new, of growth t] obtain b2 where "AddDataToQueue growth t new_buffer = Inr b2" "sound_buf b2" by blast
  ultimately have b: "AddDataToQueue growth t new_buffer = Inr b" "sound_buf b" "shown b = t" by simp_all
  show ?thesis
    using b(1) buf_text_sound [OF b(2)] buf_text_sound [OF new] unfolding b(3) z by (simp add: AddDataToQueueStr_def)
qed

text \<open>
  C14. An operator who shares nothing and takes no hellos has the queue of a user who shares something, is connected
  over both kinds of address, active over IPv6 only, and takes hellos.  When the operator comes first in the loop that
  user is sent what was meant for operators.
\<close>

theorem operator_items_leak:
  assumes cfg: "full_myinfo_option cfg \<noteq> 1"
    and op: "has_bits (m_ui32BoolBits op) BIT_OPERATOR" "m_ui64SharedSize op = 0" "has_bits (m_ui32SupportBits op) SUPPORTBIT_NOHELLO"
      "\<not> has_bits (m_ui32SupportBits op) SUPPORTBIT_USERIP2"
    and us: "\<not> has_bits (m_ui32BoolBits u) BIT_OPERATOR" "m_ui64SharedSize u \<noteq> 0" "has_bits (m_ui32BoolBits u) BIT_IPV6"
      "has_bits (m_ui32BoolBits u) BIT_IPV4" "has_bits (m_ui32BoolBits u) BIT_IPV6_ACTIVE" "\<not> has_bits (m_ui32BoolBits u) BIT_IPV4_ACTIVE"
      "\<not> has_bits (m_ui32SupportBits u) SUPPORTBIT_NOHELLO" "\<not> has_bits (m_ui32SupportBits u) SUPPORTBIT_USERIP2"
    and q: "m_eCmdType q = OPS" "m_pCommand0 q = Some c" "is_ExtJSON q = Inr False"
    and G: "m_QueueItems G = [q]" "fb_len (m_OpListQueue G) = 0" "fb_len (m_UserIPQueue G) = 0"
      "28 < length (m_GlobalQueues G)" "m_GlobalQueues G ! 28 = new_queue"
  shows "\<exists>k k' G1. queue_kind cfg P op = Inr k \<and> queue_kind cfg P u = Inr k' \<and> item_text json' u (snd k') q = Inr []
    \<and> queue_of growth json op k G = Inr G1 \<and> queue_of growth json' u k' G1 = Inr G1
    \<and> buf_text (gq_buf (m_GlobalQueues G1 ! fst k')) = Inr c"
proof -
  have k: "queue_kind cfg P op = Inr (28, Q_OPERATOR)"
    using cfg op by (simp add: queue_kind_def search_class_def plus_kind_def Let_def)
  have k': "queue_kind cfg P u = Inr (28, Q_ALL_SEARCHES_IPV6_ACTIVE_IPV4 OR Q_HELLO)"
    using cfg us by (simp add: queue_kind_def search_class_def plus_kind_def Let_def)
  have none: "item_text json' u (Q_ALL_SEARCHES_IPV6_ACTIVE_IPV4 OR Q_HELLO) q = Inr []"
    using q(1) by (simp add: item_text_def queue_bits has_bits_def)
  obtain b where b: "AddDataToQueueStr growth c new_buffer = Inr b" "buf_text b = Inr c" using new_buffer_gets by blast
  have "item_text json op Q_OPERATOR q = Inr c"
    using q by (simp add: item_text_def has_bits_def command_text_def)
  with b(1) G have "queue_of growth json op (28, Q_OPERATOR) G = Inr (G\<lparr>m_GlobalQueues := (m_GlobalQueues G)[28 := new_queue\<lparr>gq_buf := b, m_bCreated := True\<rparr>],
      m_CreatedGlobalQueues := 28 # m_CreatedGlobalQueues G\<rparr>)" (is "_ = Inr ?G1")
    by (simp add: queue_of_def build_queue_def new_queue_def)
  moreover have "queue_of growth json' u (28, bits) ?G1 = Inr ?G1" for bits using G(4) by (simp add: queue_of_def)
  moreover have "buf_text (gq_buf (m_GlobalQueues ?G1 ! 28)) = Inr c" using G(4) b(2) by simp
  ultimately show ?thesis using k k' none by force
qed

lemma operator_items_leak_witness:
  "\<exists>k k' G1. queue_kind demo_config no_profiles demo_op = Inr k \<and> queue_kind demo_config no_profiles demo_mixed = Inr k'
    \<and> item_text False demo_mixed (snd k') (CreateQueueItem (replicate 24 (CHR 0x00)) ''<op> kick him|'' [] OPS) = Inr []
    \<and> queue_of max False demo_op k (new_GlobalDataQueue\<lparr>m_QueueItems := [CreateQueueItem (replicate 24 (CHR 0x00)) ''<op> kick him|'' [] OPS]\<rparr>) = Inr G1
    \<and> queue_of max False demo_mixed k' G1 = Inr G1
    \<and> buf_text (gq_buf (m_GlobalQueues G1 ! fst k')) = Inr ''<op> kick him|''"
  by (rule operator_items_leak)
    (simp_all add: demo_config_def demo_op_def demo_mixed_def user_bits has_bits_def CreateQueueItem_def is_ExtJSON_def
      new_GlobalDataQueue_def new_buffer_def align8_def)

text \<open>
  Of an active search sent with both addresses of the searcher the command with the IPv6 address goes to everyone,
  also to users connected over IPv4 only, who cannot answer it; the command with the IPv4 address, the second of the
  item, is sent to nobody: only announcements have their second command read.
\<close>

theorem ipv4_user_gets_ipv6_search:
  assumes "m_eCmdType q = ACTIVE_SEARCH_V64" and "m_pCommand0 q = Some s6"
    and "queue_kind cfg P u = Inr k" and "m_ui64SharedSize u \<noteq> 0" and "\<not> has_bits (m_ui32BoolBits u) BIT_IPV6"
  shows "item_text json u (snd k) q = Inr s6 \<and> item_text json v bits (q\<lparr>m_pCommand1 := x\<rparr>) = item_text json v bits q"
proof -
  from queue_kind_kind [OF assms(3)] obtain l h d i where k: "k = kind l (fst (search_class u)) h d i" by blast
  have c: "fst (search_class u) = 2 \<or> fst (search_class u) = 8" using assms(4,5) by (simp add: search_class_def)
  have "\<not> has_bits (snd k) Q_ALL_SEARCHES_IPV6" "\<not> has_bits (snd k) Q_ACTIVE_SEARCHES_IPV6"
    using c by (auto simp: k kind_def class_bits_def queue_bits has_bits_def; cases l; cases h; cases d; cases i; simp)+
  then show ?thesis using assms(1,2,4) by (simp add: item_text_def search_text_def command_text_def Let_def)
qed

lemma ipv4_user_gets_ipv6_search_witness:
  "\<exists>k. queue_kind demo_config no_profiles (demo_op\<lparr>m_ui64SharedSize := 1\<rparr>) = Inr k
    \<and> item_text False (demo_op\<lparr>m_ui64SharedSize := 1\<rparr>) (snd k)
        (CreateQueueItem (replicate 80 (CHR 0x00)) ''$Search [::7]:9 F?T?0?1?x|'' ''$Search 1.2.3.4:9 F?T?0?1?x|'' ACTIVE_SEARCH_V64)
      = Inr ''$Search [::7]:9 F?T?0?1?x|''"
proof -
  have "queue_kind demo_config no_profiles (demo_op\<lparr>m_ui64SharedSize := 1\<rparr>) = Inr (36, Q_ACTIVE_SEARCHES_IPV4 OR Q_OPERATOR)"
    "\<not> has_bits (m_ui32BoolBits (demo_op\<lparr>m_ui64SharedSize := 1\<rparr>)) BIT_IPV6"
    by (simp_all add: queue_kind_def search_class_def plus_kind_def Let_def)
  with ipv4_user_gets_ipv6_search [OF _ _ this(1), of "CreateQueueItem (replicate 80 (CHR 0x00)) ''$Search [::7]:9 F?T?0?1?x|''
      ''$Search 1.2.3.4:9 F?T?0?1?x|'' ACTIVE_SEARCH_V64" "''$Search [::7]:9 F?T?0?1?x|''" False]
  show ?thesis by (simp add: CreateQueueItem_def)
qed

section \<open>The text of a queue\<close>

lemma AddDataToQueueStr_tight:
  assumes "tight b" and "exact growth"
  shows "\<exists>b'. AddDataToQueueStr growth t b = Inr b' \<and> tight b' \<and> shown b' = shown b @ t"
  using assms AddDataToQueue_tight [OF assms, of t] by (simp add: AddDataToQueueStr_def)

lemma build_items_tight:
  assumes "exact growth"
  shows "tight b \<Longrightarrow> map (item_text json u bits) qs = map Inr ts \<Longrightarrow>
    \<exists>b'. build_items growth json u bits qs b = Inr b' \<and> tight b' \<and> shown b' = shown b @ concat ts"
proof (induction qs arbitrary: b ts)
  case (Cons q qs)
  from Cons.prems(2) obtain t us where ts: "ts = t # us" "item_text json u bits q = Inr t" "map (item_text json u bits) qs = map Inr us"
    by (cases ts) auto
  from AddDataToQueueStr_tight [OF Cons.prems(1) assms, of t] obtain b1 where
    b1: "AddDataToQueueStr growth t b = Inr b1" "tight b1" "shown b1 = shown b @ t" by blast
  from Cons.IH [OF b1(2) ts(3)] obtain b2 where
    "build_items growth json u bits qs b1 = Inr b2" "tight b2" "shown b2 = shown b1 @ concat us" by blast
  with b1 ts(1,2) show ?case by simp
qed auto



section \<open>Single items\<close>

text \<open>
  A text for the users of one profile that fills the global buffer to its last byte is copied into it with its
  NUL behind the end of the buffer; one that leaves a byte free, or makes the buffer grow, is appended.
\<close>

theorem profile_item_bounds:
  assumes "length (gb_data g) = gb_size g" and "n \<le> gb_size g"
  shows "data_item True d (n, g) =
    (if n + length d = gb_size g then Inl BufferOverflow
     else let g' = snd (CheckAndResizeGlobalBuffer True (n + length d) g)
          in Inr (n + length d, g'\<lparr>gb_data := blit (gb_data g') n (d @ [CHR 0x00])\<rparr>))"
proof -
  have "length (gb_data (snd (CheckAndResizeGlobalBuffer True (n + length d) g))) = gb_size (snd (CheckAndResizeGlobalBuffer True (n + length d) g))"
    using assms by (simp add: CheckAndResizeGlobalBuffer_def Let_def Allign_def)
  moreover have "gb_size (snd (CheckAndResizeGlobalBuffer True (n + length d) g)) =
      (if n + length d \<le> gb_size g then gb_size g else Allign (n + length d))"
    by (simp add: CheckAndResizeGlobalBuffer_def Let_def)
  moreover have "fst (CheckAndResizeGlobalBuffer True (n + length d) g)" by (simp add: CheckAndResizeGlobalBuffer_def Let_def)
  ultimately show ?thesis
    by (cases "CheckAndResizeGlobalBuffer True (n + length d) g") (auto simp: data_item_def Let_def put_def Allign_def)
qed

lemma profile_item_bounds_witness:
  "data_item True ''hi|'' (1, \<lparr>gb_size = 4, gb_data = ''abcd''\<rparr>) = Inl BufferOverflow"
  using profile_item_bounds [of "\<lparr>gb_size = 4, gb_data = ''abcd''\<rparr>" 1 "''hi|''"] by simp

section \<open>A send buffer that overflows\<close>

text \<open>
  C15. A user connected over IPv4 who shares something, has an active search of its own in this tick and takes no
  compressed data: when the broadcast overflows the send buffer the user is closed, which deletes the search, and the
  search is then read through the null pointer.
\<close>

theorem overflow_reads_null:
  assumes al: "alive a (tk_hub T)" and u: "hm_users (hub_users (tk_hub T)) a = Some u" "\<not> isPastLogin (m_ui8State u)"
      "m_ui64SharedSize u \<noteq> 0" "\<not> has_bits (m_ui32BoolBits u) BIT_IPV6" "\<not> has_bits (m_ui32SupportBits u) SUPPORTBIT_ZPIPE"
    and s: "m_pCmdActive4Search (tk_searches T) = Some own"
    and q: "queue_kind cfg P u = Inr k" "queue_of growth json u k (tk_queue T) = Inr G"
      "buf_text (gq_buf (m_GlobalQueues G ! fst k)) = Inr t" "t \<noteq> []"
    and r: "room_for (length t) a (tk_hub T)"
    and over: "put_in_buf (max_buf_len (has_bits (m_ui32BoolBits u) BIT_BIG_SEND_BUFFER) (m_ui32MyInfosTagLen (tk_hub T)) (m_ui32MyInfosLen (tk_hub T)))
      (keep_slow_users cfg) t (m_SendBuf u) = Inr None"
  shows "ProcessQueues cfg P CreateZPipe growth True json a T = Inl NullDeref"
proof -
  let ?T1 = "T\<lparr>tk_queue := G\<rparr>"
  have user: "the_user a (tk_hub T) = Inr u" using u(1) by (simp add: the_user_def ub_simps)
  from PutInSendBuf_alive [OF al q(4) r, of cfg] obtain H' ok where put: "PutInSendBuf cfg a t (tk_hub T) = Inr (H', ok)" "alive a H'" by blast
  have "\<not> ok" using put(1) over u(5) by (auto simp: PutInSendBuf_def user rbind_Inr_iff)
  then have tick: "tick_put cfg a t ?T1 = Inr (forget_searches (?T1\<lparr>tk_hub := H'\<rparr>))"
    using put(1) user u(2) by (simp add: tick_put_def)
  from put(2) obtain v where "the_user a H' = Inr v" by (auto simp: alive_def the_user_def ub_simps)
  then have from_def: "\<exists>n. rem_offset a m (forget_searches (?T1\<lparr>tk_hub := H'\<rparr>)) = Inr n" for m
    by (simp add: rem_offset_def forget_searches_def)
  have "fb_len (gq_buf (m_GlobalQueues G ! fst k)) \<noteq> 0" using q(3,4) by (auto simp: buf_text_def split: if_splits)
  moreover have "send_ipv4 cfg CreateZPipe a u (fst k) own t ?T1 = Inl NullDeref"
    using u(5) tick from_def [of "length (sb_data (m_SendBuf u))"]
    by (auto simp: send_ipv4_def zip_for_def forget_searches_def no_searches_def)
  ultimately show ?thesis using user q u(3,4) s by (simp add: ProcessQueues_def Let_def)
qed

definition full_buf :: SendBuf where
  "full_buf = \<lparr>sb_alloc = True, sb_data = replicate 200000 CHR ''x'', sb_head = 0, sb_len = 200000, sb_called = 0\<rparr>"

definition demo_queue :: "nat \<Rightarrow> GlobalDataQueue" where
  "demo_queue i = new_GlobalDataQueue\<lparr>m_GlobalQueues := (replicate 144 new_queue)[i := \<lparr>gq_buf = \<lparr>fb_mem = ''<a> hi|'' @ [CHR 0x00],
     fb_size = 8, fb_len = 7\<rparr>, m_bCreated = True, m_bZlined = False, m_Zbuffer = []\<rparr>]\<rparr>"

definition demo_searcher :: "User \<Rightarrow> User" where
  "demo_searcher u = u\<lparr>m_ui64SharedSize := 1, m_SendBuf := full_buf\<rparr>"

definition demo_tick :: tick where
  "demo_tick = \<lparr>tk_queue = demo_queue 22, tk_hub = upd 1 demo_searcher demo_hub,
     tk_searches = \<lparr>m_pCmdActive4Search = Some ''$Search 1.2.3.4:9 F?T?0?1?x|'', m_pCmdActive6Search = None\<rparr>\<rparr>"

lemma demo_searcher_bits:
  "\<not> has_bits (m_ui32BoolBits demo_member) BIT_IPV6" "\<not> has_bits (m_ui32BoolBits demo_member) BIT_IPV4_ACTIVE"
  "\<not> has_bits (m_ui32BoolBits demo_member) BIT_OPERATOR" "\<not> has_bits (m_ui32SupportBits demo_member) SUPPORTBIT_NOHELLO"
  "\<not> has_bits (m_ui32SupportBits demo_member) SUPPORTBIT_USERIP2" "\<not> has_bits (m_ui32BoolBits demo_member) BIT_BIG_SEND_BUFFER"
  by (simp_all add: demo_member_def blank_user_def user_bits has_bits_def)

lemma overflow_reads_null_witness:
  "ProcessQueues demo_config no_profiles (\<lambda>_. None) (\<lambda>s n. n) True False 1 demo_tick = Inl NullDeref"
proof -
  let ?u = "demo_searcher demo_member"
  have "alive 1 demo_hub" using demo_hub_user hub_inv_demo unfolding alive_def by blast
  then have "set_user 1 demo_searcher demo_hub = Inr (upd 1 demo_searcher demo_hub) \<and> alive 1 (upd 1 demo_searcher demo_hub)"
    by (rule set_user_alive) (simp_all add: keeps_def demo_searcher_def full_buf_def buf_ok_def)
  then have al: "alive 1 (tk_hub demo_tick)" by (simp add: demo_tick_def)
  have u: "hm_users (hub_users (tk_hub demo_tick)) 1 = Some ?u"
    using demo_hub_user by (simp add: demo_tick_def upd_def del: One_nat_def)
  have k: "queue_kind demo_config no_profiles ?u = Inr (22, Q_ACTIVE_SEARCHES_IPV4 OR Q_HELLO)"
    by (simp add: queue_kind_def search_class_def plus_kind_def Let_def demo_searcher_def demo_searcher_bits)
  have G: "queue_of (\<lambda>s n. n) False ?u (22, Q_ACTIVE_SEARCHES_IPV4 OR Q_HELLO) (tk_queue demo_tick) = Inr (demo_queue 22)"
    by (simp add: queue_of_def demo_tick_def demo_queue_def)
  have t: "buf_text (gq_buf (m_GlobalQueues (demo_queue 22) ! 22)) = Inr ''<a> hi|''" by (simp add: demo_queue_def buf_text_def)
  have over: "put_in_buf 262144 False ''<a> hi|'' full_buf = Inr None"
    by (simp add: put_in_buf_def make_room_def full_buf_def Allign_def Let_def)
  show ?thesis
    by (rule overflow_reads_null [where t = "''<a> hi|''", OF al u _ _ _ _ _ k G])
      (simp_all add: demo_searcher_def demo_searcher_bits isPastLogin_iff t demo_tick_def room_for_def full_buf_def upd_def
        max_buf_len_def demo_hub_def demo_config_def over [unfolded full_buf_def])
qed

section \<open>Every state the queue can be in\<close>

inductive reachable_queue :: "(nat \<Rightarrow> nat \<Rightarrow> nat) \<Rightarrow> GlobalDataQueue \<Rightarrow> bool" for growth where
  start: "reachable_queue growth new_GlobalDataQueue"
| item: "reachable_queue growth G \<Longrightarrow> reachable_queue growth (AddQueueItem raw c1 c2 e G)"
| blank: "reachable_queue growth G \<Longrightarrow> reachable_queue growth (fst (InsertBlankQueueItem raw i e G))"
| single: "reachable_queue growth G \<Longrightarrow> reachable_queue growth (SingleItemStore d a p e2 G)"
| op: "reachable_queue growth G \<Longrightarrow> length n \<le> 240 \<Longrightarrow> OpListStore growth n G = Inr G' \<Longrightarrow> reachable_queue growth G'"
| ip: "reachable_queue growth G \<Longrightarrow> length (ip_item u) \<le> 240 \<Longrightarrow> UserIPStore growth u G = Inr G' \<Longrightarrow> reachable_queue growth G'"
| prepare: "reachable_queue growth G \<Longrightarrow> reachable_queue growth (PrepareQueueItems G)"
| process: "reachable_queue growth G \<Longrightarrow> queue_of growth json u k G = Inr G' \<Longrightarrow> reachable_queue growth G'"
| zip: "reachable_queue growth G \<Longrightarrow> i < length (m_GlobalQueues G) \<Longrightarrow> zip_queue zp (m_GlobalQueues G ! i) = Inr q \<Longrightarrow>
    reachable_queue growth (G\<lparr>m_GlobalQueues := (m_GlobalQueues G)[i := q]\<rparr>)"
| clear: "reachable_queue growth G \<Longrightarrow> reachable_queue growth (ClearQueues G)"

definition list_buf :: "buffer \<Rightarrow> bool" where
  "list_buf b \<longleftrightarrow> fb_size b \<le> length (fb_mem b) \<and> fb_len b \<le> length (fb_mem b) \<and> 256 \<le> length (fb_mem b)"

definition queue_wf :: "GlobalQueue \<Rightarrow> bool" where
  "queue_wf q \<longleftrightarrow> sound_buf (gq_buf q) \<and> (\<not> m_bCreated q \<longrightarrow> fb_len (gq_buf q) = 0)"

definition queues_wf :: "GlobalDataQueue \<Rightarrow> bool" where
  "queues_wf G \<longleftrightarrow> length (m_GlobalQueues G) = 144 \<and> list_buf (m_OpListQueue G) \<and> list_buf (m_UserIPQueue G)
     \<and> set (m_CreatedGlobalQueues G) \<subseteq> {..<144}
     \<and> (\<forall>i<144. queue_wf (m_GlobalQueues G ! i) \<and> m_bCreated (m_GlobalQueues G ! i) = (i \<in> set (m_CreatedGlobalQueues G)))"

lemma length_print_at [simp]: "off \<le> length (fb_mem b) \<Longrightarrow> length (fb_mem (print_at off t b)) = length (fb_mem b)"
  by (auto simp: print_at_def vsnprintf_def blit_def)

lemma print_at_simps [simp]: "fb_size (print_at off t b) = fb_size b" "fb_len (print_at off t b) = fb_len b"
  by (simp_all add: print_at_def)

lemma make_space_grows: "fb_size b \<le> length (fb_mem b) \<Longrightarrow> length (fb_mem b) \<le> length (fb_mem (make_space growth n b))
    \<and> n < length (fb_mem (make_space growth n b)) \<and> fb_len (make_space growth n b) = fb_len b"
  by (auto simp: make_space_def vec_resize_def AlignUp_def)

lemma OpListStore_wf:
  assumes "list_buf (m_OpListQueue G)" and "length n \<le> 240"
  shows "\<exists>b. OpListStore growth n G = Inr (G\<lparr>m_OpListQueue := b\<rparr>) \<and> list_buf b"
  using assms make_space_grows [of "m_OpListQueue G" growth "fb_len (m_OpListQueue G) + length n + 3"]
    make_space_size [of "m_OpListQueue G" growth "fb_len (m_OpListQueue G) + length n + 3"]
  by (auto simp: OpListStore_def list_buf_def Let_def)

lemma UserIPStore_wf:
  assumes "list_buf (m_UserIPQueue G)" and "length (ip_item u) \<le> 240"
  shows "\<exists>b d. UserIPStore growth u G = Inr (G\<lparr>m_UserIPQueue := b, m_bHaveDollars := d\<rparr>) \<and> list_buf b"
proof (cases "fb_len (m_UserIPQueue G) = 0")
  case True
  with assms show ?thesis by (auto simp: UserIPStore_def list_buf_def)
next
  case False
  let ?b = "m_UserIPQueue G"
  define b1 where "b1 = make_space growth (fb_len ?b + length (m_sNick u) + length (m_sIP u) + 4) ?b"
  have g: "length (fb_mem ?b) \<le> length (fb_mem b1)" "fb_len ?b + length (m_sNick u) + length (m_sIP u) + 4 < length (fb_mem b1)"
      "fb_len b1 = fb_len ?b" "fb_size b1 \<le> length (fb_mem b1)"
    using make_space_grows [of ?b growth] make_space_size [of ?b growth] assms(1) by (simp_all add: b1_def list_buf_def)
  let ?m = "blit (fb_mem b1) (fb_len ?b - 1) ''$$''"
  have m: "put (fb_len ?b - 1) ''$$'' (fb_mem b1) = Inr ?m" "length ?m = length (fb_mem b1)" using g False by (simp_all add: put_def)
  define b2 where "b2 = (if m_bHaveDollars G then b1 else b1\<lparr>fb_mem := ?m, fb_len := fb_len ?b + 2\<rparr>)"
  have b2: "length (fb_mem b2) = length (fb_mem b1)" "fb_size b2 = fb_size b1" "fb_len b2 \<le> fb_len ?b + 2" "fb_len ?b \<le> fb_len b2"
    using m g(3) by (simp_all add: b2_def)
  let ?t = "ip_item u @ ''$$|''"
  have "UserIPStore growth u G = Inr (G\<lparr>m_UserIPQueue := (print_at (fb_len b2 - 1) ?t b2)\<lparr>fb_len := fb_len b2 + length ?t - 1\<rparr>, m_bHaveDollars := True\<rparr>)"
  proof -
    have "\<not> length (fb_mem b2) < fb_len b2 - 1" using b2 g by simp
    with False m(1) show ?thesis
      by (cases "m_bHaveDollars G") (simp_all add: UserIPStore_def Let_def b1_def [symmetric] b2_def)
  qed
  moreover have "list_buf ((print_at (fb_len b2 - 1) ?t b2)\<lparr>fb_len := fb_len b2 + length ?t - 1\<rparr>)"
    using b2 g assms(1) by (simp add: list_buf_def ip_item_def)
  ultimately show ?thesis by blast
qed

lemma AddDataToQueueStr_sound: "sound_buf b \<Longrightarrow> AddDataToQueueStr growth t b = Inr b' \<Longrightarrow> sound_buf b'"
  using AddDataToQueue_sound [of b growth t] by (auto simp: AddDataToQueueStr_def split: if_splits)

lemma build_items_sound: "sound_buf b \<Longrightarrow> build_items growth json u bits qs b = Inr b' \<Longrightarrow> sound_buf b'"
  by (induction qs arbitrary: b) (auto simp: rbind_Inr_iff dest: AddDataToQueueStr_sound)

lemma AddDataToQueue_keeps: "sound_buf b \<Longrightarrow> AddDataToQueue growth t b = Inr b' \<Longrightarrow> sound_buf b'"
  using AddDataToQueue_sound [of b growth t] by auto

lemma build_queue_sound: "sound_buf b \<Longrightarrow> build_queue growth json u bits G b = Inr b' \<Longrightarrow> sound_buf b'"
proof -
  assume s: "sound_buf b" and "build_queue growth json u bits G b = Inr b'"
  then obtain b1 b2 where 1: "build_items growth json u bits (m_QueueItems G) b = Inr b1"
    and 2: "(if fb_len (m_OpListQueue G) \<noteq> 0 then rbind (buf_text (m_OpListQueue G)) (\<lambda>t. AddDataToQueue growth t b1) else Inr b1) = Inr b2"
    and 3: "(if fb_len (m_UserIPQueue G) \<noteq> 0 \<and> has_bits bits Q_USERIP then rbind (buf_text (m_UserIPQueue G)) (\<lambda>t. AddDataToQueue growth t b2)
      else Inr b2) = Inr b'"
    by (simp only: build_queue_def rbind_Inr_iff) blast
  have s1: "sound_buf b1" by (rule build_items_sound [OF s 1])
  have s2: "sound_buf b2" using 2 s1 AddDataToQueue_keeps [OF s1] by (auto simp: rbind_Inr_iff split: if_splits)
  show ?thesis using 3 s2 AddDataToQueue_keeps [OF s2] by (auto simp: rbind_Inr_iff split: if_splits)
qed

lemma clear_queue_idem [simp]: "clear_queue (clear_queue q) = clear_queue q"
  by (simp add: clear_queue_def clean_def)

lemma clear_fold:
  "set is \<subseteq> {..<length qs} \<Longrightarrow> length (fold (\<lambda>i qs. qs[i := clear_queue (qs ! i)]) is qs) = length qs
    \<and> (\<forall>j<length qs. fold (\<lambda>i qs. qs[i := clear_queue (qs ! i)]) is qs ! j = (if j \<in> set is then clear_queue (qs ! j) else qs ! j))"
  by (induction "is" arbitrary: qs) (auto simp: nth_list_update)

lemma clear_queue_wf: "sound_buf (gq_buf q) \<Longrightarrow> queue_wf (clear_queue q) \<and> \<not> m_bCreated (clear_queue q) \<and> fb_len (gq_buf (clear_queue q)) = 0"
  by (auto simp: queue_wf_def clear_queue_def clean_def sound_buf_def)

lemma ClearQueues_wf:
  assumes "queues_wf G"
  shows "queues_wf (ClearQueues G)"
    and "\<forall>i<144. \<not> m_bCreated (m_GlobalQueues (ClearQueues G) ! i) \<and> fb_len (gq_buf (m_GlobalQueues (ClearQueues G) ! i)) = 0"
proof -
  from assms have n: "length (m_GlobalQueues G) = 144" "set (m_CreatedGlobalQueues G) \<subseteq> {..<144}" by (simp_all add: queues_wf_def)
  note f = clear_fold [of "m_CreatedGlobalQueues G" "m_GlobalQueues G"]
  have e: "queue_wf (m_GlobalQueues (ClearQueues G) ! i) \<and> \<not> m_bCreated (m_GlobalQueues (ClearQueues G) ! i)
      \<and> fb_len (gq_buf (m_GlobalQueues (ClearQueues G) ! i)) = 0" if "i < 144" for i
    using that f n assms clear_queue_wf [of "m_GlobalQueues G ! i"] by (auto simp: ClearQueues_def queues_wf_def queue_wf_def)
  then show "\<forall>i<144. \<not> m_bCreated (m_GlobalQueues (ClearQueues G) ! i) \<and> fb_len (gq_buf (m_GlobalQueues (ClearQueues G) ! i)) = 0" by blast
  show "queues_wf (ClearQueues G)"
    using e f n assms by (auto simp: queues_wf_def ClearQueues_def rewound_def list_buf_def)
qed

lemma queues_wf_update:
  assumes "queues_wf G" and "queue_wf q" and "m_bCreated q = (i \<in> set c)" and "set c \<subseteq> {..<144}"
    and "\<And>j. j \<noteq> i \<Longrightarrow> j \<in> set c \<longleftrightarrow> j \<in> set (m_CreatedGlobalQueues G)"
  shows "queues_wf (G\<lparr>m_GlobalQueues := (m_GlobalQueues G)[i := q], m_CreatedGlobalQueues := c\<rparr>)"
proof -
  from assms(1) have n: "length (m_GlobalQueues G) = 144" by (simp add: queues_wf_def)
  have "queue_wf ((m_GlobalQueues G)[i := q] ! j) \<and> m_bCreated ((m_GlobalQueues G)[i := q] ! j) = (j \<in> set c)" if "j < 144" for j
    using that n assms by (cases "j = i") (simp_all add: queues_wf_def)
  with assms(1,4) show ?thesis by (simp add: queues_wf_def)
qed

lemma reachable_queue_wf: "reachable_queue growth G \<Longrightarrow> queues_wf G"
proof (induction rule: reachable_queue.induct)
  case start
  then show ?case
    by (auto simp: queues_wf_def new_GlobalDataQueue_def list_buf_def queue_wf_def new_queue_def sound_buf_def new_buffer_def
        g_ui32InitialQueueBufferSize_def)
next
  case (op G n G')
  then have "list_buf (m_OpListQueue G)" by (simp add: queues_wf_def)
  from OpListStore_wf [OF this op.hyps(2), of growth] op show ?case by (auto simp: queues_wf_def)
next
  case (ip G u G')
  then have "list_buf (m_UserIPQueue G)" by (simp add: queues_wf_def)
  from UserIPStore_wf [OF this ip.hyps(2), of growth] ip show ?case by (auto simp: queues_wf_def)
next
  case (process G json u k G')
  show ?case
  proof (cases "m_bCreated (m_GlobalQueues G ! fst k)")
    case False
    with process.hyps(2) obtain b where k: "fst k < length (m_GlobalQueues G)"
        "build_queue growth json u (snd k) G (gq_buf (m_GlobalQueues G ! fst k)) = Inr b"
        "G' = G\<lparr>m_GlobalQueues := (m_GlobalQueues G)[fst k := (m_GlobalQueues G ! fst k)\<lparr>gq_buf := b, m_bCreated := True\<rparr>],
          m_CreatedGlobalQueues := fst k # m_CreatedGlobalQueues G\<rparr>"
      by (auto simp: queue_of_def Let_def rbind_Inr_iff split: if_splits)
    from process.IH k(1) have "sound_buf (gq_buf (m_GlobalQueues G ! fst k))" by (simp add: queues_wf_def queue_wf_def)
    from build_queue_sound [OF this k(2)]
    have "queue_wf ((m_GlobalQueues G ! fst k)\<lparr>gq_buf := b, m_bCreated := True\<rparr>)" by (simp add: queue_wf_def)
    from queues_wf_update [OF process.IH this, of "fst k" "fst k # m_CreatedGlobalQueues G"] show ?thesis
      using process.IH k(1) unfolding k(3) by (simp add: queues_wf_def)
  next
    case True
    with process show ?thesis by (auto simp: queue_of_def split: if_splits)
  qed
next
  case (zip G i zp q)
  then have "gq_buf q = gq_buf (m_GlobalQueues G ! i)" "m_bCreated q = m_bCreated (m_GlobalQueues G ! i)"
    by (auto simp: zip_queue_def rbind_Inr_iff split: if_splits)
  with zip.IH zip.hyps(2) queues_wf_update [OF zip.IH, of q i "m_CreatedGlobalQueues G"] show ?case
    by (simp add: queues_wf_def queue_wf_def)
next
  case (clear G)
  then show ?case by (simp add: ClearQueues_wf(1))
qed (simp_all add: queues_wf_def AddQueueItem_def InsertBlankQueueItem_def SingleItemStore_def PrepareQueueItems_def Let_def)

text \<open>
  C20. In every state the queue can get into, however its vectors grow, every buffer's size and data lie within its
  memory, exactly the queues that have been built are on the list of built ones, every user's number is one of the
  144 queues, storing the operators and addresses of a tick succeeds, and clearing leaves every queue empty and to be
  built anew.
\<close>

theorem queues_well_formed:
  assumes "reachable_queue growth G"
  shows "queues_wf G \<and> (queue_kind cfg P u = Inr k \<longrightarrow> fst k < length (m_GlobalQueues G))
    \<and> (length n \<le> 240 \<longrightarrow> (\<exists>G'. OpListStore growth n G = Inr G'))
    \<and> (length (ip_item u) \<le> 240 \<longrightarrow> (\<exists>G'. UserIPStore growth u G = Inr G'))
    \<and> (\<forall>i<144. \<not> m_bCreated (m_GlobalQueues (ClearQueues G) ! i) \<and> fb_len (gq_buf (m_GlobalQueues (ClearQueues G) ! i)) = 0)"
proof -
  note wf = reachable_queue_wf [OF assms]
  have "list_buf (m_OpListQueue G)" "list_buf (m_UserIPQueue G)" "length (m_GlobalQueues G) = 144" using wf by (simp_all add: queues_wf_def)
  then have "length n \<le> 240 \<longrightarrow> (\<exists>G'. OpListStore growth n G = Inr G')"
    "length (ip_item u) \<le> 240 \<longrightarrow> (\<exists>G'. UserIPStore growth u G = Inr G')"
    "queue_kind cfg P u = Inr k \<longrightarrow> fst k < length (m_GlobalQueues G)"
    using OpListStore_wf [of G n growth] UserIPStore_wf [of G u growth] queue_kind_bound [of cfg P u k] by fastforce+
  then show ?thesis using wf ClearQueues_wf(2) [OF wf] by blast
qed

definition demo_broadcast :: GlobalDataQueue where
  "demo_broadcast = PrepareQueueItems (AddQueueItem [] ''<a> hi|'' [] CHAT new_GlobalDataQueue)"

lemma queues_well_formed_witness:
  "queues_wf demo_broadcast \<and> (\<exists>G'. OpListStore max ''op'' demo_broadcast = Inr G')"
proof -
  have "reachable_queue max demo_broadcast" unfolding demo_broadcast_def
    by (intro reachable_queue.prepare reachable_queue.item reachable_queue.start)
  from queues_well_formed [OF this, of demo_config no_profiles demo_op _ "''op''"] show ?thesis by simp
qed

section \<open>The addresses of a tick\<close>

lemma make_space_exact:
  assumes "exact growth" and "fb_size b = length (fb_mem b)" and "m \<le> length (fb_mem b)"
  shows "length (fb_mem (make_space growth n b)) = max (length (fb_mem b)) (n + 1)"
    and "take m (fb_mem (make_space growth n b)) = take m (fb_mem b)"
proof -
  have "max n (growth s n) = n" for s n using assms(1) by (simp add: exact_def max_absorb1)
  then show "length (fb_mem (make_space growth n b)) = max (length (fb_mem b)) (n + 1)"
    and "take m (fb_mem (make_space growth n b)) = take m (fb_mem b)"
    using assms(2,3) by (auto simp: make_space_def vec_resize_def AlignUp_def)
qed

lemma take_blit_part: "off \<le> length m \<Longrightarrow> k \<le> length x \<Longrightarrow> take (off + k) (blit m off x) = take off m @ take k x"
  by (simp add: blit_def)

text \<open>
  The second address of a tick turns the pipe of the first one into two dollars, for which no room is made: when
  the buffer is short by that one byte, or has just grown to what was asked for, the closing pipe of the list is lost
  and a NUL character is sent in its place, so the client takes the next command for a part of this one.
\<close>

theorem second_address_loses_pipe:
  assumes "exact growth" and "fb_size (m_UserIPQueue G) = length (fb_mem (m_UserIPQueue G))"
    and "0 < fb_len (m_UserIPQueue G)" and "fb_len (m_UserIPQueue G) < length (fb_mem (m_UserIPQueue G))" and "\<not> m_bHaveDollars G"
  shows "\<exists>G'. UserIPStore growth u G = Inr G' \<and> buf_text (m_UserIPQueue G') =
    Inr (butlast (shown (m_UserIPQueue G)) @ ''$$'' @ ip_item u @ ''$$''
      @ (if length (fb_mem (m_UserIPQueue G)) \<le> fb_len (m_UserIPQueue G) + length (ip_item u) + 4 then [CHR 0x00] else ''|''))"
proof -
  let ?b = "m_UserIPQueue G" and ?t = "ip_item u @ ''$$|''"
  define n where "n = fb_len ?b + length (m_sNick u) + length (m_sIP u) + 4"
  define b1 where "b1 = make_space growth n ?b"
  have i: "length (ip_item u) = length (m_sNick u) + length (m_sIP u) + 1" by (simp add: ip_item_def)
  have L: "length (fb_mem b1) = max (length (fb_mem ?b)) (n + 1)" "take (fb_len ?b - 1) (fb_mem b1) = take (fb_len ?b - 1) (fb_mem ?b)"
    unfolding b1_def using make_space_exact [OF assms(1,2), of "fb_len ?b - 1" n] assms(4) by simp_all
  define m where "m = blit (fb_mem b1) (fb_len ?b - 1) ''$$''"
  have m: "put (fb_len ?b - 1) ''$$'' (fb_mem b1) = Inr m" "length m = length (fb_mem b1)"
      "take (fb_len ?b + 1) m = take (fb_len ?b - 1) (fb_mem ?b) @ ''$$''"
    using L assms(3,4) by (auto simp: put_def m_def blit_def n_def)
  define r where "r = length m - (fb_len ?b + 1)"
  have r: "fb_len ?b + 1 + r = length m" "length ?t \<le> r" using L m(2) i by (simp_all add: r_def n_def)
  have off: "fb_len ?b + 2 - 1 = fb_len ?b + 1" by simp
  let ?m = "blit m (fb_len ?b + 1) (take (r - 1) ?t @ [CHR 0x00])"
  have w: "fst (vsnprintf m (fb_len ?b + 1) r ?t) = ?m" using r(2) by (simp add: vsnprintf_def)
  have "UserIPStore growth u G = Inr (G\<lparr>m_UserIPQueue := b1\<lparr>fb_mem := ?m, fb_len := fb_len ?b + 1 + length ?t\<rparr>, m_bHaveDollars := True\<rparr>)"
  proof -
    have "\<not> length m < fb_len ?b + 2 - 1" "length m - Suc (fb_len ?b) = r" using r(1) by simp_all
    then show ?thesis using assms(3,5) m(1) w r(1)
      by (simp add: UserIPStore_def Let_def n_def [symmetric] b1_def [symmetric] print_at_def)
  qed
  moreover have "take (fb_len ?b + 1 + length ?t) ?m = take (fb_len ?b - 1) (fb_mem ?b) @ ''$$'' @ take (length ?t) (take (r - 1) ?t @ [CHR 0x00])"
    using take_blit_part [of "fb_len ?b + 1" m "length ?t" "take (r - 1) ?t @ [CHR 0x00]"] r m(3) by simp
  moreover have "length ?m = length m" using r by (subst length_blit) auto
  moreover have "take (fb_len ?b - 1) (fb_mem ?b) = butlast (shown ?b)" using assms(4) by (simp add: butlast_take)
  moreover have "take (length ?t) (take (r - 1) ?t @ [CHR 0x00]) = ip_item u @ ''$$''
      @ (if length (fb_mem ?b) \<le> fb_len ?b + length (ip_item u) + 4 then [CHR 0x00] else ''|'')"
    using r L(1) m(2) i by (auto simp: n_def)
  ultimately show ?thesis using r by (simp add: buf_text_def)
qed

lemma second_address_loses_pipe_witness:
  "\<exists>G. UserIPStore (\<lambda>s n. n) (blank_user\<lparr>m_sNick := ''b'', m_sIP := ''2''\<rparr>)
      (new_GlobalDataQueue\<lparr>m_UserIPQueue := \<lparr>fb_mem = ''$UserIP a 1|'' @ [CHR 0x00], fb_size = 13, fb_len = 12\<rparr>\<rparr>) = Inr G
    \<and> buf_text (m_UserIPQueue G) = Inr (''$UserIP a 1$$b 2$$'' @ [CHR 0x00])"
  using second_address_loses_pipe [of "\<lambda>s n. n"
      "new_GlobalDataQueue\<lparr>m_UserIPQueue := \<lparr>fb_mem = ''$UserIP a 1|'' @ [CHR 0x00], fb_size = 13, fb_len = 12\<rparr>\<rparr>"
      "blank_user\<lparr>m_sNick := ''b'', m_sIP := ''2''\<rparr>"]
  by (simp add: exact_def new_GlobalDataQueue_def ip_item_def)

section \<open>Delivery\<close>



end
