(* ===== verification/BanFile.thy ===== *)
theory BanFile
  imports RegFile BanReach
begin

text \<open>
  The files of the bans (\<open>BanManager::Save\<close> and \<open>Load\<close>): one item per ban in \<open>Bans.pxb\<close>, the temporary bans
  first, and one per range in \<open>RangeBans.pxb\<close>.  Leaving through \<open>exit(EXIT_FAILURE)\<close> is the value \<open>ProcessExit\<close>.
  The text of an address, as \<open>inet_ntop\<close> writes it, is an argument.
\<close>

section \<open>Saving\<close>

definition sPtokaXBans :: string where "sPtokaXBans = ''PtokaX Bans''"
definition sPtokaXRangeBans :: string where "sPtokaXRangeBans = ''PtokaX RangeBans''"
definition sBanIds :: string where "sBanIds = ''BTNINBIPIBFBREBYEX''"
definition sRangeBanIds :: string where "sRangeBanIds = ''BTRFRTFBREBYEX''"

definition ban_subs :: "BanItem \<Rightarrow> (ident \<times> pxb_value) list" where
  "ban_subs b = zip (idents sBanIds)
     [PXB_BYTE (\<not> is_set b PERM), PXB_STRING (title_bytes (b_sNick b)), PXB_BYTE (is_set b NICK),
      PXB_STRING (take 16 (b_ui128IpHash b)), PXB_BYTE (is_set b IP), PXB_BYTE (is_set b FULL),
      PXB_STRING (title_bytes (m_sReason b)), PXB_STRING (title_bytes (m_sBy b)),
      PXB_EIGHT_BYTES (word_of_int (m_tTempBanExpire b))]"

definition len16 :: "'a list \<Rightarrow> u32" where
  "len16 s = ucast (word_of_nat (length s) :: u16)"

definition ban_item :: "(addr \<Rightarrow> BanItem option) \<Rightarrow> addr \<Rightarrow> (u32 \<times> (ident \<times> pxb_value) list) res" where
  "ban_item h a =
     rbind (deref h a) (\<lambda>b.
       Inr (1 + len16 (b_sNick b) + 1 + 16 + 1 + 1 + len16 (m_sReason b) + len16 (m_sBy b) + 8, ban_subs b))"

definition range_subs :: "RangeBanItem \<Rightarrow> (ident \<times> pxb_value) list" where
  "range_subs b = zip (idents sRangeBanIds)
     [PXB_BYTE (\<not> is_set b PERM), PXB_STRING (take 16 (m_ui128FromIpHash b)), PXB_STRING (take 16 (m_ui128ToIpHash b)),
      PXB_BYTE (is_set b FULL), PXB_STRING (title_bytes (m_sReason b)), PXB_STRING (title_bytes (m_sBy b)),
      PXB_EIGHT_BYTES (word_of_int (m_tTempBanExpire b))]"

definition range_item :: "addr \<times> RangeBanItem \<Rightarrow> (u32 \<times> (ident \<times> pxb_value) list) res" where
  "range_item = (\<lambda>(_, b). Inr (1 + 16 + 16 + 1 + len16 (m_sReason b) + len16 (m_sBy b) + 8, range_subs b))"

text \<open>What is written to the two files.\<close>

definition bans_bytes :: "BanManager \<Rightarrow> byte list res" where
  "bans_bytes s =
     rbind (write_header sPtokaXBans OpenFileSave) (\<lambda>w.
     rbind (write_items (ban_item (bm_heap s)) (m_TempBanList s) w) (\<lambda>w1.
     rbind (write_items (ban_item (bm_heap s)) (m_PermBanList s) w1) (\<lambda>w2. Inr (WriteRemaining w2))))"

definition ranges_bytes :: "BanManager \<Rightarrow> byte list res" where
  "ranges_bytes s =
     rbind (write_header sPtokaXRangeBans OpenFileSave) (\<lambda>w.
     rbind (write_items range_item (m_RangeBanList s) w) (\<lambda>w1. Inr (WriteRemaining w1)))"

definition Ban_Save :: "bool \<Rightarrow> BanManager \<Rightarrow> (BanManager \<times> (byte list \<times> byte list) option) res" where
  "Ban_Save bForce s =
     (case BanManager_Save bForce s of
        (s1, write) \<Rightarrow>
          if write then rbind (bans_bytes s1) (\<lambda>b. rbind (ranges_bytes s1) (\<lambda>r. Inr (s1, Some (b, r))))
          else Inr (s1, None))"

section \<open>Loading\<close>

definition rd64 :: "byte list \<Rightarrow> u64" where
  "rd64 b = push_bit 32 (ucast (rd32 b)) OR ucast (rd32 (drop 4 b))"

text \<open>The flag bytes: \<open>0\<close> or anything else.\<close>

definition flag_at :: "nat \<Rightarrow> field list \<Rightarrow> bool res" where
  "flag_at i fs = rbind (field_bytes 1 fs i) (\<lambda>b. Inr (b \<noteq> [byte_of CHR ''0'']))"

definition or_bit :: "bool \<Rightarrow> byte \<Rightarrow> byte \<Rightarrow> byte" where
  "or_bit on m bits = (if on then bits OR m else bits)"

definition ip_text :: "(byte list \<Rightarrow> string) \<Rightarrow> byte list \<Rightarrow> string" where
  "ip_text inet_ntop h = (if IsV4Mapped h then inet_ntop (take 4 (drop 12 h)) else inet_ntop h)"

definition load_nick :: "field list \<Rightarrow> BanItem \<Rightarrow> BanItem res" where
  "load_nick fs b =
     (if field_len fs 1 = 0 then Inr b
      else if field_len fs 1 > 64 then Inl ProcessExit
      else rbind (field_bytes (field_len fs 1) fs 1) (\<lambda>n.
           rbind (flag_at 2 fs) (\<lambda>nick.
             Inr (b\<lparr>b_sNick := text_of n, b_ui32NickHash := HashNick (text_of n),
                    m_ui8Bits := or_bit nick NICK (m_ui8Bits b)\<rparr>))))"

definition load_address :: "(byte list \<Rightarrow> string) \<Rightarrow> field list \<Rightarrow> BanItem \<Rightarrow> BanItem res" where
  "load_address inet_ntop fs b =
     (if field_len fs 3 = 0 then Inr b
      else rbind (field_bytes 16 fs 3) (\<lambda>h.
        if h = replicate 16 0 then Inr b
        else if field_len fs 3 \<noteq> 16 then Inl ProcessExit
        else rbind (flag_at 4 fs) (\<lambda>ip.
             rbind (flag_at 5 fs) (\<lambda>full.
               Inr (b\<lparr>b_ui128IpHash := h, b_sIp := ip_text inet_ntop h,
                      m_ui8Bits := or_bit full FULL (or_bit ip IP (m_ui8Bits b))\<rparr>)))))"

text \<open>Reason and author, the fields \<open>i\<close> and \<open>i + 1\<close>, are cut to 511 and 64 characters.\<close>

definition load_cut :: "nat \<Rightarrow> nat \<Rightarrow> field list \<Rightarrow> string res" where
  "load_cut most i fs =
     (if field_len fs i = 0 then Inr []
      else rbind (field_bytes (min most (field_len fs i)) fs i) (\<lambda>b. Inr (text_of b)))"

definition load_texts :: "nat \<Rightarrow> field list \<Rightarrow> 'a BanItemBase_scheme \<Rightarrow> 'a BanItemBase_scheme res" where
  "load_texts i fs b =
     rbind (load_cut 511 i fs) (\<lambda>reason. rbind (load_cut 64 (i + 1) fs) (\<lambda>by_whom.
       Inr (b\<lparr>m_sReason := reason, m_sBy := by_whom\<rparr>)))"

definition load_expire :: "nat \<Rightarrow> field list \<Rightarrow> 'a BanItemBase_scheme \<Rightarrow> 'a BanItemBase_scheme res" where
  "load_expire i fs b =
     (if is_set b TEMP then
        (if field_len fs i \<noteq> 8 then Inl ProcessExit
         else rbind (field_bytes 8 fs i) (\<lambda>e. Inr (b\<lparr>m_tTempBanExpire := sint (rd64 e)\<rparr>)))
      else Inr b)"

definition ban_of_item :: "(byte list \<Rightarrow> string) \<Rightarrow> field list \<Rightarrow> BanItem res" where
  "ban_of_item inet_ntop fs =
     rbind (flag_at 0 fs) (\<lambda>temp.
     rbind (load_nick fs (set_bit_of (if temp then TEMP else PERM) new_BanItem)) (\<lambda>b1.
     rbind (load_address inet_ntop fs b1) (\<lambda>b2.
     rbind (load_texts 6 fs b2) (load_expire 8 fs))))"

definition load_ban :: "(byte list \<Rightarrow> string) \<Rightarrow> int \<Rightarrow> field list \<Rightarrow> BanManager \<Rightarrow> BanManager res" where
  "load_ban inet_ntop tmAccTime fs s =
     rbind (ban_of_item inet_ntop fs) (\<lambda>b.
       if expired tmAccTime b then Inr s
       else rbind (add_released b s) (\<lambda>(s1, added). if added then Inr s1 else Inl ProcessExit))"

definition new_RangeBanItem :: RangeBanItem where
  "new_RangeBanItem = \<lparr>m_tTempBanExpire = 0, m_sReason = [], m_sBy = [], m_ui8Bits = 0,
     m_ui128FromIpHash = replicate 16 0, m_ui128ToIpHash = replicate 16 0, m_sIpFrom = [], m_sIpTo = []\<rparr>"

definition load_end :: "nat \<Rightarrow> field list \<Rightarrow> byte list res" where
  "load_end i fs = (if field_len fs i \<noteq> 16 then Inl ProcessExit else field_bytes 16 fs i)"

definition range_of_item :: "(byte list \<Rightarrow> string) \<Rightarrow> field list \<Rightarrow> RangeBanItem res" where
  "range_of_item inet_ntop fs =
     rbind (flag_at 0 fs) (\<lambda>temp.
     rbind (load_end 1 fs) (\<lambda>fr.
     rbind (load_end 2 fs) (\<lambda>to.
     rbind (flag_at 3 fs) (\<lambda>full.
     rbind (load_texts 4 fs
       (new_RangeBanItem\<lparr>m_ui8Bits := or_bit full FULL (0 OR (if temp then TEMP else PERM)),
          m_ui128FromIpHash := fr, m_sIpFrom := ip_text inet_ntop fr,
          m_ui128ToIpHash := to, m_sIpTo := ip_text inet_ntop to\<rparr>)) (load_expire 6 fs)))))"

definition load_range :: "(byte list \<Rightarrow> string) \<Rightarrow> int \<Rightarrow> field list \<Rightarrow> BanManager \<Rightarrow> BanManager res" where
  "load_range inet_ntop tmAccTime fs s =
     rbind (range_of_item inet_ntop fs) (\<lambda>b. if expired tmAccTime b then Inr s else Inr (AddRange b s))"

text \<open>Whether a file opens and has the right header; otherwise \<open>Load\<close> returns and the range bans are not read either.\<close>

definition file_right :: "string \<Rightarrow> nat \<Rightarrow> byte list \<Rightarrow> bool res" where
  "file_right sTitle arrays dat =
     (case OpenFileRead dat of
        None \<Rightarrow> Inr False
      | Some r \<Rightarrow> rbind (ReadNextItem (idents ''FIFV'') 2 0 arrays r) (\<lambda>(_, fs, bSuccess).
          if \<not> bSuccess then Inr False else header_right sTitle fs))"

definition Ban_Load :: "(byte list \<Rightarrow> string) \<Rightarrow> int \<Rightarrow> byte list \<Rightarrow> byte list \<Rightarrow> BanManager \<Rightarrow> BanManager res" where
  "Ban_Load inet_ntop tmAccTime bans ranges s =
     rbind (load_file sPtokaXBans 9 (idents sBanIds) 9 0 (load_ban inet_ntop tmAccTime) bans s) (\<lambda>s1.
     rbind (file_right sPtokaXBans 9 bans) (\<lambda>right.
       if \<not> right then Inr s1
       else load_file sPtokaXRangeBans 7 (idents sRangeBanIds) 7 0 (load_range inet_ntop tmAccTime) ranges s1))"

section \<open>Fields of a written item\<close>

lemma field_len_of:
  assumes "i < length subs" and "fits16 (snd (subs ! i))"
  shows "field_len (fields_of w subs) i = length (pxb_bytes (snd (subs ! i)))"
proof -
  from fields_of_nth [OF assms(1), of w] obtain r where
    "fields_of w subs ! i = (item_length (snd (subs ! i)), Some (pxb_bytes (snd (subs ! i)) @ r))" by blast
  with write_sub_form(3) [OF assms(2)] show ?thesis by (simp add: field_len_def)
qed

lemma field_bytes_of:
  assumes "i < length subs" and "k \<le> length (pxb_bytes (snd (subs ! i)))"
  shows "field_bytes k (fields_of w subs) i = Inr (take k (pxb_bytes (snd (subs ! i))))"
proof -
  from fields_of_nth [OF assms(1), of w] obtain r where
    "fields_of w subs ! i = (item_length (snd (subs ! i)), Some (pxb_bytes (snd (subs ! i)) @ r))" by blast
  with assms(2) show ?thesis by (simp add: field_bytes_def)
qed

lemma rd64_be64 [simp]: "rd64 (be64 w) = w"
proof (rule bit_word_eqI)
  have r: "rd32 (be64 w) = ucast (drop_bit 32 w)" by (simp add: be64_def)
  have "drop 4 (be64 w) = be32 (ucast w) @ []" by (simp add: be64_def)
  then have l: "rd32 (drop 4 (be64 w)) = ucast w" by (simp only: rd32_be32)
  fix n assume "n < LENGTH(64)"
  then show "bit (rd64 (be64 w)) n = bit w n"
    by (cases "n < 32") (auto simp: rd64_def r l bit_or_iff bit_push_bit_iff bit_ucast_iff bit_drop_bit_eq)
qed

text \<open>Times that fit \<open>time_t\<close>.\<close>

definition time_fits :: "int \<Rightarrow> bool" where
  "time_fits t \<longleftrightarrow> - (2 ^ 63) \<le> t \<and> t < 2 ^ 63"

lemma time_stored: "time_fits t \<Longrightarrow> sint (word_of_int t :: u64) = t"
  by (simp add: time_fits_def sint_sbintrunc' signed_take_bit_int_eq_self)

section \<open>Reading back a list of items\<close>

fun fold_res :: "('a \<Rightarrow> 's \<Rightarrow> 's res) \<Rightarrow> 'a list \<Rightarrow> 's \<Rightarrow> 's res" where
  "fold_res g [] s = Inr s"
| "fold_res g (x # xs) s = rbind (g x s) (fold_res g xs)"

definition reads_as :: "ident list \<Rightarrow> nat \<Rightarrow> (field list \<Rightarrow> 's \<Rightarrow> 's res) \<Rightarrow> (ident \<times> pxb_value) list \<Rightarrow> ('s \<Rightarrow> 's res) \<Rightarrow> bool" where
  "reads_as expected n step subs g \<longleftrightarrow> item_ok subs \<and> length subs = n \<and> map fst subs = expected
     \<and> (\<forall>w s. step (fields_of w subs) s = g s)"

lemma reads_as_subs:
  assumes "reads_as expected n step subs g"
  shows "take_subs expected n 0 w subs (0, replicate n (0, None)) = (n, fields_of w subs)"
  using assms take_subs_complete [of subs n expected n 0 w] by (auto simp: reads_as_def)

lemma read_all_fold:
  assumes "\<forall>x \<in> set xs. reads_as expected n step (subs x) (g x)"
    and "length xs < k" and "reader_ok r" and "pr_full r" and "pending r = concat (map (\<lambda>x. enc (subs x)) xs)"
  shows "read_all k (ReadNextItem expected n 0 n) step r s = fold_res g xs s"
  using assms
proof (induction xs arbitrary: k r s)
  case Nil
  then obtain k' where k: "k = Suc k'" by (cases k) auto
  from Nil have "pr_win r = []" by (simp add: pending_def)
  then show ?case by (simp add: k ReadNextItem_def Let_def)
next
  case (Cons x xs)
  then obtain k' where k: "k = Suc k'" "length xs < k'" by (cases k) auto
  from Cons.prems(3,4) have f: "pr_file r = []" by (simp add: reader_ok_def)
  have ne: "pr_win r \<noteq> []" using Cons.prems(5) f by (auto simp: pending_def enc_def be32_def)
  have x: "reads_as expected n step (subs x) (g x)" using Cons.prems(1) by simp
  then have it: "item_ok (subs x)" by (simp add: reads_as_def)
  have p: "pending r = enc (subs x) @ concat (map (\<lambda>x. enc (subs x)) xs)" using Cons.prems(5) by simp
  from ReadNextItem_run [OF Cons.prems(3) ne it p, of expected n 0 n] Cons.prems(4) obtain r' w' where
    n: "ReadNextItem expected n 0 n r = Inr (r', fields_of w' (subs x), True)"
    and r': "reader_ok r'" "pending r' = concat (map (\<lambda>x. enc (subs x)) xs)" "pr_full r'"
    unfolding reads_as_subs [OF x] by auto
  have "step (fields_of w' (subs x)) s = g x s" using x by (simp add: reads_as_def)
  moreover have "read_all k' (ReadNextItem expected n 0 n) step r' s1 = fold_res g xs s1" for s1
    by (rule Cons.IH) (use Cons.prems(1) k(2) r' in auto)
  then have "read_all k' (ReadNextItem expected n 0 n) step r' = fold_res g xs" by (rule ext)
  ultimately show ?case using n k(1) by simp
qed

text \<open>A written file, shorter than the buffer, is loaded item by item.\<close>

lemma load_file_fold:
  assumes t: "length t < 1000" and a: "2 \<le> n"
    and items: "\<forall>x \<in> set xs. reads_as expected n step (subs x) (g x)"
    and fl: "file = enc (header_item t) @ concat (map (\<lambda>x. enc (subs x)) xs)" and small: "length file < PTOKAX_GLOBAL_BUFF_SIZE"
  shows "load_file t n expected n 0 step file s = fold_res g xs s" and "file_right t n file = Inr True"
proof -
  define r where "r = \<lparr>pr_win = file, pr_file = [], pr_full = True\<rparr>"
  have ne: "file \<noteq> []" using fl by (simp add: enc_def be32_def)
  have o: "OpenFileRead file = Some r" using ne small by (simp add: OpenFileRead_def r_def)
  have rk: "reader_ok r" "pr_full r" "pr_win r \<noteq> []" "pending r = enc (header_item t) @ concat (map (\<lambda>x. enc (subs x)) xs)"
    using small ne fl by (simp_all add: reader_ok_def r_def pending_def)
  from ReadNextItem_run [OF rk(1,3) header_item_ok [OF t] rk(4), of "idents ''FIFV''" 2 0 n] obtain r1 w' where
    h: "ReadNextItem (idents ''FIFV'') 2 0 n r = Inr (r1, fields_of w' (header_item t) @ replicate (n - 2) (0, None), True)"
    and r1: "reader_ok r1" "pending r1 = concat (map (\<lambda>x. enc (subs x)) xs)" "pr_full r1"
    using rk(2) unfolding header_read(1) [OF t a] by auto
  have "length xs < Suc (length file)"
  proof -
    have "length xs \<le> length (concat (map (\<lambda>x. enc (subs x)) xs))" by (induction xs) (auto simp: enc_def)
    then show ?thesis using fl by simp
  qed
  from read_all_fold [OF items this r1(1,3,2)] h header_read(2) [OF t a] o
  show "load_file t n expected n 0 step file s = fold_res g xs s" by (simp add: load_file_def)
  from h header_read(2) [OF t a] o show "file_right t n file = Inr True" by (simp add: file_right_def)
qed

section \<open>What is kept of a ban\<close>

definition ban_fits :: "BanItem \<Rightarrow> bool" where
  "ban_fits b \<longleftrightarrow> length (b_sNick b) + length (m_sReason b) + length (m_sBy b) < 60000
     \<and> length (b_ui128IpHash b) = 16 \<and> time_fits (m_tTempBanExpire b)"

definition no_address :: "BanItem \<Rightarrow> bool" where
  "no_address b \<longleftrightarrow> b_ui128IpHash b = replicate 16 0"

definition kept_ban :: "(byte list \<Rightarrow> string) \<Rightarrow> BanItem \<Rightarrow> BanItem" where
  "kept_ban inet_ntop b =
     \<lparr>m_tTempBanExpire = (if is_set b PERM then 0 else m_tTempBanExpire b),
      m_sReason = take 511 (m_sReason b), m_sBy = take 64 (m_sBy b),
      m_ui8Bits = or_bit (is_set b FULL \<and> \<not> no_address b) FULL (or_bit (is_set b IP \<and> \<not> no_address b) IP
        (or_bit (is_set b NICK \<and> b_sNick b \<noteq> []) NICK (if is_set b PERM then PERM else TEMP))),
      b_sNick = b_sNick b, b_pHashIpTablePrev = None, b_pHashIpTableNext = None,
      b_ui32NickHash = (if b_sNick b = [] then 0 else HashNick (b_sNick b)),
      b_ui128IpHash = b_ui128IpHash b,
      b_sIp = (if no_address b then [] else ip_text inet_ntop (b_ui128IpHash b))\<rparr>"

definition range_fits :: "RangeBanItem \<Rightarrow> bool" where
  "range_fits b \<longleftrightarrow> length (m_sReason b) + length (m_sBy b) < 60000
     \<and> length (m_ui128FromIpHash b) = 16 \<and> length (m_ui128ToIpHash b) = 16 \<and> time_fits (m_tTempBanExpire b)"

definition kept_range :: "(byte list \<Rightarrow> string) \<Rightarrow> RangeBanItem \<Rightarrow> RangeBanItem" where
  "kept_range inet_ntop b =
     \<lparr>m_tTempBanExpire = (if is_set b PERM then 0 else m_tTempBanExpire b),
      m_sReason = take 511 (m_sReason b), m_sBy = take 64 (m_sBy b),
      m_ui8Bits = or_bit (is_set b FULL) FULL (if is_set b PERM then PERM else TEMP),
      m_ui128FromIpHash = m_ui128FromIpHash b, m_ui128ToIpHash = m_ui128ToIpHash b,
      m_sIpFrom = ip_text inet_ntop (m_ui128FromIpHash b), m_sIpTo = ip_text inet_ntop (m_ui128ToIpHash b)\<rparr>"

lemma has_or_bit [simp]:
  "has_bits (or_bit on FULL w) PERM = has_bits w PERM" "has_bits (or_bit on FULL w) TEMP = has_bits w TEMP"
  "has_bits (or_bit on IP w) PERM = has_bits w PERM" "has_bits (or_bit on IP w) TEMP = has_bits w TEMP"
  "has_bits (or_bit on NICK w) PERM = has_bits w PERM" "has_bits (or_bit on NICK w) TEMP = has_bits w TEMP"
  "has_bits (or_bit on FULL w) NICK = has_bits w NICK" "has_bits (or_bit on IP w) NICK = has_bits w NICK"
  by (simp_all add: or_bit_def)

lemma kind_bits [simp]:
  "has_bits PERM PERM" "has_bits TEMP TEMP" "\<not> has_bits PERM TEMP" "\<not> has_bits TEMP PERM"
  "\<not> has_bits PERM NICK" "\<not> has_bits TEMP NICK"
  by (simp_all add: ban_bits has_bits_def)

lemma ban_subs_ids: "map fst (ban_subs b) = idents sBanIds" "length (ban_subs b) = 9"
  by (simp_all add: ban_subs_def sBanIds_def)

lemma ban_subs_values:
  "map snd (ban_subs b) = [PXB_BYTE (\<not> is_set b PERM), PXB_STRING (title_bytes (b_sNick b)), PXB_BYTE (is_set b NICK),
      PXB_STRING (take 16 (b_ui128IpHash b)), PXB_BYTE (is_set b IP), PXB_BYTE (is_set b FULL),
      PXB_STRING (title_bytes (m_sReason b)), PXB_STRING (title_bytes (m_sBy b)),
      PXB_EIGHT_BYTES (word_of_int (m_tTempBanExpire b))]"
  by (simp add: ban_subs_def sBanIds_def)

lemma length_title [simp]: "length (title_bytes t) = length t"
  by (simp add: title_bytes_def)

text \<open>Fields by their values alone.\<close>

lemma value_fields:
  assumes "map snd subs ! i = v" and "i < length subs"
  shows "fits16 v \<Longrightarrow> field_len (fields_of w subs) i = length (pxb_bytes v)"
    and "k \<le> length (pxb_bytes v) \<Longrightarrow> field_bytes k (fields_of w subs) i = Inr (take k (pxb_bytes v))"
  using field_len_of [OF assms(2), of w] field_bytes_of [OF assms(2), of k w] assms by simp_all

lemma value_flag:
  assumes "map snd subs ! i = PXB_BYTE on" and "i < length subs"
  shows "flag_at i (fields_of w subs) = Inr on"
  using value_fields(2) [OF assms, of 1 w] by (simp add: flag_at_def byte_of_def)

lemma value_cut:
  assumes "map snd subs ! i = PXB_STRING (title_bytes t)" and "i < length subs" and "length t < 60000"
  shows "load_cut most i (fields_of w subs) = Inr (take most t)"
proof -
  have "field_len (fields_of w subs) i = length t" using value_fields(1) [OF assms(1,2)] assms(3) by (simp add: fits16_def)
  moreover have "field_bytes (min most (length t)) (fields_of w subs) i = Inr (take most (title_bytes t))"
    using value_fields(2) [OF assms(1,2), of "min most (length t)" w]
    by (simp add: take_all_iff min_def)
  moreover have "text_of (take most (title_bytes t)) = take most t"
    using nick_bytes [of "take most t"] by (simp add: title_bytes_def take_map)
  ultimately show ?thesis by (auto simp: load_cut_def)
qed

lemma value_time:
  assumes "map snd subs ! i = PXB_EIGHT_BYTES (word_of_int t)" and "i < length subs" and "time_fits t"
  shows "load_expire i (fields_of w subs) b = Inr (if is_set b TEMP then b\<lparr>m_tTempBanExpire := t\<rparr> else b)"
  using value_fields(1) [OF assms(1,2)] value_fields(2) [OF assms(1,2), of 8 w] time_stored [OF assms(3)]
  by (simp add: load_expire_def fits16_def)

lemma take_byte_texts [simp]: "text_of (title_bytes t) = t" by (rule nick_bytes)

text \<open>Loading an item that \<open>Save\<close> wrote.\<close>

lemma ban_of_item_written:
  assumes ft: "ban_fits b"
  shows "ban_of_item inet_ntop (fields_of w (ban_subs b)) =
    (if length (b_sNick b) > 64 then Inl ProcessExit else Inr (kept_ban inet_ntop b))"
proof -
  let ?fs = "fields_of w (ban_subs b)" and ?kind = "if is_set b PERM then PERM else TEMP"
  let ?nb = "or_bit (is_set b NICK \<and> b_sNick b \<noteq> []) NICK ?kind"
  have lens: "length (b_sNick b) < 60000" "length (m_sReason b) < 60000" "length (m_sBy b) < 60000"
    "length (b_ui128IpHash b) = 16" "time_fits (m_tTempBanExpire b)" using ft by (simp_all add: ban_fits_def)
  note v = ban_subs_values [of b] ban_subs_ids(2)
  have flags: "flag_at 0 ?fs = Inr (\<not> is_set b PERM)" "flag_at 2 ?fs = Inr (is_set b NICK)"
    "flag_at 4 ?fs = Inr (is_set b IP)" "flag_at 5 ?fs = Inr (is_set b FULL)"
    by (rule value_flag; simp add: v)+
  have nick: "field_len ?fs 1 = length (b_sNick b)" "field_bytes (length (b_sNick b)) ?fs 1 = Inr (title_bytes (b_sNick b))"
    using value_fields(1) [of "ban_subs b" 1 "PXB_STRING (title_bytes (b_sNick b))" w]
      value_fields(2) [of "ban_subs b" 1 "PXB_STRING (title_bytes (b_sNick b))" "length (b_sNick b)" w] lens(1)
    by (simp_all add: v fits16_def)
  have ip: "field_len ?fs 3 = 16" "field_bytes 16 ?fs 3 = Inr (b_ui128IpHash b)"
    using value_fields(1) [of "ban_subs b" 3 "PXB_STRING (take 16 (b_ui128IpHash b))" w]
      value_fields(2) [of "ban_subs b" 3 "PXB_STRING (take 16 (b_ui128IpHash b))" 16 w] lens(4)
    by (simp_all add: v fits16_def)
  have cuts: "load_cut 511 6 ?fs = Inr (take 511 (m_sReason b))" "load_cut 64 7 ?fs = Inr (take 64 (m_sBy b))"
    using lens(2,3) by (auto intro!: value_cut simp: v)
  have time: "load_expire 8 ?fs x = Inr (if is_set x TEMP then x\<lparr>m_tTempBanExpire := m_tTempBanExpire b\<rparr> else x)" for x :: BanItem
    by (rule value_time) (use lens(5) in \<open>simp_all add: v\<close>)
  let ?b0 = "set_bit_of ?kind new_BanItem"
  let ?b1 = "?b0\<lparr>b_sNick := b_sNick b, b_ui32NickHash := (if b_sNick b = [] then 0 else HashNick (b_sNick b)), m_ui8Bits := ?nb\<rparr>"
  have b0: "set_bit_of (if \<not> is_set b PERM then TEMP else PERM) new_BanItem = ?b0" by simp
  have 1: "load_nick ?fs ?b0 = (if length (b_sNick b) > 64 then Inl ProcessExit else Inr ?b1)"
    by (cases "b_sNick b = []") (auto simp: load_nick_def nick [unfolded One_nat_def] flags or_bit_def new_BanItem_def)
  have 2: "load_address inet_ntop ?fs ?b1 = Inr (?b1\<lparr>b_ui128IpHash := b_ui128IpHash b,
      b_sIp := (if no_address b then [] else ip_text inet_ntop (b_ui128IpHash b)),
      m_ui8Bits := or_bit (is_set b FULL \<and> \<not> no_address b) FULL (or_bit (is_set b IP \<and> \<not> no_address b) IP ?nb)\<rparr>)" (is "_ = Inr ?b2")
    by (cases "no_address b") (simp_all add: load_address_def ip flags no_address_def new_BanItem_def or_bit_def)
  have 3: "load_texts 6 ?fs ?b2 = Inr (?b2\<lparr>m_sReason := take 511 (m_sReason b), m_sBy := take 64 (m_sBy b)\<rparr>)"
    by (simp add: load_texts_def cuts)
  show ?thesis
  proof (cases "length (b_sNick b) > 64")
    case True
    then show ?thesis unfolding ban_of_item_def flags(1) rbind.simps b0 1 by simp
  next
    case False
    show ?thesis
      unfolding ban_of_item_def flags(1) rbind.simps b0 1 if_not_P [OF False] 2 3 time
      by (simp add: kept_ban_def new_BanItem_def)
  qed
qed

lemma range_subs_ids: "map fst (range_subs b) = idents sRangeBanIds" "length (range_subs b) = 7"
  by (simp_all add: range_subs_def sRangeBanIds_def)

lemma range_subs_values:
  "map snd (range_subs b) = [PXB_BYTE (\<not> is_set b PERM), PXB_STRING (take 16 (m_ui128FromIpHash b)),
      PXB_STRING (take 16 (m_ui128ToIpHash b)), PXB_BYTE (is_set b FULL), PXB_STRING (title_bytes (m_sReason b)),
      PXB_STRING (title_bytes (m_sBy b)), PXB_EIGHT_BYTES (word_of_int (m_tTempBanExpire b))]"
  by (simp add: range_subs_def sRangeBanIds_def)

lemma range_of_item_written:
  assumes ft: "range_fits b"
  shows "range_of_item inet_ntop (fields_of w (range_subs b)) = Inr (kept_range inet_ntop b)"
proof -
  let ?fs = "fields_of w (range_subs b)"
  have lens: "length (m_sReason b) < 60000" "length (m_sBy b) < 60000" "length (m_ui128FromIpHash b) = 16"
    "length (m_ui128ToIpHash b) = 16" "time_fits (m_tTempBanExpire b)" using ft by (simp_all add: range_fits_def)
  note v = range_subs_values [of b] range_subs_ids(2)
  have flags: "flag_at 0 ?fs = Inr (\<not> is_set b PERM)" "flag_at 3 ?fs = Inr (is_set b FULL)"
    by (rule value_flag; simp add: v)+
  have ends: "load_end 1 ?fs = Inr (m_ui128FromIpHash b)" "load_end 2 ?fs = Inr (m_ui128ToIpHash b)"
    using value_fields(1) [of "range_subs b" 1 "PXB_STRING (take 16 (m_ui128FromIpHash b))" w]
      value_fields(2) [of "range_subs b" 1 "PXB_STRING (take 16 (m_ui128FromIpHash b))" 16 w]
      value_fields(1) [of "range_subs b" 2 "PXB_STRING (take 16 (m_ui128ToIpHash b))" w]
      value_fields(2) [of "range_subs b" 2 "PXB_STRING (take 16 (m_ui128ToIpHash b))" 16 w] lens(3,4)
    by (simp_all add: v fits16_def load_end_def)
  have cuts: "load_cut 511 4 ?fs = Inr (take 511 (m_sReason b))" "load_cut 64 5 ?fs = Inr (take 64 (m_sBy b))"
    using lens(1,2) by (auto intro!: value_cut simp: v)
  have time: "load_expire 6 ?fs x = Inr (if is_set x TEMP then x\<lparr>m_tTempBanExpire := m_tTempBanExpire b\<rparr> else x)" for x :: RangeBanItem
    by (rule value_time) (use lens(5) in \<open>simp_all add: v\<close>)
  show ?thesis
    by (simp add: range_of_item_def flags ends [unfolded One_nat_def] load_texts_def cuts time kept_range_def new_RangeBanItem_def)
qed

section \<open>Writing a table\<close>

definition bans_of :: "(addr \<Rightarrow> BanItem option) \<Rightarrow> addr list \<Rightarrow> BanItem list" where
  "bans_of h l = map (\<lambda>a. clear_ban_links (the (h a))) l"

definition temp_bans :: "BanManager \<Rightarrow> BanItem list" where "temp_bans s = bans_of (bm_heap s) (m_TempBanList s)"
definition perm_bans :: "BanManager \<Rightarrow> BanItem list" where "perm_bans s = bans_of (bm_heap s) (m_PermBanList s)"
definition range_bans :: "BanManager \<Rightarrow> RangeBanItem list" where "range_bans s = map snd (m_RangeBanList s)"

lemma ban_subs_links [simp]: "ban_subs (clear_ban_links b) = ban_subs b"
  by (simp add: ban_subs_def)

lemma len16_small: "length x < 65536 \<Longrightarrow> len16 x = word_of_nat (length x)"
  by (simp add: len16_def ucast_u16_u32)

lemma data_length_values: "data_length subs = sum_list (map (\<lambda>v. length (pxb_bytes v)) (map snd subs))"
  by (simp add: data_length_def comp_def)

lemma all_fit_values: "all_fit subs \<longleftrightarrow> (\<forall>v \<in> set (map snd subs). fits16 v)"
  by (simp add: all_fit_def)

lemma ban_subs_ok:
  assumes "ban_fits b"
  shows "data_length (ban_subs b) = 28 + length (b_sNick b) + length (m_sReason b) + length (m_sBy b)"
    and "item_ok (ban_subs b)"
proof -
  show d: "data_length (ban_subs b) = 28 + length (b_sNick b) + length (m_sReason b) + length (m_sBy b)"
    using assms unfolding data_length_values ban_subs_values by (simp add: ban_fits_def)
  have fit: "all_fit (ban_subs b)"
    using assms unfolding all_fit_values ban_subs_values by (simp add: fits16_def ban_fits_def)
  show "item_ok (ban_subs b)"
    using assms length_body [OF fit] d fit ban_subs_ids(2) [of b]
    by (simp add: item_ok_def ban_fits_def PTOKAX_GLOBAL_BUFF_SIZE_def)
qed

lemma range_subs_ok:
  assumes "range_fits b"
  shows "data_length (range_subs b) = 42 + length (m_sReason b) + length (m_sBy b)"
    and "item_ok (range_subs b)"
proof -
  show d: "data_length (range_subs b) = 42 + length (m_sReason b) + length (m_sBy b)"
    using assms unfolding data_length_values range_subs_values by (simp add: range_fits_def)
  have fit: "all_fit (range_subs b)"
    using assms unfolding all_fit_values range_subs_values by (simp add: fits16_def range_fits_def)
  show "item_ok (range_subs b)"
    using assms length_body [OF fit] d fit range_subs_ids(2) [of b]
    by (simp add: item_ok_def range_fits_def PTOKAX_GLOBAL_BUFF_SIZE_def)
qed

lemma ban_item_run:
  assumes "h a = Some b" and "ban_fits b"
  shows "ban_item h a = Inr (word_of_nat (data_length (ban_subs b)), ban_subs b)"
  using assms by (simp add: ban_item_def deref_def ban_subs_ok(1) len16_small ban_fits_def)

lemma range_item_run:
  assumes "range_fits b"
  shows "range_item (a, b) = Inr (word_of_nat (data_length (range_subs b)), range_subs b)"
  using assms by (simp add: range_item_def range_subs_ok(1) len16_small range_fits_def)

text \<open>The bytes of the two files, and the tables they can hold: those shorter than the buffer.\<close>

definition bans_file :: "BanManager \<Rightarrow> byte list" where
  "bans_file s = enc (header_item sPtokaXBans) @ concat (map (\<lambda>b. enc (ban_subs b)) (temp_bans s @ perm_bans s))"

definition ranges_file :: "BanManager \<Rightarrow> byte list" where
  "ranges_file s = enc (header_item sPtokaXRangeBans) @ concat (map (\<lambda>b. enc (range_subs b)) (range_bans s))"

definition bans_storable :: "BanManager \<Rightarrow> bool" where
  "bans_storable s \<longleftrightarrow> (\<forall>b \<in> set (temp_bans s @ perm_bans s). ban_fits b) \<and> (\<forall>b \<in> set (range_bans s). range_fits b)
     \<and> length (bans_file s) < PTOKAX_GLOBAL_BUFF_SIZE \<and> length (ranges_file s) < PTOKAX_GLOBAL_BUFF_SIZE"

lemma ban_fits_links [simp]: "ban_fits (clear_ban_links b) = ban_fits b"
  by (simp add: ban_fits_def)

lemma write_bans:
  assumes "\<forall>a \<in> set l. h a \<noteq> None" and "\<forall>b \<in> set (bans_of h l). ban_fits b" and "length (pw_buf w) \<le> PTOKAX_GLOBAL_BUFF_SIZE"
  shows "\<exists>w'. write_items (ban_item h) l w = Inr w' \<and> written w' = written w @ concat (map (\<lambda>b. enc (ban_subs b)) (bans_of h l))
     \<and> length (pw_buf w') \<le> PTOKAX_GLOBAL_BUFF_SIZE"
proof -
  have "ban_item h a = Inr (word_of_nat (data_length (ban_subs (the (h a)))), ban_subs (the (h a))) \<and> item_ok (ban_subs (the (h a)))"
    if a: "a \<in> set l" for a
  proof -
    from a assms(1) obtain b where b: "h a = Some b" by blast
    from a assms(2) have "ban_fits (the (h a))" by (simp add: bans_of_def)
    with b show ?thesis using ban_item_run [of h a b] ban_subs_ok(2) [of b] by simp
  qed
  from write_items_run [of l "ban_item h" "\<lambda>a. ban_subs (the (h a))" w] this assms(3) show ?thesis
    by (simp add: bans_of_def comp_def)
qed

lemma ban_lists_live:
  assumes "ban_inv s"
  shows "\<forall>a \<in> set (m_TempBanList s). \<exists>b. bm_heap s a = Some b \<and> is_set b TEMP \<and> \<not> is_set b PERM"
    and "\<forall>a \<in> set (m_PermBanList s). \<exists>b. bm_heap s a = Some b \<and> is_set b PERM"
  using assms unfolding ban_inv_def ban_rel_def own_lists_def by blast+

lemma bans_bytes_run:
  assumes inv: "ban_inv s" and st: "bans_storable s"
  shows "bans_bytes s = Inr (bans_file s)"
proof -
  have t: "length sPtokaXBans < 1000" by (simp add: sPtokaXBans_def)
  from write_header_run [OF t] obtain w where w: "write_header sPtokaXBans OpenFileSave = Inr w"
    "written w = enc (header_item sPtokaXBans)" "length (pw_buf w) \<le> PTOKAX_GLOBAL_BUFF_SIZE" by blast
  have f: "\<forall>b \<in> set (bans_of (bm_heap s) (m_TempBanList s)). ban_fits b" "\<forall>b \<in> set (bans_of (bm_heap s) (m_PermBanList s)). ban_fits b"
    using st by (simp_all add: bans_storable_def temp_bans_def perm_bans_def)
  have l: "\<forall>a \<in> set (m_TempBanList s). bm_heap s a \<noteq> None" "\<forall>a \<in> set (m_PermBanList s). bm_heap s a \<noteq> None"
    using ban_lists_live [OF inv] by auto
  from write_bans [OF l(1) f(1) w(3)] obtain w1 where w1: "write_items (ban_item (bm_heap s)) (m_TempBanList s) w = Inr w1"
    "written w1 = written w @ concat (map (\<lambda>b. enc (ban_subs b)) (temp_bans s))" "length (pw_buf w1) \<le> PTOKAX_GLOBAL_BUFF_SIZE"
    by (auto simp: temp_bans_def)
  from write_bans [OF l(2) f(2) w1(3)] obtain w2 where w2: "write_items (ban_item (bm_heap s)) (m_PermBanList s) w1 = Inr w2"
    "written w2 = written w1 @ concat (map (\<lambda>b. enc (ban_subs b)) (perm_bans s))"
    by (auto simp: perm_bans_def)
  show ?thesis by (simp add: bans_bytes_def w w1 w2 bans_file_def)
qed

lemma ranges_bytes_run:
  assumes st: "bans_storable s"
  shows "ranges_bytes s = Inr (ranges_file s)"
proof -
  have t: "length sPtokaXRangeBans < 1000" by (simp add: sPtokaXRangeBans_def)
  from write_header_run [OF t] obtain w where w: "write_header sPtokaXRangeBans OpenFileSave = Inr w"
    "written w = enc (header_item sPtokaXRangeBans)" "length (pw_buf w) \<le> PTOKAX_GLOBAL_BUFF_SIZE" by blast
  have "\<forall>x \<in> set (m_RangeBanList s). range_item x = Inr (word_of_nat (data_length (range_subs (snd x))), range_subs (snd x)) \<and> item_ok (range_subs (snd x))"
  proof
    fix x assume "x \<in> set (m_RangeBanList s)"
    then have "range_fits (snd x)" using st by (auto simp: bans_storable_def range_bans_def)
    then show "range_item x = Inr (word_of_nat (data_length (range_subs (snd x))), range_subs (snd x)) \<and> item_ok (range_subs (snd x))"
      using range_item_run [of "snd x" "fst x"] range_subs_ok(2) by simp
  qed
  from write_items_run [OF this w(3)] obtain w1 where w1: "write_items range_item (m_RangeBanList s) w = Inr w1"
    "written w1 = written w @ concat (map (\<lambda>x. enc (range_subs (snd x))) (m_RangeBanList s))" by blast
  show ?thesis by (simp add: ranges_bytes_def w w1 ranges_file_def range_bans_def comp_def)
qed

section \<open>Loading it\<close>

lemma kept_kind [simp]:
  "is_set (kept_ban inet_ntop b) PERM = is_set b PERM" "is_set (kept_ban inet_ntop b) TEMP = (\<not> is_set b PERM)"
  "is_set (kept_range inet_ntop r) PERM = is_set r PERM" "is_set (kept_range inet_ntop r) TEMP = (\<not> is_set r PERM)"
  by (simp_all add: kept_ban_def kept_range_def)

lemma kept_links [simp]:
  "clear_ban_links (kept_ban inet_ntop b) = kept_ban inet_ntop b" "kept_ban inet_ntop (clear_ban_links b) = kept_ban inet_ntop b"
  by (simp_all add: kept_ban_def no_address_def)

lemma kept_ready: "ready (kept_ban inet_ntop b)"
  by (auto simp: ready_def) (auto simp: kept_ban_def or_bit_def split: if_splits)

text \<open>What loading does with one written ban, and with one written range.\<close>

definition restore_ban :: "(byte list \<Rightarrow> string) \<Rightarrow> int \<Rightarrow> BanItem \<Rightarrow> BanManager \<Rightarrow> BanManager res" where
  "restore_ban inet_ntop now b s =
     (if length (b_sNick b) > 64 then Inl ProcessExit
      else if expired now (kept_ban inet_ntop b) then Inr s
      else rbind (add_released (kept_ban inet_ntop b) s) (\<lambda>(s1, added). if added then Inr s1 else Inl ProcessExit))"

definition restore_range :: "(byte list \<Rightarrow> string) \<Rightarrow> int \<Rightarrow> RangeBanItem \<Rightarrow> BanManager \<Rightarrow> BanManager res" where
  "restore_range inet_ntop now b s =
     (if expired now (kept_range inet_ntop b) then Inr s else Inr (AddRange (kept_range inet_ntop b) s))"

lemma ban_reads_as:
  assumes "ban_fits b"
  shows "reads_as (idents sBanIds) 9 (load_ban inet_ntop now) (ban_subs b) (restore_ban inet_ntop now b)"
  using ban_subs_ok(2) [OF assms] ban_of_item_written [OF assms, of inet_ntop] ban_subs_ids
  by (simp add: reads_as_def load_ban_def restore_ban_def)

lemma range_reads_as:
  assumes "range_fits b"
  shows "reads_as (idents sRangeBanIds) 7 (load_range inet_ntop now) (range_subs b) (restore_range inet_ntop now b)"
  using range_subs_ok(2) [OF assms] range_of_item_written [OF assms, of inet_ntop] range_subs_ids
  by (simp add: reads_as_def load_range_def restore_range_def)

lemma Ban_Load_files:
  assumes "bans_storable s"
  shows "Ban_Load inet_ntop now (bans_file s) ranges s0 =
    rbind (fold_res (restore_ban inet_ntop now) (temp_bans s @ perm_bans s) s0)
      (load_file sPtokaXRangeBans 7 (idents sRangeBanIds) 7 0 (load_range inet_ntop now) ranges)"
    and "load_file sPtokaXRangeBans 7 (idents sRangeBanIds) 7 0 (load_range inet_ntop now) (ranges_file s) s1 =
    fold_res (restore_range inet_ntop now) (range_bans s) s1"
proof -
  have t: "length sPtokaXBans < 1000" "length sPtokaXRangeBans < 1000" by (simp_all add: sPtokaXBans_def sPtokaXRangeBans_def)
  have b: "\<forall>b \<in> set (temp_bans s @ perm_bans s). reads_as (idents sBanIds) 9 (load_ban inet_ntop now) (ban_subs b) (restore_ban inet_ntop now b)"
    and r: "\<forall>b \<in> set (range_bans s). reads_as (idents sRangeBanIds) 7 (load_range inet_ntop now) (range_subs b) (restore_range inet_ntop now b)"
    using assms ban_reads_as range_reads_as unfolding bans_storable_def by blast+
  have l: "length (bans_file s) < PTOKAX_GLOBAL_BUFF_SIZE" "length (ranges_file s) < PTOKAX_GLOBAL_BUFF_SIZE"
    using assms unfolding bans_storable_def by blast+
  note f = load_file_fold [OF t(1) _ b bans_file_def l(1)]
  show "Ban_Load inet_ntop now (bans_file s) ranges s0 =
    rbind (fold_res (restore_ban inet_ntop now) (temp_bans s @ perm_bans s) s0)
      (load_file sPtokaXRangeBans 7 (idents sRangeBanIds) 7 0 (load_range inet_ntop now) ranges)"
    using f by (simp add: Ban_Load_def)
  show "load_file sPtokaXRangeBans 7 (idents sRangeBanIds) 7 0 (load_range inet_ntop now) (ranges_file s) s1 =
    fold_res (restore_range inet_ntop now) (range_bans s) s1"
    using load_file_fold(1) [OF t(2) _ r ranges_file_def l(2)] by simp
qed

text \<open>An added ban is the last of its list.\<close>

lemma bans_of_links:
  assumes "links_only h' h" and "\<forall>a \<in> set l. h a \<noteq> None"
  shows "bans_of h' l = bans_of h l"
proof -
  have "clear_ban_links (the (h' a)) = clear_ban_links (the (h a))" if "a \<in> set l" for a
  proof -
    from that assms(2) obtain b where b: "h a = Some b" by blast
    from links_only_live [OF links_only_sym [OF assms(1)] b] show ?thesis using b by (metis option.sel)
  qed
  then show ?thesis by (simp add: bans_of_def)
qed

lemma add_released_bans:
  assumes inv: "ban_inv s" and rdy: "ready b"
  obtains s' where "add_released b s = Inr (s', True)" and "ban_inv s'"
    and "temp_bans s' = temp_bans s @ (if is_set b PERM then [] else [clear_ban_links b])"
    and "perm_bans s' = perm_bans s @ (if is_set b PERM then [clear_ban_links b] else [])"
    and "m_RangeBanList s' = m_RangeBanList s"
proof -
  from inv obtain ch where rel: "ban_rel s ch" by (auto simp: ban_inv_def)
  let ?a = "bm_next s"
  let ?h = "(bm_heap s)(?a \<mapsto> b)"
  from add_released_run [OF rel rdy] obtain s' where s': "add_released b s = Inr (s', True)"
    "ban_rel s' (chains_with b ?a ch)" "links_only (bm_heap s') ?h" "m_RangeBanList s' = m_RangeBanList s"
    "m_TempBanList s' = m_TempBanList s @ (if is_set b PERM then [] else [?a])"
    "m_PermBanList s' = m_PermBanList s @ (if is_set b PERM then [?a] else [])" by blast
  have fresh: "bm_heap s ?a = None" using rel unfolding ban_rel_def by blast
  have live: "\<forall>a \<in> set (m_TempBanList s). bm_heap s a \<noteq> None" "\<forall>a \<in> set (m_PermBanList s). bm_heap s a \<noteq> None"
    using ban_lists_live [OF inv] by auto
  have old: "bans_of ?h l = bans_of (bm_heap s) l" if "\<forall>a \<in> set l. bm_heap s a \<noteq> None" for l
    using that fresh by (auto simp: bans_of_def)
  have "bans_of (bm_heap s') (m_TempBanList s') = bans_of ?h (m_TempBanList s')"
    "bans_of (bm_heap s') (m_PermBanList s') = bans_of ?h (m_PermBanList s')"
    by (rule bans_of_links [OF s'(3)]; use live in \<open>auto simp: s'(5,6) split: if_splits\<close>)+
  moreover have "bans_of ?h (l @ x) = bans_of ?h l @ bans_of ?h x" for l x by (simp add: bans_of_def)
  ultimately have "temp_bans s' = temp_bans s @ (if is_set b PERM then [] else [clear_ban_links b])"
    "perm_bans s' = perm_bans s @ (if is_set b PERM then [clear_ban_links b] else [])"
    using old [OF live(1)] old [OF live(2)] by (simp_all add: temp_bans_def perm_bans_def s'(5,6)) (simp_all add: bans_of_def)
  with that s'(1,4) ban_invI [OF s'(2)] show thesis by blast
qed

definition still_banned :: "int \<Rightarrow> 'a BanItemBase_scheme list \<Rightarrow> 'a BanItemBase_scheme list" where
  "still_banned now bs = filter (\<lambda>b. \<not> expired now b) bs"

lemma still_banned_simps [simp]:
  "still_banned now [] = []" "still_banned now (bs @ cs) = still_banned now bs @ still_banned now cs"
  "still_banned now (b # bs) = (if expired now b then [] else [b]) @ still_banned now bs"
  by (simp_all add: still_banned_def)

lemma restore_one:
  assumes inv: "ban_inv s" and n: "length (b_sNick b) \<le> 64"
  obtains s' where "restore_ban inet_ntop now b s = Inr s'" and "ban_inv s'"
    and "temp_bans s' = temp_bans s @ (if is_set b PERM then [] else still_banned now [kept_ban inet_ntop b])"
    and "perm_bans s' = perm_bans s @ (if is_set b PERM then [kept_ban inet_ntop b] else [])"
    and "m_RangeBanList s' = m_RangeBanList s"
proof (cases "expired now (kept_ban inet_ntop b)")
  case True
  then have "\<not> is_set b PERM" by (simp add: expired_def)
  with True n inv show thesis by (intro that [of s]) (simp_all add: restore_ban_def)
next
  case False
  from add_released_bans [OF inv kept_ready] obtain s' where "add_released (kept_ban inet_ntop b) s = Inr (s', True)"
    "ban_inv s'" "temp_bans s' = temp_bans s @ (if is_set b PERM then [] else [kept_ban inet_ntop b])"
    "perm_bans s' = perm_bans s @ (if is_set b PERM then [kept_ban inet_ntop b] else [])"
    "m_RangeBanList s' = m_RangeBanList s" unfolding kept_kind kept_links by blast
  with False n show thesis by (intro that [of s']) (simp_all add: restore_ban_def)
qed

text \<open>The bans of one kind, one after the other.\<close>

lemma restore_all:
  "ban_inv s \<Longrightarrow> \<forall>b \<in> set bs. length (b_sNick b) \<le> 64 \<and> is_set b PERM = p \<Longrightarrow>
   \<exists>s'. fold_res (restore_ban inet_ntop now) bs s = Inr s' \<and> ban_inv s'
     \<and> temp_bans s' = temp_bans s @ (if p then [] else still_banned now (map (kept_ban inet_ntop) bs))
     \<and> perm_bans s' = perm_bans s @ (if p then map (kept_ban inet_ntop) bs else [])
     \<and> m_RangeBanList s' = m_RangeBanList s"
proof (induction bs arbitrary: s)
  case (Cons b bs)
  then have "length (b_sNick b) \<le> 64" by simp
  from restore_one [OF Cons.prems(1) this, of inet_ntop now] obtain s1 where s1: "restore_ban inet_ntop now b s = Inr s1" "ban_inv s1"
    "temp_bans s1 = temp_bans s @ (if is_set b PERM then [] else still_banned now [kept_ban inet_ntop b])"
    "perm_bans s1 = perm_bans s @ (if is_set b PERM then [kept_ban inet_ntop b] else [])"
    "m_RangeBanList s1 = m_RangeBanList s" by blast
  from Cons.IH [OF s1(2)] Cons.prems(2) obtain s' where "fold_res (restore_ban inet_ntop now) bs s1 = Inr s'" "ban_inv s'"
    "temp_bans s' = temp_bans s1 @ (if p then [] else still_banned now (map (kept_ban inet_ntop) bs))"
    "perm_bans s' = perm_bans s1 @ (if p then map (kept_ban inet_ntop) bs else [])"
    "m_RangeBanList s' = m_RangeBanList s1" by auto
  with s1 Cons.prems(2) show ?case by auto
qed simp

lemma fold_res_append: "fold_res g (xs @ ys) s = rbind (fold_res g xs s) (fold_res g ys)"
proof (induction xs arbitrary: s)
  case (Cons x xs)
  then show ?case by (cases "g x s") simp_all
qed simp

lemma restore_exit:
  "ban_inv s \<Longrightarrow> \<exists>b \<in> set bs. length (b_sNick b) > 64 \<Longrightarrow> fold_res (restore_ban inet_ntop now) bs s = Inl ProcessExit"
proof (induction bs arbitrary: s)
  case (Cons b bs)
  show ?case
  proof (cases "length (b_sNick b) > 64")
    case True
    then show ?thesis by (simp add: restore_ban_def)
  next
    case False
    then have "length (b_sNick b) \<le> 64" by simp
    from restore_one [OF Cons.prems(1) this] obtain s1 where "restore_ban inet_ntop now b s = Inr s1" "ban_inv s1" by blast
    with False Cons.IH [of s1] Cons.prems(2) show ?thesis by simp
  qed
qed simp

lemma AddRange_bans [simp]:
  "temp_bans (AddRange b s) = temp_bans s" "perm_bans (AddRange b s) = perm_bans s"
  "range_bans (AddRange b s) = range_bans s @ [b]"
  by (simp_all add: temp_bans_def perm_bans_def range_bans_def AddRange_def)

lemma restore_ranges:
  "ban_inv s \<Longrightarrow> \<exists>s'. fold_res (restore_range inet_ntop now) bs s = Inr s' \<and> ban_inv s'
     \<and> temp_bans s' = temp_bans s \<and> perm_bans s' = perm_bans s
     \<and> range_bans s' = range_bans s @ still_banned now (map (kept_range inet_ntop) bs)"
proof (induction bs arbitrary: s)
  case (Cons b bs)
  define s1 where "s1 = (if expired now (kept_range inet_ntop b) then s else AddRange (kept_range inet_ntop b) s)"
  have s1: "restore_range inet_ntop now b s = Inr s1" "ban_inv s1"
    using Cons.prems ban_inv_AddRange by (simp_all add: restore_range_def s1_def)
  from Cons.IH [OF s1(2)] s1(1) show ?case by (auto simp: s1_def)
qed simp

lemma new_bans [simp]: "temp_bans new_BanManager = []" "perm_bans new_BanManager = []" "range_bans new_BanManager = []"
  "m_RangeBanList new_BanManager = []"
  by (simp_all add: temp_bans_def perm_bans_def range_bans_def bans_of_def new_BanManager_def)

lemma ban_kinds:
  assumes "ban_inv s"
  shows "\<forall>b \<in> set (temp_bans s). is_set b PERM = False" and "\<forall>b \<in> set (perm_bans s). is_set b PERM = True"
  using ban_lists_live [OF assms] by (fastforce simp: temp_bans_def perm_bans_def bans_of_def)+

lemma Ban_Save_run:
  assumes "ban_inv s" and "bans_storable s"
  shows "Ban_Save True s = Inr (s\<lparr>m_ui32SaveCalled := 0\<rparr>, Some (bans_file s, ranges_file s))"
proof -
  let ?s = "s\<lparr>m_ui32SaveCalled := 0\<rparr>"
  have same: "temp_bans ?s = temp_bans s" "perm_bans ?s = perm_bans s" "range_bans ?s = range_bans s"
    by (simp_all add: temp_bans_def perm_bans_def range_bans_def)
  then have "bans_file ?s = bans_file s" "ranges_file ?s = ranges_file s" by (simp_all add: bans_file_def ranges_file_def)
  moreover have "ban_inv ?s" using assms(1) by (simp add: ban_inv_def ban_rel_def)
  moreover have "bans_storable ?s" using assms(2) calculation same by (simp add: bans_storable_def)
  ultimately show ?thesis using bans_bytes_run [of ?s] ranges_bytes_run [of ?s] by (simp add: Ban_Save_def BanManager_Save_def)
qed

section \<open>The round trip\<close>

text \<open>
  A ban as the commands build it comes back as it was: its nick filed under its hash, an address for an address
  ban, with the text \<open>inet_ntop\<close> gives it, and texts within their limits.
\<close>

definition regular_ban :: "(byte list \<Rightarrow> string) \<Rightarrow> BanItem \<Rightarrow> bool" where
  "regular_ban inet_ntop b \<longleftrightarrow> b_pHashIpTablePrev b = None \<and> b_pHashIpTableNext b = None
     \<and> m_ui8Bits b AND 0xE0 = 0 \<and> (is_set b PERM \<longleftrightarrow> \<not> is_set b TEMP) \<and> (is_set b PERM \<longrightarrow> m_tTempBanExpire b = 0)
     \<and> (is_set b NICK \<longrightarrow> b_sNick b \<noteq> []) \<and> (is_set b IP \<or> is_set b FULL \<longrightarrow> \<not> no_address b)
     \<and> b_ui32NickHash b = (if b_sNick b = [] then 0 else HashNick (b_sNick b))
     \<and> b_sIp b = (if no_address b then [] else ip_text inet_ntop (b_ui128IpHash b))
     \<and> length (m_sReason b) \<le> 511 \<and> length (m_sBy b) \<le> 64"

lemma kind_is_bit:
  "has_bits w PERM = bit w 0" "has_bits w TEMP = bit w 1" "has_bits w FULL = bit w 2" "has_bits w IP = bit w 3" "has_bits w NICK = bit w 4"
proof -
  have "(w AND 2 ^ n = 2 ^ n) = bit w n" if "n < 8" for n
    using that unfolding bit_eq_iff [of "w AND 2 ^ n"] by (auto simp: bit_and_iff bit_exp_iff)
  from this [of 0] this [of 1] this [of 2] this [of 3] this [of 4]
  show "has_bits w PERM = bit w 0" "has_bits w TEMP = bit w 1" "has_bits w FULL = bit w 2" "has_bits w IP = bit w 3" "has_bits w NICK = bit w 4"
    by (simp_all add: has_bits_def ban_bits)
qed

lemma five_bits:
  assumes "w AND 0xE0 = 0" and "has_bits w PERM \<longleftrightarrow> \<not> has_bits w TEMP"
  shows "or_bit (has_bits w FULL) FULL (or_bit (has_bits w IP) IP (or_bit (has_bits w NICK) NICK
    (if has_bits w PERM then PERM else TEMP))) = w" (is "?l = w")
proof (rule bit_word_eqI)
  fix n assume "n < LENGTH(8)"
  then have n: "n \<in> {0, 1, 2, 3, 4, 5, 6, 7}" by auto
  have "bit (w AND 0xE0) n = False" for n using assms(1) by simp
  note z = this [of 5] this [of 6] this [of 7]
  have high: "\<not> bit w 5" "\<not> bit w 6" "\<not> bit w 7"
    using z by (simp_all add: bit_and_iff bit_numeral_rec)
  show "bit ?l n = bit w n"
    using n high assms(2) unfolding kind_is_bit
    by (auto simp: or_bit_def bit_or_iff ban_bits bit_numeral_rec bit_1_iff)
qed

lemma kept_regular:
  assumes "regular_ban inet_ntop b"
  shows "kept_ban inet_ntop b = b"
proof -
  have "m_ui8Bits (kept_ban inet_ntop b) = m_ui8Bits b"
    using assms five_bits [of "m_ui8Bits b"] by (auto simp: regular_ban_def kept_ban_def or_bit_def)
  with assms show ?thesis by (auto intro!: BanItem.equality simp: regular_ban_def kept_ban_def)
qed


text \<open>
  C12.  A nick of more than 64 characters can be banned (the command allows up to 100), and the ban is saved; at the next
  start the hub reads it and exits.
\<close>

theorem long_nick_ban_stops_hub:
  assumes inv: "ban_inv s" and n: "\<not> bad_nick n" "64 < length n"
    and ban: "NickBan None (Some n) sReason sBy now s = Inr (s1, ok)" and st: "bans_storable s1"
  shows "\<exists>d r. Ban_Save True s1 = Inr (s1\<lparr>m_ui32SaveCalled := 0\<rparr>, Some (d, r))
    \<and> (\<forall>inet_ntop later ranges. Ban_Load inet_ntop later d ranges new_BanManager = Inl ProcessExit)"
proof -
  have tn: "target_nick None (Some n) = Some n" using n(1) by (simp add: target_nick_def)
  have "ban_inv s1 \<and> nick_banned s1 n None"
    using NickBan_safe [OF inv, of None "Some n" sReason sBy now] unfolding tn option.case ban by (simp add: hash_ok_def)
  then obtain a b where s1: "ban_inv s1" and b: "bm_heap s1 a = Some b" "iequals (b_sNick b) n"
    by (auto simp: nick_banned_def ban_exists_def nick_ban_def)
  have "a \<in> set (m_TempBanList s1) \<or> a \<in> set (m_PermBanList s1)"
    using s1 b(1) unfolding ban_inv_def ban_rel_def own_lists_def by blast
  then have "clear_ban_links b \<in> set (temp_bans s1 @ perm_bans s1)" using b(1) by (force simp: temp_bans_def perm_bans_def bans_of_def)
  moreover have "length (b_sNick b) = length n" using b(2) by (auto simp: iequals_def split: if_splits)
  ultimately have "\<exists>b \<in> set (temp_bans s1 @ perm_bans s1). length (b_sNick b) > 64"
    using n(2) by (intro bexI [of _ "clear_ban_links b"]) simp_all
  then have "Ban_Load inet_ntop later (bans_file s1) ranges new_BanManager = Inl ProcessExit" for inet_ntop later ranges
    unfolding Ban_Load_files(1) [OF st] using restore_exit [OF ban_inv_new] by simp
  with Ban_Save_run [OF s1 st] show ?thesis by blast
qed

text \<open>A manager with one ban.\<close>

definition demo_nick_ban :: "string \<Rightarrow> BanItem" where
  "demo_nick_ban n = set_bit_of NICK ((set_bit_of PERM new_BanItem)\<lparr>b_sNick := n, b_ui32NickHash := HashNick n\<rparr>)"

lemma one_ban:
  assumes n: "\<not> bad_nick n" "length n < 1000"
  obtains s where "NickBan None (Some n) None None 5 new_BanManager = Inr (s, True)" and "ban_inv s" and "bans_storable s"
    and "temp_bans s = []" and "perm_bans s = [demo_nick_ban n]" and "range_bans s = []"
proof -
  have rdy: "ready (demo_nick_ban n)"
    unfolding ready_def by (simp add: demo_nick_ban_def new_BanItem_def)
  have k: "is_set (demo_nick_ban n) PERM" "clear_ban_links (demo_nick_ban n) = demo_nick_ban n"
    by (simp_all add: demo_nick_ban_def new_BanItem_def)
  from add_released_bans [OF ban_inv_new rdy] obtain s where s: "add_released (demo_nick_ban n) new_BanManager = Inr (s, True)" "ban_inv s"
    "temp_bans s = []" "perm_bans s = [demo_nick_ban n]" "range_bans s = []"
    unfolding k(2) using k(1) by (auto simp: range_bans_def)
  let ?s = "fst (BanManager_Save False s)"
  have same: "temp_bans ?s = temp_bans s" "perm_bans ?s = perm_bans s" "range_bans ?s = range_bans s" "ban_inv ?s = ban_inv s"
    by (simp_all add: BanManager_Save_def temp_bans_def perm_bans_def range_bans_def ban_inv_def ban_rel_def)
  have item: "nick_ban_item PERM None (Some n) = Some (demo_nick_ban n)" using n(1) by (simp add: nick_ban_item_def demo_nick_ban_def)
  have "FindNick_hash (b_ui32NickHash (demo_nick_ban n)) 5 (b_sNick (demo_nick_ban n)) new_BanManager = Inr (new_BanManager, None)"
    by (simp add: FindNick_hash_def FindNickBanGeneric_def new_BanManager_def)
  then have 1: "NickBan None (Some n) None None 5 new_BanManager = Inr (?s, True)"
    by (simp add: NickBan_def item NickBan_same_nick_def publish_def CreateReason_def AddBanInternal_def s(1))
  have fits: "ban_fits (demo_nick_ban n)" using n(2) by (simp add: ban_fits_def demo_nick_ban_def new_BanItem_def time_fits_def)
  have head: "length (enc (header_item t)) < 1100" if "length t < 100" for t
    using that length_body [of "header_item t"] header_item_ok [of t]
    by (simp add: item_ok_def header_item_def data_length_def title_bytes_def)
  have "length (enc (ban_subs (demo_nick_ban n))) < 1100"
    using length_body [of "ban_subs (demo_nick_ban n)"] ban_subs_ok [OF fits] ban_subs_ids(2) [of "demo_nick_ban n"] n(2)
    by (simp add: item_ok_def demo_nick_ban_def new_BanItem_def)
  then have "bans_storable ?s"
    using fits head [of sPtokaXBans] head [of sPtokaXRangeBans]
    by (simp add: bans_storable_def same s(3-5) bans_file_def ranges_file_def PTOKAX_GLOBAL_BUFF_SIZE_def sPtokaXBans_def sPtokaXRangeBans_def)
  with that [OF 1] s same show thesis by simp
qed


theorem long_nick_ban_stops_hub_witness:
  "\<exists>s d r. NickBan None (Some (replicate 65 CHR ''a'')) None None 5 new_BanManager = Inr (s, True)
    \<and> Ban_Save True s = Inr (s\<lparr>m_ui32SaveCalled := 0\<rparr>, Some (d, r))
    \<and> Ban_Load (\<lambda>_. ''10.0.0.7'') 7 d r new_BanManager = Inl ProcessExit"
proof -
  let ?n = "replicate 65 CHR ''a''"
  have n: "\<not> bad_nick ?n" by (simp add: bad_nick_def cget_def)
  then obtain s where s: "NickBan None (Some ?n) None None 5 new_BanManager = Inr (s, True)" "bans_storable s"
    by (rule one_ban [of ?n]) auto
  from long_nick_ban_stops_hub [OF ban_inv_new n _ s] s(1) show ?thesis by auto
qed

end
