(* ===== verification/GlobalChat.thy ===== *)
theory GlobalChat
  imports FloodGate DataQueue
begin

text \<open>
  The limit on the main chat as a whole (\<open>Users::SendChat2All\<close> of \<open>core/colUsers.cpp\<close>): a counter per window, a lock
  once it runs over, and what becomes of a message.  The settings, the tick and the text of the report are arguments.
\<close>

section \<open>The guard\<close>

record chat_guard =
  m_ui16ChatMsgs :: u16
  m_ui64ChatMsgsTick :: u64
  m_ui64ChatLockFromTick :: u64
  m_bChatLocked :: bool

definition new_chat_guard :: chat_guard where
  "new_chat_guard = \<lparr>m_ui16ChatMsgs = 0, m_ui64ChatMsgsTick = 0, m_ui64ChatLockFromTick = 0, m_bChatLocked = False\<rparr>"

record chat_settings =
  gc_action :: "16 word"
  gc_messages :: "16 word"
  gc_time :: "16 word"
  gc_timeout :: "16 word"
  gc_report :: bool
  gc_report_text :: string

text \<open>A 16-bit setting added to a 64-bit tick.\<close>

definition tick_plus :: "u64 \<Rightarrow> 16 word \<Rightarrow> u64" where
  "tick_plus t d = t + word_of_int (sint d)"

definition count_chat :: "chat_settings \<Rightarrow> u64 \<Rightarrow> chat_guard \<Rightarrow> chat_guard" where
  "count_chat cfg tick g =
     (let g1 = (if m_ui16ChatMsgs g = 0 then
                  \<lparr>m_ui16ChatMsgs = 0, m_ui64ChatMsgsTick = tick, m_ui64ChatLockFromTick = tick, m_bChatLocked = False\<rparr>
                else if tick_plus (m_ui64ChatMsgsTick g) (gc_time cfg) < tick then
                  g\<lparr>m_ui64ChatMsgsTick := tick, m_ui16ChatMsgs := 0\<rparr>
                else g)
      in g1\<lparr>m_ui16ChatMsgs := m_ui16ChatMsgs g1 + 1\<rparr>)"

text \<open>The flag: whether the flood is to be reported.\<close>

definition lock_chat :: "chat_settings \<Rightarrow> u64 \<Rightarrow> chat_guard \<Rightarrow> chat_guard \<times> bool" where
  "lock_chat cfg tick g =
     (if m_ui16ChatMsgs g > gc_messages cfg
      then (g\<lparr>m_ui64ChatLockFromTick := tick, m_bChatLocked := True\<rparr>, \<not> m_bChatLocked g \<and> gc_report cfg)
      else (g, False))"

datatype verdict = Pass | Drop | ToOps

definition judge_chat :: "chat_settings \<Rightarrow> u64 \<Rightarrow> chat_guard \<Rightarrow> chat_guard \<times> verdict" where
  "judge_chat cfg tick g =
     (if m_bChatLocked g then
        (if tick_plus (m_ui64ChatLockFromTick g) (gc_timeout cfg) > tick then
           (g, if gc_action cfg = 1 then Drop else if gc_action cfg = 2 then ToOps else Pass)
         else (g\<lparr>m_bChatLocked := False\<rparr>, Pass))
      else (g, Pass))"

definition chat_check :: "chat_settings \<Rightarrow> bool \<Rightarrow> u64 \<Rightarrow> chat_guard \<Rightarrow> chat_guard \<times> bool \<times> verdict" where
  "chat_check cfg bAllowed tick g =
     (if \<not> bAllowed \<and> gc_action cfg \<noteq> 0 then
        (let (g1, report) = lock_chat cfg tick (count_chat cfg tick g); (g2, v) = judge_chat cfg tick g1
         in (g2, report, v))
      else (g, False, Pass))"

section \<open>The message\<close>

text \<open>\<open>pQueueItem\<close>: the place of a blank item among the new ones, if there is one.\<close>

definition pass_chat :: "string \<Rightarrow> string \<Rightarrow> nat option \<Rightarrow> GlobalDataQueue \<Rightarrow> GlobalDataQueue" where
  "pass_chat raw sData pQueueItem G =
     (case pQueueItem of
        None \<Rightarrow> AddQueueItem raw sData [] CHAT G
      | Some i \<Rightarrow> G\<lparr>m_NewQueueItems := (m_NewQueueItems G)[i := FillBlankQueueItem sData (m_NewQueueItems G ! i)]\<rparr>)"

definition chat_to_ops :: "string \<Rightarrow> nat \<Rightarrow> string \<Rightarrow> string \<Rightarrow> GlobalDataQueue \<Rightarrow> GlobalDataQueue" where
  "chat_to_ops raw gsize sIP sData G =
     (if length sIP + 1 + length sData + 1 > gsize then G
      else AddQueueItem raw (sIP @ '' '' @ sData) [] OPS G)"

text \<open>\<open>raw\<close> and \<open>raw_report\<close> are what the new blocks of memory hold, \<open>gsize\<close> the size of the global buffer.\<close>

definition SendChat2All :: "chat_settings \<Rightarrow> (string \<times> string) \<Rightarrow> nat \<Rightarrow> bool \<Rightarrow> string \<Rightarrow> bool \<Rightarrow> u64 \<Rightarrow> string \<Rightarrow> string \<Rightarrow> nat option
    \<Rightarrow> chat_guard \<times> GlobalDataQueue \<Rightarrow> chat_guard \<times> GlobalDataQueue" where
  "SendChat2All cfg raws gsize as_pm hub_sec bAllowed tick sIP sData pQueueItem = (\<lambda>(g, G).
     let (g1, report, v) = chat_check cfg bAllowed tick g;
         G1 = (if report then StatusMessageFormat (fst raws) as_pm gsize hub_sec (gc_report_text cfg) G else G)
     in (g1, case v of Pass \<Rightarrow> pass_chat (snd raws) sData pQueueItem G1 | Drop \<Rightarrow> G1
                     | ToOps \<Rightarrow> chat_to_ops (snd raws) gsize sIP sData G1))"

section \<open>The guard as a gate\<close>

text \<open>The settings the guard is meant for: a positive limit and time-out, and one of the two actions.\<close>

definition chat_guarded :: "chat_settings \<Rightarrow> bool" where
  "chat_guarded cfg \<longleftrightarrow> gc_action cfg \<in> {1, 2} \<and> 0 < sint (gc_messages cfg) \<and> 0 \<le> sint (gc_time cfg) \<and> 0 < sint (gc_timeout cfg)"

lemma sint_as_unat0:
  assumes "0 \<le> sint (d :: 16 word)"
  shows "sint d = int (unat d) \<and> unat d < 32768"
proof (cases "0 < sint d")
  case True
  then show ?thesis by (rule sint_as_unat)
next
  case False
  with assms have "word_of_int (sint d) = (0 :: 16 word)" by simp
  then have "d = 0" by simp
  then show ?thesis by simp
qed

lemma tick_plus_run:
  assumes "0 \<le> sint d" and "unat t + unat d < 2 ^ 64"
  shows "unat (tick_plus t d) = unat t + unat d"
proof -
  note d = sint_as_unat0 [OF assms(1)]
  then have u: "unat (ucast d :: u64) = unat d" by (simp add: unsigned_ucast_eq take_bit_nat_eq_self)
  have "tick_plus t d = t + ucast d" using d by (simp add: tick_plus_def)
  with u assms(2) unat_add_lem [of t "ucast d"] show ?thesis by simp
qed

definition chat_step :: "chat_settings \<Rightarrow> chat_guard \<Rightarrow> nat \<Rightarrow> bool \<Rightarrow> chat_guard \<Rightarrow> bool" where
  "chat_step cfg g now ok g' \<longleftrightarrow> chat_guarded cfg \<and> now + 2 ^ 16 < 2 ^ 64 \<and> unat (m_ui16ChatMsgs g) < 65535
     \<and> unat (m_ui64ChatMsgsTick g) + 2 ^ 16 < 2 ^ 64
     \<and> (\<exists>report v. chat_check cfg False (word_of_nat now) g = (g', report, v) \<and> ok = (v = Pass))"

definition chat_count :: "chat_guard \<Rightarrow> nat" where "chat_count g = unat (m_ui16ChatMsgs g)"
definition chat_opened :: "chat_guard \<Rightarrow> nat" where "chat_opened g = unat (m_ui64ChatMsgsTick g)"

lemma judge_fields:
  assumes "judge_chat cfg tick g = (g', v)"
  shows "m_ui16ChatMsgs g' = m_ui16ChatMsgs g" and "m_ui64ChatMsgsTick g' = m_ui64ChatMsgsTick g"
  using assms by (auto simp: judge_chat_def split: if_splits)

lemma lock_fields:
  assumes "lock_chat cfg tick g = (g', r)"
  shows "m_ui16ChatMsgs g' = m_ui16ChatMsgs g" and "m_ui64ChatMsgsTick g' = m_ui64ChatMsgsTick g"
  using assms by (auto simp: lock_chat_def split: if_splits)

text \<open>A message over the limit does not pass.\<close>

lemma over_limit:
  assumes cfg: "chat_guarded cfg" and t: "unat tick + 2 ^ 16 < 2 ^ 64"
    and c: "m_ui16ChatMsgs g > gc_messages cfg" and l: "lock_chat cfg tick g = (g1, r)" and j: "judge_chat cfg tick g1 = (g2, v)"
  shows "v \<noteq> Pass"
proof -
  have p: "0 \<le> sint (gc_timeout cfg)" "0 < unat (gc_timeout cfg)" "unat (gc_timeout cfg) < 32768"
    using cfg sint_as_unat [of "gc_timeout cfg"] unfolding chat_guarded_def by linarith+
  then have "unat (tick_plus tick (gc_timeout cfg)) = unat tick + unat (gc_timeout cfg)"
    using t by (intro tick_plus_run) simp_all
  with p(2) have "tick_plus tick (gc_timeout cfg) > tick" by (simp add: word_less_nat_alt)
  with l c j cfg show ?thesis by (auto simp: lock_chat_def judge_chat_def chat_guarded_def)
qed

lemma chat_stepE:
  assumes "chat_step cfg g now ok g'"
  obtains tick g1 v where "unat tick = now" and "unat tick + 2 ^ 16 < 2 ^ 64" and "chat_guarded cfg" and "unat (m_ui16ChatMsgs g) < 65535"
    and "unat (m_ui64ChatMsgsTick g) + 2 ^ 16 < 2 ^ 64" and "g1 = count_chat cfg tick g"
    and "m_ui16ChatMsgs g' = m_ui16ChatMsgs g1" and "m_ui64ChatMsgsTick g' = m_ui64ChatMsgsTick g1"
    and "ok \<Longrightarrow> \<not> m_ui16ChatMsgs g1 > gc_messages cfg"
proof -
  define tick :: u64 where "tick = word_of_nat now"
  from assms obtain report v where st: "chat_guarded cfg" "now + 2 ^ 16 < 2 ^ 64" "unat (m_ui16ChatMsgs g) < 65535"
    "unat (m_ui64ChatMsgsTick g) + 2 ^ 16 < 2 ^ 64" "chat_check cfg False tick g = (g', report, v)" "ok = (v = Pass)"
    by (auto simp: chat_step_def tick_def)
  have t: "unat tick = now" using st(2) by (simp add: tick_def unat_of_nat take_bit_nat_eq_self)
  obtain g1 r where l: "lock_chat cfg tick (count_chat cfg tick g) = (g1, r)" by (cases "lock_chat cfg tick (count_chat cfg tick g)")
  obtain g2 v' where j: "judge_chat cfg tick g1 = (g2, v')" by (cases "judge_chat cfg tick g1")
  have "gc_action cfg \<noteq> 0" using st(1) by (auto simp: chat_guarded_def)
  with st(5) l j have e: "g' = g2" "v = v'" by (simp_all add: chat_check_def)
  have "\<not> m_ui16ChatMsgs (count_chat cfg tick g) > gc_messages cfg" if ok
    using over_limit [OF st(1) _ _ l j] that st(2,6) t e(2) by auto
  then show thesis
    using that [of tick "count_chat cfg tick g"] t st(1-4) judge_fields [OF j] lock_fields [OF l] e(1) by simp
qed

lemma count_chat_run:
  assumes "chat_guarded cfg" and "unat (m_ui64ChatMsgsTick g) + 2 ^ 16 < 2 ^ 64" and "unat (m_ui16ChatMsgs g) < 65535"
  shows "if chat_count g = 0 \<or> chat_opened g + (unat (gc_time cfg) + 1) \<le> unat tick
    then chat_count (count_chat cfg tick g) = 1 \<and> chat_opened (count_chat cfg tick g) = unat tick
    else chat_count (count_chat cfg tick g) = chat_count g + 1 \<and> chat_opened (count_chat cfg tick g) = chat_opened g"
proof -
  have p: "0 \<le> sint (gc_time cfg)" using assms(1) by (simp add: chat_guarded_def)
  have "unat (m_ui64ChatMsgsTick g) + unat (gc_time cfg) < 2 ^ 64" using sint_as_unat0 [OF p] assms(2) by simp
  from tick_plus_run [OF p this] have "tick_plus (m_ui64ChatMsgsTick g) (gc_time cfg) < tick
      \<longleftrightarrow> chat_opened g + (unat (gc_time cfg) + 1) \<le> unat tick" by (simp add: word_less_nat_alt chat_opened_def Suc_le_eq)
  moreover have "m_ui16ChatMsgs g = 0 \<longleftrightarrow> chat_count g = 0" by (simp add: chat_count_def unsigned_eq_0_iff)
  ultimately show ?thesis
    using unat_u16_inc [OF assms(3)] by (simp add: count_chat_def Let_def chat_count_def chat_opened_def)
qed

lemma chat_gate: "rate_gate (chat_step cfg) chat_count chat_opened (max 1 (unat (gc_messages cfg))) (unat (gc_time cfg) + 1)"
proof
  show "0 < max 1 (unat (gc_messages cfg))" by simp
next
  fix g now ok g'
  assume st: "chat_step cfg g now ok g'" and w: "chat_count g = 0 \<or> chat_opened g + (unat (gc_time cfg) + 1) \<le> now"
  from st show "chat_count g' = 1 \<and> chat_opened g' = now"
  proof (rule chat_stepE)
    fix tick g1
    assume c: "unat tick = now" "chat_guarded cfg" "unat (m_ui16ChatMsgs g) < 65535" "unat (m_ui64ChatMsgsTick g) + 2 ^ 16 < 2 ^ 64"
      and g1: "g1 = count_chat cfg tick g" "m_ui16ChatMsgs g' = m_ui16ChatMsgs g1" "m_ui64ChatMsgsTick g' = m_ui64ChatMsgsTick g1"
    show "chat_count g' = 1 \<and> chat_opened g' = now"
      using count_chat_run [OF c(2,4,3), of tick] w c(1) g1 by (simp add: chat_count_def chat_opened_def)
  qed
next
  fix g now ok g'
  assume st: "chat_step cfg g now ok g'" and w: "chat_count g \<noteq> 0" "now < chat_opened g + (unat (gc_time cfg) + 1)"
  from st show "chat_opened g' = chat_opened g \<and> (ok \<longrightarrow> chat_count g < max 1 (unat (gc_messages cfg)) \<and> chat_count g' = chat_count g + 1)
      \<and> (\<not> ok \<longrightarrow> min (chat_count g) (max 1 (unat (gc_messages cfg))) \<le> chat_count g')"
  proof (rule chat_stepE)
    fix tick g1
    assume c: "unat tick = now" "chat_guarded cfg" "unat (m_ui16ChatMsgs g) < 65535" "unat (m_ui64ChatMsgsTick g) + 2 ^ 16 < 2 ^ 64"
      and g1: "g1 = count_chat cfg tick g" "m_ui16ChatMsgs g' = m_ui16ChatMsgs g1" "m_ui64ChatMsgsTick g' = m_ui64ChatMsgsTick g1"
      and ok: "ok \<Longrightarrow> \<not> m_ui16ChatMsgs g1 > gc_messages cfg"
    have n: "chat_count g' = chat_count g + 1" "chat_opened g' = chat_opened g"
      using count_chat_run [OF c(2,4,3), of tick] w c(1) g1 by (simp_all add: chat_count_def chat_opened_def)
    have "chat_count g' \<le> unat (gc_messages cfg)" if ok
      using ok [OF that] g1(2) by (simp add: chat_count_def word_less_nat_alt not_less)
    with n show ?thesis by auto
  qed
qed

interpretation global_chat: rate_gate "chat_step cfg" chat_count chat_opened "max 1 (unat (gc_messages cfg))" "unat (gc_time cfg) + 1" for cfg
  by (rule chat_gate)

section \<open>Runs\<close>

text \<open>Which of the messages at the given ticks pass, for users without the right to flood.\<close>

fun chat_run :: "chat_settings \<Rightarrow> u64 list \<Rightarrow> chat_guard \<Rightarrow> bool list" where
  "chat_run cfg [] g = []"
| "chat_run cfg (tick # ticks) g =
     (let (g', _, v) = chat_check cfg False tick g in (v = Pass) # chat_run cfg ticks g')"

lemma chat_run_gate:
  "chat_guarded cfg \<Longrightarrow> unat (m_ui16ChatMsgs g) + length ts \<le> 65535 \<Longrightarrow> unat (m_ui64ChatMsgsTick g) + 2 ^ 16 < 2 ^ 64 \<Longrightarrow>
   \<forall>t \<in> set ts. unat t + 2 ^ 16 < 2 ^ 64 \<Longrightarrow>
   \<exists>g'. gate_run (chat_step cfg) g (zip (map unat ts) (chat_run cfg ts g)) g'"
proof (induction ts arbitrary: g)
  case Nil
  then show ?case by (auto intro: gate_run_Nil)
next
  case (Cons t ts)
  obtain g1 r v where c: "chat_check cfg False t g = (g1, r, v)" by (cases "chat_check cfg False t g")
  have st: "chat_step cfg g (unat t) (v = Pass) g1"
    using Cons.prems c by (auto simp: chat_step_def)
  then have "unat (m_ui16ChatMsgs g1) \<le> unat (m_ui16ChatMsgs g) + 1 \<and> unat (m_ui64ChatMsgsTick g1) + 2 ^ 16 < 2 ^ 64"
  proof (rule chat_stepE)
    fix tick g2
    assume k: "unat tick = unat t" "unat (m_ui16ChatMsgs g) < 65535" "g2 = count_chat cfg tick g"
      "m_ui16ChatMsgs g1 = m_ui16ChatMsgs g2" "m_ui64ChatMsgsTick g1 = m_ui64ChatMsgsTick g2"
    show ?thesis
      using count_chat_run [OF Cons.prems(1,3) k(2), of tick] Cons.prems(3,4) k
      by (auto simp: chat_count_def chat_opened_def split: if_splits)
  qed
  with Cons.IH [of g1] Cons.prems obtain g' where "gate_run (chat_step cfg) g1 (zip (map unat ts) (chat_run cfg ts g1)) g'" by auto
  from gate_run.gate_run_Cons [OF st this] c show ?case by (intro exI [of _ g']) simp
qed

lemma length_chat_run [simp]: "length (chat_run cfg ts g) = length ts"
  by (induction ts arbitrary: g) (simp_all split: prod.splits)


definition demo_chat :: chat_settings where
  "demo_chat = \<lparr>gc_action = 1, gc_messages = 2, gc_time = 10, gc_timeout = 5, gc_report = True, gc_report_text = ''flood|''\<rparr>"

lemma demo_chat_guarded: "chat_guarded demo_chat"
  by (simp add: chat_guarded_def demo_chat_def)


section \<open>The lock\<close>

text \<open>The messages for the main chat among the new items.\<close>

definition chat_items :: "GlobalDataQueue \<Rightarrow> QueueItem list" where
  "chat_items G = filter (\<lambda>q. m_eCmdType q = CHAT) (m_NewQueueItems G)"

lemma status_keeps_chat [simp]: "chat_items (StatusMessageFormat raw as_pm gsize hub_sec t G) = chat_items G"
  by (simp add: StatusMessageFormat_def Let_def chat_items_def AddQueueItem_def SingleItemStore_def CreateQueueItem_def)

lemma ops_keep_chat [simp]: "chat_items (chat_to_ops raw gsize sIP sData G) = chat_items G"
  by (simp add: chat_to_ops_def chat_items_def AddQueueItem_def CreateQueueItem_def)

text \<open>While the time-out of the lock runs, the chat stays locked and no message of a user without the right gets into it.\<close>

lemma locked_verdict:
  assumes cfg: "chat_guarded cfg" and g: "m_bChatLocked g" "m_ui16ChatMsgs g \<noteq> 0"
    and t: "unat (m_ui64ChatLockFromTick g) \<le> unat tick" "unat tick < unat (m_ui64ChatLockFromTick g) + unat (gc_timeout cfg)"
    and room: "unat tick + 2 ^ 16 < 2 ^ 64"
  obtains g' r v where "chat_check cfg False tick g = (g', r, v)" and "m_bChatLocked g'" and "v \<noteq> Pass"
    and "m_ui64ChatLockFromTick g' \<in> {m_ui64ChatLockFromTick g, tick}" and "m_ui16ChatMsgs g' = m_ui16ChatMsgs g + 1 \<or> m_ui16ChatMsgs g' = 1"
proof -
  let ?g = "count_chat cfg tick g"
  have c: "m_bChatLocked ?g" "m_ui64ChatLockFromTick ?g = m_ui64ChatLockFromTick g"
    "m_ui16ChatMsgs ?g = m_ui16ChatMsgs g + 1 \<or> m_ui16ChatMsgs ?g = 1"
    using g by (simp_all add: count_chat_def Let_def)
  obtain g1 r where l: "lock_chat cfg tick ?g = (g1, r)" by (cases "lock_chat cfg tick ?g")
  obtain g2 v where j: "judge_chat cfg tick g1 = (g2, v)" by (cases "judge_chat cfg tick g1")
  have l1: "m_bChatLocked g1" "m_ui64ChatLockFromTick g1 \<in> {m_ui64ChatLockFromTick g, tick}"
    using l c by (auto simp: lock_chat_def split: if_splits)
  have p: "0 \<le> sint (gc_timeout cfg)" "unat (gc_timeout cfg) < 32768" "0 < unat (gc_timeout cfg)"
    using cfg sint_as_unat [of "gc_timeout cfg"] unfolding chat_guarded_def by linarith+
  have "unat (m_ui64ChatLockFromTick g1) \<in> {unat (m_ui64ChatLockFromTick g), unat tick}" using l1(2) by auto
  then have "unat (m_ui64ChatLockFromTick g1) + unat (gc_timeout cfg) < 2 ^ 64"
    "unat tick < unat (m_ui64ChatLockFromTick g1) + unat (gc_timeout cfg)" using t room p(2,3) by auto
  with tick_plus_run [OF p(1)] have in_force: "tick_plus (m_ui64ChatLockFromTick g1) (gc_timeout cfg) > tick" by (simp add: word_less_nat_alt)
  have "gc_action cfg \<noteq> 0" using cfg by (auto simp: chat_guarded_def)
  then have "chat_check cfg False tick g = (g2, r, v)" using l j by (simp add: chat_check_def)
  moreover have "g2 = g1" "v \<noteq> Pass" using j l1(1) in_force cfg by (auto simp: judge_chat_def chat_guarded_def)
  ultimately show thesis using that [of g2 r v] l1 lock_fields(1) [OF l] c(3) by simp
qed

text \<open>
  C31.  While the time-out of the lock runs, \<open>SendChat2All\<close> puts no message of a user without the right to flood into the
  main chat, whatever it does with it otherwise, and the lock stays.
\<close>

theorem locked_chat_is_shut:
  assumes "chat_guarded cfg" and "m_bChatLocked g" and "m_ui16ChatMsgs g \<noteq> 0"
    and "unat (m_ui64ChatLockFromTick g) \<le> unat tick" and "unat tick < unat (m_ui64ChatLockFromTick g) + unat (gc_timeout cfg)"
    and "unat tick + 2 ^ 16 < 2 ^ 64"
  shows "\<exists>g' G'. SendChat2All cfg raws gsize as_pm hub_sec False tick sIP sData qi (g, G) = (g', G')
    \<and> chat_items G' = chat_items G \<and> m_bChatLocked g'"
proof -
  from assms obtain g' r v where "chat_check cfg False tick g = (g', r, v)" "m_bChatLocked g'" "v \<noteq> Pass" by (rule locked_verdict)
  then show ?thesis by (cases v) (simp_all add: SendChat2All_def)
qed

theorem locked_chat_is_shut_witness:
  "\<exists>g' G'. SendChat2All demo_chat ([], []) 1000 False ''Hub'' False 4 ''10.0.0.7'' ''<eve> hi|'' None
      (\<lparr>m_ui16ChatMsgs = 3, m_ui64ChatMsgsTick = 1, m_ui64ChatLockFromTick = 3, m_bChatLocked = True\<rparr>, new_GlobalDataQueue) = (g', G')
    \<and> chat_items G' = [] \<and> m_bChatLocked g'"
  using locked_chat_is_shut [OF demo_chat_guarded, of "\<lparr>m_ui16ChatMsgs = 3, m_ui64ChatMsgsTick = 1, m_ui64ChatLockFromTick = 3, m_bChatLocked = True\<rparr>" 4
      "([], [])" 1000 False "''Hub''" "''10.0.0.7''" "''<eve> hi|''" None new_GlobalDataQueue]
  by (simp add: demo_chat_def chat_items_def new_GlobalDataQueue_def)

text \<open>
  The counter has 16 bits: when it runs over in one window it is taken for that of the first message, the lock is
  lifted, and a message passes.
\<close>

lemma counter_unlocks:
  assumes "m_ui16ChatMsgs g = 0" and cfg: "chat_guarded cfg"
  shows "\<exists>g' r. chat_check cfg False tick g = (g', r, Pass) \<and> \<not> m_bChatLocked g'"
proof -
  have "1 \<le> unat (gc_messages cfg)" using cfg sint_as_unat [of "gc_messages cfg"] unfolding chat_guarded_def by linarith
  then have "\<not> 1 > gc_messages cfg" by (simp add: word_less_nat_alt not_less)
  moreover have "gc_action cfg \<noteq> 0" using cfg by (auto simp: chat_guarded_def)
  ultimately show ?thesis
    using assms(1) by (auto simp: chat_check_def count_chat_def lock_chat_def judge_chat_def Let_def)
qed

end
