(* ===== verification/MyInfoGen.thy ===== *)
theory MyInfoGen
  imports MyInfoRound DataQueue
begin

text \<open>
  The announcement the hub makes of a user for the others (\<open>GenerateMyInfoLong\<close>, \<open>GenerateMyInfoShort\<close>, \<open>Add2Userlist\<close> in
  \<open>core/User.cpp\<close>, and the end of \<open>ProcessCmds\<close> in \<open>core/DcCommands.cpp\<close>).  Scripts may replace parts of it, once or for good.
  It is put together in the global buffer with \<open>memcpy\<close>, which does not ask for the size.
\<close>

section \<open>What is shown\<close>

definition INFOBIT_DESCRIPTION_SHORT_PERM :: u32 where "INFOBIT_DESCRIPTION_SHORT_PERM = 0x20"
definition INFOBIT_DESCRIPTION_LONG_PERM :: u32 where "INFOBIT_DESCRIPTION_LONG_PERM = 0x40"
definition INFOBIT_TAG_SHORT_PERM :: u32 where "INFOBIT_TAG_SHORT_PERM = 0x80"
definition INFOBIT_TAG_LONG_PERM :: u32 where "INFOBIT_TAG_LONG_PERM = 0x100"
definition INFOBIT_CONNECTION_SHORT_PERM :: u32 where "INFOBIT_CONNECTION_SHORT_PERM = 0x200"
definition INFOBIT_CONNECTION_LONG_PERM :: u32 where "INFOBIT_CONNECTION_LONG_PERM = 0x400"
definition INFOBIT_EMAIL_SHORT_PERM :: u32 where "INFOBIT_EMAIL_SHORT_PERM = 0x800"
definition INFOBIT_EMAIL_LONG_PERM :: u32 where "INFOBIT_EMAIL_LONG_PERM = 0x1000"

text \<open>The parts a script has changed: \<open>m_sChangedDescriptionLong\<close> and its relatives, or those of the short announcement.\<close>

record info_changes =
  ch_description :: string
  ch_tag :: string
  ch_connection :: string
  ch_email :: string

definition no_changes :: info_changes where
  "no_changes = \<lparr>ch_description = [], ch_tag = [], ch_connection = [], ch_email = []\<rparr>"

text \<open>What the code reads beside the user; \<open>is_raw\<close> is what a new block of memory holds.\<close>

record info_settings =
  is_gsize :: nat
  is_full_option :: nat
  is_mode_to_description :: bool
  is_mode_to_myinfo :: bool
  is_strip_description :: bool
  is_strip_tag :: bool
  is_strip_connection :: bool
  is_strip_email :: bool
  is_delay :: "16 word"
  is_tick :: u64
  is_report_tag :: bool
  is_status_messages :: bool
  is_status_as_pm :: bool
  is_hub_sec :: string
  is_lan_suspicious :: string
  is_lan_full_description :: string
  is_raw :: string

text \<open>
  A user, the lists that hold the announcements and the queue they are sent from.  \<open>ig_ext\<close> is what the user has sent
  as JSON, if anything, with the tick it was passed on last.
\<close>

record info_state =
  ig_user :: User
  ig_long :: info_changes
  ig_short :: info_changes
  ig_myinfo_tick :: u64
  ig_json_user :: bool
  ig_ext :: "string option"
  ig_json_tick :: u64
  ig_lists :: Users
  ig_queue :: GlobalDataQueue

text \<open>A part and what is left of the change: a change that is not for good is used up.\<close>

definition info_part :: "u32 \<Rightarrow> u32 \<Rightarrow> string \<Rightarrow> bool \<Rightarrow> string \<Rightarrow> string \<times> string" where
  "info_part bits perm changed shown own =
     (if changed \<noteq> [] then (changed, if has_bits bits perm then changed else []) else (if shown then own else [], []))"

definition put_info :: "nat \<Rightarrow> string \<Rightarrow> string \<Rightarrow> string res" where
  "put_info gsize t acc =
     (if t = [] then Inr acc else if length acc + length t > gsize then Inl BufferOverflow else Inr (acc @ t))"

fun put_infos :: "nat \<Rightarrow> string list \<Rightarrow> string \<Rightarrow> string res" where
  "put_infos gsize [] acc = Inr acc"
| "put_infos gsize (t # ts) acc = rbind (put_info gsize t acc) (put_infos gsize ts)"

text \<open>\<open>SnprintfAppend\<close>: with a check.\<close>

definition append_info :: "nat \<Rightarrow> string \<Rightarrow> string \<Rightarrow> string option" where
  "append_info gsize t acc = (if length acc + length t < gsize then Some (acc @ t) else None)"

definition info_head :: "User \<Rightarrow> string" where
  "info_head u = ''$MyINFO $ALL '' @ m_sNick u @ '' ''"

definition info_tail :: "u64 \<Rightarrow> string" where
  "info_tail share = ''$'' @ to_dec (unat share) @ ''$|''"

text \<open>The test for TLS looks into \<open>m_ui32BoolBits\<close>.\<close>

definition shown_magic :: "User \<Rightarrow> byte" where
  "shown_magic u =
     (let m0 = m_ui8MagicByte (m_Info u);
          m1 = (if has_bits (m_ui32BoolBits u) SUPPORTBIT_TLS2 then m0 else m0 AND NOT 0x10 AND NOT 0x20);
          m2 = (if has_bits (m_ui32BoolBits u) BIT_IPV4 then m1 OR 0x40 else m1 AND NOT 0x40)
      in if has_bits (m_ui32BoolBits u) BIT_IPV6 then m2 OR 0x80 else m2 AND NOT 0x80)"

text \<open>
  Whether the new text is the stored one, by length and by what follows the nick; of a stored text that is shorter
  than its head the length of the rest would wrap.
\<close>

definition same_announcement :: "User \<Rightarrow> string \<Rightarrow> string \<Rightarrow> bool res" where
  "same_announcement u old new =
     (let n = 14 + length (m_sNick u) in
      if old = [] \<or> word_of_nat (length old) \<noteq> (word_of_nat (length new) :: u16) then Inr False
      else if length old < n then Inl BufferOverflow
      else Inr (take (length old - n) (drop n new) = drop n old))"

text \<open>
  The length is kept in 16 bits.  (Nick, parts from a client and parts from a script are all far below 65536 together,
  so a text of just that length, kept as one of no characters, is not told from none.)
\<close>

definition cut16 :: "string \<Rightarrow> string" where
  "cut16 s = take (unat (word_of_nat (length s) :: u16)) s"

section \<open>The long announcement\<close>

definition UserSetMyInfoLong :: "info_settings \<Rightarrow> string \<Rightarrow> info_state \<Rightarrow> info_state res" where
  "UserSetMyInfoLong cfg t st =
     rbind (if m_sMyInfoLong (ig_user st) \<noteq> [] \<and> is_full_option cfg \<noteq> 2
            then Users_DelFromMyInfosTag (ig_ext st) (ig_user st) (ig_lists st) else Inr (ig_lists st)) (\<lambda>U.
       Inr (st\<lparr>ig_lists := U, ig_user := (ig_user st)\<lparr>m_sMyInfoLong := cut16 t\<rparr>\<rparr>))"

definition long_parts :: "User \<Rightarrow> info_changes \<Rightarrow> string list \<times> info_changes" where
  "long_parts u c =
     (let bits = m_ui32InfoBits u;
          (d, d') = info_part bits INFOBIT_DESCRIPTION_LONG_PERM (ch_description c) True (m_sDescription (m_Info u));
          (t, t') = info_part bits INFOBIT_TAG_LONG_PERM (ch_tag c) True (m_sTag (m_Info u));
          (n, n') = info_part bits INFOBIT_CONNECTION_LONG_PERM (ch_connection c) True (m_sConnection (m_Info u));
          (e, e') = info_part bits INFOBIT_EMAIL_LONG_PERM (ch_email c) True (m_sEmail (m_Info u))
      in ([d, t, ''$ $'', n, [char_of_byte (shown_magic u), CHR ''$''], e],
          \<lparr>ch_description = d', ch_tag = t', ch_connection = n', ch_email = e'\<rparr>))"

definition reset_long_share :: "User \<Rightarrow> User" where
  "reset_long_share u =
     (if has_bits (m_ui32InfoBits u) INFOBIT_SHARE_LONG_PERM then u
      else mod_info (\<lambda>i. i\<lparr>m_ui64ChangedSharedSizeLong := m_ui64SharedSize u\<rparr>) u)"

definition GenerateMyInfoLong :: "info_settings \<Rightarrow> info_state \<Rightarrow> (info_state \<times> bool) res" where
  "GenerateMyInfoLong cfg st =
     (let u = ig_user st; (parts, c) = long_parts u (ig_long st); st1 = st\<lparr>ig_long := c\<rparr> in
      rbind (put_infos (is_gsize cfg) parts (info_head u)) (\<lambda>acc.
        case append_info (is_gsize cfg) (info_tail (m_ui64ChangedSharedSizeLong (m_Info u))) acc of
          None \<Rightarrow> Inr (st1, False)
        | Some t \<Rightarrow>
            let st2 = st1\<lparr>ig_user := reset_long_share u\<rparr> in
            rbind (same_announcement u (m_sMyInfoLong u) t) (\<lambda>same.
              if same then Inr (st2, False)
              else rbind (UserSetMyInfoLong cfg t st2) (\<lambda>st3. Inr (st3, True)))))"

section \<open>The short announcement\<close>

definition UserSetMyInfoShort :: "info_settings \<Rightarrow> string \<Rightarrow> info_state \<Rightarrow> info_state res" where
  "UserSetMyInfoShort cfg t st =
     rbind (if m_sMyInfoShort (ig_user st) \<noteq> [] \<and> is_full_option cfg \<noteq> 0
            then Users_DelFromMyInfos (ig_ext st) (ig_user st) (ig_lists st) else Inr (ig_lists st)) (\<lambda>U.
       Inr (st\<lparr>ig_lists := U, ig_user := (ig_user st)\<lparr>m_sMyInfoShort := cut16 t\<rparr>\<rparr>))"

text \<open>
  The mode in front of the description: with a space when the description neither starts with it nor has a space as
  second character.  The description of the user is looked at only when it is stripped.
\<close>

definition mode_prefix :: "info_settings \<Rightarrow> User \<Rightarrow> info_changes \<Rightarrow> string" where
  "mode_prefix cfg u c =
     (let m = cget (m_sModes (m_Info u)) 0;
          d = (if ch_description c \<noteq> [] then ch_description c
               else if is_strip_description cfg then m_sDescription (m_Info u) else [])
      in if \<not> is_mode_to_description cfg \<or> m = CHR 0x00 then []
         else if d = [] then [m]
         else if cget d 0 \<noteq> m \<and> cget d 1 \<noteq> CHR '' '' then [m, CHR '' '']
         else [])"

definition short_parts :: "info_settings \<Rightarrow> User \<Rightarrow> info_changes \<Rightarrow> string list \<times> string list \<times> info_changes" where
  "short_parts cfg u c =
     (let bits = m_ui32InfoBits u;
          (d, d') = info_part bits INFOBIT_DESCRIPTION_SHORT_PERM (ch_description c) (\<not> is_strip_description cfg) (m_sDescription (m_Info u));
          (t, t') = info_part bits INFOBIT_TAG_SHORT_PERM (ch_tag c) (\<not> is_strip_tag cfg) (m_sTag (m_Info u));
          (n, n') = info_part bits INFOBIT_CONNECTION_SHORT_PERM (ch_connection c) (\<not> is_strip_connection cfg) (m_sConnection (m_Info u));
          (e, e') = info_part bits INFOBIT_EMAIL_SHORT_PERM (ch_email c) (\<not> is_strip_email cfg) (m_sEmail (m_Info u))
      in ([mode_prefix cfg u c, d, t], [n, [char_of_byte (shown_magic u), CHR ''$''], e],
          \<lparr>ch_description = d', ch_tag = t', ch_connection = n', ch_email = e'\<rparr>))"

text \<open>The part between tag and connection: the mode if it is to be shown, which may not fit.\<close>

definition short_middle :: "info_settings \<Rightarrow> User \<Rightarrow> string \<Rightarrow> string option res" where
  "short_middle cfg u acc =
     (let m = cget (m_sModes (m_Info u)) 0 in
      if is_mode_to_myinfo cfg \<and> m \<noteq> CHR 0x00 then Inr (append_info (is_gsize cfg) [CHR ''$'', m, CHR ''$''] acc)
      else rbind (put_info (is_gsize cfg) ''$ $'' acc) (\<lambda>a. Inr (Some a)))"

definition reset_short_share :: "User \<Rightarrow> User" where
  "reset_short_share u =
     (if has_bits (m_ui32InfoBits u) INFOBIT_SHARE_SHORT_PERM then u
      else mod_info (\<lambda>i. i\<lparr>m_ui64ChangedSharedSizeShort := m_ui64SharedSize u\<rparr>) u)"

text \<open>When the mode does not fit, the changes of connection and mail are not used up yet.\<close>

definition GenerateMyInfoShort :: "info_settings \<Rightarrow> info_state \<Rightarrow> (info_state \<times> bool) res" where
  "GenerateMyInfoShort cfg st =
     (let u = ig_user st; (parts1, parts2, c) = short_parts cfg u (ig_short st);
          early = (ig_short st)\<lparr>ch_description := ch_description c, ch_tag := ch_tag c\<rparr> in
      rbind (put_infos (is_gsize cfg) parts1 (info_head u)) (\<lambda>acc.
      rbind (short_middle cfg u acc) (\<lambda>mid.
        case mid of
          None \<Rightarrow> Inr (st\<lparr>ig_short := early\<rparr>, False)
        | Some acc1 \<Rightarrow>
            rbind (put_infos (is_gsize cfg) parts2 acc1) (\<lambda>acc2.
              case append_info (is_gsize cfg) (info_tail (m_ui64ChangedSharedSizeShort (m_Info u))) acc2 of
                None \<Rightarrow> Inr (st\<lparr>ig_short := c\<rparr>, False)
              | Some t \<Rightarrow>
                  let st2 = st\<lparr>ig_short := c, ig_user := reset_short_share u\<rparr> in
                  rbind (same_announcement u (m_sMyInfoShort u) t) (\<lambda>same.
                    if same then Inr (st2, False)
                    else rbind (UserSetMyInfoShort cfg t st2) (\<lambda>st3. Inr (st3, True)))))))"

section \<open>Telling the others\<close>

definition on_lists :: "(Users \<Rightarrow> Users res) \<Rightarrow> info_state \<Rightarrow> info_state res" where
  "on_lists f st = rbind (f (ig_lists st)) (\<lambda>U. Inr (st\<lparr>ig_lists := U\<rparr>))"

definition to_queue :: "info_settings \<Rightarrow> string \<Rightarrow> string \<Rightarrow> Cmd \<Rightarrow> info_state \<Rightarrow> info_state" where
  "to_queue cfg t1 t2 k st = st\<lparr>ig_queue := AddQueueItem (is_raw cfg) t1 t2 k (ig_queue st)\<rparr>"

definition add_long :: "info_state \<Rightarrow> info_state res" where
  "add_long st = on_lists (Add2MyInfosTag (ig_ext st) (ig_user st)) st"

definition add_short :: "info_state \<Rightarrow> info_state res" where
  "add_short st = on_lists (Add2MyInfos (ig_ext st) (ig_user st)) st"

text \<open>\<open>User::Add2Userlist\<close>; any other option than the three adds no announcement.\<close>

definition User_Add2Userlist :: "info_settings \<Rightarrow> info_state \<Rightarrow> info_state res" where
  "User_Add2Userlist cfg st =
     rbind (on_lists (Add2NickList (ig_user st)) st) (\<lambda>st1.
     rbind (on_lists (Add2UserIP (is_gsize cfg) (ig_user st)) st1) (\<lambda>st2.
     rbind (if is_full_option cfg \<le> 1 then rbind (GenerateMyInfoLong cfg st2) (add_long \<circ> fst) else Inr st2) (\<lambda>st3.
       if is_full_option cfg = 1 \<or> is_full_option cfg = 2
       then rbind (GenerateMyInfoShort cfg st3) (add_short \<circ> fst) else Inr st3)))"

definition HasSuspiciousTag :: "info_settings \<Rightarrow> info_state \<Rightarrow> info_state" where
  "HasSuspiciousTag cfg st =
     (let u = ig_user st;
          t = ''<'' @ is_hub_sec cfg @ ''> *** '' @ m_sNick u @ '' ('' @ m_sIP u @ '') '' @ is_lan_suspicious cfg @ ''. ''
            @ is_lan_full_description cfg @ '': '' @ m_sDescription (m_Info u) @ ''|'';
          st1 = (if is_report_tag cfg \<and> is_status_messages cfg
                 then st\<lparr>ig_queue := StatusMessageFormat (is_raw cfg) (is_status_as_pm cfg) (is_gsize cfg) (is_hub_sec cfg) t (ig_queue st)\<rparr>
                 else st)
      in st1\<lparr>ig_user := u\<lparr>m_ui32BoolBits := m_ui32BoolBits u AND NOT BIT_HAVE_BADTAG\<rparr>\<rparr>)"

text \<open>An announcement goes to everybody once in the time set; in between only to operators, or to those who get the long one.\<close>

definition myinfo_due :: "info_settings \<Rightarrow> info_state \<Rightarrow> bool" where
  "myinfo_due cfg st \<longleftrightarrow> is_delay cfg = 0 \<or> is_tick cfg > word_of_int (60 * sint (is_delay cfg)) + ig_myinfo_tick st"

definition tell_one :: "info_settings \<Rightarrow> string \<Rightarrow> info_state \<Rightarrow> info_state" where
  "tell_one cfg t st =
     (if myinfo_due cfg st then to_queue cfg t [] MYINFO (st\<lparr>ig_myinfo_tick := is_tick cfg\<rparr>)
      else to_queue cfg t [] OPS st)"

definition BIT_PRCSD_EXT_JSON :: u32 where "BIT_PRCSD_EXT_JSON = 0x20000000"

definition tell_json :: "info_settings \<Rightarrow> info_state \<Rightarrow> info_state" where
  "tell_json cfg st =
     (let u = ig_user st in
      if \<not> has_bits (m_ui32BoolBits u) BIT_PRCSD_EXT_JSON then st
      else
        let st1 = st\<lparr>ig_user := u\<lparr>m_ui32BoolBits := m_ui32BoolBits u AND NOT BIT_PRCSD_EXT_JSON\<rparr>\<rparr> in
        case ig_ext st1 of
          None \<Rightarrow> st1
        | Some t \<Rightarrow>
            if \<not> ig_json_user st1 \<or> t = [] then st1
            else if ig_json_tick st1 \<noteq> 0 \<or> is_tick cfg > ig_json_tick st1 + 60
            then to_queue cfg t [] EXTJSON (st1\<lparr>ig_json_tick := is_tick cfg\<rparr>)
            else to_queue cfg t [] OPS st1)"

definition tell_long :: "info_settings \<Rightarrow> info_state \<Rightarrow> info_state res" where
  "tell_long cfg st =
     rbind (GenerateMyInfoLong cfg st) (\<lambda>(st1, changed).
       if \<not> changed then Inr st1
       else rbind (add_long st1) (\<lambda>st2. Inr (tell_one cfg (m_sMyInfoLong (ig_user st2)) st2)))"

definition tell_short :: "info_settings \<Rightarrow> info_state \<Rightarrow> info_state res" where
  "tell_short cfg st =
     rbind (GenerateMyInfoShort cfg st) (\<lambda>(st1, changed).
       if \<not> changed then Inr st1
       else rbind (add_short st1) (\<lambda>st2. Inr (tell_one cfg (m_sMyInfoShort (ig_user st2)) st2)))"

text \<open>With both lists nothing is told when the long announcement is unchanged, whatever the short one would be.\<close>

definition tell_both :: "info_settings \<Rightarrow> info_state \<Rightarrow> info_state res" where
  "tell_both cfg st =
     rbind (GenerateMyInfoLong cfg st) (\<lambda>(st1, changed).
       if \<not> changed then Inr st1
       else rbind (add_long st1) (\<lambda>st2.
            rbind (GenerateMyInfoShort cfg st2) (\<lambda>(st3, changed).
            rbind (if changed then add_short st3 else Inr st3) (\<lambda>st4.
              let long = m_sMyInfoLong (ig_user st4) in
              Inr (tell_json cfg
                (if changed \<and> myinfo_due cfg st4
                 then to_queue cfg (m_sMyInfoShort (ig_user st4)) long MYINFO (st4\<lparr>ig_myinfo_tick := is_tick cfg\<rparr>)
                 else to_queue cfg [] long MYINFO st4))))))"

text \<open>The end of \<open>ProcessCmds\<close>.\<close>

definition tell_myinfo :: "info_settings \<Rightarrow> info_state \<Rightarrow> info_state res" where
  "tell_myinfo cfg st =
     (if \<not> has_bits (m_ui32BoolBits (ig_user st)) BIT_PRCSD_MYINFO then Inr st
      else
        let st1 = st\<lparr>ig_user := (ig_user st)\<lparr>m_ui32BoolBits := m_ui32BoolBits (ig_user st) AND NOT BIT_PRCSD_MYINFO\<rparr>\<rparr>;
            st2 = (if has_bits (m_ui32BoolBits (ig_user st1)) BIT_HAVE_BADTAG then HasSuspiciousTag cfg st1 else st1)
        in if has_bits (m_ui32InfoBits (ig_user st2)) INFOBIT_HIDDEN then Inr st2
           else if is_full_option cfg = 0 then tell_long cfg st2
           else if is_full_option cfg = 2 then tell_short cfg st2
           else tell_both cfg st2)"

end
