(* ===== verification/MyInfoGenSpec.thy ===== *)
theory MyInfoGenSpec
  imports MyInfoGen UserListsSpec
begin

text \<open>
  What is announced: the text put together, that a stored announcement takes the place of the one before it in the
  list, and that what a client sends is what the others get.
\<close>

section \<open>The text\<close>

definition long_text :: "User \<Rightarrow> info_changes \<Rightarrow> string" where
  "long_text u c = info_head u @ concat (fst (long_parts u c)) @ info_tail (m_ui64ChangedSharedSizeLong (m_Info u))"

lemma put_infos_run: "length acc + length (concat ts) \<le> gsize \<Longrightarrow> put_infos gsize ts acc = Inr (acc @ concat ts)"
  by (induction ts arbitrary: acc) (auto simp: put_info_def)

lemma info_tail_nonempty [simp]: "info_tail n \<noteq> []"
  by (simp add: info_tail_def)

lemma same_announcement_run:
  "14 + length (m_sNick u) \<le> length old \<Longrightarrow> length old < 65536 \<Longrightarrow> length new < 65536 \<Longrightarrow>
    same_announcement u old new = Inr (length old = length new \<and> drop (14 + length (m_sNick u)) old = drop (14 + length (m_sNick u)) new)"
  by (auto simp: same_announcement_def Let_def unat_arith_simps unat_of_nat)

lemma same_announcement_none [simp]: "same_announcement u [] new = Inr False"
  by (simp add: same_announcement_def)

lemma cut16_short [simp]: "length t < 65536 \<Longrightarrow> cut16 t = t"
  by (simp add: cut16_def unat_of_nat)

text \<open>What is stored when the text fits.\<close>

lemma GenerateMyInfoLong_run:
  assumes "length (long_text u (ig_long st)) < is_gsize cfg" and "ig_user st = u"
  shows "GenerateMyInfoLong cfg st =
    rbind (same_announcement u (m_sMyInfoLong u) (long_text u (ig_long st))) (\<lambda>same.
      let st2 = st\<lparr>ig_long := snd (long_parts u (ig_long st)), ig_user := reset_long_share u\<rparr> in
      if same then Inr (st2, False)
      else rbind (UserSetMyInfoLong cfg (long_text u (ig_long st)) st2) (\<lambda>st3. Inr (st3, True)))"
proof -
  obtain ps c where p: "long_parts u (ig_long st) = (ps, c)" by fastforce
  let ?acc = "info_head u @ concat ps"
  have l: "length ?acc + length (info_tail (m_ui64ChangedSharedSizeLong (m_Info u))) < is_gsize cfg"
    and t: "long_text u (ig_long st) = ?acc @ info_tail (m_ui64ChangedSharedSizeLong (m_Info u))"
    using assms p by (simp_all add: long_text_def)
  from l have 1: "put_infos (is_gsize cfg) ps (info_head u) = Inr ?acc" by (intro put_infos_run) simp
  from l have 2: "append_info (is_gsize cfg) (info_tail (m_ui64ChangedSharedSizeLong (m_Info u))) ?acc = Some (long_text u (ig_long st))"
    unfolding append_info_def t by (simp only: if_True)
  show ?thesis unfolding GenerateMyInfoLong_def assms(2) Let_def p snd_conv by (simp add: 1 2)
qed

section \<open>A list of announcements\<close>

definition info_line :: "string \<Rightarrow> bool" where
  "info_line t \<longleftrightarrow> take 13 t = ''$MyINFO $ALL '' \<and> count_list t (CHR ''$'') = 7 \<and> last t = CHR ''|'' \<and> CHR ''|'' \<notin> set (butlast t)"

lemma info_line_split: "info_line t \<Longrightarrow> t = ''$MyINFO $ALL '' @ drop 13 t"
  unfolding info_line_def by (metis append_take_drop_id)

lemma info_line_dollars: "info_line t \<Longrightarrow> count_list (drop 13 t) (CHR ''$'') = 5"
proof -
  assume t: "info_line t"
  then have "count_list (''$MyINFO $ALL '' @ drop 13 t) (CHR ''$'') = 7"
    using info_line_split [OF t] by (simp only: info_line_def)
  then show ?thesis by simp
qed

lemma info_line_drop: "info_line t \<Longrightarrow> drop 8 t = ''$ALL '' @ drop 13 t" "info_line t \<Longrightarrow> t = ''$MyINFO '' @ drop 8 t"
proof -
  assume "info_line t"
  then obtain d where "t = ''$MyINFO $ALL '' @ d" using info_line_split by blast
  then show "drop 8 t = ''$ALL '' @ drop 13 t" "t = ''$MyINFO '' @ drop 8 t" by simp_all
qed

lemma info_line_bar: "info_line t \<Longrightarrow> \<exists>s. t = s @ ''|'' \<and> CHR ''|'' \<notin> set s"
  unfolding info_line_def by (intro exI [of _ "butlast t"]) (cases t rule: rev_cases; auto)

text \<open>A piece with six dollars that begins with one is what is behind the command word.\<close>

lemma six_dollars:
  assumes d: "count_list d (CHR ''$'') = 5" and c: "cget (drop i (''$MyINFO $ALL '' @ d)) 0 = CHR ''$''"
    and six: "count_list (drop i (''$MyINFO $ALL '' @ d)) (CHR ''$'') = 6"
  shows "i = 8"
proof (cases "i < 13")
  case True
  then have "i = 0 \<or> i = 1 \<or> i = 2 \<or> i = 3 \<or> i = 4 \<or> i = 5 \<or> i = 6 \<or> i = 7 \<or> i = 8 \<or> i = 9 \<or> i = 10 \<or> i = 11 \<or> i = 12"
    by presburger
  with c six d show ?thesis by (elim disjE) (simp_all add: cget_def)
next
  case False
  then obtain j where "i = 13 + j" using le_Suc_ex by (metis linorder_not_less)
  moreover have "count_list (drop j d) (CHR ''$'') \<le> 5"
    using d by (metis append_take_drop_id count_list_append le_add2)
  moreover have "drop (13 + j) (''$MyINFO $ALL '' @ d) = drop j d" by (subst drop_append) simp
  ultimately show ?thesis using six by simp
qed

lemma info_line_length: "info_line t \<Longrightarrow> 13 < length t"
  using info_line_dollars by (rule_tac ccontr) fastforce

text \<open>An announcement ends with another one's text only if it is that one.\<close>

lemma info_line_announcement: "info_line t \<Longrightarrow> announcement t"
proof -
  assume t: "info_line t"
  obtain s where s: "t = s @ ''|''" "CHR ''|'' \<notin> set s" using info_line_bar [OF t] by blast
  have "drop 13 t = drop 13 s @ ''|''" using s info_line_length [OF t] by simp
  then show ?thesis using info_line_split [OF t] s(2) in_set_dropD unfolding announcement_def by metis
qed

lemma info_line_ends:
  assumes a: "info_line a" and t: "info_line t"
  shows "ends (drop 8 t) a \<longleftrightarrow> a = t"
proof
  let ?i = "length a - length (drop 8 t)"
  assume "ends (drop 8 t) a"
  then have d: "drop ?i a = drop 8 t" by (simp add: ends_def)
  note t8 = info_line_drop [OF t]
  have "cget (drop 8 t) 0 = CHR ''$''" "count_list (drop 8 t) (CHR ''$'') = 6"
    unfolding t8(1) using info_line_dollars [OF t] by (simp_all add: cget_def)
  with d have "cget (drop ?i (''$MyINFO $ALL '' @ drop 13 a)) 0 = CHR ''$''" "count_list (drop ?i (''$MyINFO $ALL '' @ drop 13 a)) (CHR ''$'') = 6"
    by (simp_all only: info_line_split [OF a, symmetric])
  then have "?i = 8" by (rule six_dollars [OF info_line_dollars [OF a]])
  with d t8(2) info_line_drop(2) [OF a] show "a = t" by metis
qed (use info_line_length [OF t] in \<open>simp add: ends_def\<close>)

lemma cut_info_announced:
  assumes l: "announced ts l" and ts: "\<forall>a \<in> set ts. info_line a" and t: "info_line t"
  shows "\<exists>l'. cut_info 8 t l = Inr l' \<and> announced (remove1 t ts) l'"
proof -
  let ?w = "takeWhile (\<lambda>s. \<not> ends (drop 8 t) s) ts" and ?d = "dropWhile (\<lambda>s. \<not> ends (drop 8 t) s) ts"
  obtain l' where l': "cut_info 8 t l = Inr l'" "sound l'"
    "tl_text l' = concat ?w @ (case ?d of [] \<Rightarrow> [] | s # vs \<Rightarrow> take (length s - length t) s @ concat vs)"
    using cut_info_lines [OF l] ts t info_line_announcement by blast
  have e: "?w = takeWhile (\<lambda>s. s \<noteq> t) ts" "?d = dropWhile (\<lambda>s. s \<noteq> t) ts"
    using info_line_ends [OF _ t] ts by (auto intro: takeWhile_cong dropWhile_cong)
  have "tl_text l' = concat (remove1 t ts)" unfolding l'(3) e by (induction ts) auto
  with l' show ?thesis by (auto simp: announced_def)
qed

section \<open>The magic byte\<close>

text \<open>The bits for TLS are stripped from everybody whose flags do not hold 0x100, and there that is the mark of a pinger.\<close>

lemma SUPPORTBIT_TLS2_pinger: "SUPPORTBIT_TLS2 = BIT_PINGER"
  by (simp add: user_bits SUPPORTBIT_TLS2_def)

lemma tls_bits_stripped: "\<not> has_bits (m_ui32BoolBits u) BIT_PINGER \<Longrightarrow> shown_magic u AND 0x30 = 0"
  unfolding shown_magic_def SUPPORTBIT_TLS2_pinger Let_def
  by (simp add: word_ao_dist and.assoc)

text \<open>So no magic byte is a dollar or a pipe.\<close>

lemma shown_magic_plain:
  assumes "\<not> has_bits (m_ui32BoolBits u) BIT_PINGER"
  shows "char_of_byte (shown_magic u) \<noteq> CHR ''$''" "char_of_byte (shown_magic u) \<noteq> CHR ''|''"
proof -
  have "shown_magic u \<noteq> 0x24" "shown_magic u \<noteq> 0x7C" using tls_bits_stripped [OF assms] by auto
  moreover have "byte_of (CHR ''$'') = 0x24" "byte_of (CHR ''|'') = 0x7C" by (simp_all add: byte_of_def)
  ultimately show "char_of_byte (shown_magic u) \<noteq> CHR ''$''" "char_of_byte (shown_magic u) \<noteq> CHR ''|''"
    by (metis byte_of_char_of_byte)+
qed

section \<open>The text is an announcement\<close>

text \<open>Nothing of what goes into it holds the protocol's separators.\<close>

definition tidy :: "User \<Rightarrow> info_changes \<Rightarrow> bool" where
  "tidy u c \<longleftrightarrow> (\<forall>s \<in> {m_sNick u, ch_description c, ch_tag c, ch_connection c, ch_email c, m_sDescription (m_Info u), m_sTag (m_Info u),
       m_sConnection (m_Info u), m_sEmail (m_Info u)}. plain ''$|'' s)
     \<and> \<not> has_bits (m_ui32BoolBits u) BIT_PINGER"

lemma plain_count: "plain bad s \<Longrightarrow> d \<in> set bad \<Longrightarrow> count_list s d = 0"
  by (simp add: plainD count_list_0_iff)

lemma plain_if: "plain bad a \<Longrightarrow> plain bad b \<Longrightarrow> plain bad (if p then a else b)"
  by simp

lemma plain_info_part: "plain bad a \<Longrightarrow> plain bad b \<Longrightarrow> plain bad (fst (info_part bits perm a shown b))"
  by (simp add: info_part_def plain_def)

lemma long_parts_text:
  "concat (fst (long_parts u c)) =
     fst (info_part (m_ui32InfoBits u) INFOBIT_DESCRIPTION_LONG_PERM (ch_description c) True (m_sDescription (m_Info u)))
     @ fst (info_part (m_ui32InfoBits u) INFOBIT_TAG_LONG_PERM (ch_tag c) True (m_sTag (m_Info u))) @ ''$ $''
     @ fst (info_part (m_ui32InfoBits u) INFOBIT_CONNECTION_LONG_PERM (ch_connection c) True (m_sConnection (m_Info u)))
     @ char_of_byte (shown_magic u) # CHR ''$''
     # fst (info_part (m_ui32InfoBits u) INFOBIT_EMAIL_LONG_PERM (ch_email c) True (m_sEmail (m_Info u)))"
  by (simp add: long_parts_def Let_def split_beta)

lemma to_dec_plain: "plain ''$|'' (to_dec n)"
  using not_in_dec [of "CHR ''$''" n] not_in_dec [of "CHR ''|''" n] by (auto simp: plain_def is_digit_def)

lemma plain_bar: "plain ''$|'' s \<Longrightarrow> CHR ''|'' \<notin> set s" "plain ''$|'' s \<Longrightarrow> count_list s (CHR ''$'') = 0"
  by (simp_all add: plainD plain_count)

lemma long_text_line:
  assumes t: "tidy u c"
  shows "info_line (long_text u c)"
proof -
  let ?p = "\<lambda>perm a b. fst (info_part (m_ui32InfoBits u) perm a True b)"
  define d where "d = ?p INFOBIT_DESCRIPTION_LONG_PERM (ch_description c) (m_sDescription (m_Info u))"
  define g where "g = ?p INFOBIT_TAG_LONG_PERM (ch_tag c) (m_sTag (m_Info u))"
  define n where "n = ?p INFOBIT_CONNECTION_LONG_PERM (ch_connection c) (m_sConnection (m_Info u))"
  define e where "e = ?p INFOBIT_EMAIL_LONG_PERM (ch_email c) (m_sEmail (m_Info u))"
  define k where "k = to_dec (unat (m_ui64ChangedSharedSizeLong (m_Info u)))"
  have p: "plain ''$|'' d" "plain ''$|'' g" "plain ''$|'' n" "plain ''$|'' e" "plain ''$|'' (m_sNick u)" "plain ''$|'' k"
    using t unfolding d_def g_def n_def e_def k_def tidy_def by (simp_all add: plain_info_part to_dec_plain)
  note m = shown_magic_plain [of u]
  have "long_text u c = ''$MyINFO $ALL '' @ m_sNick u @ '' '' @ d @ g @ ''$ $'' @ n @ [char_of_byte (shown_magic u)] @ ''$'' @ e @ ''$'' @ k @ ''$|''"
    by (simp add: long_text_def long_parts_text info_head_def info_tail_def d_def g_def n_def e_def k_def)
  then show ?thesis
    using plain_bar [OF p(1)] plain_bar [OF p(2)] plain_bar [OF p(3)] plain_bar [OF p(4)] plain_bar [OF p(5)] plain_bar [OF p(6)] m t
    by (simp add: info_line_def butlast_append tidy_def)
qed

lemma length_info_head: "length (info_head u) = 14 + length (m_sNick u)"
  by (simp add: info_head_def)

lemma take_long_text: "take (14 + length (m_sNick u)) (long_text u c) = info_head u"
  unfolding long_text_def length_info_head [symmetric] by simp

section \<open>A new info_line takes the place of the old one\<close>

text \<open>What a user has announced, and the state of one whose announcement is the list's.\<close>

definition stored :: "User \<Rightarrow> string \<Rightarrow> bool" where
  "stored u old \<longleftrightarrow> old = [] \<or> info_line old \<and> take (14 + length (m_sNick u)) old = info_head u \<and> length old < 65536"

lemma same_announcement_stored:
  assumes "stored u old" and "length (long_text u c) < 65536"
  shows "same_announcement u old (long_text u c) = Inr (old = long_text u c)"
proof (cases "old = []")
  case False
  let ?n = "14 + length (m_sNick u)"
  have h: "take ?n old = info_head u" "take ?n (long_text u c) = info_head u"
    using assms(1) False take_long_text by (simp_all add: stored_def)
  then have "length (take ?n old) = ?n" by (simp only: length_info_head)
  then have "?n \<le> length old" by simp
  moreover have "(length old = length (long_text u c) \<and> drop ?n old = drop ?n (long_text u c)) = (old = long_text u c)"
    using h by (metis append_take_drop_id)
  ultimately show ?thesis using assms False by (simp add: same_announcement_run stored_def)
qed (simp add: long_text_def info_head_def)

lemma lists_json [simp]: "m_TagTexts (Users_DelFromExtJSONInfos e U) = m_TagTexts U" "m_TagTexts (Add2ExtJSON e U) = m_TagTexts U"
  by (simp_all add: Users_DelFromExtJSONInfos_def Add2ExtJSON_def split: option.splits)

lemma set_long_announced:
  assumes "announced as (m_TagTexts (ig_lists st))" and "\<forall>a \<in> set as. info_line a" and "stored (ig_user st) (m_sMyInfoLong (ig_user st))"
    and "length t < 65536" and "is_full_option cfg \<noteq> 2"
  shows "\<exists>U. UserSetMyInfoLong cfg t st = Inr (st\<lparr>ig_lists := U, ig_user := (ig_user st)\<lparr>m_sMyInfoLong := t\<rparr>\<rparr>)
    \<and> announced (remove1 (m_sMyInfoLong (ig_user st)) as) (m_TagTexts U)"
proof (cases "m_sMyInfoLong (ig_user st) = []")
  case True
  then have "m_sMyInfoLong (ig_user st) \<notin> set as" using assms(2) by (auto simp: info_line_def)
  with True assms show ?thesis
    by (intro exI [of _ "ig_lists st"]) (simp add: UserSetMyInfoLong_def remove1_idem)
next
  case False
  then have "info_line (m_sMyInfoLong (ig_user st))" using assms(3) by (simp add: stored_def)
  from cut_info_announced [OF assms(1,2) this] obtain l where
    "cut_info 8 (m_sMyInfoLong (ig_user st)) (m_TagTexts (ig_lists st)) = Inr l" "announced (remove1 (m_sMyInfoLong (ig_user st)) as) l" by blast
  with False assms show ?thesis
    by (intro exI [of _ "(Users_DelFromExtJSONInfos (ig_ext st) (ig_lists st))\<lparr>m_TagTexts := l\<rparr>"])
      (simp add: UserSetMyInfoLong_def Users_DelFromMyInfosTag_def on_tags_def)
qed

lemma reset_long_share_fields [simp]: "m_sMyInfoLong (reset_long_share u) = m_sMyInfoLong u" "m_sNick (reset_long_share u) = m_sNick u"
  by (simp_all add: reset_long_share_def)

lemma stored_reset [simp]: "stored (reset_long_share u) old = stored u old"
  by (simp add: stored_def info_head_def)

lemma GenerateMyInfoLong_stored:
  assumes l: "announced as (m_TagTexts (ig_lists st))" and as: "\<forall>a \<in> set as. info_line a"
    and old: "stored (ig_user st) (m_sMyInfoLong (ig_user st))" and opt: "is_full_option cfg \<noteq> 2"
    and fits: "length (long_text (ig_user st) (ig_long st)) < is_gsize cfg" "length (long_text (ig_user st) (ig_long st)) < 65536"
  shows "\<exists>U. let u = ig_user st; t = long_text u (ig_long st) in
    GenerateMyInfoLong cfg st = Inr (st\<lparr>ig_long := snd (long_parts u (ig_long st)), ig_lists := U,
      ig_user := (reset_long_share u)\<lparr>m_sMyInfoLong := t\<rparr>\<rparr>, m_sMyInfoLong u \<noteq> t)
    \<and> (if m_sMyInfoLong u = t then U = ig_lists st else announced (remove1 (m_sMyInfoLong u) as) (m_TagTexts U))"
proof -
  define u where "u = ig_user st"
  define t where "t = long_text u (ig_long st)"
  define st2 where "st2 = st\<lparr>ig_long := snd (long_parts u (ig_long st)), ig_user := reset_long_share u\<rparr>"
  have run: "GenerateMyInfoLong cfg st = (if m_sMyInfoLong u = t then Inr (st2, False)
      else rbind (UserSetMyInfoLong cfg t st2) (\<lambda>st3. Inr (st3, True)))"
  proof -
    have "same_announcement u (m_sMyInfoLong u) t = Inr (m_sMyInfoLong u = t)"
      unfolding t_def by (rule same_announcement_stored) (use old fits in \<open>simp_all add: u_def\<close>)
    moreover have "GenerateMyInfoLong cfg st = rbind (same_announcement u (m_sMyInfoLong u) t) (\<lambda>same.
        if same then Inr (st2, False) else rbind (UserSetMyInfoLong cfg t st2) (\<lambda>st3. Inr (st3, True)))"
      unfolding t_def st2_def u_def by (rule GenerateMyInfoLong_run [OF fits(1) refl, unfolded Let_def])
    ultimately show ?thesis by (simp only: rbind.simps)
  qed
  show ?thesis
  proof (cases "m_sMyInfoLong u = t")
    case True
    then have "st2 = st\<lparr>ig_long := snd (long_parts u (ig_long st)), ig_lists := ig_lists st, ig_user := (reset_long_share u)\<lparr>m_sMyInfoLong := t\<rparr>\<rparr>"
      by (simp add: st2_def reset_long_share_def u_def)
    with True run show ?thesis unfolding Let_def u_def [symmetric] t_def [symmetric] by (intro exI [of _ "ig_lists st"]) simp
  next
    case False
    obtain U where "UserSetMyInfoLong cfg t st2 = Inr (st2\<lparr>ig_lists := U, ig_user := (ig_user st2)\<lparr>m_sMyInfoLong := t\<rparr>\<rparr>)"
      "announced (remove1 (m_sMyInfoLong (ig_user st2)) as) (m_TagTexts U)"
      using set_long_announced [of as st2 t cfg] l as old opt fits by (auto simp: st2_def u_def t_def)
    with False run show ?thesis unfolding Let_def u_def [symmetric] t_def [symmetric] by (intro exI [of _ U]) (simp add: st2_def)
  qed
qed

lemma add_long_announced:
  assumes "announced ts (m_TagTexts (ig_lists st))" and "length (m_sMyInfoLong (ig_user st)) < 65536"
  shows "\<exists>U. add_long st = Inr (st\<lparr>ig_lists := U\<rparr>) \<and> announced (ts @ [m_sMyInfoLong (ig_user st)]) (m_TagTexts U)"
proof -
  have "length (m_sMyInfoLong (ig_user st)) \<le> g_ui32MyInfoListSize" using assms(2) by (simp add: g_ui32MyInfoListSize_def)
  from add_info_announced [OF assms(1) this] show ?thesis
    by (auto simp: add_long_def on_lists_def Add2MyInfosTag_def on_tags_def)
qed

lemma tell_one_fields:
  "ig_user (tell_one cfg t st) = ig_user st" "ig_lists (tell_one cfg t st) = ig_lists st" "ig_long (tell_one cfg t st) = ig_long st"
  "m_NewQueueItems (ig_queue (tell_one cfg t st)) =
     m_NewQueueItems (ig_queue st) @ [CreateQueueItem (is_raw cfg) t [] (if myinfo_due cfg st then MYINFO else OPS)]"
  by (simp_all add: tell_one_def to_queue_def AddQueueItem_def)

lemma tell_long_run:
  assumes l: "announced ts (m_TagTexts (ig_lists st))" and ts: "\<forall>a \<in> set ts. info_line a"
    and old: "stored u (m_sMyInfoLong u)" "ig_user st = u" "long_text u (ig_long st) = t" and opt: "is_full_option cfg \<noteq> 2"
    and fits: "length t < is_gsize cfg" "length t < 65536"
  shows "\<exists>U. let st1 = st\<lparr>ig_long := snd (long_parts u (ig_long st)), ig_lists := U, ig_user := (reset_long_share u)\<lparr>m_sMyInfoLong := t\<rparr>\<rparr>
    in tell_long cfg st = Inr (if m_sMyInfoLong u = t then st1 else tell_one cfg t st1)
      \<and> (if m_sMyInfoLong u = t then U = ig_lists st else announced (remove1 (m_sMyInfoLong u) ts @ [t]) (m_TagTexts U))"
proof -
  define st1 where "st1 U = st\<lparr>ig_long := snd (long_parts u (ig_long st)), ig_lists := U, ig_user := (reset_long_share u)\<lparr>m_sMyInfoLong := t\<rparr>\<rparr>" for U
  obtain U where U: "GenerateMyInfoLong cfg st = Inr (st1 U, m_sMyInfoLong u \<noteq> t)"
    "if m_sMyInfoLong u = t then U = ig_lists st else announced (remove1 (m_sMyInfoLong u) ts) (m_TagTexts U)"
    using GenerateMyInfoLong_stored [of ts st cfg] l ts old opt fits unfolding Let_def st1_def by auto
  show ?thesis
  proof (cases "m_sMyInfoLong u = t")
    case True
    with U show ?thesis unfolding st1_def Let_def by (intro exI [of _ U]) (simp add: tell_long_def)
  next
    case False
    have "announced (remove1 (m_sMyInfoLong u) ts) (m_TagTexts (ig_lists (st1 U)))" "length (m_sMyInfoLong (ig_user (st1 U))) < 65536"
      using U(2) False fits(2) by (simp_all add: st1_def)
    from add_long_announced [OF this] obtain V where V: "add_long (st1 U) = Inr ((st1 U)\<lparr>ig_lists := V\<rparr>)"
      "announced (remove1 (m_sMyInfoLong u) ts @ [t]) (m_TagTexts V)" by (auto simp: st1_def)
    have "(st1 U)\<lparr>ig_lists := V\<rparr> = st1 V" "m_sMyInfoLong (ig_user (st1 V)) = t" by (simp_all add: st1_def)
    with U V False have "tell_long cfg st = Inr (tell_one cfg t (st1 V))" by (simp add: tell_long_def)
    with V False show ?thesis unfolding st1_def [symmetric] Let_def by (intro exI [of _ V]) simp
  qed
qed


section \<open>Nothing is told twice\<close>

lemma with_long [simp]: "long_parts (u\<lparr>m_sMyInfoLong := t\<rparr>) c = long_parts u c" "long_text (u\<lparr>m_sMyInfoLong := t\<rparr>) c = long_text u c"
  "reset_long_share (u\<lparr>m_sMyInfoLong := t\<rparr>) = (reset_long_share u)\<lparr>m_sMyInfoLong := t\<rparr>" "stored (u\<lparr>m_sMyInfoLong := t\<rparr>) x = stored u x"
  by (simp_all add: long_parts_def long_text_def reset_long_share_def stored_def info_head_def shown_magic_def)

lemma tell_long_unchanged:
  assumes "stored (ig_user st) t" and "m_sMyInfoLong (ig_user st) = t" and "long_text (ig_user st) (ig_long st) = t"
    and "snd (long_parts (ig_user st) (ig_long st)) = ig_long st" and "reset_long_share (ig_user st) = ig_user st"
    and "length t < min (is_gsize cfg) 65536"
  shows "tell_long cfg st = Inr st"
proof -
  let ?st = "st\<lparr>ig_long := ig_long st, ig_user := ig_user st\<rparr>"
  have "same_announcement (ig_user st) t t = Inr True"
    using same_announcement_stored [of "ig_user st" t "ig_long st"] assms by simp
  then have "GenerateMyInfoLong cfg st = Inr (?st, False)"
    using GenerateMyInfoLong_run [of "ig_user st" st cfg] assms by simp
  then show ?thesis by (simp add: tell_long_def)
qed

text \<open>
  When no part is replaced for one time only, an announcement told once is not told again: doing the same a second
  time leaves user, lists and queue as they are.
\<close>

theorem told_once:
  assumes "announced ts (m_TagTexts (ig_lists st))" and "\<forall>a \<in> set ts. info_line a"
    and "stored (ig_user st) (m_sMyInfoLong (ig_user st))" and "tidy (ig_user st) (ig_long st)" and "is_full_option cfg \<noteq> 2"
    and "length (long_text (ig_user st) (ig_long st)) < min (is_gsize cfg) 65536"
    and "snd (long_parts (ig_user st) (ig_long st)) = ig_long st" and "reset_long_share (ig_user st) = ig_user st"
  shows "\<exists>st'. tell_long cfg st = Inr st' \<and> tell_long cfg st' = Inr st'"
proof -
  define u where "u = ig_user st"
  define t where "t = long_text u (ig_long st)"
  have k: "snd (long_parts u (ig_long st)) = ig_long st" "reset_long_share u = u" using assms(7,8) by (simp_all add: u_def)
  obtain U where U: "tell_long cfg st = Inr (if m_sMyInfoLong u = t then st\<lparr>ig_long := ig_long st, ig_lists := U, ig_user := u\<lparr>m_sMyInfoLong := t\<rparr>\<rparr>
      else tell_one cfg t (st\<lparr>ig_long := ig_long st, ig_lists := U, ig_user := u\<lparr>m_sMyInfoLong := t\<rparr>\<rparr>))"
    using tell_long_run [OF assms(1-3) refl refl assms(5)] assms(6) unfolding Let_def u_def [symmetric] t_def [symmetric] k by auto
  define st' where "st' = (if m_sMyInfoLong u = t then st\<lparr>ig_long := ig_long st, ig_lists := U, ig_user := u\<lparr>m_sMyInfoLong := t\<rparr>\<rparr>
      else tell_one cfg t (st\<lparr>ig_long := ig_long st, ig_lists := U, ig_user := u\<lparr>m_sMyInfoLong := t\<rparr>\<rparr>))"
  have f: "ig_user st' = u\<lparr>m_sMyInfoLong := t\<rparr>" "ig_long st' = ig_long st" by (simp_all add: st'_def tell_one_fields)
  have "info_line t" unfolding t_def u_def by (rule long_text_line [OF assms(4)])
  then have "stored u t" using assms(6) take_long_text [of u "ig_long st"] by (simp add: stored_def t_def u_def)
  then have "tell_long cfg st' = Inr st'"
    using assms(6-8) by (intro tell_long_unchanged [of st' t]) (simp_all add: f u_def [symmetric] t_def [symmetric])
  with U show ?thesis unfolding st'_def [symmetric] by blast
qed

section \<open>Three tests that miss\<close>

text \<open>The mode goes in front of a description that has it already, unless descriptions are stripped.\<close>

lemma mode_put_twice:
  assumes "is_mode_to_description cfg" and "\<not> is_strip_description cfg" and "m_sModes (m_Info u) = m # ms" and "m \<noteq> CHR 0x00"
    and "ch_description c = []"
  shows "mode_prefix cfg u c = [m]"
  using assms by (simp add: mode_prefix_def cget_def)

text \<open>After the first time the text in JSON is told to everybody at any time.\<close>

lemma json_never_late:
  assumes "has_bits (m_ui32BoolBits (ig_user st)) BIT_PRCSD_EXT_JSON" and "ig_ext st = Some t" and "ig_json_user st" and "t \<noteq> []"
    and "ig_json_tick st \<noteq> 0"
  shows "m_NewQueueItems (ig_queue (tell_json cfg st)) = m_NewQueueItems (ig_queue st) @ [CreateQueueItem (is_raw cfg) t [] EXTJSON]"
  using assms by (simp add: tell_json_def to_queue_def AddQueueItem_def Let_def)

section \<open>What a client sends is what the others get\<close>

lemma long_text_sent:
  assumes "m_sDescription (m_Info v) = ci_desc x" and "m_sTag (m_Info v) = tag_text x" and "m_sConnection (m_Info v) = ci_speed x"
    and "m_sEmail (m_Info v) = ci_email x" and "m_ui64ChangedSharedSizeLong (m_Info v) = of_nat (ci_share x)" and "ci_share x < 2 ^ 64"
  shows "long_text v no_changes = myinfo_text (m_sNick v) (x\<lparr>ci_magic := char_of_byte (shown_magic v)\<rparr>)"
proof -
  have "unat (of_nat (ci_share x) :: u64) = ci_share x" using assms(6) by (simp add: unat_of_nat)
  then show ?thesis using assms
    by (simp add: long_text_def long_parts_text info_part_def no_changes_def info_head_def info_tail_def myinfo_text_def tag_text_def tag_fields_def)
qed

text \<open>A magic character does not make the text longer.\<close>

lemma length_myinfo_magic [simp]: "length (myinfo_text n (x\<lparr>ci_magic := c\<rparr>)) = length (myinfo_text n x)"
  by (simp add: myinfo_text_def tag_text_def tag_fields_def)

text \<open>
  C17. From the socket to the lists: what a client sends as \<open>$MyINFO\<close>, in the common form, is what is stored to be
  sent to the others once no script changes it, character for character except for the magic byte, in which the hub
  sets the bits for the addresses itself and which has no bits for TLS.
\<close>

theorem announced_as_sent:
  assumes "user_of a S = Inr u" and "well_formed x"
    and "\<not> (has_bits (m_ui32BoolBits u) BIT_IPV6 \<and> has_bits (m_ui32SupportBits u) SUPPORTBIT_IP64)"
    and "length (myinfo_text (m_sNick u) x) < 65536"
    and "length (myinfo_text (m_sNick u) x) \<le> global_buffer_size (fe_hub (se_flood env))"
    and "m_sMyInfoOriginal (m_Info u) = None" and "m_sTagVersion (m_Info u) = []" and "m_sEmail (m_Info u) = []"
    and "\<not> has_bits (m_ui32InfoBits u) INFOBIT_SHARE_LONG_PERM" and "m_sMyInfoLong u = []"
    and "length (myinfo_text (m_sNick u) x) < is_gsize cfg"
  shows "\<exists>S' u'. SetMyInfoOriginal env a (myinfo_text (m_sNick u) x) (of_nat (length (myinfo_text (m_sNick u) x))) S = Inr S'
    \<and> user_of a S' = Inr u'
    \<and> (\<forall>st. ig_user st = u' \<longrightarrow> ig_long st = no_changes \<longrightarrow> (\<exists>st'. GenerateMyInfoLong cfg st = Inr (st', True)
          \<and> m_sMyInfoLong (ig_user st') = myinfo_text (m_sNick u) (x\<lparr>ci_magic := char_of_byte (shown_magic u')\<rparr>)))"
proof -
  have v: "m_sMyInfoOriginal (m_Info u) = None \<longrightarrow> m_sTagVersion (m_Info u) = []" using assms(7) by simp
  obtain S' u' where r: "SetMyInfoOriginal env a (myinfo_text (m_sNick u) x) (of_nat (length (myinfo_text (m_sNick u) x))) S = Inr S'"
    "user_of a S' = Inr u'" and d: "m_sDescription (m_Info u') = ci_desc x" "m_sTag (m_Info u') = tag_text x"
    "m_sConnection (m_Info u') = ci_speed x" and e: "ci_email x \<noteq> [] \<longrightarrow> m_sEmail (m_Info u') = ci_email x"
    "ci_email x = [] \<longrightarrow> m_sEmail (m_Info u') = (if m_sMyInfoOriginal (m_Info u) = None then m_sEmail (m_Info u) else [])"
    and n: "m_sNick u' = m_sNick u" "m_sMyInfoLong u' = m_sMyInfoLong u"
    and c: "\<not> has_bits (m_ui32InfoBits u) INFOBIT_SHARE_LONG_PERM \<longrightarrow> m_ui64ChangedSharedSizeLong (m_Info u') = of_nat (ci_share x)"
    using MyINFO_read [OF assms(1-5) v] by blast
  have f: "m_sEmail (m_Info u') = ci_email x" "m_ui64ChangedSharedSizeLong (m_Info u') = of_nat (ci_share x)"
    using e c assms(6,8,9) by (cases "ci_email x = []"; simp)+
  have k: "m_sNick u' = m_sNick u" "m_sMyInfoLong u' = []" using n assms(10) by simp_all
  have t: "long_text u' no_changes = myinfo_text (m_sNick u) (x\<lparr>ci_magic := char_of_byte (shown_magic u')\<rparr>)" (is "_ = ?t")
    using long_text_sent [OF d f] assms(2) k by (simp add: well_formed_def)
  have "\<exists>st'. GenerateMyInfoLong cfg st = Inr (st', True) \<and> m_sMyInfoLong (ig_user st') = ?t"
    if "ig_user st = u'" "ig_long st = no_changes" for st
    using GenerateMyInfoLong_run [of u' st cfg] that assms(4,11) k unfolding that t by (simp add: UserSetMyInfoLong_def)
  with r show ?thesis by blast
qed

section \<open>Stripped parts\<close>

text \<open>The state of a user with other parts.\<close>

definition with_parts :: "string \<Rightarrow> string \<Rightarrow> string \<Rightarrow> string \<Rightarrow> info_state \<Rightarrow> info_state" where
  "with_parts d g n e st = st\<lparr>ig_user := mod_info (\<lambda>i. i\<lparr>m_sDescription := d, m_sTag := g, m_sConnection := n, m_sEmail := e\<rparr>) (ig_user st)\<rparr>"

definition strips_all :: "info_settings \<Rightarrow> bool" where
  "strips_all cfg \<longleftrightarrow> is_strip_description cfg \<and> is_strip_tag cfg \<and> is_strip_connection cfg \<and> is_strip_email cfg"

definition shown_short :: "info_state \<times> bool \<Rightarrow> (string \<times> Users \<times> bool) res" where
  "shown_short r = Inr (m_sMyInfoShort (ig_user (fst r)), ig_lists (fst r), snd r)"

lemma short_parts_stripped:
  assumes "strips_all cfg" and "\<not> is_mode_to_description cfg"
  shows "short_parts cfg (ig_user (with_parts d g n e st)) no_changes = short_parts cfg (ig_user st) no_changes"
  using assms by (simp add: short_parts_def Let_def split_beta info_part_def no_changes_def mode_prefix_def strips_all_def with_parts_def shown_magic_def)

lemma with_parts_fields:
  "m_sNick (ig_user (with_parts d g n e st)) = m_sNick (ig_user st)" "m_sMyInfoShort (ig_user (with_parts d g n e st)) = m_sMyInfoShort (ig_user st)"
  "m_sModes (m_Info (ig_user (with_parts d g n e st))) = m_sModes (m_Info (ig_user st))" "ig_short (with_parts d g n e st) = ig_short st"
  "m_ui64ChangedSharedSizeShort (m_Info (ig_user (with_parts d g n e st))) = m_ui64ChangedSharedSizeShort (m_Info (ig_user st))"
  "ig_lists (with_parts d g n e st) = ig_lists st" "ig_ext (with_parts d g n e st) = ig_ext st"
  by (simp_all add: with_parts_def)

lemma rbind_cong_inr: "(\<And>x. m = Inr x \<Longrightarrow> f x = g x) \<Longrightarrow> rbind m f = rbind m g"
  by (cases m) simp_all

lemma set_short_shown:
  "m_sMyInfoShort (ig_user s) = m_sMyInfoShort (ig_user s') \<Longrightarrow> ig_lists s = ig_lists s' \<Longrightarrow> ig_ext s = ig_ext s' \<Longrightarrow>
    rbind (rbind (UserSetMyInfoShort cfg t s) (\<lambda>st3. Inr (st3, True))) shown_short =
    rbind (rbind (UserSetMyInfoShort cfg t s') (\<lambda>st3. Inr (st3, True))) shown_short"
  by (simp add: UserSetMyInfoShort_def Users_DelFromMyInfos_def rbind_assoc shown_short_def)


section \<open>Concrete runs\<close>

definition demo_settings :: info_settings where
  "demo_settings = \<lparr>is_gsize = 1024, is_full_option = 0, is_mode_to_description = False, is_mode_to_myinfo = False, is_strip_description = False,
     is_strip_tag = False, is_strip_connection = False, is_strip_email = False, is_delay = 5, is_tick = 200, is_report_tag = False,
     is_status_messages = False, is_status_as_pm = False, is_hub_sec = ''Hub'', is_lan_suspicious = [], is_lan_full_description = [], is_raw = []\<rparr>"

definition demo_line :: "string \<Rightarrow> string" where
  "demo_line d = ''$MyINFO $ALL ann '' @ d @ ''$ $A'' @ [CHR 0x41] @ ''$$0$|''"

definition demo_state :: info_state where
  "demo_state = \<lparr>ig_user = blank_user\<lparr>m_sNick := ''ann'', m_sMyInfoLong := demo_line ''old'', m_ui32BoolBits := BIT_IPV4,
       m_Info := blank_info\<lparr>m_sDescription := ''new'', m_sConnection := ''A'', m_ui8MagicByte := 0x21\<rparr>\<rparr>,
     ig_long = no_changes, ig_short = no_changes, ig_myinfo_tick = 0, ig_json_user = False, ig_ext = None, ig_json_tick = 0,
     ig_lists = (new_Users 0)\<lparr>m_TagTexts := new_list 256 (demo_line ''old'' @ ''$MyINFO $ALL bob $ $B!$$1$|'')\<rparr>,
     ig_queue = new_GlobalDataQueue\<rparr>"

lemma demo_text: "long_text (ig_user demo_state) (ig_long demo_state) = demo_line ''new''"
proof -
  have "to_dec 0 = ''0''" using char_of_char [of "CHR ''0''"] by (simp add: to_dec.simps)
  moreover have "char_of_byte 0x41 = CHR 0x41" using char_of_byte_of [of "CHR 0x41"] by (simp add: byte_of_def)
  ultimately show ?thesis
    by (simp add: long_text_def long_parts_text info_part_def info_head_def info_tail_def demo_state_def no_changes_def blank_user_def
        blank_info_def demo_line_def shown_magic_def has_bits_def user_bits)
qed

lemma demo_facts:
  "announced [demo_line ''old'', ''$MyINFO $ALL bob $ $B!$$1$|''] (m_TagTexts (ig_lists demo_state))"
  "\<forall>a \<in> set [demo_line ''old'', ''$MyINFO $ALL bob $ $B!$$1$|'']. info_line a"
  "stored (ig_user demo_state) (m_sMyInfoLong (ig_user demo_state))" "tidy (ig_user demo_state) (ig_long demo_state)"
  "is_full_option demo_settings \<noteq> 2" "length (long_text (ig_user demo_state) (ig_long demo_state)) < min (is_gsize demo_settings) 65536"
  unfolding demo_text
  by (simp_all add: demo_state_def demo_line_def announced_def sound_def new_list_def tl_text_def resize_def info_line_def stored_def
      tidy_def plain_def no_changes_def blank_user_def blank_info_def info_head_def has_bits_def user_bits demo_settings_def)


lemma told_once_witness:
  "\<exists>st. tell_long demo_settings demo_state = Inr st \<and> tell_long demo_settings st = Inr st"
proof -
  have "snd (long_parts (ig_user demo_state) (ig_long demo_state)) = ig_long demo_state"
    by (simp add: long_parts_def Let_def split_beta info_part_def demo_state_def no_changes_def)
  moreover have "reset_long_share (ig_user demo_state) = ig_user demo_state"
    by (simp add: reset_long_share_def demo_state_def blank_user_def blank_info_def)
  ultimately show ?thesis by (rule told_once [OF demo_facts])
qed

lemma announced_as_sent_witness:
  "\<exists>S' u' st. SetMyInfoOriginal demo_server_env 1 (myinfo_text ''alice'' demo_info) 68 (demo_server demo_hub demo_regs) = Inr S'
    \<and> user_of 1 S' = Inr u' \<and> GenerateMyInfoLong demo_settings (demo_state\<lparr>ig_user := u'\<rparr>) = Inr (st, True)
    \<and> m_sMyInfoLong (ig_user st) = myinfo_text ''alice'' (demo_info\<lparr>ci_magic := char_of_byte (shown_magic u')\<rparr>)"
proof -
  have n: "(of_nat 68 :: u16) = 68" by simp
  have h: "(68::nat) < 65536" "(68::nat) \<le> 262144" "m_sMyInfoOriginal (m_Info demo_member) = None" "m_sEmail (m_Info demo_member) = []"
    "\<not> has_bits (m_ui32InfoBits demo_member) INFOBIT_SHARE_LONG_PERM" "m_sMyInfoLong demo_member = []" "(68::nat) < is_gsize demo_settings"
    by (simp_all add: demo_member_def blank_user_def blank_info_def has_bits_def user_bits demo_settings_def)
  have "ig_long (demo_state\<lparr>ig_user := v\<rparr>) = no_changes" "ig_user (demo_state\<lparr>ig_user := v\<rparr>) = v" for v by (simp_all add: demo_state_def)
  with announced_as_sent [OF demo_sent(1-3), of demo_server_env, unfolded demo_sent(4,5,7) n, OF h(1-3) demo_sent(6) h(4-7)]
  show ?thesis by blast
qed


end
