(* ===== verification/Spec2Isabelle.thy ===== *)
theory Spec2Isabelle
  imports BanReach UserSend UserLines ReservedNicks TextFormat FloodGate UserRecv ProfileFile RegPrivileges MyInfoRound LoginRun UserListsSpec
    DataQueueSpec BanFile GlobalChat MyInfoGenSpec
begin

text \<open>
  A verification development for the Direct Connect hub under \<open>src/core\<close>.

  Parts of the program.  A hub accepts connections (\<open>ServerThread\<close>), moves each user through its login in a tick
  of the main loop (\<open>serviceLoop\<close>), cuts what a user sends into commands and handles them (\<open>User.cpp\<close>,
  \<open>DcCommands.cpp\<close>), under the flood control of \<open>DeFlood.cpp\<close>, against the managers of bans
  (\<open>hashBanManager\<close>), registered users (\<open>hashRegManager\<close>), profiles of rights (\<open>ProfileManager\<close>), reserved nicks
  (\<open>ResNickManager\<close>) and users on line (\<open>hashUsrManager\<close>), and sends the answers through a buffer per
  user.  The managers keep their data in files of one binary format (\<open>PXBReader\<close>).

  How the model reads.  A C++ object is a record with the fields of its class; a pointer is an address of an explicit heap
  (\<open>Hub_Prelude\<close>), and reading or writing through an address that is not allocated is the fault \<open>UseAfterFree\<close>,
  deleting it the fault \<open>DoubleFree\<close>, writing outside a buffer \<open>BufferOverflow\<close>, leaving through \<open>exit\<close> is \<open>ProcessExit\<close>: an operation that may run into one
  of these returns a value of \<open>'a res = fault + 'a\<close>, threaded by \<open>rbind\<close>.  Machine integers are words of
  the declared width.  C strings are lists of characters without the terminating NUL; where the code relies on the NUL
  (\<open>cget\<close>) reading at the length gives it.  What lies outside the repository is an argument: the socket, the clock,
  \<open>inet_pton\<close> for IPv6, the password hash, the compressor, the growth of a vector's capacity, formatted
  texts and the settings.

  Theories and what they model.
  \<^item> \<open>Hub_Prelude\<close>: faults, heap, bits, intrusive double-linked chains and their locale-free theory.
  \<^item> \<open>Utility\<close>, \<open>TextFormat\<close>, \<open>MsgBuffer\<close> (\<open>utility.cpp\<close>, \<open>utility.h\<close>): key of a lock, nick and address hashes,
    numbers, durations, the bounded appends and the global buffer.
  \<^item> \<open>ReservedNicks\<close> (\<open>ResNickManager\<close>): the reserved nicks as a set without regard to case, and their file.
  \<^item> \<open>UserState\<close>, \<open>UserHash\<close> (\<open>User.h\<close>, \<open>hashUsrManager\<close>): the user object with its connection states; the nick map
    and the chain of users per address, with the invariant that every reachable table agrees with the chains.
  \<^item> \<open>SendBuffer\<close>, \<open>UserIO\<close>, \<open>UserClose\<close>, \<open>UserSend\<close> (\<open>User.cpp\<close>): the send buffer as a byte queue whose every write is
    inside its allocation; queueing, sending, closing; each keeps the hub consistent.
  \<^item> \<open>UserLines\<close>, \<open>UserRecv\<close> (\<open>User.cpp\<close>): the receive buffer and the cutting of received bytes into commands.
  \<^item> \<open>BanManager\<close>, \<open>BanTables\<close>, \<open>BanLookup\<close>, \<open>BanOps\<close>, \<open>BanSpec\<close>, \<open>BanRange\<close>, \<open>BanReach\<close> (\<open>hashBanManager\<close>): ban objects, the two
    tables and two owning lists; lookups; the ban and unban commands; what each promises; range bans; and the
    invariant along every sequence of commands.
  \<^item> \<open>BanFile\<close> (\<open>hashBanManager\<close>): the files of bans and range bans, what comes back from them, and the ban that keeps the hub
    from starting.
  \<^item> \<open>FloodTexts\<close>, \<open>DeFlood\<close>, \<open>FloodActions\<close>, \<open>FloodGate\<close> (\<open>DeFlood.cpp\<close>): the checks, the punishments, and the checks as
    rate limiters.
  \<^item> \<open>PxbFormat\<close>, \<open>PxbRound\<close> (\<open>PXBReader.cpp\<close>): the record files, and their round trip.
  \<^item> \<open>RegTable\<close>, \<open>RegFile\<close>, \<open>RegManager\<close>, \<open>RegPrivileges\<close> (\<open>hashRegManager\<close>): registrations, their file, and the privileges
    of on-line users which follow their registration.
  \<^item> \<open>ProfileManager\<close>, \<open>ProfileRights\<close>, \<open>ProfileFile\<close> (\<open>ProfileManager\<close>): the table of rights, its renumbering and its file.
  \<^item> \<open>UserLists\<close>, \<open>UserListsSpec\<close> (\<open>colUsers.cpp\<close>): the nicks, operators, addresses and announcements of all users as texts in
    growing buffers; they follow the lists of names along any sequence of users coming and going, and where they do not.
  \<^item> \<open>GlobalChat\<close> (\<open>colUsers.cpp\<close>): the limit and the lock on the main chat of all users together.
  \<^item> \<open>DataQueue\<close>, \<open>DataQueueSpec\<close> (\<open>GlobalDataQueue.cpp\<close>): the broadcast queue of a tick, filtered and compressed once for
    each kind of users, and the sending of it; its buffers, who shares a queue with whom, and the faults on the way.
  \<^item> \<open>Country\<close> (\<open>IP2Country\<close>): the table of address ranges, its file and the lookups for IPv4, tunnelled and IPv6 addresses.
  \<^item> \<open>Server\<close>: the state the login works on (\<open>server\<close>: hub, bans, registrations, profiles, reserved nicks, counters,
    reconnect times of \<open>colUsers.cpp\<close>, failed passwords) and what it gets from outside (\<open>server_env\<close>: settings, texts,
    lists, scripts, the sockets); the faultable steps on one user that all handlers are made of.
  \<^item> \<open>BanMessage\<close> (\<open>utility.cpp\<close>): the text a banned user gets.
  \<^item> \<open>MyInfo\<close>, \<open>MyInfoRound\<close> (\<open>User.cpp\<close>): the parser of the announcement, what it stores, the rules; and that it reads back
    what a client wrote.
  \<^item> \<open>MyInfoGen\<close>, \<open>MyInfoGenSpec\<close> (\<open>User.cpp\<close>, the end of \<open>ProcessCmds\<close> in \<open>DcCommands.cpp\<close>): the two announcements the hub makes of
    a user, what scripts replace in them included, how they get into the lists and the broadcast queue; that what a client
    sends is what the others are sent, that a new announcement takes the place of the old one, and that stripped parts
    do not show.
  \<^item> \<open>Login\<close>, \<open>LoginCommands\<close>, \<open>LoginDispatch\<close> (\<open>DcCommands.cpp\<close>): the checks of a nick, the commands of the login and the
    password, and the dispatch of \<open>PreProcessData\<close> by state.
  \<^item> \<open>ServiceLoop\<close> (\<open>serviceLoop.cpp\<close>): the list of proxies, taking in a connection, the turns of both loops for connections
    that log in or close; a closing connection goes, unless it is a stalled pinger.
  \<^item> \<open>LoginFrames\<close>, \<open>LoginSafety\<close>, \<open>LoginGuard\<close>, \<open>LoginExample\<close>, \<open>LoginRun\<close>: what each step leaves alone, the invariant that a
    connection under a registered nick is either waiting for its password or has proved it, that every command and turn
    keeps it, a login evaluated step by step, and the theorem on whole runs.
  Bounds and fuel.  \<open>walk_ip\<close> and its relatives follow a chain with fuel one more than the number of addresses ever
  allocated, which no chain exceeds (\<open>BanTables\<close>); \<open>read_subs\<close> and \<open>read_all\<close> have fuel one more than the bytes left,
  and every well-formed item takes at least four of them (\<open>PxbRound\<close>).  A stalled connection is bounded by the number
  of its turns, not by fuel (\<open>ServiceLoop\<close>).  The remaining loops are structural or have a
  \<open>termination\<close> proof.

  Interfaces.  Six contracts are locales: a node of an intrusive chain (\<open>chain_node\<close>, interpreted on users and on bans), a queue of
  bytes (\<open>byte_fifo\<close>, on the send buffer), a gate with a limit per window (\<open>rate_gate\<close>, on the limit of the main chat), one that refuses
  only what is over the limit (\<open>counting_gate\<close>, which extends it, on both counting flood checks), a renumbering of profiles (\<open>renumbering\<close>, on removal and on exchange) and a list of names kept as a text
  (\<open>listed_names\<close>, on the lists of nicks, of operators and of addresses).

  What is not modelled.  The commands of users who are on line or about to be, and the turns of the loops that bring a user on
  line, are the argument \<open>later\<close> of the dispatch and of the turns; in the login the texts of the lists of users are the argument
  \<open>se_lists\<close> (the lists themselves are \<open>UserLists\<close>), the scripts \<open>se_lua\<close>, so the Lua interpreter and its bindings are left out.  Log and debug output, the optional
  database, the metrics and the XML imports; socket options; failures of file operations and of memory allocation; the
  parsing of the JSON extension of users; the ranges of IPv6 countries as a file; threads, signals and process start.  The manifest
  lists each source with the reason.
\<close>

end
